(* ===== verification/Prelude.thy ===== *)
theory Prelude
  imports Main
begin

text \<open>
  Shared ground of the development: the collections the component proofs draw on, errors as values
  of a sum type (Go's \<open>(value, error)\<close> pair with the value dropped when the error is set), byte
  predicates for the regular expressions of the wire checks, and keyed tables (a list of rows with
  a key, as a SQL table with a UNIQUE column).
\<close>

section \<open>Collections\<close>

named_theorems enum_simps \<open>the executable equations of the enumerations' predicates\<close>
named_theorems valid_defs \<open>definitions of the wire checks\<close>
named_theorems tx_defs \<open>definitions of the queue's transactions\<close>
named_theorems inv_intros \<open>an operation keeps the invariant of the jobs table\<close>

section \<open>Errors as values\<close>

type_synonym go_error = "string option" \<comment> \<open>\<open>None\<close> is Go's nil\<close>

definition bind_err :: "'e + 'a \<Rightarrow> ('a \<Rightarrow> 'e + 'b) \<Rightarrow> 'e + 'b" where
  "bind_err m f = (case m of Inl e \<Rightarrow> Inl e | Inr a \<Rightarrow> f a)"

lemma bind_err_simps [simp]:
  "bind_err (Inl e) f = Inl e"
  "bind_err (Inr a) f = f a"
  by (simp_all add: bind_err_def)

lemma bind_err_Inr_iff: "bind_err m f = Inr b \<longleftrightarrow> (\<exists>a. m = Inr a \<and> f a = Inr b)"
  by (cases m) auto

lemma bind_err_Inl_iff: "bind_err m f = Inl e \<longleftrightarrow> m = Inl e \<or> (\<exists>a. m = Inr a \<and> f a = Inl e)"
  by (cases m) auto

text \<open>The first error of a list of checks, as a Go function that returns at the first failing \<open>if\<close>.\<close>

fun first_error :: "(bool \<times> string) list \<Rightarrow> go_error" where
  "first_error [] = None"
| "first_error ((bad, msg) # cs) = (if bad then Some msg else first_error cs)"

lemma first_error_None_iff: "first_error cs = None \<longleftrightarrow> (\<forall>c \<in> set cs. \<not> fst c)"
  by (induction cs rule: first_error.induct) auto

text \<open>A traversal that stops at the first error, keeping the results in order.\<close>

fun map_err :: "('a \<Rightarrow> 'e + 'b) \<Rightarrow> 'a list \<Rightarrow> 'e + 'b list" where
  "map_err f [] = Inr []"
| "map_err f (x # xs) = bind_err (f x) (\<lambda>y. bind_err (map_err f xs) (\<lambda>ys. Inr (y # ys)))"

lemma map_err_Inr_iff: "map_err f xs = Inr ys \<longleftrightarrow> list_all2 (\<lambda>x y. f x = Inr y) xs ys"
  by (induction xs arbitrary: ys) (auto simp: bind_err_Inr_iff list_all2_Cons1)

lemma map_err_length: "map_err f xs = Inr ys \<Longrightarrow> length ys = length xs"
  by (auto simp: map_err_Inr_iff dest: list_all2_lengthD)

lemma map_err_total:
  assumes "\<And>x. x \<in> set xs \<Longrightarrow> f x = Inr (g x)"
  shows "map_err f xs = Inr (map g xs)"
  using assms by (induction xs) auto

section \<open>Bytes and strings\<close>

text \<open>A Go string is a sequence of bytes; \<open>string\<close> is a list of 8-bit characters.\<close>

definition byte_of :: "char \<Rightarrow> nat" where
  "byte_of c = of_char c"

definition is_digit :: "char \<Rightarrow> bool" where
  "is_digit c \<longleftrightarrow> 48 \<le> byte_of c \<and> byte_of c \<le> 57"

definition is_lower :: "char \<Rightarrow> bool" where
  "is_lower c \<longleftrightarrow> 97 \<le> byte_of c \<and> byte_of c \<le> 122"

definition is_upper :: "char \<Rightarrow> bool" where
  "is_upper c \<longleftrightarrow> 65 \<le> byte_of c \<and> byte_of c \<le> 90"

definition is_hex :: "char \<Rightarrow> bool" where
  "is_hex c \<longleftrightarrow> is_digit c \<or> (97 \<le> byte_of c \<and> byte_of c \<le> 102)"

definition has_prefix :: "string \<Rightarrow> string \<Rightarrow> bool" where
  "has_prefix p s \<longleftrightarrow> take (length p) s = p"

lemma has_prefix_append [simp]: "has_prefix p (p @ s)"
  by (simp add: has_prefix_def)

lemma has_prefix_iff: "has_prefix p s \<longleftrightarrow> (\<exists>t. s = p @ t)"
  by (metis append_eq_conv_conj append_take_drop_id has_prefix_def)

lemma byte_of_inject [simp]: "byte_of a = byte_of b \<longleftrightarrow> a = b"
  by (simp add: byte_of_def)

text \<open>UTF-8 validity as \<open>unicode/utf8.ValidString\<close> decides it, over the bytes.\<close>

definition cont_byte :: "nat \<Rightarrow> bool" where
  "cont_byte b \<longleftrightarrow> 128 \<le> b \<and> b \<le> 191"

fun utf8_valid :: "nat list \<Rightarrow> bool" where
  "utf8_valid [] = True"
| "utf8_valid [a] = (a < 128)"
| "utf8_valid [a, b] = (if a < 128 then b < 128 else 194 \<le> a \<and> a \<le> 223 \<and> cont_byte b)"
| "utf8_valid [a, b, c] =
     (if a < 128 then utf8_valid [b, c]
      else if 194 \<le> a \<and> a \<le> 223 then cont_byte b \<and> utf8_valid [c]
      else if a = 224 then 160 \<le> b \<and> b \<le> 191 \<and> cont_byte c
      else if a = 237 then 128 \<le> b \<and> b \<le> 159 \<and> cont_byte c
      else 225 \<le> a \<and> a \<le> 239 \<and> cont_byte b \<and> cont_byte c)"
| "utf8_valid (a # b # c # d # s) =
     (if a < 128 then utf8_valid (b # c # d # s)
      else if 194 \<le> a \<and> a \<le> 223 then cont_byte b \<and> utf8_valid (c # d # s)
      else if a = 224 then 160 \<le> b \<and> b \<le> 191 \<and> cont_byte c \<and> utf8_valid (d # s)
      else if a = 237 then 128 \<le> b \<and> b \<le> 159 \<and> cont_byte c \<and> utf8_valid (d # s)
      else if 225 \<le> a \<and> a \<le> 239 then cont_byte b \<and> cont_byte c \<and> utf8_valid (d # s)
      else if a = 240 then 144 \<le> b \<and> b \<le> 191 \<and> cont_byte c \<and> cont_byte d \<and> utf8_valid s
      else if 241 \<le> a \<and> a \<le> 243 then cont_byte b \<and> cont_byte c \<and> cont_byte d \<and> utf8_valid s
      else a = 244 \<and> 128 \<le> b \<and> b \<le> 143 \<and> cont_byte c \<and> cont_byte d \<and> utf8_valid s)"

text \<open>
  A control character (\<open>unicode.IsControl\<close>: U+0000 to U+001F and U+007F to U+009F) of a valid UTF-8
  text. A two-byte one is 194 followed by 128 to 159; no byte inside a longer sequence is 194.
\<close>

fun has_control :: "nat list \<Rightarrow> bool" where
  "has_control [] = False"
| "has_control (a # s) =
     (a < 32 \<or> a = 127 \<or> (a = 194 \<and> (case s of [] \<Rightarrow> False | b # _ \<Rightarrow> 128 \<le> b \<and> b \<le> 159)) \<or> has_control s)"

section \<open>Keyed tables\<close>

text \<open>
  A table is a list of rows; \<open>key\<close> reads its UNIQUE column. \<open>lookup_by\<close> is
  \<open>SELECT ... WHERE key = ?\<close> on one row and \<open>update_by\<close> is \<open>UPDATE ... WHERE key = ?\<close>.
\<close>

definition lookup_by :: "('r \<Rightarrow> 'k) \<Rightarrow> 'k \<Rightarrow> 'r list \<Rightarrow> 'r option" where
  "lookup_by key k rs = List.find (\<lambda>r. key r = k) rs"

definition update_by :: "('r \<Rightarrow> 'k) \<Rightarrow> 'k \<Rightarrow> ('r \<Rightarrow> 'r) \<Rightarrow> 'r list \<Rightarrow> 'r list" where
  "update_by key k f rs = map (\<lambda>r. if key r = k then f r else r) rs"

definition unique_by :: "('r \<Rightarrow> 'k) \<Rightarrow> 'r list \<Rightarrow> bool" where
  "unique_by key rs \<longleftrightarrow> distinct (map key rs)"

lemma lookup_by_simps [simp]:
  "lookup_by key k [] = None"
  "lookup_by key k (r # rs) = (if key r = k then Some r else lookup_by key k rs)"
  by (simp_all add: lookup_by_def)

lemma lookup_by_Some:
  "lookup_by key k rs = Some r \<Longrightarrow> r \<in> set rs \<and> key r = k"
  by (induction rs) (auto split: if_splits)

lemma lookup_by_None_iff: "lookup_by key k rs = None \<longleftrightarrow> (\<forall>r \<in> set rs. key r \<noteq> k)"
  by (induction rs) auto

lemma lookup_by_unique:
  "unique_by key rs \<Longrightarrow> r \<in> set rs \<Longrightarrow> lookup_by key (key r) rs = Some r"
  by (induction rs) (auto simp: unique_by_def rev_image_eqI)

lemma lookup_by_unique_iff:
  "unique_by key rs \<Longrightarrow> lookup_by key k rs = Some r \<longleftrightarrow> r \<in> set rs \<and> key r = k"
  by (auto dest: lookup_by_Some lookup_by_unique)

lemma lookup_by_append:
  "lookup_by key k (rs @ ss) = (case lookup_by key k rs of None \<Rightarrow> lookup_by key k ss | Some r \<Rightarrow> Some r)"
  by (induction rs) auto

lemma map_key_update_by:
  "(\<And>r. key (f r) = key r) \<Longrightarrow> map key (update_by key k f rs) = map key rs"
  by (simp add: update_by_def comp_def if_distrib cong: if_cong)

lemma map_col_update_by:
  "(\<And>r. key r = k \<Longrightarrow> col (f r) = col r) \<Longrightarrow> map col (update_by key k f rs) = map col rs"
  by (auto simp: update_by_def)

lemma unique_update_by [intro]:
  "unique_by key rs \<Longrightarrow> (\<And>r. key (f r) = key r) \<Longrightarrow> unique_by key (update_by key k f rs)"
  by (simp add: unique_by_def map_key_update_by)

lemma lookup_update_by:
  "(\<And>r. key (f r) = key r) \<Longrightarrow>
   lookup_by key k' (update_by key k f rs) =
     (if k' = k then map_option f (lookup_by key k rs) else lookup_by key k' rs)"
  by (induction rs) (auto simp: update_by_def)

lemma set_update_by:
  "r \<in> set (update_by key k f rs) \<longleftrightarrow>
   (\<exists>s \<in> set rs. r = (if key s = k then f s else s))"
  unfolding update_by_def set_map image_iff by (rule refl)

lemma length_update_by [simp]: "length (update_by key k f rs) = length rs"
  by (simp add: update_by_def)

lemma update_by_absent: "lookup_by key k rs = None \<Longrightarrow> update_by key k f rs = rs"
  by (induction rs) (auto simp: update_by_def split: if_splits)

lemma unique_by_filter [intro]: "unique_by key rs \<Longrightarrow> unique_by key (filter P rs)"
  by (induction rs) (auto simp: unique_by_def)

lemma unique_by_snoc: "unique_by key (rs @ [r]) \<longleftrightarrow> unique_by key rs \<and> (\<forall>s \<in> set rs. key s \<noteq> key r)"
  by (auto simp: unique_by_def image_iff)

lemma lookup_by_filter:
  "unique_by key rs \<Longrightarrow>
   lookup_by key k (filter P rs) =
     (case lookup_by key k rs of None \<Rightarrow> None | Some r \<Rightarrow> if P r then Some r else None)"
proof (induction rs)
  case (Cons a rs)
  then have "unique_by key rs" and "\<forall>s \<in> set rs. key s \<noteq> key a"
    by (auto simp: unique_by_def image_iff)
  moreover from this have "lookup_by key (key a) rs = None" and "lookup_by key (key a) (filter P rs) = None"
    by (auto simp: lookup_by_None_iff)
  ultimately show ?case
    using Cons.IH by (cases "key a = k") auto
qed simp

end
