(* ===== verification/Wire.thy ===== *)
theory Wire
  imports Prelude
begin

text \<open>
  The wire types of wwd (\<open>internal/wwd/wire\<close>) that the queue and the worker share: the enumerations
  of \<open>enums.go\<close>, the job record with its parts and the requests of \<open>jobs.go\<close>, the alias rule of
  \<open>alias.go\<close>, the task label rule of \<open>earned.go\<close>, the cursor and epoch forms of \<open>api.go\<close> and the
  disagreement records of \<open>outcomes.go\<close>, each with its \<open>Validate\<close>. An enumeration is a Go string
  type: every string that is not one of its names is the constructor \<open>...Other\<close>, so that the
  validity checks decide something. Times are instants in milliseconds.
\<close>

section \<open>Enumerations\<close>

datatype zone = ZoneNormal | ZoneWarning | ZoneDanger | ZoneUnknown | ZoneOther string

fun zone_valid :: "zone \<Rightarrow> bool" where
  "zone_valid (ZoneOther _) = False"
| "zone_valid _ = True"

datatype job_class = ClassRelease | ClassMerge | ClassDev | ClassOther string

fun class_valid :: "job_class \<Rightarrow> bool" where
  "class_valid (ClassOther _) = False"
| "class_valid _ = True"

text \<open>\<open>PositionNone\<close> is the empty string: on a job, no manual place.\<close>

datatype position = PositionNone | PositionNormal | PositionFront | PositionBack | PositionHold | PositionOther string

fun valid_request :: "position \<Rightarrow> bool" where
  "valid_request PositionNormal = True"
| "valid_request PositionFront = True"
| "valid_request PositionBack = True"
| "valid_request PositionHold = True"
| "valid_request _ = False"

definition valid_on_job :: "position \<Rightarrow> bool" where
  "valid_on_job p \<longleftrightarrow> p = PositionNone \<or> (p \<noteq> PositionNormal \<and> valid_request p)"

datatype job_state =
    StateQueued | StateClaimed | StateRunning
  | StateSucceeded | StateFailed | StateCancelled | StateSuperseded | StateExpired
  | StateOther string

fun state_valid :: "job_state \<Rightarrow> bool" where
  "state_valid (StateOther _) = False"
| "state_valid _ = True"

fun terminal :: "job_state \<Rightarrow> bool" where
  "terminal StateSucceeded = True"
| "terminal StateFailed = True"
| "terminal StateCancelled = True"
| "terminal StateSuperseded = True"
| "terminal StateExpired = True"
| "terminal _ = False"

fun result_state :: "job_state \<Rightarrow> bool" where
  "result_state StateSucceeded = True"
| "result_state StateFailed = True"
| "result_state StateCancelled = True"
| "result_state StateSuperseded = True"
| "result_state _ = False"

datatype release_reason = ReleaseReclaim | ReleaseInfra | ReleaseOther string

definition reason_valid :: "release_reason \<Rightarrow> bool" where
  "reason_valid r \<longleftrightarrow> r = ReleaseReclaim \<or> r = ReleaseInfra"

text \<open>\<open>string(req.Reason)\<close>: the reason as text.\<close>

fun reason_text :: "release_reason \<Rightarrow> string" where
  "reason_text ReleaseReclaim = ''reclaim''"
| "reason_text ReleaseInfra = ''infra''"
| "reason_text (ReleaseOther s) = s"

lemma result_state_terminal: "result_state s \<Longrightarrow> terminal s"
  by (cases s) auto

lemma terminal_not_live [simp]:
  "\<not> terminal StateQueued" "\<not> terminal StateClaimed" "\<not> terminal StateRunning"
  by simp_all

section \<open>Forms\<close>

definition matches_hex32 :: "string \<Rightarrow> bool" where
  "matches_hex32 s \<longleftrightarrow> length s = 32 \<and> list_all is_hex s"

definition valid_claim_id :: "string \<Rightarrow> bool" where
  "valid_claim_id s \<longleftrightarrow> matches_hex32 s"

definition check_claim_id :: "string \<Rightarrow> go_error" where
  "check_claim_id s = (if valid_claim_id s then None else Some ''invalid claim_id'')"

definition valid_cursor :: "string \<Rightarrow> bool" where
  "valid_cursor s \<longleftrightarrow> 1 \<le> length s \<and> length s \<le> 18 \<and> list_all is_digit s"

definition valid_epoch :: "string \<Rightarrow> bool" where
  "valid_epoch s \<longleftrightarrow> matches_hex32 s"

definition max_alias_bytes :: nat where
  "max_alias_bytes = 128"

definition valid_alias :: "string \<Rightarrow> bool" where
  "valid_alias s \<longleftrightarrow> s \<noteq> '''' \<and> s \<noteq> ''.'' \<and> s \<noteq> ''..'' \<and> length s \<le> max_alias_bytes
     \<and> utf8_valid (map byte_of s) \<and> \<not> has_control (map byte_of s)"

definition valid_text :: "string \<Rightarrow> nat \<Rightarrow> bool" where
  "valid_text s mx \<longleftrightarrow> s \<noteq> '''' \<and> length s \<le> mx \<and> utf8_valid (map byte_of s) \<and> \<not> has_control (map byte_of s)"

text \<open>\<open>^j_[0-9A-Za-z_-]{1,64}$\<close>\<close>

definition id_char :: "char \<Rightarrow> bool" where
  "id_char c \<longleftrightarrow> is_digit c \<or> is_upper c \<or> is_lower c \<or> c = CHR ''_'' \<or> c = CHR ''-''"

definition matches_job_id :: "string \<Rightarrow> bool" where
  "matches_job_id s \<longleftrightarrow> has_prefix ''j_'' s \<and> 1 \<le> length (drop 2 s) \<and> length (drop 2 s) \<le> 64
     \<and> list_all id_char (drop 2 s)"

text \<open>\<open>^task:[A-Za-z0-9][A-Za-z0-9._-]{0,63}/[a-z0-9][a-z0-9_-]*$\<close>: no slash in either part, so the
  first slash after the prefix splits them.\<close>

definition repo_first :: "char \<Rightarrow> bool" where
  "repo_first c \<longleftrightarrow> is_digit c \<or> is_upper c \<or> is_lower c"

definition repo_rest :: "char \<Rightarrow> bool" where
  "repo_rest c \<longleftrightarrow> repo_first c \<or> c = CHR ''.'' \<or> c = CHR ''_'' \<or> c = CHR ''-''"

definition task_first :: "char \<Rightarrow> bool" where
  "task_first c \<longleftrightarrow> is_digit c \<or> is_lower c"

definition task_rest :: "char \<Rightarrow> bool" where
  "task_rest c \<longleftrightarrow> task_first c \<or> c = CHR ''_'' \<or> c = CHR ''-''"

definition re_task_label :: "string \<Rightarrow> bool" where
  "re_task_label s \<longleftrightarrow> has_prefix ''task:'' s \<and>
     (let body = drop 5 s;
          repo = takeWhile (\<lambda>c. c \<noteq> CHR ''/'') body;
          rest = dropWhile (\<lambda>c. c \<noteq> CHR ''/'') body
      in (case repo of [] \<Rightarrow> False | c # cs \<Rightarrow> repo_first c \<and> length cs \<le> 63 \<and> list_all repo_rest cs)
       \<and> (case rest of _ # c # cs \<Rightarrow> task_first c \<and> list_all task_rest cs | _ \<Rightarrow> False))"

definition valid_task_label :: "string \<Rightarrow> bool" where
  "valid_task_label s \<longleftrightarrow> length s \<le> 200 \<and> re_task_label s"

section \<open>The job and its parts\<close>

record repo =
  repo_name :: string
  repo_root :: string
  repo_remote :: string

record snapshot =
  snap_commit :: string
  snap_tree :: string
  snap_base :: string
  snap_rel_cwd :: string

record submitter =
  sub_session :: string
  sub_ref :: string
  sub_team :: string
  sub_host :: string

record claim =
  cl_worker :: string
  cl_attempt :: int
  cl_since :: int

record failure =
  fl_name :: string
  fl_file :: string
  fl_message :: string

record summary =
  sm_passed :: int
  sm_failed :: int
  sm_skipped :: int
  sm_failures :: "failure list"
  sm_tail :: "string list"
  sm_passed_digest :: string

text \<open>\<open>^sha256:[0-9a-f]{64}$\<close>\<close>

definition re_passed_digest :: "string \<Rightarrow> bool" where
  "re_passed_digest s \<longleftrightarrow> has_prefix ''sha256:'' s \<and> length (drop 7 s) = 64 \<and> list_all is_hex (drop 7 s)"

definition summary_validate :: "summary option \<Rightarrow> go_error" where
  "summary_validate s =
     (case s of None \<Rightarrow> None
      | Some s \<Rightarrow> (if sm_passed_digest s \<noteq> '''' \<and> \<not> re_passed_digest (sm_passed_digest s)
                  then Some ''summary: passed_digest is not sha256:<64 hex>'' else None))"

record result =
  r_exit :: "int option"
  r_summary :: "summary option"
  r_log :: string
  r_host :: string
  r_started_at :: "int option"
  r_finished_at :: "int option"
  r_cache_hit :: bool
  r_reason :: string
  r_superseded_by :: "string option"

text \<open>The zero value of the struct: what a field left out of a composite literal has.\<close>

definition zero_result :: result where
  "zero_result = \<lparr>r_exit = None, r_summary = None, r_log = '''', r_host = '''', r_started_at = None,
     r_finished_at = None, r_cache_hit = False, r_reason = '''', r_superseded_by = None\<rparr>"

definition result_validate :: "result option \<Rightarrow> go_error" where
  "result_validate r = (case r of None \<Rightarrow> None | Some r \<Rightarrow> summary_validate (r_summary r))"

record job =
  j_id :: string
  j_origin :: string
  j_repo :: repo
  j_snapshot :: snapshot
  j_task :: string
  j_args :: "string list"
  j_class :: job_class
  j_labels :: "string list"
  j_locks :: "string list"
  j_cacheable :: bool
  j_timeout_s :: int
  j_supersede_key :: string
  j_interruptible :: bool
  j_queue_timeout_s :: int
  j_adhoc :: bool
  j_local :: bool
  j_submitter :: submitter
  j_created_at :: int
  j_state :: job_state
  j_claim :: "claim option"
  j_result :: "result option"
  j_manual :: position
  j_manual_seq :: int
  j_started_at :: "int option"

record job_submission =
  s_repo :: repo
  s_snapshot :: snapshot
  s_task :: string
  s_args :: "string list"
  s_class :: job_class
  s_labels :: "string list"
  s_locks :: "string list"
  s_cacheable :: bool
  s_timeout_s :: int
  s_supersede_key :: string
  s_interruptible :: bool
  s_queue_timeout_s :: int
  s_adhoc :: bool
  s_submitter :: submitter
  s_def_hash :: string
  s_no_cache :: bool
  s_git_dir :: string

definition validate_payload :: "string \<Rightarrow> repo \<Rightarrow> snapshot \<Rightarrow> int \<Rightarrow> int \<Rightarrow> go_error" where
  "validate_payload task rp snap timeout_s queue_timeout_s = first_error
     [(task = '''', ''missing task''),
      (repo_name rp = '''', ''missing repo name''),
      (snap_commit snap = '''', ''missing snapshot commit''),
      (timeout_s < 0, ''negative timeout_s''),
      (queue_timeout_s < 0, ''negative queue_timeout_s'')]"

text \<open>\<open>filepath.IsAbs\<close> on a Unix host.\<close>

definition is_abs :: "string \<Rightarrow> bool" where
  "is_abs p \<longleftrightarrow> has_prefix ''/'' p"

definition submission_validate :: "job_submission \<Rightarrow> go_error" where
  "submission_validate s =
     (if \<not> class_valid (s_class s) then Some ''submission: invalid class''
      else case validate_payload (s_task s) (s_repo s) (s_snapshot s) (s_timeout_s s) (s_queue_timeout_s s) of
        Some e \<Rightarrow> Some (''submission: '' @ e)
      | None \<Rightarrow> (if \<not> is_abs (s_git_dir s) then Some ''submission: git_dir must be an absolute path'' else None))"

definition local_run_validate :: "job_submission \<Rightarrow> go_error" where
  "local_run_validate r =
     (case submission_validate r of Some e \<Rightarrow> Some e
      | None \<Rightarrow> (if s_cacheable r then Some ''local run: a fast-lane run is never cacheable'' else None))"

text \<open>\<open>strings.Contains(s, "/")\<close>\<close>

definition has_slash :: "string \<Rightarrow> bool" where
  "has_slash s \<longleftrightarrow> CHR ''/'' \<in> set s"

definition manual_seq_fits :: "position \<Rightarrow> int \<Rightarrow> bool" where
  "manual_seq_fits p n \<longleftrightarrow>
     \<not> (((p = PositionNone \<or> p = PositionHold) \<noteq> (n = 0))
        \<or> (p = PositionFront \<and> n > 0) \<or> (p = PositionBack \<and> n < 0))"

definition job_validate :: "job \<Rightarrow> go_error" where
  "job_validate j =
     (case first_error
        [(\<not> class_valid (j_class j), ''job: invalid class''),
         (\<not> state_valid (j_state j), ''job: invalid state''),
         (j_id j = '''' \<or> j_origin j = '''', ''job: missing id or origin''),
         (has_slash (j_id j), ''job: id holds a slash''),
         (j_local j \<and> j_cacheable j, ''job: a local job is never cacheable''),
         (\<not> valid_on_job (j_manual j), ''job: invalid manual place''),
         (\<not> manual_seq_fits (j_manual j) (j_manual_seq j), ''job: manual_seq does not fit the place'')] of
        Some e \<Rightarrow> Some e
      | None \<Rightarrow> (case result_validate (j_result j) of Some e \<Rightarrow> Some e
          | None \<Rightarrow> validate_payload (j_task j) (j_repo j) (j_snapshot j) (j_timeout_s j) (j_queue_timeout_s j)))"

section \<open>Requests\<close>

record claim_request =
  cr_worker :: string
  cr_labels :: "string list"
  cr_fingerprint :: "(string \<times> string) list"

definition claim_validate :: "claim_request \<Rightarrow> go_error" where
  "claim_validate r = (if cr_worker r = '''' then Some ''claim: missing worker'' else None)"

record release_request =
  rl_claim_id :: string
  rl_reason :: release_reason
  rl_detail :: string

definition release_validate :: "release_request \<Rightarrow> go_error" where
  "release_validate r =
     (case check_claim_id (rl_claim_id r) of Some e \<Rightarrow> Some e
      | None \<Rightarrow> (if \<not> reason_valid (rl_reason r) then Some ''release: invalid reason'' else None))"

record result_request =
  rq_claim_id :: string
  rq_state :: job_state
  rq_exit :: "int option"
  rq_summary :: "summary option"
  rq_started_at :: "int option"
  rq_finished_at :: "int option"
  rq_reason :: string

definition result_reasons :: "string list" where
  "result_reasons = [''oom'', ''timeout'', ''infra'']"

definition result_request_validate :: "result_request \<Rightarrow> go_error" where
  "result_request_validate r =
     (case check_claim_id (rq_claim_id r) of Some e \<Rightarrow> Some e
      | None \<Rightarrow> if \<not> result_state (rq_state r) then Some ''result: state cannot be posted''
        else case summary_validate (rq_summary r) of Some e \<Rightarrow> Some e
      | None \<Rightarrow> if rq_reason r \<noteq> '''' \<and> rq_reason r \<notin> set result_reasons
               then Some ''result: reason is not one a worker may post''
               else if rq_reason r \<noteq> '''' \<and> rq_state r \<noteq> StateFailed
               then Some ''result: reason goes with state failed'' else None)"

lemmas request_validate_defs [valid_defs] =
  claim_validate_def release_validate_def result_request_validate_def submission_validate_def
  local_run_validate_def check_claim_id_def

lemma result_request_validate_state:
  "result_request_validate r = None \<Longrightarrow> result_state (rq_state r)"
  by (auto simp: result_request_validate_def split: option.splits if_splits)

lemma result_request_validate_summary:
  "result_request_validate r = None \<Longrightarrow> summary_validate (rq_summary r) = None"
  by (auto simp: result_request_validate_def split: option.splits if_splits)

section \<open>The answers of a refused fast-lane registration\<close>

record lock_holder =
  lh_key :: string
  lh_job :: string

record locks_busy =
  lb_reason :: string
  lb_keys :: "string list"
  lb_holders :: "lock_holder list"

definition locks_busy_validate :: "locks_busy \<Rightarrow> go_error" where
  "locks_busy_validate b =
     (if lb_reason b \<noteq> ''locks_busy'' then Some ''locks busy: unexpected reason''
      else if lb_keys b = [] then Some ''locks busy: no keys''
      else if lb_holders b = [] then None
      else if length (lb_holders b) \<noteq> length (lb_keys b) then Some ''locks busy: holders for keys''
      else if list_ex (\<lambda>(h, k). lh_key h \<noteq> k \<or> lh_job h = '''') (zip (lb_holders b) (lb_keys b))
      then Some ''locks busy: holder'' else None)"

record slot_busy =
  sb_reason :: string
  sb_slot :: string
  sb_reasons :: "string list"

definition slot_busy_validate :: "slot_busy \<Rightarrow> go_error" where
  "slot_busy_validate b = first_error
     [(sb_reason b \<noteq> ''slot_busy'', ''slot busy: unexpected reason''),
      (sb_slot b \<noteq> ''light'' \<and> sb_slot b \<noteq> ''heavy'', ''slot busy: unknown slot''),
      (sb_reasons b = [], ''slot busy: no reasons'')]"

record local_run_response =
  lr_id :: string
  lr_claim_id :: string
  lr_lease_s :: int
  lr_renew_s :: int

definition local_run_response_validate :: "local_run_response \<Rightarrow> go_error" where
  "local_run_response_validate r = first_error
     [(lr_id r = '''', ''local run: missing id''),
      (check_claim_id (lr_claim_id r) \<noteq> None, ''local run: invalid claim_id''),
      (lr_lease_s r \<le> 0 \<or> lr_renew_s r \<le> 0, ''local run: lease_s and renew_s must be positive'')]"

section \<open>Disagreements\<close>

record disagreement =
  d_id :: int
  d_label :: string
  d_host :: string
  d_other_host :: string
  d_tree :: string
  d_task :: string
  d_jobs :: "string \<times> string"
  d_at :: "int option" \<comment> \<open>\<open>None\<close> is the zero time\<close>

definition disagreement_validate :: "disagreement \<Rightarrow> go_error" where
  "disagreement_validate d = first_error
     [(d_id d \<le> 0, ''disagreement: id''),
      (\<not> valid_task_label (d_label d), ''disagreement: label is not task:<repo>/<task>''),
      (\<not> valid_alias (d_host d) \<or> \<not> valid_alias (d_other_host d) \<or> d_host d = d_other_host d, ''disagreement: hosts''),
      (\<not> valid_text (d_tree d) 128 \<or> \<not> valid_text (d_task d) 128, ''disagreement: tree or task''),
      (\<not> matches_job_id (fst (d_jobs d)) \<or> \<not> matches_job_id (snd (d_jobs d)) \<or> fst (d_jobs d) = snd (d_jobs d),
       ''disagreement: jobs''),
      (d_at d = None, ''disagreement: no time'')]"

definition max_disagreements :: nat where
  "max_disagreements = 200"

record disagreement_list =
  dl_host :: string
  dl_cursor :: int
  dl_items :: "disagreement list"
  dl_origin :: string
  dl_more :: bool

text \<open>The loop over the items: each valid, about the host asked for, and above the one before.\<close>

fun disagreement_items_check :: "string \<Rightarrow> int \<Rightarrow> disagreement list \<Rightarrow> go_error" where
  "disagreement_items_check host prev [] = None"
| "disagreement_items_check host prev (d # ds) =
     (case disagreement_validate d of Some e \<Rightarrow> Some (''disagreements: '' @ e)
      | None \<Rightarrow> if d_host d \<noteq> host then Some ''disagreements: concerns another host''
               else if d_id d \<le> prev then Some ''disagreements: id is not above''
               else disagreement_items_check host (d_id d) ds)"

definition disagreement_list_validate :: "disagreement_list \<Rightarrow> go_error" where
  "disagreement_list_validate l =
     (if \<not> valid_alias (dl_host l) \<or> \<not> valid_alias (dl_origin l) then Some ''disagreements: host or origin''
      else if dl_cursor l < 0 \<or> length (dl_items l) > max_disagreements then Some ''disagreements: cursor''
      else case disagreement_items_check (dl_host l) 0 (dl_items l) of Some e \<Rightarrow> Some e
      | None \<Rightarrow> (if dl_items l \<noteq> [] \<and> dl_cursor l \<noteq> d_id (last (dl_items l))
                then Some ''disagreements: cursor is not the last id'' else None))"

lemma disagreement_items_check_None_iff:
  "disagreement_items_check host prev ds = None \<longleftrightarrow>
   sorted_wrt (<) (prev # map d_id ds) \<and> (\<forall>d \<in> set ds. disagreement_validate d = None \<and> d_host d = host)"
proof (induction ds arbitrary: prev)
  case (Cons d ds)
  show ?case
    using Cons.IH [of "d_id d"] by (auto simp: not_le split: option.splits intro: order.strict_trans [of prev "d_id d"])
qed simp

end
