(* ===== verification/JobTable.thy ===== *)
theory JobTable
  imports Wire
begin

text \<open>
  The tables of the job queue (\<open>internal/wwd/queue/schema.go\<close>) and the statements the queue runs on
  them. A row of \<open>jobs\<close> is a record; the columns a submission fixes and no \<open>UPDATE\<close> of the package
  names are kept together as the submission itself (\<open>c_sub\<close>). JSON columns hold the decoded value.
  A statement that updates a row lists the columns of its \<open>SET\<close> clause, because the trigger
  \<open>jobs_rev_upd\<close> fires on the list and not on the values.

  The second half states what every change of the table keeps: the well-formedness of the tables
  (\<open>db_wf\<close>) and the relation \<open>evolves\<close> between the table before and after (no job leaves its life
  cycle, the cursor numbers only go up, and a job whose visible form changed has a number above the
  old head). Both compose, so an operation is checked statement by statement.
\<close>

section \<open>Rows and tables\<close>

record job_row =
  c_seq :: int
  c_id :: string
  c_origin :: string
  c_sub :: job_submission
  c_created_at :: int
  c_state :: job_state
  c_attempts :: int
  c_lapses :: int
  c_claim_worker :: "string option"
  c_claim_id :: "string option"
  c_claim_since :: "int option"
  c_lease_deadline :: "int option"
  c_lease_s :: "int option"
  c_cancel_requested :: bool
  c_superseded_by :: "string option"
  c_result :: "result option"
  c_result_claim_id :: "string option"
  c_finished_at :: "int option"
  c_log_size :: "int option"
  c_log_at :: "int option"
  c_local :: bool
  c_pinned :: bool
  c_updated_at :: int
  c_rev :: int
  c_manual :: position
  c_manual_seq :: int
  c_claim_labels :: "string list"
  c_claim_fingerprint :: "(string \<times> string) list"
  c_started_at :: "int option"

record pin_row =
  p_id :: string
  p_git_dir :: string
  p_at :: int

datatype standing = StandingEarned | StandingReference

record outcome_row =
  t_seq :: int
  t_job_id :: string
  t_work_key :: string
  t_host :: string
  t_label :: string
  t_tree :: string
  t_task :: string
  t_ok :: bool
  t_standing :: standing
  t_at :: int

record disagreement_row =
  w_seq :: int
  w_host :: string
  w_label :: string
  w_other_host :: string
  w_tree :: string
  w_task :: string
  w_job_old :: string
  w_job_new :: string
  w_at :: int

text \<open>
  \<open>db_last_seq\<close> and its two siblings are the \<open>AUTOINCREMENT\<close> counters (the largest number ever
  given out), \<open>db_rev\<close> is the one row of \<open>job_rev\<close>.
\<close>

record db =
  db_jobs :: "job_row list"
  db_last_seq :: int
  db_rev :: int
  db_pins :: "pin_row list"
  db_outcomes :: "outcome_row list"
  db_outcome_seq :: int
  db_disagreements :: "disagreement_row list"
  db_disagreement_seq :: int
  db_epoch :: string

text \<open>The tables as \<open>createSchema\<close> makes them: empty, the counter at 0, one epoch.\<close>

definition create_schema :: "string \<Rightarrow> db" where
  "create_schema epoch = \<lparr>db_jobs = [], db_last_seq = 0, db_rev = 0, db_pins = [], db_outcomes = [],
     db_outcome_seq = 0, db_disagreements = [], db_disagreement_seq = 0, db_epoch = epoch\<rparr>"

section \<open>Statements\<close>

datatype column =
    ColState | ColAttempts | ColLapses | ColClaimWorker | ColClaimId | ColClaimSince | ColLeaseDeadline
  | ColLeaseS | ColCancelRequested | ColSupersededBy | ColResult | ColResultClaimId | ColFinishedAt
  | ColLogSize | ColLogAt | ColLocal | ColPinned | ColUpdatedAt | ColManual | ColManualSeq
  | ColClaimLabels | ColClaimFingerprint | ColStartedAt

text \<open>The columns whose mention in a \<open>SET\<close> moves \<open>jobs.rev\<close>.\<close>

definition rev_columns :: "column list" where
  "rev_columns = [ColState, ColResult, ColCancelRequested, ColSupersededBy, ColLogSize, ColClaimId,
                  ColManual, ColManualSeq]"

definition fires :: "column list \<Rightarrow> bool" where
  "fires cols \<longleftrightarrow> list_ex (\<lambda>c. List.member rev_columns c) cols"

lemma fires_simps [simp]:
  "fires [] = False"
  "fires (c # cs) = (c \<in> set rev_columns \<or> fires cs)"
  by (simp_all add: fires_def)

lemma set_rev_columns [simp]:
  "set rev_columns = {ColState, ColResult, ColCancelRequested, ColSupersededBy, ColLogSize, ColClaimId,
                      ColManual, ColManualSeq}"
  by (simp add: rev_columns_def)

definition find_job :: "string \<Rightarrow> db \<Rightarrow> job_row option" where
  "find_job jid d = lookup_by c_id jid (db_jobs d)"

text \<open>\<open>UPDATE jobs SET cols = ... WHERE id = ?\<close>, with the trigger \<open>jobs_rev_upd\<close>.\<close>

definition update_job :: "column list \<Rightarrow> string \<Rightarrow> (job_row \<Rightarrow> job_row) \<Rightarrow> db \<Rightarrow> db" where
  "update_job cols jid f d =
     (case find_job jid d of
        None \<Rightarrow> d
      | Some r \<Rightarrow>
          if fires cols
          then d\<lparr>db_jobs := update_by c_id jid (\<lambda>r. (f r)\<lparr>c_rev := db_rev d + 1\<rparr>) (db_jobs d), db_rev := db_rev d + 1\<rparr>
          else d\<lparr>db_jobs := update_by c_id jid f (db_jobs d)\<rparr>)"

text \<open>The row \<open>insertJob\<close> writes; the columns it does not name have their defaults.\<close>

definition new_row :: "string \<Rightarrow> string \<Rightarrow> job_submission \<Rightarrow> int \<Rightarrow> bool \<Rightarrow> job_row" where
  "new_row jid origin s now_ms pinned =
     \<lparr>c_seq = 0, c_id = jid, c_origin = origin, c_sub = s, c_created_at = now_ms, c_state = StateQueued,
      c_attempts = 0, c_lapses = 0, c_claim_worker = None, c_claim_id = None, c_claim_since = None,
      c_lease_deadline = None, c_lease_s = None, c_cancel_requested = False, c_superseded_by = None,
      c_result = None, c_result_claim_id = None, c_finished_at = None, c_log_size = None, c_log_at = None,
      c_local = False, c_pinned = pinned, c_updated_at = now_ms, c_rev = 0, c_manual = PositionNone,
      c_manual_seq = 0, c_claim_labels = [], c_claim_fingerprint = [], c_started_at = None\<rparr>"

datatype qerr =
    ErrNotFound
  | Conflict job_state
  | Refused string
  | ErrSnapshotRefused
  | ErrInvalidPosition
  | ErrLogTooLarge
  | ErrNoLogDir
  | ErrUnique
  | ErrStored string
  | ErrReference

text \<open>\<open>INSERT INTO jobs\<close>: the id is UNIQUE, the number is the next one, the trigger \<open>jobs_rev_ins\<close> fires.\<close>

definition insert_job :: "string \<Rightarrow> string \<Rightarrow> job_submission \<Rightarrow> int \<Rightarrow> bool \<Rightarrow> db \<Rightarrow> qerr + db" where
  "insert_job jid origin s now_ms pinned d =
     (case find_job jid d of
        Some _ \<Rightarrow> Inl ErrUnique
      | None \<Rightarrow> Inr (d\<lparr>db_jobs := db_jobs d @ [(new_row jid origin s now_ms pinned)\<lparr>c_seq := db_last_seq d + 1, c_rev := db_rev d + 1\<rparr>],
                      db_last_seq := db_last_seq d + 1, db_rev := db_rev d + 1\<rparr>))"

section \<open>The visible form of a row\<close>

text \<open>
  \<open>scanJob\<close>: the wire job of a row. The claim is shown only while someone holds it. The one failure
  of the scan that depends on the row is a stored result whose digest is malformed.
\<close>

definition row_claim :: "job_row \<Rightarrow> claim option" where
  "row_claim r =
     (case c_claim_worker r of
        Some w \<Rightarrow> (if c_state r = StateClaimed \<or> c_state r = StateRunning
                  then Some \<lparr>cl_worker = w, cl_attempt = c_attempts r + 1,
                             cl_since = (case c_claim_since r of Some t \<Rightarrow> t | None \<Rightarrow> 0)\<rparr>
                  else None)
      | None \<Rightarrow> None)"

definition row_job :: "job_row \<Rightarrow> job" where
  "row_job r =
     \<lparr>j_id = c_id r, j_origin = c_origin r, j_repo = s_repo (c_sub r), j_snapshot = s_snapshot (c_sub r),
      j_task = s_task (c_sub r), j_args = s_args (c_sub r), j_class = s_class (c_sub r),
      j_labels = s_labels (c_sub r), j_locks = s_locks (c_sub r), j_cacheable = s_cacheable (c_sub r),
      j_timeout_s = s_timeout_s (c_sub r), j_supersede_key = s_supersede_key (c_sub r),
      j_interruptible = s_interruptible (c_sub r), j_queue_timeout_s = s_queue_timeout_s (c_sub r),
      j_adhoc = s_adhoc (c_sub r), j_local = c_local r, j_submitter = s_submitter (c_sub r),
      j_created_at = c_created_at r, j_state = c_state r, j_claim = row_claim r, j_result = c_result r,
      j_manual = c_manual r, j_manual_seq = c_manual_seq r, j_started_at = c_started_at r\<rparr>"

definition scan_job :: "job_row \<Rightarrow> qerr + job" where
  "scan_job r = (case result_validate (c_result r) of Some e \<Rightarrow> Inl (ErrStored e) | None \<Rightarrow> Inr (row_job r))"

text \<open>Whether a peer may be shown the row: \<open>AND adhoc = 0 AND local = 0\<close>.\<close>

definition peer_visible :: "job_row \<Rightarrow> bool" where
  "peer_visible r \<longleftrightarrow> \<not> s_adhoc (c_sub r) \<and> \<not> c_local r"

definition find_for :: "bool \<Rightarrow> string \<Rightarrow> db \<Rightarrow> job_row option" where
  "find_for for_peers jid d =
     (case find_job jid d of Some r \<Rightarrow> if for_peers \<and> \<not> peer_visible r then None else Some r | None \<Rightarrow> None)"

definition get_on :: "bool \<Rightarrow> string \<Rightarrow> db \<Rightarrow> qerr + job" where
  "get_on for_peers jid d = (case find_for for_peers jid d of None \<Rightarrow> Inl ErrNotFound | Some r \<Rightarrow> scan_job r)"

section \<open>Well-formed tables\<close>

definition held_state :: "job_state \<Rightarrow> bool" where
  "held_state s \<longleftrightarrow> s = StateClaimed \<or> s = StateRunning"

definition max_lapses :: int where
  "max_lapses = 2"

definition row_queued_ok :: "job_row \<Rightarrow> bool" where
  "row_queued_ok r \<longleftrightarrow>
     c_claim_worker r = None \<and> c_claim_id r = None \<and> c_claim_since r = None \<and> c_lease_deadline r = None
     \<and> c_started_at r = None \<and> c_superseded_by r = None \<and> \<not> c_cancel_requested r \<and> \<not> c_local r
     \<and> c_result r = None \<and> c_result_claim_id r = None \<and> c_finished_at r = None"

definition row_held_ok :: "job_row \<Rightarrow> bool" where
  "row_held_ok r \<longleftrightarrow>
     c_claim_worker r \<noteq> None \<and> c_claim_id r \<noteq> None \<and> c_claim_since r \<noteq> None \<and> c_lease_deadline r \<noteq> None
     \<and> c_lease_s r \<noteq> None \<and> c_result r = None \<and> c_result_claim_id r = None \<and> c_finished_at r = None
     \<and> (c_state r = StateClaimed \<longrightarrow> c_started_at r = None)
     \<and> (c_state r = StateRunning \<longrightarrow> (\<exists>a b. c_claim_since r = Some a \<and> c_started_at r = Some b \<and> a \<le> b))"

definition row_ended_ok :: "job_row \<Rightarrow> bool" where
  "row_ended_ok r \<longleftrightarrow>
     c_lease_deadline r = None \<and> c_finished_at r \<noteq> None
     \<and> (\<exists>res. c_result r = Some res \<and> summary_validate (r_summary res) = None
             \<and> r_superseded_by res = c_superseded_by r)"

definition row_fixed_ok :: "job_row \<Rightarrow> bool" where
  "row_fixed_ok r \<longleftrightarrow>
     c_id r \<noteq> '''' \<and> \<not> has_slash (c_id r) \<and> c_origin r \<noteq> '''' \<and> submission_validate (c_sub r) = None
     \<and> (c_local r \<longrightarrow> \<not> s_cacheable (c_sub r) \<and> \<not> c_pinned r)"

definition row_wf :: "job_row \<Rightarrow> bool" where
  "row_wf r \<longleftrightarrow>
     row_fixed_ok r \<and> state_valid (c_state r)
     \<and> (c_state r = StateQueued \<longrightarrow> row_queued_ok r)
     \<and> (held_state (c_state r) \<longrightarrow> row_held_ok r)
     \<and> (terminal (c_state r) \<longrightarrow> row_ended_ok r)
     \<and> 0 \<le> c_lapses r \<and> c_lapses r \<le> c_attempts r \<and> c_lapses r \<le> max_lapses
     \<and> (\<not> terminal (c_state r) \<longrightarrow> c_lapses r < max_lapses)
     \<and> valid_on_job (c_manual r) \<and> manual_seq_fits (c_manual r) (c_manual_seq r)
     \<and> (c_log_size r = None \<longleftrightarrow> c_log_at r = None)"

text \<open>No two jobs hold the same manual place.\<close>

definition placed :: "job_row \<Rightarrow> bool" where
  "placed r \<longleftrightarrow> c_manual r = PositionFront \<or> c_manual r = PositionBack"

definition place :: "job_row \<Rightarrow> position \<times> int" where
  "place r = (c_manual r, c_manual_seq r)"

definition places_distinct :: "job_row list \<Rightarrow> bool" where
  "places_distinct rs \<longleftrightarrow> distinct (map place (filter placed rs))"

definition db_wf :: "db \<Rightarrow> bool" where
  "db_wf d \<longleftrightarrow>
     unique_by c_id (db_jobs d) \<and> sorted_wrt (<) (map c_seq (db_jobs d)) \<and> unique_by c_rev (db_jobs d)
     \<and> (\<forall>r \<in> set (db_jobs d). row_wf r \<and> 0 < c_seq r \<and> c_seq r \<le> db_last_seq d \<and> 0 < c_rev r \<and> c_rev r \<le> db_rev d)
     \<and> places_distinct (db_jobs d) \<and> 0 \<le> db_last_seq d \<and> 0 \<le> db_rev d"

lemma db_wf_create_schema: "db_wf (create_schema e)"
  by (simp add: db_wf_def create_schema_def unique_by_def places_distinct_def)

section \<open>How a table may change\<close>

text \<open>The life cycle of a job (the abstract machine the operations refine).\<close>

inductive lifecycle :: "job_state \<Rightarrow> job_state \<Rightarrow> bool" where
  claims: "lifecycle StateQueued StateClaimed"
| starts: "lifecycle StateClaimed StateRunning"
| goes_back: "held_state s \<Longrightarrow> lifecycle s StateQueued"
| ends_held: "held_state s \<Longrightarrow> result_state t \<Longrightarrow> lifecycle s t"
| ends_queued: "t = StateCancelled \<or> t = StateSuperseded \<or> t = StateExpired \<Longrightarrow> lifecycle StateQueued t"

inductive_cases lifecycle_from_terminal:
  "lifecycle StateSucceeded t" "lifecycle StateFailed t" "lifecycle StateCancelled t"
  "lifecycle StateSuperseded t" "lifecycle StateExpired t"

lemma lifecycle_terminal: "lifecycle s t \<Longrightarrow> \<not> terminal s"
  by (induction rule: lifecycle.induct) (auto simp: held_state_def)

lemma lifecycle_star_terminal: "lifecycle\<^sup>*\<^sup>* s t \<Longrightarrow> terminal s \<Longrightarrow> t = s"
  by (induction rule: rtranclp_induct) (auto dest: lifecycle_terminal)

text \<open>
  What a change may do to one row, \<open>head\<close> being the cursor before it: the identity and the
  submission stay, the state follows the life cycle, the counts and the number only go up, and a row
  that looks different has a number above the head.
\<close>

definition row_step :: "int \<Rightarrow> job_row \<Rightarrow> job_row \<Rightarrow> bool" where
  "row_step head r r' \<longleftrightarrow>
     c_seq r' = c_seq r \<and> c_id r' = c_id r \<and> c_origin r' = c_origin r \<and> c_sub r' = c_sub r
     \<and> c_created_at r' = c_created_at r \<and> c_local r' = c_local r
     \<and> lifecycle\<^sup>*\<^sup>* (c_state r) (c_state r')
     \<and> c_attempts r \<le> c_attempts r' \<and> c_lapses r \<le> c_lapses r'
     \<and> c_rev r \<le> c_rev r' \<and> (row_job r' \<noteq> row_job r \<longrightarrow> head < c_rev r')"

definition evolves :: "db \<Rightarrow> db \<Rightarrow> bool" where
  "evolves d d' \<longleftrightarrow>
     db_rev d \<le> db_rev d' \<and> db_last_seq d \<le> db_last_seq d' \<and> db_epoch d' = db_epoch d
     \<and> (\<forall>r' \<in> set (db_jobs d').
          (\<exists>r \<in> set (db_jobs d). row_step (db_rev d) r r')
          \<or> (db_last_seq d < c_seq r' \<and> db_rev d < c_rev r'))"

lemma row_step_refl [simp]: "row_step h r r"
  by (simp add: row_step_def)

lemma row_step_trans:
  assumes "row_step h r r'" and "row_step h' r' r''" and "h \<le> h'"
  shows "row_step h r r''"
proof -
  have "lifecycle\<^sup>*\<^sup>* (c_state r) (c_state r'')"
    using assms(1,2) unfolding row_step_def by (meson rtranclp_trans)
  moreover have "h < c_rev r''" if "row_job r'' \<noteq> row_job r"
    using assms that by (cases "row_job r' = row_job r") (auto simp: row_step_def)
  ultimately show ?thesis
    using assms(1,2) by (simp add: row_step_def)
qed

lemma evolves_refl [simp]: "evolves d d"
  unfolding evolves_def using row_step_refl by blast

lemma find_job_eq_None_iff: "find_job jid d = None \<longleftrightarrow> (\<forall>r \<in> set (db_jobs d). c_id r \<noteq> jid)"
  by (simp add: find_job_def lookup_by_None_iff)

lemma find_job_Some: "find_job jid d = Some r \<Longrightarrow> r \<in> set (db_jobs d) \<and> c_id r = jid"
  unfolding find_job_def by (rule lookup_by_Some)

lemma find_job_wf:
  "db_wf d \<Longrightarrow> find_job jid d = Some r \<Longrightarrow> row_wf r \<and> c_id r = jid \<and> 0 < c_rev r \<and> c_rev r \<le> db_rev d"
  using find_job_Some [of jid d r] unfolding db_wf_def by blast

lemma find_job_unique: "db_wf d \<Longrightarrow> r \<in> set (db_jobs d) \<Longrightarrow> find_job (c_id r) d = Some r"
  by (simp add: db_wf_def find_job_def lookup_by_unique)

lemma evolves_cases:
  assumes "evolves d d'" and "r' \<in> set (db_jobs d')"
  obtains (step) r where "r \<in> set (db_jobs d)" and "row_step (db_rev d) r r'"
  | (new) "db_last_seq d < c_seq r'" and "db_rev d < c_rev r'"
  using assms unfolding evolves_def by meson

lemma evolves_counters:
  "evolves d d' \<Longrightarrow> db_rev d \<le> db_rev d' \<and> db_last_seq d \<le> db_last_seq d' \<and> db_epoch d' = db_epoch d"
  by (simp add: evolves_def)

lemma evolves_trans:
  assumes "evolves d d'" and "evolves d' d''"
  shows "evolves d d''"
proof -
  note le = evolves_counters [OF assms(1)] evolves_counters [OF assms(2)]
  have "(\<exists>r \<in> set (db_jobs d). row_step (db_rev d) r r'')
        \<or> (db_last_seq d < c_seq r'' \<and> db_rev d < c_rev r'')"
    if r'': "r'' \<in> set (db_jobs d'')" for r''
    using assms(2) r''
  proof (cases rule: evolves_cases)
    case (step r')
    note second = step(2)
    show ?thesis
      using assms(1) step(1)
    proof (cases rule: evolves_cases)
      case (step r)
      then show ?thesis
        using second le by (blast intro: row_step_trans)
    next
      case new
      then show ?thesis
        using second by (simp add: row_step_def)
    qed
  next
    case new
    then show ?thesis
      using le by simp
  qed
  then show ?thesis
    unfolding evolves_def using le by simp
qed

end
