(* ===== verification/TableInv.thy ===== *)
theory TableInv
  imports JobTable
begin

text \<open>
  The statement-level lemmas behind the invariant of the jobs table: one \<open>UPDATE\<close> of a row, one
  \<open>INSERT\<close>, an \<open>INSERT\<close> followed by an \<open>UPDATE\<close> of the same row, and a \<open>DELETE\<close> keep the tables
  well-formed and are steps of \<open>evolves\<close>, provided the row they write is well-formed and a change of
  what a client sees fires the trigger. The operations of the queue are checked with these.
\<close>

definition safe_change :: "db \<Rightarrow> db \<Rightarrow> bool" where
  "safe_change d d' \<longleftrightarrow> db_wf d' \<and> evolves d d'"

lemma safe_change_refl: "db_wf d \<Longrightarrow> safe_change d d"
  by (simp add: safe_change_def)

lemma safe_change_trans: "safe_change d d' \<Longrightarrow> safe_change d' d'' \<Longrightarrow> safe_change d d''"
  unfolding safe_change_def by (blast intro: evolves_trans)

lemma safe_change_wf: "safe_change d d' \<Longrightarrow> db_wf d'"
  by (simp add: safe_change_def)

text \<open>What a rewriting of one row has to keep, the number apart.\<close>

definition row_keeps :: "job_row \<Rightarrow> job_row \<Rightarrow> bool" where
  "row_keeps r r' \<longleftrightarrow>
     row_wf r' \<and> c_seq r' = c_seq r \<and> c_id r' = c_id r \<and> c_origin r' = c_origin r \<and> c_sub r' = c_sub r
     \<and> c_created_at r' = c_created_at r \<and> c_local r' = c_local r \<and> c_rev r' = c_rev r
     \<and> lifecycle\<^sup>*\<^sup>* (c_state r) (c_state r') \<and> c_attempts r \<le> c_attempts r' \<and> c_lapses r \<le> c_lapses r'"

lemmas row_wf_defs =
  row_wf_def row_fixed_ok_def row_queued_ok_def row_held_ok_def row_ended_ok_def held_state_def

lemma row_wf_rev [simp]: "row_wf (r\<lparr>c_rev := n\<rparr>) = row_wf r"
  by (simp add: row_wf_def row_fixed_ok_def row_queued_ok_def row_held_ok_def row_ended_ok_def)

lemma row_wf_seq [simp]: "row_wf (r\<lparr>c_seq := n\<rparr>) = row_wf r"
  by (simp add: row_wf_def row_fixed_ok_def row_queued_ok_def row_held_ok_def row_ended_ok_def)

lemma row_job_rev [simp]: "row_job (r\<lparr>c_rev := n\<rparr>) = row_job r"
  by (simp add: row_job_def row_claim_def split: option.split)

lemma row_job_seq [simp]: "row_job (r\<lparr>c_seq := n\<rparr>) = row_job r"
  by (simp add: row_job_def row_claim_def split: option.split)

lemma place_rev [simp]: "place (r\<lparr>c_rev := n\<rparr>) = place r" "placed (r\<lparr>c_rev := n\<rparr>) = placed r"
  by (simp_all add: place_def placed_def)

lemma new_row_sel [simp]:
  "c_seq (new_row jid origin s t pinned) = 0"
  "c_id (new_row jid origin s t pinned) = jid"
  "c_origin (new_row jid origin s t pinned) = origin"
  "c_sub (new_row jid origin s t pinned) = s"
  "c_created_at (new_row jid origin s t pinned) = t"
  "c_state (new_row jid origin s t pinned) = StateQueued"
  "c_attempts (new_row jid origin s t pinned) = 0"
  "c_lapses (new_row jid origin s t pinned) = 0"
  "c_claim_worker (new_row jid origin s t pinned) = None"
  "c_claim_id (new_row jid origin s t pinned) = None"
  "c_claim_since (new_row jid origin s t pinned) = None"
  "c_lease_deadline (new_row jid origin s t pinned) = None"
  "c_lease_s (new_row jid origin s t pinned) = None"
  "c_cancel_requested (new_row jid origin s t pinned) = False"
  "c_superseded_by (new_row jid origin s t pinned) = None"
  "c_result (new_row jid origin s t pinned) = None"
  "c_result_claim_id (new_row jid origin s t pinned) = None"
  "c_finished_at (new_row jid origin s t pinned) = None"
  "c_log_size (new_row jid origin s t pinned) = None"
  "c_log_at (new_row jid origin s t pinned) = None"
  "c_local (new_row jid origin s t pinned) = False"
  "c_pinned (new_row jid origin s t pinned) = pinned"
  "c_updated_at (new_row jid origin s t pinned) = t"
  "c_rev (new_row jid origin s t pinned) = 0"
  "c_manual (new_row jid origin s t pinned) = PositionNone"
  "c_manual_seq (new_row jid origin s t pinned) = 0"
  "c_claim_labels (new_row jid origin s t pinned) = []"
  "c_claim_fingerprint (new_row jid origin s t pinned) = []"
  "c_started_at (new_row jid origin s t pinned) = None"
  by (simp_all add: new_row_def)

section \<open>Accessors of the invariant\<close>

lemma db_wf_unique: "db_wf d \<Longrightarrow> unique_by c_id (db_jobs d)"
  by (simp add: db_wf_def)

lemma db_wf_row:
  "db_wf d \<Longrightarrow> r \<in> set (db_jobs d) \<Longrightarrow>
   row_wf r \<and> 0 < c_seq r \<and> c_seq r \<le> db_last_seq d \<and> 0 < c_rev r \<and> c_rev r \<le> db_rev d"
  by (simp add: db_wf_def)

lemma db_wf_find: "db_wf d \<Longrightarrow> find_job jid d = Some r \<Longrightarrow> row_wf r"
  using find_job_wf by blast

lemma db_wf_frame:
  "db_jobs d' = db_jobs d \<Longrightarrow> db_last_seq d' = db_last_seq d \<Longrightarrow> db_rev d' = db_rev d \<Longrightarrow> db_wf d' = db_wf d"
  by (simp add: db_wf_def)

lemma evolves_frame:
  assumes "db_jobs d' = db_jobs d" and "db_last_seq d' = db_last_seq d" and "db_rev d' = db_rev d"
    and "db_epoch d' = db_epoch d"
  shows "evolves d d'"
  using evolves_refl [of d] unfolding evolves_def assms .

lemma safe_change_frame:
  "db_wf d \<Longrightarrow> db_jobs d' = db_jobs d \<Longrightarrow> db_last_seq d' = db_last_seq d \<Longrightarrow> db_rev d' = db_rev d \<Longrightarrow>
   db_epoch d' = db_epoch d \<Longrightarrow> safe_change d d'"
  using db_wf_frame [of d' d] evolves_frame [of d' d] by (simp add: safe_change_def)

section \<open>Reading after writing\<close>

lemma find_update_job:
  assumes "\<And>r. c_id (f r) = c_id r"
  shows "find_job k (update_job cols jid f d) =
    (if k = jid then map_option (\<lambda>r. if fires cols then (f r)\<lparr>c_rev := db_rev d + 1\<rparr> else f r) (find_job jid d)
     else find_job k d)"
proof -
  note upd = lookup_update_by [of c_id _ k jid "db_jobs d"]
  show ?thesis
    using upd [of f] upd [of "\<lambda>r. (f r)\<lparr>c_rev := db_rev d + 1\<rparr>"] assms
    by (auto simp: update_job_def find_job_def split: option.split)
qed

lemma update_job_counters [simp]:
  "db_last_seq (update_job cols jid f d) = db_last_seq d"
  "db_epoch (update_job cols jid f d) = db_epoch d"
  "db_pins (update_job cols jid f d) = db_pins d"
  "db_outcomes (update_job cols jid f d) = db_outcomes d"
  "db_disagreements (update_job cols jid f d) = db_disagreements d"
  by (simp_all add: update_job_def split: option.splits)

lemma map_id_update_job:
  "(\<And>r. c_id (f r) = c_id r) \<Longrightarrow> map c_id (db_jobs (update_job cols jid f d)) = map c_id (db_jobs d)"
  by (simp add: update_job_def map_key_update_by split: option.splits)

lemma find_insert_job:
  "insert_job jid origin s t pinned d = Inr d' \<Longrightarrow>
   find_job k d' =
     (if k = jid then Some ((new_row jid origin s t pinned)\<lparr>c_seq := db_last_seq d + 1, c_rev := db_rev d + 1\<rparr>)
      else find_job k d)"
  by (auto simp: insert_job_def find_job_def lookup_by_append split: option.splits)

lemma insert_job_Inr_iff:
  "(\<exists>d'. insert_job jid origin s t pinned d = Inr d') \<longleftrightarrow> find_job jid d = None"
  by (auto simp: insert_job_def split: option.splits)

section \<open>Replacing one row\<close>

text \<open>Where the ids are unique, an update is the replacement of one element of the table.\<close>

lemma update_by_cases:
  assumes "unique_by c_id rs" and "lookup_by c_id jid rs = Some r" and "r' \<in> set (update_by c_id jid f rs)"
  obtains (same) "r' \<in> set rs" and "c_id r' \<noteq> jid" | (changed) "r' = f r"
proof -
  from assms(3) obtain s where s: "s \<in> set rs" "r' = (if c_id s = jid then f s else s)"
    unfolding set_update_by by blast
  show thesis
  proof (cases "c_id s = jid")
    case True
    with s(1) assms(1,2) have "s = r"
      using lookup_by_unique by fastforce
    with True s(2) show ?thesis by (simp add: changed)
  next
    case False
    with s show ?thesis by (simp add: same)
  qed
qed

lemma places_distinct_update:
  assumes "places_distinct rs" and "\<And>r. r \<in> set rs \<Longrightarrow> c_id r = jid \<Longrightarrow> place (f r) = place r"
  shows "places_distinct (update_by c_id jid f rs)"
proof -
  have "placed (f r) = placed r" if "r \<in> set rs" "c_id r = jid" for r
    using assms(2) [OF that] by (simp add: placed_def place_def)
  then have "map place (filter placed (update_by c_id jid f rs)) = map place (filter placed rs)"
    using assms(2) by (induction rs) (auto simp: update_by_def)
  then show ?thesis
    using assms(1) by (simp add: places_distinct_def)
qed

lemma unique_rev_update_new:
  assumes "unique_by c_id rs" and "unique_by c_rev rs" and "\<forall>r \<in> set rs. c_rev r \<le> n"
  shows "unique_by c_rev (update_by c_id jid (\<lambda>r. (f r)\<lparr>c_rev := n + 1\<rparr>) rs)"
  using assms
proof (induction rs)
  case (Cons a rs)
  let ?g = "\<lambda>r. (f r)\<lparr>c_rev := n + 1\<rparr>"
  have IH: "unique_by c_rev (update_by c_id jid ?g rs)"
    using Cons by (simp add: unique_by_def)
  have below: "\<forall>s \<in> set (a # rs). c_rev s \<noteq> n + 1"
    using Cons.prems(3) by fastforce
  have apart: "c_rev a \<notin> c_rev ` set rs"
    using Cons.prems(2) by (simp add: unique_by_def)
  show ?case
  proof (cases "c_id a = jid")
    case True
    then have "jid \<notin> c_id ` set rs"
      using Cons.prems(1) by (auto simp: unique_by_def)
    then have "update_by c_id jid ?g rs = rs"
      by (intro update_by_absent) (auto simp: lookup_by_None_iff)
    then show ?thesis
      using True IH below by (auto simp: update_by_def unique_by_def)
  next
    case False
    have "c_rev a \<notin> c_rev ` set (update_by c_id jid ?g rs)"
    proof
      assume "c_rev a \<in> c_rev ` set (update_by c_id jid ?g rs)"
      then obtain s where s: "s \<in> set rs" "c_rev a = c_rev (if c_id s = jid then ?g s else s)"
        by (auto simp: update_by_def)
      show False
        using s apart below by (cases "c_id s = jid") auto
    qed
    moreover have "update_by c_id jid ?g (a # rs) = a # update_by c_id jid ?g rs"
      using False by (simp add: update_by_def)
    ultimately show ?thesis
      using IH by (simp add: unique_by_def)
  qed
qed (simp add: update_by_def unique_by_def)

lemma unique_rev_update_same:
  assumes "unique_by c_rev rs" and "\<And>r. c_rev (f r) = c_rev r"
  shows "unique_by c_rev (update_by c_id jid f rs)"
  using assms by (simp add: unique_by_def map_col_update_by)

lemma places_update_rev:
  "map place (filter placed (update_by c_id jid (\<lambda>r. (f r)\<lparr>c_rev := n\<rparr>) rs)) =
   map place (filter placed (update_by c_id jid f rs))"
  by (induction rs) (auto simp: update_by_def)

section \<open>Statements are safe changes\<close>

lemma row_keeps_step:
  "row_keeps r r' \<Longrightarrow> c_rev r \<le> n \<Longrightarrow> (row_job r' \<noteq> row_job r \<longrightarrow> h < n) \<Longrightarrow> row_step h r (r'\<lparr>c_rev := n\<rparr>)"
  by (simp add: row_keeps_def row_step_def)

lemma row_keeps_step_same:
  "row_keeps r r' \<Longrightarrow> row_job r' = row_job r \<Longrightarrow> row_step h r r'"
  by (simp add: row_keeps_def row_step_def)

text \<open>One \<open>UPDATE\<close> that leaves the manual place alone.\<close>

lemma update_job_fires_safe:
  assumes wf: "db_wf d" and r: "find_job jid d = Some r" and keeps: "row_keeps r (f r)"
    and fires: "fires cols" and fid: "\<And>r. c_id (f r) = c_id r" and fseq: "\<And>r. c_seq (f r) = c_seq r"
    and places: "places_distinct (update_by c_id jid f (db_jobs d))"
  shows "safe_change d (update_job cols jid f d)"
proof -
  let ?g = "\<lambda>r. (f r)\<lparr>c_rev := db_rev d + 1\<rparr>"
  let ?rs = "update_by c_id jid ?g (db_jobs d)"
  have upd: "update_job cols jid f d = d\<lparr>db_jobs := ?rs, db_rev := db_rev d + 1\<rparr>"
    using r fires by (simp add: update_job_def)
  note uniq = db_wf_unique [OF wf] and row = db_wf_row [OF wf]
  have look: "lookup_by c_id jid (db_jobs d) = Some r" and mem: "r \<in> set (db_jobs d)"
    using r find_job_Some [OF r] by (simp_all add: find_job_def)
  have rows: "row_wf s \<and> 0 < c_seq s \<and> c_seq s \<le> db_last_seq d \<and> 0 < c_rev s \<and> c_rev s \<le> db_rev d + 1
      \<and> (\<exists>s0 \<in> set (db_jobs d). row_step (db_rev d) s0 s)" if "s \<in> set ?rs" for s
    using uniq look that
  proof (cases rule: update_by_cases)
    case same
    with row [OF same(1)] show ?thesis by (auto intro: bexI [of _ s])
  next
    case changed
    have "row_step (db_rev d) r s"
      unfolding changed using keeps row [OF mem] by (intro row_keeps_step) auto
    with changed keeps row [OF mem] mem show ?thesis
      using fseq [of r] wf by (auto simp: row_keeps_def db_wf_def)
  qed
  have "map place (filter placed ?rs) = map place (filter placed (update_by c_id jid f (db_jobs d)))"
    by (rule places_update_rev)
  then have "places_distinct ?rs"
    using places by (simp add: places_distinct_def)
  moreover have "unique_by c_id ?rs"
    using uniq fid by (intro unique_update_by) auto
  moreover have "map c_seq ?rs = map c_seq (db_jobs d)"
    using fseq by (intro map_col_update_by) simp
  moreover have "unique_by c_rev ?rs"
    using wf row by (intro unique_rev_update_new) (auto simp: db_wf_def)
  ultimately show ?thesis
    unfolding upd safe_change_def evolves_def db_wf_def using wf rows by (auto simp: db_wf_def)
qed

lemma update_job_quiet_safe:
  assumes wf: "db_wf d" and r: "find_job jid d = Some r" and keeps: "row_keeps r (f r)"
    and quiet: "\<not> fires cols" and same_job: "row_job (f r) = row_job r"
    and fid: "\<And>r. c_id (f r) = c_id r" and fseq: "\<And>r. c_seq (f r) = c_seq r" and frev: "\<And>r. c_rev (f r) = c_rev r"
    and fplace: "\<And>r. place (f r) = place r"
  shows "safe_change d (update_job cols jid f d)"
proof -
  let ?rs = "update_by c_id jid f (db_jobs d)"
  have upd: "update_job cols jid f d = d\<lparr>db_jobs := ?rs\<rparr>"
    using r quiet by (simp add: update_job_def)
  note uniq = db_wf_unique [OF wf] and row = db_wf_row [OF wf]
  have look: "lookup_by c_id jid (db_jobs d) = Some r" and mem: "r \<in> set (db_jobs d)"
    using r find_job_Some [OF r] by (simp_all add: find_job_def)
  have rows: "row_wf s \<and> 0 < c_seq s \<and> c_seq s \<le> db_last_seq d \<and> 0 < c_rev s \<and> c_rev s \<le> db_rev d
      \<and> (\<exists>s0 \<in> set (db_jobs d). row_step (db_rev d) s0 s)" if "s \<in> set ?rs" for s
    using uniq look that
  proof (cases rule: update_by_cases)
    case same
    with row [OF same(1)] show ?thesis by (auto intro: bexI [of _ s])
  next
    case changed
    then have "row_step (db_rev d) r s"
      using keeps same_job by (simp add: row_keeps_step_same)
    with changed keeps row [OF mem] mem show ?thesis
      using fseq [of r] frev [of r] by (auto simp: row_keeps_def)
  qed
  have "places_distinct ?rs"
    using wf fplace by (intro places_distinct_update) (auto simp: db_wf_def)
  moreover have "unique_by c_id ?rs"
    using uniq fid by (intro unique_update_by) auto
  moreover have "map c_seq ?rs = map c_seq (db_jobs d)"
    using fseq by (intro map_col_update_by) simp
  moreover have "unique_by c_rev ?rs"
    using wf frev by (intro unique_rev_update_same) (auto simp: db_wf_def)
  ultimately show ?thesis
    unfolding upd safe_change_def evolves_def db_wf_def using wf rows by (auto simp: db_wf_def)
qed

lemma update_job_safe:
  assumes "db_wf d" and "find_job jid d = Some r" and "row_keeps r (f r)" and "fires cols"
    and "\<And>r. c_id (f r) = c_id r" and "\<And>r. c_seq (f r) = c_seq r" and "\<And>r. place (f r) = place r"
  shows "safe_change d (update_job cols jid f d)"
  using assms by (intro update_job_fires_safe places_distinct_update) (auto simp: db_wf_def)

text \<open>An \<open>INSERT\<close>, alone or with an \<open>UPDATE\<close> of the row it made: the row is new either way.\<close>

lemma snoc_row_safe:
  assumes wf: "db_wf d" and row: "row_wf r" and fresh: "find_job (c_id r) d = None" and "\<not> placed r"
    and seq: "c_seq r = db_last_seq d + 1" and rev: "db_rev d < c_rev r" "c_rev r \<le> n"
  shows "safe_change d (d\<lparr>db_jobs := db_jobs d @ [r], db_last_seq := db_last_seq d + 1, db_rev := n\<rparr>)"
proof -
  note rows = db_wf_row [OF wf]
  have "unique_by c_id (db_jobs d @ [r])"
    using fresh wf by (auto simp: unique_by_snoc find_job_eq_None_iff db_wf_def)
  moreover have "unique_by c_rev (db_jobs d @ [r])"
    using wf rows rev by (fastforce simp: unique_by_snoc db_wf_def)
  moreover have "sorted_wrt (<) (map c_seq (db_jobs d @ [r]))"
    using wf rows seq by (fastforce simp: sorted_wrt_append db_wf_def)
  moreover have "places_distinct (db_jobs d @ [r])"
    using wf \<open>\<not> placed r\<close> by (simp add: places_distinct_def db_wf_def)
  moreover have "\<exists>s0 \<in> set (db_jobs d). row_step (db_rev d) s0 s" if "s \<in> set (db_jobs d)" for s
    using that row_step_refl by blast
  ultimately show ?thesis
    unfolding safe_change_def evolves_def db_wf_def using wf rows row seq rev
    by (fastforce simp: db_wf_def)
qed

lemma insert_job_safe:
  assumes "db_wf d" and "insert_job jid origin s t pinned d = Inr d'"
    and "row_wf (new_row jid origin s t pinned)"
  shows "safe_change d d'"
proof -
  let ?r = "(new_row jid origin s t pinned)\<lparr>c_seq := db_last_seq d + 1, c_rev := db_rev d + 1\<rparr>"
  have "d' = d\<lparr>db_jobs := db_jobs d @ [?r], db_last_seq := db_last_seq d + 1, db_rev := db_rev d + 1\<rparr>"
    and "find_job (c_id ?r) d = None"
    using assms(2) by (auto simp: insert_job_def split: option.splits)
  then show ?thesis
    using snoc_row_safe [OF assms(1), of ?r "db_rev d + 1"] assms(3) by (simp add: placed_def)
qed

lemma insert_update_safe:
  assumes wf: "db_wf d" and ins: "insert_job jid origin s t pinned d = Inr d1" and "fires cols"
    and row: "row_wf (f ((new_row jid origin s t pinned)\<lparr>c_seq := db_last_seq d + 1, c_rev := db_rev d + 1\<rparr>))"
    and f: "\<And>r. c_id (f r) = c_id r" "\<And>r. c_seq (f r) = c_seq r" "\<And>r. placed (f r) = placed r"
  shows "safe_change d (update_job cols jid f d1)"
proof -
  let ?r = "(new_row jid origin s t pinned)\<lparr>c_seq := db_last_seq d + 1, c_rev := db_rev d + 1\<rparr>"
  let ?r' = "(f ?r)\<lparr>c_rev := db_rev d + 2\<rparr>"
  have d1: "d1 = d\<lparr>db_jobs := db_jobs d @ [?r], db_last_seq := db_last_seq d + 1, db_rev := db_rev d + 1\<rparr>"
    and fresh: "find_job jid d = None"
    using ins by (auto simp: insert_job_def split: option.splits)
  have rid: "c_id ?r = jid" by simp
  have "update_by c_id jid (\<lambda>r. (f r)\<lparr>c_rev := db_rev d1 + 1\<rparr>) (db_jobs d1) = db_jobs d @ [?r']"
    using fresh update_by_absent [of c_id jid "db_jobs d"] d1 rid
    by (simp add: update_by_def find_job_def)
  moreover have "find_job jid d1 = Some ?r"
    using find_insert_job [OF ins, of jid] by simp
  ultimately have "update_job cols jid f d1 =
      d\<lparr>db_jobs := db_jobs d @ [?r'], db_last_seq := db_last_seq d + 1, db_rev := db_rev d + 2\<rparr>"
    using \<open>fires cols\<close> d1 by (simp add: update_job_def)
  moreover have "\<not> placed ?r" by (simp add: placed_def)
  moreover have "find_job (c_id ?r') d = None"
    using fresh f(1) [of ?r] rid by simp
  moreover have "row_wf ?r'" using row by simp
  ultimately show ?thesis
    using snoc_row_safe [OF wf, of ?r' "db_rev d + 2"] f(2) [of ?r] f(3) [of ?r] by simp
qed

text \<open>A \<open>DELETE\<close>.\<close>

lemma places_distinct_filter: "places_distinct rs \<Longrightarrow> places_distinct (filter P rs)"
  by (induction rs) (auto simp: places_distinct_def)

lemma sorted_wrt_map_filter: "sorted_wrt P (map g xs) \<Longrightarrow> sorted_wrt P (map g (filter Q xs))"
  by (induction xs) auto

lemma delete_jobs_safe:
  assumes "db_wf d"
  shows "safe_change d (d\<lparr>db_jobs := filter P (db_jobs d)\<rparr>)"
proof -
  have "\<exists>s0 \<in> set (db_jobs d). row_step (db_rev d) s0 s" if "s \<in> set (db_jobs d)" for s
    using that row_step_refl by blast
  then show ?thesis
    using assms unfolding safe_change_def evolves_def db_wf_def
    by (auto intro: unique_by_filter places_distinct_filter sorted_wrt_map_filter)
qed

end
