(* ===== verification/Snapshot.thy ===== *)
theory Snapshot
  imports TableInv
begin

text \<open>
  The pins that keep a queued job's snapshot reachable. The interface the queue relies on
  (\<open>queue.Pinner\<close>) is the locale \<open>pinner_laws\<close>; \<open>snapshot_pin\<close> and \<open>snapshot_unpin\<close> are
  \<open>snapshot.Pin\<close> and \<open>snapshot.Unpin\<close> of \<open>internal/wwd/snapshot/git.go\<close>, the implementation wwd
  uses, over the refs of the repositories; what git itself answers is a parameter. The interpretation
  at the end shows that they satisfy the laws, whatever git answers.
\<close>

text \<open>The refs under \<open>refs/wwd/\<close>: by git directory and job id, the commit.\<close>

type_synonym refs = "string \<times> string \<Rightarrow> string option"

record pinner =
  pin_op :: "string \<Rightarrow> string \<Rightarrow> string \<Rightarrow> refs \<Rightarrow> bool \<times> refs"
  unpin_op :: "string \<Rightarrow> string \<Rightarrow> refs \<Rightarrow> bool \<times> refs"

text \<open>
  The contract: a successful pin leaves the ref at the commit, no pin moves a ref that is there, a
  successful unpin leaves no ref, and neither touches another job's ref, in whatever repository.
\<close>

locale pinner_laws =
  fixes pin :: "string \<Rightarrow> string \<Rightarrow> string \<Rightarrow> refs \<Rightarrow> bool \<times> refs"
    and unpin :: "string \<Rightarrow> string \<Rightarrow> refs \<Rightarrow> bool \<times> refs"
  assumes pin_sets: "fst (pin dir jid commit R) \<Longrightarrow> snd (pin dir jid commit R) (dir, jid) = Some commit"
    and pin_keeps: "R k = Some c \<Longrightarrow> snd (pin dir jid commit R) k = Some c"
    and pin_local: "snd k \<noteq> jid \<Longrightarrow> snd (pin dir jid commit R) k = R k"
    and unpin_clears: "fst (unpin dir jid R) \<Longrightarrow> snd (unpin dir jid R) (dir, jid) = None"
    and unpin_local: "snd k \<noteq> jid \<Longrightarrow> snd (unpin dir jid R) k = R k"
begin

lemma pin_other_job: "jid' \<noteq> jid \<Longrightarrow> snd (pin dir jid commit R) (dir', jid') = R (dir', jid')"
  by (simp add: pin_local)

lemma unpin_other_job: "jid' \<noteq> jid \<Longrightarrow> snd (unpin dir jid R) (dir', jid') = R (dir', jid')"
  by (simp add: unpin_local)

end

definition pinner_ok :: "pinner \<Rightarrow> bool" where
  "pinner_ok p \<longleftrightarrow> pinner_laws (pin_op p) (unpin_op p)"

section \<open>The implementation over git\<close>

text \<open>
  What git answers: whether a directory is itself a repository (\<open>ownRepo\<close>), whether it holds a
  commit (\<open>hasCommit\<close>), and how the n-th try of a ref write ends.
\<close>

datatype ref_try = RefWritten | RefLocked | RefFailed

record git =
  g_own_repo :: "string \<Rightarrow> bool"
  g_has_commit :: "string \<Rightarrow> string \<Rightarrow> bool"
  g_try :: "string \<Rightarrow> string \<Rightarrow> nat \<Rightarrow> ref_try"

text \<open>\<open>gitRefWrite\<close>: a lock error is tried again, \<open>refLockTries\<close> times; any other answer stands.\<close>

definition ref_lock_tries :: nat where
  "ref_lock_tries = 3"

primrec ref_write_retry :: "nat \<Rightarrow> (nat \<Rightarrow> ref_try) \<Rightarrow> nat \<Rightarrow> ref_try" where
  "ref_write_retry 0 t i = t i"
| "ref_write_retry (Suc n) t i = (case t i of RefLocked \<Rightarrow> ref_write_retry n t (Suc i) | a \<Rightarrow> a)"

definition git_ref_write :: "git \<Rightarrow> string \<Rightarrow> string \<Rightarrow> bool" where
  "git_ref_write g dir jid = (ref_write_retry ref_lock_tries (g_try g dir jid) 0 = RefWritten)"

text \<open>\<open>jobIDRe\<close> of git.go, \<open>^[A-Za-z0-9][A-Za-z0-9_.-]{0,127}$\<close>, no two dots in a row and not ending in \<open>.lock\<close>.\<close>

fun has_dotdot :: "string \<Rightarrow> bool" where
  "has_dotdot (a # b # s) = ((a = CHR ''.'' \<and> b = CHR ''.'') \<or> has_dotdot (b # s))"
| "has_dotdot _ = False"

definition has_suffix :: "string \<Rightarrow> string \<Rightarrow> bool" where
  "has_suffix suf s \<longleftrightarrow> length suf \<le> length s \<and> drop (length s - length suf) s = suf"

definition ref_first :: "char \<Rightarrow> bool" where
  "ref_first c \<longleftrightarrow> is_digit c \<or> is_upper c \<or> is_lower c"

definition ref_rest :: "char \<Rightarrow> bool" where
  "ref_rest c \<longleftrightarrow> ref_first c \<or> c = CHR ''_'' \<or> c = CHR ''.'' \<or> c = CHR ''-''"

definition valid_job_id :: "string \<Rightarrow> bool" where
  "valid_job_id s \<longleftrightarrow>
     (case s of [] \<Rightarrow> False | c # cs \<Rightarrow> ref_first c \<and> length cs \<le> 127 \<and> list_all ref_rest cs)
     \<and> \<not> has_dotdot s \<and> \<not> has_suffix ''.lock'' s"

text \<open>\<open>commitRe\<close>: 40 or 64 hex digits.\<close>

definition commit_re :: "string \<Rightarrow> bool" where
  "commit_re s \<longleftrightarrow> (length s = 40 \<or> length s = 64) \<and> list_all is_hex s"

definition snapshot_pin :: "git \<Rightarrow> string \<Rightarrow> string \<Rightarrow> string \<Rightarrow> refs \<Rightarrow> bool \<times> refs" where
  "snapshot_pin g dir jid commit R =
     (if \<not> valid_job_id jid then (False, R)
      else if \<not> commit_re commit then (False, R)
      else if \<not> g_own_repo g dir then (False, R)
      else if \<not> g_has_commit g dir commit then (False, R)
      else case R (dir, jid) of
        Some cur \<Rightarrow> (cur = commit, R)
      | None \<Rightarrow> (if git_ref_write g dir jid then (True, R((dir, jid) \<mapsto> commit)) else (False, R)))"

definition snapshot_unpin :: "git \<Rightarrow> string \<Rightarrow> string \<Rightarrow> refs \<Rightarrow> bool \<times> refs" where
  "snapshot_unpin g dir jid R =
     (if \<not> valid_job_id jid then (False, R)
      else if \<not> g_own_repo g dir then (False, R)
      else if git_ref_write g dir jid then (True, R((dir, jid) := None)) else (False, R))"

interpretation git_pins: pinner_laws "snapshot_pin g" "snapshot_unpin g" for g
  by unfold_locales (auto simp: snapshot_pin_def snapshot_unpin_def split: option.splits if_splits)

definition git_pinner :: "git \<Rightarrow> pinner" where
  "git_pinner g = \<lparr>pin_op = snapshot_pin g, unpin_op = snapshot_unpin g\<rparr>"

lemma git_pinner_ok: "pinner_ok (git_pinner g)"
  by (simp add: pinner_ok_def git_pinner_def git_pins.pinner_laws_axioms)

end
