(* ===== verification/QueueTx.thy ===== *)
theory QueueTx
  imports Snapshot
begin

text \<open>
  The queue as an object (\<open>internal/wwd/queue/queue.go\<close>): its options, its state (the database, the
  refs of its pins, what it has told its subscribers, its log files), the transaction every write
  goes through (\<open>commit\<close>, \<open>writeOnly\<close>, \<open>write\<close>) and the release of the pins of ended jobs that
  \<open>write\<close> ends with (\<open>settlePins\<close> of sweep.go). A transaction body is a function of the tables that
  either fails, and then nothing happened, or returns its answer, the ids it reports as changed and
  the new tables. The clock readings and the random ids of a call are arguments.
\<close>

section \<open>Options and state\<close>

record options =
  o_origin :: string
  o_lease_s :: int
  o_renew_s :: int
  o_pinner :: "pinner option"
  o_dir_gone :: "string \<Rightarrow> bool"
  o_log_dir :: bool
  o_max_log :: int
  o_reference :: "(string \<Rightarrow> string \<Rightarrow> string option) option"
  o_offers :: bool
  o_hash :: "string list \<Rightarrow> string list \<Rightarrow> string"

text \<open>
  \<open>o_dir_gone\<close>: \<open>os.Stat\<close> says the directory does not exist. \<open>o_log_dir\<close>: a log directory is set.
  \<open>o_reference\<close>: the hook \<open>ReferenceHost\<close>, \<open>None\<close> inside for a call that panics. \<open>o_offers\<close>:
  \<open>OnSucceeded\<close> is set. \<open>o_hash\<close>: the SHA-256 of the canonical encoding of an outcome's work (its
  texts and its arguments).
\<close>

record produced =
  pr_def_hash :: string
  pr_labels :: "string list"
  pr_fingerprint :: "(string \<times> string) list"

type_synonym job_event = "string \<times> job"

record queue_state =
  q_db :: db
  q_refs :: refs
  q_events :: "job_event list"
  q_logs :: "string \<Rightarrow> string option"
  q_offered :: "(job \<times> produced) list"

type_synonym 'a tx = "db \<Rightarrow> qerr + 'a \<times> string list \<times> db"

section \<open>Opening a queue\<close>

definition default_lease_s :: int where "default_lease_s = 60"
definition default_renew_s :: int where "default_renew_s = 15"

definition default_max_log :: int where
  "default_max_log = 64 * 2 ^ 20"

text \<open>\<open>extendHeldLeases\<close>: one statement over every held row; no watched column, so no trigger.\<close>

definition extend_row :: "int \<Rightarrow> int \<Rightarrow> job_row \<Rightarrow> job_row" where
  "extend_row now_ms dflt r =
     (if held_state (c_state r)
      then r\<lparr>c_lease_deadline := Some (now_ms + (case c_lease_s r of Some n \<Rightarrow> n | None \<Rightarrow> dflt) * 1000)\<rparr>
      else r)"

definition extend_held_leases :: "int \<Rightarrow> int \<Rightarrow> db \<Rightarrow> db" where
  "extend_held_leases now_ms dflt d = d\<lparr>db_jobs := map (extend_row now_ms dflt) (db_jobs d)\<rparr>"

text \<open>
  \<open>New\<close>: the defaults of the lease, its check, and a full lease for every held job. The making of
  the log directory is left out.
\<close>

definition new_queue :: "options \<Rightarrow> int \<Rightarrow> db \<Rightarrow> string + options \<times> db" where
  "new_queue o0 now_ms d =
     (if o_origin o0 = '''' then Inl ''queue: Options.Origin is required''
      else let o1 = o0\<lparr>o_lease_s := (if o_lease_s o0 = 0 then default_lease_s else o_lease_s o0),
                       o_renew_s := (if o_renew_s o0 = 0 then default_renew_s else o_renew_s o0),
                       o_max_log := default_max_log\<rparr>
      in if o_lease_s o1 < 0 \<or> o_renew_s o1 < 0 \<or> o_renew_s o1 \<ge> o_lease_s o1
         then Inl ''queue: Options.RenewS must be positive and shorter than LeaseS''
         else Inr (o1, extend_held_leases now_ms (o_lease_s o1) d))"

section \<open>Transactions\<close>

text \<open>
  \<open>commit\<close>: the body runs between BEGIN IMMEDIATE and COMMIT, an error rolls back, and the events are
  the changed jobs as this transaction left them, read inside it.
\<close>

definition commit :: "options \<Rightarrow> 'a tx \<Rightarrow> db \<Rightarrow> qerr + 'a \<times> job_event list \<times> db" where
  "commit opt body d =
     bind_err (body d) (\<lambda>(a, changed, d').
       bind_err (map_err (\<lambda>jid. get_on False jid d') changed) (\<lambda>js.
         Inr (a, map (\<lambda>j. (o_origin opt, j)) js, d')))"

definition write_only :: "options \<Rightarrow> 'a tx \<Rightarrow> queue_state \<Rightarrow> (qerr + 'a) \<times> queue_state" where
  "write_only opt body st =
     (case commit opt body (q_db st) of
        Inl e \<Rightarrow> (Inl e, st)
      | Inr (a, evs, d') \<Rightarrow> (Inr a, st\<lparr>q_db := d', q_events := q_events st @ evs\<rparr>))"

subsection \<open>Releasing pins\<close>

definition pinned_ended :: "job_row \<Rightarrow> bool" where
  "pinned_ended r \<longleftrightarrow> c_pinned r \<and> terminal (c_state r)"

text \<open>One round of the loop of \<open>settlePins\<close>; the counters are (unpinned, failed).\<close>

definition forget_pin :: "string \<Rightarrow> db \<Rightarrow> db" where
  "forget_pin jid d = d\<lparr>db_pins := filter (\<lambda>p. p_id p \<noteq> jid) (db_pins d)\<rparr>"

definition clear_pinned :: "string \<Rightarrow> db \<Rightarrow> db" where
  "clear_pinned jid d = update_job [ColPinned] jid (\<lambda>r. r\<lparr>c_pinned := False\<rparr>) d"

fun settle_one :: "options \<Rightarrow> pinner \<Rightarrow> string \<times> string \<Rightarrow> db \<times> refs \<times> nat \<times> nat \<Rightarrow> db \<times> refs \<times> nat \<times> nat" where
  "settle_one opt p (jid, dir) (d, R, n, m) =
     (if o_dir_gone opt dir then (forget_pin jid (clear_pinned jid d), R, Suc n, m)
      else (case unpin_op p dir jid R of
              (False, R') \<Rightarrow> (d, R', n, Suc m)
            | (True, R') \<Rightarrow> (forget_pin jid (clear_pinned jid d), R', Suc n, m)))"

definition settle_todo :: "db \<Rightarrow> (string \<times> string) list" where
  "settle_todo d = map (\<lambda>r. (c_id r, s_git_dir (c_sub r))) (take 100 (filter pinned_ended (db_jobs d)))"

definition settle_pins :: "options \<Rightarrow> queue_state \<Rightarrow> queue_state \<times> nat \<times> nat" where
  "settle_pins opt st =
     (case o_pinner opt of
        None \<Rightarrow> (st, 0, 0)
      | Some p \<Rightarrow> (case fold (settle_one opt p) (settle_todo (q_db st)) (q_db st, q_refs st, 0, 0) of
          (d, R, n, m) \<Rightarrow> (st\<lparr>q_db := d, q_refs := R\<rparr>, n, m)))"

definition write_tx :: "options \<Rightarrow> 'a tx \<Rightarrow> queue_state \<Rightarrow> (qerr + 'a) \<times> queue_state" where
  "write_tx opt body st =
     (case write_only opt body st of
        (Inl e, st') \<Rightarrow> (Inl e, st')
      | (Inr a, st') \<Rightarrow> (Inr a, fst (settle_pins opt st')))"

lemmas write_defs [tx_defs] = write_tx_def write_only_def commit_def

text \<open>A body behind a check of the request, which fails before the transaction begins.\<close>

definition guarded :: "bool \<Rightarrow> 'a tx \<Rightarrow> 'a tx" where
  "guarded ok body d = (if ok then body d else Inl (Refused ''refused''))"

lemma guarded_Inr [simp]: "guarded ok body d = Inr x \<longleftrightarrow> ok \<and> body d = Inr x"
  by (simp add: guarded_def)

section \<open>Laws of the transaction\<close>

lemma write_tx_guarded: "ok \<Longrightarrow> write_tx opt (guarded ok body) st = write_tx opt body st"
  by (simp add: write_tx_def write_only_def commit_def guarded_def)

lemma write_only_error: "write_only opt body st = (Inl e, st') \<Longrightarrow> st' = st"
  by (auto simp: write_only_def split: sum.splits)

lemma write_error: "write_tx opt body st = (Inl e, st') \<Longrightarrow> st' = st"
  by (auto simp: write_tx_def write_only_def split: sum.splits prod.splits)

lemma write_only_ok:
  assumes "write_only opt body st = (Inr a, st')"
  obtains changed d' js where "body (q_db st) = Inr (a, changed, d')"
    and "map_err (\<lambda>jid. get_on False jid d') changed = Inr js"
    and "st' = st\<lparr>q_db := d', q_events := q_events st @ map (Pair (o_origin opt)) js\<rparr>"
  using assms by (auto simp: write_only_def commit_def bind_err_Inr_iff split: sum.splits prod.splits)

lemma write_ok:
  assumes "write_tx opt body st = (Inr a, st')"
  obtains st1 where "write_only opt body st = (Inr a, st1)" and "st' = fst (settle_pins opt st1)"
  using assms by (auto simp: write_tx_def split: prod.splits sum.splits)

text \<open>The tables of a settled state: only the pins' bookkeeping has changed.\<close>

lemma clear_pinned_quiet: "\<not> fires [ColPinned]"
  by simp

lemma row_job_pinned [simp]: "row_job (r\<lparr>c_pinned := b\<rparr>) = row_job r"
  by (simp add: row_job_def row_claim_def split: option.split)

lemma row_keeps_unpin: "row_wf r \<Longrightarrow> row_keeps r (r\<lparr>c_pinned := False\<rparr>)"
  by (auto simp: row_keeps_def row_wf_defs)

lemma clear_pinned_safe: "db_wf d \<Longrightarrow> safe_change d (clear_pinned jid d)"
proof (cases "find_job jid d")
  case None
  then show "db_wf d \<Longrightarrow> safe_change d (clear_pinned jid d)"
    by (simp add: clear_pinned_def update_job_def safe_change_refl)
next
  case (Some r)
  then show "db_wf d \<Longrightarrow> safe_change d (clear_pinned jid d)"
    unfolding clear_pinned_def
    by (intro update_job_quiet_safe) (auto simp: row_keeps_unpin db_wf_find place_def)
qed

lemma forget_pin_safe: "db_wf d \<Longrightarrow> safe_change d (forget_pin jid d)"
  by (rule safe_change_frame) (simp_all add: forget_pin_def)

lemma settle_one_safe:
  assumes "db_wf d" and "settle_one opt p x (d, R, n, m) = (d', R', n', m')"
  shows "safe_change d d'"
proof -
  have "safe_change d (forget_pin jid (clear_pinned jid d))" for jid
    using assms(1) clear_pinned_safe forget_pin_safe safe_change_trans safe_change_wf by blast
  then show ?thesis
    using assms by (cases x) (auto simp: safe_change_refl split: if_splits prod.splits bool.splits)
qed

lemma settle_fold_safe:
  assumes "db_wf d" and "fold (settle_one opt p) xs (d, R, n, m) = (d', R', n', m')"
  shows "safe_change d d'"
  using assms
proof (induction xs arbitrary: d R n m)
  case Nil
  then show ?case by (simp add: safe_change_refl)
next
  case (Cons x xs)
  obtain d1 R1 n1 m1 where s1: "settle_one opt p x (d, R, n, m) = (d1, R1, n1, m1)"
    by (metis prod_cases4)
  with Cons.prems have "safe_change d d1"
    by (blast intro: settle_one_safe)
  moreover from this Cons s1 have "safe_change d1 d'"
    by (simp add: safe_change_wf)
  ultimately show ?case
    by (rule safe_change_trans)
qed

lemma settle_pins_frame [simp]:
  "q_events (fst (settle_pins opt st)) = q_events st"
  "q_logs (fst (settle_pins opt st)) = q_logs st"
  "q_offered (fst (settle_pins opt st)) = q_offered st"
  by (simp_all add: settle_pins_def split: option.splits prod.splits)

lemma settle_pins_safe:
  assumes "db_wf (q_db st)"
  shows "safe_change (q_db st) (q_db (fst (settle_pins opt st)))"
  using assms settle_fold_safe
  by (fastforce simp: settle_pins_def safe_change_refl split: option.splits prod.splits)

section \<open>The contract of a transaction body\<close>

lemma scan_job_ok: "row_wf r \<Longrightarrow> scan_job r = Inr (row_job r)"
  by (cases "c_state r")
    (auto simp: scan_job_def result_validate_def row_wf_def row_queued_ok_def row_held_ok_def row_ended_ok_def
      held_state_def)

lemma get_on_ok: "db_wf d \<Longrightarrow> find_job jid d = Some r \<Longrightarrow> get_on False jid d = Inr (row_job r)"
  by (simp add: get_on_def find_for_def scan_job_ok db_wf_find)

text \<open>The visible form of a job by id, and the events of a list of ids.\<close>

definition view :: "db \<Rightarrow> string \<Rightarrow> job option" where
  "view d jid = map_option row_job (find_job jid d)"

definition events_of :: "options \<Rightarrow> db \<Rightarrow> string list \<Rightarrow> job_event list" where
  "events_of opt d ids = map (\<lambda>jid. (o_origin opt, the (view d jid))) ids"

text \<open>
  What every transaction body of the queue promises: it is a safe change of the tables, it reports
  only jobs that exist afterwards, no job vanishes in it, and every job that looks different
  afterwards is reported. What the queue owes its subscribers follows from this once for all bodies.
\<close>

locale safe_tx =
  fixes body :: "'a tx"
  assumes safe: "db_wf d \<Longrightarrow> body d = Inr (a, changed, d') \<Longrightarrow> safe_change d d'"
    and reported: "db_wf d \<Longrightarrow> body d = Inr (a, changed, d') \<Longrightarrow> jid \<in> set changed \<Longrightarrow> find_job jid d' \<noteq> None"
    and kept: "db_wf d \<Longrightarrow> body d = Inr (a, changed, d') \<Longrightarrow> find_job jid d \<noteq> None \<Longrightarrow> find_job jid d' \<noteq> None"
    and announces: "db_wf d \<Longrightarrow> body d = Inr (a, changed, d') \<Longrightarrow> view d' jid \<noteq> view d jid \<Longrightarrow> jid \<in> set changed"
begin

lemma commit_total:
  assumes "db_wf d" and "body d = Inr (a, changed, d')"
  shows "commit opt body d = Inr (a, events_of opt d' changed, d')"
proof -
  have wf: "db_wf d'"
    using safe [OF assms] by (rule safe_change_wf)
  have "get_on False jid d' = Inr (the (view d' jid))" if "jid \<in> set changed" for jid
    using reported [OF assms that] wf by (auto simp: view_def get_on_ok)
  then have "map_err (\<lambda>jid. get_on False jid d') changed = Inr (map (\<lambda>jid. the (view d' jid)) changed)"
    by (rule map_err_total)
  then show ?thesis
    using assms(2) by (simp add: commit_def events_of_def)
qed

lemma commit_error: "body d = Inl e \<Longrightarrow> commit opt body d = Inl e"
  by (simp add: commit_def)

lemma write_only_eq:
  assumes "db_wf (q_db st)"
  shows "write_only opt body st =
    (case body (q_db st) of
       Inl e \<Rightarrow> (Inl e, st)
     | Inr (a, changed, d') \<Rightarrow> (Inr a, st\<lparr>q_db := d', q_events := q_events st @ events_of opt d' changed\<rparr>))"
  using assms by (auto simp: write_only_def commit_total commit_error split: sum.split)

lemma write_only_safe:
  assumes "db_wf (q_db st)"
  shows "safe_change (q_db st) (q_db (snd (write_only opt body st)))"
  using assms safe by (auto simp: write_only_eq safe_change_refl split: sum.split)

lemma write_tx_safe:
  assumes "db_wf (q_db st)"
  shows "safe_change (q_db st) (q_db (snd (write_tx opt body st)))"
proof -
  obtain out st1 where w: "write_only opt body st = (out, st1)"
    by (cases "write_only opt body st")
  then have s1: "safe_change (q_db st) (q_db st1)"
    using write_only_safe [OF assms, of opt] by simp
  then have "safe_change (q_db st) (q_db (fst (settle_pins opt st1)))"
    using settle_pins_safe safe_change_trans safe_change_wf by blast
  then show ?thesis
    using w s1 by (simp add: write_tx_def split: sum.split)
qed

lemma write_tx_answer: "fst (write_tx opt body st) = fst (write_only opt body st)"
  by (auto simp: write_tx_def split: prod.split sum.split)

lemma write_tx_events: "q_events (snd (write_tx opt body st)) = q_events (snd (write_only opt body st))"
  by (auto simp: write_tx_def split: prod.split sum.split)

text \<open>A subscriber sees every visible change, in the form the transaction left.\<close>

lemma write_tx_announces:
  assumes "db_wf (q_db st)" and "body (q_db st) = Inr (a, changed, d')" and "view d' jid \<noteq> view (q_db st) jid"
  shows "\<exists>evs j. q_events (snd (write_tx opt body st)) = q_events st @ evs
           \<and> (o_origin opt, j) \<in> set evs \<and> j_id j = jid \<and> view d' jid = Some j"
proof -
  have ch: "jid \<in> set changed"
    using announces [OF assms] .
  then obtain r where r: "find_job jid d' = Some r"
    using reported [OF assms(1,2)] by blast
  then have "view d' jid = Some (row_job r)" "j_id (row_job r) = jid"
    using find_job_Some [OF r] by (simp_all add: view_def row_job_def)
  then show ?thesis
    using ch assms(1,2) by (force simp: write_tx_events write_only_eq events_of_def)
qed

end

lemma view_update_job_other: "(\<And>r. c_id (f r) = c_id r) \<Longrightarrow> k \<noteq> jid \<Longrightarrow> view (update_job cols jid f d) k = view d k"
  by (simp add: view_def find_update_job)

lemma find_update_job_None_iff:
  "(\<And>r. c_id (f r) = c_id r) \<Longrightarrow> find_job k (update_job cols jid f d) = None \<longleftrightarrow> find_job k d = None"
  by (auto simp: find_update_job)

text \<open>A body that rewrites one existing row and reports it.\<close>

lemma one_row_laws:
  assumes f: "\<And>r. c_id (f r) = c_id r" and "find_job jid d \<noteq> None"
  shows "find_job jid (update_job cols jid f d) \<noteq> None"
    and "find_job k d \<noteq> None \<Longrightarrow> find_job k (update_job cols jid f d) \<noteq> None"
    and "view (update_job cols jid f d) k \<noteq> view d k \<Longrightarrow> k \<in> set [jid]"
  using assms view_update_job_other [of f k jid cols d] by (auto simp: find_update_job)

end
