(* ===== verification/Claims.thy ===== *)
theory Claims
  imports QueueTx
begin

text \<open>
  Claims and leases (\<open>internal/wwd/queue/claim.go\<close>, without \<open>Result\<close>, which is in the theory
  Results): what a row says about its holder (\<open>held\<close>), the claim, the start, the heartbeat, the
  release, the lapse of leases, and the two ways a held job is let go. The last part shows that each
  is a safe change of the tables.
\<close>

section \<open>The holder of a job\<close>

record held =
  h_id :: string
  h_state :: job_state
  h_claim_id :: "string option"
  h_result_claim_id :: "string option"
  h_worker :: string
  h_attempts :: int
  h_lapses :: int
  h_cancel_requested :: bool
  h_local :: bool
  h_has_log :: bool
  h_manual :: position
  h_superseded_by :: "string option"

definition row_held :: "job_row \<Rightarrow> held" where
  "row_held r =
     \<lparr>h_id = c_id r, h_state = c_state r, h_claim_id = c_claim_id r, h_result_claim_id = c_result_claim_id r,
      h_worker = (case c_claim_worker r of Some w \<Rightarrow> w | None \<Rightarrow> ''''), h_attempts = c_attempts r,
      h_lapses = c_lapses r, h_cancel_requested = c_cancel_requested r, h_local = c_local r,
      h_has_log = (c_log_size r \<noteq> None), h_manual = c_manual r, h_superseded_by = c_superseded_by r\<rparr>"

definition load_held :: "bool \<Rightarrow> string \<Rightarrow> db \<Rightarrow> qerr + held" where
  "load_held for_peers jid d =
     (case find_for for_peers jid d of None \<Rightarrow> Inl ErrNotFound | Some r \<Rightarrow> Inr (row_held r))"

definition live :: "held \<Rightarrow> string \<Rightarrow> qerr + unit" where
  "live h claim_id =
     (if (h_state h = StateClaimed \<or> h_state h = StateRunning) \<and> h_claim_id h = Some claim_id
      then Inr () else Inl (Conflict (h_state h)))"

fun held_ended :: "held \<Rightarrow> bool" where
  "held_ended h =
     (case h_state h of
        StateSucceeded \<Rightarrow> True | StateFailed \<Rightarrow> True | StateCancelled \<Rightarrow> True
      | StateSuperseded \<Rightarrow> True | StateExpired \<Rightarrow> True | _ \<Rightarrow> False)"

definition deadline :: "options \<Rightarrow> int \<Rightarrow> int" where
  "deadline opt now_ms = now_ms + o_lease_s opt * 1000"

definition renew :: "options \<Rightarrow> string \<Rightarrow> int \<Rightarrow> db \<Rightarrow> db" where
  "renew opt jid now_ms d =
     update_job [ColLeaseDeadline] jid (\<lambda>r. r\<lparr>c_lease_deadline := Some (deadline opt now_ms)\<rparr>) d"

section \<open>Claim, start, heartbeat\<close>

record claim_response =
  cp_job :: job
  cp_claim_id :: string
  cp_lease_s :: int
  cp_renew_s :: int

text \<open>\<open>claimFacts\<close>: the labels and the fingerprint as the row keeps them; none said is the empty list.\<close>

definition claim_facts :: "claim_request \<Rightarrow> string list \<times> (string \<times> string) list" where
  "claim_facts req = (cr_labels req, cr_fingerprint req)"

definition claim_row :: "options \<Rightarrow> int \<Rightarrow> string \<Rightarrow> claim_request \<Rightarrow> job_row \<Rightarrow> job_row" where
  "claim_row opt now_ms claim_id req r =
     r\<lparr>c_state := StateClaimed, c_claim_worker := Some (cr_worker req), c_claim_id := Some claim_id,
       c_claim_since := Some now_ms, c_lease_deadline := Some (deadline opt now_ms), c_lease_s := Some (o_lease_s opt),
       c_cancel_requested := False, c_updated_at := now_ms,
       c_claim_labels := fst (claim_facts req), c_claim_fingerprint := snd (claim_facts req)\<rparr>"

abbreviation claim_cols :: "column list" where
  "claim_cols \<equiv> [ColState, ColClaimWorker, ColClaimId, ColClaimSince, ColLeaseDeadline, ColLeaseS,
                 ColCancelRequested, ColUpdatedAt, ColClaimLabels, ColClaimFingerprint]"

definition claim_tx :: "options \<Rightarrow> int \<Rightarrow> string \<Rightarrow> string \<Rightarrow> claim_request \<Rightarrow> bool \<Rightarrow> claim_response tx" where
  "claim_tx opt now_ms claim_id jid req for_peers d =
     bind_err (load_held for_peers jid d) (\<lambda>h.
       if h_state h \<noteq> StateQueued \<or> h_manual h = PositionHold then Inl (Conflict (h_state h))
       else let d' = update_job claim_cols jid (claim_row opt now_ms claim_id req) d
            in bind_err (get_on False jid d') (\<lambda>j.
                 Inr (\<lparr>cp_job = j, cp_claim_id = claim_id, cp_lease_s = o_lease_s opt, cp_renew_s = o_renew_s opt\<rparr>,
                      [jid], d')))"

definition claim_job ::
  "options \<Rightarrow> int \<Rightarrow> string \<Rightarrow> string \<Rightarrow> claim_request \<Rightarrow> bool \<Rightarrow> queue_state \<Rightarrow> (qerr + claim_response) \<times> queue_state" where
  "claim_job opt now_ms claim_id jid req for_peers st =
     (case claim_validate req of Some e \<Rightarrow> (Inl (Refused e), st)
      | None \<Rightarrow> write_tx opt (claim_tx opt now_ms claim_id jid req for_peers) st)"

definition start_row :: "options \<Rightarrow> int \<Rightarrow> job_row \<Rightarrow> job_row" where
  "start_row opt now_ms r =
     r\<lparr>c_state := StateRunning,
       c_started_at := Some (max now_ms (case c_claim_since r of Some t \<Rightarrow> t | None \<Rightarrow> now_ms)),
       c_lease_deadline := Some (deadline opt now_ms), c_updated_at := now_ms\<rparr>"

definition start_tx :: "options \<Rightarrow> int \<Rightarrow> string \<Rightarrow> string \<Rightarrow> (int \<times> int) tx" where
  "start_tx opt now_ms jid claim_id d =
     bind_err (load_held False jid d) (\<lambda>h.
     bind_err (live h claim_id) (\<lambda>_.
       if h_state h = StateClaimed
       then Inr ((o_lease_s opt, o_renew_s opt), [jid],
                 update_job [ColState, ColStartedAt, ColLeaseDeadline, ColUpdatedAt] jid (start_row opt now_ms) d)
       else Inr ((o_lease_s opt, o_renew_s opt), [], renew opt jid now_ms d)))"

definition start_job :: "options \<Rightarrow> int \<Rightarrow> string \<Rightarrow> string \<Rightarrow> queue_state \<Rightarrow> (qerr + int \<times> int) \<times> queue_state" where
  "start_job opt now_ms jid claim_id st = write_tx opt (start_tx opt now_ms jid claim_id) st"

text \<open>The answer to a heartbeat: lease, renewal interval, whether to stop.\<close>

definition heartbeat_tx :: "options \<Rightarrow> int \<Rightarrow> string \<Rightarrow> string \<Rightarrow> (int \<times> int \<times> bool) tx" where
  "heartbeat_tx opt now_ms jid claim_id d =
     bind_err (load_held False jid d) (\<lambda>h.
     bind_err (live h claim_id) (\<lambda>_.
       Inr ((o_lease_s opt, o_renew_s opt, h_cancel_requested h), [], renew opt jid now_ms d)))"

definition heartbeat ::
  "options \<Rightarrow> int \<Rightarrow> string \<Rightarrow> string \<Rightarrow> queue_state \<Rightarrow> (qerr + int \<times> int \<times> bool) \<times> queue_state" where
  "heartbeat opt now_ms jid claim_id st = write_only opt (heartbeat_tx opt now_ms jid claim_id) st"

section \<open>Letting a held job go\<close>

definition ended_result :: "held \<Rightarrow> result \<Rightarrow> int \<Rightarrow> result" where
  "ended_result h res now_ms =
     (let res = (if r_finished_at res = None then res\<lparr>r_finished_at := Some now_ms\<rparr> else res);
          res = (if h_has_log h \<and> r_log res = '''' then res\<lparr>r_log := h_id h @ ''/log''\<rparr> else res)
      in case h_superseded_by h of None \<Rightarrow> res
         | Some by_id \<Rightarrow> (let res = res\<lparr>r_superseded_by := Some by_id\<rparr>
                         in if r_reason res = '''' then res\<lparr>r_reason := ''superseded_by:'' @ by_id\<rparr> else res))"

definition end_row :: "job_state \<Rightarrow> result \<Rightarrow> string \<Rightarrow> int \<Rightarrow> job_row \<Rightarrow> job_row" where
  "end_row state res result_claim_id now_ms r =
     r\<lparr>c_state := state, c_result := Some res,
       c_result_claim_id := (if result_claim_id = '''' then None else Some result_claim_id),
       c_finished_at := Some now_ms, c_lease_deadline := None, c_updated_at := now_ms\<rparr>"

definition end_held :: "held \<Rightarrow> job_state \<Rightarrow> result \<Rightarrow> string \<Rightarrow> int \<Rightarrow> db \<Rightarrow> db" where
  "end_held h state res result_claim_id now_ms d =
     update_job [ColState, ColResult, ColResultClaimId, ColFinishedAt, ColLeaseDeadline, ColUpdatedAt] (h_id h)
       (end_row state (ended_result h res now_ms) result_claim_id now_ms) d"

definition count_row :: "int \<Rightarrow> bool \<Rightarrow> job_row \<Rightarrow> job_row" where
  "count_row counted lapsed r =
     r\<lparr>c_attempts := c_attempts r + counted, c_lapses := c_lapses r + (if lapsed then 1 else 0)\<rparr>"

definition requeue_row :: "int \<Rightarrow> bool \<Rightarrow> int \<Rightarrow> job_row \<Rightarrow> job_row" where
  "requeue_row counted lapsed now_ms r =
     (count_row counted lapsed r)\<lparr>c_state := StateQueued, c_claim_worker := None, c_claim_id := None, c_claim_since := None,
       c_started_at := None, c_lease_deadline := None, c_lease_s := None, c_updated_at := now_ms\<rparr>"

text \<open>How a job that is taken back ends, if it ends: the state and the reason.\<close>

definition let_go_end :: "held \<Rightarrow> bool \<Rightarrow> string \<Rightarrow> (job_state \<times> string) option" where
  "let_go_end h lapsed fail_reason =
     (case h_superseded_by h of
        Some by_id \<Rightarrow> Some (StateSuperseded, ''superseded_by:'' @ by_id)
      | None \<Rightarrow>
          if h_cancel_requested h then Some (StateCancelled, ''cancelled'')
          else if h_local h \<or> (lapsed \<and> h_lapses h + 1 \<ge> max_lapses) then Some (StateFailed, fail_reason)
          else None)"

definition let_go :: "int \<Rightarrow> held \<Rightarrow> int \<Rightarrow> bool \<Rightarrow> string \<Rightarrow> db \<Rightarrow> db" where
  "let_go now_ms h counted lapsed fail_reason d =
     (case let_go_end h lapsed fail_reason of
        None \<Rightarrow> update_job [ColState, ColAttempts, ColLapses, ColClaimWorker, ColClaimId, ColClaimSince, ColStartedAt,
                           ColLeaseDeadline, ColLeaseS, ColUpdatedAt] (h_id h) (requeue_row counted lapsed now_ms) d
      | Some (state, reason) \<Rightarrow>
          end_held h state (zero_result\<lparr>r_host := h_worker h, r_reason := reason\<rparr>) '''' now_ms
            (update_job [ColAttempts, ColLapses] (h_id h) (count_row counted lapsed) d))"

definition release_tx :: "int \<Rightarrow> string \<Rightarrow> release_request \<Rightarrow> unit tx" where
  "release_tx now_ms jid req d =
     bind_err (load_held False jid d) (\<lambda>h.
     bind_err (live h (rl_claim_id req)) (\<lambda>_.
       Inr ((), [jid], let_go now_ms h (if rl_reason req = ReleaseInfra then 1 else 0) False (reason_text (rl_reason req)) d)))"

definition release :: "options \<Rightarrow> int \<Rightarrow> string \<Rightarrow> release_request \<Rightarrow> queue_state \<Rightarrow> (qerr + unit) \<times> queue_state" where
  "release opt now_ms jid req st =
     (case release_validate req of Some e \<Rightarrow> (Inl (Refused e), st)
      | None \<Rightarrow> write_tx opt (release_tx now_ms jid req) st)"

text \<open>
  \<open>lapseLeases\<close>: the held jobs whose lease ran out before the sweep's \<open>now_ms\<close>, in order, each let
  go as lost; \<open>clock\<close> is what the clock says while they are.
\<close>

definition lease_out :: "int \<Rightarrow> job_row \<Rightarrow> bool" where
  "lease_out now_ms r \<longleftrightarrow>
     held_state (c_state r) \<and> (case c_lease_deadline r of Some t \<Rightarrow> t < now_ms | None \<Rightarrow> False)"

fun lapse_ids :: "int \<Rightarrow> string list \<Rightarrow> db \<Rightarrow> qerr + db" where
  "lapse_ids clock [] d = Inr d"
| "lapse_ids clock (jid # ids) d =
     bind_err (load_held False jid d) (\<lambda>h. lapse_ids clock ids (let_go clock h 1 True ''lost'' d))"

definition lapse_leases :: "int \<Rightarrow> int \<Rightarrow> string list tx" where
  "lapse_leases clock now_ms d =
     (let ids = map c_id (filter (lease_out now_ms) (db_jobs d))
      in bind_err (lapse_ids clock ids d) (\<lambda>d'. Inr (ids, ids, d')))"

lemmas claims_tx_defs [tx_defs] = claim_tx_def start_tx_def heartbeat_tx_def release_tx_def

section \<open>Reading the holder\<close>

lemma row_held_sel [simp]:
  "h_id (row_held r) = c_id r" "h_state (row_held r) = c_state r" "h_claim_id (row_held r) = c_claim_id r"
  "h_result_claim_id (row_held r) = c_result_claim_id r" "h_attempts (row_held r) = c_attempts r"
  "h_lapses (row_held r) = c_lapses r" "h_cancel_requested (row_held r) = c_cancel_requested r"
  "h_local (row_held r) = c_local r" "h_has_log (row_held r) = (c_log_size r \<noteq> None)"
  "h_manual (row_held r) = c_manual r" "h_superseded_by (row_held r) = c_superseded_by r"
  by (simp_all add: row_held_def)

lemma held_ended_row [simp]: "held_ended (row_held r) = terminal (c_state r)"
  by (cases "c_state r") simp_all

declare held_ended.simps [simp del]

lemma find_for_Some: "find_for p jid d = Some r \<longleftrightarrow> find_job jid d = Some r \<and> (p \<longrightarrow> peer_visible r)"
  by (auto simp: find_for_def split: option.splits)

lemma find_for_None: "find_for p jid d = None \<longleftrightarrow> (\<forall>r. find_job jid d = Some r \<longrightarrow> p \<and> \<not> peer_visible r)"
  by (auto simp: find_for_def split: option.splits)

lemma load_held_Inr: "load_held p jid d = Inr h \<longleftrightarrow> (\<exists>r. find_for p jid d = Some r \<and> h = row_held r)"
  by (auto simp: load_held_def split: option.splits)

lemma live_row: "live (row_held r) cid = Inr u \<longleftrightarrow> held_state (c_state r) \<and> c_claim_id r = Some cid"
  by (auto simp: live_def held_state_def)

lemma live_Inl: "live (row_held r) cid = Inl e \<longleftrightarrow>
   e = Conflict (c_state r) \<and> \<not> (held_state (c_state r) \<and> c_claim_id r = Some cid)"
  by (auto simp: live_def held_state_def)

section \<open>The rows the operations write\<close>

lemma lifecycle_into: "lifecycle s t \<Longrightarrow> lifecycle\<^sup>*\<^sup>* s t"
  by (rule r_into_rtranclp)

lemma claim_row_keeps:
  assumes "row_wf r" and "c_state r = StateQueued"
  shows "row_keeps r (claim_row opt now_ms cid req r)"
proof -
  have "lifecycle\<^sup>*\<^sup>* (c_state r) StateClaimed"
    unfolding assms(2) by (rule lifecycle_into) (rule lifecycle.claims)
  then show ?thesis
    using assms by (auto simp: row_keeps_def claim_row_def row_wf_defs)
qed

lemma start_row_held: "row_held_ok r \<Longrightarrow> row_held_ok (start_row opt now_ms r)"
  unfolding row_held_ok_def start_row_def by auto

lemma start_row_wf:
  assumes "row_wf r" and "c_state r = StateClaimed"
  shows "row_wf (start_row opt now_ms r)"
proof -
  have "row_held_ok (start_row opt now_ms r)"
    using assms by (intro start_row_held) (simp add: row_wf_def held_state_def)
  with assms show ?thesis
    by (simp add: start_row_def row_wf_def row_fixed_ok_def held_state_def)
qed

lemma start_row_keeps:
  assumes "row_wf r" and "c_state r = StateClaimed"
  shows "row_keeps r (start_row opt now_ms r)"
proof -
  have "lifecycle\<^sup>*\<^sup>* (c_state r) StateRunning"
    unfolding assms(2) by (rule lifecycle_into) (rule lifecycle.starts)
  with start_row_wf [OF assms] show ?thesis
    unfolding row_keeps_def by (simp add: start_row_def)
qed

lemma held_not_terminal: "held_state s \<Longrightarrow> \<not> terminal s \<and> s \<noteq> StateQueued"
  by (auto simp: held_state_def)

lemma renew_row_keeps:
  assumes "row_wf r" and "held_state (c_state r)"
  shows "row_keeps r (r\<lparr>c_lease_deadline := Some t\<rparr>)"
proof -
  have "row_held_ok r"
    using assms by (simp add: row_wf_def)
  then have "row_held_ok (r\<lparr>c_lease_deadline := Some t\<rparr>)"
    by (simp add: row_held_ok_def)
  then have "row_wf (r\<lparr>c_lease_deadline := Some t\<rparr>)"
    using assms held_not_terminal [OF assms(2)] by (simp add: row_wf_def row_fixed_ok_def)
  then show ?thesis
    by (simp add: row_keeps_def)
qed

lemma ended_result_sel [simp]:
  "r_summary (ended_result h res t) = r_summary res"
  "r_exit (ended_result h res t) = r_exit res"
  "r_host (ended_result h res t) = r_host res"
  "r_cache_hit (ended_result h res t) = r_cache_hit res"
  "r_superseded_by (ended_result h res t) =
     (case h_superseded_by h of None \<Rightarrow> r_superseded_by res | Some b \<Rightarrow> Some b)"
  by (auto simp: ended_result_def Let_def split: option.splits)

lemma end_row_keeps:
  assumes wf: "row_wf r" and held: "held_state (c_state r)" and "result_state state"
    and sum: "summary_validate (r_summary res) = None" and by_id: "r_superseded_by res = c_superseded_by r"
    and counts: "(if lapsed then 1 else 0) \<le> counted"
  shows "row_keeps r (end_row state res rc now_ms (count_row counted lapsed r))"
proof -
  have "lifecycle\<^sup>*\<^sup>* (c_state r) state"
    using held \<open>result_state state\<close> by (intro lifecycle_into lifecycle.ends_held)
  moreover have "terminal state" "state_valid state" "\<not> held_state state" "state \<noteq> StateQueued"
    using \<open>result_state state\<close> by (cases state; simp add: held_state_def)+
  moreover have "\<not> terminal (c_state r)"
    using held by (auto simp: held_state_def)
  ultimately show ?thesis
    using wf sum by_id counts
    by (auto simp: row_keeps_def end_row_def count_row_def row_wf_def row_fixed_ok_def row_ended_ok_def
        max_lapses_def split: if_splits)
qed

lemma count_row_0 [simp]: "count_row 0 False r = r"
  by (simp add: count_row_def)

lemma requeue_row_keeps:
  assumes wf: "row_wf r" and held: "held_state (c_state r)"
    and wanted: "c_superseded_by r = None" "\<not> c_cancel_requested r" "\<not> c_local r"
    and more: "lapsed \<Longrightarrow> c_lapses r + 1 < max_lapses" and counts: "(if lapsed then 1 else 0) \<le> counted"
  shows "row_keeps r (requeue_row counted lapsed now_ms r)"
proof -
  have "lifecycle\<^sup>*\<^sup>* (c_state r) StateQueued"
    using held by (intro lifecycle_into lifecycle.goes_back)
  moreover have "\<not> terminal (c_state r)" "row_held_ok r" "\<not> held_state StateQueued"
    using held wf by (auto simp: held_state_def row_wf_def)
  ultimately show ?thesis
    using wf wanted more counts
    by (auto simp: row_keeps_def requeue_row_def count_row_def row_wf_def row_fixed_ok_def row_queued_ok_def
        row_held_ok_def split: if_splits)
qed

section \<open>The operations are safe\<close>

text \<open>Two statements on one row, the first without the trigger, are one.\<close>

lemma update_job_twice:
  assumes "\<not> fires cols1" and "\<And>r. c_id (f r) = c_id r"
  shows "update_job cols2 jid g (update_job cols1 jid f d) = update_job cols2 jid (\<lambda>r. g (f r)) d"
proof (cases "find_job jid d")
  case None
  then show ?thesis by (simp add: update_job_def)
next
  case (Some r)
  then have "find_job jid (update_job cols1 jid f d) = Some (f r)"
    using assms by (simp add: find_update_job)
  with Some assms show ?thesis
    by (simp add: update_job_def update_by_def)
qed

lemma end_row_id [simp]: "c_id (end_row st res rc t r) = c_id r" "c_seq (end_row st res rc t r) = c_seq r"
  "place (end_row st res rc t r) = place r"
  by (simp_all add: end_row_def place_def)

lemma count_row_id [simp]: "c_id (count_row n l r) = c_id r" "c_seq (count_row n l r) = c_seq r"
  "place (count_row n l r) = place r"
  by (simp_all add: count_row_def place_def)

lemma requeue_row_id [simp]: "c_id (requeue_row n l t r) = c_id r" "c_seq (requeue_row n l t r) = c_seq r"
  "place (requeue_row n l t r) = place r"
  by (simp_all add: requeue_row_def count_row_def place_def)

lemma claim_row_id [simp]: "c_id (claim_row opt t cid req r) = c_id r" "c_seq (claim_row opt t cid req r) = c_seq r"
  "place (claim_row opt t cid req r) = place r"
  by (simp_all add: claim_row_def place_def)

lemma start_row_id [simp]: "c_id (start_row opt t r) = c_id r" "c_seq (start_row opt t r) = c_seq r"
  "place (start_row opt t r) = place r"
  by (simp_all add: start_row_def place_def)

lemma let_go_end_result_state: "let_go_end h lapsed reason = Some (state, why) \<Longrightarrow> result_state state"
  by (auto simp: let_go_end_def split: option.splits if_splits)

lemma let_go_eq:
  "let_go t (row_held r) counted lapsed reason d =
     (case let_go_end (row_held r) lapsed reason of
        None \<Rightarrow> update_job [ColState, ColAttempts, ColLapses, ColClaimWorker, ColClaimId, ColClaimSince, ColStartedAt,
                           ColLeaseDeadline, ColLeaseS, ColUpdatedAt] (c_id r) (requeue_row counted lapsed t) d
      | Some (state, why) \<Rightarrow>
          update_job [ColState, ColResult, ColResultClaimId, ColFinishedAt, ColLeaseDeadline, ColUpdatedAt] (c_id r)
            (\<lambda>r'. end_row state (ended_result (row_held r) (zero_result\<lparr>r_host := h_worker (row_held r), r_reason := why\<rparr>) t)
                    '''' t (count_row counted lapsed r')) d)"
  by (auto simp: let_go_def end_held_def update_job_twice split: option.split)

lemma let_go_safe:
  assumes wf: "db_wf d" and r: "find_job jid d = Some r" and held: "held_state (c_state r)"
    and counts: "(if lapsed then 1 else 0) \<le> counted"
  shows "safe_change d (let_go t (row_held r) counted lapsed reason d)"
proof -
  have row: "row_wf r" and rid: "c_id r = jid"
    using find_job_wf [OF wf r] by auto
  show ?thesis
  proof (cases "let_go_end (row_held r) lapsed reason")
    case None
    then have "row_keeps r (requeue_row counted lapsed t r)"
      using row held counts
      by (intro requeue_row_keeps) (auto simp: let_go_end_def split: option.splits if_splits)
    then show ?thesis
      using None wf r rid by (simp add: let_go_eq) (rule update_job_safe, simp_all)
  next
    case (Some sw)
    obtain state why where sw: "sw = (state, why)" by (cases sw)
    let ?res = "ended_result (row_held r) (zero_result\<lparr>r_host := h_worker (row_held r), r_reason := why\<rparr>) t"
    have "row_keeps r (end_row state ?res '''' t (count_row counted lapsed r))"
      using row held counts Some sw
      by (intro end_row_keeps)
        (auto simp: zero_result_def summary_validate_def dest: let_go_end_result_state split: option.splits)
    then show ?thesis
      using Some sw wf r rid by (simp add: let_go_eq) (rule update_job_safe, simp_all)
  qed
qed

section \<open>Transactions\<close>

lemma let_go_one_row:
  "\<exists>cols f. let_go t (row_held r) n l reason d = update_job cols (c_id r) f d \<and> (\<forall>r. c_id (f r) = c_id r)"
  by (auto simp: let_go_eq split: option.split) (metis requeue_row_id(1) end_row_id(1) count_row_id(1))+

lemma claim_tx_Inr:
  assumes "claim_tx opt now_ms cid jid req fp d = Inr (a, changed, d')"
  obtains r where "find_job jid d = Some r" and "fp \<Longrightarrow> peer_visible r" and "c_state r = StateQueued"
    and "c_manual r \<noteq> PositionHold" and "changed = [jid]" and "d' = update_job claim_cols jid (claim_row opt now_ms cid req) d"
    and "get_on False jid d' = Inr (cp_job a)" and "cp_claim_id a = cid"
  using assms
  by (auto simp: claim_tx_def bind_err_Inr_iff load_held_Inr find_for_Some Let_def split: if_splits)

interpretation claim: safe_tx "claim_tx opt now_ms cid jid req fp" for opt now_ms cid jid req fp
proof
  fix d a changed d' k
  assume wf: "db_wf d" and ok: "claim_tx opt now_ms cid jid req fp d = Inr (a, changed, d')"
  from ok obtain r where r: "find_job jid d = Some r" "c_state r = StateQueued" and ch: "changed = [jid]"
    and d': "d' = update_job claim_cols jid (claim_row opt now_ms cid req) d"
    by (rule claim_tx_Inr)
  show "safe_change d d'"
    unfolding d' using claim_row_keeps [OF db_wf_find [OF wf r(1)] r(2)] wf r(1)
    by (intro update_job_safe) simp_all
  note laws = one_row_laws [where f = "claim_row opt now_ms cid req" and jid = jid and d = d and cols = claim_cols]
  show "k \<in> set changed \<Longrightarrow> find_job k d' \<noteq> None" and "find_job k d \<noteq> None \<Longrightarrow> find_job k d' \<noteq> None"
    and "view d' k \<noteq> view d k \<Longrightarrow> k \<in> set changed"
    using laws r ch d' by simp_all
qed

lemma renew_view [simp]: "view (renew opt jid t d) k = view d k"
  by (auto simp: view_def renew_def find_update_job row_job_def row_claim_def option.map_comp comp_def
      intro!: option.map_cong split: option.split)

lemma renew_find: "find_job k (renew opt jid t d) = None \<longleftrightarrow> find_job k d = None"
  by (simp add: renew_def find_update_job_None_iff)

lemma renew_find': "(\<exists>y. find_job k (renew opt jid t d) = Some y) \<longleftrightarrow> (\<exists>y. find_job k d = Some y)"
  using renew_find [of k opt jid t d] by (metis not_None_eq)

lemma renew_safe:
  assumes "db_wf d" and "find_job jid d = Some r" and "held_state (c_state r)"
  shows "safe_change d (renew opt jid t d)"
  unfolding renew_def using assms
  by (intro update_job_quiet_safe)
    (auto simp: renew_row_keeps db_wf_find place_def row_job_def row_claim_def split: option.split)

interpretation heartbeat: safe_tx "heartbeat_tx opt now_ms jid cid" for opt now_ms jid cid
  by unfold_locales
    (auto simp: heartbeat_tx_def bind_err_Inr_iff load_held_Inr find_for_Some live_row renew_find'
      intro: renew_safe)

interpretation start: safe_tx "start_tx opt now_ms jid cid" for opt now_ms jid cid
proof
  fix d a changed d' k
  assume wf: "db_wf d" and ok: "start_tx opt now_ms jid cid d = Inr (a, changed, d')"
  from ok obtain r where r: "find_job jid d = Some r" "held_state (c_state r)"
    and cases: "(c_state r = StateClaimed \<and> changed = [jid] \<and>
       d' = update_job [ColState, ColStartedAt, ColLeaseDeadline, ColUpdatedAt] jid (start_row opt now_ms) d)
     \<or> (c_state r \<noteq> StateClaimed \<and> changed = [] \<and> d' = renew opt jid now_ms d)"
    by (fastforce simp: start_tx_def bind_err_Inr_iff load_held_Inr find_for_Some live_row split: if_splits)
  have "safe_change d d' \<and> (k \<in> set changed \<longrightarrow> find_job k d' \<noteq> None)
      \<and> (find_job k d \<noteq> None \<longrightarrow> find_job k d' \<noteq> None) \<and> (view d' k \<noteq> view d k \<longrightarrow> k \<in> set changed)"
    using cases
  proof (elim disjE conjE)
    assume s: "c_state r = StateClaimed" and ch: "changed = [jid]"
      and d': "d' = update_job [ColState, ColStartedAt, ColLeaseDeadline, ColUpdatedAt] jid (start_row opt now_ms) d"
    have "safe_change d d'"
      unfolding d' using start_row_keeps [OF db_wf_find [OF wf r(1)] s] wf r(1)
      by (intro update_job_safe) simp_all
    then show ?thesis
      using one_row_laws [of "start_row opt now_ms" jid d] r ch d' by simp
  next
    assume "c_state r \<noteq> StateClaimed" and "changed = []" and "d' = renew opt jid now_ms d"
    then show ?thesis
      using renew_safe [OF wf r] renew_find by auto
  qed
  then show "safe_change d d'" and "k \<in> set changed \<Longrightarrow> find_job k d' \<noteq> None"
    and "find_job k d \<noteq> None \<Longrightarrow> find_job k d' \<noteq> None" and "view d' k \<noteq> view d k \<Longrightarrow> k \<in> set changed"
    by blast+
qed

interpretation release: safe_tx "release_tx now_ms jid req" for now_ms jid req
proof
  fix d a changed d' k
  assume wf: "db_wf d" and ok: "release_tx now_ms jid req d = Inr (a, changed, d')"
  define n :: int where "n = (if rl_reason req = ReleaseInfra then 1 else 0)"
  define reason where "reason = reason_text (rl_reason req)"
  from ok obtain r where r: "find_job jid d = Some r" "held_state (c_state r)" and ch: "changed = [jid]"
    and d': "d' = let_go now_ms (row_held r) n False reason d"
    by (auto simp: release_tx_def bind_err_Inr_iff load_held_Inr find_for_Some live_row n_def reason_def)
  have n: "0 \<le> n" by (simp add: n_def)
  have rid: "c_id r = jid"
    using find_job_Some [OF r(1)] by simp
  show "safe_change d d'"
    unfolding d' using wf r n by (intro let_go_safe) auto
  obtain cols f where f: "d' = update_job cols jid f d" "\<And>r. c_id (f r) = c_id r"
    using let_go_one_row [of now_ms r n False reason d] d' rid by auto
  note laws = one_row_laws [OF f(2), where jid = jid and d = d and cols = cols]
  show "k \<in> set changed \<Longrightarrow> find_job k d' \<noteq> None" and "find_job k d \<noteq> None \<Longrightarrow> find_job k d' \<noteq> None"
    and "view d' k \<noteq> view d k \<Longrightarrow> k \<in> set changed"
    using laws r ch f(1) by simp_all
qed

section \<open>What letting go leaves\<close>

text \<open>The row a job has after it was let go, its number apart.\<close>

definition let_go_row :: "int \<Rightarrow> int \<Rightarrow> bool \<Rightarrow> string \<Rightarrow> job_row \<Rightarrow> job_row" where
  "let_go_row t counted lapsed reason r =
     (case let_go_end (row_held r) lapsed reason of
        None \<Rightarrow> requeue_row counted lapsed t r
      | Some (state, why) \<Rightarrow>
          end_row state (ended_result (row_held r) (zero_result\<lparr>r_host := h_worker (row_held r), r_reason := why\<rparr>) t)
            '''' t (count_row counted lapsed r))"

lemma find_let_go:
  assumes "find_job jid d = Some r"
  shows "find_job k (let_go t (row_held r) n l reason d) =
    (if k = jid then Some ((let_go_row t n l reason r)\<lparr>c_rev := db_rev d + 1\<rparr>) else find_job k d)"
  using assms find_job_Some [OF assms]
  by (auto simp: let_go_eq let_go_row_def find_update_job split: option.split)

lemma let_go_row_sel [simp]:
  "c_id (let_go_row t n l reason r) = c_id r"
  "c_lapses (let_go_row t n l reason r) = c_lapses r + (if l then 1 else 0)"
  "c_attempts (let_go_row t n l reason r) = c_attempts r + n"
  "c_sub (let_go_row t n l reason r) = c_sub r"
  by (simp_all add: let_go_row_def requeue_row_def count_row_def end_row_def split: option.split prod.split)

lemma let_go_row_not_held: "\<not> held_state (c_state (let_go_row t n l reason r))"
  by (auto simp: let_go_row_def requeue_row_def count_row_def end_row_def let_go_end_def held_state_def
      split: option.split)

lemma lapse_ids_ok:
  assumes "db_wf d" and "distinct ids"
    and "\<And>jid. jid \<in> set ids \<Longrightarrow> \<exists>r. find_job jid d = Some r \<and> held_state (c_state r)"
  shows "\<exists>d'. lapse_ids t ids d = Inr d' \<and> safe_change d d'
    \<and> (\<forall>k. k \<notin> set ids \<longrightarrow> find_job k d' = find_job k d)
    \<and> (\<forall>k r. k \<in> set ids \<longrightarrow> find_job k d = Some r \<longrightarrow>
          (\<exists>n. find_job k d' = Some ((let_go_row t 1 True ''lost'' r)\<lparr>c_rev := n\<rparr>)))"
  using assms
proof (induction ids arbitrary: d)
  case Nil
  then show ?case by (simp add: safe_change_refl)
next
  case (Cons jid ids)
  obtain r where r: "find_job jid d = Some r" "held_state (c_state r)"
    using Cons.prems(3) by auto
  let ?d1 = "let_go t (row_held r) 1 True ''lost'' d"
  have s1: "safe_change d ?d1"
    using Cons.prems(1) r by (intro let_go_safe) auto
  have other: "find_job k ?d1 = find_job k d" if "k \<in> set ids" for k
    using that Cons.prems(2) r by (auto simp: find_let_go)
  have "\<exists>r. find_job k ?d1 = Some r \<and> held_state (c_state r)" if "k \<in> set ids" for k
    using other [OF that] Cons.prems(3) that by simp
  then obtain d' where d': "lapse_ids t ids ?d1 = Inr d'" "safe_change ?d1 d'"
    and same: "\<And>k. k \<notin> set ids \<Longrightarrow> find_job k d' = find_job k ?d1"
    and gone: "\<And>k r. k \<in> set ids \<Longrightarrow> find_job k ?d1 = Some r \<Longrightarrow>
      \<exists>n. find_job k d' = Some ((let_go_row t 1 True ''lost'' r)\<lparr>c_rev := n\<rparr>)"
    using Cons.IH [of ?d1] safe_change_wf [OF s1] Cons.prems(2) by auto
  have run: "lapse_ids t (jid # ids) d = Inr d'"
    using r d'(1) by (simp add: load_held_def find_for_def)
  have whole: "safe_change d d'"
    using s1 d'(2) by (rule safe_change_trans)
  have rest: "find_job k d' = find_job k d" if "k \<notin> set (jid # ids)" for k
    using that same r by (auto simp: find_let_go)
  have each: "\<exists>n. find_job k d' = Some ((let_go_row t 1 True ''lost'' s)\<lparr>c_rev := n\<rparr>)"
    if "k \<in> set (jid # ids)" "find_job k d = Some s" for k s
  proof (cases "k = jid")
    case True
    with that r have "s = r" by simp
    have "find_job jid d' = find_job jid ?d1"
      using Cons.prems(2) by (intro same) simp
    also have "\<dots> = Some ((let_go_row t 1 True ''lost'' r)\<lparr>c_rev := db_rev d + 1\<rparr>)"
      unfolding find_let_go [OF r(1)] by simp
    finally show ?thesis
      unfolding True \<open>s = r\<close> by (rule exI)
  next
    case False
    with that(1) have "k \<in> set ids" by simp
    with that(2) other show ?thesis
      by (intro gone) simp_all
  qed
  show ?case
    by (intro exI [of _ d'] conjI allI impI run whole rest each)
qed

end
