(* ===== verification/Outcomes.thy ===== *)
theory Outcomes
  imports Claims
begin

text \<open>
  The record of how declared tasks ended (\<open>internal/wwd/queue/outcomes.go\<close> and
  \<open>produced.go\<close>): which ended jobs are compared, what they are compared by, and the disagreements an
  outcome makes with the latest outcome of every other host for the same work.
\<close>

section \<open>What is compared\<close>

definition result_ok_base :: "job \<Rightarrow> result \<Rightarrow> bool" where
  "result_ok_base j r \<longleftrightarrow>
     j_cacheable j \<and> \<not> j_local j \<and> \<not> j_adhoc j \<and> \<not> r_cache_hit r \<and> r_superseded_by r = None"

definition reusable :: "job \<Rightarrow> bool" where
  "reusable j \<longleftrightarrow> j_state j = StateSucceeded \<and>
     (case j_result j of None \<Rightarrow> False | Some r \<Rightarrow> result_ok_base j r \<and> r_exit r = Some 0)"

definition comparable :: "job \<Rightarrow> bool" where
  "comparable j \<longleftrightarrow> (j_state j = StateSucceeded \<or> j_state j = StateFailed) \<and>
     (case j_result j of None \<Rightarrow> False | Some r \<Rightarrow> result_ok_base j r \<and> r_exit r \<noteq> None)"

definition produced_on :: "string \<Rightarrow> db \<Rightarrow> qerr + produced" where
  "produced_on jid d =
     (case find_job jid d of
        None \<Rightarrow> Inl ErrNotFound
      | Some r \<Rightarrow> Inr \<lparr>pr_def_hash = s_def_hash (c_sub r), pr_labels = c_claim_labels r,
                      pr_fingerprint = c_claim_fingerprint r\<rparr>)"

record outcome =
  u_job_id :: string
  u_host :: string
  u_label :: string
  u_tree :: string
  u_task :: string
  u_args :: "string list"
  u_def_hash :: string
  u_reference :: string
  u_ok :: bool
  u_standing :: standing
  u_at :: "int option" \<comment> \<open>\<open>None\<close> is the zero time\<close>

text \<open>The standing is one of the two of the type, so that check has no case here.\<close>

definition outcome_validate :: "outcome \<Rightarrow> go_error" where
  "outcome_validate u = first_error
     [(\<not> matches_job_id (u_job_id u), ''outcome: job id''),
      (\<not> valid_alias (u_host u), ''outcome: host''),
      (\<not> valid_task_label (u_label u), ''outcome: label''),
      (u_tree u = '''' \<or> u_task u = '''' \<or> u_def_hash u = '''', ''outcome: missing tree, task or definition hash''),
      (u_at u = None, ''outcome: no time'')]"

definition work_key :: "options \<Rightarrow> outcome \<Rightarrow> string" where
  "work_key opt u = o_hash opt [u_label u, u_tree u, u_task u, u_def_hash u, u_reference u] (u_args u)"

section \<open>Recording\<close>

text \<open>The latest row of each other host: \<open>seq IN (SELECT max(seq) ... GROUP BY host)\<close>, in the table's order.\<close>

definition latest_of_host :: "string \<Rightarrow> outcome_row list \<Rightarrow> outcome_row \<Rightarrow> bool" where
  "latest_of_host key rows e \<longleftrightarrow>
     t_work_key e = key \<and> list_all (\<lambda>x. t_work_key x = key \<and> t_host x = t_host e \<longrightarrow> t_seq x \<le> t_seq e) rows"

definition earlier_pairs :: "string \<Rightarrow> outcome \<Rightarrow> outcome_row list \<Rightarrow> outcome_row list" where
  "earlier_pairs key u rows =
     filter (\<lambda>e. t_host e \<noteq> u_host u \<and> latest_of_host key rows e \<and> t_ok e \<noteq> u_ok u \<and> valid_alias (t_host e)) rows"

definition quarantined :: "outcome \<Rightarrow> string \<Rightarrow> standing \<Rightarrow> string list" where
  "quarantined u other_host other_standing =
     (if u_standing u = StandingReference \<and> other_standing = StandingReference then []
      else if u_standing u = StandingReference then [other_host]
      else if other_standing = StandingReference then [u_host u]
      else [u_host u, other_host])"

definition disagreement_known :: "string \<Rightarrow> string \<Rightarrow> string \<Rightarrow> disagreement_row list \<Rightarrow> bool" where
  "disagreement_known host job_old job_new ws =
     list_ex (\<lambda>w. w_host w = host \<and> w_job_old w = job_old \<and> w_job_new w = job_new) ws"

text \<open>One \<open>INSERT OR IGNORE INTO outcome_disagreements\<close>; the written ones are collected in order.\<close>

definition write_disagreement ::
  "outcome \<Rightarrow> int \<Rightarrow> outcome_row \<Rightarrow> string \<Rightarrow> db \<times> disagreement list \<Rightarrow> db \<times> disagreement list" where
  "write_disagreement u at_ms e host = (\<lambda>(d, ws).
     if disagreement_known host (t_job_id e) (u_job_id u) (db_disagreements d) then (d, ws)
     else let other = (if host = t_host e then u_host u else t_host e);
              n = db_disagreement_seq d + 1
          in (d\<lparr>db_disagreements := db_disagreements d @
                 [\<lparr>w_seq = n, w_host = host, w_label = u_label u, w_other_host = other, w_tree = u_tree u,
                   w_task = u_task u, w_job_old = t_job_id e, w_job_new = u_job_id u, w_at = at_ms\<rparr>],
               db_disagreement_seq := n\<rparr>,
              ws @ [\<lparr>d_id = n, d_label = u_label u, d_host = host, d_other_host = other, d_tree = u_tree u,
                     d_task = u_task u, d_jobs = (t_job_id e, u_job_id u), d_at = u_at u\<rparr>]))"

definition record_outcome_on :: "options \<Rightarrow> outcome \<Rightarrow> db \<Rightarrow> disagreement list \<times> db" where
  "record_outcome_on opt u d =
     (let key = work_key opt u; at_ms = (case u_at u of Some t \<Rightarrow> t | None \<Rightarrow> 0)
      in if list_ex (\<lambda>x. t_job_id x = u_job_id u) (db_outcomes d) then ([], d)
         else let n = db_outcome_seq d + 1;
                  d1 = d\<lparr>db_outcomes := db_outcomes d @
                          [\<lparr>t_seq = n, t_job_id = u_job_id u, t_work_key = key, t_host = u_host u, t_label = u_label u,
                            t_tree = u_tree u, t_task = u_task u, t_ok = u_ok u, t_standing = u_standing u, t_at = at_ms\<rparr>],
                        db_outcome_seq := n\<rparr>;
                  pairs = earlier_pairs key u (db_outcomes d1);
                  (d2, ws) = fold (\<lambda>e. fold (write_disagreement u at_ms e) (quarantined u (t_host e) (t_standing e)))
                               pairs (d1, [])
              in (ws, d2))"

definition record_outcome :: "options \<Rightarrow> outcome \<Rightarrow> queue_state \<Rightarrow> (qerr + disagreement list) \<times> queue_state" where
  "record_outcome opt u st =
     (case outcome_validate u of Some e \<Rightarrow> (Inl (Refused e), st)
      | None \<Rightarrow> write_only opt (\<lambda>d. case record_outcome_on opt u d of (ws, d') \<Rightarrow> Inr (ws, [], d')) st)"

text \<open>The standing of an ended job's host: reference first, else earned by the claim's own labels.\<close>

definition ended_standing :: "string \<Rightarrow> string \<Rightarrow> string \<Rightarrow> string list \<Rightarrow> standing option" where
  "ended_standing reference host label labels =
     (if reference \<noteq> '''' \<and> host = reference then Some StandingReference
      else if label \<in> set labels then Some StandingEarned else None)"

definition ended_outcome :: "job \<Rightarrow> produced \<Rightarrow> string \<Rightarrow> int \<Rightarrow> outcome option" where
  "ended_outcome j p reference now_ms =
     (case j_result j of None \<Rightarrow> None
      | Some r \<Rightarrow>
          if \<not> comparable j \<or> pr_def_hash p = '''' \<or> pr_labels p = [] \<or> r_host r = '''' then None
          else let label = ''task:'' @ repo_name (j_repo j) @ ''/'' @ j_task j
               in (case ended_standing reference (r_host r) label (pr_labels p) of None \<Rightarrow> None
                   | Some s \<Rightarrow> Some \<lparr>u_job_id = j_id j, u_host = r_host r, u_label = label, u_tree = snap_tree (j_snapshot j),
                       u_task = j_task j, u_args = j_args j, u_def_hash = pr_def_hash p, u_reference = reference,
                       u_ok = (r_exit r = Some 0), u_standing = s, u_at = Some now_ms\<rparr>))"

definition record_ended_outcome :: "options \<Rightarrow> job \<Rightarrow> produced \<Rightarrow> string \<Rightarrow> int \<Rightarrow> db \<Rightarrow> db" where
  "record_ended_outcome opt j p reference now_ms d =
     (case ended_outcome j p reference now_ms of None \<Rightarrow> d
      | Some u \<Rightarrow> (if outcome_validate u \<noteq> None then d else snd (record_outcome_on opt u d)))"

section \<open>Reading and pruning\<close>

definition disagreements :: "string \<Rightarrow> int \<Rightarrow> int \<Rightarrow> db \<Rightarrow> disagreement list \<times> bool" where
  "disagreements host after limit d =
     (let lim = (if limit \<le> 0 \<or> limit > int max_disagreements then max_disagreements else nat limit);
          rows = take (lim + 1) (sort_key w_seq (filter (\<lambda>w. w_host w = host \<and> w_seq w > after) (db_disagreements d)))
      in (map (\<lambda>w. \<lparr>d_id = w_seq w, d_label = w_label w, d_host = w_host w, d_other_host = w_other_host w, d_tree = w_tree w,
                    d_task = w_task w, d_jobs = (w_job_old w, w_job_new w), d_at = Some (w_at w)\<rparr>) (take lim rows),
          length rows > lim))"

definition prune_outcomes :: "int \<Rightarrow> db \<Rightarrow> db" where
  "prune_outcomes cutoff d =
     d\<lparr>db_outcomes := filter (\<lambda>x. \<not> t_at x < cutoff) (db_outcomes d),
       db_disagreements := filter (\<lambda>w. \<not> w_at w < cutoff) (db_disagreements d)\<rparr>"

section \<open>Offering a result for reuse\<close>

definition offer_result :: "options \<Rightarrow> job \<Rightarrow> produced \<Rightarrow> queue_state \<Rightarrow> queue_state" where
  "offer_result opt j p st =
     (if \<not> o_offers opt \<or> \<not> reusable j \<or> (case j_result j of None \<Rightarrow> True | Some r \<Rightarrow> r_log r = '''') then st
      else st\<lparr>q_offered := q_offered st @ [(j, p)]\<rparr>)"

section \<open>What recording leaves alone\<close>

text \<open>Recording touches the two outcome tables only, so for the jobs it is no change at all.\<close>

definition same_jobs :: "db \<Rightarrow> db \<Rightarrow> bool" where
  "same_jobs d d' \<longleftrightarrow> db_jobs d' = db_jobs d \<and> db_last_seq d' = db_last_seq d \<and> db_rev d' = db_rev d
     \<and> db_epoch d' = db_epoch d \<and> db_pins d' = db_pins d"

lemma same_jobs_refl [simp]: "same_jobs d d"
  by (simp add: same_jobs_def)

lemma same_jobs_trans: "same_jobs d d1 \<Longrightarrow> same_jobs d1 d2 \<Longrightarrow> same_jobs d d2"
  by (simp add: same_jobs_def)

lemma same_jobs_safe: "db_wf d \<Longrightarrow> same_jobs d d' \<Longrightarrow> safe_change d d'"
  by (rule safe_change_frame) (simp_all add: same_jobs_def)

lemma same_jobs_find: "same_jobs d d' \<Longrightarrow> find_job k d' = find_job k d"
  by (simp add: same_jobs_def find_job_def)

lemma same_jobs_view: "same_jobs d d' \<Longrightarrow> view d' k = view d k"
  by (simp add: view_def same_jobs_find)

lemma fold_concat: "fold (\<lambda>e. fold (f e) (g e)) es s = fold (\<lambda>(e, h). f e h) (concat (map (\<lambda>e. map (Pair e) (g e)) es)) s"
  by (induction es arbitrary: s) (simp_all add: fold_map comp_def)

text \<open>The pairs an outcome disagrees in, each with a host whose label is to be quarantined.\<close>

definition disputes :: "string \<Rightarrow> outcome \<Rightarrow> outcome_row list \<Rightarrow> (outcome_row \<times> string) list" where
  "disputes key u rows =
     concat (map (\<lambda>e. map (Pair e) (quarantined u (t_host e) (t_standing e))) (earlier_pairs key u rows))"

definition outcome_row_of :: "options \<Rightarrow> outcome \<Rightarrow> db \<Rightarrow> outcome_row" where
  "outcome_row_of opt u d =
     \<lparr>t_seq = db_outcome_seq d + 1, t_job_id = u_job_id u, t_work_key = work_key opt u, t_host = u_host u,
      t_label = u_label u, t_tree = u_tree u, t_task = u_task u, t_ok = u_ok u, t_standing = u_standing u,
      t_at = (case u_at u of Some t \<Rightarrow> t | None \<Rightarrow> 0)\<rparr>"

lemma earlier_pairs_own: "earlier_pairs key u (rows @ [outcome_row_of opt u d]) = earlier_pairs key u rows"
  by (auto simp: earlier_pairs_def outcome_row_of_def latest_of_host_def intro!: filter_cong)

lemma record_outcome_on_eq:
  "record_outcome_on opt u d =
     (if list_ex (\<lambda>x. t_job_id x = u_job_id u) (db_outcomes d) then ([], d)
      else case fold (\<lambda>(e, h). write_disagreement u (case u_at u of Some t \<Rightarrow> t | None \<Rightarrow> 0) e h)
                  (disputes (work_key opt u) u (db_outcomes d))
                  (d\<lparr>db_outcomes := db_outcomes d @ [outcome_row_of opt u d], db_outcome_seq := db_outcome_seq d + 1\<rparr>, [])
           of (d2, ws) \<Rightarrow> (ws, d2))"
  using earlier_pairs_own [of "work_key opt u" u "db_outcomes d" opt d]
  by (simp add: record_outcome_on_def fold_concat disputes_def Let_def outcome_row_of_def)

lemma write_disagreement_same: "same_jobs d0 d \<Longrightarrow> same_jobs d0 (fst (write_disagreement u t e h (d, ws)))"
  by (simp add: write_disagreement_def same_jobs_def Let_def)

lemma write_fold_same: "same_jobs d0 (fst s) \<Longrightarrow> same_jobs d0 (fst (fold (\<lambda>(e, h). write_disagreement u t e h) xs s))"
proof (induction xs arbitrary: s)
  case (Cons x xs)
  then show ?case
    by (cases s; cases x) (simp add: write_disagreement_same)
qed simp

lemma record_outcome_on_same: "same_jobs d (snd (record_outcome_on opt u d))"
proof -
  let ?d1 = "d\<lparr>db_outcomes := db_outcomes d @ [outcome_row_of opt u d], db_outcome_seq := db_outcome_seq d + 1\<rparr>"
  have "same_jobs d (fst (?d1, []))"
    by (simp add: same_jobs_def)
  from write_fold_same [OF this] show ?thesis
    by (simp add: record_outcome_on_eq case_prod_beta)
qed

lemma record_ended_outcome_same: "same_jobs d (record_ended_outcome opt j p ref t d)"
  using record_outcome_on_same by (simp add: record_ended_outcome_def split: option.split)

interpretation record_out: safe_tx "\<lambda>d. case record_outcome_on opt u d of (ws, d') \<Rightarrow> Inr (ws, [], d')" for opt u
proof
  fix d a d' and changed :: "string list" and k :: string
  assume wf: "db_wf d" and "(case record_outcome_on opt u d of (ws, d') \<Rightarrow> Inr (ws, [], d')) = Inr (a, changed, d')"
  then have s: "same_jobs d d'" and "changed = []"
    using record_outcome_on_same [of d opt u] by (auto split: prod.splits)
  then show "safe_change d d'" and "k \<in> set changed \<Longrightarrow> find_job k d' \<noteq> None"
    and "find_job k d \<noteq> None \<Longrightarrow> find_job k d' \<noteq> None" and "view d' k \<noteq> view d k \<Longrightarrow> k \<in> set changed"
    using wf by (simp_all add: same_jobs_safe same_jobs_find same_jobs_view)
qed

section \<open>What recording writes\<close>

lemma disputes_iff:
  "(e, h) \<in> set (disputes key u rows) \<longleftrightarrow>
     e \<in> set rows \<and> t_host e \<noteq> u_host u \<and> latest_of_host key rows e \<and> t_ok e \<noteq> u_ok u \<and> valid_alias (t_host e)
     \<and> h \<in> set (quarantined u (t_host e) (t_standing e))"
  by (auto simp: disputes_def earlier_pairs_def)

lemma quarantined_iff:
  "h \<in> set (quarantined u oh os) \<longleftrightarrow>
     (h = u_host u \<and> u_standing u \<noteq> StandingReference) \<or> (h = oh \<and> os \<noteq> StandingReference)"
  by (cases "u_standing u"; cases os) (auto simp: quarantined_def)

text \<open>A written disagreement comes from one of the disputes; a dispute is written, or was known.\<close>

definition dispute_of :: "outcome \<Rightarrow> outcome_row \<times> string \<Rightarrow> disagreement \<Rightarrow> bool" where
  "dispute_of u x w \<longleftrightarrow> d_host w = snd x \<and> d_label w = u_label u \<and> d_jobs w = (t_job_id (fst x), u_job_id u)
     \<and> d_tree w = u_tree u \<and> d_task w = u_task u \<and> d_at w = u_at u
     \<and> d_other_host w = (if snd x = t_host (fst x) then u_host u else t_host (fst x))"

lemma write_disagreement_sound:
  "\<forall>w \<in> set ws. \<exists>x \<in> X. dispute_of u x w \<Longrightarrow> (e, h) \<in> X \<Longrightarrow>
   \<forall>w \<in> set (snd (write_disagreement u t e h (d, ws))). \<exists>x \<in> X. dispute_of u x w"
  by (auto simp: write_disagreement_def Let_def dispute_of_def intro!: bexI [of _ "(e, h)"])

lemma write_fold_sound:
  "\<forall>w \<in> set (snd s). \<exists>x \<in> X. dispute_of u x w \<Longrightarrow> set xs \<subseteq> X \<Longrightarrow>
   \<forall>w \<in> set (snd (fold (\<lambda>(e, h). write_disagreement u t e h) xs s)). \<exists>x \<in> X. dispute_of u x w"
proof (induction xs arbitrary: s)
  case (Cons x xs)
  obtain e h where x: "x = (e, h)" by (cases x)
  obtain d ws where s: "s = (d, ws)" by (cases s)
  have "\<forall>w \<in> set (snd (write_disagreement u t e h s)). \<exists>x \<in> X. dispute_of u x w"
    using Cons.prems unfolding s x by (intro write_disagreement_sound) simp_all
  from Cons.IH [OF this] Cons.prems(2) x show ?case
    by simp
qed simp

lemma record_outcome_on_sound:
  assumes "record_outcome_on opt u d = (ws, d')" and "w \<in> set ws"
  shows "\<exists>x \<in> set (disputes (work_key opt u) u (db_outcomes d)). dispute_of u x w"
proof -
  let ?X = "disputes (work_key opt u) u (db_outcomes d)"
  let ?s = "(d\<lparr>db_outcomes := db_outcomes d @ [outcome_row_of opt u d], db_outcome_seq := db_outcome_seq d + 1\<rparr>, [])"
  have "\<forall>w \<in> set (snd (fold (\<lambda>(e, h). write_disagreement u t e h) ?X ?s)). \<exists>x \<in> set ?X. dispute_of u x w" for t
    by (rule write_fold_sound) simp_all
  then show ?thesis
    using assms by (auto simp: record_outcome_on_eq case_prod_beta split: if_splits)
qed

lemma known_write_disagreement:
  "disagreement_known k a b (db_disagreements (fst (write_disagreement u t e h (d, ws)))) \<longleftrightarrow>
   disagreement_known k a b (db_disagreements d) \<or> (k = h \<and> a = t_job_id e \<and> b = u_job_id u)"
  by (auto simp: write_disagreement_def disagreement_known_def Let_def)

lemma known_write_fold:
  "disagreement_known k a b (db_disagreements (fst (fold (\<lambda>(e, h). write_disagreement u t e h) xs s))) \<longleftrightarrow>
   disagreement_known k a b (db_disagreements (fst s)) \<or> (\<exists>(e, h) \<in> set xs. k = h \<and> a = t_job_id e \<and> b = u_job_id u)"
proof (induction xs arbitrary: s)
  case (Cons x xs)
  obtain d ws where "s = (d, ws)" by (cases s)
  with Cons show ?case
    by (cases x) (auto simp: known_write_disagreement)
qed simp

lemma outcomes_write_fold: "db_outcomes (fst (fold (\<lambda>(e, h). write_disagreement u t e h) xs s)) = db_outcomes (fst s)"
proof (induction xs arbitrary: s)
  case (Cons x xs)
  then show ?case
    by (cases s; cases x) (simp add: write_disagreement_def Let_def)
qed simp

lemma record_outcome_on_complete:
  assumes "record_outcome_on opt u d = (ws, d')" and "\<not> list_ex (\<lambda>x. t_job_id x = u_job_id u) (db_outcomes d)"
    and "(e, h) \<in> set (disputes (work_key opt u) u (db_outcomes d))"
  shows "disagreement_known h (t_job_id e) (u_job_id u) (db_disagreements d')"
proof -
  let ?f = "fold (\<lambda>(e, h). write_disagreement u (case u_at u of Some t \<Rightarrow> t | None \<Rightarrow> 0) e h)
              (disputes (work_key opt u) u (db_outcomes d))
              (d\<lparr>db_outcomes := db_outcomes d @ [outcome_row_of opt u d], db_outcome_seq := db_outcome_seq d + 1\<rparr>, [])"
  have "d' = fst ?f"
    using assms(1,2) by (simp add: record_outcome_on_eq case_prod_beta)
  then show ?thesis
    using assms(3) by (auto simp: known_write_fold)
qed

end
