(* ===== verification/Results.thy ===== *)
theory Results
  imports Outcomes
begin

text \<open>
  The end of a job as its worker reports it (\<open>Result\<close> and \<open>referenceOf\<close> of
  \<open>internal/wwd/queue/claim.go\<close>): the claim must be live, the same result posted again is answered
  with the job as it is, the outcome is recorded in the same transaction and the result is offered
  for reuse after it.
\<close>

section \<open>The operation\<close>

text \<open>\<open>Inl\<close> is a hook that panicked; a job that is not there, or no hook, has no reference.\<close>

definition reference_of :: "options \<Rightarrow> string \<Rightarrow> db \<Rightarrow> qerr + string" where
  "reference_of opt jid d =
     (case o_reference opt of None \<Rightarrow> Inr ''''
      | Some hook \<Rightarrow> (case find_job jid d of None \<Rightarrow> Inr ''''
          | Some r \<Rightarrow> (case hook (repo_name (s_repo (c_sub r))) (s_task (c_sub r)) of
                        None \<Rightarrow> Inl ErrReference | Some h \<Rightarrow> Inr h)))"

definition posted_result :: "held \<Rightarrow> result_request \<Rightarrow> result" where
  "posted_result h req =
     zero_result\<lparr>r_exit := rq_exit req, r_summary := rq_summary req, r_host := h_worker h,
       r_started_at := rq_started_at req, r_finished_at := rq_finished_at req, r_reason := rq_reason req\<rparr>"

text \<open>
  The answer is the job and, when this call ended it, what is known of how its result was made.
  \<open>now_ms\<close> is the clock at the end, \<open>at_ms\<close> the one the outcome is dated by.
\<close>

definition result_tx ::
  "options \<Rightarrow> int \<Rightarrow> int \<Rightarrow> qerr + string \<Rightarrow> string \<Rightarrow> result_request \<Rightarrow> (job \<times> produced option) tx" where
  "result_tx opt now_ms at_ms reference jid req d =
     bind_err (load_held False jid d) (\<lambda>h.
       if held_ended h \<and> h_result_claim_id h = Some (rq_claim_id req)
       then bind_err (get_on False jid d) (\<lambda>j. Inr ((j, None), [], d))
       else bind_err (live h (rq_claim_id req)) (\<lambda>_.
            bind_err reference (\<lambda>ref.
              let d1 = end_held h (rq_state req) (posted_result h req) (rq_claim_id req) now_ms d
              in bind_err (produced_on jid d1) (\<lambda>p.
                 bind_err (get_on False jid d1) (\<lambda>j.
                   Inr ((j, Some p), [jid], record_ended_outcome opt j p ref at_ms d1))))))"

definition post_result ::
  "options \<Rightarrow> int \<Rightarrow> int \<Rightarrow> string \<Rightarrow> result_request \<Rightarrow> queue_state \<Rightarrow> (qerr + job) \<times> queue_state" where
  "post_result opt now_ms at_ms jid req st =
     (case result_request_validate req of Some e \<Rightarrow> (Inl (Refused e), st)
      | None \<Rightarrow>
          (case write_tx opt (result_tx opt now_ms at_ms (reference_of opt jid (q_db st)) jid req) st of
             (Inl e, st') \<Rightarrow> (Inl e, st')
           | (Inr (j, None), st') \<Rightarrow> (Inr j, st')
           | (Inr (j, Some p), st') \<Rightarrow> (Inr j, offer_result opt j p st')))"

section \<open>Its transaction\<close>

lemma posted_result_sel [simp]:
  "r_superseded_by (posted_result h req) = None" "r_summary (posted_result h req) = rq_summary req"
  "r_exit (posted_result h req) = rq_exit req" "r_host (posted_result h req) = h_worker h"
  "r_cache_hit (posted_result h req) = False"
  by (simp_all add: posted_result_def zero_result_def)

abbreviation end_cols :: "column list" where
  "end_cols \<equiv> [ColState, ColResult, ColResultClaimId, ColFinishedAt, ColLeaseDeadline, ColUpdatedAt]"

definition result_row :: "result_request \<Rightarrow> int \<Rightarrow> job_row \<Rightarrow> job_row \<Rightarrow> job_row" where
  "result_row req now_ms r0 r =
     end_row (rq_state req) (ended_result (row_held r0) (posted_result (row_held r0) req) now_ms) (rq_claim_id req) now_ms r"

lemma result_row_id [simp]: "c_id (result_row req t r0 r) = c_id r" "c_seq (result_row req t r0 r) = c_seq r"
  "place (result_row req t r0 r) = place r"
  by (simp_all add: result_row_def)

lemma result_tx_cases:
  assumes "result_tx opt t at_ms ref jid req d = Inr (a, changed, d')"
  obtains (echo) r where "find_job jid d = Some r" and "terminal (c_state r)"
      and "c_result_claim_id r = Some (rq_claim_id req)" and "changed = []" and "d' = d" and "snd a = None"
      and "get_on False jid d = Inr (fst a)"
  | (ended) r rf j p where "find_job jid d = Some r" and "held_state (c_state r)" and "c_claim_id r = Some (rq_claim_id req)"
      and "ref = Inr rf" and "changed = [jid]" and "a = (j, Some p)"
      and "get_on False jid (update_job end_cols jid (result_row req t r) d) = Inr j"
      and "produced_on jid (update_job end_cols jid (result_row req t r) d) = Inr p"
      and "d' = record_ended_outcome opt j p rf at_ms (update_job end_cols jid (result_row req t r) d)"
proof -
  from assms obtain r where r: "find_job jid d = Some r"
    by (auto simp: result_tx_def bind_err_Inr_iff load_held_Inr find_for_Some)
  have rid: "c_id r = jid"
    using find_job_Some [OF r] by simp
  have load: "load_held False jid d = Inr (row_held r)"
    using r by (simp add: load_held_def find_for_def)
  have eh: "end_held (row_held r) (rq_state req) (posted_result (row_held r) req) (rq_claim_id req) t d =
      update_job end_cols jid (result_row req t r) d"
    by (simp add: end_held_def result_row_def [abs_def] rid)
  show thesis
  proof (cases "terminal (c_state r) \<and> c_result_claim_id r = Some (rq_claim_id req)")
    case True
    with assms load r show ?thesis
      by (intro echo [of r]) (auto simp: result_tx_def bind_err_Inr_iff)
  next
    case False
    let ?d1 = "update_job end_cols jid (result_row req t r) d"
    from False assms obtain rf p j where "live (row_held r) (rq_claim_id req) = Inr ()" "ref = Inr rf"
        "produced_on jid ?d1 = Inr p" "get_on False jid ?d1 = Inr j" "a = (j, Some p)" "changed = [jid]"
        "d' = record_ended_outcome opt j p rf at_ms ?d1"
      unfolding result_tx_def load by (auto simp: bind_err_Inr_iff Let_def eh)
    with r show ?thesis
      by (intro ended [of r rf j p]) (simp_all add: live_row)
  qed
qed

lemma result_row_keeps:
  assumes "result_request_validate req = None" and "row_wf r" and "held_state (c_state r)"
  shows "row_keeps r (result_row req t r r)"
  using end_row_keeps [OF assms(2,3) result_request_validate_state [OF assms(1)],
      of "ended_result (row_held r) (posted_result (row_held r) req) t" False 0 "rq_claim_id req" t]
    result_request_validate_summary [OF assms(1)]
  by (simp add: result_row_def split: option.splits)

interpretation result: safe_tx "guarded (result_request_validate req = None) (result_tx opt t at_ms ref jid req)"
  for opt t at_ms ref jid req
proof
  fix d a d' and changed :: "string list" and k :: string
  assume wf: "db_wf d"
    and "guarded (result_request_validate req = None) (result_tx opt t at_ms ref jid req) d = Inr (a, changed, d')"
  then have ok: "result_tx opt t at_ms ref jid req d = Inr (a, changed, d')" and val: "result_request_validate req = None"
    by simp_all
  have "safe_change d d' \<and> (k \<in> set changed \<longrightarrow> find_job k d' \<noteq> None)
      \<and> (find_job k d \<noteq> None \<longrightarrow> find_job k d' \<noteq> None) \<and> (view d' k \<noteq> view d k \<longrightarrow> k \<in> set changed)"
    using ok
  proof (cases rule: result_tx_cases)
    case (echo r)
    then show ?thesis using wf by (simp add: safe_change_refl)
  next
    case (ended r rf j p)
    let ?d1 = "update_job end_cols jid (result_row req t r) d"
    have s1: "safe_change d ?d1"
      using result_row_keeps [OF val db_wf_find [OF wf ended(1)] ended(2)] wf ended(1)
      by (intro update_job_safe) simp_all
    have same: "same_jobs ?d1 d'"
      unfolding ended(9) by (rule record_ended_outcome_same)
    have "safe_change d d'"
      using s1 same_jobs_safe [OF safe_change_wf [OF s1] same] by (rule safe_change_trans)
    then show ?thesis
      using one_row_laws [of "result_row req t r" jid d] ended(1,5) same_jobs_find [OF same] same_jobs_view [OF same]
      by simp
  qed
  then show "safe_change d d'" and "k \<in> set changed \<Longrightarrow> find_job k d' \<noteq> None"
    and "find_job k d \<noteq> None \<Longrightarrow> find_job k d' \<noteq> None" and "view d' k \<noteq> view d k \<Longrightarrow> k \<in> set changed"
    by blast+
qed

lemma offer_result_frame [simp]:
  "q_db (offer_result opt j p st) = q_db st" "q_refs (offer_result opt j p st) = q_refs st"
  "q_events (offer_result opt j p st) = q_events st" "q_logs (offer_result opt j p st) = q_logs st"
  by (simp_all add: offer_result_def)

lemma post_result_db:
  "q_db (snd (post_result opt t at_ms jid req st)) = q_db st \<or>
   q_db (snd (post_result opt t at_ms jid req st)) =
     q_db (snd (write_tx opt (guarded (result_request_validate req = None)
       (result_tx opt t at_ms (reference_of opt jid (q_db st)) jid req)) st))"
  by (auto simp: post_result_def write_tx_guarded split: option.split prod.split sum.split)

lemma post_result_safe:
  "db_wf (q_db st) \<Longrightarrow> safe_change (q_db st) (q_db (snd (post_result opt t at_ms jid req st)))"
  using post_result_db [of opt t at_ms jid req st] result.write_tx_safe safe_change_refl by metis

end
