(* ===== verification/Submit.thy ===== *)
theory Submit
  imports Results
begin

text \<open>
  Submissions (\<open>internal/wwd/queue/submit.go\<close>): a job that is to run, whose snapshot is pinned first,
  a submission a stored result answered, and the rule by which a newer submission supersedes the
  older ones of its key. \<open>RecordLocal\<close> (local.go) is here too: it is the third way a row is made.
\<close>

section \<open>Ending a queued job\<close>

definition finish_row :: "job_state \<Rightarrow> string \<Rightarrow> string option \<Rightarrow> int \<Rightarrow> job_row \<Rightarrow> job_row" where
  "finish_row state reason by_id now_ms r =
     r\<lparr>c_state := state,
       c_result := Some (zero_result\<lparr>r_reason := reason, r_finished_at := Some now_ms, r_superseded_by := by_id\<rparr>),
       c_superseded_by := (case by_id of Some b \<Rightarrow> Some b | None \<Rightarrow> c_superseded_by r),
       c_finished_at := Some now_ms, c_updated_at := now_ms\<rparr>"

abbreviation finish_cols :: "column list" where
  "finish_cols \<equiv> [ColState, ColResult, ColSupersededBy, ColFinishedAt, ColUpdatedAt]"

definition finish_without_running :: "string \<Rightarrow> job_state \<Rightarrow> string \<Rightarrow> string option \<Rightarrow> int \<Rightarrow> db \<Rightarrow> db" where
  "finish_without_running jid state reason by_id now_ms d =
     update_job finish_cols jid (finish_row state reason by_id now_ms) d"

section \<open>The supersede rule\<close>

definition supersede_row :: "string \<Rightarrow> bool \<Rightarrow> int \<Rightarrow> job_row \<Rightarrow> job_row" where
  "supersede_row new_id intr now_ms r =
     r\<lparr>c_superseded_by := Some new_id, c_cancel_requested := (c_cancel_requested r \<or> intr), c_updated_at := now_ms\<rparr>"

definition older_live :: "string \<Rightarrow> string \<Rightarrow> job_row \<Rightarrow> bool" where
  "older_live new_id key r \<longleftrightarrow> s_supersede_key (c_sub r) = key \<and> c_id r \<noteq> new_id
     \<and> (c_state r = StateQueued \<or> c_state r = StateClaimed \<or> c_state r = StateRunning)"

definition supersede_one :: "string \<Rightarrow> int \<Rightarrow> string \<times> job_state \<times> bool \<Rightarrow> db \<Rightarrow> db" where
  "supersede_one new_id now_ms = (\<lambda>(jid, state, intr) d.
     if state = StateQueued
     then finish_without_running jid StateSuperseded (''superseded_by:'' @ new_id) (Some new_id) now_ms d
     else update_job [ColSupersededBy, ColCancelRequested, ColUpdatedAt] jid (supersede_row new_id intr now_ms) d)"

definition supersede_older :: "string \<Rightarrow> string \<Rightarrow> int \<Rightarrow> db \<Rightarrow> string list \<times> db" where
  "supersede_older new_id key now_ms d =
     (let olds = map (\<lambda>r. (c_id r, c_state r, s_interruptible (c_sub r))) (filter (older_live new_id key) (db_jobs d))
      in (map fst olds, fold (supersede_one new_id now_ms) olds d))"

section \<open>Submit\<close>

definition supersede_if :: "string \<Rightarrow> string \<Rightarrow> int \<Rightarrow> db \<Rightarrow> string list \<times> db" where
  "supersede_if new_id key now_ms d = (if key = '''' then ([], d) else supersede_older new_id key now_ms d)"

definition submit_tx :: "options \<Rightarrow> string \<Rightarrow> int \<Rightarrow> job_submission \<Rightarrow> bool \<Rightarrow> unit tx" where
  "submit_tx opt jid now_ms s pinned d =
     bind_err (insert_job jid (o_origin opt) s now_ms pinned d) (\<lambda>d1.
       case supersede_if jid (s_supersede_key s) now_ms d1 of (ids, d2) \<Rightarrow> Inr ((), jid # ids, d2))"

text \<open>\<open>recordPin\<close>: INSERT OR IGNORE, the id is the key of \<open>git_pins\<close>.\<close>

definition record_pin :: "string \<Rightarrow> string \<Rightarrow> int \<Rightarrow> db \<Rightarrow> db" where
  "record_pin jid dir now_ms d =
     (case lookup_by p_id jid (db_pins d) of Some _ \<Rightarrow> d
      | None \<Rightarrow> d\<lparr>db_pins := db_pins d @ [\<lparr>p_id = jid, p_git_dir = dir, p_at = now_ms\<rparr>]\<rparr>)"

definition take_back_pin :: "pinner \<Rightarrow> string \<Rightarrow> string \<Rightarrow> queue_state \<Rightarrow> queue_state" where
  "take_back_pin p dir jid st =
     (case find_job jid (q_db st) of Some _ \<Rightarrow> st
      | None \<Rightarrow> (case unpin_op p dir jid (q_refs st) of
          (True, R) \<Rightarrow> st\<lparr>q_db := forget_pin jid (q_db st), q_refs := R\<rparr>
        | (False, R) \<Rightarrow> st\<lparr>q_refs := R\<rparr>))"

definition submit :: "options \<Rightarrow> string \<Rightarrow> int \<Rightarrow> job_submission \<Rightarrow> queue_state \<Rightarrow> (qerr + string) \<times> queue_state" where
  "submit opt jid now_ms s st =
     (case submission_validate s of Some e \<Rightarrow> (Inl (Refused e), st)
      | None \<Rightarrow> (case o_pinner opt of
          None \<Rightarrow> (case write_tx opt (submit_tx opt jid now_ms s False) st of
                    (Inl e, st') \<Rightarrow> (Inl e, st') | (Inr _, st') \<Rightarrow> (Inr jid, st'))
        | Some p \<Rightarrow>
            (let st1 = st\<lparr>q_db := record_pin jid (s_git_dir s) now_ms (q_db st)\<rparr>
             in case pin_op p (s_git_dir s) jid (snap_commit (s_snapshot s)) (q_refs st1) of
                  (False, R) \<Rightarrow> (Inl ErrSnapshotRefused, take_back_pin p (s_git_dir s) jid (st1\<lparr>q_refs := R\<rparr>))
                | (True, R) \<Rightarrow> (case write_tx opt (submit_tx opt jid now_ms s True) (st1\<lparr>q_refs := R\<rparr>) of
                      (Inl e, st') \<Rightarrow> (Inl e, take_back_pin p (s_git_dir s) jid st')
                    | (Inr _, st') \<Rightarrow> (Inr jid, st')))))"

section \<open>Submit answered by a stored result\<close>

definition reused_result :: "result \<Rightarrow> int \<Rightarrow> result" where
  "reused_result stored now_ms = stored\<lparr>r_cache_hit := True, r_finished_at := Some now_ms, r_superseded_by := None\<rparr>"

definition reused_row :: "result \<Rightarrow> int \<Rightarrow> job_row \<Rightarrow> job_row" where
  "reused_row res now_ms r =
     r\<lparr>c_state := StateSucceeded, c_result := Some res, c_finished_at := Some now_ms, c_updated_at := now_ms\<rparr>"

definition submit_reused_tx :: "options \<Rightarrow> string \<Rightarrow> int \<Rightarrow> job_submission \<Rightarrow> result \<Rightarrow> unit tx" where
  "submit_reused_tx opt jid now_ms s res d =
     bind_err (insert_job jid (o_origin opt) s now_ms False d) (\<lambda>d1.
       let d2 = update_job [ColState, ColResult, ColFinishedAt, ColUpdatedAt] jid (reused_row res now_ms) d1
       in case supersede_if jid (s_supersede_key s) now_ms d2 of (ids, d3) \<Rightarrow> Inr ((), jid # ids, d3))"

definition submit_reused ::
  "options \<Rightarrow> string \<Rightarrow> int \<Rightarrow> job_submission \<Rightarrow> result \<Rightarrow> queue_state \<Rightarrow> (qerr + string \<times> result) \<times> queue_state" where
  "submit_reused opt jid now_ms s stored st =
     (case submission_validate s of Some e \<Rightarrow> (Inl (Refused e), st)
      | None \<Rightarrow>
          if r_exit stored \<noteq> Some 0 \<or> r_log stored = '''' \<or> r_host stored = ''''
          then (Inl (Refused ''queue: submit reused: the stored result is not a success with a host and a log''), st)
          else let res = reused_result stored now_ms
               in (case result_validate (Some res) of Some e \<Rightarrow> (Inl (Refused e), st)
                   | None \<Rightarrow> (case write_tx opt (submit_reused_tx opt jid now_ms s res) st of
                        (Inl e, st') \<Rightarrow> (Inl e, st') | (Inr _, st') \<Rightarrow> (Inr (jid, res), st'))))"

section \<open>Fast-lane runs\<close>

definition local_row :: "options \<Rightarrow> string \<Rightarrow> string \<Rightarrow> int \<Rightarrow> job_row \<Rightarrow> job_row" where
  "local_row opt worker claim_id now_ms r =
     r\<lparr>c_state := StateRunning, c_local := True, c_claim_worker := Some worker, c_claim_id := Some claim_id,
       c_claim_since := Some now_ms, c_started_at := Some now_ms, c_lease_deadline := Some (deadline opt now_ms),
       c_lease_s := Some (o_lease_s opt), c_updated_at := now_ms\<rparr>"

abbreviation local_cols :: "column list" where
  "local_cols \<equiv> [ColState, ColLocal, ColClaimWorker, ColClaimId, ColClaimSince, ColStartedAt, ColLeaseDeadline,
                 ColLeaseS, ColUpdatedAt]"

definition record_local_tx :: "options \<Rightarrow> string \<Rightarrow> string \<Rightarrow> int \<Rightarrow> job_submission \<Rightarrow> string \<Rightarrow> unit tx" where
  "record_local_tx opt jid claim_id now_ms req worker d =
     bind_err (insert_job jid (o_origin opt) req now_ms False d) (\<lambda>d1.
       Inr ((), [jid], update_job local_cols jid (local_row opt worker claim_id now_ms) d1))"

definition record_local ::
  "options \<Rightarrow> string \<Rightarrow> string \<Rightarrow> int \<Rightarrow> job_submission \<Rightarrow> string \<Rightarrow> queue_state
    \<Rightarrow> (qerr + local_run_response) \<times> queue_state" where
  "record_local opt jid claim_id now_ms req worker st =
     (case local_run_validate req of Some e \<Rightarrow> (Inl (Refused e), st)
      | None \<Rightarrow>
          if worker = '''' then (Inl (Refused ''queue: a local run needs a worker name''), st)
          else (case write_tx opt (record_local_tx opt jid claim_id now_ms req worker) st of
                  (Inl e, st') \<Rightarrow> (Inl e, st')
                | (Inr _, st') \<Rightarrow> (Inr \<lparr>lr_id = jid, lr_claim_id = claim_id, lr_lease_s = o_lease_s opt,
                                       lr_renew_s = o_renew_s opt\<rparr>, st')))"

section \<open>A statement for each of several rows\<close>

text \<open>
  A loop that rewrites one row per round, each row once: what a round promises of its row gives what
  the loop leaves.
\<close>

locale row_loop =
  fixes step :: "'x \<Rightarrow> db \<Rightarrow> db" and key :: "'x \<Rightarrow> string" and new :: "'x \<Rightarrow> job_row \<Rightarrow> job_row"
    and fits :: "'x \<Rightarrow> job_row \<Rightarrow> bool"
  assumes step_safe: "db_wf d \<Longrightarrow> find_job (key x) d = Some r \<Longrightarrow> fits x r \<Longrightarrow> safe_change d (step x d)"
    and step_row: "find_job (key x) d = Some r \<Longrightarrow> \<exists>n. find_job (key x) (step x d) = Some ((new x r)\<lparr>c_rev := n\<rparr>)"
    and step_other: "k \<noteq> key x \<Longrightarrow> find_job k (step x d) = find_job k d"
begin

lemma loop_other: "k \<notin> key ` set xs \<Longrightarrow> find_job k (fold step xs d) = find_job k d"
  by (induction xs arbitrary: d) (auto simp: step_other)

lemma loop_safe:
  assumes "db_wf d" and "distinct (map key xs)"
    and "\<And>x. x \<in> set xs \<Longrightarrow> \<exists>r. find_job (key x) d = Some r \<and> fits x r"
  shows "safe_change d (fold step xs d)"
  using assms
proof (induction xs arbitrary: d)
  case Nil
  then show ?case by (simp add: safe_change_refl)
next
  case (Cons x xs)
  have s: "safe_change d (step x d)"
    using Cons.prems step_safe by fastforce
  moreover have "\<exists>r. find_job (key y) (step x d) = Some r \<and> fits y r" if "y \<in> set xs" for y
    using Cons.prems(2,3) that step_other [of "key y" x d] by (auto simp: image_iff)
  then have "safe_change (step x d) (fold step xs (step x d))"
    using Cons.prems(2) by (intro Cons.IH safe_change_wf [OF s]) auto
  ultimately show ?case
    by (simp add: safe_change_trans)
qed

lemma loop_row:
  assumes "distinct (map key xs)" and "x \<in> set xs" and "find_job (key x) d = Some r"
  shows "\<exists>n. find_job (key x) (fold step xs d) = Some ((new x r)\<lparr>c_rev := n\<rparr>)"
  using assms
proof (induction xs arbitrary: d)
  case (Cons y ys)
  show ?case
  proof (cases "y = x")
    case True
    with Cons.prems show ?thesis
      using step_row [of x d r] loop_other [of "key x" ys "step x d"] by auto
  next
    case False
    with Cons.prems have "x \<in> set ys" "key x \<noteq> key y"
      by (auto simp: image_iff)
    with Cons step_other [of "key x" y d] show ?thesis by auto
  qed
qed simp

lemma loop_kept: "find_job k d \<noteq> None \<Longrightarrow> find_job k (fold step xs d) \<noteq> None"
proof (induction xs arbitrary: d)
  case (Cons x xs)
  have "find_job k (step x d) \<noteq> None"
    using Cons.prems step_row [of x d] step_other [of k x d] by (cases "k = key x") auto
  from Cons.IH [OF this] show ?case by simp
qed simp

lemma loop_view: "view (fold step xs d) k \<noteq> view d k \<Longrightarrow> k \<in> key ` set xs"
  by (rule ccontr) (simp add: view_def loop_other)

end

section \<open>The rows\<close>

lemma finish_row_id [simp]: "c_id (finish_row state why b t r) = c_id r" "c_seq (finish_row state why b t r) = c_seq r"
  "place (finish_row state why b t r) = place r"
  by (simp_all add: finish_row_def place_def)

lemma finish_row_wf:
  assumes "row_wf r" and "c_state r = StateQueued"
    and "state = StateCancelled \<or> state = StateSuperseded \<or> state = StateExpired"
  shows "row_wf (finish_row state why b t r)"
proof -
  have q: "row_queued_ok r" "row_fixed_ok r"
    using assms by (simp_all add: row_wf_def)
  have "row_ended_ok (finish_row state why b t r)"
    using q by (simp add: row_queued_ok_def row_ended_ok_def finish_row_def zero_result_def summary_validate_def
        split: option.split)
  moreover have "row_fixed_ok (finish_row state why b t r)"
    using q by (simp add: row_fixed_ok_def finish_row_def)
  moreover have "terminal state" "state_valid state" "\<not> held_state state" "state \<noteq> StateQueued"
    using assms(3) by (auto simp: held_state_def)
  ultimately show ?thesis
    using assms(1) by (simp add: row_wf_def finish_row_def)
qed

lemma finish_row_keeps:
  assumes "row_wf r" and "c_state r = StateQueued"
    and "state = StateCancelled \<or> state = StateSuperseded \<or> state = StateExpired"
  shows "row_keeps r (finish_row state why b t r)"
proof -
  have "lifecycle\<^sup>*\<^sup>* (c_state r) state"
    unfolding assms(2) using assms(3) by (intro lifecycle_into lifecycle.ends_queued)
  with finish_row_wf [OF assms] show ?thesis
    unfolding row_keeps_def by (simp add: finish_row_def)
qed

lemma supersede_row_id [simp]: "c_id (supersede_row b i t r) = c_id r" "c_seq (supersede_row b i t r) = c_seq r"
  "place (supersede_row b i t r) = place r"
  by (simp_all add: supersede_row_def place_def)

lemma supersede_row_keeps:
  assumes "row_wf r" and "held_state (c_state r)"
  shows "row_keeps r (supersede_row b i t r)"
proof -
  have "row_held_ok r" using assms by (simp add: row_wf_def)
  then have "row_held_ok (supersede_row b i t r)"
    by (simp add: row_held_ok_def supersede_row_def)
  then have "row_wf (supersede_row b i t r)"
    using assms held_not_terminal [OF assms(2)] by (simp add: row_wf_def row_fixed_ok_def supersede_row_def)
  then show ?thesis
    unfolding row_keeps_def by (simp add: supersede_row_def)
qed

lemma reused_row_wf:
  assumes "submission_validate s = None" and "jid \<noteq> ''''" and "\<not> has_slash jid" and "origin \<noteq> ''''"
    and "summary_validate (r_summary res) = None" and "r_superseded_by res = None"
  shows "row_wf (reused_row res t ((new_row jid origin s t False)\<lparr>c_seq := n, c_rev := m\<rparr>))"
  using assms
  by (simp add: row_wf_def row_fixed_ok_def row_ended_ok_def reused_row_def new_row_def held_state_def
      max_lapses_def manual_seq_fits_def valid_on_job_def)

lemma local_row_wf:
  assumes "submission_validate s = None" and "jid \<noteq> ''''" and "\<not> has_slash jid" and "origin \<noteq> ''''"
    and "\<not> s_cacheable s"
  shows "row_wf (local_row opt w cid t ((new_row jid origin s t False)\<lparr>c_seq := n, c_rev := m\<rparr>))"
  using assms
  by (simp add: row_wf_def row_fixed_ok_def row_held_ok_def local_row_def new_row_def held_state_def
      max_lapses_def manual_seq_fits_def valid_on_job_def)

lemma new_row_wf:
  assumes "submission_validate s = None" and "jid \<noteq> ''''" and "\<not> has_slash jid" and "origin \<noteq> ''''"
  shows "row_wf (new_row jid origin s t pinned)"
  using assms
  by (simp add: row_wf_def row_fixed_ok_def row_queued_ok_def new_row_def held_state_def max_lapses_def
      manual_seq_fits_def valid_on_job_def)

section \<open>The rule\<close>

text \<open>The row an older job of the key has afterwards, its number apart.\<close>

definition superseded_row :: "string \<Rightarrow> int \<Rightarrow> string \<times> job_state \<times> bool \<Rightarrow> job_row \<Rightarrow> job_row" where
  "superseded_row new_id t = (\<lambda>(jid, state, intr) r.
     if state = StateQueued then finish_row StateSuperseded (''superseded_by:'' @ new_id) (Some new_id) t r
     else supersede_row new_id intr t r)"

definition supersede_fits :: "string \<times> job_state \<times> bool \<Rightarrow> job_row \<Rightarrow> bool" where
  "supersede_fits = (\<lambda>(jid, state, intr) r. c_state r = state \<and> (state = StateQueued \<or> held_state state))"

interpretation supersede: row_loop "supersede_one new_id t" fst "superseded_row new_id t" supersede_fits for new_id t
proof
  fix d r and x :: "string \<times> job_state \<times> bool" and k :: string
  obtain jid state intr where x: "x = (jid, state, intr)" by (cases x) auto
  show "db_wf d \<Longrightarrow> find_job (fst x) d = Some r \<Longrightarrow> supersede_fits x r \<Longrightarrow> safe_change d (supersede_one new_id t x d)"
  proof -
    assume wf: "db_wf d" and r: "find_job (fst x) d = Some r" and fits: "supersede_fits x r"
    have row: "row_wf r" and f: "find_job jid d = Some r"
      using db_wf_find [OF wf r] r x by simp_all
    show ?thesis
    proof (cases "state = StateQueued")
      case True
      with fits row x have "row_keeps r (finish_row StateSuperseded (''superseded_by:'' @ new_id) (Some new_id) t r)"
        by (intro finish_row_keeps) (simp_all add: supersede_fits_def)
      with wf f True show ?thesis
        unfolding x by (simp add: supersede_one_def finish_without_running_def) (rule update_job_safe, simp_all)
    next
      case False
      with fits row x have "row_keeps r (supersede_row new_id intr t r)"
        by (intro supersede_row_keeps) (simp_all add: supersede_fits_def)
      with wf f False show ?thesis
        unfolding x by (simp add: supersede_one_def) (rule update_job_safe, simp_all)
    qed
  qed
  show "find_job (fst x) d = Some r \<Longrightarrow>
      \<exists>n. find_job (fst x) (supersede_one new_id t x d) = Some ((superseded_row new_id t x r)\<lparr>c_rev := n\<rparr>)"
    unfolding x by (auto simp: supersede_one_def superseded_row_def finish_without_running_def find_update_job)
  show "k \<noteq> fst x \<Longrightarrow> find_job k (supersede_one new_id t x d) = find_job k d"
    unfolding x by (simp add: supersede_one_def finish_without_running_def find_update_job)
qed

definition older_of :: "string \<Rightarrow> string \<Rightarrow> db \<Rightarrow> (string \<times> job_state \<times> bool) list" where
  "older_of new_id key d =
     map (\<lambda>r. (c_id r, c_state r, s_interruptible (c_sub r))) (filter (older_live new_id key) (db_jobs d))"

lemma supersede_older_eq:
  "supersede_older new_id key t d = (map fst (older_of new_id key d), fold (supersede_one new_id t) (older_of new_id key d) d)"
  by (simp add: supersede_older_def older_of_def Let_def)

lemma older_of_distinct: "db_wf d \<Longrightarrow> distinct (map fst (older_of new_id key d))"
  using unique_by_filter [of c_id "db_jobs d"] by (simp add: older_of_def comp_def db_wf_def unique_by_def)

lemma older_of_iff:
  assumes "db_wf d"
  shows "x \<in> set (older_of new_id key d) \<longleftrightarrow>
    (\<exists>r. find_job (fst x) d = Some r \<and> older_live new_id key r \<and> x = (c_id r, c_state r, s_interruptible (c_sub r)))"
proof
  assume "x \<in> set (older_of new_id key d)"
  then obtain r where r: "r \<in> set (db_jobs d)" "older_live new_id key r"
      "x = (c_id r, c_state r, s_interruptible (c_sub r))"
    by (auto simp: older_of_def)
  then show "\<exists>r. find_job (fst x) d = Some r \<and> older_live new_id key r \<and> x = (c_id r, c_state r, s_interruptible (c_sub r))"
    using find_job_unique [OF assms r(1)] by auto
next
  assume "\<exists>r. find_job (fst x) d = Some r \<and> older_live new_id key r \<and> x = (c_id r, c_state r, s_interruptible (c_sub r))"
  then show "x \<in> set (older_of new_id key d)"
    by (auto simp: older_of_def image_iff dest!: find_job_Some)
qed

lemma older_of_fits:
  assumes "db_wf d" and "x \<in> set (older_of new_id key d)"
  shows "\<exists>r. find_job (fst x) d = Some r \<and> supersede_fits x r"
  using assms by (auto simp: older_of_iff supersede_fits_def older_live_def held_state_def)

lemma supersede_older_safe:
  "db_wf d \<Longrightarrow> safe_change d (snd (supersede_older new_id key t d))"
  using supersede.loop_safe [OF _ older_of_distinct older_of_fits] by (simp add: supersede_older_eq)

lemma supersede_if_laws:
  assumes "db_wf d" and "supersede_if new_id key t d = (ids, d')"
  shows "safe_change d d'" and "k \<in> set ids \<Longrightarrow> find_job k d' \<noteq> None"
    and "find_job k d \<noteq> None \<Longrightarrow> find_job k d' \<noteq> None" and "view d' k \<noteq> view d k \<Longrightarrow> k \<in> set ids"
proof -
  have eq: "(ids = [] \<and> d' = d) \<or>
      (ids = map fst (older_of new_id key d) \<and> d' = fold (supersede_one new_id t) (older_of new_id key d) d)"
    using assms(2) by (auto simp: supersede_if_def supersede_older_eq split: if_splits)
  show "safe_change d d'"
    using assms supersede_older_safe [OF assms(1), of new_id key t] safe_change_refl
    by (auto simp: supersede_if_def split: if_splits)
  show kept: "find_job k d \<noteq> None \<Longrightarrow> find_job k d' \<noteq> None" for k
    using eq supersede.loop_kept by auto
  show "k \<in> set ids \<Longrightarrow> find_job k d' \<noteq> None"
    using eq kept [of k] older_of_fits [OF assms(1)] by force
  show "view d' k \<noteq> view d k \<Longrightarrow> k \<in> set ids"
    using eq supersede.loop_view by fastforce
qed

section \<open>The transactions\<close>

definition id_ok :: "string \<Rightarrow> bool" where
  "id_ok jid \<longleftrightarrow> jid \<noteq> '''' \<and> \<not> has_slash jid"

text \<open>A row that is made, and then the rule.\<close>

lemma make_then_supersede:
  assumes ins: "insert_job jid origin s t pinned d = Inr d0" and safe: "safe_change d d1"
    and d1: "\<And>k. k \<noteq> jid \<Longrightarrow> find_job k d1 = find_job k d" and made: "find_job jid d1 \<noteq> None"
    and sup: "supersede_if jid key t d1 = (ids, d2)"
  shows "safe_change d d2" and "k \<in> set (jid # ids) \<Longrightarrow> find_job k d2 \<noteq> None"
    and "find_job k d \<noteq> None \<Longrightarrow> find_job k d2 \<noteq> None" and "view d2 k \<noteq> view d k \<Longrightarrow> k \<in> set (jid # ids)"
proof -
  note laws = supersede_if_laws [OF safe_change_wf [OF safe] sup]
  show "safe_change d d2"
    using safe laws(1) by (rule safe_change_trans)
  show "k \<in> set (jid # ids) \<Longrightarrow> find_job k d2 \<noteq> None"
    using laws(2,3) made by auto
  show "find_job k d \<noteq> None \<Longrightarrow> find_job k d2 \<noteq> None"
    using laws(3) [of k] d1 [of k] made by (cases "k = jid") auto
  show "k \<in> set (jid # ids)" if "view d2 k \<noteq> view d k"
  proof (rule ccontr)
    assume "k \<notin> set (jid # ids)"
    then show False
      using laws(4) [of k] d1 [of k] that by (auto simp: view_def)
  qed
qed

interpretation submit: safe_tx
  "guarded (submission_validate s = None \<and> id_ok jid \<and> o_origin opt \<noteq> '''') (submit_tx opt jid t s pinned)"
  for opt jid t s pinned
proof
  fix d a d' and changed :: "string list" and k :: string
  assume wf: "db_wf d" and "guarded (submission_validate s = None \<and> id_ok jid \<and> o_origin opt \<noteq> '''')
      (submit_tx opt jid t s pinned) d = Inr (a, changed, d')"
  then have val: "submission_validate s = None" "jid \<noteq> ''''" "\<not> has_slash jid" "o_origin opt \<noteq> ''''"
    and ok: "submit_tx opt jid t s pinned d = Inr (a, changed, d')"
    by (simp_all add: id_ok_def)
  from ok obtain d1 ids where ins: "insert_job jid (o_origin opt) s t pinned d = Inr d1"
    and sup: "supersede_if jid (s_supersede_key s) t d1 = (ids, d')" and ch: "changed = jid # ids"
    by (cases "insert_job jid (o_origin opt) s t pinned d") (auto simp: submit_tx_def split: prod.splits)
  have safe: "safe_change d d1"
    using wf ins new_row_wf [OF val] by (rule insert_job_safe)
  have other: "find_job k d1 = find_job k d" if "k \<noteq> jid" for k
    using that find_insert_job [OF ins] by simp
  have made: "find_job jid d1 \<noteq> None"
    using find_insert_job [OF ins] by simp
  note laws = make_then_supersede [OF ins safe other made sup]
  show "safe_change d d'" by (rule laws(1))
  show "k \<in> set changed \<Longrightarrow> find_job k d' \<noteq> None" unfolding ch by (rule laws(2))
  show "find_job k d \<noteq> None \<Longrightarrow> find_job k d' \<noteq> None" by (rule laws(3))
  show "view d' k \<noteq> view d k \<Longrightarrow> k \<in> set changed" unfolding ch by (rule laws(4))
qed


lemma reused_row_id [simp]: "c_id (reused_row res t r) = c_id r" "c_seq (reused_row res t r) = c_seq r"
  "placed (reused_row res t r) = placed r"
  by (simp_all add: reused_row_def placed_def)

lemma local_row_id [simp]: "c_id (local_row opt w cid t r) = c_id r" "c_seq (local_row opt w cid t r) = c_seq r"
  "placed (local_row opt w cid t r) = placed r"
  by (simp_all add: local_row_def placed_def)

abbreviation reused_ok :: "options \<Rightarrow> string \<Rightarrow> job_submission \<Rightarrow> result \<Rightarrow> bool" where
  "reused_ok opt jid s res \<equiv> submission_validate s = None \<and> id_ok jid \<and> o_origin opt \<noteq> ''''
     \<and> result_validate (Some res) = None \<and> r_superseded_by res = None"

interpretation submit_reused: safe_tx "guarded (reused_ok opt jid s res) (submit_reused_tx opt jid t s res)"
  for opt jid t s res
proof
  fix d a d' and changed :: "string list" and k :: string
  let ?f = "reused_row res t"
  assume wf: "db_wf d" and "guarded (reused_ok opt jid s res) (submit_reused_tx opt jid t s res) d = Inr (a, changed, d')"
  then have val: "submission_validate s = None" "jid \<noteq> ''''" "\<not> has_slash jid" "o_origin opt \<noteq> ''''"
      "summary_validate (r_summary res) = None" "r_superseded_by res = None"
    and ok: "submit_reused_tx opt jid t s res d = Inr (a, changed, d')"
    by (simp_all add: id_ok_def result_validate_def)
  define cols where "cols = [ColState, ColResult, ColFinishedAt, ColUpdatedAt]"
  from ok obtain d1 ids where ins: "insert_job jid (o_origin opt) s t False d = Inr d1"
    and sup: "supersede_if jid (s_supersede_key s) t (update_job cols jid ?f d1) = (ids, d')" and ch: "changed = jid # ids"
    by (cases "insert_job jid (o_origin opt) s t False d")
      (auto simp: submit_reused_tx_def cols_def Let_def split: prod.splits)
  have safe: "safe_change d (update_job cols jid ?f d1)"
    using wf ins reused_row_wf [OF val] by (intro insert_update_safe) (simp_all add: cols_def)
  have other: "find_job k (update_job cols jid ?f d1) = find_job k d" if "k \<noteq> jid" for k
    using that find_insert_job [OF ins] by (simp add: find_update_job)
  have made: "find_job jid (update_job cols jid ?f d1) \<noteq> None"
    using find_insert_job [OF ins] by (simp add: find_update_job)
  note laws = make_then_supersede [OF ins safe other made sup]
  show "safe_change d d'" by (rule laws(1))
  show "k \<in> set changed \<Longrightarrow> find_job k d' \<noteq> None" unfolding ch by (rule laws(2))
  show "find_job k d \<noteq> None \<Longrightarrow> find_job k d' \<noteq> None" by (rule laws(3))
  show "view d' k \<noteq> view d k \<Longrightarrow> k \<in> set changed" unfolding ch by (rule laws(4))
qed

interpretation record_local: safe_tx
  "guarded (local_run_validate s = None \<and> id_ok jid \<and> o_origin opt \<noteq> '''') (record_local_tx opt jid cid t s worker)"
  for opt jid cid t s worker
proof
  fix d a d' and changed :: "string list" and k :: string
  let ?f = "local_row opt worker cid t"
  assume wf: "db_wf d" and "guarded (local_run_validate s = None \<and> id_ok jid \<and> o_origin opt \<noteq> '''')
      (record_local_tx opt jid cid t s worker) d = Inr (a, changed, d')"
  then have val: "submission_validate s = None" "jid \<noteq> ''''" "\<not> has_slash jid" "o_origin opt \<noteq> ''''" "\<not> s_cacheable s"
    and ok: "record_local_tx opt jid cid t s worker d = Inr (a, changed, d')"
    by (auto simp: id_ok_def local_run_validate_def split: option.splits if_splits)
  from ok obtain d1 where ins: "insert_job jid (o_origin opt) s t False d = Inr d1"
    and d': "d' = update_job local_cols jid ?f d1" and ch: "changed = [jid]"
    by (cases "insert_job jid (o_origin opt) s t False d") (auto simp: record_local_tx_def)
  show "safe_change d d'"
    unfolding d' using wf ins local_row_wf [OF val] by (intro insert_update_safe) simp_all
  show "k \<in> set changed \<Longrightarrow> find_job k d' \<noteq> None" and "find_job k d \<noteq> None \<Longrightarrow> find_job k d' \<noteq> None"
    and "view d' k \<noteq> view d k \<Longrightarrow> k \<in> set changed"
    using find_insert_job [OF ins, of k] ch d' by (auto simp: find_update_job view_def split: if_splits)
qed

section \<open>The operations are safe\<close>

lemma record_pin_same_jobs: "db_jobs (record_pin jid dir t d) = db_jobs d" "db_last_seq (record_pin jid dir t d) = db_last_seq d"
  "db_rev (record_pin jid dir t d) = db_rev d" "db_epoch (record_pin jid dir t d) = db_epoch d"
  by (simp_all add: record_pin_def split: option.splits)

lemma record_pin_safe: "db_wf d \<Longrightarrow> safe_change d (record_pin jid dir t d)"
  by (rule safe_change_frame) (simp_all add: record_pin_same_jobs)

lemma take_back_pin_safe: "db_wf (q_db st) \<Longrightarrow> safe_change (q_db st) (q_db (take_back_pin p dir jid st))"
  by (auto simp: take_back_pin_def safe_change_refl forget_pin_safe split: option.split prod.split bool.split)

lemma take_back_pin_frame [simp]:
  "q_events (take_back_pin p dir jid st) = q_events st" "q_logs (take_back_pin p dir jid st) = q_logs st"
  "q_offered (take_back_pin p dir jid st) = q_offered st"
  by (auto simp: take_back_pin_def split: option.split prod.split bool.split)

lemma submit_write_safe:
  assumes "submission_validate s = None" and "id_ok jid" and "o_origin opt \<noteq> ''''" and "db_wf (q_db st)"
  shows "safe_change (q_db st) (q_db (snd (write_tx opt (submit_tx opt jid t s pinned) st)))"
  using submit.write_tx_safe [OF assms(4), of opt s jid opt t pinned] assms(1-3) by (simp add: write_tx_guarded)

lemma submit_safe:
  assumes wf: "db_wf (q_db st)" and ok: "id_ok jid" "o_origin opt \<noteq> ''''"
  shows "safe_change (q_db st) (q_db (snd (submit opt jid t s st)))"
proof (cases "submission_validate s")
  case (Some e)
  then show ?thesis using wf by (simp add: submit_def safe_change_refl)
next
  case None
  note write_safe = submit_write_safe [OF None ok]
  show ?thesis
  proof (cases "o_pinner opt")
    case none: None
    then show ?thesis
      using None write_safe [OF wf, of t False] by (auto simp: submit_def split: prod.split sum.split)
  next
    case (Some p)
    let ?st1 = "st\<lparr>q_db := record_pin jid (s_git_dir s) t (q_db st)\<rparr>"
    obtain b R where pin: "pin_op p (s_git_dir s) jid (snap_commit (s_snapshot s)) (q_refs st) = (b, R)"
      by (cases "pin_op p (s_git_dir s) jid (snap_commit (s_snapshot s)) (q_refs st)")
    have s1: "safe_change (q_db st) (q_db (?st1\<lparr>q_refs := R\<rparr>))"
      using record_pin_safe [OF wf] by simp
    note wf1 = safe_change_wf [OF s1]
    obtain out st2 where w: "write_tx opt (submit_tx opt jid t s True) (?st1\<lparr>q_refs := R\<rparr>) = (out, st2)"
      by (cases "write_tx opt (submit_tx opt jid t s True) (?st1\<lparr>q_refs := R\<rparr>)")
    have s2: "safe_change (q_db st) (q_db st2)"
      using safe_change_trans [OF s1 write_safe [OF wf1, of t True]] w by simp
    show ?thesis
      using None Some pin w s2 safe_change_trans [OF s1 take_back_pin_safe [OF wf1]]
        safe_change_trans [OF s2 take_back_pin_safe [OF safe_change_wf [OF s2]]]
      by (auto simp: submit_def Let_def split: bool.split sum.split)
  qed
qed

lemma submit_reused_safe:
  assumes "db_wf (q_db st)" and "id_ok jid" and "o_origin opt \<noteq> ''''"
  shows "safe_change (q_db st) (q_db (snd (submit_reused opt jid t s stored st)))"
proof -
  let ?res = "reused_result stored t"
  have sup: "r_superseded_by ?res = None"
    by (simp add: reused_result_def)
  have "safe_change (q_db st) (q_db (snd (write_tx opt (submit_reused_tx opt jid t s ?res) st)))"
    if "submission_validate s = None" and "result_validate (Some ?res) = None"
    using submit_reused.write_tx_safe [OF assms(1), of opt s jid opt ?res t] that assms(2,3) sup
    by (simp add: write_tx_guarded)
  then show ?thesis
    using safe_change_refl [OF assms(1)]
    by (auto simp: submit_reused_def Let_def split: option.split prod.split sum.split)
qed

lemma record_local_safe:
  assumes "db_wf (q_db st)" and "id_ok jid" and "o_origin opt \<noteq> ''''"
  shows "safe_change (q_db st) (q_db (snd (record_local opt jid cid t s worker st)))"
proof -
  have "safe_change (q_db st) (q_db (snd (write_tx opt (record_local_tx opt jid cid t s worker) st)))"
    if "local_run_validate s = None"
    using record_local.write_tx_safe [OF assms(1), of opt s jid opt cid t worker] that assms(2,3)
    by (simp add: write_tx_guarded)
  then show ?thesis
    using safe_change_refl [OF assms(1)]
    by (auto simp: record_local_def split: option.split prod.split sum.split)
qed

end
