(* ===== verification/Manage.thy ===== *)
theory Manage
  imports Submit
begin

text \<open>
  What a person or the App does to a job (\<open>cancel.go\<close>, \<open>position.go\<close> of \<open>internal/wwd/queue\<close>), and
  the two questions of \<open>local.go\<close>: which jobs are over, and whether a claim is the live one.
\<close>

section \<open>Cancel\<close>

definition cancel_row :: "int \<Rightarrow> job_row \<Rightarrow> job_row" where
  "cancel_row now_ms r = r\<lparr>c_cancel_requested := True, c_updated_at := now_ms\<rparr>"

definition cancel_tx :: "int \<Rightarrow> string \<Rightarrow> bool \<Rightarrow> unit tx" where
  "cancel_tx now_ms jid for_peers d =
     (case find_for for_peers jid d of None \<Rightarrow> Inl ErrNotFound
      | Some r \<Rightarrow>
          (case c_state r of
             StateQueued \<Rightarrow> Inr ((), [jid], finish_without_running jid StateCancelled ''cancelled'' None now_ms d)
           | s \<Rightarrow> if s = StateClaimed \<or> s = StateRunning
                  then (if c_cancel_requested r then Inr ((), [], d)
                        else Inr ((), [jid], update_job [ColCancelRequested, ColUpdatedAt] jid (cancel_row now_ms) d))
                  else Inl (Conflict s)))"

definition cancel :: "options \<Rightarrow> int \<Rightarrow> string \<Rightarrow> bool \<Rightarrow> queue_state \<Rightarrow> (qerr + job) \<times> queue_state" where
  "cancel opt now_ms jid for_peers st =
     (case write_tx opt (cancel_tx now_ms jid for_peers) st of
        (Inl e, st') \<Rightarrow> (Inl e, st')
      | (Inr _, st') \<Rightarrow> (get_on for_peers jid (q_db st'), st'))"

section \<open>Manual order\<close>

text \<open>\<open>SELECT min(manual_seq)\<close> or \<open>max\<close> over the other jobs with the same kind of place; NULL is \<open>None\<close>.\<close>

definition other_seqs :: "position \<Rightarrow> string \<Rightarrow> db \<Rightarrow> int list" where
  "other_seqs p jid d = map c_manual_seq (filter (\<lambda>r. c_manual r = p \<and> c_id r \<noteq> jid) (db_jobs d))"

definition extreme :: "position \<Rightarrow> int list \<Rightarrow> int option" where
  "extreme p ns = (case ns of [] \<Rightarrow> None | n # ms \<Rightarrow> Some (fold (if p = PositionBack then max else min) ms n))"

text \<open>The place a job gets: \<open>None\<close> when it has it already.\<close>

definition new_place :: "position \<Rightarrow> job_row \<Rightarrow> db \<Rightarrow> (position \<times> int) option" where
  "new_place p r d =
     (if p = PositionFront \<or> p = PositionBack
      then (let other = extreme p (other_seqs p (c_id r) d)
            in if c_manual r = p \<and> (case other of None \<Rightarrow> True
                   | Some n \<Rightarrow> (p = PositionFront \<and> c_manual_seq r < n) \<or> (p = PositionBack \<and> c_manual_seq r > n))
               then None
               else Some (p, (case other of Some n \<Rightarrow> n | None \<Rightarrow> 0) + (if p = PositionBack then 1 else -1)))
      else (let m = (if p = PositionNormal then PositionNone else p)
            in if c_manual r = m then None else Some (m, 0)))"

definition place_row :: "position \<Rightarrow> int \<Rightarrow> int \<Rightarrow> job_row \<Rightarrow> job_row" where
  "place_row m n now_ms r = r\<lparr>c_manual := m, c_manual_seq := n, c_updated_at := now_ms\<rparr>"

definition set_position_tx :: "int \<Rightarrow> string \<Rightarrow> position \<Rightarrow> unit tx" where
  "set_position_tx now_ms jid p d =
     (case find_job jid d of None \<Rightarrow> Inl ErrNotFound
      | Some r \<Rightarrow>
          if c_state r \<noteq> StateQueued then Inl (Conflict (c_state r))
          else (case new_place p r d of None \<Rightarrow> Inr ((), [], d)
                | Some (m, n) \<Rightarrow> Inr ((), [jid], update_job [ColManual, ColManualSeq, ColUpdatedAt] jid (place_row m n now_ms) d)))"

definition set_position :: "options \<Rightarrow> int \<Rightarrow> string \<Rightarrow> position \<Rightarrow> queue_state \<Rightarrow> (qerr + job) \<times> queue_state" where
  "set_position opt now_ms jid p st =
     (if \<not> valid_request p then (Inl ErrInvalidPosition, st)
      else (case write_tx opt (set_position_tx now_ms jid p) st of
              (Inl e, st') \<Rightarrow> (Inl e, st')
            | (Inr _, st') \<Rightarrow> (get_on False jid (q_db st'), st')))"

section \<open>Questions\<close>

text \<open>\<open>Ended\<close>: the map starts with every id over, and the rows of the chunks of 500 ids correct it.\<close>

definition ended_chunk :: nat where
  "ended_chunk = 500"

definition ended_of_chunk :: "db \<Rightarrow> string list \<Rightarrow> (string \<rightharpoonup> bool) \<Rightarrow> (string \<rightharpoonup> bool)" where
  "ended_of_chunk d chunk out =
     fold (\<lambda>r m. if \<not> terminal (c_state r) then m(c_id r \<mapsto> False) else m)
       (filter (\<lambda>r. c_id r \<in> set chunk) (db_jobs d)) out"

function ended_loop :: "db \<Rightarrow> string list \<Rightarrow> nat \<Rightarrow> (string \<rightharpoonup> bool) \<Rightarrow> (string \<rightharpoonup> bool)" where
  "ended_loop d ids start out =
     (if start < length ids
      then ended_loop d ids (start + ended_chunk) (ended_of_chunk d (take ended_chunk (drop start ids)) out)
      else out)"
  by pat_completeness auto

termination
  by (relation "measure (\<lambda>(d, ids, start, out). length ids - start)") (auto simp: ended_chunk_def)

definition ended :: "string list \<Rightarrow> db \<Rightarrow> (string \<rightharpoonup> bool)" where
  "ended ids d = ended_loop d ids 0 (fold (\<lambda>i m. m(i \<mapsto> True)) ids Map.empty)"

record live_claim =
  lc_state :: job_state
  lc_git_dir :: string
  lc_commit :: string
  lc_base :: string

definition live_claim_of :: "string \<Rightarrow> string \<Rightarrow> db \<Rightarrow> qerr + live_claim" where
  "live_claim_of jid claim_id d =
     (case find_job jid d of None \<Rightarrow> Inl ErrNotFound
      | Some r \<Rightarrow>
          if c_local r then Inl ErrNotFound
          else bind_err (live (row_held r) claim_id) (\<lambda>_.
                 Inr \<lparr>lc_state = c_state r, lc_git_dir = s_git_dir (c_sub r),
                      lc_commit = snap_commit (s_snapshot (c_sub r)), lc_base = snap_base (s_snapshot (c_sub r))\<rparr>))"

section \<open>Cancelling is safe\<close>

lemma cancel_row_id [simp]: "c_id (cancel_row t r) = c_id r" "c_seq (cancel_row t r) = c_seq r" "place (cancel_row t r) = place r"
  by (simp_all add: cancel_row_def place_def)

lemma cancel_row_keeps:
  assumes "row_wf r" and "held_state (c_state r)"
  shows "row_keeps r (cancel_row t r)"
proof -
  have "row_held_ok r" using assms by (simp add: row_wf_def)
  then have "row_held_ok (cancel_row t r)"
    by (simp add: row_held_ok_def cancel_row_def)
  then have "row_wf (cancel_row t r)"
    using assms held_not_terminal [OF assms(2)] by (simp add: row_wf_def row_fixed_ok_def cancel_row_def)
  then show ?thesis
    unfolding row_keeps_def by (simp add: cancel_row_def)
qed

lemma cancel_tx_cases:
  assumes "cancel_tx t jid fp d = Inr (a, changed, d')"
  obtains (queued) r where "find_for fp jid d = Some r" and "c_state r = StateQueued" and "changed = [jid]"
      and "d' = update_job finish_cols jid (finish_row StateCancelled ''cancelled'' None t) d"
  | (again) r where "find_for fp jid d = Some r" and "held_state (c_state r)" and "c_cancel_requested r"
      and "changed = []" and "d' = d"
  | (asked) r where "find_for fp jid d = Some r" and "held_state (c_state r)" and "\<not> c_cancel_requested r"
      and "changed = [jid]" and "d' = update_job [ColCancelRequested, ColUpdatedAt] jid (cancel_row t) d"
  using assms
  by (cases "find_for fp jid d"; cases "c_state (the (find_for fp jid d))")
    (auto simp: cancel_tx_def finish_without_running_def held_state_def split: if_splits)

interpretation cancel: safe_tx "cancel_tx t jid fp" for t jid fp
proof
  fix d a d' and changed :: "string list" and k :: string
  assume wf: "db_wf d" and ok: "cancel_tx t jid fp d = Inr (a, changed, d')"
  from ok have "safe_change d d' \<and> (k \<in> set changed \<longrightarrow> find_job k d' \<noteq> None)
      \<and> (find_job k d \<noteq> None \<longrightarrow> find_job k d' \<noteq> None) \<and> (view d' k \<noteq> view d k \<longrightarrow> k \<in> set changed)"
  proof (cases rule: cancel_tx_cases)
    case (queued r)
    then have r: "find_job jid d = Some r" by (simp add: find_for_Some)
    have "safe_change d d'"
      unfolding queued(4) using finish_row_keeps [OF db_wf_find [OF wf r] queued(2), of StateCancelled] wf r
      by (intro update_job_safe) simp_all
    then show ?thesis
      using one_row_laws [of "finish_row StateCancelled ''cancelled'' None t" jid d] r queued(3,4) by simp
  next
    case (again r)
    then show ?thesis using wf by (simp add: safe_change_refl)
  next
    case (asked r)
    then have r: "find_job jid d = Some r" by (simp add: find_for_Some)
    have "safe_change d d'"
      unfolding asked(5) using cancel_row_keeps [OF db_wf_find [OF wf r] asked(2)] wf r
      by (intro update_job_safe) simp_all
    then show ?thesis
      using one_row_laws [of "cancel_row t" jid d] r asked(4,5) by simp
  qed
  then show "safe_change d d'" and "k \<in> set changed \<Longrightarrow> find_job k d' \<noteq> None"
    and "find_job k d \<noteq> None \<Longrightarrow> find_job k d' \<noteq> None" and "view d' k \<noteq> view d k \<Longrightarrow> k \<in> set changed"
    by blast+
qed

lemma cancel_db: "q_db (snd (cancel opt t jid fp st)) = q_db (snd (write_tx opt (cancel_tx t jid fp) st))"
  by (auto simp: cancel_def split: prod.split sum.split)

lemma cancel_safe: "db_wf (q_db st) \<Longrightarrow> safe_change (q_db st) (q_db (snd (cancel opt t jid fp st)))"
  by (simp add: cancel_db cancel.write_tx_safe)

section \<open>The manual order\<close>

lemma fold_min_le: "fold min ms n \<le> (n :: int) \<and> (\<forall>m \<in> set ms. fold min ms n \<le> m)"
proof (induction ms arbitrary: n)
  case (Cons a ms)
  show ?case using Cons.IH [of "min a n"] by auto
qed simp

lemma fold_max_ge: "(n :: int) \<le> fold max ms n \<and> (\<forall>m \<in> set ms. m \<le> fold max ms n)"
proof (induction ms arbitrary: n)
  case (Cons a ms)
  show ?case using Cons.IH [of "max a n"] by auto
qed simp

lemma fold_extreme_in: "fold (if b then max else min) ms n \<in> set ((n :: int) # ms)"
proof (induction ms arbitrary: n)
  case (Cons a ms)
  show ?case using Cons.IH [of "(if b then max else min) a n"] by (auto simp: min_def max_def split: if_splits)
qed simp

lemma extreme_front: "extreme PositionFront ns = Some n \<Longrightarrow> m \<in> set ns \<Longrightarrow> n \<le> m"
  using fold_min_le by (cases ns) (auto simp: extreme_def)

lemma extreme_back: "extreme PositionBack ns = Some n \<Longrightarrow> m \<in> set ns \<Longrightarrow> m \<le> n"
  using fold_max_ge by (cases ns) (auto simp: extreme_def)

lemma extreme_None: "extreme p ns = None \<longleftrightarrow> ns = []"
  by (cases ns) (auto simp: extreme_def)

lemma extreme_in: "extreme p ns = Some n \<Longrightarrow> n \<in> set ns"
  using fold_extreme_in [of "p = PositionBack"] by (cases ns) (auto simp: extreme_def)

lemma other_seqs_iff:
  "n \<in> set (other_seqs p jid d) \<longleftrightarrow> (\<exists>s \<in> set (db_jobs d). c_manual s = p \<and> c_id s \<noteq> jid \<and> c_manual_seq s = n)"
  by (auto simp: other_seqs_def)

lemma other_seqs_fit:
  assumes "db_wf d" and "n \<in> set (other_seqs p jid d)"
  shows "p = PositionFront \<Longrightarrow> n < 0" and "p = PositionBack \<Longrightarrow> 0 < n"
proof -
  obtain s where s: "s \<in> set (db_jobs d)" "c_manual s = p" "c_manual_seq s = n"
    using assms(2) by (auto simp: other_seqs_iff)
  then have "manual_seq_fits p n"
    using db_wf_row [OF assms(1) s(1)] by (simp add: row_wf_def)
  then show "p = PositionFront \<Longrightarrow> n < 0" and "p = PositionBack \<Longrightarrow> 0 < n"
    by (auto simp: manual_seq_fits_def)
qed

text \<open>A new front place is before every other, a new back place after every other.\<close>

lemma new_place_front:
  assumes "db_wf d" and "new_place PositionFront r d = Some (m, n)"
  shows "m = PositionFront" and "n < 0" and "\<And>k. k \<in> set (other_seqs PositionFront (c_id r) d) \<Longrightarrow> n < k"
proof -
  let ?o = "extreme PositionFront (other_seqs PositionFront (c_id r) d)"
  from assms(2) have mn: "m = PositionFront" "n = (case ?o of Some k \<Rightarrow> k | None \<Rightarrow> 0) - 1"
    by (auto simp: new_place_def Let_def split: if_splits)
  show "m = PositionFront" by (rule mn(1))
  show "n < 0"
    using mn(2) other_seqs_fit(1) [OF assms(1) extreme_in] by (cases ?o) force+
  show "n < k" if "k \<in> set (other_seqs PositionFront (c_id r) d)" for k
    using mn(2) that extreme_front [of "other_seqs PositionFront (c_id r) d" _ k]
    by (cases ?o) (auto simp: extreme_None)
qed

lemma new_place_back:
  assumes "db_wf d" and "new_place PositionBack r d = Some (m, n)"
  shows "m = PositionBack" and "0 < n" and "\<And>k. k \<in> set (other_seqs PositionBack (c_id r) d) \<Longrightarrow> k < n"
proof -
  let ?o = "extreme PositionBack (other_seqs PositionBack (c_id r) d)"
  from assms(2) have mn: "m = PositionBack" "n = (case ?o of Some k \<Rightarrow> k | None \<Rightarrow> 0) + 1"
    by (auto simp: new_place_def Let_def split: if_splits)
  show "m = PositionBack" by (rule mn(1))
  show "0 < n"
    using mn(2) other_seqs_fit(2) [OF assms(1) extreme_in] by (cases ?o) force+
  show "k < n" if "k \<in> set (other_seqs PositionBack (c_id r) d)" for k
    using mn(2) that extreme_back [of "other_seqs PositionBack (c_id r) d" _ k]
    by (cases ?o) (auto simp: extreme_None)
qed

lemma new_place_unplaced:
  assumes "new_place p r d = Some (m, n)" and "valid_request p" and "p \<noteq> PositionFront" and "p \<noteq> PositionBack"
  shows "n = 0" and "m = PositionNone \<or> m = PositionHold"
  using assms by (cases p; auto simp: new_place_def Let_def split: if_splits)+

lemma new_place_ok:
  assumes "db_wf d" and "valid_request p" and "new_place p r d = Some (m, n)"
  shows "valid_on_job m" and "manual_seq_fits m n"
    and "\<And>s. s \<in> set (db_jobs d) \<Longrightarrow> c_id s \<noteq> c_id r \<Longrightarrow> placed s \<Longrightarrow> place s \<noteq> (m, n)"
proof -
  consider "p = PositionFront" | "p = PositionBack" | "p \<noteq> PositionFront" "p \<noteq> PositionBack" by blast
  then have "valid_on_job m \<and> manual_seq_fits m n
      \<and> (\<forall>s \<in> set (db_jobs d). c_id s \<noteq> c_id r \<longrightarrow> placed s \<longrightarrow> place s \<noteq> (m, n))"
  proof cases
    case 1
    then show ?thesis
      using new_place_front [OF assms(1), of r m n] assms(3) other_seqs_iff [of n PositionFront "c_id r" d]
      by (auto simp: valid_on_job_def manual_seq_fits_def place_def)
  next
    case 2
    then show ?thesis
      using new_place_back [OF assms(1), of r m n] assms(3) other_seqs_iff [of n PositionBack "c_id r" d]
      by (auto simp: valid_on_job_def manual_seq_fits_def place_def)
  next
    case 3
    then show ?thesis
      using new_place_unplaced [OF assms(3,2)]
      by (auto simp: valid_on_job_def manual_seq_fits_def place_def placed_def)
  qed
  then show "valid_on_job m" and "manual_seq_fits m n"
    and "\<And>s. s \<in> set (db_jobs d) \<Longrightarrow> c_id s \<noteq> c_id r \<Longrightarrow> placed s \<Longrightarrow> place s \<noteq> (m, n)"
    by blast+
qed

lemma places_distinct_move:
  assumes "unique_by c_id rs" and "places_distinct rs"
    and "\<And>s. s \<in> set rs \<Longrightarrow> c_id s \<noteq> jid \<Longrightarrow> placed s \<Longrightarrow> place s \<noteq> pl" and f: "\<And>r. place (f r) = pl"
  shows "places_distinct (update_by c_id jid f rs)"
  using assms(1-3)
proof (induction rs)
  case (Cons a rs)
  have tail: "places_distinct rs" "unique_by c_id rs" and apart: "placed a \<Longrightarrow> place a \<notin> place ` set (filter placed rs)"
    using Cons.prems(1,2) by (auto simp: places_distinct_def unique_by_def split: if_splits)
  have IH: "places_distinct (update_by c_id jid f rs)"
    using tail Cons.prems(3) by (intro Cons.IH) auto
  show ?case
  proof (cases "c_id a = jid")
    case True
    then have absent: "jid \<notin> c_id ` set rs"
      using Cons.prems(1) by (auto simp: unique_by_def)
    then have "update_by c_id jid f rs = rs"
      by (intro update_by_absent) (auto simp: lookup_by_None_iff)
    moreover have "pl \<notin> place ` set (filter placed rs)"
      using Cons.prems(3) absent by force
    ultimately show ?thesis
      using True tail(1) by (simp add: update_by_def places_distinct_def f)
  next
    case False
    have "place a \<notin> place ` set (filter placed (update_by c_id jid f rs))" if "placed a"
    proof
      assume "place a \<in> place ` set (filter placed (update_by c_id jid f rs))"
      then obtain s where s: "s \<in> set rs" "place a = place (if c_id s = jid then f s else s)"
          "placed (if c_id s = jid then f s else s)"
        by (auto simp: set_update_by)
      show False
        using s that apart Cons.prems(3) [of a] False f by (cases "c_id s = jid") auto
    qed
    then show ?thesis
      using False IH by (simp add: update_by_def places_distinct_def)
  qed
qed (simp add: update_by_def)

lemma place_row_sel [simp]: "c_id (place_row m n t r) = c_id r" "c_seq (place_row m n t r) = c_seq r"
  "place (place_row m n t r) = (m, n)"
  by (simp_all add: place_row_def place_def)

lemma place_row_parts:
  "row_fixed_ok (place_row m n t r) = row_fixed_ok r" "row_queued_ok (place_row m n t r) = row_queued_ok r"
  "row_held_ok (place_row m n t r) = row_held_ok r" "row_ended_ok (place_row m n t r) = row_ended_ok r"
  by (simp_all add: place_row_def row_fixed_ok_def row_queued_ok_def row_held_ok_def row_ended_ok_def)

lemma place_row_keeps:
  assumes "row_wf r" and "valid_on_job m" and "manual_seq_fits m n"
  shows "row_keeps r (place_row m n t r)"
proof -
  have "row_wf (place_row m n t r)"
    using assms place_row_parts [of m n t r] by (simp add: row_wf_def) (simp add: place_row_def)
  then show ?thesis
    unfolding row_keeps_def by (simp add: place_row_def)
qed

lemma set_position_tx_cases:
  assumes "set_position_tx t jid p d = Inr (a, changed, d')"
  obtains (same) r where "find_job jid d = Some r" and "c_state r = StateQueued" and "new_place p r d = None"
      and "changed = []" and "d' = d"
  | (moved) r m n where "find_job jid d = Some r" and "c_state r = StateQueued" and "new_place p r d = Some (m, n)"
      and "changed = [jid]" and "d' = update_job [ColManual, ColManualSeq, ColUpdatedAt] jid (place_row m n t) d"
proof -
  from assms obtain r where r: "find_job jid d = Some r" "c_state r = StateQueued"
    by (cases "find_job jid d") (auto simp: set_position_tx_def split: if_splits)
  show thesis
  proof (cases "new_place p r d")
    case None
    with assms r show ?thesis by (intro same [of r]) (simp_all add: set_position_tx_def)
  next
    case (Some mn)
    obtain m n where "mn = (m, n)" by (cases mn)
    with Some assms r show ?thesis by (intro moved [of r m n]) (simp_all add: set_position_tx_def)
  qed
qed

interpretation set_position: safe_tx "guarded (valid_request p) (set_position_tx t jid p)" for t jid p
proof
  fix d a d' and changed :: "string list" and k :: string
  assume wf: "db_wf d" and "guarded (valid_request p) (set_position_tx t jid p) d = Inr (a, changed, d')"
  then have val: "valid_request p" and ok: "set_position_tx t jid p d = Inr (a, changed, d')"
    by simp_all
  from ok have "safe_change d d' \<and> (k \<in> set changed \<longrightarrow> find_job k d' \<noteq> None)
      \<and> (find_job k d \<noteq> None \<longrightarrow> find_job k d' \<noteq> None) \<and> (view d' k \<noteq> view d k \<longrightarrow> k \<in> set changed)"
  proof (cases rule: set_position_tx_cases)
    case (same r)
    then show ?thesis using wf by (simp add: safe_change_refl)
  next
    case (moved r m n)
    have row: "row_wf r" "c_id r = jid"
      using find_job_wf [OF wf moved(1)] by simp_all
    note pl = new_place_ok [OF wf val moved(3)]
    have "places_distinct (update_by c_id jid (place_row m n t) (db_jobs d))"
      using wf pl(3) row(2) by (intro places_distinct_move [where pl = "(m, n)"]) (auto simp: db_wf_def)
    then have "safe_change d d'"
      unfolding moved(5) using wf moved(1) place_row_keeps [OF row(1) pl(1,2)]
      by (intro update_job_fires_safe) simp_all
    then show ?thesis
      using one_row_laws [of "place_row m n t" jid d] moved(1,4,5) by simp
  qed
  then show "safe_change d d'" and "k \<in> set changed \<Longrightarrow> find_job k d' \<noteq> None"
    and "find_job k d \<noteq> None \<Longrightarrow> find_job k d' \<noteq> None" and "view d' k \<noteq> view d k \<Longrightarrow> k \<in> set changed"
    by blast+
qed

lemma set_position_safe:
  assumes "db_wf (q_db st)"
  shows "safe_change (q_db st) (q_db (snd (set_position opt t jid p st)))"
  using set_position.write_tx_safe [OF assms, of opt p t jid] safe_change_refl [OF assms]
  by (auto simp: set_position_def write_tx_guarded split: prod.split sum.split)

section \<open>Which jobs are over\<close>

lemma ended_of_chunk_eq:
  assumes "db_wf d"
  shows "ended_of_chunk d chunk out k =
    (case find_job k d of Some r \<Rightarrow> if k \<in> set chunk \<and> \<not> terminal (c_state r) then Some False else out k
     | None \<Rightarrow> out k)"
proof -
  have "fold (\<lambda>r m. if \<not> terminal (c_state r) then m(c_id r \<mapsto> False) else m) (filter (\<lambda>r. c_id r \<in> set chunk) rs) out k =
    (case lookup_by c_id k rs of Some r \<Rightarrow> if k \<in> set chunk \<and> \<not> terminal (c_state r) then Some False else out k
     | None \<Rightarrow> out k)" if "unique_by c_id rs" for rs
    using that
  proof (induction rs arbitrary: out)
    case (Cons a rs)
    then have u: "unique_by c_id rs" and "c_id a = k \<Longrightarrow> lookup_by c_id k rs = None"
      by (auto simp: unique_by_def lookup_by_None_iff image_iff)
    with Cons.IH [OF u] show ?case
      by (auto split: option.split)
  qed simp
  from this [OF db_wf_unique [OF assms]] show ?thesis
    unfolding ended_of_chunk_def find_job_def .
qed

declare ended_loop.simps [simp del]

lemma ended_loop_eq:
  assumes "db_wf d"
  shows "ended_loop d ids start out k =
    (case find_job k d of Some r \<Rightarrow> if k \<in> set (drop start ids) \<and> \<not> terminal (c_state r) then Some False else out k
     | None \<Rightarrow> out k)"
  using assms
proof (induction d ids start out rule: ended_loop.induct)
  case (1 d ids start out)
  note assms = 1(2)
  have parts: "set (drop start ids) = set (take ended_chunk (drop start ids)) \<union> set (drop (start + ended_chunk) ids)"
    by (metis add.commute append_take_drop_id drop_drop set_append)
  show ?case
  proof (cases "start < length ids")
    case True
    then show ?thesis
      unfolding ended_loop.simps [of d ids start] using 1(1) [OF True assms] parts
      by (cases "find_job k d") (simp_all add: ended_of_chunk_eq [OF assms, of _ _ k])
  next
    case False
    then show ?thesis by (simp add: ended_loop.simps split: option.split)
  qed
qed


lemma fold_all_True: "fold (\<lambda>i m. m(i \<mapsto> True)) ids m0 k = (if k \<in> set ids then Some True else m0 k)"
  by (induction ids arbitrary: m0) auto


lemma ended_eq:
  assumes "db_wf d"
  shows "ended ids d k =
    (if k \<in> set ids then Some (case find_job k d of Some r \<Rightarrow> terminal (c_state r) | None \<Rightarrow> True) else None)"
  by (simp add: ended_def ended_loop_eq [OF assms, of _ _ _ k] fold_all_True split: option.split)

end
