(* ===== verification/Logs.thy ===== *)
theory Logs
  imports Manage
begin

text \<open>
  The logs of jobs (\<open>internal/wwd/queue/log.go\<close>). A log file is named after the job's id, so the files
  are a partial map from ids to contents. An upload is checked before its body is read and again in
  the transaction that puts the file in place; the sweep forgets old logs in one transaction and
  removes their files afterwards, looking again first. The steps between which other calls may run are
  separate definitions.
\<close>

section \<open>Names of log files\<close>

text \<open>\<open>filepath.Base\<close> on a Unix host.\<close>

definition slash :: char where
  "slash = CHR ''/''"

definition filepath_base :: "string \<Rightarrow> string" where
  "filepath_base s =
     (if s = '''' then ''.''
      else let t = rev (dropWhile (\<lambda>c. c = slash) (rev s)); b = rev (takeWhile (\<lambda>c. c \<noteq> slash) (rev t))
           in if b = '''' then ''/'' else b)"

definition valid_log_id :: "string \<Rightarrow> bool" where
  "valid_log_id jid \<longleftrightarrow> jid \<noteq> '''' \<and> jid \<noteq> ''.'' \<and> jid \<noteq> ''..'' \<and> filepath_base jid = jid"

section \<open>Uploading\<close>

definition retention_ms :: int where
  "retention_ms = 7 * 24 * 3600 * 1000"

definition log_retention_ms :: int where
  "log_retention_ms = 3 * 24 * 3600 * 1000"

definition late_log_window_ms :: int where
  "late_log_window_ms = retention_ms - log_retention_ms"

definition may_log :: "held \<Rightarrow> string \<Rightarrow> qerr + unit" where
  "may_log h claim_id =
     (case live h claim_id of Inr u \<Rightarrow> Inr u
      | Inl _ \<Rightarrow> if held_ended h \<and> h_result_claim_id h = Some claim_id then Inr () else Inl (Conflict (h_state h)))"

definition check_log_right :: "string \<Rightarrow> string \<Rightarrow> db \<Rightarrow> qerr + unit" where
  "check_log_right jid claim_id d = bind_err (load_held False jid d) (\<lambda>h. may_log h claim_id)"

definition put_log_row :: "int \<Rightarrow> int \<Rightarrow> job_row \<Rightarrow> job_row" where
  "put_log_row n now_ms r = r\<lparr>c_log_size := Some n, c_log_at := Some now_ms\<rparr>"

definition point_row :: "string \<Rightarrow> job_row \<Rightarrow> job_row" where
  "point_row l r = r\<lparr>c_result := map_option (\<lambda>res. res\<lparr>r_log := l\<rparr>) (c_result r)\<rparr>"

text \<open>\<open>now_ms\<close> dates the log; \<open>now2_ms\<close> is the clock when the window of a late log is looked at.\<close>

definition put_log_tx ::
  "int \<Rightarrow> int \<Rightarrow> int \<Rightarrow> string \<Rightarrow> string \<Rightarrow> (job \<times> produced) option tx" where
  "put_log_tx n now_ms now2_ms jid claim_id d =
     bind_err (load_held False jid d) (\<lambda>h.
     bind_err (may_log h claim_id) (\<lambda>_.
       let d1 = update_job [ColLogSize, ColLogAt] jid (put_log_row n now_ms) d
       in if \<not> held_ended h then Inr (None, [], d1)
          else let d2 = update_job [ColResult] jid (point_row (jid @ ''/log'')) d1
               in if h_has_log h then Inr (None, [jid], d2)
                  else (case find_job jid d2 of None \<Rightarrow> Inl ErrNotFound
                        | Some r \<Rightarrow> (case c_finished_at r of None \<Rightarrow> Inr (None, [jid], d2)
                            | Some fin \<Rightarrow>
                                if now2_ms - fin > late_log_window_ms then Inr (None, [jid], d2)
                                else bind_err (get_on False jid d2) (\<lambda>j.
                                     bind_err (produced_on jid d2) (\<lambda>p. Inr (Some (j, p), [jid], d2)))))))"

text \<open>The part under the lock: the file is put in place, and put back when the transaction fails.\<close>

definition put_log_commit ::
  "options \<Rightarrow> int \<Rightarrow> int \<Rightarrow> string \<Rightarrow> string \<Rightarrow> string \<Rightarrow> queue_state \<Rightarrow> (qerr + unit) \<times> queue_state" where
  "put_log_commit opt now_ms now2_ms jid claim_id body st =
     (case write_tx opt (put_log_tx (int (length body)) now_ms now2_ms jid claim_id) st of
        (Inl e, st') \<Rightarrow> (Inl e, st')
      | (Inr late, st') \<Rightarrow>
          (let st2 = st'\<lparr>q_logs := (q_logs st')(jid \<mapsto> body)\<rparr>
           in (Inr (), case late of None \<Rightarrow> st2 | Some (j, p) \<Rightarrow> offer_result opt j p st2)))"

definition put_log ::
  "options \<Rightarrow> int \<Rightarrow> int \<Rightarrow> string \<Rightarrow> string \<Rightarrow> string \<Rightarrow> queue_state \<Rightarrow> (qerr + unit) \<times> queue_state" where
  "put_log opt now_ms now2_ms jid claim_id body st =
     (if \<not> o_log_dir opt then (Inl ErrNoLogDir, st)
      else if \<not> valid_log_id jid then (Inl ErrNotFound, st)
      else case check_log_right jid claim_id (q_db st) of Inl e \<Rightarrow> (Inl e, st)
      | Inr _ \<Rightarrow>
          if int (length (take (nat (o_max_log opt + 1)) body)) > o_max_log opt then (Inl ErrLogTooLarge, st)
          else put_log_commit opt now_ms now2_ms jid claim_id body st)"

section \<open>Reading\<close>

text \<open>\<open>reusedLogRe\<close>: \<open>^(j_[0-9A-Za-z_-]{1,64})/log$\<close>; the id it captures.\<close>

definition log_id_char :: "char \<Rightarrow> bool" where
  "log_id_char c \<longleftrightarrow> is_digit c \<or> is_upper c \<or> is_lower c \<or> c = CHR ''_'' \<or> c = CHR ''-''"

definition reused_log_re :: "string \<Rightarrow> string option" where
  "reused_log_re s =
     (let m = take (length s - 4) s
      in if length s \<ge> 4 \<and> drop (length s - 4) s = ''/log'' \<and> has_prefix ''j_'' m
            \<and> 3 \<le> length m \<and> length m \<le> 66 \<and> list_all log_id_char (drop 2 m)
         then Some m else None)"

definition reused_log_owner :: "string \<Rightarrow> db \<Rightarrow> string" where
  "reused_log_owner jid d =
     (case find_job jid d of None \<Rightarrow> jid
      | Some r \<Rightarrow> (case c_result r of None \<Rightarrow> jid
          | Some res \<Rightarrow> (case reused_log_re (r_log res) of None \<Rightarrow> jid
              | Some m \<Rightarrow> if r_cache_hit res \<and> m \<noteq> jid then m else jid)))"

definition open_log :: "options \<Rightarrow> string \<Rightarrow> bool \<Rightarrow> queue_state \<Rightarrow> qerr + string \<times> int" where
  "open_log opt jid for_peers st =
     (if \<not> o_log_dir opt \<or> \<not> valid_log_id jid then Inl ErrNotFound
      else let owner = reused_log_owner jid (q_db st)
           in case find_for for_peers owner (q_db st) of None \<Rightarrow> Inl ErrNotFound
              | Some r \<Rightarrow> if c_log_size r = None then Inl ErrNotFound
                         else (case q_logs st owner of None \<Rightarrow> Inl ErrNotFound
                               | Some body \<Rightarrow> Inr (body, int (length body))))"

section \<open>Removing\<close>

definition remove_log_files :: "options \<Rightarrow> string list \<Rightarrow> queue_state \<Rightarrow> queue_state" where
  "remove_log_files opt ids st =
     (if \<not> o_log_dir opt then st
      else st\<lparr>q_logs := (\<lambda>k. if k \<in> set ids \<and> valid_log_id k then None else q_logs st k)\<rparr>)"

definition retained_out :: "int \<Rightarrow> job_row \<Rightarrow> bool" where
  "retained_out cutoff r \<longleftrightarrow> terminal (c_state r) \<and> \<not> c_pinned r
     \<and> (case c_finished_at r of Some t \<Rightarrow> t | None \<Rightarrow> c_updated_at r) < cutoff"

definition delete_retained_jobs :: "options \<Rightarrow> int \<Rightarrow> queue_state \<Rightarrow> queue_state \<times> nat" where
  "delete_retained_jobs opt cutoff st =
     (let ids = map c_id (filter (retained_out cutoff) (db_jobs (q_db st)))
      in (remove_log_files opt ids
            (st\<lparr>q_db := (q_db st)\<lparr>db_jobs := filter (\<lambda>r. \<not> retained_out cutoff r) (db_jobs (q_db st))\<rparr>\<rparr>),
          length ids))"

definition log_out :: "int \<Rightarrow> job_row \<Rightarrow> bool" where
  "log_out cutoff r \<longleftrightarrow> (case c_log_at r of Some t \<Rightarrow> t < cutoff | None \<Rightarrow> False)"

definition forget_log_row :: "job_row \<Rightarrow> job_row" where
  "forget_log_row r = r\<lparr>c_log_size := None, c_log_at := None, c_result := map_option (\<lambda>res. res\<lparr>r_log := ''''\<rparr>) (c_result r)\<rparr>"

definition forget_log :: "string \<Rightarrow> db \<Rightarrow> db" where
  "forget_log jid d = update_job [ColLogSize, ColLogAt, ColResult] jid forget_log_row d"

definition forget_logs_tx :: "int \<Rightarrow> string list tx" where
  "forget_logs_tx now_ms d =
     (let ids = map c_id (filter (log_out (now_ms - log_retention_ms)) (db_jobs d))
      in Inr (ids, ids, fold forget_log ids d))"

text \<open>The second half of \<open>sweepLogs\<close>: the files of the ids that still have no log.\<close>

definition remove_forgotten :: "options \<Rightarrow> string list \<Rightarrow> queue_state \<Rightarrow> queue_state" where
  "remove_forgotten opt ids st =
     remove_log_files opt
       (filter (\<lambda>i. case find_job i (q_db st) of None \<Rightarrow> True | Some r \<Rightarrow> c_log_size r = None) ids) st"

definition sweep_logs :: "options \<Rightarrow> int \<Rightarrow> queue_state \<Rightarrow> (qerr + nat) \<times> queue_state" where
  "sweep_logs opt now_ms st =
     (case write_only opt (forget_logs_tx now_ms) st of
        (Inl e, st') \<Rightarrow> (Inl e, st')
      | (Inr ids, st') \<Rightarrow> (Inr (length ids), remove_forgotten opt ids st'))"

section \<open>The log operations are safe\<close>

lemma log_rows_sel [simp]:
  "c_id (put_log_row n t r) = c_id r" "c_seq (put_log_row n t r) = c_seq r" "place (put_log_row n t r) = place r"
  "c_id (point_row l r) = c_id r" "c_seq (point_row l r) = c_seq r" "place (point_row l r) = place r"
  "c_id (forget_log_row r) = c_id r" "c_seq (forget_log_row r) = c_seq r" "place (forget_log_row r) = place r"
  by (simp_all add: put_log_row_def point_row_def forget_log_row_def place_def)

lemma point_row_parts:
  "row_fixed_ok (point_row l r) = row_fixed_ok r" "row_queued_ok (point_row l r) = row_queued_ok r"
  "row_held_ok (point_row l r) = row_held_ok r" "row_ended_ok (point_row l r) = row_ended_ok r"
  by (cases "c_result r";
      simp add: point_row_def row_fixed_ok_def row_queued_ok_def row_held_ok_def row_ended_ok_def)+

lemma point_row_keeps: "row_wf r \<Longrightarrow> row_keeps r (point_row l r)"
  unfolding row_keeps_def row_wf_def point_row_parts by (simp add: point_row_def)

lemma forget_log_row_eq: "forget_log_row r = (point_row '''' r)\<lparr>c_log_size := None, c_log_at := None\<rparr>"
  by (simp add: forget_log_row_def point_row_def)

lemma clear_log_parts:
  "row_fixed_ok (r\<lparr>c_log_size := a, c_log_at := b\<rparr>) = row_fixed_ok r"
  "row_queued_ok (r\<lparr>c_log_size := a, c_log_at := b\<rparr>) = row_queued_ok r"
  "row_held_ok (r\<lparr>c_log_size := a, c_log_at := b\<rparr>) = row_held_ok r"
  "row_ended_ok (r\<lparr>c_log_size := a, c_log_at := b\<rparr>) = row_ended_ok r"
  by (simp_all add: row_fixed_ok_def row_queued_ok_def row_held_ok_def row_ended_ok_def)

lemma put_log_row_keeps: "row_wf r \<Longrightarrow> row_keeps r (put_log_row n t r)"
  unfolding row_keeps_def row_wf_def put_log_row_def clear_log_parts by simp

lemma forget_log_row_keeps: "row_wf r \<Longrightarrow> row_keeps r (forget_log_row r)"
  unfolding row_keeps_def row_wf_def forget_log_row_eq clear_log_parts point_row_parts by (simp add: point_row_def)

interpretation forget_logs: row_loop forget_log "\<lambda>x. x" "\<lambda>x. forget_log_row" "\<lambda>x r. True"
proof
  fix d and x :: string and r
  show "safe_change d (forget_log x d)" if wf: "db_wf d" and r: "find_job x d = Some r"
    unfolding forget_log_def using wf r forget_log_row_keeps [OF db_wf_find [OF wf r]]
    by (intro update_job_safe) simp_all
qed (auto simp: forget_log_def find_update_job)

lemma log_out_ids:
  assumes "db_wf d" and "x \<in> set (map c_id (filter (log_out t) (db_jobs d)))"
  shows "\<exists>r. find_job x d = Some r \<and> True"
  using assms find_job_unique [OF assms(1)] by auto

lemma distinct_ids_filter: "db_wf d \<Longrightarrow> distinct (map c_id (filter P (db_jobs d)))"
  using unique_by_filter [OF db_wf_unique] by (simp add: unique_by_def)

interpretation forget: safe_tx "forget_logs_tx t" for t
proof
  fix d a d' and changed :: "string list" and k :: string
  assume wf: "db_wf d" and ok: "forget_logs_tx t d = Inr (a, changed, d')"
  define ids where "ids = map c_id (filter (log_out (t - log_retention_ms)) (db_jobs d))"
  have eq: "changed = ids" "d' = fold forget_log ids d"
    using ok by (auto simp: forget_logs_tx_def ids_def Let_def)
  have known: "\<exists>r. find_job x d = Some r \<and> True" if "x \<in> set ids" for x
    using log_out_ids [OF wf] that unfolding ids_def .
  show "safe_change d d'"
    unfolding eq using wf known distinct_ids_filter [OF wf] by (intro forget_logs.loop_safe) (simp_all add: ids_def)
  show kept: "find_job k d \<noteq> None \<Longrightarrow> find_job k d' \<noteq> None" for k
    unfolding eq by (rule forget_logs.loop_kept)
  show "k \<in> set changed \<Longrightarrow> find_job k d' \<noteq> None"
    using known [of k] kept [of k] eq by auto
  show "view d' k \<noteq> view d k \<Longrightarrow> k \<in> set changed"
    unfolding eq using forget_logs.loop_view by fastforce
qed

lemma may_log_row:
  "may_log (row_held r) cid = Inr u \<longleftrightarrow>
     (held_state (c_state r) \<and> c_claim_id r = Some cid) \<or> (terminal (c_state r) \<and> c_result_claim_id r = Some cid)"
  by (auto simp: may_log_def live_def held_state_def)

definition logged_db :: "int \<Rightarrow> int \<Rightarrow> string \<Rightarrow> db \<Rightarrow> db" where
  "logged_db n t jid d = update_job [ColLogSize, ColLogAt] jid (put_log_row n t) d"

definition pointed_db :: "int \<Rightarrow> int \<Rightarrow> string \<Rightarrow> db \<Rightarrow> db" where
  "pointed_db n t jid d = update_job [ColResult] jid (point_row (jid @ ''/log'')) (logged_db n t jid d)"

lemma put_log_tx_cases:
  assumes "put_log_tx n t t2 jid cid d = Inr (a, changed, d')"
  obtains (running) r where "find_job jid d = Some r" and "held_state (c_state r)" and "c_claim_id r = Some cid"
      and "changed = []" and "d' = logged_db n t jid d" and "a = None"
  | (ended) r where "find_job jid d = Some r" and "terminal (c_state r)" and "c_result_claim_id r = Some cid"
      and "changed = [jid]" and "d' = pointed_db n t jid d"
proof -
  from assms obtain r where r: "find_job jid d = Some r"
    by (auto simp: put_log_tx_def bind_err_Inr_iff load_held_Inr find_for_Some)
  then have load: "load_held False jid d = Inr (row_held r)"
    by (simp add: load_held_def find_for_def)
  from assms have right: "may_log (row_held r) cid = Inr ()"
    unfolding put_log_tx_def load by (auto simp: bind_err_Inr_iff)
  show thesis
  proof (cases "terminal (c_state r)")
    case False
    with right have "held_state (c_state r)" "c_claim_id r = Some cid"
      by (auto simp: may_log_row)
    with False r assms right show ?thesis
      unfolding put_log_tx_def load by (intro running [of r]) (auto simp: logged_db_def)
  next
    case True
    with right have "c_result_claim_id r = Some cid"
      by (auto simp: may_log_row dest: held_not_terminal)
    moreover have "changed = [jid] \<and> d' = pointed_db n t jid d"
      using True assms right unfolding put_log_tx_def load
      by (auto simp: Let_def pointed_db_def logged_db_def bind_err_Inr_iff split: if_splits option.splits)
    ultimately show ?thesis
      using True r by (intro ended [of r]) simp_all
  qed
qed

lemma find_logged_db: "find_job k (logged_db n t jid d) =
    (if k = jid then map_option (\<lambda>r. (put_log_row n t r)\<lparr>c_rev := db_rev d + 1\<rparr>) (find_job jid d) else find_job k d)"
  by (simp add: logged_db_def find_update_job)

lemma logged_db_safe: "db_wf d \<Longrightarrow> find_job jid d = Some r \<Longrightarrow> safe_change d (logged_db n t jid d)"
  unfolding logged_db_def using put_log_row_keeps [OF db_wf_find] by (intro update_job_safe) simp_all

lemma pointed_db_safe:
  assumes "db_wf d" and "find_job jid d = Some r"
  shows "safe_change d (pointed_db n t jid d)"
proof -
  have s: "safe_change d (logged_db n t jid d)"
    using assms by (rule logged_db_safe)
  have f: "find_job jid (logged_db n t jid d) = Some ((put_log_row n t r)\<lparr>c_rev := db_rev d + 1\<rparr>)"
    using assms(2) by (simp add: find_logged_db)
  have "safe_change (logged_db n t jid d) (pointed_db n t jid d)"
    unfolding pointed_db_def using point_row_keeps [OF db_wf_find [OF safe_change_wf [OF s] f]] safe_change_wf [OF s] f
    by (intro update_job_safe) simp_all
  with s show ?thesis by (rule safe_change_trans)
qed

lemma logged_db_view: "view (logged_db n t jid d) k = view d k"
  by (cases "find_job jid d")
    (auto simp: view_def find_logged_db put_log_row_def row_job_def row_claim_def split: option.split)

interpretation put_log: safe_tx "put_log_tx n t t2 jid cid" for n t t2 jid cid
proof
  fix d a d' and changed :: "string list" and k :: string
  assume wf: "db_wf d" and ok: "put_log_tx n t t2 jid cid d = Inr (a, changed, d')"
  from ok have "safe_change d d' \<and> (k \<in> set changed \<longrightarrow> find_job k d' \<noteq> None)
      \<and> (find_job k d \<noteq> None \<longrightarrow> find_job k d' \<noteq> None) \<and> (view d' k \<noteq> view d k \<longrightarrow> k \<in> set changed)"
  proof (cases rule: put_log_tx_cases)
    case (running r)
    then show ?thesis
      using logged_db_safe [OF wf running(1)] logged_db_view by (simp add: find_logged_db)
  next
    case (ended r)
    then show ?thesis
      using pointed_db_safe [OF wf ended(1)] by (simp add: pointed_db_def find_update_job find_logged_db view_def)
  qed
  then show "safe_change d d'" and "k \<in> set changed \<Longrightarrow> find_job k d' \<noteq> None"
    and "find_job k d \<noteq> None \<Longrightarrow> find_job k d' \<noteq> None" and "view d' k \<noteq> view d k \<Longrightarrow> k \<in> set changed"
    by blast+
qed

lemma put_log_commit_safe:
  "db_wf (q_db st) \<Longrightarrow> safe_change (q_db st) (q_db (snd (put_log_commit opt t t2 jid cid body st)))"
  using put_log.write_tx_safe [of st opt "int (length body)" t t2 jid cid]
  by (auto simp: put_log_commit_def Let_def split: prod.splits sum.splits option.splits)

lemma put_log_safe:
  "db_wf (q_db st) \<Longrightarrow> safe_change (q_db st) (q_db (snd (put_log opt t t2 jid cid body st)))"
  using put_log_commit_safe safe_change_refl
  by (simp add: put_log_def split: sum.split)

lemma remove_log_files_db [simp]: "q_db (remove_log_files opt ids st) = q_db st"
  "q_refs (remove_log_files opt ids st) = q_refs st" "q_events (remove_log_files opt ids st) = q_events st"
  by (simp_all add: remove_log_files_def)

lemma remove_forgotten_db [simp]: "q_db (remove_forgotten opt ids st) = q_db st"
  "q_refs (remove_forgotten opt ids st) = q_refs st" "q_events (remove_forgotten opt ids st) = q_events st"
  by (simp_all add: remove_forgotten_def)

lemma sweep_logs_safe:
  "db_wf (q_db st) \<Longrightarrow> safe_change (q_db st) (q_db (snd (sweep_logs opt t st)))"
  using forget.write_only_safe [of st opt t]
  by (auto simp: sweep_logs_def split: prod.splits sum.splits)

lemma delete_retained_safe:
  "db_wf (q_db st) \<Longrightarrow> safe_change (q_db st) (q_db (fst (delete_retained_jobs opt cutoff st)))"
  by (simp add: delete_retained_jobs_def Let_def delete_jobs_safe)

end
