(* ===== verification/Sweep.thy ===== *)
theory Sweep
  imports Logs
begin

text \<open>
  The origin's housekeeping (\<open>internal/wwd/queue/sweep.go\<close>): leases that ran out and jobs that waited
  too long end in one transaction; then old logs, the pins of ended jobs, jobs and outcomes past the
  retention, and pins no job has.
\<close>

section \<open>Leases and queue timeouts\<close>

definition default_queue_timeout_ms :: int where
  "default_queue_timeout_ms = 2 * 3600 * 1000"

definition orphan_grace_ms :: int where
  "orphan_grace_ms = 10 * 60 * 1000"

definition waited_out :: "int \<Rightarrow> job_row \<Rightarrow> bool" where
  "waited_out now_ms r \<longleftrightarrow> c_state r = StateQueued \<and>
     c_created_at r + (if s_queue_timeout_s (c_sub r) > 0 then s_queue_timeout_s (c_sub r) * 1000 else default_queue_timeout_ms)
       < now_ms"

definition expire :: "int \<Rightarrow> string \<Rightarrow> db \<Rightarrow> db" where
  "expire now_ms jid d = finish_without_running jid StateExpired ''queue_timeout'' None now_ms d"

text \<open>\<open>clock\<close> is what the clock says while leases are taken back, \<open>now_ms\<close> the sweep's own time.\<close>

definition sweep_tx :: "int \<Rightarrow> int \<Rightarrow> (nat \<times> nat) tx" where
  "sweep_tx clock now_ms d =
     bind_err (lapse_leases clock now_ms d) (\<lambda>(lapsed, changed, d1).
       let ids = map c_id (filter (waited_out now_ms) (db_jobs d1))
       in Inr ((length lapsed, length ids), changed @ ids, fold (expire now_ms) ids d1))"

section \<open>Pins no job has\<close>

definition orphan_one ::
  "options \<Rightarrow> pinner \<Rightarrow> int \<Rightarrow> pin_row \<Rightarrow> queue_state \<times> nat \<times> nat \<Rightarrow> queue_state \<times> nat \<times> nat" where
  "orphan_one opt p now_ms rec = (\<lambda>(st, removed, failed).
     if now_ms - p_at rec < orphan_grace_ms then (st, removed, failed)
     else if (case find_job (p_id rec) (q_db st) of None \<Rightarrow> False | Some r \<Rightarrow> \<not> terminal (c_state r)) then (st, removed, failed)
     else if o_dir_gone opt (p_git_dir rec) then (st\<lparr>q_db := forget_pin (p_id rec) (q_db st)\<rparr>, removed, failed)
     else case unpin_op p (p_git_dir rec) (p_id rec) (q_refs st) of
        (False, R) \<Rightarrow> (st\<lparr>q_refs := R\<rparr>, removed, Suc failed)
      | (True, R) \<Rightarrow> (st\<lparr>q_db := forget_pin (p_id rec) (q_db st), q_refs := R\<rparr>, Suc removed, failed))"

definition remove_orphan_pins :: "options \<Rightarrow> int \<Rightarrow> queue_state \<Rightarrow> queue_state \<times> nat \<times> nat" where
  "remove_orphan_pins opt now_ms st =
     (case o_pinner opt of None \<Rightarrow> (st, 0, 0)
      | Some p \<Rightarrow> fold (orphan_one opt p now_ms) (sort_key p_at (db_pins (q_db st))) (st, 0, 0))"

section \<open>The sweep\<close>

record sweep_result =
  sw_lapsed :: nat
  sw_logs_removed :: nat
  sw_expired :: nat
  sw_unpinned :: nat
  sw_unpin_failed :: nat
  sw_orphans :: nat
  sw_deleted :: nat

definition err_list :: "qerr + 'a \<Rightarrow> qerr list" where
  "err_list x = (case x of Inl e \<Rightarrow> [e] | Inr _ \<Rightarrow> [])"

definition ok_or :: "'a \<Rightarrow> qerr + 'a \<Rightarrow> 'a" where
  "ok_or a x = (case x of Inl _ \<Rightarrow> a | Inr v \<Rightarrow> v)"

definition sweep :: "options \<Rightarrow> int \<Rightarrow> int \<Rightarrow> queue_state \<Rightarrow> (sweep_result \<times> qerr list) \<times> queue_state" where
  "sweep opt clock now_ms st =
     (let (out1, st1) = write_only opt (sweep_tx clock now_ms) st;
          (out2, st2) = sweep_logs opt now_ms st1;
          (st3, unpinned, failed) = settle_pins opt st2;
          (st4, deleted) = delete_retained_jobs opt (now_ms - retention_ms) st3;
          st5 = st4\<lparr>q_db := prune_outcomes (now_ms - retention_ms) (q_db st4)\<rparr>;
          (st6, orphans, failed2) = remove_orphan_pins opt now_ms st5
      in ((\<lparr>sw_lapsed = fst (ok_or (0, 0) out1), sw_logs_removed = ok_or 0 out2, sw_expired = snd (ok_or (0, 0) out1),
            sw_unpinned = unpinned, sw_unpin_failed = failed + failed2, sw_orphans = orphans, sw_deleted = deleted\<rparr>,
           err_list out1 @ err_list out2), st6))"

section \<open>The sweep is safe\<close>

interpretation expiry: row_loop "expire t" "\<lambda>x. x" "\<lambda>x. finish_row StateExpired ''queue_timeout'' None t"
  "\<lambda>x r. c_state r = StateQueued" for t
proof
  fix d and x :: string and r
  show "safe_change d (expire t x d)" if wf: "db_wf d" and r: "find_job x d = Some r" and q: "c_state r = StateQueued"
    unfolding expire_def finish_without_running_def
    using wf r finish_row_keeps [OF db_wf_find [OF wf r] q, of StateExpired]
    by (intro update_job_safe) simp_all
qed (auto simp: expire_def finish_without_running_def find_update_job)

lemma filter_ids_known:
  assumes "db_wf d" and "x \<in> set (map c_id (filter P (db_jobs d)))"
  shows "\<exists>r. find_job x d = Some r \<and> P r"
  using assms find_job_unique [OF assms(1)] by auto

text \<open>The lapse part always succeeds: every job it asks about is there and held.\<close>

lemma lapse_leases_ok:
  assumes "db_wf d"
  obtains d1 where "lapse_leases clock now_ms d =
      Inr (map c_id (filter (lease_out now_ms) (db_jobs d)), map c_id (filter (lease_out now_ms) (db_jobs d)), d1)"
    and "safe_change d d1"
    and "\<And>k. k \<notin> set (map c_id (filter (lease_out now_ms) (db_jobs d))) \<Longrightarrow> find_job k d1 = find_job k d"
    and "\<And>k r. k \<in> set (map c_id (filter (lease_out now_ms) (db_jobs d))) \<Longrightarrow> find_job k d = Some r \<Longrightarrow>
          \<exists>n. find_job k d1 = Some ((let_go_row clock 1 True ''lost'' r)\<lparr>c_rev := n\<rparr>)"
proof -
  let ?ids = "map c_id (filter (lease_out now_ms) (db_jobs d))"
  have "\<exists>r. find_job x d = Some r \<and> held_state (c_state r)" if "x \<in> set ?ids" for x
    using filter_ids_known [OF assms that] by (auto simp: lease_out_def)
  from lapse_ids_ok [OF assms distinct_ids_filter [OF assms] this]
  obtain d1 where "lapse_ids clock ?ids d = Inr d1" and rest: "safe_change d d1"
      "\<forall>k. k \<notin> set ?ids \<longrightarrow> find_job k d1 = find_job k d"
      "\<forall>k r. k \<in> set ?ids \<longrightarrow> find_job k d = Some r \<longrightarrow>
          (\<exists>n. find_job k d1 = Some ((let_go_row clock 1 True ''lost'' r)\<lparr>c_rev := n\<rparr>))"
    by blast
  then have "lapse_leases clock now_ms d = Inr (?ids, ?ids, d1)"
    by (simp add: lapse_leases_def Let_def)
  with rest show thesis by (intro that [of d1]) blast+
qed

lemma sweep_tx_ok:
  assumes wf: "db_wf d"
  obtains d1 ids1 ids2 where "sweep_tx clock now_ms d = Inr ((length ids1, length ids2), ids1 @ ids2, fold (expire now_ms) ids2 d1)"
    and "ids1 = map c_id (filter (lease_out now_ms) (db_jobs d))"
    and "ids2 = map c_id (filter (waited_out now_ms) (db_jobs d1))"
    and "safe_change d d1" and "safe_change d1 (fold (expire now_ms) ids2 d1)"
    and "\<And>k. k \<notin> set ids1 \<Longrightarrow> find_job k d1 = find_job k d"
    and "\<And>k r. k \<in> set ids1 \<Longrightarrow> find_job k d = Some r \<Longrightarrow>
          \<exists>n. find_job k d1 = Some ((let_go_row clock 1 True ''lost'' r)\<lparr>c_rev := n\<rparr>)"
proof -
  let ?ids1 = "map c_id (filter (lease_out now_ms) (db_jobs d))"
  obtain d1 where run: "lapse_leases clock now_ms d = Inr (?ids1, ?ids1, d1)" and s1: "safe_change d d1"
    and other: "\<And>k. k \<notin> set ?ids1 \<Longrightarrow> find_job k d1 = find_job k d"
    and each: "\<And>k r. k \<in> set ?ids1 \<Longrightarrow> find_job k d = Some r \<Longrightarrow>
          \<exists>n. find_job k d1 = Some ((let_go_row clock 1 True ''lost'' r)\<lparr>c_rev := n\<rparr>)"
    by (rule lapse_leases_ok [OF wf, where clock = clock and now_ms = now_ms], rule that)
  let ?ids2 = "map c_id (filter (waited_out now_ms) (db_jobs d1))"
  note wf1 = safe_change_wf [OF s1]
  have "\<exists>r. find_job x d1 = Some r \<and> c_state r = StateQueued" if "x \<in> set ?ids2" for x
    using filter_ids_known [OF wf1 that] by (auto simp: waited_out_def)
  then have s2: "safe_change d1 (fold (expire now_ms) ?ids2 d1)"
    using wf1 distinct_ids_filter [OF wf1] by (intro expiry.loop_safe) simp_all
  have "sweep_tx clock now_ms d = Inr ((length ?ids1, length ?ids2), ?ids1 @ ?ids2, fold (expire now_ms) ?ids2 d1)"
    by (simp add: sweep_tx_def run Let_def)
  with s1 s2 other each show thesis by (intro that [of ?ids1 ?ids2 d1]) simp_all
qed

interpretation sweep_tx: safe_tx "sweep_tx clock now_ms" for clock now_ms
proof
  fix d a d' and changed :: "string list" and k :: string
  assume wf: "db_wf d" and ok: "sweep_tx clock now_ms d = Inr (a, changed, d')"
  obtain d1 ids1 ids2 where tx: "sweep_tx clock now_ms d = Inr ((length ids1, length ids2), ids1 @ ids2, fold (expire now_ms) ids2 d1)"
    and ids1: "ids1 = map c_id (filter (lease_out now_ms) (db_jobs d))"
    and ids2: "ids2 = map c_id (filter (waited_out now_ms) (db_jobs d1))"
    and s: "safe_change d d1" "safe_change d1 (fold (expire now_ms) ids2 d1)"
    and other: "\<And>k. k \<notin> set ids1 \<Longrightarrow> find_job k d1 = find_job k d"
    and each: "\<And>k r. k \<in> set ids1 \<Longrightarrow> find_job k d = Some r \<Longrightarrow>
          \<exists>n. find_job k d1 = Some ((let_go_row clock 1 True ''lost'' r)\<lparr>c_rev := n\<rparr>)"
    by (rule sweep_tx_ok [OF wf, where clock = clock and now_ms = now_ms], rule that)
  have eq: "changed = ids1 @ ids2" "d' = fold (expire now_ms) ids2 d1"
    using ok tx by auto
  show "safe_change d d'"
    unfolding eq using s by (rule safe_change_trans)
  have kept1: "find_job k d1 \<noteq> None" if "find_job k d \<noteq> None" for k
    using other [of k] each [of k] that by (cases "k \<in> set ids1") auto
  show kept: "find_job k d \<noteq> None \<Longrightarrow> find_job k d' \<noteq> None" for k
    unfolding eq using kept1 by (intro expiry.loop_kept)
  have "find_job k d \<noteq> None" if "k \<in> set ids1" for k
    using filter_ids_known [OF wf, of k] that ids1 by auto
  moreover have "find_job k d1 \<noteq> None" if "k \<in> set ids2" for k
    using filter_ids_known [OF safe_change_wf [OF s(1)], of k] that ids2 by auto
  ultimately show "k \<in> set changed \<Longrightarrow> find_job k d' \<noteq> None"
    using kept expiry.loop_kept unfolding eq by auto
  show "k \<in> set changed" if "view d' k \<noteq> view d k"
  proof (rule ccontr)
    assume "k \<notin> set changed"
    then have "find_job k d1 = find_job k d" "find_job k d' = find_job k d1"
      using other [of k] expiry.loop_other [of k ids2 now_ms d1] by (simp_all add: eq)
    with that show False by (simp add: view_def)
  qed
qed

lemma prune_outcomes_same: "same_jobs d (prune_outcomes cutoff d)"
  by (simp add: prune_outcomes_def same_jobs_def)

lemma orphan_one_safe:
  assumes "db_wf (q_db st)" and "orphan_one opt p t rec (st, n, m) = (st', n', m')"
  shows "safe_change (q_db st) (q_db st')"
  using assms forget_pin_safe [OF assms(1), of "p_id rec"] safe_change_refl [OF assms(1)]
  by (auto simp: orphan_one_def split: if_splits prod.splits bool.splits)

lemma orphan_fold_safe:
  assumes "db_wf (q_db st)" and "fold (orphan_one opt p t) recs (st, n, m) = (st', n', m')"
  shows "safe_change (q_db st) (q_db st')"
  using assms
proof (induction recs arbitrary: st n m)
  case Nil
  then show ?case by (simp add: safe_change_refl)
next
  case (Cons rec recs)
  obtain st1 n1 m1 where s1: "orphan_one opt p t rec (st, n, m) = (st1, n1, m1)"
    by (metis prod_cases3)
  note safe = orphan_one_safe [OF Cons.prems(1) s1]
  have "safe_change (q_db st1) (q_db st')"
    using Cons.IH [OF safe_change_wf [OF safe], of n1 m1] Cons.prems(2) s1 by simp
  with safe show ?case by (rule safe_change_trans)
qed

lemma remove_orphan_pins_safe:
  assumes "db_wf (q_db st)" and "remove_orphan_pins opt t st = (st', n, m)"
  shows "safe_change (q_db st) (q_db st')"
  using assms orphan_fold_safe by (auto simp: remove_orphan_pins_def safe_change_refl split: option.splits)

lemma sweep_safe:
  assumes wf: "db_wf (q_db st)"
  shows "safe_change (q_db st) (q_db (snd (sweep opt clock t st)))"
proof -
  obtain out1 st1 where e1: "write_only opt (sweep_tx clock t) st = (out1, st1)"
    by (cases "write_only opt (sweep_tx clock t) st")
  obtain out2 st2 where e2: "sweep_logs opt t st1 = (out2, st2)"
    by (cases "sweep_logs opt t st1")
  obtain st3 n3 m3 where e3: "settle_pins opt st2 = (st3, n3, m3)"
    by (cases "settle_pins opt st2")
  obtain st4 n4 where e4: "delete_retained_jobs opt (t - retention_ms) st3 = (st4, n4)"
    by (cases "delete_retained_jobs opt (t - retention_ms) st3")
  let ?st5 = "st4\<lparr>q_db := prune_outcomes (t - retention_ms) (q_db st4)\<rparr>"
  obtain st6 n6 m6 where e6: "remove_orphan_pins opt t ?st5 = (st6, n6, m6)"
    by (cases "remove_orphan_pins opt t ?st5")
  have s1: "safe_change (q_db st) (q_db st1)"
    using sweep_tx.write_only_safe [OF wf, of opt clock t] e1 by simp
  have s2: "safe_change (q_db st1) (q_db st2)"
    using sweep_logs_safe [OF safe_change_wf [OF s1], of opt t] e2 by simp
  have s3: "safe_change (q_db st2) (q_db st3)"
    using settle_pins_safe [OF safe_change_wf [OF s2], of opt] e3 by simp
  have s4: "safe_change (q_db st3) (q_db st4)"
    using delete_retained_safe [OF safe_change_wf [OF s3], of opt "t - retention_ms"] e4 by simp
  have s5: "safe_change (q_db st4) (q_db ?st5)"
    using same_jobs_safe [OF safe_change_wf [OF s4] prune_outcomes_same] by simp
  have s6: "safe_change (q_db ?st5) (q_db st6)"
    using remove_orphan_pins_safe [OF safe_change_wf [OF s5] e6] .
  have "q_db (snd (sweep opt clock t st)) = q_db st6"
    by (simp add: sweep_def e1 e2 e3 e4 e6)
  then show ?thesis
    using s1 s2 s3 s4 s5 s6 safe_change_trans by metis
qed

end
