(* ===== verification/Decimal.thy ===== *)
theory Decimal
  imports Prelude
begin

text \<open>
  Decimal numbers as Go prints and reads them (\<open>strconv.FormatInt\<close>, \<open>strconv.Itoa\<close> and \<open>strconv.ParseInt\<close>
  in base 10): the digits of a number and the number of some digits, each the other's inverse.
\<close>

definition digit_char :: "nat \<Rightarrow> char" where
  "digit_char n = char_of (48 + n)"

fun format_nat :: "nat \<Rightarrow> string" where
  "format_nat n = (if n < 10 then [digit_char n] else format_nat (n div 10) @ [digit_char (n mod 10)])"

definition format_int :: "int \<Rightarrow> string" where
  "format_int n = (if n < 0 then CHR ''-'' # format_nat (nat (- n)) else format_nat (nat n))"

definition digit_val :: "char \<Rightarrow> nat" where
  "digit_val c = byte_of c - 48"

definition digits_val :: "string \<Rightarrow> nat" where
  "digits_val s = foldl (\<lambda>n c. 10 * n + digit_val c) 0 s"

declare format_nat.simps [simp del]

lemma byte_of_digit_char: "n < 10 \<Longrightarrow> byte_of (digit_char n) = 48 + n"
  by (simp add: byte_of_def digit_char_def)

lemma digit_char_digit: "n < 10 \<Longrightarrow> is_digit (digit_char n)"
  by (simp add: is_digit_def byte_of_digit_char)

lemma digit_val_digit_char: "n < 10 \<Longrightarrow> digit_val (digit_char n) = n"
  by (simp add: digit_val_def byte_of_digit_char)

lemma digits_val_snoc: "digits_val (s @ [c]) = 10 * digits_val s + digit_val c"
  by (simp add: digits_val_def)

lemma format_nat_digits: "list_all is_digit (format_nat n)"
proof (induction n rule: format_nat.induct)
  case (1 n)
  then show ?case
    by (subst format_nat.simps) (simp add: digit_char_digit)
qed

lemma format_nat_ne: "format_nat n \<noteq> ''''"
  by (subst format_nat.simps) simp

lemma digits_val_format_nat: "digits_val (format_nat n) = n"
proof (induction n rule: format_nat.induct)
  case (1 n)
  show ?case
  proof (cases "n < 10")
    case True
    then show ?thesis
      by (simp add: format_nat.simps [of n] digits_val_def digit_val_digit_char)
  next
    case False
    then show ?thesis
      using 1 by (simp add: format_nat.simps [of n] digits_val_snoc digit_val_digit_char)
  qed
qed

lemma length_format_nat: "n < 10 ^ k \<Longrightarrow> 0 < k \<Longrightarrow> length (format_nat n) \<le> k"
proof (induction n arbitrary: k rule: format_nat.induct)
  case (1 n)
  show ?case
  proof (cases "n < 10")
    case True
    then show ?thesis using 1 by (simp add: format_nat.simps [of n])
  next
    case False
    then obtain m where k: "k = Suc m" "0 < m"
      using 1(2,3) by (cases k; cases "k - 1") auto
    have "n div 10 < 10 ^ m"
      using 1(2) k by (simp add: less_mult_imp_div_less mult.commute)
    then show ?thesis
      using False 1(1) [OF False, of m] k by (simp add: format_nat.simps [of n])
  qed
qed

lemma digits_val_bound: "list_all is_digit s \<Longrightarrow> digits_val s < 10 ^ length s"
proof (induction s rule: rev_induct)
  case Nil
  then show ?case by (simp add: digits_val_def)
next
  case (snoc c s)
  then have "digit_val c < 10" and "digits_val s < 10 ^ length s"
    by (auto simp: is_digit_def digit_val_def)
  then show ?case
    by (simp add: digits_val_snoc)
qed

end
