(* ===== verification/Reads.thy ===== *)
theory Reads
  imports Sweep Decimal
begin

text \<open>
  Reading the queue (\<open>read.go\<close>, \<open>cursor.go\<close>, \<open>view.go\<close> of \<open>internal/wwd/queue\<close>): one job, the list
  with its filter, the list of what changed after a cursor, the cursor's wire form, and the view of
  the queued jobs the alert rules read.
\<close>

section \<open>Lists\<close>

record job_filter =
  f_states :: "job_state list"
  f_submitter_session :: string
  f_for_peers :: bool
  f_limit :: int

definition get_job :: "string \<Rightarrow> db \<Rightarrow> qerr + job" where
  "get_job jid d = get_on False jid d"

definition get_for_peers :: "string \<Rightarrow> db \<Rightarrow> qerr + job" where
  "get_for_peers jid d = get_on True jid d"

definition filter_matches :: "job_filter \<Rightarrow> job_row \<Rightarrow> bool" where
  "filter_matches f r \<longleftrightarrow>
     (f_states f = [] \<or> c_state r \<in> set (f_states f))
     \<and> (f_submitter_session f = '''' \<or> sub_session (s_submitter (c_sub r)) = f_submitter_session f)
     \<and> (f_for_peers f \<longrightarrow> peer_visible r)"

definition limited :: "int \<Rightarrow> 'a list \<Rightarrow> 'a list" where
  "limited n xs = (if n > 0 then take (nat n) xs else xs)"

definition list_rows :: "job_filter \<Rightarrow> int option \<Rightarrow> db \<Rightarrow> job_row list" where
  "list_rows f after d =
     (case after of
        None \<Rightarrow> limited (f_limit f) (sort_key c_seq (filter (filter_matches f) (db_jobs d)))
      | Some n \<Rightarrow> limited (f_limit f) (sort_key c_rev (filter (\<lambda>r. n < c_rev r \<and> filter_matches f r) (db_jobs d))))"

definition list_on :: "job_filter \<Rightarrow> int option \<Rightarrow> db \<Rightarrow> qerr + job list \<times> int list" where
  "list_on f after d =
     bind_err (map_err scan_job (list_rows f after d)) (\<lambda>js.
       Inr (js, case after of None \<Rightarrow> [] | Some _ \<Rightarrow> map c_rev (list_rows f after d)))"

definition list_jobs :: "job_filter \<Rightarrow> db \<Rightarrow> qerr + job list" where
  "list_jobs f d = bind_err (list_on f None d) (\<lambda>(js, _). Inr js)"

definition count_queued :: "db \<Rightarrow> nat" where
  "count_queued d = length (filter (\<lambda>r. c_state r = StateQueued) (db_jobs d))"

section \<open>The cursor\<close>

definition head :: "db \<Rightarrow> int" where
  "head d = db_rev d"

definition list_after :: "int \<Rightarrow> job_filter \<Rightarrow> db \<Rightarrow> qerr + job list \<times> int" where
  "list_after after f d =
     bind_err (list_on f (Some after) d) (\<lambda>(js, revs). Inr (js, if revs = [] then after else last revs))"

definition cursor_string :: "int \<Rightarrow> string" where
  "cursor_string n = format_int n"

text \<open>\<open>ParseInt\<close> is reached with 1 to 18 digits only, which always fit in 64 bits.\<close>

definition parse_cursor :: "string \<Rightarrow> string + int" where
  "parse_cursor s =
     (if s = '''' then Inr 0
      else if \<not> valid_cursor s then Inl ''queue: not a cursor''
      else if int (digits_val s) < 2 ^ 63 then Inr (int (digits_val s)) else Inl ''value out of range'')"

section \<open>What the alert rules see\<close>

record queued_job =
  v_id :: string
  v_labels :: "string list"
  v_class :: job_class
  v_repo :: string
  v_created_at :: int
  v_touched :: int
  v_attempts :: int
  v_held :: bool

definition queued_view :: "db \<Rightarrow> queued_job list" where
  "queued_view d =
     map (\<lambda>r. \<lparr>v_id = c_id r, v_labels = s_labels (c_sub r), v_class = s_class (c_sub r), v_repo = repo_name (s_repo (c_sub r)),
               v_created_at = c_created_at r, v_touched = c_updated_at r, v_attempts = c_attempts r,
               v_held = (c_manual r = PositionHold)\<rparr>)
       (sort_key c_seq (filter (\<lambda>r. c_state r = StateQueued \<and> peer_visible r) (db_jobs d)))"

section \<open>Lists never fail\<close>

lemma list_on_ok:
  assumes "db_wf d"
  shows "list_on f after d = Inr (map row_job (list_rows f after d),
    case after of None \<Rightarrow> [] | Some _ \<Rightarrow> map c_rev (list_rows f after d))"
proof -
  have "r \<in> set (db_jobs d)" if "r \<in> set (list_rows f after d)" for r
    using that by (auto simp: list_rows_def limited_def split: option.splits if_splits dest: in_set_takeD)
  then have "scan_job r = Inr (row_job r)" if "r \<in> set (list_rows f after d)" for r
    using that db_wf_row [OF assms] by (simp add: scan_job_ok)
  then have "map_err scan_job (list_rows f after d) = Inr (map row_job (list_rows f after d))"
    by (rule map_err_total)
  then show ?thesis
    by (simp add: list_on_def)
qed

lemma list_after_ok:
  "db_wf d \<Longrightarrow> list_after n f d = Inr (map row_job (list_rows f (Some n) d),
     if list_rows f (Some n) d = [] then n else c_rev (last (list_rows f (Some n) d)))"
  by (simp add: list_after_def list_on_ok last_map)

section \<open>No change falls behind the cursor\<close>

lemma sorted_take_below:
  assumes "sorted (map f xs)" and "distinct (map f xs)" and "x \<in> set xs" and "take n xs \<noteq> []"
    and "f x \<le> f (last (take n xs))"
  shows "x \<in> set (take n xs)"
proof (rule ccontr)
  assume "x \<notin> set (take n xs)"
  with assms(3) have drop: "x \<in> set (drop n xs)"
    by (metis Un_iff append_take_drop_id set_append)
  have "map f xs = map f (take n xs) @ map f (drop n xs)"
    by (metis append_take_drop_id map_append)
  then have "\<forall>a \<in> set (map f (take n xs)). \<forall>b \<in> set (map f (drop n xs)). a \<le> b \<and> a \<noteq> b"
    using assms(1,2) by (auto simp: sorted_append dest: disjoint_iff [THEN iffD1])
  then have "f (last (take n xs)) \<le> f x" and "f (last (take n xs)) \<noteq> f x"
    using drop last_in_set [OF assms(4)] by simp_all
  with assms(5) show False by simp
qed

lemma sorted_map_last: "sorted (map f xs) \<Longrightarrow> x \<in> set xs \<Longrightarrow> f x \<le> f (last xs)"
  by (induction xs) auto

text \<open>
  The rows of a read: exactly the matching ones with a number above the cursor and up to the new one,
  each once, in the order of their numbers.
\<close>

lemma list_rows_after:
  assumes wf: "db_wf d" and ne: "list_rows f (Some n) d \<noteq> []"
  shows "set (list_rows f (Some n) d) =
      {r \<in> set (db_jobs d). n < c_rev r \<and> c_rev r \<le> c_rev (last (list_rows f (Some n) d)) \<and> filter_matches f r}"
    and "sorted_wrt (<) (map c_rev (list_rows f (Some n) d))"
proof -
  define all where "all = sort_key c_rev (filter (\<lambda>r. n < c_rev r \<and> filter_matches f r) (db_jobs d))"
  define k where "k = (if f_limit f > 0 then nat (f_limit f) else length all)"
  have rows: "list_rows f (Some n) d = take k all"
    by (simp add: list_rows_def all_def k_def limited_def)
  have sorted: "sorted (map c_rev all)"
    by (simp add: all_def)
  have "distinct (map c_rev (filter (\<lambda>r. n < c_rev r \<and> filter_matches f r) (db_jobs d)))"
    using unique_by_filter [of c_rev "db_jobs d"] wf by (simp add: db_wf_def unique_by_def)
  then have dist: "distinct (map c_rev all)"
    by (simp add: all_def distinct_map)
  have mem: "x \<in> set all \<longleftrightarrow> x \<in> set (db_jobs d) \<and> n < c_rev x \<and> filter_matches f x" for x
    by (simp add: all_def)
  have le: "c_rev x \<le> c_rev (last (take k all))" if "x \<in> set (take k all)" for x
  proof -
    have "sorted (map c_rev (take k all))"
      using sorted by (simp add: take_map [symmetric] sorted_wrt_take)
    then show ?thesis
      using that by (rule sorted_map_last)
  qed
  show "set (list_rows f (Some n) d) =
      {r \<in> set (db_jobs d). n < c_rev r \<and> c_rev r \<le> c_rev (last (list_rows f (Some n) d)) \<and> filter_matches f r}"
    unfolding rows using sorted_take_below [OF sorted dist] ne [unfolded rows] le mem
    by (auto dest: in_set_takeD)
  show "sorted_wrt (<) (map c_rev (list_rows f (Some n) d))"
    unfolding rows using sorted dist
    by (simp add: strict_sorted_iff take_map [symmetric] sorted_wrt_take distinct_take)
qed

lemma list_rows_after_empty:
  "list_rows f (Some n) d = [] \<longleftrightarrow> (\<forall>r \<in> set (db_jobs d). n < c_rev r \<longrightarrow> \<not> filter_matches f r)"
proof -
  have sort_Nil: "sort_key c_rev xs = [] \<longleftrightarrow> xs = []" for xs
    by (metis set_empty set_sort)
  show ?thesis
    by (simp add: list_rows_def limited_def sort_Nil filter_empty_conv)
qed

text \<open>A job that looks different after a change of the tables is in what a read from the old head returns.\<close>

lemma evolves_visible_change:
  assumes wf: "db_wf d" and ev: "evolves d d'" and wf': "db_wf d'" and r': "find_job jid d' = Some r'"
    and changed: "view d' jid \<noteq> view d jid"
  shows "db_rev d < c_rev r'"
proof -
  have mem: "r' \<in> set (db_jobs d')" "c_id r' = jid"
    using find_job_Some [OF r'] by simp_all
  show ?thesis
    using ev mem(1)
  proof (cases rule: evolves_cases)
    case (step r)
    then have "find_job jid d = Some r"
      using find_job_unique [OF wf step(1)] mem(2) by (simp add: row_step_def)
    then show ?thesis
      using changed step(2) r' by (auto simp: view_def row_step_def)
  qed
qed

end
