(* ===== verification/JobId.thy ===== *)
theory JobId
  imports Submit "HOL-Library.Word" "HOL-Library.Char_ord" "HOL-Library.List_Lexorder"
begin

text \<open>
  The ids of jobs (\<open>newJobID\<close> of \<open>internal/wwd/queue/id.go\<close>): ten base-32 digits of the clock, most
  significant first, and sixteen of the ten random bytes, taken five bits at a time from a 32-bit
  accumulator. The lemmas read the digits back, so ids are unique and sort by time.
\<close>

unbundle bit_operations_syntax

section \<open>The id\<close>

definition crockford :: string where
  "crockford = ''0123456789ABCDEFGHJKMNPQRSTVWXYZ''"

text \<open>The loop over \<open>out[9]\<close> down to \<open>out[0]\<close>: the low five bits, then a shift.\<close>

primrec time_digits :: "nat \<Rightarrow> 64 word \<Rightarrow> nat list" where
  "time_digits 0 t = []"
| "time_digits (Suc n) t = time_digits n (drop_bit 5 t) @ [unat (t AND 31)]"

text \<open>The inner loop: while five bits are there, the highest five of them.\<close>

fun drain :: "32 word \<Rightarrow> nat \<Rightarrow> nat list \<times> nat" where
  "drain acc bits =
     (if bits \<ge> 5
      then (case drain acc (bits - 5) of (ds, rest) \<Rightarrow> (unat (drop_bit (bits - 5) acc AND 31) # ds, rest))
      else ([], bits))"

primrec rand_digits :: "8 word list \<Rightarrow> 32 word \<Rightarrow> nat \<Rightarrow> nat list" where
  "rand_digits [] acc bits = []"
| "rand_digits (b # bs) acc bits =
     (let acc' = push_bit 8 acc OR ucast b
      in case drain acc' (bits + 8) of (ds, rest) \<Rightarrow> ds @ rand_digits bs acc' rest)"

definition new_job_id :: "64 word \<Rightarrow> 8 word list \<Rightarrow> string" where
  "new_job_id now_ms rnd = ''j_'' @ map (\<lambda>n. crockford ! n) (time_digits 10 now_ms @ rand_digits rnd 0 0)"

section \<open>Reading the digits back\<close>

definition base32 :: "nat list \<Rightarrow> nat" where
  "base32 ds = foldl (\<lambda>n d. 32 * n + d) 0 ds"

definition base256 :: "8 word list \<Rightarrow> nat" where
  "base256 bs = foldl (\<lambda>n b. 256 * n + unat b) 0 bs"

lemma foldl_base32: "foldl (\<lambda>n d. 32 * n + d) m ds = m * 32 ^ length ds + base32 ds"
proof (induction ds arbitrary: m)
  case (Cons d ds)
  show ?case
    using Cons [of "32 * m + d"] Cons [of d] by (simp add: base32_def algebra_simps)
qed (simp add: base32_def)

lemma base32_simps [simp]:
  "base32 [] = 0" "base32 (d # ds) = d * 32 ^ length ds + base32 ds" "base32 (ds @ [d]) = 32 * base32 ds + d"
  "base32 (ds @ es) = base32 ds * 32 ^ length es + base32 es"
  using foldl_base32 [of d ds] foldl_base32 [of "base32 ds" es] by (simp_all add: base32_def)

lemma unat_and_31: "unat (w AND (31 :: 'a :: len word)) = unat w mod 32"
proof -
  have m: "(31 :: 'a word) = mask 5"
    by (simp add: mask_eq_exp_minus_1)
  have "unat (w AND mask 5) = take_bit 5 (unat w)"
    unfolding take_bit_eq_mask [symmetric] unsigned_take_bit_eq ..
  then show ?thesis
    unfolding m by (simp add: take_bit_eq_mod)
qed

lemma time_digits_length [simp]: "length (time_digits n t) = n"
  by (induction n arbitrary: t) simp_all

lemma time_digits_base32: "base32 (time_digits n t) = unat t mod 32 ^ n"
proof (induction n arbitrary: t)
  case (Suc n)
  have "base32 (time_digits (Suc n) t) = 32 * (unat t div 32 mod 32 ^ n) + unat t mod 32"
    by (simp add: Suc unat_and_31 unat_div drop_bit_eq_div)
  also have "\<dots> = unat t mod 32 ^ Suc n"
    by (simp add: mod_mult2_eq)
  finally show ?case .
qed simp

lemma time_digits_small: "d \<in> set (time_digits n t) \<Longrightarrow> d < 32"
  by (induction n arbitrary: t) (auto simp: unat_and_31)

declare drain.simps [simp del]

lemma drain_spec:
  "drain acc bits = (ds, rest) \<Longrightarrow>
   rest < 5 \<and> bits = 5 * length ds + rest \<and> (\<forall>d \<in> set ds. d < 32)
   \<and> unat acc mod 2 ^ bits = base32 ds * 2 ^ rest + unat acc mod 2 ^ rest"
proof (induction acc bits arbitrary: ds rule: drain.induct)
  case (1 acc bits)
  show ?case
  proof (cases "bits \<ge> 5")
    case False
    then show ?thesis
      using 1(2) by (simp add: drain.simps [of acc bits])
  next
    case True
    then obtain es where es: "drain acc (bits - 5) = (es, rest)" "ds = unat (drop_bit (bits - 5) acc AND 31) # es"
      using 1(2) by (auto simp: drain.simps [of acc bits] split: prod.splits)
    note IH = 1(1) [OF True es(1)]
    define k where "k = bits - 5"
    define q where "q = unat acc div 2 ^ k mod 32"
    have ds: "ds = q # es"
      using es(2) unat_drop_bit_eq [of k acc] by (simp add: unat_and_31 q_def k_def drop_bit_eq_div)
    have bits: "bits = k + 5" and k: "k = 5 * length es + rest"
      using True IH unfolding k_def by linarith+
    have "(2 :: nat) ^ k = 32 ^ length es * 2 ^ rest"
      by (simp add: k power_add power_mult)
    moreover have "unat acc mod 2 ^ bits = q * 2 ^ k + unat acc mod 2 ^ k"
      using mod_mult2_eq [of "unat acc" "2 ^ k" 32] by (simp add: bits power_add mult.commute q_def)
    moreover have "q < 32" by (simp add: q_def)
    ultimately show ?thesis
      using IH by (simp add: ds bits k [symmetric] k_def [symmetric] algebra_simps)
  qed
qed

lemma unat_shift_in:
  fixes acc :: "32 word" and b :: "8 word"
  assumes "bits \<le> 24"
  shows "unat (push_bit 8 acc OR ucast b) mod 2 ^ (bits + 8) = (unat acc mod 2 ^ bits) * 256 + unat b"
proof -
  have b: "take_bit 8 (unat b) = unat b"
  proof -
    have "unat b < 2 ^ LENGTH(8)" by (rule unsigned_less)
    then show ?thesis by (simp add: take_bit_nat_eq_self)
  qed
  have "take_bit (bits + 8) (unat (push_bit 8 acc OR ucast b)) =
      push_bit 8 (take_bit bits (unat acc)) OR unat b"
    by (rule bit_eqI) (use assms in \<open>auto simp: bit_simps b dest: bit_imp_le_length\<close>)
  also have "\<dots> = push_bit 8 (take_bit bits (unat acc)) + unat b"
  proof (rule disjunctive_add_eq_or [symmetric])
    have "push_bit 8 (take_bit bits (unat acc)) AND take_bit 8 (unat b) = 0"
      by (rule bit_eqI) (auto simp: bit_simps)
    then show "push_bit 8 (take_bit bits (unat acc)) AND unat b = 0"
      unfolding b .
  qed
  finally show ?thesis
    by (simp add: take_bit_eq_mod push_bit_eq_mult)
qed

lemma base256_Cons: "base256 (b # bs) = unat b * 256 ^ length bs + base256 bs"
proof -
  have "foldl (\<lambda>n b. 256 * n + unat b) m bs = m * 256 ^ length bs + base256 bs" for m and bs :: "8 word list"
  proof (induction bs arbitrary: m)
    case (Cons b bs)
    show ?case
      using Cons [of "256 * m + unat b"] Cons [of "unat b"] by (simp add: base256_def algebra_simps)
  qed (simp add: base256_def)
  from this [of "unat b" bs] show ?thesis by (simp add: base256_def)
qed

lemma rand_digits_spec:
  "bits < 5 \<Longrightarrow>
   \<exists>rest low. low < 2 ^ rest \<and> rest < 5 \<and> bits + 8 * length bs = 5 * length (rand_digits bs acc bits) + rest
    \<and> (\<forall>d \<in> set (rand_digits bs acc bits). d < 32)
    \<and> (unat acc mod 2 ^ bits) * 256 ^ length bs + base256 bs = base32 (rand_digits bs acc bits) * 2 ^ rest + low"
proof (induction bs arbitrary: acc bits)
  case Nil
  then show ?case
    by (intro exI [of _ bits] exI [of _ "unat acc mod 2 ^ bits"]) (simp add: base256_def)
next
  case (Cons b bs)
  define acc' where "acc' = push_bit 8 acc OR ucast b"
  obtain ds rest where dr: "drain acc' (bits + 8) = (ds, rest)"
    by (cases "drain acc' (bits + 8)")
  note D = drain_spec [OF dr]
  then obtain r2 low where IH: "low < 2 ^ r2" "r2 < 5" "rest + 8 * length bs = 5 * length (rand_digits bs acc' rest) + r2"
      "\<forall>d \<in> set (rand_digits bs acc' rest). d < 32"
      "(unat acc' mod 2 ^ rest) * 256 ^ length bs + base256 bs = base32 (rand_digits bs acc' rest) * 2 ^ r2 + low"
    using Cons.IH [of rest acc'] by blast
  let ?es = "rand_digits bs acc' rest"
  have all: "rand_digits (b # bs) acc bits = ds @ ?es"
    by (simp add: acc'_def [symmetric] dr)
  have scale: "(2 :: nat) ^ rest * 256 ^ length bs = 32 ^ length ?es * 2 ^ r2"
  proof -
    have "(2 :: nat) ^ rest * 256 ^ length bs = 2 ^ (rest + 8 * length bs)"
      by (simp add: power_add power_mult)
    also have "\<dots> = 32 ^ length ?es * 2 ^ r2"
      unfolding IH(3) by (simp add: power_add power_mult)
    finally show ?thesis .
  qed
  have "(unat acc mod 2 ^ bits) * 256 ^ length (b # bs) + base256 (b # bs) =
      ((unat acc mod 2 ^ bits) * 256 + unat b) * 256 ^ length bs + base256 bs"
    by (simp add: base256_Cons algebra_simps)
  also have "(unat acc mod 2 ^ bits) * 256 + unat b = base32 ds * 2 ^ rest + unat acc' mod 2 ^ rest"
    using D Cons.prems unat_shift_in [of bits acc b] by (simp add: acc'_def)
  also have "(base32 ds * 2 ^ rest + unat acc' mod 2 ^ rest) * 256 ^ length bs + base256 bs =
      base32 ds * (2 ^ rest * 256 ^ length bs) + (base32 ?es * 2 ^ r2 + low)"
    unfolding IH(5) [symmetric] by (simp add: algebra_simps)
  also have "\<dots> = base32 (ds @ ?es) * 2 ^ r2 + low"
    unfolding scale by (simp add: algebra_simps)
  finally show ?case
    unfolding all using IH(1-4) D by (intro exI [of _ r2] exI [of _ low]) auto
qed

text \<open>Ten random bytes are sixteen digits, and nothing of them is lost.\<close>

lemma rand_digits_10:
  assumes "length bs = 10"
  shows "length (rand_digits bs 0 0) = 16" and "\<forall>d \<in> set (rand_digits bs 0 0). d < 32"
    and "base32 (rand_digits bs 0 0) = base256 bs"
proof -
  obtain rest low where "low < 2 ^ rest" "rest < 5" and len: "80 = 5 * length (rand_digits bs 0 0) + rest"
    and small: "\<forall>d \<in> set (rand_digits bs 0 0). d < 32" and v: "base256 bs = base32 (rand_digits bs 0 0) * 2 ^ rest + low"
    using rand_digits_spec [of 0 bs 0] assms by auto
  moreover have "rest = 0"
    using len \<open>rest < 5\<close> by presburger
  ultimately show "length (rand_digits bs 0 0) = 16" and "\<forall>d \<in> set (rand_digits bs 0 0). d < 32"
    and "base32 (rand_digits bs 0 0) = base256 bs"
    by simp_all
qed

section \<open>Digits and characters\<close>

lemma crockford_length [simp]: "length crockford = 32"
  by (simp add: crockford_def)

lemma crockford_sorted: "sorted_wrt (<) crockford"
  by (simp add: crockford_def less_char_def)

lemma crockford_less: "a < 32 \<Longrightarrow> b < 32 \<Longrightarrow> crockford ! a < crockford ! b \<longleftrightarrow> a < b"
  using sorted_wrt_nth_less [OF crockford_sorted]
  by (metis crockford_length linorder_neqE_nat order_less_asym' order_less_irrefl)

lemma crockford_inj: "a < 32 \<Longrightarrow> b < 32 \<Longrightarrow> crockford ! a = crockford ! b \<longleftrightarrow> a = b"
  using crockford_less [of a b] crockford_less [of b a] by (metis linorder_neqE_nat order_less_irrefl)

lemma base32_bound: "\<forall>d \<in> set ds. d < 32 \<Longrightarrow> base32 ds < 32 ^ length ds"
proof (induction ds rule: rev_induct)
  case (snoc d ds)
  then have "base32 ds < 32 ^ length ds" "d < 32" by auto
  then show ?case by simp
qed simp

lemma base32_inj:
  "length ds = length es \<Longrightarrow> \<forall>d \<in> set ds. d < 32 \<Longrightarrow> \<forall>d \<in> set es. d < 32 \<Longrightarrow> base32 ds = base32 es \<Longrightarrow> ds = es"
proof (induction ds es rule: rev_induct2)
  case (4 d ds e es)
  then have "32 * base32 ds + d = 32 * base32 es + e" "d < 32" "e < 32" by auto
  then have "(32 * base32 ds + d) div 32 = (32 * base32 es + e) div 32" "(32 * base32 ds + d) mod 32 = (32 * base32 es + e) mod 32"
    by simp_all
  with \<open>d < 32\<close> \<open>e < 32\<close> have "base32 ds = base32 es" "d = e" by simp_all
  with 4 show ?case by auto
qed auto

text \<open>Strings of the same number of digits compare as the numbers do.\<close>

lemma base32_less:
  assumes "length ds = length es" and "\<forall>d \<in> set ds. d < 32" and "\<forall>d \<in> set es. d < 32" and "base32 ds < base32 es"
  shows "map (\<lambda>n. crockford ! n) (ds @ xs) < map (\<lambda>n. crockford ! n) (es @ ys)"
  using assms
proof (induction ds es rule: list_induct2)
  case (Cons d ds e es)
  then have b: "base32 ds < 32 ^ length es" "base32 es < 32 ^ length es" and de: "d < 32" "e < 32"
    using base32_bound [of ds] base32_bound [of es] by auto
  have lt: "d * 32 ^ length es + base32 ds < e * 32 ^ length es + base32 es"
    using Cons.prems Cons.hyps by simp
  have "d \<le> e"
  proof (rule ccontr)
    assume "\<not> d \<le> e"
    then have "(e + 1) * 32 ^ length es \<le> d * 32 ^ length es"
      by (intro mult_right_mono) auto
    with lt b show False by simp
  qed
  then consider "d < e" | "d = e" by linarith
  then show ?case
  proof cases
    case 1
    then show ?thesis using crockford_less [OF de] by simp
  next
    case 2
    then show ?thesis using Cons lt by simp
  qed
qed simp

lemma crockford_not_slash: "n < 32 \<Longrightarrow> crockford ! n \<noteq> CHR ''/''"
proof -
  have "CHR ''/'' \<notin> set crockford" by (simp add: crockford_def)
  then show "n < 32 \<Longrightarrow> crockford ! n \<noteq> CHR ''/''" by (metis crockford_length nth_mem)
qed

lemma new_job_id_ok: "length rnd = 10 \<Longrightarrow> id_ok (new_job_id t rnd)"
  using rand_digits_10 [of rnd] time_digits_small [of _ 10 t] crockford_not_slash
  by (force simp: id_ok_def new_job_id_def has_slash_def)

end
