(* ===== verification/Effects.thy ===== *)
theory Effects
  imports Reads JobId
begin

text \<open>
  What the queue promises outside its tables: a job that has not ended keeps the ref that pins its
  snapshot, and a log the table knows is on disk in full. Both are invariants of the whole state (the
  tables, the refs, the files). A transaction that neither makes nor pins rows nor touches logs is
  checked through one locale, \<open>quiet_tx\<close>, which extends the contract of a transaction body.
\<close>

section \<open>The invariants\<close>

definition pins_ok :: "queue_state \<Rightarrow> bool" where
  "pins_ok st \<longleftrightarrow> (\<forall>k r. find_job k (q_db st) = Some r \<longrightarrow> c_pinned r \<longrightarrow> \<not> terminal (c_state r) \<longrightarrow>
     q_refs st (s_git_dir (c_sub r), k) = Some (snap_commit (s_snapshot (c_sub r))))"

definition logs_ok :: "queue_state \<Rightarrow> bool" where
  "logs_ok st \<longleftrightarrow> (\<forall>k r n. find_job k (q_db st) = Some r \<longrightarrow> c_log_size r = Some n \<longrightarrow>
     (\<exists>body. q_logs st k = Some body \<and> int (length body) = n))"

text \<open>A change of the tables that makes no obligation: old rows keep their log, and none becomes pinned.\<close>

definition side_step :: "db \<Rightarrow> db \<Rightarrow> bool" where
  "side_step d d' \<longleftrightarrow> (\<forall>k r'. find_job k d' = Some r' \<longrightarrow>
     (c_log_size r' = None \<and> \<not> c_pinned r')
     \<or> (\<exists>r. find_job k d = Some r \<and> c_seq r' = c_seq r \<and> c_log_size r' = c_log_size r \<and> (c_pinned r' \<longrightarrow> c_pinned r)))"

lemma side_step_refl [simp]: "side_step d d"
  by (simp add: side_step_def)

lemma side_stepE:
  assumes "side_step d d'" and "find_job k d' = Some r'"
  obtains (fresh) "c_log_size r' = None" and "\<not> c_pinned r'"
  | (old) r where "find_job k d = Some r" and "c_seq r' = c_seq r" and "c_log_size r' = c_log_size r"
      and "c_pinned r' \<longrightarrow> c_pinned r"
  using assms(1) [unfolded side_step_def, rule_format, OF assms(2)] by (elim disjE exE conjE) (rule fresh old; assumption)+

lemma side_stepI:
  assumes "\<And>k r'. find_job k d' = Some r' \<Longrightarrow> (c_log_size r' = None \<and> \<not> c_pinned r')
     \<or> (\<exists>r. find_job k d = Some r \<and> c_seq r' = c_seq r \<and> c_log_size r' = c_log_size r \<and> (c_pinned r' \<longrightarrow> c_pinned r))"
  shows "side_step d d'"
  unfolding side_step_def by (intro allI impI assms)

lemma side_step_trans:
  assumes "side_step d d1" and "side_step d1 d2"
  shows "side_step d d2"
proof (rule side_stepI)
  fix k r2 assume r2: "find_job k d2 = Some r2"
  from assms(2) r2 show "(c_log_size r2 = None \<and> \<not> c_pinned r2)
     \<or> (\<exists>r. find_job k d = Some r \<and> c_seq r2 = c_seq r \<and> c_log_size r2 = c_log_size r \<and> (c_pinned r2 \<longrightarrow> c_pinned r))"
  proof (cases rule: side_stepE)
    case (old r1)
    note second = old
    from assms(1) old(1) show ?thesis
      by (cases rule: side_stepE) (use second in auto)
  qed simp
qed

lemma side_step_same: "(\<And>k. find_job k d' = find_job k d) \<Longrightarrow> side_step d d'"
  by (simp add: side_step_def)

lemma side_step_update:
  assumes "\<And>r. c_id (f r) = c_id r" and "\<And>r. c_seq (f r) = c_seq r" and "\<And>r. c_log_size (f r) = c_log_size r"
    and "\<And>r. c_pinned (f r) \<Longrightarrow> c_pinned r"
  shows "side_step d (update_job cols jid f d)"
proof (rule side_stepI)
  fix k r' assume r': "find_job k (update_job cols jid f d) = Some r'"
  show "(c_log_size r' = None \<and> \<not> c_pinned r')
     \<or> (\<exists>r. find_job k d = Some r \<and> c_seq r' = c_seq r \<and> c_log_size r' = c_log_size r \<and> (c_pinned r' \<longrightarrow> c_pinned r))"
  proof (cases "k = jid")
    case True
    with r' obtain r where "find_job k d = Some r" "r' = (if fires cols then (f r)\<lparr>c_rev := db_rev d + 1\<rparr> else f r)"
      using assms(1) by (auto simp: find_update_job)
    then show ?thesis using assms(2-4) by auto
  next
    case False
    with r' show ?thesis using assms(1) by (simp add: find_update_job)
  qed
qed

lemma evolves_row:
  assumes wf: "db_wf d" "db_wf d'" and ev: "evolves d d'" and r: "find_job k d = Some r" and r': "find_job k d' = Some r'"
    and seq: "c_seq r' = c_seq r"
  shows "row_step (db_rev d) r r'"
proof -
  have mem: "r' \<in> set (db_jobs d')" "c_id r' = k" "r \<in> set (db_jobs d)"
    using find_job_Some [OF r'] find_job_Some [OF r] by simp_all
  show ?thesis
    using ev mem(1)
  proof (cases rule: evolves_cases)
    case (step s)
    then have "find_job k d = Some s"
      using find_job_unique [OF wf(1) step(1)] mem(2) by (simp add: row_step_def)
    with r step show ?thesis by simp
  next
    case new
    then show ?thesis using seq db_wf_row [OF wf(1) mem(3)] by simp
  qed
qed

lemma row_step_ended: "row_step h r r' \<Longrightarrow> terminal (c_state r) \<Longrightarrow> c_state r' = c_state r"
  by (simp add: row_step_def lifecycle_star_terminal)

lemma pin_kept:
  assumes "db_wf (q_db st)" and "safe_change (q_db st) (q_db st')" and ok: "pins_ok st"
    and r: "find_job k (q_db st) = Some r" and r': "find_job k (q_db st') = Some r'" and seq: "c_seq r' = c_seq r"
    and p: "c_pinned r' \<longrightarrow> c_pinned r" "c_pinned r'" and live: "\<not> terminal (c_state r')"
    and refs: "q_refs st' (s_git_dir (c_sub r'), k) = q_refs st (s_git_dir (c_sub r'), k)"
  shows "q_refs st' (s_git_dir (c_sub r'), k) = Some (snap_commit (s_snapshot (c_sub r')))"
proof -
  have step: "row_step (db_rev (q_db st)) r r'"
    using assms(1,2) r seq r' by (intro evolves_row) (auto simp: safe_change_def)
  have "\<not> terminal (c_state r)"
    using live row_step_ended [OF step] by auto
  moreover have sub: "c_sub r' = c_sub r"
    using step by (simp add: row_step_def)
  ultimately have "q_refs st (s_git_dir (c_sub r), k) = Some (snap_commit (s_snapshot (c_sub r)))"
    using ok r p unfolding pins_ok_def by blast
  then show ?thesis
    using refs sub by simp
qed

lemma pins_ok_step:
  assumes "db_wf (q_db st)" and "safe_change (q_db st) (q_db st')" and "side_step (q_db st) (q_db st')"
    and ok: "pins_ok st"
    and refs: "\<And>k r. find_job k (q_db st') = Some r \<Longrightarrow> \<not> terminal (c_state r) \<Longrightarrow> q_refs st' (s_git_dir (c_sub r), k) = q_refs st (s_git_dir (c_sub r), k)"
  shows "pins_ok st'"
  unfolding pins_ok_def
proof (intro allI impI)
  fix k r'
  assume r': "find_job k (q_db st') = Some r'" and p: "c_pinned r'" and live: "\<not> terminal (c_state r')"
  from assms(3) r' show "q_refs st' (s_git_dir (c_sub r'), k) = Some (snap_commit (s_snapshot (c_sub r')))"
  proof (cases rule: side_stepE)
    case (old r)
    show ?thesis
      using pin_kept [OF assms(1,2) ok old(1) r' old(2,4) p live refs [OF r' live]] .
  qed (use p in simp)
qed

lemma logs_ok_step:
  assumes "side_step (q_db st) (q_db st')" and "logs_ok st" and "q_logs st' = q_logs st"
  shows "logs_ok st'"
  unfolding logs_ok_def
proof (intro allI impI)
  fix k r' n
  assume r': "find_job k (q_db st') = Some r'" and n: "c_log_size r' = Some n"
  from assms(1) r' show "\<exists>body. q_logs st' k = Some body \<and> int (length body) = n"
  proof (cases rule: side_stepE)
    case (old r)
    then show ?thesis using assms(2,3) n unfolding logs_ok_def by auto
  qed (use n in simp)
qed

section \<open>Releasing pins keeps them\<close>

lemma find_forget_pin [simp]: "find_job k (forget_pin jid d) = find_job k d"
  by (simp add: forget_pin_def find_job_def)

lemma find_clear_pinned:
  "find_job k (clear_pinned jid d) =
    (if k = jid then map_option (\<lambda>r. r\<lparr>c_pinned := False\<rparr>) (find_job jid d) else find_job k d)"
  by (simp add: clear_pinned_def find_update_job)

lemma pinner_ok_laws:
  assumes "pinner_ok p"
  shows "fst (pin_op p dir jid cm R) \<Longrightarrow> snd (pin_op p dir jid cm R) (dir, jid) = Some cm"
    and "R k = Some c \<Longrightarrow> snd (pin_op p dir jid cm R) k = Some c"
    and "snd k \<noteq> jid \<Longrightarrow> snd (pin_op p dir jid cm R) k = R k"
    and "snd k \<noteq> jid \<Longrightarrow> snd (unpin_op p dir jid R) k = R k"
  using pinner_laws.pin_sets pinner_laws.pin_keeps pinner_laws.pin_local pinner_laws.unpin_local assms
  unfolding pinner_ok_def by metis+

text \<open>What one round of the release does: only the pin of its own job is touched.\<close>

lemma settle_one_cases:
  assumes "settle_one opt p (jid, dir) (d, R, n, m) = (d', R', n', m')"
  obtains "d' = d" and "R' = snd (unpin_op p dir jid R)"
  | "d' = forget_pin jid (clear_pinned jid d)" and "R' = R \<or> R' = snd (unpin_op p dir jid R)"
  using assms by (auto split: if_splits prod.splits bool.splits)

lemma settle_one_side:
  assumes "settle_one opt p (jid, dir) (d, R, n, m) = (d', R', n', m')"
  shows "side_step d d'"
  using assms
proof (cases rule: settle_one_cases)
  case 2
  have "side_step d (clear_pinned jid d)"
    unfolding clear_pinned_def by (rule side_step_update) simp_all
  moreover have "side_step (clear_pinned jid d) d'"
    by (rule side_step_same) (simp add: 2)
  ultimately show ?thesis by (rule side_step_trans)
qed simp

lemma settle_one_state:
  assumes "settle_one opt p (jid, dir) (d, R, n, m) = (d', R', n', m')" and "find_job k d' = Some r'"
  shows "\<exists>r. find_job k d = Some r \<and> c_state r' = c_state r"
  using assms(1)
proof (cases rule: settle_one_cases)
  case 1
  then show ?thesis using assms(2) by simp
next
  case 2
  then show ?thesis using assms(2) by (auto simp: find_clear_pinned split: if_splits)
qed

lemma settle_one_refs:
  assumes "pinner_ok p" and "settle_one opt p (jid, dir) (d, R, n, m) = (d', R', n', m')" and "k \<noteq> jid"
  shows "R' (e, k) = R (e, k)"
  using assms(2)
proof (cases rule: settle_one_cases)
  case 1
  then show ?thesis using pinner_ok_laws(4) [OF assms(1), of "(e, k)" jid] assms(3) by simp
next
  case 2
  then show ?thesis using pinner_ok_laws(4) [OF assms(1), of "(e, k)" jid dir R] assms(3) by auto
qed

lemma settle_fold_keeps:
  assumes "pinner_ok p" and "fold (settle_one opt p) xs (d, R, n, m) = (d', R', n', m')"
    and "\<forall>x \<in> set xs. \<forall>r. find_job (fst x) d = Some r \<longrightarrow> terminal (c_state r)"
  shows "side_step d d'"
    and "find_job k d' = Some r' \<Longrightarrow> \<not> terminal (c_state r') \<Longrightarrow> R' (e, k) = R (e, k)"
proof -
  have "side_step d d' \<and> (\<forall>r'. find_job k d' = Some r' \<longrightarrow>
      (\<exists>r. find_job k d = Some r \<and> c_state r' = c_state r) \<and> (\<not> terminal (c_state r') \<longrightarrow> R' (e, k) = R (e, k)))"
    using assms(2,3)
  proof (induction xs arbitrary: d R n m)
    case (Cons x xs)
    obtain jid dir where x: "x = (jid, dir)" by (cases x)
    obtain d1 R1 n1 m1 where s1: "settle_one opt p (jid, dir) (d, R, n, m) = (d1, R1, n1, m1)"
      by (metis prod_cases4)
    have rest: "fold (settle_one opt p) xs (d1, R1, n1, m1) = (d', R', n', m')"
      using Cons.prems(1) s1 x by simp
    have "terminal (c_state r)" if y: "y \<in> set xs" "find_job (fst y) d1 = Some r" for y r
    proof -
      obtain r0 where "find_job (fst y) d = Some r0" "c_state r = c_state r0"
        using settle_one_state [OF s1 y(2)] by blast
      then show ?thesis using Cons.prems(2) y(1) by simp
    qed
    then have "\<forall>y \<in> set xs. \<forall>r. find_job (fst y) d1 = Some r \<longrightarrow> terminal (c_state r)"
      by blast
    note IH = Cons.IH [OF rest this]
    have "side_step d d'"
      using settle_one_side [OF s1] IH by (blast intro: side_step_trans)
    moreover have "(\<exists>r. find_job k d = Some r \<and> c_state r' = c_state r) \<and> (\<not> terminal (c_state r') \<longrightarrow> R' (e, k) = R (e, k))"
      if r': "find_job k d' = Some r'" for r'
    proof -
      obtain r1 where r1: "find_job k d1 = Some r1" "c_state r' = c_state r1" and refs: "\<not> terminal (c_state r') \<Longrightarrow> R' (e, k) = R1 (e, k)"
        using IH r' by blast
      obtain r where r: "find_job k d = Some r" "c_state r1 = c_state r"
        using settle_one_state [OF s1 r1(1)] by blast
      have "k \<noteq> jid" if "\<not> terminal (c_state r')"
        using Cons.prems(2) r r1(2) that x by auto
      then show ?thesis
        using r r1(2) refs settle_one_refs [OF assms(1) s1, of k e] by auto
    qed
    ultimately show ?case by blast
  qed simp
  then show "side_step d d'" and "find_job k d' = Some r' \<Longrightarrow> \<not> terminal (c_state r') \<Longrightarrow> R' (e, k) = R (e, k)"
    by blast+
qed

definition pinner_good :: "options \<Rightarrow> bool" where
  "pinner_good opt \<longleftrightarrow> (case o_pinner opt of None \<Rightarrow> True | Some p \<Rightarrow> pinner_ok p)"

lemma settle_pins_keeps:
  assumes good: "pinner_good opt" and wf: "db_wf (q_db st)"
  shows "side_step (q_db st) (q_db (fst (settle_pins opt st)))"
    and "pins_ok st \<Longrightarrow> pins_ok (fst (settle_pins opt st))" and "logs_ok st \<Longrightarrow> logs_ok (fst (settle_pins opt st))"
proof -
  let ?st' = "fst (settle_pins opt st)"
  have "side_step (q_db st) (q_db ?st') \<and> (\<forall>e k r'. find_job k (q_db ?st') = Some r' \<longrightarrow> \<not> terminal (c_state r') \<longrightarrow>
      q_refs ?st' (e, k) = q_refs st (e, k))"
  proof (cases "o_pinner opt")
    case (Some p)
    obtain d R n m where f: "fold (settle_one opt p) (settle_todo (q_db st)) (q_db st, q_refs st, 0, 0) = (d, R, n, m)"
      by (metis prod_cases4)
    have ended: "terminal (c_state r)" if "x \<in> set (settle_todo (q_db st))" "find_job (fst x) (q_db st) = Some r" for x r
    proof -
      obtain s where s: "s \<in> set (db_jobs (q_db st))" "pinned_ended s" "fst x = c_id s"
        using \<open>x \<in> set (settle_todo (q_db st))\<close> by (auto simp: settle_todo_def dest!: in_set_takeD)
      then show ?thesis
        using find_job_unique [OF wf s(1)] that(2) by (simp add: pinned_ended_def)
    qed
    have "pinner_ok p" using good Some by (simp add: pinner_good_def)
    moreover have "\<forall>x \<in> set (settle_todo (q_db st)). \<forall>r. find_job (fst x) (q_db st) = Some r \<longrightarrow> terminal (c_state r)"
      using ended by blast
    ultimately have keeps: "side_step (q_db st) d"
        "\<And>e k r'. find_job k d = Some r' \<Longrightarrow> \<not> terminal (c_state r') \<Longrightarrow> R (e, k) = q_refs st (e, k)"
      using settle_fold_keeps [OF _ f] by blast+
    have "q_db ?st' = d" "q_refs ?st' = R"
      using Some f by (simp_all add: settle_pins_def)
    then show ?thesis using keeps by blast
  qed (simp add: settle_pins_def)
  then have side: "side_step (q_db st) (q_db ?st')" and refs: "\<And>e k r'. find_job k (q_db ?st') = Some r' \<Longrightarrow>
      \<not> terminal (c_state r') \<Longrightarrow> q_refs ?st' (e, k) = q_refs st (e, k)"
    by blast+
  show "side_step (q_db st) (q_db ?st')" by (rule side)
  show "pins_ok st \<Longrightarrow> pins_ok ?st'"
    using pins_ok_step [OF wf settle_pins_safe [OF wf] side] refs by blast
  show "logs_ok st \<Longrightarrow> logs_ok ?st'"
    using logs_ok_step [OF side] by simp
qed

section \<open>Transactions without side obligations\<close>

locale quiet_tx = safe_tx +
  assumes side: "db_wf d \<Longrightarrow> body d = Inr (a, changed, d') \<Longrightarrow> side_step d d'"
begin

lemma write_only_side:
  assumes "db_wf (q_db st)"
  shows "side_step (q_db st) (q_db (snd (write_only opt body st)))"
  using side [OF assms] by (auto simp: write_only_eq [OF assms] split: sum.split)

lemma write_only_files:
  "q_refs (snd (write_only opt body st)) = q_refs st" "q_logs (snd (write_only opt body st)) = q_logs st"
  by (auto simp: write_only_def split: sum.split)

lemma write_only_effects:
  assumes "db_wf (q_db st)" and "pins_ok st" and "logs_ok st"
  shows "pins_ok (snd (write_only opt body st))" and "logs_ok (snd (write_only opt body st))"
proof -
  show "pins_ok (snd (write_only opt body st))"
    using pins_ok_step [OF assms(1) write_only_safe [OF assms(1)] write_only_side [OF assms(1)] assms(2)] write_only_files
    by simp
  show "logs_ok (snd (write_only opt body st))"
    using logs_ok_step [OF write_only_side [OF assms(1)] assms(3)] write_only_files by simp
qed

lemma write_tx_effects:
  assumes "db_wf (q_db st)" and "pins_ok st" and "logs_ok st" and good: "pinner_good opt"
  shows "pins_ok (snd (write_tx opt body st)) \<and> logs_ok (snd (write_tx opt body st))"
proof -
  obtain out st1 where w: "write_only opt body st = (out, st1)"
    by (cases "write_only opt body st")
  have "pins_ok st1" "logs_ok st1" "db_wf (q_db st1)"
    using write_only_effects [OF assms(1-3), of opt] write_only_safe [OF assms(1), of opt] w
    by (simp_all add: safe_change_def)
  then show ?thesis
    using settle_pins_keeps [OF good, of st1] w by (simp add: write_tx_def split: sum.split)
qed

end

text \<open>The rows the quiet bodies write.\<close>

lemma quiet_rows [simp]:
  "c_log_size (claim_row opt t cid req r) = c_log_size r" "c_pinned (claim_row opt t cid req r) = c_pinned r"
  "c_log_size (start_row opt t r) = c_log_size r" "c_pinned (start_row opt t r) = c_pinned r"
  "c_log_size (end_row s res rc t r) = c_log_size r" "c_pinned (end_row s res rc t r) = c_pinned r"
  "c_log_size (count_row n l r) = c_log_size r" "c_pinned (count_row n l r) = c_pinned r"
  "c_log_size (requeue_row n l t r) = c_log_size r" "c_pinned (requeue_row n l t r) = c_pinned r"
  "c_log_size (result_row rq t r0 r) = c_log_size r" "c_pinned (result_row rq t r0 r) = c_pinned r"
  "c_log_size (finish_row s why b t r) = c_log_size r" "c_pinned (finish_row s why b t r) = c_pinned r"
  "c_log_size (supersede_row nid i t r) = c_log_size r" "c_pinned (supersede_row nid i t r) = c_pinned r"
  "c_log_size (cancel_row t r) = c_log_size r" "c_pinned (cancel_row t r) = c_pinned r"
  "c_log_size (place_row m pn t r) = c_log_size r" "c_pinned (place_row m pn t r) = c_pinned r"
  "c_log_size (reused_row res t r) = c_log_size r" "c_pinned (reused_row res t r) = c_pinned r"
  "c_log_size (local_row opt w cid t r) = c_log_size r" "c_pinned (local_row opt w cid t r) = c_pinned r"
  by (simp_all add: claim_row_def start_row_def end_row_def count_row_def requeue_row_def result_row_def
      finish_row_def supersede_row_def cancel_row_def place_row_def reused_row_def local_row_def)

lemma side_step_same_jobs: "same_jobs d d' \<Longrightarrow> side_step d d'"
  by (rule side_step_same) (rule same_jobs_find)

lemma side_step_fold:
  assumes "\<And>x d. side_step d (step x d)"
  shows "side_step d (fold step xs d)"
  by (induction xs arbitrary: d) (auto intro: side_step_trans assms)

lemma let_go_side: "side_step d (let_go t h n l why d)"
proof -
  have "side_step d (end_held h s res rc t (update_job [ColAttempts, ColLapses] (h_id h) (count_row n l) d))" for s res rc
    unfolding end_held_def by (rule side_step_trans; rule side_step_update) simp_all
  then show ?thesis
    unfolding let_go_def by (auto split: option.split intro!: side_step_update)
qed

lemma lapse_ids_side: "lapse_ids t ids d = Inr d' \<Longrightarrow> side_step d d'"
  by (induction ids arbitrary: d) (auto simp: bind_err_Inr_iff intro: side_step_trans let_go_side)

interpretation claim_q: quiet_tx "claim_tx opt t cid jid req fp" for opt t cid jid req fp
proof
  fix d a d' and changed :: "string list"
  assume "claim_tx opt t cid jid req fp d = Inr (a, changed, d')"
  then show "side_step d d'"
    by (rule claim_tx_Inr) (auto intro: side_step_update)
qed

lemma renew_side: "side_step d (renew opt jid t d)"
  unfolding renew_def by (rule side_step_update) simp_all

interpretation start_q: quiet_tx "start_tx opt t jid cid" for opt t jid cid
  by unfold_locales
    (auto simp: start_tx_def bind_err_Inr_iff split: if_splits intro!: side_step_update renew_side)

interpretation heartbeat_q: quiet_tx "heartbeat_tx opt t jid cid" for opt t jid cid
  by unfold_locales (auto simp: heartbeat_tx_def bind_err_Inr_iff intro!: renew_side)

interpretation release_q: quiet_tx "release_tx t jid req" for t jid req
  by unfold_locales (auto simp: release_tx_def bind_err_Inr_iff intro!: let_go_side)

interpretation cancel_q: quiet_tx "cancel_tx t jid fp" for t jid fp
proof
  fix d a d' and changed :: "string list"
  assume "cancel_tx t jid fp d = Inr (a, changed, d')"
  then show "side_step d d'"
    by (cases rule: cancel_tx_cases) (auto intro: side_step_update)
qed

interpretation set_position_q: quiet_tx "guarded (valid_request p) (set_position_tx t jid p)" for t jid p
proof
  fix d a d' and changed :: "string list"
  assume "guarded (valid_request p) (set_position_tx t jid p) d = Inr (a, changed, d')"
  then have "set_position_tx t jid p d = Inr (a, changed, d')" by simp
  then show "side_step d d'"
    by (cases rule: set_position_tx_cases) (auto intro: side_step_update)
qed

interpretation result_q: quiet_tx "guarded (result_request_validate req = None) (result_tx opt t at_ms ref jid req)"
  for opt t at_ms ref jid req
proof
  fix d a d' and changed :: "string list"
  assume "guarded (result_request_validate req = None) (result_tx opt t at_ms ref jid req) d = Inr (a, changed, d')"
  then have "result_tx opt t at_ms ref jid req d = Inr (a, changed, d')" by simp
  then show "side_step d d'"
  proof (cases rule: result_tx_cases)
    case (ended r rf j p)
    show ?thesis
      unfolding ended(9)
      by (rule side_step_trans [OF side_step_update side_step_same_jobs [OF record_ended_outcome_same]]) simp_all
  qed simp
qed

interpretation record_out_q: quiet_tx "\<lambda>d. case record_outcome_on opt u d of (ws, d') \<Rightarrow> Inr (ws, [], d')" for opt u
proof
  fix d a d' and changed :: "string list"
  assume "(case record_outcome_on opt u d of (ws, d') \<Rightarrow> Inr (ws, [], d')) = Inr (a, changed, d')"
  then show "side_step d d'"
    using record_outcome_on_same [of d opt u] by (auto split: prod.splits intro: side_step_same_jobs)
qed

lemma finish_side: "side_step d (finish_without_running jid s why b t d)"
  unfolding finish_without_running_def by (rule side_step_update) simp_all

lemma supersede_one_side: "side_step d (supersede_one new_id t x d)"
  by (cases x) (auto simp: supersede_one_def intro: finish_side side_step_update)

lemma supersede_if_side: "side_step d (snd (supersede_if new_id key t d))"
  using side_step_fold [of "supersede_one new_id t", OF supersede_one_side]
  by (simp add: supersede_if_def supersede_older_eq)

interpretation sweep_q: quiet_tx "sweep_tx clock t" for clock t
proof
  fix d a d' and changed :: "string list"
  assume "sweep_tx clock t d = Inr (a, changed, d')"
  then obtain d1 ids where "lapse_ids clock ids d = Inr d1" and d': "\<exists>ids. d' = fold (expire t) ids d1"
    by (auto simp: sweep_tx_def lapse_leases_def bind_err_Inr_iff Let_def)
  then have "side_step d d1" by (blast intro: lapse_ids_side)
  moreover have "side_step d1 (fold (expire t) ids d1)" for ids
    by (rule side_step_fold) (simp add: expire_def finish_side)
  ultimately show "side_step d d'" using d' side_step_trans by blast
qed


section \<open>Submissions\<close>

lemma insert_side:
  assumes "insert_job jid origin s t pinned d = Inr d'" and "\<not> pinned"
  shows "side_step d d'"
  by (rule side_stepI) (use assms(2) in \<open>auto simp: find_insert_job [OF assms(1)] split: if_splits\<close>)

interpretation submit_reused_q: quiet_tx "guarded (reused_ok opt jid s res) (submit_reused_tx opt jid t s res)"
  for opt jid t s res
proof
  fix d a d' and changed :: "string list"
  assume "guarded (reused_ok opt jid s res) (submit_reused_tx opt jid t s res) d = Inr (a, changed, d')"
  then obtain d1 where ins: "insert_job jid (o_origin opt) s t False d = Inr d1"
    and d': "d' = snd (supersede_if jid (s_supersede_key s) t
        (update_job [ColState, ColResult, ColFinishedAt, ColUpdatedAt] jid (reused_row res t) d1))"
    by (cases "insert_job jid (o_origin opt) s t False d") (auto simp: submit_reused_tx_def Let_def split: prod.splits)
  show "side_step d d'"
    unfolding d'
    by (rule side_step_trans [OF insert_side [OF ins] side_step_trans [OF side_step_update supersede_if_side]]) simp_all
qed

interpretation record_local_q: quiet_tx
  "guarded (local_run_validate s = None \<and> id_ok jid \<and> o_origin opt \<noteq> '''') (record_local_tx opt jid cid t s worker)"
  for opt jid cid t s worker
proof
  fix d a d' and changed :: "string list"
  assume "guarded (local_run_validate s = None \<and> id_ok jid \<and> o_origin opt \<noteq> '''')
      (record_local_tx opt jid cid t s worker) d = Inr (a, changed, d')"
  then obtain d1 where ins: "insert_job jid (o_origin opt) s t False d = Inr d1"
    and d': "d' = update_job local_cols jid (local_row opt worker cid t) d1"
    by (cases "insert_job jid (o_origin opt) s t False d") (auto simp: record_local_tx_def)
  show "side_step d d'"
    unfolding d' by (rule side_step_trans [OF insert_side [OF ins] side_step_update]) simp_all
qed

lemma submit_tx_row:
  assumes "db_wf d" and "submission_validate s = None" and "id_ok jid" and "o_origin opt \<noteq> ''''"
    and ok: "submit_tx opt jid t s pinned d = Inr (a, changed, d')"
  shows "\<exists>r. find_job jid d' = Some r \<and> c_sub r = s \<and> c_log_size r = None \<and> (c_pinned r \<longleftrightarrow> pinned)"
    and "\<And>k r'. k \<noteq> jid \<Longrightarrow> find_job k d' = Some r' \<Longrightarrow>
      \<exists>r. find_job k d = Some r \<and> c_seq r' = c_seq r \<and> c_log_size r' = c_log_size r \<and> (c_pinned r' \<longrightarrow> c_pinned r)
        \<or> c_log_size r' = None \<and> \<not> c_pinned r'"
proof -
  obtain d1 ids where ins: "insert_job jid (o_origin opt) s t pinned d = Inr d1"
    and sup: "supersede_if jid (s_supersede_key s) t d1 = (ids, d')"
    using ok by (cases "insert_job jid (o_origin opt) s t pinned d") (auto simp: submit_tx_def split: prod.splits)
  have wf1: "db_wf d1"
    using insert_job_safe [OF assms(1) ins new_row_wf] assms(2-4) by (simp add: id_ok_def safe_change_def)
  have "jid \<notin> fst ` set (older_of jid (s_supersede_key s) d1)"
    by (auto simp: older_of_iff [OF wf1] older_live_def)
  then have "find_job jid d' = find_job jid d1"
    using sup supersede.loop_other [of jid] by (auto simp: supersede_if_def supersede_older_eq split: if_splits)
  then show "\<exists>r. find_job jid d' = Some r \<and> c_sub r = s \<and> c_log_size r = None \<and> (c_pinned r \<longleftrightarrow> pinned)"
    using find_insert_job [OF ins, of jid] by simp
  have side: "side_step d1 d'"
    using supersede_if_side [of d1 jid "s_supersede_key s" t] sup by simp
  show "\<exists>r. find_job k d = Some r \<and> c_seq r' = c_seq r \<and> c_log_size r' = c_log_size r \<and> (c_pinned r' \<longrightarrow> c_pinned r)
        \<or> c_log_size r' = None \<and> \<not> c_pinned r'" if "k \<noteq> jid" and r': "find_job k d' = Some r'" for k r'
    using side r'
  proof (cases rule: side_stepE)
    case (old r)
    then show ?thesis using find_insert_job [OF ins, of k] \<open>k \<noteq> jid\<close> by auto
  qed simp
qed

lemma submit_write_effects:
  assumes good: "pinner_good opt" and wf: "db_wf (q_db st)" and ok: "pins_ok st" "logs_ok st"
    and val: "submission_validate s = None" "id_ok jid" "o_origin opt \<noteq> ''''"
    and pinned: "pinned \<Longrightarrow> q_refs st (s_git_dir s, jid) = Some (snap_commit (s_snapshot s))"
  shows "pins_ok (snd (write_tx opt (submit_tx opt jid t s pinned) st)) \<and> logs_ok (snd (write_tx opt (submit_tx opt jid t s pinned) st))"
proof -
  let ?g = "guarded (submission_validate s = None \<and> id_ok jid \<and> o_origin opt \<noteq> '''') (submit_tx opt jid t s pinned)"
  obtain out st1 where w: "write_only opt ?g st = (out, st1)"
    by (cases "write_only opt ?g st")
  note eq = submit.write_only_eq [OF wf, of opt s jid opt t pinned]
  have safe: "safe_change (q_db st) (q_db st1)"
    using submit.write_only_safe [OF wf, of opt s jid opt t pinned] w by simp
  have "pins_ok st1 \<and> logs_ok st1"
  proof (cases "submit_tx opt jid t s pinned (q_db st)")
    case (Inl e)
    then have "st1 = st"
      using w eq val by (simp add: guarded_def)
    then show ?thesis using ok by simp
  next
    case (Inr x)
    obtain a changed d' where x: "x = (a, changed, d')" by (cases x)
    note row = submit_tx_row [OF wf val Inr [unfolded x]]
    have st1: "st1 = st\<lparr>q_db := d', q_events := q_events st @ events_of opt d' changed\<rparr>"
      using w eq Inr x val by (simp add: guarded_def)
    have "q_refs st1 (s_git_dir (c_sub r'), k) = Some (snap_commit (s_snapshot (c_sub r')))"
      if r': "find_job k (q_db st1) = Some r'" and p: "c_pinned r'" and live: "\<not> terminal (c_state r')" for k r'
    proof (cases "k = jid")
      case True
      then show ?thesis using row(1) r' p pinned st1 by auto
    next
      case False
      then obtain r where "find_job k (q_db st) = Some r" "c_seq r' = c_seq r" "c_pinned r' \<longrightarrow> c_pinned r"
        using row(2) [OF False, of r'] r' p st1 by auto
      then show ?thesis
        using pin_kept [OF wf safe ok(1) _ r' _ _ p live] st1 by simp
    qed
    moreover have "\<exists>body. q_logs st1 k = Some body \<and> int (length body) = n"
      if r': "find_job k (q_db st1) = Some r'" and n: "c_log_size r' = Some n" for k r' n
    proof (cases "k = jid")
      case True
      then show ?thesis using row(1) r' n st1 by auto
    next
      case False
      then obtain r where "find_job k (q_db st) = Some r" "c_log_size r = Some n"
        using row(2) [OF False, of r'] r' n st1 by auto
      then show ?thesis using ok(2) st1 by (auto simp: logs_ok_def)
    qed
    ultimately show ?thesis unfolding pins_ok_def logs_ok_def by blast
  qed
  then have "pins_ok (snd (write_tx opt ?g st)) \<and> logs_ok (snd (write_tx opt ?g st))"
    using settle_pins_keeps [OF good safe_change_wf [OF safe]] w by (simp add: write_tx_def split: sum.split)
  then show ?thesis using val by (simp add: write_tx_guarded)
qed


text \<open>The invariant of the whole state.\<close>

definition queue_ok :: "queue_state \<Rightarrow> bool" where
  "queue_ok st \<longleftrightarrow> db_wf (q_db st) \<and> pins_ok st \<and> logs_ok st"

lemma queue_okI: "safe_change d (q_db st) \<Longrightarrow> pins_ok st \<and> logs_ok st \<Longrightarrow> queue_ok st"
  by (simp add: queue_ok_def safe_change_def)

lemma find_record_pin [simp]: "find_job k (record_pin jid dir t d) = find_job k d"
  by (simp add: find_job_def record_pin_same_jobs)

lemma take_back_pin_effects:
  assumes "pinner_ok p" and "pins_ok st" and "logs_ok st"
  shows "pins_ok (take_back_pin p dir jid st) \<and> logs_ok (take_back_pin p dir jid st)"
proof (cases "find_job jid (q_db st)")
  case (Some r)
  then show ?thesis using assms by (simp add: take_back_pin_def)
next
  case None
  let ?st' = "take_back_pin p dir jid st"
  have find: "find_job k (q_db ?st') = find_job k (q_db st)" for k
    using None by (auto simp: take_back_pin_def split: prod.split bool.split)
  have refs: "q_refs ?st' (e, k) = q_refs st (e, k)" if "k \<noteq> jid" for e k
    using None pinner_ok_laws(4) [OF assms(1), of "(e, k)" jid dir "q_refs st"] that
    by (auto simp: take_back_pin_def split: prod.split bool.split)
  have "k \<noteq> jid" if "find_job k (q_db st) = Some r" for k r
    using that None by auto
  then show ?thesis
    using assms(2,3) refs unfolding pins_ok_def logs_ok_def find by auto
qed

lemma submit_ok:
  assumes good: "pinner_good opt" and ok: "queue_ok st" and val: "id_ok jid" "o_origin opt \<noteq> ''''"
  shows "queue_ok (snd (submit opt jid t s st))"
proof -
  have wf: "db_wf (q_db st)" and eff: "pins_ok st" "logs_ok st"
    using ok by (simp_all add: queue_ok_def)
  have "pins_ok (snd (submit opt jid t s st)) \<and> logs_ok (snd (submit opt jid t s st))"
  proof (cases "submission_validate s")
    case (Some e)
    then show ?thesis using eff by (simp add: submit_def)
  next
    case None
    show ?thesis
    proof (cases "o_pinner opt")
      case none: None
      then show ?thesis
        using submit_write_effects [OF good wf eff None val, of False t] None
        by (auto simp: submit_def split: prod.split sum.split)
    next
      case (Some p)
      have p: "pinner_ok p" using good Some by (simp add: pinner_good_def)
      let ?st1 = "st\<lparr>q_db := record_pin jid (s_git_dir s) t (q_db st)\<rparr>"
      obtain b R where pin: "pin_op p (s_git_dir s) jid (snap_commit (s_snapshot s)) (q_refs st) = (b, R)"
        by (cases "pin_op p (s_git_dir s) jid (snap_commit (s_snapshot s)) (q_refs st)")
      let ?st2 = "?st1\<lparr>q_refs := R\<rparr>"
      have eff2: "pins_ok ?st2" "logs_ok ?st2"
        using eff pinner_ok_laws(2) [OF p, of "q_refs st" _ _ "s_git_dir s" jid "snap_commit (s_snapshot s)"] pin
        unfolding pins_ok_def logs_ok_def by auto
      have wf2: "db_wf (q_db ?st2)"
        using record_pin_safe [OF wf] by (simp add: safe_change_def)
      have set: "b \<Longrightarrow> q_refs ?st2 (s_git_dir s, jid) = Some (snap_commit (s_snapshot s))"
        using pinner_ok_laws(1) [OF p, of "s_git_dir s" jid "snap_commit (s_snapshot s)" "q_refs st"] pin by simp
      obtain out st3 where w: "write_tx opt (submit_tx opt jid t s True) ?st2 = (out, st3)"
        by (cases "write_tx opt (submit_tx opt jid t s True) ?st2")
      have eff3: "b \<Longrightarrow> pins_ok st3 \<and> logs_ok st3"
        using submit_write_effects [OF good wf2 eff2 None val, of True t] set w by simp
      show ?thesis
        using None Some pin w eff3 take_back_pin_effects [OF p eff2] take_back_pin_effects [OF p, of st3]
        by (auto simp: submit_def Let_def split: bool.split sum.split)
    qed
  qed
  then show ?thesis
    using submit_safe [OF wf val, of t s] by (intro queue_okI)
qed

section \<open>Logs\<close>

lemma put_log_commit_ok:
  assumes good: "pinner_good opt" and ok: "queue_ok st"
  shows "queue_ok (snd (put_log_commit opt t t2 jid cid body st))"
proof -
  have wf: "db_wf (q_db st)" and eff: "pins_ok st" "logs_ok st"
    using ok by (simp_all add: queue_ok_def)
  let ?tx = "put_log_tx (int (length body)) t t2 jid cid"
  show ?thesis
  proof (cases "?tx (q_db st)")
    case (Inl e)
    then have "write_tx opt ?tx st = (Inl e, st)"
      by (simp add: write_tx_def put_log.write_only_eq [OF wf])
    then show ?thesis using ok by (simp add: put_log_commit_def)
  next
    case (Inr x)
    obtain a changed d' where x: "x = (a, changed, d')" by (cases x)
    have tx: "?tx (q_db st) = Inr (a, changed, d')" using Inr x by simp
    let ?st1 = "st\<lparr>q_db := d', q_events := q_events st @ events_of opt d' changed, q_logs := (q_logs st)(jid \<mapsto> body)\<rparr>"
    have safe: "safe_change (q_db st) d'"
      using put_log.safe [OF wf tx] .
    have rows: "\<exists>r. find_job k (q_db st) = Some r \<and> c_seq r' = c_seq r \<and> c_pinned r' = c_pinned r
        \<and> c_log_size r' = (if k = jid then Some (int (length body)) else c_log_size r)"
      if "find_job k d' = Some r'" for k r'
      using tx that
      by (cases rule: put_log_tx_cases)
        (auto simp: pointed_db_def find_logged_db find_update_job put_log_row_def point_row_def split: if_splits)
    have "pins_ok ?st1"
      unfolding pins_ok_def
    proof (intro allI impI)
      fix k r' assume r': "find_job k (q_db ?st1) = Some r'" and p: "c_pinned r'" and live: "\<not> terminal (c_state r')"
      obtain r where "find_job k (q_db st) = Some r" "c_seq r' = c_seq r" "c_pinned r' = c_pinned r"
        using rows [of k r'] r' by auto
      then show "q_refs ?st1 (s_git_dir (c_sub r'), k) = Some (snap_commit (s_snapshot (c_sub r')))"
        using pin_kept [OF wf _ eff(1) _ r' _ _ p live, of r] safe by simp
    qed
    moreover have "logs_ok ?st1"
      unfolding logs_ok_def
    proof (intro allI impI)
      fix k r' n assume r': "find_job k (q_db ?st1) = Some r'" and n: "c_log_size r' = Some n"
      then obtain r where "find_job k (q_db st) = Some r"
          "c_log_size r' = (if k = jid then Some (int (length body)) else c_log_size r)"
        using rows [of k r'] by auto
      then show "\<exists>bd. q_logs ?st1 k = Some bd \<and> int (length bd) = n"
        using n eff(2) by (auto simp: logs_ok_def split: if_splits)
    qed
    ultimately have settled: "pins_ok (fst (settle_pins opt ?st1)) \<and> logs_ok (fst (settle_pins opt ?st1))"
      using settle_pins_keeps [OF good, of ?st1] safe_change_wf [OF safe] by simp
    have swap: "(fst (settle_pins opt (st\<lparr>q_db := d', q_events := e\<rparr>)))\<lparr>q_logs := l\<rparr> =
        fst (settle_pins opt (st\<lparr>q_db := d', q_events := e, q_logs := l\<rparr>))" for e l
      by (simp add: settle_pins_def split: option.split prod.split)
    have logs: "q_logs (fst (settle_pins opt (st\<lparr>q_db := d', q_events := e\<rparr>))) = q_logs st" for e
      by simp
    have "pins_ok (snd (put_log_commit opt t t2 jid cid body st)) \<and> logs_ok (snd (put_log_commit opt t t2 jid cid body st))"
      using settled tx
      by (simp add: put_log_commit_def write_tx_def put_log.write_only_eq [OF wf] Let_def swap logs
          pins_ok_def logs_ok_def offer_result_def split: option.split prod.split)
    then show ?thesis
      using put_log_commit_safe [OF wf] by (intro queue_okI)
  qed
qed

lemma forget_logs_side:
  assumes "forget_logs_tx t d = Inr (a, changed, d')"
  shows "\<And>k r'. find_job k d' = Some r' \<Longrightarrow>
    \<exists>r. find_job k d = Some r \<and> c_seq r' = c_seq r \<and> c_pinned r' = c_pinned r \<and> (c_log_size r' = None \<or> c_log_size r' = c_log_size r)"
proof -
  have step: "\<exists>r. find_job k d = Some r \<and> c_seq r' = c_seq r \<and> c_pinned r' = c_pinned r \<and> (c_log_size r' = None \<or> c_log_size r' = c_log_size r)"
    if "find_job k (forget_log x d) = Some r'" for k r' x and d :: db
    using that by (auto simp: forget_log_def find_update_job forget_log_row_def split: if_splits)
  have "\<exists>r. find_job k d = Some r \<and> c_seq r' = c_seq r \<and> c_pinned r' = c_pinned r \<and> (c_log_size r' = None \<or> c_log_size r' = c_log_size r)"
    if "find_job k (fold forget_log ids d) = Some r'" for k r' ids and d :: db
    using that
  proof (induction ids arbitrary: d)
    case (Cons x ids)
    then obtain r1 where "find_job k (forget_log x d) = Some r1" "c_seq r' = c_seq r1" "c_pinned r' = c_pinned r1"
        "c_log_size r' = None \<or> c_log_size r' = c_log_size r1"
      by fastforce
    with step [of k x d r1] show ?case by auto
  qed simp
  then show "\<And>k r'. find_job k d' = Some r' \<Longrightarrow>
    \<exists>r. find_job k d = Some r \<and> c_seq r' = c_seq r \<and> c_pinned r' = c_pinned r \<and> (c_log_size r' = None \<or> c_log_size r' = c_log_size r)"
    using assms by (auto simp: forget_logs_tx_def Let_def)
qed

lemma forget_logs_ok:
  assumes ok: "queue_ok st"
  shows "queue_ok (snd (write_only opt (forget_logs_tx t) st))"
proof -
  have wf: "db_wf (q_db st)" and eff: "pins_ok st" "logs_ok st"
    using ok by (simp_all add: queue_ok_def)
  obtain a changed d' where tx: "forget_logs_tx t (q_db st) = Inr (a, changed, d')"
    by (simp add: forget_logs_tx_def Let_def)
  note rows = forget_logs_side [OF tx]
  let ?st1 = "st\<lparr>q_db := d', q_events := q_events st @ events_of opt d' changed\<rparr>"
  have st1: "snd (write_only opt (forget_logs_tx t) st) = ?st1"
    using tx by (simp add: forget.write_only_eq [OF wf])
  have safe: "safe_change (q_db st) d'"
    using forget.safe [OF wf tx] .
  have "pins_ok ?st1"
    unfolding pins_ok_def
  proof (intro allI impI)
    fix k r' assume r': "find_job k (q_db ?st1) = Some r'" and p: "c_pinned r'" and live: "\<not> terminal (c_state r')"
    obtain r where "find_job k (q_db st) = Some r" "c_seq r' = c_seq r" "c_pinned r' = c_pinned r"
      using rows [of k r'] r' by auto
    then show "q_refs ?st1 (s_git_dir (c_sub r'), k) = Some (snap_commit (s_snapshot (c_sub r')))"
      using pin_kept [OF wf _ eff(1) _ r' _ _ p live, of r] safe by simp
  qed
  moreover have "logs_ok ?st1"
    using rows eff(2) unfolding logs_ok_def by fastforce
  ultimately show ?thesis
    unfolding st1 using safe by (intro queue_okI) simp_all
qed

lemma remove_forgotten_ok: "queue_ok st \<Longrightarrow> queue_ok (remove_forgotten opt ids st)"
  by (auto simp: queue_ok_def pins_ok_def logs_ok_def remove_forgotten_def remove_log_files_def)

lemma sweep_logs_ok: "queue_ok st \<Longrightarrow> queue_ok (snd (sweep_logs opt t st))"
  using forget_logs_ok [of st opt t] remove_forgotten_ok
  by (auto simp: sweep_logs_def split: prod.splits sum.splits)


section \<open>The sweep\<close>

lemma delete_retained_ok:
  assumes ok: "queue_ok st"
  shows "queue_ok (fst (delete_retained_jobs opt cutoff st))"
proof -
  let ?st' = "fst (delete_retained_jobs opt cutoff st)"
  have wf: "db_wf (q_db st)" and eff: "pins_ok st" "logs_ok st"
    using ok by (simp_all add: queue_ok_def)
  have find: "find_job k (q_db ?st') = Some r \<longleftrightarrow> find_job k (q_db st) = Some r \<and> \<not> retained_out cutoff r" for k r
    using db_wf_unique [OF wf]
    by (auto simp: delete_retained_jobs_def Let_def find_job_def lookup_by_filter split: option.splits)
  have "k \<notin> set (map c_id (filter (retained_out cutoff) (db_jobs (q_db st))))" if "find_job k (q_db ?st') = Some r" for k r
    using filter_ids_known [OF wf, of k "retained_out cutoff"] that unfolding find by auto
  then have logs: "q_logs ?st' k = q_logs st k" if "find_job k (q_db ?st') = Some r" for k r
    using that by (simp add: delete_retained_jobs_def Let_def remove_log_files_def)
  have refs: "q_refs ?st' = q_refs st"
    by (simp add: delete_retained_jobs_def Let_def)
  have "pins_ok ?st'"
    using eff(1) unfolding pins_ok_def find refs by blast
  moreover have "logs_ok ?st'"
    unfolding logs_ok_def
  proof (intro allI impI)
    fix k r n assume r: "find_job k (q_db ?st') = Some r" and n: "c_log_size r = Some n"
    then show "\<exists>body. q_logs ?st' k = Some body \<and> int (length body) = n"
      using eff(2) logs [OF r] unfolding logs_ok_def find by simp
  qed
  ultimately show ?thesis
    using delete_retained_safe [OF wf] by (intro queue_okI) simp_all
qed

lemma queue_ok_same_jobs:
  assumes "queue_ok st" and "same_jobs (q_db st) (q_db st')" and "q_refs st' = q_refs st" and "q_logs st' = q_logs st"
  shows "queue_ok st'"
proof -
  have "db_wf (q_db st')"
    using assms(1,2) same_jobs_safe by (auto simp: queue_ok_def safe_change_def)
  then show ?thesis
    using assms same_jobs_find [OF assms(2)] by (simp add: queue_ok_def pins_ok_def logs_ok_def)
qed

lemma orphan_one_ok:
  assumes p: "pinner_ok p" and ok: "queue_ok st" and step: "orphan_one opt p t rec (st, n, m) = (st', n', m')"
  shows "queue_ok st'"
proof -
  let ?u = "unpin_op p (p_git_dir rec) (p_id rec) (q_refs st)"
  have wf: "db_wf (q_db st)" and eff: "pins_ok st" "logs_ok st"
    using ok by (simp_all add: queue_ok_def)
  have find: "find_job k (q_db st') = find_job k (q_db st)" for k
    using step by (auto simp: orphan_one_def split: if_splits prod.splits bool.splits)
  have logs: "q_logs st' = q_logs st"
    using step by (auto simp: orphan_one_def split: if_splits prod.splits bool.splits)
  have refs: "q_refs st' (e, k) = q_refs st (e, k)"
    if r: "find_job k (q_db st) = Some r" and live: "\<not> terminal (c_state r)" for e k r
  proof (cases "k = p_id rec")
    case True
    with r live step show ?thesis by (auto simp: orphan_one_def split: if_splits)
  next
    case False
    then show ?thesis
      using step pinner_ok_laws(4) [OF p, of "(e, k)" "p_id rec" "p_git_dir rec" "q_refs st"]
      by (auto simp: orphan_one_def split: if_splits prod.splits bool.splits)
  qed
  have "pins_ok st'"
    using eff(1) refs unfolding pins_ok_def find by auto
  moreover have "logs_ok st'"
    using eff(2) unfolding logs_ok_def find logs .
  ultimately show ?thesis
    using orphan_one_safe [OF wf step] by (intro queue_okI) simp_all
qed

lemma orphan_fold_ok:
  assumes "pinner_ok p"
  shows "queue_ok st \<Longrightarrow> fold (orphan_one opt p t) recs (st, n, m) = (st', n', m') \<Longrightarrow> queue_ok st'"
proof (induction recs arbitrary: st n m)
  case (Cons rec recs)
  obtain st1 n1 m1 where s1: "orphan_one opt p t rec (st, n, m) = (st1, n1, m1)"
    by (metis prod_cases3)
  show ?case
    using Cons.IH [of st1 n1 m1] orphan_one_ok [OF assms Cons.prems(1) s1] Cons.prems(2) s1 by simp
qed simp

lemma remove_orphan_pins_ok:
  assumes "pinner_good opt" and "queue_ok st"
  shows "queue_ok (fst (remove_orphan_pins opt t st))"
proof (cases "o_pinner opt")
  case (Some p)
  obtain st' n m where f: "fold (orphan_one opt p t) (sort_key p_at (db_pins (q_db st))) (st, 0, 0) = (st', n, m)"
    by (metis prod_cases3)
  have "pinner_ok p" using assms(1) Some by (simp add: pinner_good_def)
  from orphan_fold_ok [OF this assms(2) f] show ?thesis
    using Some f by (simp add: remove_orphan_pins_def)
qed (use assms in \<open>simp add: remove_orphan_pins_def\<close>)

lemma settle_pins_ok:
  assumes "pinner_good opt" and "queue_ok st"
  shows "queue_ok (fst (settle_pins opt st))"
  using settle_pins_keeps [OF assms(1), of st] settle_pins_safe [of st opt] assms(2)
  by (simp add: queue_ok_def safe_change_def)

lemma sweep_ok:
  assumes good: "pinner_good opt" and ok: "queue_ok st"
  shows "queue_ok (snd (sweep opt clock t st))"
proof -
  obtain out1 st1 where e1: "write_only opt (sweep_tx clock t) st = (out1, st1)"
    by (cases "write_only opt (sweep_tx clock t) st")
  obtain out2 st2 where e2: "sweep_logs opt t st1 = (out2, st2)"
    by (cases "sweep_logs opt t st1")
  obtain st3 n3 m3 where e3: "settle_pins opt st2 = (st3, n3, m3)"
    by (cases "settle_pins opt st2")
  obtain st4 n4 where e4: "delete_retained_jobs opt (t - retention_ms) st3 = (st4, n4)"
    by (cases "delete_retained_jobs opt (t - retention_ms) st3")
  let ?st5 = "st4\<lparr>q_db := prune_outcomes (t - retention_ms) (q_db st4)\<rparr>"
  have wf: "db_wf (q_db st)" and eff: "pins_ok st" "logs_ok st"
    using ok by (simp_all add: queue_ok_def)
  have "queue_ok st1"
    using sweep_q.write_only_effects [OF wf eff, of opt clock t] sweep_tx.write_only_safe [OF wf, of opt clock t] e1
    by (simp add: queue_ok_def safe_change_def)
  then have "queue_ok st2"
    using sweep_logs_ok [of st1 opt t] e2 by simp
  then have "queue_ok st3"
    using settle_pins_ok [OF good, of st2] e3 by simp
  then have "queue_ok st4"
    using delete_retained_ok [of st3 opt "t - retention_ms"] e4 by simp
  then have "queue_ok ?st5"
    by (rule queue_ok_same_jobs) (simp_all add: prune_outcomes_same)
  then have "queue_ok (fst (remove_orphan_pins opt t ?st5))"
    by (rule remove_orphan_pins_ok [OF good])
  then show ?thesis
    by (simp add: sweep_def e1 e2 e3 e4 case_prod_beta Let_def)
qed

section \<open>A restart\<close>

lemma extend_row_sel [simp]:
  "c_id (extend_row t n r) = c_id r" "c_seq (extend_row t n r) = c_seq r" "c_rev (extend_row t n r) = c_rev r"
  "place (extend_row t n r) = place r" "placed (extend_row t n r) = placed r" "c_state (extend_row t n r) = c_state r"
  "c_sub (extend_row t n r) = c_sub r" "c_pinned (extend_row t n r) = c_pinned r" "c_log_size (extend_row t n r) = c_log_size r"
  "row_job (extend_row t n r) = row_job r"
  by (simp_all add: extend_row_def place_def placed_def row_job_def row_claim_def split: option.split)

lemma extend_row_keeps: "row_wf r \<Longrightarrow> row_keeps r (extend_row t n r)"
  using renew_row_keeps [of r] by (auto simp: extend_row_def row_keeps_def split: option.split)

lemma find_extend: "find_job k (extend_held_leases t n d) = map_option (extend_row t n) (find_job k d)"
proof -
  have "lookup_by c_id k (map (extend_row t n) rs) = map_option (extend_row t n) (lookup_by c_id k rs)" for rs
    by (induction rs) auto
  then show ?thesis by (simp add: find_job_def extend_held_leases_def)
qed

lemma extend_held_leases_safe:
  assumes "db_wf d"
  shows "safe_change d (extend_held_leases t n d)"
proof -
  let ?rs = "map (extend_row t n) (db_jobs d)"
  have cols: "map c_id ?rs = map c_id (db_jobs d)" "map c_seq ?rs = map c_seq (db_jobs d)" "map c_rev ?rs = map c_rev (db_jobs d)"
    by (simp_all add: comp_def)
  have places: "map place (filter placed ?rs) = map place (filter placed (db_jobs d))"
    by (induction "db_jobs d") (simp_all add: filter_map comp_def)
  have rows: "row_wf s \<and> 0 < c_seq s \<and> c_seq s \<le> db_last_seq d \<and> 0 < c_rev s \<and> c_rev s \<le> db_rev d
      \<and> (\<exists>s0 \<in> set (db_jobs d). row_step (db_rev d) s0 s)" if s: "s \<in> set ?rs" for s
  proof -
    obtain r where r: "r \<in> set (db_jobs d)" "s = extend_row t n r" using s by auto
    note row = db_wf_row [OF assms r(1)]
    then have "row_keeps r s" using r extend_row_keeps by blast
    then show ?thesis
      using row r row_keeps_step_same [of r s "db_rev d"] by (auto simp: row_keeps_def)
  qed
  show ?thesis
    using assms rows cols places
    unfolding safe_change_def evolves_def db_wf_def extend_held_leases_def unique_by_def places_distinct_def
    by (auto simp: comp_def)
qed

lemma restart_ok:
  assumes ok: "queue_ok st" and new: "new_queue o0 t (q_db st) = Inr (opt, d')"
  shows "queue_ok (st\<lparr>q_db := d'\<rparr>)"
proof -
  have d': "d' = extend_held_leases t (o_lease_s opt) (q_db st)"
    using new by (auto simp: new_queue_def Let_def split: if_splits)
  have wf: "db_wf (q_db st)" and eff: "pins_ok st" "logs_ok st"
    using ok by (simp_all add: queue_ok_def)
  have "pins_ok (st\<lparr>q_db := d'\<rparr>)" and "logs_ok (st\<lparr>q_db := d'\<rparr>)"
    using eff by (auto simp: pins_ok_def logs_ok_def d' find_extend)
  then show ?thesis
    using extend_held_leases_safe [OF wf, of t "o_lease_s opt"] by (intro queue_okI) (simp_all add: d')
qed


section \<open>Reading rows after a write\<close>

text \<open>The release of pins at the end of a write changes nothing of a row but its pin mark.\<close>

definition unpin_row :: "bool \<Rightarrow> job_row \<Rightarrow> job_row" where
  "unpin_row b r = (if b then r\<lparr>c_pinned := False\<rparr> else r)"

lemma unpin_row_sel [simp]:
  "c_id (unpin_row b r) = c_id r" "c_seq (unpin_row b r) = c_seq r" "c_rev (unpin_row b r) = c_rev r"
  "c_sub (unpin_row b r) = c_sub r" "c_state (unpin_row b r) = c_state r" "c_claim_id (unpin_row b r) = c_claim_id r"
  "c_claim_worker (unpin_row b r) = c_claim_worker r" "c_result (unpin_row b r) = c_result r"
  "c_result_claim_id (unpin_row b r) = c_result_claim_id r" "c_lease_deadline (unpin_row b r) = c_lease_deadline r"
  "c_cancel_requested (unpin_row b r) = c_cancel_requested r" "c_superseded_by (unpin_row b r) = c_superseded_by r"
  "c_manual (unpin_row b r) = c_manual r" "c_manual_seq (unpin_row b r) = c_manual_seq r"
  "c_attempts (unpin_row b r) = c_attempts r" "c_lapses (unpin_row b r) = c_lapses r"
  "c_local (unpin_row b r) = c_local r" "c_finished_at (unpin_row b r) = c_finished_at r"
  "c_log_size (unpin_row b r) = c_log_size r" "row_job (unpin_row b r) = row_job r"
  "peer_visible (unpin_row b r) = peer_visible r"
  by (simp_all add: unpin_row_def peer_visible_def)

lemma unpin_row_unpin_row [simp]: "unpin_row a (unpin_row b r) = unpin_row (a \<or> b) r"
  by (simp add: unpin_row_def)

lemma settle_one_row:
  assumes "settle_one opt p (jid, dir) (d, R, n, m) = (d', R', n', m')"
  shows "\<exists>b. find_job k d' = map_option (unpin_row b) (find_job k d)"
  using assms
proof (cases rule: settle_one_cases)
  case 1
  then show ?thesis by (intro exI [of _ False]) (simp add: unpin_row_def [abs_def] option.map_id0 [unfolded id_def])
next
  case 2
  then show ?thesis
    by (intro exI [of _ "k = jid"])
      (simp add: find_clear_pinned unpin_row_def [abs_def] option.map_id0 [unfolded id_def])
qed

lemma settle_fold_row:
  "fold (settle_one opt p) xs (d, R, n, m) = (d', R', n', m') \<Longrightarrow>
   \<exists>b. find_job k d' = map_option (unpin_row b) (find_job k d)"
proof (induction xs arbitrary: d R n m)
  case Nil
  then show ?case by (intro exI [of _ False]) (simp add: unpin_row_def [abs_def] option.map_id0 [unfolded id_def])
next
  case (Cons x xs)
  obtain jid dir where x: "x = (jid, dir)" by (cases x)
  obtain d1 R1 n1 m1 where s1: "settle_one opt p (jid, dir) (d, R, n, m) = (d1, R1, n1, m1)"
    by (metis prod_cases4)
  obtain b1 where b1: "find_job k d1 = map_option (unpin_row b1) (find_job k d)"
    using settle_one_row [OF s1] by blast
  obtain b2 where "find_job k d' = map_option (unpin_row b2) (find_job k d1)"
    using Cons.IH [of d1 R1 n1 m1] Cons.prems s1 x by auto
  with b1 show ?case
    by (intro exI [of _ "b2 \<or> b1"]) (simp add: option.map_comp comp_def)
qed

lemma settle_pins_row: "\<exists>b. find_job k (q_db (fst (settle_pins opt st))) = map_option (unpin_row b) (find_job k (q_db st))"
proof (cases "o_pinner opt")
  case None
  then show ?thesis
    by (intro exI [of _ False]) (simp add: settle_pins_def unpin_row_def [abs_def] option.map_id0 [unfolded id_def])
next
  case (Some p)
  obtain d R n m where f: "fold (settle_one opt p) (settle_todo (q_db st)) (q_db st, q_refs st, 0, 0) = (d, R, n, m)"
    by (metis prod_cases4)
  from settle_fold_row [OF f] show ?thesis
    using Some f by (simp add: settle_pins_def)
qed

lemma settle_pins_view [simp]: "view (q_db (fst (settle_pins opt st))) k = view (q_db st) k"
proof -
  obtain b where "find_job k (q_db (fst (settle_pins opt st))) = map_option (unpin_row b) (find_job k (q_db st))"
    using settle_pins_row by blast
  then show ?thesis by (simp add: view_def option.map_comp comp_def)
qed

context safe_tx
begin

lemma write_tx_row:
  assumes "db_wf (q_db st)" and "body (q_db st) = Inr (a, changed, d')"
  obtains b where "find_job k (q_db (snd (write_tx opt body st))) = map_option (unpin_row b) (find_job k d')"
  using settle_pins_row [of k opt "st\<lparr>q_db := d', q_events := q_events st @ events_of opt d' changed\<rparr>"] assms that
  by (auto simp: write_tx_def write_only_eq)

lemma write_tx_out:
  assumes "db_wf (q_db st)"
  shows "fst (write_tx opt body st) = (case body (q_db st) of Inl e \<Rightarrow> Inl e | Inr (a, _) \<Rightarrow> Inr a)"
  using assms by (auto simp: write_tx_answer write_only_eq split: sum.split)

lemma write_tx_Inl: "body (q_db st) = Inl e \<Longrightarrow> write_tx opt body st = (Inl e, st)"
  by (simp add: write_tx_def write_only_def commit_error)

lemma write_tx_Inr:
  assumes "db_wf (q_db st)" and "write_tx opt body st = (Inr a, st')"
  obtains changed d' where "body (q_db st) = Inr (a, changed, d')"
  using assms write_tx_out [OF assms(1), of opt] by (auto split: sum.splits)

end

end
