(* ===== verification/Queue.thy ===== *)
theory Queue
  imports Effects
begin

text \<open>
  The queue as a machine: every call of \<open>internal/wwd/queue\<close> that changes state, with the clock
  readings and random bytes it used, and the states a sequence of calls leads to. The two halves of an
  upload and of the sweep's log removal are calls of their own, because other calls may come between
  them. A call is an atomic step; that this is what subscribers see under concurrency is the subject of
  the theory Sequencer.
\<close>

section \<open>Calls\<close>

datatype qcall =
    CSubmit int "8 word list" job_submission
  | CSubmitReused int "8 word list" job_submission result
  | CRecordLocal int "8 word list" string job_submission string
  | CClaim int string string claim_request bool
  | CStart int string string
  | CHeartbeat int string string
  | CRelease int string release_request
  | CResult int int string result_request
  | CCancel int string bool
  | CSetPosition int string position
  | CPutLog int int string string string
  | CPutLogCommit int int string string string
  | CForgetLogs int
  | CRemoveForgotten "string list"
  | CSweep int int
  | CRecordOutcome outcome
  | CRestart int

definition fresh_id :: "int \<Rightarrow> 8 word list \<Rightarrow> string" where
  "fresh_id now_ms rnd = new_job_id (word_of_int now_ms) rnd"

definition restart :: "options \<Rightarrow> int \<Rightarrow> queue_state \<Rightarrow> queue_state" where
  "restart opt now_ms st = (case new_queue opt now_ms (q_db st) of Inl _ \<Rightarrow> st | Inr (_, d) \<Rightarrow> st\<lparr>q_db := d\<rparr>)"

fun run_call :: "options \<Rightarrow> qcall \<Rightarrow> queue_state \<Rightarrow> queue_state" where
  "run_call opt (CSubmit t rnd s) st = snd (submit opt (fresh_id t rnd) t s st)"
| "run_call opt (CSubmitReused t rnd s res) st = snd (submit_reused opt (fresh_id t rnd) t s res st)"
| "run_call opt (CRecordLocal t rnd cid s w) st = snd (record_local opt (fresh_id t rnd) cid t s w st)"
| "run_call opt (CClaim t cid jid req fp) st = snd (claim_job opt t cid jid req fp st)"
| "run_call opt (CStart t jid cid) st = snd (start_job opt t jid cid st)"
| "run_call opt (CHeartbeat t jid cid) st = snd (heartbeat opt t jid cid st)"
| "run_call opt (CRelease t jid req) st = snd (release opt t jid req st)"
| "run_call opt (CResult t at_ms jid req) st = snd (post_result opt t at_ms jid req st)"
| "run_call opt (CCancel t jid fp) st = snd (cancel opt t jid fp st)"
| "run_call opt (CSetPosition t jid p) st = snd (set_position opt t jid p st)"
| "run_call opt (CPutLog t t2 jid cid body) st = snd (put_log opt t t2 jid cid body st)"
| "run_call opt (CPutLogCommit t t2 jid cid body) st = snd (put_log_commit opt t t2 jid cid body st)"
| "run_call opt (CForgetLogs t) st = snd (write_only opt (forget_logs_tx t) st)"
| "run_call opt (CRemoveForgotten ids) st = remove_forgotten opt ids st"
| "run_call opt (CSweep clock t) st = snd (sweep opt clock t st)"
| "run_call opt (CRecordOutcome u) st = snd (record_outcome opt u st)"
| "run_call opt (CRestart t) st = restart opt t st"

text \<open>The random source gives ten bytes.\<close>

fun call_ok :: "qcall \<Rightarrow> bool" where
  "call_ok (CSubmit _ rnd _) = (length rnd = 10)"
| "call_ok (CSubmitReused _ rnd _ _) = (length rnd = 10)"
| "call_ok (CRecordLocal _ rnd _ _ _) = (length rnd = 10)"
| "call_ok _ = True"

definition run_calls :: "options \<Rightarrow> qcall list \<Rightarrow> queue_state \<Rightarrow> queue_state" where
  "run_calls opt cs st = fold (run_call opt) cs st"

text \<open>A queue over a new database; the repositories and the log directory may hold anything.\<close>

definition start_state :: "string \<Rightarrow> refs \<Rightarrow> (string \<Rightarrow> string option) \<Rightarrow> queue_state" where
  "start_state epoch R files = \<lparr>q_db = create_schema epoch, q_refs = R, q_events = [], q_logs = files, q_offered = []\<rparr>"

definition opt_ok :: "options \<Rightarrow> bool" where
  "opt_ok opt \<longleftrightarrow> o_origin opt \<noteq> '''' \<and> pinner_good opt"

inductive reachable :: "options \<Rightarrow> queue_state \<Rightarrow> bool" for opt where
  start: "reachable opt (start_state epoch R files)"
| call: "reachable opt st \<Longrightarrow> call_ok c \<Longrightarrow> reachable opt (run_call opt c st)"

section \<open>Every call keeps the invariant\<close>

lemma fresh_id_ok: "length rnd = 10 \<Longrightarrow> id_ok (fresh_id t rnd)"
  by (simp add: fresh_id_def new_job_id_ok)

lemma queue_ok_parts: "queue_ok st \<Longrightarrow> db_wf (q_db st)" "queue_ok st \<Longrightarrow> pins_ok st" "queue_ok st \<Longrightarrow> logs_ok st"
  by (simp_all add: queue_ok_def)

lemma quiet_ok:
  assumes "quiet_tx body" and "queue_ok st" and "pinner_good opt"
  shows "queue_ok (snd (write_tx opt body st))"
proof -
  note parts = queue_ok_parts [OF assms(2)]
  show ?thesis
    using quiet_tx.write_tx_effects [OF assms(1) parts assms(3)]
      safe_tx.write_tx_safe [OF quiet_tx.axioms(1) [OF assms(1)] parts(1)]
    by (intro queue_okI)
qed

lemma quiet_only_ok:
  assumes "quiet_tx body" and "queue_ok st"
  shows "queue_ok (snd (write_only opt body st))"
proof -
  note parts = queue_ok_parts [OF assms(2)]
  show ?thesis
    using quiet_tx.write_only_effects [OF assms(1) parts]
      safe_tx.write_only_safe [OF quiet_tx.axioms(1) [OF assms(1)] parts(1)]
    by (intro queue_okI) blast+
qed

lemma queue_ok_offer: "queue_ok (offer_result opt j p st) = queue_ok st"
  by (simp add: queue_ok_def pins_ok_def logs_ok_def)

lemma run_call_ok:
  assumes opt: "opt_ok opt" and ok: "queue_ok st" and c: "call_ok c"
  shows "queue_ok (run_call opt c st)"
proof -
  have good: "pinner_good opt" and origin: "o_origin opt \<noteq> ''''"
    using opt by (simp_all add: opt_ok_def)
  note q = quiet_ok [OF _ ok good] and q1 = quiet_only_ok [OF _ ok]
  show ?thesis
  proof (cases c)
    case (CSubmit t rnd s)
    then show ?thesis using submit_ok [OF good ok fresh_id_ok origin] c by simp
  next
    case (CSubmitReused t rnd s res)
    then have jid: "id_ok (fresh_id t rnd)" using c fresh_id_ok by simp
    let ?res = "reused_result res t"
    have "queue_ok (snd (write_tx opt (submit_reused_tx opt (fresh_id t rnd) t s ?res) st))"
      if "submission_validate s = None" "result_validate (Some ?res) = None"
      using q [OF submit_reused_q.quiet_tx_axioms, of s "fresh_id t rnd" opt ?res t] that jid origin
      by (simp add: write_tx_guarded reused_result_def)
    then show ?thesis
      using CSubmitReused ok by (auto simp: submit_reused_def Let_def split: option.split prod.split sum.split)
  next
    case (CRecordLocal t rnd cid s w)
    then have jid: "id_ok (fresh_id t rnd)" using c fresh_id_ok by simp
    have "queue_ok (snd (write_tx opt (record_local_tx opt (fresh_id t rnd) cid t s w) st))" if "local_run_validate s = None"
      using q [OF record_local_q.quiet_tx_axioms, of s "fresh_id t rnd" opt cid t w] that jid origin
      by (simp add: write_tx_guarded)
    then show ?thesis
      using CRecordLocal ok by (auto simp: record_local_def split: option.split prod.split sum.split)
  next
    case (CClaim t cid jid req fp)
    then show ?thesis
      using q [OF claim_q.quiet_tx_axioms] ok by (simp add: claim_job_def split: option.split)
  next
    case (CStart t jid cid)
    then show ?thesis using q [OF start_q.quiet_tx_axioms] by (simp add: start_job_def)
  next
    case (CHeartbeat t jid cid)
    then show ?thesis using q1 [OF heartbeat_q.quiet_tx_axioms] by (simp add: heartbeat_def)
  next
    case (CRelease t jid req)
    then show ?thesis using q [OF release_q.quiet_tx_axioms] ok by (simp add: release_def split: option.split)
  next
    case (CResult t at_ms jid req)
    have "queue_ok (snd (write_tx opt (result_tx opt t at_ms ref jid req) st))" if "result_request_validate req = None" for ref
      using q [OF result_q.quiet_tx_axioms, of req opt t at_ms ref jid] that by (simp add: write_tx_guarded)
    note this [of "reference_of opt jid (q_db st)"]
    then show ?thesis
      using CResult ok by (auto simp: post_result_def queue_ok_offer split: option.split prod.split sum.split)
  next
    case (CCancel t jid fp)
    then show ?thesis
      using q [OF cancel_q.quiet_tx_axioms, of t jid fp] by (auto simp: cancel_def split: prod.split sum.split)
  next
    case (CSetPosition t jid p)
    then show ?thesis
      using q [OF set_position_q.quiet_tx_axioms, of p t jid] ok
      by (auto simp: set_position_def write_tx_guarded split: prod.split sum.split)
  next
    case (CPutLog t t2 jid cid body)
    then show ?thesis using put_log_commit_ok [OF good ok] ok by (simp add: put_log_def split: sum.split)
  next
    case (CPutLogCommit t t2 jid cid body)
    then show ?thesis using put_log_commit_ok [OF good ok] by simp
  next
    case (CForgetLogs t)
    then show ?thesis using forget_logs_ok [OF ok] by simp
  next
    case (CRemoveForgotten ids)
    then show ?thesis using remove_forgotten_ok [OF ok] by simp
  next
    case (CSweep clock t)
    then show ?thesis using sweep_ok [OF good ok] by simp
  next
    case (CRecordOutcome u)
    then show ?thesis using q1 [OF record_out_q.quiet_tx_axioms] ok by (simp add: record_outcome_def split: option.split)
  next
    case (CRestart t)
    then show ?thesis using ok restart_ok [OF ok] by (auto simp: restart_def split: sum.split)
  qed
qed

lemma find_create_schema [simp]: "find_job k (create_schema e) = None"
  by (simp add: find_job_def create_schema_def)

lemma start_state_ok: "queue_ok (start_state epoch R files)"
  by (simp add: queue_ok_def start_state_def db_wf_create_schema pins_ok_def logs_ok_def)

lemma reachable_ok: "reachable opt st \<Longrightarrow> opt_ok opt \<Longrightarrow> queue_ok st"
  by (induction rule: reachable.induct) (auto intro: start_state_ok run_call_ok)

section \<open>Every call is a safe change of the tables\<close>

lemma run_call_safe:
  assumes opt: "opt_ok opt" and wf: "db_wf (q_db st)" and c: "call_ok c"
  shows "safe_change (q_db st) (q_db (run_call opt c st))"
proof -
  have origin: "o_origin opt \<noteq> ''''"
    using opt by (simp add: opt_ok_def)
  note refl = safe_change_refl [OF wf]
  show ?thesis
  proof (cases c)
    case (CSubmit t rnd s)
    then show ?thesis using submit_safe [OF wf fresh_id_ok origin] c by simp
  next
    case (CSubmitReused t rnd s res)
    then show ?thesis using submit_reused_safe [OF wf fresh_id_ok origin] c by simp
  next
    case (CRecordLocal t rnd cid s w)
    then show ?thesis using record_local_safe [OF wf fresh_id_ok origin] c by simp
  next
    case (CRestart t)
    then show ?thesis
      using refl extend_held_leases_safe [OF wf]
      by (auto simp: restart_def new_queue_def Let_def split: sum.split if_splits)
  qed (use refl claim.write_tx_safe [OF wf] start.write_tx_safe [OF wf] heartbeat.write_only_safe [OF wf]
      release.write_tx_safe [OF wf] post_result_safe [OF wf] cancel_safe [OF wf] set_position_safe [OF wf]
      put_log_safe [OF wf] put_log_commit_safe [OF wf] forget.write_only_safe [OF wf] sweep_safe [OF wf]
      record_out.write_only_safe [OF wf] in
      \<open>simp_all add: claim_job_def start_job_def heartbeat_def release_def record_outcome_def split: option.split\<close>)
qed

lemma run_calls_safe:
  assumes "opt_ok opt" and "db_wf (q_db st)" and "list_all call_ok cs"
  shows "safe_change (q_db st) (q_db (run_calls opt cs st))"
  using assms(2,3) unfolding run_calls_def
proof (induction cs arbitrary: st)
  case (Cons c cs)
  have "safe_change (q_db st) (q_db (run_call opt c st))"
    using run_call_safe [OF assms(1)] Cons.prems by simp
  then show ?case
    using Cons.IH [of "run_call opt c st"] Cons.prems(2) safe_change_trans safe_change_wf by fastforce
qed (simp add: safe_change_refl)

end
