(* ===== verification/Samples.thy ===== *)
theory Samples
  imports Queue
begin

text \<open>
  Concrete values the witnesses evaluate the model on: a submission, a worker's requests, the options
  of a queue whose pins are git's, and a short history of calls.
\<close>

definition sample_submission :: job_submission where
  "sample_submission =
     \<lparr>s_repo = \<lparr>repo_name = ''purdex'', repo_root = ''/r'', repo_remote = ''''\<rparr>,
      s_snapshot = \<lparr>snap_commit = replicate 40 CHR ''a'', snap_tree = ''t1'', snap_base = '''', snap_rel_cwd = ''''\<rparr>,
      s_task = ''test'', s_args = [], s_class = ClassDev, s_labels = [], s_locks = [], s_cacheable = True,
      s_timeout_s = 0, s_supersede_key = ''k'', s_interruptible = True, s_queue_timeout_s = 0, s_adhoc = False,
      s_submitter = \<lparr>sub_session = ''s'', sub_ref = '''', sub_team = '''', sub_host = ''''\<rparr>,
      s_def_hash = ''h'', s_no_cache = False, s_git_dir = ''/r/.git''\<rparr>"

definition sample_git :: git where
  "sample_git = \<lparr>g_own_repo = (\<lambda>_. True), g_has_commit = (\<lambda>_ _. True), g_try = (\<lambda>_ _ _. RefWritten)\<rparr>"

definition sample_options :: options where
  "sample_options =
     \<lparr>o_origin = ''m1'', o_lease_s = 60, o_renew_s = 15, o_pinner = Some (git_pinner sample_git),
      o_dir_gone = (\<lambda>_. False), o_log_dir = True, o_max_log = default_max_log, o_reference = None, o_offers = True,
      o_hash = (\<lambda>ts as. concat ts @ concat as)\<rparr>"

definition sample_start :: queue_state where
  "sample_start = start_state (replicate 32 CHR ''0'') (\<lambda>_. None) (\<lambda>_. None)"

definition sample_rnd :: "8 word list" where
  "sample_rnd = replicate 10 0"

definition sample_id :: string where
  "sample_id = ''j_0000000000'' @ replicate 16 CHR ''0''"

definition sample_cid :: string where
  "sample_cid = replicate 32 CHR ''1''"

definition sample_claim :: claim_request where
  "sample_claim = \<lparr>cr_worker = ''w1'', cr_labels = [], cr_fingerprint = []\<rparr>"

definition sample_result :: result_request where
  "sample_result = \<lparr>rq_claim_id = sample_cid, rq_state = StateSucceeded, rq_exit = Some 0, rq_summary = None,
     rq_started_at = None, rq_finished_at = None, rq_reason = ''''\<rparr>"

definition sample_queued :: queue_state where
  "sample_queued = run_calls sample_options [CSubmit 0 sample_rnd sample_submission] sample_start"

definition sample_claimed :: queue_state where
  "sample_claimed = run_calls sample_options [CSubmit 0 sample_rnd sample_submission, CClaim 1000 sample_cid sample_id sample_claim True] sample_start"

end
