(* ===== verification/QueueMoves.thy ===== *)
theory QueueMoves
  imports Samples
begin

text \<open>
  The life cycle of a job, call by call: which call may move which job to which state. The table
  \<open>may_move\<close> is the specification; each transaction of the queue is shown to keep to its line through
  one locale, \<open>moving_tx\<close>, which extends the contract of a transaction body, and the calls are put
  together from there.
\<close>

section \<open>The table\<close>

text \<open>
  What becomes of a held job that is taken from its worker: one that was superseded or is to be
  cancelled ends as that, a fast-lane run and one that is lost for the second time fail, every other
  goes back to the queue.
\<close>

definition taken_back :: "bool \<Rightarrow> job_row \<Rightarrow> job_state" where
  "taken_back lapsed r =
     (if c_superseded_by r \<noteq> None then StateSuperseded
      else if c_cancel_requested r then StateCancelled
      else if c_local r \<or> (lapsed \<and> 1 \<le> c_lapses r) then StateFailed
      else StateQueued)"

definition superseded_move :: "job_submission \<Rightarrow> job_row \<Rightarrow> job_state \<Rightarrow> bool" where
  "superseded_move s r t \<longleftrightarrow> c_state r = StateQueued \<and> s_supersede_key s \<noteq> ''''
     \<and> s_supersede_key (c_sub r) = s_supersede_key s \<and> t = StateSuperseded"

definition swept_move :: "int \<Rightarrow> job_row \<Rightarrow> job_state \<Rightarrow> bool" where
  "swept_move now_ms r t \<longleftrightarrow>
     (lease_out now_ms r \<and> (t = taken_back True r \<or> (taken_back True r = StateQueued \<and> t = StateExpired)))
     \<or> (waited_out now_ms r \<and> t = StateExpired)"

fun may_move :: "qcall \<Rightarrow> job_row \<Rightarrow> job_state \<Rightarrow> bool" where
  "may_move (CSubmit _ _ s) r t = superseded_move s r t"
| "may_move (CSubmitReused _ _ s _) r t = superseded_move s r t"
| "may_move (CClaim _ _ jid _ _) r t =
     (c_id r = jid \<and> c_state r = StateQueued \<and> c_manual r \<noteq> PositionHold \<and> t = StateClaimed)"
| "may_move (CStart _ jid cid) r t =
     (c_id r = jid \<and> c_state r = StateClaimed \<and> c_claim_id r = Some cid \<and> t = StateRunning)"
| "may_move (CRelease _ jid req) r t =
     (c_id r = jid \<and> held_state (c_state r) \<and> c_claim_id r = Some (rl_claim_id req) \<and> t = taken_back False r)"
| "may_move (CResult _ _ jid req) r t =
     (c_id r = jid \<and> held_state (c_state r) \<and> c_claim_id r = Some (rq_claim_id req) \<and> t = rq_state req)"
| "may_move (CCancel _ jid _) r t = (c_id r = jid \<and> c_state r = StateQueued \<and> t = StateCancelled)"
| "may_move (CSweep _ now_ms) r t = swept_move now_ms r t"
| "may_move _ r t = False"

section \<open>Tables in which jobs have moved\<close>

definition moved :: "(job_row \<Rightarrow> job_state \<Rightarrow> bool) \<Rightarrow> db \<Rightarrow> db \<Rightarrow> bool" where
  "moved may d d' \<longleftrightarrow> (\<forall>k r r'. find_job k d = Some r \<longrightarrow> find_job k d' = Some r' \<longrightarrow>
     c_seq r' = c_seq r \<and> (c_state r' = c_state r \<or> may r (c_state r')))"

text \<open>A change that moves no job and makes none; it may drop some.\<close>

definition unmoved :: "db \<Rightarrow> db \<Rightarrow> bool" where
  "unmoved d d' \<longleftrightarrow> (\<forall>k r'. find_job k d' = Some r' \<longrightarrow>
     (\<exists>r. find_job k d = Some r \<and> c_seq r' = c_seq r \<and> c_state r' = c_state r))"

lemma unmoved_refl [simp]: "unmoved d d"
  by (simp add: unmoved_def)

lemma unmoved_same: "(\<And>k. find_job k d' = find_job k d) \<Longrightarrow> unmoved d d'"
  by (simp add: unmoved_def)

lemma unmoved_trans: "unmoved d d1 \<Longrightarrow> unmoved d1 d2 \<Longrightarrow> unmoved d d2"
  unfolding unmoved_def by metis

lemma unmoved_moved: "unmoved d d' \<Longrightarrow> moved may d d'"
  unfolding unmoved_def moved_def by (metis option.inject)

lemma moved_refl [simp]: "moved may d d"
  by (simp add: unmoved_moved)

lemma moved_unmoved: "moved may d d1 \<Longrightarrow> unmoved d1 d2 \<Longrightarrow> moved may d d2"
  unfolding unmoved_def moved_def by metis

lemma moved_cong: "(\<And>k. find_job k d1 = find_job k d) \<Longrightarrow> moved may d1 d' \<longleftrightarrow> moved may d d'"
  by (simp add: moved_def)

lemma moved_update:
  assumes "\<And>r. c_id (f r) = c_id r" and "\<And>r. c_seq (f r) = c_seq r"
    and "\<And>r. find_job jid d = Some r \<Longrightarrow> c_state (f r) = c_state r \<or> may r (c_state (f r))"
  shows "moved may d (update_job cols jid f d)"
  using assms(2,3) by (auto simp: moved_def find_update_job [OF assms(1)])

lemma moved_insert: "insert_job jid origin s t pinned d = Inr d' \<Longrightarrow> moved may d d'"
  by (auto simp: moved_def find_insert_job) (auto simp: insert_job_def)

lemma settle_pins_unmoved: "unmoved (q_db st) (q_db (fst (settle_pins opt st)))"
  unfolding unmoved_def
proof (intro allI impI)
  fix k r' assume r': "find_job k (q_db (fst (settle_pins opt st))) = Some r'"
  obtain b where "find_job k (q_db (fst (settle_pins opt st))) = map_option (unpin_row b) (find_job k (q_db st))"
    using settle_pins_row by blast
  with r' show "\<exists>r. find_job k (q_db st) = Some r \<and> c_seq r' = c_seq r \<and> c_state r' = c_state r"
    by auto
qed

section \<open>The contract of a transaction\<close>

locale moving_tx = safe_tx +
  fixes may :: "job_row \<Rightarrow> job_state \<Rightarrow> bool"
  assumes moves: "db_wf d \<Longrightarrow> body d = Inr (a, changed, d') \<Longrightarrow> moved may d d'"
begin

lemma write_only_moves: "db_wf (q_db st) \<Longrightarrow> moved may (q_db st) (q_db (snd (write_only opt body st)))"
  using moves by (auto simp: write_only_eq split: sum.split)

lemma write_tx_moves:
  assumes "db_wf (q_db st)"
  shows "moved may (q_db st) (q_db (snd (write_tx opt body st)))"
proof -
  obtain out st1 where w: "write_only opt body st = (out, st1)"
    by (cases "write_only opt body st")
  have m: "moved may (q_db st) (q_db st1)"
    using write_only_moves [OF assms, of opt] w by simp
  then have "moved may (q_db st) (q_db (fst (settle_pins opt st1)))"
    by (rule moved_unmoved) (rule settle_pins_unmoved)
  with m show ?thesis
    using w by (simp add: write_tx_def split: sum.split)
qed

end

section \<open>The transactions\<close>

lemma waited_out_rev [simp]: "waited_out t (r\<lparr>c_rev := n\<rparr>) = waited_out t r"
  by (simp add: waited_out_def)

lemma state_of_rows [simp]:
  "c_state (claim_row opt t cid req r) = StateClaimed" "c_state (start_row opt t r) = StateRunning"
  "c_state (end_row s res rc t r) = s" "c_state (finish_row s why b t r) = s"
  "c_state (supersede_row nid i t r) = c_state r" "c_state (cancel_row t r) = c_state r"
  "c_state (place_row m n t r) = c_state r" "c_state (put_log_row k t r) = c_state r"
  "c_state (point_row l r) = c_state r" "c_state (forget_log_row r) = c_state r"
  "c_state (result_row rq t r0 r) = rq_state rq"
  by (simp_all add: claim_row_def start_row_def end_row_def finish_row_def supersede_row_def cancel_row_def
      place_row_def put_log_row_def point_row_def forget_log_row_def result_row_def)

lemma c_state_let_go_row [simp]: "c_state (let_go_row t n l why r) = taken_back l r"
  by (auto simp: let_go_row_def let_go_end_def taken_back_def requeue_row_def count_row_def end_row_def max_lapses_def
      split: option.split)

lemma c_seq_let_go_row [simp]: "c_seq (let_go_row t n l why r) = c_seq r"
  by (simp add: let_go_row_def requeue_row_def count_row_def end_row_def split: option.split prod.split)

lemma renew_unmoved: "unmoved d (renew opt jid t d)"
  by (auto simp: unmoved_def renew_def find_update_job split: if_splits)

interpretation claim_m: moving_tx "claim_tx opt t cid jid req fp" "may_move (CClaim t cid jid req fp)" for opt t cid jid req fp
proof
  fix d a d' and changed :: "string list"
  assume "claim_tx opt t cid jid req fp d = Inr (a, changed, d')"
  then show "moved (may_move (CClaim t cid jid req fp)) d d'"
    by (rule claim_tx_Inr) (auto intro!: moved_update dest: find_job_Some)
qed

interpretation start_m: moving_tx "start_tx opt t jid cid" "may_move (CStart t jid cid)" for opt t jid cid
proof
  fix d a d' and changed :: "string list"
  assume "start_tx opt t jid cid d = Inr (a, changed, d')"
  then show "moved (may_move (CStart t jid cid)) d d'"
    by (auto simp: start_tx_def bind_err_Inr_iff load_held_Inr find_for_Some live_row split: if_splits
        intro!: moved_update unmoved_moved [OF renew_unmoved] dest: find_job_Some)
qed

interpretation heartbeat_m: moving_tx "heartbeat_tx opt t jid cid" "may_move (CHeartbeat t jid cid)" for opt t jid cid
  by unfold_locales (auto simp: heartbeat_tx_def bind_err_Inr_iff intro!: unmoved_moved [OF renew_unmoved])

interpretation release_m: moving_tx "release_tx t jid req" "may_move (CRelease t jid req)" for t jid req
proof
  fix d a d' and changed :: "string list"
  assume wf: "db_wf d" and "release_tx t jid req d = Inr (a, changed, d')"
  then obtain r n where r: "find_job jid d = Some r" "held_state (c_state r)" "c_claim_id r = Some (rl_claim_id req)"
    and d': "d' = let_go t (row_held r) n False (reason_text (rl_reason req)) d"
    by (auto simp: release_tx_def bind_err_Inr_iff load_held_Inr find_for_Some live_row)
  show "moved (may_move (CRelease t jid req)) d d'"
    using r find_job_Some [OF r(1)]
    by (auto simp: moved_def d' find_let_go [OF r(1)] split: if_splits)
qed

interpretation result_m: moving_tx "guarded (result_request_validate req = None) (result_tx opt t at_ms ref jid req)"
  "may_move (CResult t at_ms jid req)" for opt t at_ms ref jid req
proof
  fix d a d' and changed :: "string list"
  assume "guarded (result_request_validate req = None) (result_tx opt t at_ms ref jid req) d = Inr (a, changed, d')"
  then have "result_tx opt t at_ms ref jid req d = Inr (a, changed, d')" by simp
  then show "moved (may_move (CResult t at_ms jid req)) d d'"
  proof (cases rule: result_tx_cases)
    case (ended r rf j p)
    let ?d1 = "update_job end_cols jid (result_row req t r) d"
    have "moved (may_move (CResult t at_ms jid req)) d ?d1"
      using ended(1-3) find_job_Some [OF ended(1)] by (intro moved_update) auto
    moreover have "unmoved ?d1 d'"
      unfolding ended(9) by (rule unmoved_same) (rule same_jobs_find [OF record_ended_outcome_same])
    ultimately show ?thesis by (rule moved_unmoved)
  qed simp
qed

interpretation cancel_m: moving_tx "cancel_tx t jid fp" "may_move (CCancel t jid fp)" for t jid fp
proof
  fix d a d' and changed :: "string list"
  assume "cancel_tx t jid fp d = Inr (a, changed, d')"
  then show "moved (may_move (CCancel t jid fp)) d d'"
    by (cases rule: cancel_tx_cases) (auto simp: find_for_Some intro!: moved_update dest: find_job_Some)
qed

interpretation set_position_m: moving_tx "guarded (valid_request p) (set_position_tx t jid p)" "may_move (CSetPosition t jid p)"
  for t jid p
proof
  fix d a d' and changed :: "string list"
  assume "guarded (valid_request p) (set_position_tx t jid p) d = Inr (a, changed, d')"
  then have "set_position_tx t jid p d = Inr (a, changed, d')" by simp
  then show "moved (may_move (CSetPosition t jid p)) d d'"
    by (cases rule: set_position_tx_cases) (auto intro!: moved_update)
qed

interpretation put_log_m: moving_tx "put_log_tx n t t2 jid cid" "\<lambda>_ _. False" for n t t2 jid cid
proof
  fix d a d' and changed :: "string list"
  assume "put_log_tx n t t2 jid cid d = Inr (a, changed, d')"
  then show "moved (\<lambda>_ _. False) d d'"
  proof (cases rule: put_log_tx_cases)
    case (running r)
    then show ?thesis by (auto simp: logged_db_def intro!: moved_update)
  next
    case (ended r)
    then show ?thesis
      by (auto simp: moved_def pointed_db_def logged_db_def find_update_job)
  qed
qed

lemma forget_fold_unmoved: "unmoved d (fold forget_log xs d)"
proof (induction xs arbitrary: d)
  case (Cons x xs)
  have "unmoved d (forget_log x d)"
    by (auto simp: unmoved_def forget_log_def find_update_job split: if_splits)
  with Cons [of "forget_log x d"] show ?case by (auto intro: unmoved_trans)
qed simp

interpretation forget_m: moving_tx "forget_logs_tx t" "\<lambda>_ _. False" for t
proof
  fix d a d' and changed :: "string list"
  assume "forget_logs_tx t d = Inr (a, changed, d')"
  then have d': "d' = fold forget_log changed d"
    by (auto simp: forget_logs_tx_def Let_def)
  show "moved (\<lambda>_ _. False) d d'"
    unfolding d' by (rule unmoved_moved) (rule forget_fold_unmoved)
qed

interpretation record_out_m: moving_tx "\<lambda>d. case record_outcome_on opt u d of (ws, d') \<Rightarrow> Inr (ws, [], d')" "\<lambda>_ _. False"
  for opt u
proof
  fix d a d' and changed :: "string list"
  assume "(case record_outcome_on opt u d of (ws, d') \<Rightarrow> Inr (ws, [], d')) = Inr (a, changed, d')"
  then have "same_jobs d d'"
    using record_outcome_on_same [of d opt u] by (auto split: prod.splits)
  then show "moved (\<lambda>_ _. False) d d'"
    by (auto intro!: unmoved_moved unmoved_same simp: same_jobs_find)
qed

subsection \<open>Submissions\<close>

lemma supersede_older_row:
  assumes wf: "db_wf d" and r: "find_job k d = Some r" and "k \<noteq> jid"
  shows "\<exists>r'. find_job k (fold (supersede_one jid t) (older_of jid key d) d) = Some r' \<and> c_seq r' = c_seq r \<and>
    (if s_supersede_key (c_sub r) = key \<and> \<not> terminal (c_state r)
     then c_superseded_by r' = Some jid \<and> k \<in> fst ` set (older_of jid key d)
       \<and> (if c_state r = StateQueued then c_state r' = StateSuperseded \<and> map_option r_reason (c_result r') = Some (''superseded_by:'' @ jid)
          else c_state r' = c_state r \<and> (c_cancel_requested r' \<longleftrightarrow> c_cancel_requested r \<or> s_interruptible (c_sub r)))
     else r' = r)"
proof -
  let ?olds = "older_of jid key d" and ?x = "(k, c_state r, s_interruptible (c_sub r))"
  have rk: "c_id r = k"
    using find_job_Some [OF r] by simp
  show ?thesis
  proof (cases "older_live jid key r")
    case True
    then have mem: "?x \<in> set ?olds"
      using r rk by (auto simp: older_of_iff [OF wf])
    then obtain n where n: "find_job k (fold (supersede_one jid t) ?olds d) = Some ((superseded_row jid t ?x r)\<lparr>c_rev := n\<rparr>)"
      using supersede.loop_row [OF older_of_distinct [OF wf] mem, where d = d and r = r and t = t] r by auto
    moreover have "\<not> terminal (c_state r)" "s_supersede_key (c_sub r) = key"
      using True by (auto simp: older_live_def)
    ultimately show ?thesis
      using mem by (auto simp: superseded_row_def finish_row_def supersede_row_def zero_result_def intro!: rev_image_eqI)
  next
    case False
    then have "k \<notin> fst ` set ?olds"
      using r rk by (auto simp: older_of_iff [OF wf])
    then have "find_job k (fold (supersede_one jid t) ?olds d) = Some r"
      using supersede.loop_other [of k ?olds jid t d] r by simp
    moreover have "state_valid (c_state r)"
      using db_wf_find [OF wf r] by (simp add: row_wf_def)
    then have "\<not> (s_supersede_key (c_sub r) = key \<and> \<not> terminal (c_state r))"
      using False \<open>k \<noteq> jid\<close> rk by (cases "c_state r") (auto simp: older_live_def)
    ultimately show ?thesis by auto
  qed
qed

lemma supersede_if_moves:
  assumes wf: "db_wf d1" and sup: "supersede_if jid (s_supersede_key s) t d1 = (ids, d2)"
    and other: "\<And>k. k \<noteq> jid \<Longrightarrow> find_job k d1 = find_job k d" and new: "find_job jid d = None"
  shows "moved (superseded_move s) d d2"
  unfolding moved_def
proof (intro allI impI)
  fix k r r'
  assume r: "find_job k d = Some r" and r': "find_job k d2 = Some r'"
  have k: "k \<noteq> jid"
    using r new by auto
  then have r1: "find_job k d1 = Some r"
    using r other by simp
  show "c_seq r' = c_seq r \<and> (c_state r' = c_state r \<or> superseded_move s r (c_state r'))"
  proof (cases "s_supersede_key s = ''''")
    case True
    then show ?thesis using sup r1 r' by (simp add: supersede_if_def)
  next
    case False
    then have d2: "d2 = fold (supersede_one jid t) (older_of jid (s_supersede_key s) d1) d1"
      using sup by (simp add: supersede_if_def supersede_older_eq)
    show ?thesis
      using supersede_older_row [OF wf r1 k, of t "s_supersede_key s"] r' False
      by (auto simp: d2 superseded_move_def split: if_splits)
  qed
qed

lemma older_of_not_new: "jid \<notin> fst ` set (older_of jid key d)"
  by (auto simp: older_of_def older_live_def)

lemma insert_job_new: "insert_job jid origin s t pinned d = Inr d' \<Longrightarrow> find_job jid d = None"
  by (auto simp: insert_job_def split: option.splits)

interpretation submit_m: moving_tx
  "guarded (submission_validate s = None \<and> id_ok jid \<and> o_origin opt \<noteq> '''') (submit_tx opt jid t s pinned)"
  "superseded_move s" for opt jid t s pinned
proof
  fix d a d' and changed :: "string list"
  assume wf: "db_wf d" and "guarded (submission_validate s = None \<and> id_ok jid \<and> o_origin opt \<noteq> '''')
      (submit_tx opt jid t s pinned) d = Inr (a, changed, d')"
  then have val: "submission_validate s = None" "jid \<noteq> ''''" "\<not> has_slash jid" "o_origin opt \<noteq> ''''"
    and ok: "submit_tx opt jid t s pinned d = Inr (a, changed, d')"
    by (simp_all add: id_ok_def)
  from ok obtain d1 ids where ins: "insert_job jid (o_origin opt) s t pinned d = Inr d1"
    and sup: "supersede_if jid (s_supersede_key s) t d1 = (ids, d')"
    by (cases "insert_job jid (o_origin opt) s t pinned d") (auto simp: submit_tx_def split: prod.splits)
  have "db_wf d1"
    using insert_job_safe [OF wf ins new_row_wf [OF val]] by (rule safe_change_wf)
  from supersede_if_moves [OF this sup _ insert_job_new [OF ins]] show "moved (superseded_move s) d d'"
    using find_insert_job [OF ins] by simp
qed

interpretation submit_reused_m: moving_tx "guarded (reused_ok opt jid s res) (submit_reused_tx opt jid t s res)"
  "superseded_move s" for opt jid t s res
proof
  fix d a d' and changed :: "string list"
  let ?f = "reused_row res t"
  assume wf: "db_wf d" and "guarded (reused_ok opt jid s res) (submit_reused_tx opt jid t s res) d = Inr (a, changed, d')"
  then have val: "submission_validate s = None" "jid \<noteq> ''''" "\<not> has_slash jid" "o_origin opt \<noteq> ''''"
      "summary_validate (r_summary res) = None" "r_superseded_by res = None"
    and ok: "submit_reused_tx opt jid t s res d = Inr (a, changed, d')"
    by (simp_all add: id_ok_def result_validate_def)
  define cols where "cols = [ColState, ColResult, ColFinishedAt, ColUpdatedAt]"
  from ok obtain d1 ids where ins: "insert_job jid (o_origin opt) s t False d = Inr d1"
    and sup: "supersede_if jid (s_supersede_key s) t (update_job cols jid ?f d1) = (ids, d')"
    by (cases "insert_job jid (o_origin opt) s t False d")
      (auto simp: submit_reused_tx_def cols_def Let_def split: prod.splits)
  have "safe_change d (update_job cols jid ?f d1)"
    using wf ins reused_row_wf [OF val] by (intro insert_update_safe) (simp_all add: cols_def)
  then have "db_wf (update_job cols jid ?f d1)"
    by (rule safe_change_wf)
  from supersede_if_moves [OF this sup _ insert_job_new [OF ins]] show "moved (superseded_move s) d d'"
    using find_insert_job [OF ins] by (simp add: find_update_job)
qed

interpretation record_local_m: moving_tx
  "guarded (local_run_validate s = None \<and> id_ok jid \<and> o_origin opt \<noteq> '''') (record_local_tx opt jid cid t s worker)"
  "\<lambda>_ _. False" for opt jid cid t s worker
proof
  fix d a d' and changed :: "string list"
  assume "guarded (local_run_validate s = None \<and> id_ok jid \<and> o_origin opt \<noteq> '''')
      (record_local_tx opt jid cid t s worker) d = Inr (a, changed, d')"
  then obtain d1 where ins: "insert_job jid (o_origin opt) s t False d = Inr d1"
    and d': "d' = update_job local_cols jid (local_row opt worker cid t) d1"
    by (cases "insert_job jid (o_origin opt) s t False d") (auto simp: record_local_tx_def)
  show "moved (\<lambda>_ _. False) d d'"
    using insert_job_new [OF ins] by (auto simp: moved_def d' find_update_job find_insert_job [OF ins] split: if_splits)
qed

subsection \<open>The sweep\<close>

text \<open>What the sweep's transaction leaves of a held job whose lease ran out.\<close>

lemma sweep_tx_lapsed_row:
  assumes wf: "db_wf d" and r: "find_job jid d = Some r" and out: "lease_out now_ms r"
    and tx: "sweep_tx clock now_ms d = Inr (a, changed, d')"
  obtains n where "\<not> waited_out now_ms (let_go_row clock 1 True ''lost'' r)"
      and "find_job jid d' = Some ((let_go_row clock 1 True ''lost'' r)\<lparr>c_rev := n\<rparr>)"
  | n where "waited_out now_ms (let_go_row clock 1 True ''lost'' r)"
      and "find_job jid d' = Some ((finish_row StateExpired ''queue_timeout'' None now_ms (let_go_row clock 1 True ''lost'' r))\<lparr>c_rev := n\<rparr>)"
proof -
  obtain d1 ids1 ids2 where sw: "sweep_tx clock now_ms d = Inr ((length ids1, length ids2), ids1 @ ids2, fold (expire now_ms) ids2 d1)"
    and ids1: "ids1 = map c_id (filter (lease_out now_ms) (db_jobs d))"
    and ids2: "ids2 = map c_id (filter (waited_out now_ms) (db_jobs d1))"
    and s: "safe_change d d1" "safe_change d1 (fold (expire now_ms) ids2 d1)"
    and other: "\<And>k. k \<notin> set ids1 \<Longrightarrow> find_job k d1 = find_job k d"
    and each: "\<And>k r. k \<in> set ids1 \<Longrightarrow> find_job k d = Some r \<Longrightarrow>
          \<exists>n. find_job k d1 = Some ((let_go_row clock 1 True ''lost'' r)\<lparr>c_rev := n\<rparr>)"
    by (rule sweep_tx_ok [OF wf, where clock = clock and now_ms = now_ms], rule that)
  have d': "d' = fold (expire now_ms) ids2 d1"
    using sw tx by simp
  have "jid \<in> set ids1"
    using find_job_Some [OF r] out by (auto simp: ids1)
  then obtain n where n: "find_job jid d1 = Some ((let_go_row clock 1 True ''lost'' r)\<lparr>c_rev := n\<rparr>)"
    using each r by blast
  show thesis
  proof (cases "jid \<in> set ids2")
    case False
    moreover have "c_id x \<in> set ids2" if "x \<in> set (db_jobs d1)" "waited_out now_ms x" for x
      using that by (simp add: ids2)
    ultimately have "\<not> waited_out now_ms ((let_go_row clock 1 True ''lost'' r)\<lparr>c_rev := n\<rparr>)"
      using find_job_Some [OF n] by metis
    then have "\<not> waited_out now_ms (let_go_row clock 1 True ''lost'' r)"
      by simp
    moreover have "find_job jid d' = Some ((let_go_row clock 1 True ''lost'' r)\<lparr>c_rev := n\<rparr>)"
      using n expiry.loop_other [of jid ids2 now_ms d1] False unfolding d' by simp
    ultimately show ?thesis by (rule that(1))
  next
    case True
    have "\<exists>r1. find_job jid d1 = Some r1 \<and> waited_out now_ms r1"
      using filter_ids_known [OF safe_change_wf [OF s(1)]] True unfolding ids2 by blast
    then have q: "waited_out now_ms (let_go_row clock 1 True ''lost'' r)"
      using n by auto
    have "distinct (map (\<lambda>x. x) ids2)"
      using distinct_ids_filter [OF safe_change_wf [OF s(1)]] by (simp add: ids2)
    from expiry.loop_row [OF this True n] obtain m where
      "find_job jid d' = Some ((finish_row StateExpired ''queue_timeout'' None now_ms
          ((let_go_row clock 1 True ''lost'' r)\<lparr>c_rev := n\<rparr>))\<lparr>c_rev := m\<rparr>)"
      unfolding d' by blast
    then show ?thesis
      using q that(2) [of m] by (simp add: finish_row_def)
  qed
qed

lemma sweep_tx_other_row:
  assumes wf: "db_wf d" and r: "find_job jid d = Some r" and out: "\<not> lease_out now_ms r"
    and tx: "sweep_tx clock now_ms d = Inr (a, changed, d')"
  obtains "find_job jid d' = Some r"
  | n where "waited_out now_ms r"
      and "find_job jid d' = Some ((finish_row StateExpired ''queue_timeout'' None now_ms r)\<lparr>c_rev := n\<rparr>)"
proof -
  obtain d1 ids1 ids2 where sw: "sweep_tx clock now_ms d = Inr ((length ids1, length ids2), ids1 @ ids2, fold (expire now_ms) ids2 d1)"
    and ids1: "ids1 = map c_id (filter (lease_out now_ms) (db_jobs d))"
    and ids2: "ids2 = map c_id (filter (waited_out now_ms) (db_jobs d1))"
    and s: "safe_change d d1"
    and other: "\<And>k. k \<notin> set ids1 \<Longrightarrow> find_job k d1 = find_job k d"
    by (rule sweep_tx_ok [OF wf, where clock = clock and now_ms = now_ms], rule that)
  have d': "d' = fold (expire now_ms) ids2 d1"
    using sw tx by simp
  have "jid \<notin> set ids1"
    using filter_ids_known [OF wf, of jid "lease_out now_ms"] r out by (auto simp: ids1)
  then have r1: "find_job jid d1 = Some r"
    using other r by simp
  show thesis
  proof (cases "jid \<in> set ids2")
    case False
    then show ?thesis
      using r1 expiry.loop_other [of jid ids2 now_ms d1] d' that(1) by simp
  next
    case True
    then have "waited_out now_ms r"
      using filter_ids_known [OF safe_change_wf [OF s], of jid "waited_out now_ms"] r1 unfolding ids2 by simp
    moreover have "distinct (map (\<lambda>x. x) ids2)"
      using distinct_ids_filter [OF safe_change_wf [OF s]] by (simp add: ids2)
    ultimately show ?thesis
      using expiry.loop_row [OF _ True r1, of now_ms] that(2) unfolding d' by blast
  qed
qed

lemma sweep_logs_unmoved: "unmoved (q_db st) (q_db (snd (sweep_logs opt t st)))"
proof -
  have "unmoved d (fold forget_log xs d)" for xs d
    by (rule forget_fold_unmoved)
  then show ?thesis
    by (auto simp: sweep_logs_def write_only_def commit_def forget_logs_tx_def remove_forgotten_def remove_log_files_def
        bind_err_def Let_def split: sum.splits)
qed

interpretation sweep_m: moving_tx "sweep_tx clock t" "swept_move t" for clock t
proof
  fix d a d' and changed :: "string list"
  assume wf: "db_wf d" and tx: "sweep_tx clock t d = Inr (a, changed, d')"
  show "moved (swept_move t) d d'"
    unfolding moved_def
  proof (intro allI impI)
    fix k r r'
    assume r: "find_job k d = Some r" and r': "find_job k d' = Some r'"
    show "c_seq r' = c_seq r \<and> (c_state r' = c_state r \<or> swept_move t r (c_state r'))"
    proof (cases "lease_out t r")
      case True
      from wf r True tx show ?thesis
        by (cases rule: sweep_tx_lapsed_row) (use r' True in \<open>auto simp: swept_move_def waited_out_def\<close>)
    next
      case False
      from wf r False tx show ?thesis
        by (cases rule: sweep_tx_other_row) (use r' in \<open>auto simp: swept_move_def\<close>)
    qed
  qed
qed

lemma delete_retained_unmoved:
  assumes "db_wf (q_db st)"
  shows "unmoved (q_db st) (q_db (fst (delete_retained_jobs opt cutoff st)))"
  using db_wf_unique [OF assms]
  by (auto simp: unmoved_def delete_retained_jobs_def remove_log_files_def Let_def find_job_def lookup_by_filter
      split: option.splits)

lemma orphan_one_find:
  "orphan_one opt p t rec (st, n, m) = (st', n', m') \<Longrightarrow> find_job k (q_db st') = find_job k (q_db st)"
  by (auto simp: orphan_one_def split: if_splits prod.splits bool.splits)

lemma orphan_fold_find:
  "fold (orphan_one opt p t) recs (st, n, m) = (st', n', m') \<Longrightarrow> find_job k (q_db st') = find_job k (q_db st)"
proof (induction recs arbitrary: st n m)
  case (Cons rec recs)
  obtain st1 n1 m1 where s1: "orphan_one opt p t rec (st, n, m) = (st1, n1, m1)"
    by (metis prod_cases3)
  show ?case
    using Cons.IH [of st1 n1 m1] Cons.prems s1 orphan_one_find [OF s1] by simp
qed simp

lemma remove_orphan_pins_find: "find_job k (q_db (fst (remove_orphan_pins opt t st))) = find_job k (q_db st)"
proof (cases "o_pinner opt")
  case (Some p)
  obtain st' n m where f: "fold (orphan_one opt p t) (sort_key p_at (db_pins (q_db st))) (st, 0, 0) = (st', n, m)"
    by (metis prod_cases3)
  from orphan_fold_find [OF f] show ?thesis
    using Some f by (simp add: remove_orphan_pins_def)
qed (simp add: remove_orphan_pins_def)

lemma sweep_moves:
  assumes wf: "db_wf (q_db st)"
  shows "moved (swept_move t) (q_db st) (q_db (snd (sweep opt clock t st)))"
proof -
  obtain out1 st1 where e1: "write_only opt (sweep_tx clock t) st = (out1, st1)"
    by (cases "write_only opt (sweep_tx clock t) st")
  obtain out2 st2 where e2: "sweep_logs opt t st1 = (out2, st2)"
    by (cases "sweep_logs opt t st1")
  obtain st3 n3 m3 where e3: "settle_pins opt st2 = (st3, n3, m3)"
    by (cases "settle_pins opt st2")
  obtain st4 n4 where e4: "delete_retained_jobs opt (t - retention_ms) st3 = (st4, n4)"
    by (cases "delete_retained_jobs opt (t - retention_ms) st3")
  let ?st5 = "st4\<lparr>q_db := prune_outcomes (t - retention_ms) (q_db st4)\<rparr>"
  have m1: "moved (swept_move t) (q_db st) (q_db st1)"
    using sweep_m.write_only_moves [OF wf, of t opt clock] e1 by simp
  have wf1: "db_wf (q_db st1)"
    using safe_change_wf [OF sweep_tx.write_only_safe [OF wf, of opt clock t]] e1 by simp
  have u2: "unmoved (q_db st1) (q_db st2)" and wf2: "db_wf (q_db st2)"
    using sweep_logs_unmoved [of st1 opt t] safe_change_wf [OF sweep_logs_safe [OF wf1, of opt t]] e2 by simp_all
  have u3: "unmoved (q_db st2) (q_db st3)" and wf3: "db_wf (q_db st3)"
    using settle_pins_unmoved [of st2 opt] safe_change_wf [OF settle_pins_safe [OF wf2, of opt]] e3 by simp_all
  have u4: "unmoved (q_db st3) (q_db st4)"
    using delete_retained_unmoved [OF wf3, of opt "t - retention_ms"] e4 by simp
  have "unmoved (q_db st4) (q_db (fst (remove_orphan_pins opt t ?st5)))"
    by (rule unmoved_same) (simp add: remove_orphan_pins_find same_jobs_find [OF prune_outcomes_same])
  with m1 u2 u3 u4 have "moved (swept_move t) (q_db st) (q_db (fst (remove_orphan_pins opt t ?st5)))"
    by (meson moved_unmoved)
  then show ?thesis
    by (simp add: sweep_def e1 e2 e3 e4 case_prod_beta Let_def)
qed

section \<open>The calls\<close>

lemma find_take_back_pin [simp]: "find_job k (q_db (take_back_pin p dir jid st)) = find_job k (q_db st)"
  by (auto simp: take_back_pin_def split: option.split prod.split bool.split)

lemma submit_moves:
  assumes wf: "db_wf (q_db st)" and "id_ok jid" and "o_origin opt \<noteq> ''''"
  shows "moved (superseded_move s) (q_db st) (q_db (snd (submit opt jid t s st)))"
proof -
  have wr: "moved (superseded_move s) (q_db st) (q_db (snd (write_tx opt (submit_tx opt jid t s b) st1)))"
    if "submission_validate s = None" and same: "\<And>k. find_job k (q_db st1) = find_job k (q_db st)" and "db_wf (q_db st1)" for b st1
    using submit_m.write_tx_moves [OF that(3), of s opt jid opt t b] assms(2,3) that(1)
    by (simp add: write_tx_guarded moved_cong [OF same])
  have take_back: "moved (superseded_move s) (q_db st) (q_db (take_back_pin p dir k st1))"
    if "moved (superseded_move s) (q_db st) (q_db st1)" for p dir k st1
    using that by (rule moved_unmoved) (rule unmoved_same, simp)
  let ?st1 = "\<lambda>R. st\<lparr>q_db := record_pin jid (s_git_dir s) t (q_db st), q_refs := R\<rparr>"
  have wf1: "db_wf (q_db (?st1 R))" for R
    using safe_change_wf [OF record_pin_safe [OF wf]] by simp
  have pinned: "moved (superseded_move s) (q_db st) (q_db (snd (write_tx opt (submit_tx opt jid t s True) (?st1 R))))"
    if "submission_validate s = None" for R
    by (rule wr [OF that]) (use wf1 in simp_all)
  have same1: "moved (superseded_move s) (q_db st) (q_db (?st1 R))" for R
    by (rule unmoved_moved, rule unmoved_same) simp
  show ?thesis
  proof (cases "submission_validate s")
    case val: None
    show ?thesis
    proof (cases "o_pinner opt")
      case None
      then show ?thesis
        using val wr [OF val, of st False] wf by (auto simp: submit_def split: prod.split sum.split)
    next
      case (Some p)
      obtain ok R where pin: "pin_op p (s_git_dir s) jid (snap_commit (s_snapshot s)) (q_refs st) = (ok, R)"
        by (cases "pin_op p (s_git_dir s) jid (snap_commit (s_snapshot s)) (q_refs st)")
      obtain out st2 where w: "write_tx opt (submit_tx opt jid t s True) (?st1 R) = (out, st2)"
        by (cases "write_tx opt (submit_tx opt jid t s True) (?st1 R)")
      have "moved (superseded_move s) (q_db st) (q_db st2)"
        using pinned [OF val, of R] w by simp
      with take_back [OF this] take_back [OF same1] show ?thesis
        using val Some pin w by (cases ok; cases out) (simp_all add: submit_def Let_def)
    qed
  qed (simp add: submit_def)
qed

lemma restart_unmoved: "unmoved (q_db st) (q_db (restart opt t st))"
  by (auto simp: unmoved_def restart_def new_queue_def Let_def find_extend split: sum.splits if_splits)

lemma run_call_moves:
  assumes opt: "opt_ok opt" and wf: "db_wf (q_db st)" and c: "call_ok c"
  shows "moved (may_move c) (q_db st) (q_db (run_call opt c st))"
proof -
  have origin: "o_origin opt \<noteq> ''''"
    using opt by (simp add: opt_ok_def)
  have none: "may_move c' = (\<lambda>_ _. False)" if "\<And>r t. \<not> may_move c' r t" for c'
    using that by blast
  show ?thesis
  proof (cases c)
    case (CSubmit t rnd s)
    then have "may_move c = superseded_move s" by (intro ext) simp
    then show ?thesis using CSubmit submit_moves [OF wf fresh_id_ok origin] c by simp
  next
    case (CSubmitReused t rnd s res)
    then have m: "may_move c = superseded_move s" by (intro ext) simp
    have jid: "id_ok (fresh_id t rnd)" using CSubmitReused c fresh_id_ok by simp
    let ?res = "reused_result res t"
    have "moved (superseded_move s) (q_db st) (q_db (snd (write_tx opt (submit_reused_tx opt (fresh_id t rnd) t s ?res) st)))"
      if "submission_validate s = None" "result_validate (Some ?res) = None"
      using submit_reused_m.write_tx_moves [OF wf, where opt = opt and opta = opt and jid = "fresh_id t rnd" and s = s and res = ?res and t = t] that jid origin
      by (simp add: write_tx_guarded reused_result_def)
    then show ?thesis
      unfolding m using CSubmitReused by (auto simp: submit_reused_def Let_def split: option.split prod.split sum.split)
  next
    case (CRecordLocal t rnd cid s w)
    then have m: "may_move c = (\<lambda>_ _. False)" by (simp add: none)
    have jid: "id_ok (fresh_id t rnd)" using CRecordLocal c fresh_id_ok by simp
    have "moved (\<lambda>_ _. False) (q_db st) (q_db (snd (write_tx opt (record_local_tx opt (fresh_id t rnd) cid t s w) st)))"
      if "local_run_validate s = None"
      using record_local_m.write_tx_moves [OF wf, of opt s "fresh_id t rnd" opt cid t w] that jid origin
      by (simp add: write_tx_guarded)
    then show ?thesis
      unfolding m using CRecordLocal by (auto simp: record_local_def split: option.split prod.split sum.split)
  next
    case (CResult t at_ms jid req)
    have "moved (may_move c) (q_db st) (q_db (snd (write_tx opt (result_tx opt t at_ms ref jid req) st)))"
      if "result_request_validate req = None" for ref
      using result_m.write_tx_moves [OF wf, of t at_ms jid req opt opt ref] that CResult by (simp add: write_tx_guarded)
    note this [of "reference_of opt jid (q_db st)"]
    then show ?thesis
      using CResult by (auto simp: post_result_def split: option.split prod.split sum.split)
  next
    case (CSweep clock t)
    then have "may_move c = swept_move t" by (intro ext) simp
    then show ?thesis using CSweep sweep_moves [OF wf] by simp
  next
    case (CPutLogCommit t t2 jid cid body)
    then have m: "may_move c = (\<lambda>_ _. False)" by (simp add: none)
    show ?thesis
      unfolding m using CPutLogCommit put_log_m.write_tx_moves [OF wf, of opt "int (length body)" t t2 jid cid]
      by (auto simp: put_log_commit_def Let_def split: option.split prod.split sum.split)
  next
    case (CPutLog t t2 jid cid body)
    then have m: "may_move c = (\<lambda>_ _. False)" by (simp add: none)
    show ?thesis
      unfolding m using CPutLog put_log_m.write_tx_moves [OF wf, of opt "int (length body)" t t2 jid cid]
      by (auto simp: put_log_def put_log_commit_def Let_def split: option.split prod.split sum.split)
  next
    case (CForgetLogs t)
    then have m: "may_move c = (\<lambda>_ _. False)" by (simp add: none)
    show ?thesis unfolding m using CForgetLogs forget_m.write_only_moves [OF wf] by simp
  next
    case (CRecordOutcome u)
    then have m: "may_move c = (\<lambda>_ _. False)" by (simp add: none)
    show ?thesis
      unfolding m using CRecordOutcome record_out_m.write_only_moves [OF wf] by (simp add: record_outcome_def split: option.split)
  next
    case (CRemoveForgotten ids)
    then show ?thesis by (simp add: remove_forgotten_def remove_log_files_def)
  next
    case (CRestart t)
    then show ?thesis using restart_unmoved unmoved_moved by simp
  next
    case (CCancel t jid fp)
    then show ?thesis
      using cancel_m.write_tx_moves [OF wf, of t jid fp opt] by (auto simp: cancel_def split: prod.split sum.split)
  next
    case (CSetPosition t jid p)
    then show ?thesis
      using set_position_m.write_tx_moves [OF wf, of t jid p opt]
      by (auto simp: set_position_def write_tx_guarded split: prod.split sum.split)
  qed (use claim_m.write_tx_moves [OF wf] start_m.write_tx_moves [OF wf] heartbeat_m.write_only_moves [OF wf]
      release_m.write_tx_moves [OF wf] in
      \<open>simp_all add: claim_job_def start_job_def heartbeat_def release_def split: option.split\<close>)
qed

lemma may_move_live: "may_move c r t \<Longrightarrow> \<not> terminal (c_state r)"
  by (cases c) (auto simp: superseded_move_def swept_move_def lease_out_def waited_out_def dest: held_not_terminal)

end
