(* ===== verification/QueueSpec.thy ===== *)
theory QueueSpec
  imports QueueMoves
begin

text \<open>
  What the queue of one origin promises, stated on its operations and on the states any sequence of
  calls leads to, each with a witness on a concrete history. The theories before this one hold the
  model, the invariants and the lemmas these rest on.
\<close>

section \<open>The sample history\<close>

lemma sample_opt_ok: "opt_ok sample_options"
  by (simp add: opt_ok_def sample_options_def pinner_good_def git_pinner_ok)

lemma reachable_calls: "reachable opt st \<Longrightarrow> list_all call_ok cs \<Longrightarrow> reachable opt (run_calls opt cs st)"
  unfolding run_calls_def by (induction cs arbitrary: st) (auto intro: reachable.call)

lemma sample_reachable: "reachable sample_options sample_queued" "reachable sample_options sample_claimed"
  unfolding sample_queued_def sample_claimed_def sample_start_def
  by (rule reachable_calls, rule reachable.start, simp add: sample_rnd_def)+

definition sample_row :: job_row where
  "sample_row = the (find_job sample_id (q_db sample_queued))"

lemma sample_find: "find_job sample_id (q_db sample_queued) = Some sample_row"
  unfolding sample_row_def by code_simp

lemma sample_wf: "db_wf (q_db sample_queued)" "db_wf (q_db sample_claimed)"
  using reachable_ok [OF sample_reachable(1) sample_opt_ok] reachable_ok [OF sample_reachable(2) sample_opt_ok]
    queue_ok_parts(1) by blast+

section \<open>Reachable states\<close>

text \<open>
  C1: in every state a sequence of calls leads to, the tables are well-formed: ids and change numbers
  are unique, every row is consistent with its state (a queued job has no claim, a held one has its
  claim and lease, an ended one its result and finish time), no job was lost more than twice, and no
  two jobs hold the same manual place.
\<close>

theorem reachable_tables_wf: "opt_ok opt \<Longrightarrow> reachable opt st \<Longrightarrow> db_wf (q_db st)"
  using reachable_ok queue_ok_parts(1) by blast

theorem reachable_tables_wf_witness: "db_wf (q_db sample_claimed)"
  using reachable_tables_wf [OF sample_opt_ok sample_reachable(2)] .

text \<open>
  C2: a job moves only along its life cycle, and every step of it belongs to one call. Whatever was
  called before, a call leaves the submission, the origin and the state of a job as they are, or it
  moves the job as the table \<open>may_move\<close> allows it: a claim moves the queued job it names to claimed, a
  start the claimed one whose claim it gives to running, a result the held one whose claim it gives to
  the state it reports, a release gives a held job back (to the queue, or to its end when it was
  superseded, is to be cancelled or is a fast-lane run), a cancel ends the queued job it names, a
  submission supersedes queued jobs of its key, and a sweep takes held jobs whose lease ran out and
  expires those that waited too long; no other call moves any job. A job that has ended stays in its
  state through any further calls.
\<close>

theorem job_follows_lifecycle:
  assumes "opt_ok opt" and "reachable opt st" and "call_ok c"
    and "find_job jid (q_db st) = Some r" and "find_job jid (q_db (run_call opt c st)) = Some r'"
  shows "c_seq r' = c_seq r \<and> c_sub r' = c_sub r \<and> c_origin r' = c_origin r
    \<and> (c_state r' = c_state r \<or> may_move c r (c_state r'))
    \<and> (\<forall>cs r''. list_all call_ok cs \<longrightarrow> find_job jid (q_db (run_calls opt cs st)) = Some r'' \<longrightarrow> c_seq r'' = c_seq r \<longrightarrow>
         c_sub r'' = c_sub r \<and> c_origin r'' = c_origin r \<and> (terminal (c_state r) \<longrightarrow> c_state r'' = c_state r))"
proof -
  have wf: "db_wf (q_db st)"
    using assms(1,2) reachable_ok queue_ok_parts(1) by blast
  note one = run_call_moves [OF assms(1) wf assms(3), unfolded moved_def, rule_format, OF assms(4,5)]
  have many: "c_sub r'' = c_sub r \<and> c_origin r'' = c_origin r \<and> (terminal (c_state r) \<longrightarrow> c_state r'' = c_state r)"
    if cs: "list_all call_ok cs" and r'': "find_job jid (q_db (run_calls opt cs st)) = Some r''" "c_seq r'' = c_seq r" for cs r''
  proof -
    have "safe_change (q_db st) (q_db (run_calls opt cs st))"
      by (rule run_calls_safe [OF assms(1) wf cs])
    then have "db_wf (q_db (run_calls opt cs st))" "evolves (q_db st) (q_db (run_calls opt cs st))"
      by (simp_all add: safe_change_def)
    from evolves_row [OF wf this assms(4) r''] have step: "row_step (db_rev (q_db st)) r r''" .
    show ?thesis
      using row_step_ended [OF step] step [unfolded row_step_def] by blast
  qed
  from many [of "[c]" r'] assms(3,5) one have "c_sub r' = c_sub r \<and> c_origin r' = c_origin r"
    by (simp add: run_calls_def)
  with one many show ?thesis by blast
qed

theorem job_follows_lifecycle_witness:
  "\<exists>r'. find_job sample_id (q_db (run_call sample_options (CClaim 1000 sample_cid sample_id sample_claim True) sample_queued)) = Some r'
    \<and> c_sub r' = c_sub sample_row \<and> may_move (CClaim 1000 sample_cid sample_id sample_claim True) sample_row (c_state r')"
proof -
  let ?c = "CClaim 1000 sample_cid sample_id sample_claim True"
  let ?d = "q_db (run_call sample_options ?c sample_queued)"
  have "map_option (\<lambda>r'. (c_state r', c_state sample_row)) (find_job sample_id ?d) = Some (StateClaimed, StateQueued)"
    by code_simp
  then obtain r' where r': "find_job sample_id ?d = Some r'" "c_state r' = StateClaimed" "c_state sample_row = StateQueued"
    by auto
  have "call_ok ?c" by simp
  from job_follows_lifecycle [OF sample_opt_ok sample_reachable(1) this sample_find r'(1)] r'
  have "c_sub r' = c_sub sample_row" "may_move ?c sample_row (c_state r')" by auto
  with r'(1) show ?thesis by blast
qed

section \<open>Claims\<close>

text \<open>
  C3: the first claim wins. A claim that succeeds leaves the job in the table claimed under the very id
  it answers with and by the worker that asked, and from then on, whatever is called in between, as long
  as that claim is on the job every further claim of it, by whoever and on whichever side, is refused
  and changes nothing: as a conflict naming the state, or as not found where peers may not see the job.
\<close>

theorem first_claim_wins:
  assumes opt: "opt_ok opt" and wf: "db_wf (q_db st)" and ok: "claim_job opt t cid jid req fp st = (Inr resp, st1)"
  shows "cp_claim_id resp = cid \<and>
    (\<exists>r. find_job jid (q_db st1) = Some r \<and> c_state r = StateClaimed \<and> c_claim_id r = Some cid
      \<and> c_claim_worker r = Some (cr_worker req) \<and> cp_job resp = row_job r) \<and>
    (\<forall>cs r2 t2 cid2 req2 fp2. list_all call_ok cs \<longrightarrow> find_job jid (q_db (run_calls opt cs st1)) = Some r2 \<longrightarrow>
      c_claim_id r2 = Some cid \<longrightarrow> claim_validate req2 = None \<longrightarrow>
      claim_job opt t2 cid2 jid req2 fp2 (run_calls opt cs st1) =
        (Inl (if fp2 \<and> \<not> peer_visible r2 then ErrNotFound else Conflict (c_state r2)), run_calls opt cs st1))"
proof -
  have w: "write_tx opt (claim_tx opt t cid jid req fp) st = (Inr resp, st1)"
    using ok by (auto simp: claim_job_def split: option.splits)
  obtain changed d' where tx: "claim_tx opt t cid jid req fp (q_db st) = Inr (resp, changed, d')"
    using claim.write_tx_Inr [OF wf w] .
  obtain r where r: "find_job jid (q_db st) = Some r"
    and d': "d' = update_job claim_cols jid (claim_row opt t cid req) (q_db st)"
    and j: "get_on False jid d' = Inr (cp_job resp)" and cid: "cp_claim_id resp = cid"
    by (rule claim_tx_Inr [OF tx], rule that)
  obtain b where row: "find_job jid (q_db st1) = map_option (unpin_row b) (find_job jid d')"
    using claim.write_tx_row [OF wf tx, of jid opt] w by auto
  let ?r' = "(claim_row opt t cid req r)\<lparr>c_rev := db_rev (q_db st) + 1\<rparr>"
  have f: "find_job jid d' = Some ?r'"
    unfolding d' using r by (simp add: find_update_job)
  have "cp_job resp = row_job ?r'"
    using j get_on_ok [OF safe_change_wf [OF claim.safe [OF wf tx]] f] by simp
  then have first: "\<exists>r. find_job jid (q_db st1) = Some r \<and> c_state r = StateClaimed \<and> c_claim_id r = Some cid
      \<and> c_claim_worker r = Some (cr_worker req) \<and> cp_job resp = row_job r"
    using row f by (simp add: claim_row_def)
  have wf1: "db_wf (q_db st1)"
    using safe_change_wf [OF claim.write_tx_safe [OF wf, of opt opt t cid jid req fp]] w by simp
  have later: "claim_job opt t2 cid2 jid req2 fp2 st2 =
      (Inl (if fp2 \<and> \<not> peer_visible r2 then ErrNotFound else Conflict (c_state r2)), st2)"
    if "st2 = run_calls opt cs st1" "list_all call_ok cs" "find_job jid (q_db st2) = Some r2" "c_claim_id r2 = Some cid"
      "claim_validate req2 = None" for st2 cs r2 t2 cid2 req2 fp2
  proof -
    have "db_wf (q_db st2)"
      using safe_change_wf [OF run_calls_safe [OF opt wf1 that(2)]] that(1) by simp
    then have "c_state r2 \<noteq> StateQueued"
      using db_wf_find [OF _ that(3)] that(4) by (auto simp: row_wf_def row_queued_ok_def)
    then show ?thesis
      using that(3,5) by (auto simp: claim_job_def claim_tx_def load_held_def find_for_def intro!: claim.write_tx_Inl)
  qed
  show ?thesis
    using cid first later by blast
qed

theorem first_claim_wins_witness:
  "\<exists>resp st1. claim_job sample_options 1000 sample_cid sample_id sample_claim True sample_queued = (Inr resp, st1)
    \<and> claim_job sample_options 2000 (replicate 32 CHR ''2'') sample_id sample_claim False
        (run_calls sample_options [CStart 1500 sample_id sample_cid] st1)
      = (Inl (Conflict StateRunning), run_calls sample_options [CStart 1500 sample_id sample_cid] st1)"
proof -
  let ?c = "claim_job sample_options 1000 sample_cid sample_id sample_claim True sample_queued"
  let ?st2 = "run_calls sample_options [CStart 1500 sample_id sample_cid] (snd ?c)"
  have "(case fst ?c of Inl _ \<Rightarrow> False | Inr _ \<Rightarrow> True) \<and> claim_validate sample_claim = None
      \<and> map_option (\<lambda>r. (c_claim_id r, c_state r)) (find_job sample_id (q_db ?st2)) = Some (Some sample_cid, StateRunning)"
    by code_simp
  then obtain resp st1 r where c: "?c = (Inr resp, st1)" and v: "claim_validate sample_claim = None"
    and r: "find_job sample_id (q_db ?st2) = Some r" "c_claim_id r = Some sample_cid" "c_state r = StateRunning"
    by (cases ?c) (auto split: sum.splits)
  have "list_all call_ok [CStart 1500 sample_id sample_cid]" by simp
  with first_claim_wins [OF sample_opt_ok sample_wf(1) c] c v r show ?thesis by fastforce
qed

text \<open>
  C4: a claim that is not the one a job is held under, and not the one whose result ended it, does
  nothing: start, heartbeat, release, result and log upload each answer a conflict naming the state of
  the job and leave the whole queue as it was.
\<close>

theorem stale_claim_refused:
  assumes "find_job jid (q_db st) = Some r" and "\<not> (held_state (c_state r) \<and> c_claim_id r = Some cid)"
    and "c_result_claim_id r \<noteq> Some cid"
  shows "start_job opt t jid cid st = (Inl (Conflict (c_state r)), st)
    \<and> heartbeat opt t jid cid st = (Inl (Conflict (c_state r)), st)
    \<and> put_log_commit opt t t2 jid cid body st = (Inl (Conflict (c_state r)), st)
    \<and> (release_validate (rl\<lparr>rl_claim_id := cid\<rparr>) = None \<longrightarrow>
         release opt t jid (rl\<lparr>rl_claim_id := cid\<rparr>) st = (Inl (Conflict (c_state r)), st))
    \<and> (result_request_validate (rq\<lparr>rq_claim_id := cid\<rparr>) = None \<longrightarrow>
         post_result opt t at_ms jid (rq\<lparr>rq_claim_id := cid\<rparr>) st = (Inl (Conflict (c_state r)), st))"
proof -
  have load: "load_held False jid (q_db st) = Inr (row_held r)"
    using assms(1) by (simp add: load_held_def find_for_def)
  have stale: "live (row_held r) cid = Inl (Conflict (c_state r))"
    using assms(2) by (simp add: live_Inl)
  have may: "may_log (row_held r) cid = Inl (Conflict (c_state r))"
    using assms(3) stale by (simp add: may_log_def)
  have "start_job opt t jid cid st = (Inl (Conflict (c_state r)), st)"
    using load stale by (simp add: start_job_def start_tx_def start.write_tx_Inl)
  moreover have "heartbeat opt t jid cid st = (Inl (Conflict (c_state r)), st)"
    using load stale by (simp add: heartbeat_def write_only_def commit_def heartbeat_tx_def)
  moreover have "put_log_tx (int (length body)) t t2 jid cid (q_db st) = Inl (Conflict (c_state r))"
    using load may by (simp add: put_log_tx_def)
  then have "put_log_commit opt t t2 jid cid body st = (Inl (Conflict (c_state r)), st)"
    by (simp add: put_log_commit_def put_log.write_tx_Inl)
  moreover have "release opt t jid (rl\<lparr>rl_claim_id := cid\<rparr>) st = (Inl (Conflict (c_state r)), st)"
    if "release_validate (rl\<lparr>rl_claim_id := cid\<rparr>) = None"
    using that load stale by (simp add: release_def release_tx_def release.write_tx_Inl)
  moreover have "post_result opt t at_ms jid (rq\<lparr>rq_claim_id := cid\<rparr>) st = (Inl (Conflict (c_state r)), st)"
    if "result_request_validate (rq\<lparr>rq_claim_id := cid\<rparr>) = None"
  proof -
    have "result_tx opt t at_ms ref jid (rq\<lparr>rq_claim_id := cid\<rparr>) (q_db st) = Inl (Conflict (c_state r))" for ref
      using load stale assms(3) by (simp add: result_tx_def)
    then have "write_tx opt (result_tx opt t at_ms ref jid (rq\<lparr>rq_claim_id := cid\<rparr>)) st = (Inl (Conflict (c_state r)), st)" for ref
      by (simp add: write_tx_def write_only_def commit_def)
    then show ?thesis using that by (simp add: post_result_def)
  qed
  ultimately show ?thesis by blast
qed

theorem stale_claim_refused_witness:
  "start_job sample_options 9 sample_id sample_cid sample_queued = (Inl (Conflict StateQueued), sample_queued)"
proof -
  have "c_state sample_row = StateQueued \<and> c_result_claim_id sample_row \<noteq> Some sample_cid"
    by code_simp
  then show ?thesis
    using stale_claim_refused [OF sample_find, of sample_cid sample_options 9] by (simp add: held_state_def)
qed

section \<open>Results\<close>

lemma result_claim_ne: "result_request_validate req = None \<Longrightarrow> rq_claim_id req \<noteq> ''''"
  by (auto simp: result_request_validate_def check_claim_id_def valid_claim_id_def matches_hex32_def split: option.splits if_splits)

text \<open>The row a posted result leaves, and the answer.\<close>

lemma post_result_row:
  assumes wf: "db_wf (q_db st)" and ok: "post_result opt t at_ms jid req st = (Inr j, st1)"
  obtains r where "find_job jid (q_db st1) = Some r" and "terminal (c_state r)"
    and "c_result_claim_id r = Some (rq_claim_id req)" and "j = row_job r" and "db_wf (q_db st1)"
proof -
  have val: "result_request_validate req = None"
    using ok by (auto simp: post_result_def split: option.splits)
  let ?ref = "reference_of opt jid (q_db st)"
  let ?tx = "guarded (result_request_validate req = None) (result_tx opt t at_ms ?ref jid req)"
  obtain p st2 where w: "write_tx opt ?tx st = (Inr (j, p), st2)" and db: "q_db st1 = q_db st2"
    using ok val by (auto simp: post_result_def write_tx_guarded split: prod.splits sum.splits option.splits)
  obtain changed d' where "?tx (q_db st) = Inr ((j, p), changed, d')"
    using result.write_tx_Inr [OF wf w] .
  note gtx = this
  then have tx: "result_tx opt t at_ms ?ref jid req (q_db st) = Inr ((j, p), changed, d')"
    by simp
  obtain b where row: "find_job jid (q_db st2) = map_option (unpin_row b) (find_job jid d')"
    using result.write_tx_row [OF wf gtx, of jid opt] w by auto
  have wf': "db_wf d'" and wf2: "db_wf (q_db st2)"
    using safe_change_wf [OF result.safe [OF wf gtx]]
      safe_change_wf [OF result.write_tx_safe [OF wf, of opt req opt t at_ms ?ref jid]] w by simp_all
  have "\<exists>r. find_job jid d' = Some r \<and> terminal (c_state r) \<and> c_result_claim_id r = Some (rq_claim_id req) \<and> j = row_job r"
    using tx
  proof (cases rule: result_tx_cases)
    case (echo r)
    then show ?thesis using get_on_ok [OF wf echo(1)] by simp
  next
    case (ended r rf j' p')
    let ?d1 = "update_job end_cols jid (result_row req t r) (q_db st)"
    let ?r' = "(result_row req t r r)\<lparr>c_rev := db_rev (q_db st) + 1\<rparr>"
    have f: "find_job jid ?d1 = Some ?r'"
      using ended(1) by (simp add: find_update_job)
    have same: "same_jobs ?d1 d'"
      unfolding ended(9) by (rule record_ended_outcome_same)
    have f': "find_job jid d' = Some ?r'"
      using same_jobs_find [OF same] f by simp
    have "get_on False jid ?d1 = get_on False jid d'"
      using same_jobs_find [OF same] by (simp add: get_on_def find_for_def)
    then have "j = row_job ?r'"
      using ended(6,7) get_on_ok [OF wf' f'] by simp
    moreover have "terminal (c_state ?r')"
      using result_state_terminal [OF result_request_validate_state [OF val]] by (simp add: result_row_def end_row_def)
    moreover have "c_result_claim_id ?r' = Some (rq_claim_id req)"
      using result_claim_ne [OF val] by (simp add: result_row_def end_row_def)
    ultimately show ?thesis using f' by blast
  qed
  then show thesis
    using row wf2 db by (auto intro: that)
qed

text \<open>
  C5: a result can be posted again. Whatever the second request under the same claim says, it is
  answered with the job as the first one left it, nothing a client sees changes, and nothing is
  announced or offered for reuse a second time.
\<close>

theorem result_echo:
  assumes "db_wf (q_db st)" and "post_result opt t at_ms jid req st = (Inr j, st1)"
    and "result_request_validate req2 = None" and "rq_claim_id req2 = rq_claim_id req"
  shows "\<exists>st2. post_result opt t' at' jid req2 st1 = (Inr j, st2) \<and> q_events st2 = q_events st1
    \<and> q_offered st2 = q_offered st1 \<and> (\<forall>k. view (q_db st2) k = view (q_db st1) k)"
proof -
  obtain r where r: "find_job jid (q_db st1) = Some r" "terminal (c_state r)" "c_result_claim_id r = Some (rq_claim_id req2)"
    and j: "j = row_job r" and wf1: "db_wf (q_db st1)"
    using post_result_row [OF assms(1,2)] assms(4) by metis
  have tx: "result_tx opt t' at' ref jid req2 (q_db st1) = Inr ((j, None), [], q_db st1)" for ref
    using r j get_on_ok [OF wf1 r(1)] by (simp add: result_tx_def load_held_def find_for_def)
  let ?st1 = "st1\<lparr>q_db := q_db st1, q_events := q_events st1 @ []\<rparr>"
  have "write_tx opt (result_tx opt t' at' ref jid req2) st1 = (Inr (j, None), fst (settle_pins opt st1))" for ref
    using tx [of ref] by (simp add: write_tx_def write_only_def commit_def)
  then have "post_result opt t' at' jid req2 st1 = (Inr j, fst (settle_pins opt st1))"
    using assms(3) by (simp add: post_result_def)
  then show ?thesis by auto
qed

theorem result_echo_witness:
  "\<exists>j st1 st2. post_result sample_options 2000 2000 sample_id sample_result sample_claimed = (Inr j, st1)
    \<and> post_result sample_options 3000 3000 sample_id (sample_result\<lparr>rq_state := StateFailed\<rparr>) st1 = (Inr j, st2)
    \<and> q_events st2 = q_events st1"
proof -
  let ?p = "post_result sample_options 2000 2000 sample_id sample_result sample_claimed"
  have "(case fst ?p of Inl _ \<Rightarrow> False | Inr _ \<Rightarrow> True)
      \<and> result_request_validate (sample_result\<lparr>rq_state := StateFailed\<rparr>) = None"
    by code_simp
  then obtain j st1 where p: "?p = (Inr j, st1)"
    and v: "result_request_validate (sample_result\<lparr>rq_state := StateFailed\<rparr>) = None"
    by (cases ?p) (auto split: sum.splits)
  note wf = sample_wf(2)
  from result_echo [OF wf p v] p show ?thesis by fastforce
qed

section \<open>Leases\<close>

text \<open>How a job that is lost is recorded: the reason, and the worker it was taken from.\<close>

definition lost_by :: "job_row \<Rightarrow> string \<Rightarrow> job_row \<Rightarrow> bool" where
  "lost_by r why r' \<longleftrightarrow> map_option (\<lambda>x. (r_reason x, Some (r_host x))) (c_result r') = Some (why, c_claim_worker r)"

text \<open>
  C6: a lease that ran out is a lapse. The sweep takes the job from its worker and counts it. A job that
  was superseded ends as superseded and one that was to be cancelled as cancelled; of the others a
  fast-lane run, and a job that is lost for the second time, fails as lost; each with the worker that
  lost it named. The first lapse of any other job sends it back to the queue with no claim on it, or
  expires it there if it had waited longer than its queue timeout.
\<close>

theorem lapse_rule:
  assumes wf: "db_wf d" and r: "find_job jid d = Some r" and out: "lease_out now_ms r"
    and tx: "sweep_tx clock now_ms d = Inr (a, changed, d')"
  shows "\<exists>r'. find_job jid d' = Some r' \<and> c_lapses r' = c_lapses r + 1 \<and> c_attempts r' = c_attempts r + 1
    \<and> (case c_superseded_by r of
         Some b \<Rightarrow> c_state r' = StateSuperseded \<and> lost_by r (''superseded_by:'' @ b) r'
       | None \<Rightarrow>
           if c_cancel_requested r then c_state r' = StateCancelled \<and> lost_by r ''cancelled'' r'
           else if c_local r \<or> c_lapses r \<noteq> 0 then c_state r' = StateFailed \<and> lost_by r ''lost'' r'
           else c_claim_id r' = None
             \<and> c_state r' = (if waited_out now_ms (r\<lparr>c_state := StateQueued\<rparr>) then StateExpired else StateQueued))"
proof -
  let ?g = "let_go_row clock 1 True ''lost'' r"
  have row: "row_wf r" and held: "held_state (c_state r)"
    using db_wf_find [OF wf r] out by (simp_all add: lease_out_def)
  have worker: "c_claim_worker r = Some (h_worker (row_held r))"
    using row held by (auto simp: row_held_def row_wf_def row_held_ok_def)
  have "0 \<le> c_lapses r"
    using row by (simp add: row_wf_def)
  then have fate: "case c_superseded_by r of
         Some b \<Rightarrow> c_state ?g = StateSuperseded \<and> lost_by r (''superseded_by:'' @ b) ?g
       | None \<Rightarrow>
           if c_cancel_requested r then c_state ?g = StateCancelled \<and> lost_by r ''cancelled'' ?g
           else if c_local r \<or> c_lapses r \<noteq> 0 then c_state ?g = StateFailed \<and> lost_by r ''lost'' ?g
           else c_claim_id ?g = None \<and> c_state ?g = StateQueued
             \<and> waited_out now_ms ?g = waited_out now_ms (r\<lparr>c_state := StateQueued\<rparr>)"
    using worker
    by (auto simp: lost_by_def let_go_row_def let_go_end_def max_lapses_def requeue_row_def count_row_def end_row_def
        ended_result_def zero_result_def waited_out_def Let_def split: option.split)
  from wf r out tx show ?thesis
  proof (cases rule: sweep_tx_lapsed_row)
    case (1 n)
    then show ?thesis using fate by (auto simp: lost_by_def waited_out_def split: option.splits if_splits)
  next
    case (2 n)
    have "c_state ?g = StateQueued" using 2(1) by (simp add: waited_out_def)
    then have "c_superseded_by r = None" "\<not> c_cancel_requested r" "\<not> c_local r" "c_lapses r = 0"
      using fate by (auto split: option.splits if_splits)
    with 2 fate show ?thesis by (simp add: finish_row_def)
  qed
qed

theorem lapse_rule_witness:
  "\<exists>r'. find_job sample_id (snd (snd (projr (sweep_tx 70000 70000 (q_db sample_claimed))))) = Some r' \<and> c_lapses r' = 1"
proof -
  let ?d = "q_db sample_claimed"
  have "map_option (\<lambda>r. (lease_out 70000 r, c_lapses r)) (find_job sample_id ?d) = Some (True, 0)"
    by code_simp
  then obtain r where r: "find_job sample_id ?d = Some r" "lease_out 70000 r" "c_lapses r = 0"
    by auto
  note wf = sample_wf(2)
  obtain a ch d' where tx: "sweep_tx 70000 70000 ?d = Inr (a, ch, d')"
    by (rule sweep_tx_ok [OF wf, where clock = 70000 and now_ms = 70000], rule that)
  from lapse_rule [OF wf r(1,2) tx] r(3) tx show ?thesis by auto
qed

text \<open>
  A release never counts as a lapse, whatever its reason, and is counted as an attempt only when the
  infrastructure was the reason; the job goes back to the queue with no claim on it, unless it was to be
  cancelled, was superseded, or was a fast-lane run.
\<close>

theorem release_rule:
  assumes wf: "db_wf (q_db st)" and ok: "release opt t jid req st = (Inr u, st')"
    and r: "find_job jid (q_db st) = Some r"
  shows "\<exists>r'. find_job jid (q_db st') = Some r' \<and> c_lapses r' = c_lapses r
    \<and> c_attempts r' = c_attempts r + (if rl_reason req = ReleaseInfra then 1 else 0)
    \<and> \<not> held_state (c_state r')
    \<and> (c_superseded_by r = None \<longrightarrow> \<not> c_cancel_requested r \<longrightarrow> \<not> c_local r \<longrightarrow>
         c_state r' = StateQueued \<and> c_claim_id r' = None)"
proof -
  have w: "write_tx opt (release_tx t jid req) st = (Inr u, st')"
    using ok by (auto simp: release_def split: option.splits)
  obtain changed d' where tx: "release_tx t jid req (q_db st) = Inr (u, changed, d')"
    using release.write_tx_Inr [OF wf w] .
  let ?n = "if rl_reason req = ReleaseInfra then 1 else 0"
  let ?g = "let_go_row t ?n False (reason_text (rl_reason req)) r"
  have d': "d' = let_go t (row_held r) ?n False (reason_text (rl_reason req)) (q_db st)"
    using tx r by (auto simp: release_tx_def bind_err_Inr_iff load_held_def find_for_def)
  obtain b where "find_job jid (q_db st') = map_option (unpin_row b) (find_job jid d')"
    using release.write_tx_row [OF wf tx, of jid opt] w by auto
  moreover have "find_job jid d' = Some (?g\<lparr>c_rev := db_rev (q_db st) + 1\<rparr>)"
    unfolding d' using find_let_go [OF r, of jid] by simp
  moreover have "c_state ?g = StateQueued \<and> c_claim_id ?g = None"
    if "c_superseded_by r = None" "\<not> c_cancel_requested r" "\<not> c_local r"
    using that by (simp add: let_go_row_def let_go_end_def requeue_row_def count_row_def)
  ultimately show ?thesis
    using let_go_row_not_held by auto
qed

theorem release_rule_witness:
  "\<exists>st' r'. release sample_options 2000 sample_id \<lparr>rl_claim_id = sample_cid, rl_reason = ReleaseInfra, rl_detail = ''''\<rparr> sample_claimed = (Inr (), st')
    \<and> find_job sample_id (q_db st') = Some r' \<and> c_lapses r' = 0 \<and> c_attempts r' = 1"
proof -
  let ?x = "release sample_options 2000 sample_id \<lparr>rl_claim_id = sample_cid, rl_reason = ReleaseInfra, rl_detail = ''''\<rparr> sample_claimed"
  have "fst ?x = Inr () \<and> map_option (\<lambda>r. (c_lapses r, c_attempts r)) (find_job sample_id (q_db sample_claimed)) = Some (0, 0)"
    by code_simp
  then obtain st' r where x: "?x = (Inr (), st')" and r: "find_job sample_id (q_db sample_claimed) = Some r"
      "c_lapses r = 0" "c_attempts r = 0"
    by (cases ?x) auto
  note wf = sample_wf(2)
  from release_rule [OF wf x r(1)] r x show ?thesis by auto
qed


section \<open>Submissions\<close>

text \<open>
  C7: a newer submission supersedes the older ones of its key. The new job itself waits in the queue,
  superseded by nobody and held by nobody. A queued older one ends at once as superseded, a held one
  learns who superseded it and is told to stop if its task is interruptible, and every other job is left
  as it was.
\<close>

theorem supersede_rule:
  assumes wf: "db_wf d" and val: "submission_validate s = None" "id_ok jid" "o_origin opt \<noteq> ''''"
    and tx: "submit_tx opt jid t s pinned d = Inr (a, changed, d')"
  shows "(\<exists>n. find_job jid d' = Some n \<and> c_state n = StateQueued \<and> c_sub n = s \<and> c_superseded_by n = None
      \<and> c_claim_id n = None \<and> c_result n = None \<and> jid \<in> set changed)
    \<and> (\<forall>k r. find_job k d = Some r \<longrightarrow> (\<exists>r'. find_job k d' = Some r' \<and>
    (if s_supersede_key s \<noteq> '''' \<and> s_supersede_key (c_sub r) = s_supersede_key s \<and> \<not> terminal (c_state r)
     then c_superseded_by r' = Some jid \<and> k \<in> set changed
       \<and> (if c_state r = StateQueued then c_state r' = StateSuperseded \<and> map_option r_reason (c_result r') = Some (''superseded_by:'' @ jid)
          else c_state r' = c_state r \<and> (c_cancel_requested r' \<longleftrightarrow> c_cancel_requested r \<or> s_interruptible (c_sub r)))
     else r' = r)))"
proof -
  obtain d1 ids where ins: "insert_job jid (o_origin opt) s t pinned d = Inr d1"
    and sup: "supersede_if jid (s_supersede_key s) t d1 = (ids, d')" and ch: "changed = jid # ids"
    using tx by (cases "insert_job jid (o_origin opt) s t pinned d") (auto simp: submit_tx_def split: prod.splits)
  have wf1: "db_wf d1"
    using insert_job_safe [OF wf ins new_row_wf] val by (simp add: id_ok_def safe_change_def)
  let ?olds = "older_of jid (s_supersede_key s) d1"
  have new: "find_job jid d' = find_job jid d1"
    using sup supersede.loop_other [OF older_of_not_new [of jid "s_supersede_key s" d1], of jid t d1]
    by (auto simp: supersede_if_def supersede_older_eq split: if_splits)
  have "\<exists>r'. find_job k d' = Some r' \<and>
    (if s_supersede_key s \<noteq> '''' \<and> s_supersede_key (c_sub r) = s_supersede_key s \<and> \<not> terminal (c_state r)
     then c_superseded_by r' = Some jid \<and> k \<in> set changed
       \<and> (if c_state r = StateQueued then c_state r' = StateSuperseded \<and> map_option r_reason (c_result r') = Some (''superseded_by:'' @ jid)
          else c_state r' = c_state r \<and> (c_cancel_requested r' \<longleftrightarrow> c_cancel_requested r \<or> s_interruptible (c_sub r)))
     else r' = r)" if r: "find_job k d = Some r" for k r
  proof (cases "s_supersede_key s = ''''")
    case True
    then show ?thesis
      using sup find_insert_job [OF ins, of k] insert_job_new [OF ins] r by (auto simp: supersede_if_def)
  next
    case key: False
    then have eq: "ids = map fst ?olds" "d' = fold (supersede_one jid t) ?olds d1"
      using sup by (simp_all add: supersede_if_def supersede_older_eq)
    have k: "k \<noteq> jid" using r insert_job_new [OF ins] by auto
    then have "find_job k d1 = Some r" using find_insert_job [OF ins, of k] r by simp
    from supersede_older_row [OF wf1 this k, of t "s_supersede_key s"] show ?thesis
      using key ch eq by auto
  qed
  moreover have "find_job jid d' = Some ((new_row jid (o_origin opt) s t pinned)\<lparr>c_seq := db_last_seq d + 1, c_rev := db_rev d + 1\<rparr>)"
    using new find_insert_job [OF ins, of jid] by simp
  ultimately show ?thesis
    using ch by (simp add: new_row_def)
qed

theorem supersede_rule_witness:
  "\<exists>r' n. find_job sample_id (snd (snd (projr (submit_tx sample_options ''j_2'' 5 sample_submission False (q_db sample_queued))))) = Some r'
    \<and> c_state r' = StateSuperseded \<and> c_superseded_by r' = Some ''j_2''
    \<and> find_job ''j_2'' (snd (snd (projr (submit_tx sample_options ''j_2'' 5 sample_submission False (q_db sample_queued))))) = Some n
    \<and> c_state n = StateQueued"
proof -
  let ?x = "submit_tx sample_options ''j_2'' 5 sample_submission False (q_db sample_queued)"
  have v: "submission_validate sample_submission = None" "id_ok ''j_2''" "o_origin sample_options \<noteq> ''''"
      "(case ?x of Inl _ \<Rightarrow> False | Inr _ \<Rightarrow> True)"
      "c_state sample_row = StateQueued" "s_supersede_key (c_sub sample_row) = s_supersede_key sample_submission"
      "s_supersede_key sample_submission \<noteq> ''''"
    by code_simp+
  then obtain a ch d' where x: "?x = Inr (a, ch, d')"
    by (auto split: sum.splits)
  note rule = supersede_rule [OF sample_wf(1) v(1-3) x]
  obtain n where "find_job ''j_2'' d' = Some n" "c_state n = StateQueued"
    using rule by blast
  moreover obtain r' where "find_job sample_id d' = Some r'" "c_state r' = StateSuperseded" "c_superseded_by r' = Some ''j_2''"
    using rule [THEN conjunct2, rule_format, OF sample_find] v by auto
  ultimately show ?thesis
    using x by simp
qed

section \<open>Cancel and the manual order\<close>

text \<open>
  A cancel ends a queued job at once, asks the worker of a held one to stop without changing its
  state, changes and announces nothing when it was asked already, is a conflict naming the state on a
  job that has ended, and a job that is not there (or not for peers) is not found.
\<close>

theorem cancel_rule:
  assumes "db_wf d"
  shows "case find_for fp jid d of
      None \<Rightarrow> cancel_tx t jid fp d = Inl ErrNotFound
    | Some r \<Rightarrow>
        if terminal (c_state r) then cancel_tx t jid fp d = Inl (Conflict (c_state r))
        else \<exists>changed d' r'. cancel_tx t jid fp d = Inr ((), changed, d') \<and> find_job jid d' = Some r'
          \<and> (if c_state r = StateQueued then c_state r' = StateCancelled \<and> changed = [jid]
             else c_state r' = c_state r \<and> c_cancel_requested r' \<and> changed = (if c_cancel_requested r then [] else [jid]))"
proof (cases "find_for fp jid d")
  case None
  then show ?thesis by (simp add: cancel_tx_def)
next
  case (Some r)
  then have r: "find_job jid d = Some r" by (simp add: find_for_Some)
  have "state_valid (c_state r)"
    using db_wf_find [OF assms r] by (simp add: row_wf_def)
  then show ?thesis
    using Some r
    by (cases "c_state r")
      (auto simp: cancel_tx_def finish_without_running_def find_update_job finish_row_def cancel_row_def)
qed

theorem cancel_rule_witness:
  "\<exists>changed d' r'. cancel_tx 9 sample_id False (q_db sample_queued) = Inr ((), changed, d')
    \<and> find_job sample_id d' = Some r' \<and> c_state r' = StateCancelled"
proof -
  note wf = sample_wf(1)
  have "c_state sample_row = StateQueued" by code_simp
  then show ?thesis
    using cancel_rule [OF wf, of 9 sample_id False] sample_find by (auto simp: find_for_def)
qed

lemma other_seqs_moved:
  assumes "find_job jid d = Some r"
  shows "other_seqs p jid (update_job cols jid (place_row m n t) d) = other_seqs p jid d"
proof -
  have others: "filter (\<lambda>r. c_manual r = p \<and> c_id r \<noteq> jid) (update_by c_id jid f rs) = filter (\<lambda>r. c_manual r = p \<and> c_id r \<noteq> jid) rs"
    if "\<forall>r. c_id (f r) = c_id r" for f rs
    using that by (induction rs) (auto simp: update_by_def)
  show ?thesis
    by (simp add: other_seqs_def update_job_def assms others)
qed

text \<open>A successful move leaves the job beyond every other job of its place.\<close>

lemma set_position_outermost:
  assumes wf: "db_wf d" and p: "p = PositionFront \<or> p = PositionBack"
    and tx: "set_position_tx t jid p d = Inr (u, changed, d')"
  obtains r' where "find_job jid d' = Some r'" and "c_manual r' = p" and "c_state r' = StateQueued"
    and "\<And>n. n \<in> set (other_seqs p jid d') \<Longrightarrow> if p = PositionFront then c_manual_seq r' < n else n < c_manual_seq r'"
  using tx
proof (cases rule: set_position_tx_cases)
  case (same r)
  have rid: "c_id r = jid" using find_job_Some [OF same(1)] by simp
  let ?o = "extreme p (other_seqs p jid d)"
  have m: "c_manual r = p" and e: "case ?o of None \<Rightarrow> True | Some n \<Rightarrow> (p = PositionFront \<and> c_manual_seq r < n) \<or> (p = PositionBack \<and> c_manual_seq r > n)"
    using same(3) p rid by (auto simp: new_place_def Let_def split: if_splits)
  have "if p = PositionFront then c_manual_seq r < n else n < c_manual_seq r" if n: "n \<in> set (other_seqs p jid d)" for n
  proof (cases ?o)
    case None
    then show ?thesis using n extreme_None [of p "other_seqs p jid d"] by auto
  next
    case (Some k)
    then show ?thesis
      using p e extreme_front [of "other_seqs p jid d" k n] extreme_back [of "other_seqs p jid d" k n] n by auto
  qed
  with same m show thesis by (intro that [of r]) auto
next
  case (moved r m n)
  have rid: "c_id r = jid" using find_job_Some [OF moved(1)] by simp
  have mp: "m = p" and ext: "\<And>k. k \<in> set (other_seqs p jid d) \<Longrightarrow> if p = PositionFront then n < k else k < n"
    using p new_place_front [OF wf, of r m n] new_place_back [OF wf, of r m n] moved(3) rid by auto
  have "other_seqs p jid d' = other_seqs p jid d"
    unfolding moved(5) by (rule other_seqs_moved [OF moved(1)])
  with moved(1,2) mp ext show thesis
    by (intro that [of "(place_row m n t r)\<lparr>c_rev := db_rev d + 1\<rparr>"]) (auto simp: moved(5) find_update_job place_row_def)
qed

text \<open>
  A job put in front comes before every other job that was put in front, one put at the back
  after every other, and no two jobs ever hold the same place. Asking again for the place a job has
  just been given changes nothing and announces nothing.
\<close>

theorem position_rule:
  assumes wf: "db_wf d" and p: "p = PositionFront \<or> p = PositionBack"
    and tx: "set_position_tx t jid p d = Inr (u, changed, d')"
  shows "\<exists>r'. find_job jid d' = Some r' \<and> c_manual r' = p
    \<and> (\<forall>s \<in> set (db_jobs d'). c_id s \<noteq> jid \<longrightarrow> c_manual s = p \<longrightarrow>
         (if p = PositionFront then c_manual_seq r' < c_manual_seq s else c_manual_seq s < c_manual_seq r'))
    \<and> places_distinct (db_jobs d') \<and> set_position_tx t' jid p d' = Inr ((), [], d')"
proof -
  have val: "valid_request p" using p by auto
  have "guarded (valid_request p) (set_position_tx t jid p) d = Inr (u, changed, d')"
    using tx val by simp
  then have wf': "db_wf d'"
    using set_position.safe [OF wf] safe_change_wf by blast
  obtain r' where r': "find_job jid d' = Some r'" "c_manual r' = p" "c_state r' = StateQueued"
    and ext: "\<And>n. n \<in> set (other_seqs p jid d') \<Longrightarrow> if p = PositionFront then c_manual_seq r' < n else n < c_manual_seq r'"
    by (rule set_position_outermost [OF wf p tx], rule that)
  have rid: "c_id r' = jid" using find_job_Some [OF r'(1)] by simp
  have "new_place p r' d' = None"
    using p r'(2) ext rid extreme_in [of p "other_seqs p jid d'"]
    by (auto simp: new_place_def Let_def split: option.splits)
  then have "set_position_tx t' jid p d' = Inr ((), [], d')"
    using r' by (simp add: set_position_tx_def)
  moreover have "places_distinct (db_jobs d')"
    using wf' by (simp add: db_wf_def)
  ultimately show ?thesis
    using r' ext other_seqs_iff [of _ p jid d'] by blast
qed

theorem position_rule_witness:
  "\<exists>d'. set_position_tx 9 sample_id PositionFront (q_db sample_queued) = Inr ((), [sample_id], d')
    \<and> set_position_tx 10 sample_id PositionFront d' = Inr ((), [], d')"
proof -
  let ?x = "set_position_tx 9 sample_id PositionFront (q_db sample_queued)"
  have "(case ?x of Inl _ \<Rightarrow> None | Inr y \<Rightarrow> Some (fst (snd y))) = Some [sample_id]" by code_simp
  then obtain y where "?x = Inr y" "fst (snd y) = [sample_id]"
    by (cases ?x) simp_all
  then obtain d' where x: "?x = Inr ((), [sample_id], d')"
    by (cases y) auto
  note wf = sample_wf(1)
  have "set_position_tx 10 sample_id PositionFront d' = Inr ((), [], d')"
    using position_rule [OF wf disjI1 [OF refl] x, of 10] by blast
  with x show ?thesis by blast
qed

end
