(* ===== verification/Sequencer.thy ===== *)
theory Sequencer
  imports Prelude
begin

text \<open>
  The sequencer (\<open>internal/wwd/queue/sequencer.go\<close>) and the way writers use it (\<open>commit\<close>,
  \<open>announce\<close> and \<open>publish\<close> of queue.go). Writers are numbered; the database's write lock is held by
  one of them at a time, the ticket is taken under it, and after the commit each writer waits for its
  turn. The steps are a relation, so every interleaving of the writers is covered. What is proved: events
  leave in commit order, and no ticket is lost, so whoever waits is waited for by somebody who can move.
\<close>

section \<open>The counter\<close>

record sequencer =
  sq_next :: nat
  sq_turn :: nat

definition new_sequencer :: sequencer where
  "new_sequencer = \<lparr>sq_next = 0, sq_turn = 0\<rparr>"

definition seq_ticket :: "sequencer \<Rightarrow> nat \<times> sequencer" where
  "seq_ticket s = (sq_next s, s\<lparr>sq_next := sq_next s + 1\<rparr>)"

definition may_go :: "sequencer \<Rightarrow> nat \<Rightarrow> bool" where
  "may_go s t \<longleftrightarrow> sq_turn s = t"

definition seq_done :: "nat \<Rightarrow> sequencer \<Rightarrow> sequencer" where
  "seq_done t s = s\<lparr>sq_turn := t + 1\<rparr>"

section \<open>Writers\<close>

text \<open>
  Where a writer is: not writing, in its transaction, in it with a ticket, committed and waiting for
  its turn, publishing what is left of its events, or failed after the ticket and waiting to pass it on.
\<close>

datatype 'e phase =
    Idle
  | InTx
  | Ticketed nat "'e list"
  | Committed nat "'e list"
  | Publishing nat "'e list"
  | FailedTicket nat

record 'e writers =
  wr_seq :: sequencer
  wr_lock :: "nat option"
  wr_phase :: "nat \<Rightarrow> 'e phase"
  wr_commits :: "(nat \<times> 'e list) list"
  wr_published :: "'e list"

definition start_writers :: "'e writers" where
  "start_writers = \<lparr>wr_seq = new_sequencer, wr_lock = None, wr_phase = (\<lambda>_. Idle), wr_commits = [], wr_published = []\<rparr>"

inductive wstep :: "'e writers \<Rightarrow> 'e writers \<Rightarrow> bool" where
  begin_tx: "wr_lock w = None \<Longrightarrow> wr_phase w i = Idle \<Longrightarrow>
     wstep w (w\<lparr>wr_lock := Some i, wr_phase := (wr_phase w)(i := InTx)\<rparr>)"
| rollback: "wr_phase w i = InTx \<Longrightarrow> wstep w (w\<lparr>wr_lock := None, wr_phase := (wr_phase w)(i := Idle)\<rparr>)"
| take_ticket: "wr_phase w i = InTx \<Longrightarrow> seq_ticket (wr_seq w) = (t, s) \<Longrightarrow>
     wstep w (w\<lparr>wr_seq := s, wr_phase := (wr_phase w)(i := Ticketed t evs)\<rparr>)"
| commit_ok: "wr_phase w i = Ticketed t evs \<Longrightarrow>
     wstep w (w\<lparr>wr_lock := None, wr_phase := (wr_phase w)(i := Committed t evs), wr_commits := wr_commits w @ [(t, evs)]\<rparr>)"
| commit_fails: "wr_phase w i = Ticketed t evs \<Longrightarrow>
     wstep w (w\<lparr>wr_lock := None, wr_phase := (wr_phase w)(i := FailedTicket t)\<rparr>)"
| await_turn: "wr_phase w i = Committed t evs \<Longrightarrow> may_go (wr_seq w) t \<Longrightarrow>
     wstep w (w\<lparr>wr_phase := (wr_phase w)(i := Publishing t evs)\<rparr>)"
| deliver: "wr_phase w i = Publishing t (e # evs) \<Longrightarrow>
     wstep w (w\<lparr>wr_phase := (wr_phase w)(i := Publishing t evs), wr_published := wr_published w @ [e]\<rparr>)"
| pass_on: "wr_phase w i = Publishing t [] \<Longrightarrow>
     wstep w (w\<lparr>wr_seq := seq_done t (wr_seq w), wr_phase := (wr_phase w)(i := Idle)\<rparr>)"
| pass_failed: "wr_phase w i = FailedTicket t \<Longrightarrow> may_go (wr_seq w) t \<Longrightarrow>
     wstep w (w\<lparr>wr_seq := seq_done t (wr_seq w), wr_phase := (wr_phase w)(i := Idle)\<rparr>)"

definition wreach :: "'e writers \<Rightarrow> bool" where
  "wreach w \<longleftrightarrow> wstep\<^sup>*\<^sup>* start_writers w"

section \<open>The invariant\<close>

fun ticket_of :: "'e phase \<Rightarrow> nat option" where
  "ticket_of (Ticketed t _) = Some t"
| "ticket_of (Committed t _) = Some t"
| "ticket_of (Publishing t _) = Some t"
| "ticket_of (FailedTicket t) = Some t"
| "ticket_of _ = None"

fun in_tx :: "'e phase \<Rightarrow> bool" where
  "in_tx InTx = True"
| "in_tx (Ticketed _ _) = True"
| "in_tx _ = False"

text \<open>Tickets: from the turn up to the next one, each has exactly one holder.\<close>

definition tickets_held :: "'e writers \<Rightarrow> bool" where
  "tickets_held w \<longleftrightarrow>
     sq_turn (wr_seq w) \<le> sq_next (wr_seq w)
     \<and> (\<forall>i t. ticket_of (wr_phase w i) = Some t \<longrightarrow> sq_turn (wr_seq w) \<le> t \<and> t < sq_next (wr_seq w))
     \<and> (\<forall>i j t. ticket_of (wr_phase w i) = Some t \<longrightarrow> ticket_of (wr_phase w j) = Some t \<longrightarrow> i = j)
     \<and> (\<forall>t. sq_turn (wr_seq w) \<le> t \<and> t < sq_next (wr_seq w) \<longrightarrow> (\<exists>i. ticket_of (wr_phase w i) = Some t))"

definition lock_held :: "'e writers \<Rightarrow> bool" where
  "lock_held w \<longleftrightarrow> (\<forall>i. in_tx (wr_phase w i) \<longleftrightarrow> wr_lock w = Some i)
     \<and> (\<forall>i t evs. wr_phase w i = Ticketed t evs \<longrightarrow> Suc t = sq_next (wr_seq w))"

definition commits_ordered :: "'e writers \<Rightarrow> bool" where
  "commits_ordered w \<longleftrightarrow> sorted_wrt (<) (map fst (wr_commits w))
     \<and> (\<forall>c \<in> set (wr_commits w). fst c < sq_next (wr_seq w))
     \<and> (\<forall>i t evs. wr_phase w i = Ticketed t evs \<longrightarrow> (\<forall>c \<in> set (wr_commits w). fst c < t))
     \<and> (\<forall>i t evs. wr_phase w i = Committed t evs \<longrightarrow> (t, evs) \<in> set (wr_commits w))
     \<and> (\<forall>i t. wr_phase w i = FailedTicket t \<longrightarrow> t \<notin> fst ` set (wr_commits w))"

text \<open>What was published: the commits before the turn, and the part of the turn's own that is out.\<close>

definition before_turn :: "'e writers \<Rightarrow> 'e list" where
  "before_turn w = concat (map snd (filter (\<lambda>c. fst c < sq_turn (wr_seq w)) (wr_commits w)))"

definition published_ok :: "'e writers \<Rightarrow> bool" where
  "published_ok w \<longleftrightarrow>
     (\<forall>i t evs. wr_phase w i = Publishing t evs \<longrightarrow> t = sq_turn (wr_seq w)
        \<and> (\<exists>out. (t, out @ evs) \<in> set (wr_commits w) \<and> wr_published w = before_turn w @ out))
     \<and> ((\<forall>i t evs. wr_phase w i \<noteq> Publishing t evs) \<longrightarrow> wr_published w = before_turn w)"

definition winv :: "'e writers \<Rightarrow> bool" where
  "winv w \<longleftrightarrow> tickets_held w \<and> lock_held w \<and> commits_ordered w \<and> published_ok w"

lemma winv_start: "winv start_writers"
  by (simp add: winv_def tickets_held_def lock_held_def commits_ordered_def published_ok_def start_writers_def
      new_sequencer_def before_turn_def)

text \<open>Changing one writer's phase without touching the tickets.\<close>

lemma tickets_same:
  assumes "tickets_held w" and "ticket_of p = ticket_of (wr_phase w i)" and "wr_seq w' = wr_seq w"
    and "wr_phase w' = (wr_phase w)(i := p)"
  shows "tickets_held w'"
proof -
  have same: "ticket_of (wr_phase w' j) = ticket_of (wr_phase w j)" for j
    using assms by simp
  show ?thesis
    using assms(1) unfolding tickets_held_def same assms(3) .
qed

lemma tickets_take:
  assumes "tickets_held w" and "ticket_of (wr_phase w i) = None" and "ticket_of p = Some (sq_next (wr_seq w))"
    and "wr_seq w' = (wr_seq w)\<lparr>sq_next := sq_next (wr_seq w) + 1\<rparr>" and "wr_phase w' = (wr_phase w)(i := p)"
  shows "tickets_held w'"
proof -
  let ?n = "sq_next (wr_seq w)"
  have tk: "ticket_of (wr_phase w' j) = (if j = i then Some ?n else ticket_of (wr_phase w j))" for j
    using assms by simp
  have held: "\<exists>j. ticket_of (wr_phase w' j) = Some t" if "sq_turn (wr_seq w) \<le> t" "t < ?n + 1" for t
  proof (cases "t = ?n")
    case True
    then show ?thesis by (intro exI [of _ i]) (simp add: tk)
  next
    case False
    then obtain j where "ticket_of (wr_phase w j) = Some t"
      using assms(1) \<open>sq_turn (wr_seq w) \<le> t\<close> \<open>t < ?n + 1\<close> unfolding tickets_held_def by auto
    then show ?thesis
      using assms(2) by (intro exI [of _ j]) (auto simp: tk)
  qed
  have "sq_turn (wr_seq w) \<le> t \<and> t < ?n + 1" if "ticket_of (wr_phase w' j) = Some t" for j t
    using assms(1) that unfolding tickets_held_def tk by (auto split: if_splits simp: less_Suc_eq)
  moreover have "j = k" if "ticket_of (wr_phase w' j) = Some t" "ticket_of (wr_phase w' k) = Some t" for j k t
    using assms(1) that unfolding tickets_held_def tk by (auto split: if_splits)
  moreover have "sq_turn (wr_seq w) \<le> ?n + 1"
    using assms(1) by (simp add: tickets_held_def)
  ultimately show ?thesis
    unfolding tickets_held_def assms(4) using held by simp
qed

lemma tickets_pass:
  assumes "tickets_held w" and "ticket_of (wr_phase w i) = Some t" and "sq_turn (wr_seq w) = t" and "ticket_of p = None"
    and "wr_seq w' = seq_done t (wr_seq w)" and "wr_phase w' = (wr_phase w)(i := p)"
  shows "tickets_held w'"
proof -
  let ?n = "sq_next (wr_seq w)"
  have tk: "ticket_of (wr_phase w' j) = (if j = i then None else ticket_of (wr_phase w j))" for j
    using assms by simp
  have held: "\<exists>j. ticket_of (wr_phase w j) = Some u" if "sq_turn (wr_seq w) \<le> u" "u < ?n" for u
    using assms(1) that by (simp add: tickets_held_def)
  have uniq: "j = i" if "ticket_of (wr_phase w j) = Some t" for j
    using assms(1,2) that unfolding tickets_held_def by blast
  have range: "t \<le> u \<and> u < ?n" if "ticket_of (wr_phase w j) = Some u" for j u
    using assms(1,3) that unfolding tickets_held_def by blast
  have "t + 1 \<le> u \<and> u < ?n" if "ticket_of (wr_phase w' j) = Some u" for j u
    using range [of j u] uniq [of j] that by (cases "u = t") (auto simp: tk split: if_splits)
  moreover have "j = k" if "ticket_of (wr_phase w' j) = Some u" "ticket_of (wr_phase w' k) = Some u" for j k u
    using assms(1) that unfolding tickets_held_def tk by (auto split: if_splits)
  moreover have "\<exists>j. ticket_of (wr_phase w' j) = Some u" if b: "t + 1 \<le> u" "u < ?n" for u
  proof -
    obtain j where j: "ticket_of (wr_phase w j) = Some u"
      using held [of u] assms(3) b by auto
    with assms(2) b have "j \<noteq> i" by auto
    with j show ?thesis by (intro exI [of _ j]) (simp add: tk)
  qed
  moreover have "t + 1 \<le> ?n"
    using range [OF assms(2)] by simp
  ultimately show ?thesis
    unfolding tickets_held_def assms(5) seq_done_def by simp
qed

lemma lock_free: "lock_held w \<Longrightarrow> wr_phase w i = Ticketed t evs \<Longrightarrow> wr_phase w j = Ticketed u evs' \<Longrightarrow> j = i"
  unfolding lock_held_def by (metis in_tx.simps(2) option.inject)

lemma before_turn_same:
  assumes "wr_commits w' = wr_commits w" and "sq_turn (wr_seq w') = sq_turn (wr_seq w)"
  shows "before_turn w' = before_turn w"
  using assms by (simp add: before_turn_def)

lemma filter_sorted_at:
  assumes "sorted_wrt (<) (map fst cs)" and "(t, x) \<in> set cs"
  shows "filter (\<lambda>c. fst c < Suc t) cs = filter (\<lambda>c. fst c < t) cs @ [(t, x)]"
  using assms
proof (induction cs)
  case (Cons c cs)
  show ?case
  proof (cases "c = (t, x)")
    case True
    then have "\<forall>c' \<in> set cs. t < fst c'" using Cons.prems by auto
    then have "filter (\<lambda>c. fst c < Suc t) cs = []" "filter (\<lambda>c. fst c < t) cs = []"
      by (auto simp: filter_empty_conv)
    with True show ?thesis by simp
  next
    case False
    with Cons.prems have "(t, x) \<in> set cs" "fst c < t" by auto
    with Cons show ?thesis by simp
  qed
qed simp

lemma before_turn_next:
  assumes "commits_ordered w" and "(sq_turn (wr_seq w), x) \<in> set (wr_commits w)"
    and "wr_commits w' = wr_commits w" and "sq_turn (wr_seq w') = Suc (sq_turn (wr_seq w))"
  shows "before_turn w' = before_turn w @ x"
  using filter_sorted_at [OF _ assms(2)] assms(1,3,4) by (simp add: before_turn_def commits_ordered_def)

lemma before_turn_skip:
  assumes "sq_turn (wr_seq w) \<notin> fst ` set (wr_commits w)"
    and "wr_commits w' = wr_commits w" and "sq_turn (wr_seq w') = Suc (sq_turn (wr_seq w))"
  shows "before_turn w' = before_turn w"
proof -
  have "filter (\<lambda>c. fst c < Suc (sq_turn (wr_seq w))) (wr_commits w) = filter (\<lambda>c. fst c < sq_turn (wr_seq w)) (wr_commits w)"
    using assms(1) by (intro filter_cong) (auto simp: less_Suc_eq image_iff)
  then show ?thesis using assms(2,3) by (simp add: before_turn_def)
qed

lemma seq_ticket_eq: "seq_ticket s = (t, s') \<Longrightarrow> t = sq_next s \<and> s' = s\<lparr>sq_next := sq_next s + 1\<rparr>"
  by (auto simp: seq_ticket_def)

lemma winv_parts: "winv w \<Longrightarrow> tickets_held w" "winv w \<Longrightarrow> lock_held w" "winv w \<Longrightarrow> commits_ordered w" "winv w \<Longrightarrow> published_ok w"
  by (simp_all add: winv_def)

lemma publishing_turn: "winv w \<Longrightarrow> wr_phase w i = Publishing t evs \<Longrightarrow> t = sq_turn (wr_seq w)"
  unfolding winv_def published_ok_def by blast

lemma tickets_step:
  assumes "wstep w w'" and "winv w"
  shows "tickets_held w'"
  using assms(1)
proof cases
  case (take_ticket i t s evs)
  note ts = seq_ticket_eq [OF take_ticket(3)]
  have "ticket_of (wr_phase w i) = None"
    by (simp add: take_ticket(2))
  moreover have "ticket_of (Ticketed t evs) = Some (sq_next (wr_seq w))"
    using ts by simp
  moreover have "wr_seq w' = (wr_seq w)\<lparr>sq_next := sq_next (wr_seq w) + 1\<rparr>"
    using ts unfolding take_ticket(1) by simp
  moreover have "wr_phase w' = (wr_phase w)(i := Ticketed t evs)"
    by (simp add: take_ticket(1))
  ultimately show ?thesis
    by (rule tickets_take [OF winv_parts(1) [OF assms(2)]])
next
  case (pass_on i t)
  then show ?thesis
    using winv_parts(1) [OF assms(2)] publishing_turn [OF assms(2) pass_on(2)]
    by - (rule tickets_pass [of w i t Idle], auto)
next
  case (pass_failed i t)
  then show ?thesis
    using winv_parts(1) [OF assms(2)]
    by - (rule tickets_pass [of w i t Idle], auto simp: may_go_def)
qed (insert winv_parts(1) [OF assms(2)], (rule tickets_same, assumption, simp_all)+)

lemma lock_unlock:
  assumes "lock_held w" and "in_tx (wr_phase w i)" and "\<not> in_tx p" and "wr_lock w' = None"
    and "wr_phase w' = (wr_phase w)(i := p)"
  shows "lock_held w'"
proof -
  have i: "wr_lock w = Some i"
    using assms(1,2) by (simp add: lock_held_def)
  have none: "\<not> in_tx (wr_phase w' j)" for j
    using assms i by (auto simp: lock_held_def)
  have "wr_phase w' j \<noteq> Ticketed t evs" for j t evs
    using none [of j] by auto
  then show ?thesis
    using none assms(4) by (simp add: lock_held_def)
qed

lemma lock_same:
  assumes "lock_held w" and "\<not> in_tx (wr_phase w i)" and "\<not> in_tx p" and "wr_lock w' = wr_lock w"
    and "wr_phase w' = (wr_phase w)(i := p)" and "sq_next (wr_seq w') = sq_next (wr_seq w)"
  shows "lock_held w'"
proof -
  have "in_tx (wr_phase w' j) = in_tx (wr_phase w j)" for j
    using assms(2,3,5) by simp
  moreover have "wr_phase w j = Ticketed t evs" if "wr_phase w' j = Ticketed t evs" for j t evs
    using that assms(3,5) by (auto split: if_splits)
  ultimately show ?thesis
    using assms(1,4,6) unfolding lock_held_def by metis
qed

lemma lock_step:
  assumes "wstep w w'" and "winv w"
  shows "lock_held w'"
  using assms(1)
proof cases
  case (begin_tx i)
  have "\<not> in_tx (wr_phase w j)" for j
    using winv_parts(2) [OF assms(2)] begin_tx(2) by (simp add: lock_held_def)
  then have "wr_phase w j \<noteq> Ticketed t evs" for j t evs
    by (metis in_tx.simps(2))
  then show ?thesis
    using \<open>\<And>j. \<not> in_tx (wr_phase w j)\<close> begin_tx(1) by (auto simp: lock_held_def)
next
  case (take_ticket i t s evs)
  then have i: "wr_lock w = Some i"
    using winv_parts(2) [OF assms(2)] by (metis in_tx.simps(1) lock_held_def)
  have other: "\<not> in_tx (wr_phase w j)" if "j \<noteq> i" for j
    using winv_parts(2) [OF assms(2)] i that by (simp add: lock_held_def)
  then have "wr_phase w j \<noteq> Ticketed u es" if "j \<noteq> i" for j u es
    using that by (metis in_tx.simps(2))
  moreover have "Suc t = sq_next (wr_seq w')"
    using seq_ticket_eq [OF take_ticket(3)] unfolding take_ticket(1) by simp
  ultimately have "Suc u = sq_next (wr_seq w')" if "wr_phase w' j = Ticketed u es" for j u es
    using that unfolding take_ticket(1) by (cases "j = i") simp_all
  moreover have "in_tx (wr_phase w' j) \<longleftrightarrow> wr_lock w' = Some j" for j
    using other [of j] i unfolding take_ticket(1) by (cases "j = i") simp_all
  ultimately show ?thesis
    unfolding lock_held_def by blast
next
  case (rollback i)
  then show ?thesis using winv_parts(2) [OF assms(2)] by - (rule lock_unlock [of w i Idle], auto)
next
  case (commit_ok i t evs)
  then show ?thesis using winv_parts(2) [OF assms(2)] by - (rule lock_unlock [of w i "Committed t evs"], auto)
next
  case (commit_fails i t evs)
  then show ?thesis using winv_parts(2) [OF assms(2)] by - (rule lock_unlock [of w i "FailedTicket t"], auto)
qed (insert winv_parts(2) [OF assms(2)], (rule lock_same, assumption, simp_all add: seq_done_def)+)

lemma ordered_facts:
  assumes "commits_ordered w"
  shows "wr_phase w i = Ticketed t evs \<Longrightarrow> c \<in> set (wr_commits w) \<Longrightarrow> fst c < t"
    and "wr_phase w i = Committed t evs \<Longrightarrow> (t, evs) \<in> set (wr_commits w)"
    and "wr_phase w i = FailedTicket t \<Longrightarrow> t \<notin> fst ` set (wr_commits w)"
    and "c \<in> set (wr_commits w) \<Longrightarrow> fst c < sq_next (wr_seq w)"
  using assms unfolding commits_ordered_def by blast+

lemma commits_same:
  assumes "commits_ordered w" and "wr_commits w' = wr_commits w" and "sq_next (wr_seq w) \<le> sq_next (wr_seq w')"
    and "wr_phase w' = (wr_phase w)(i := p)"
    and "\<And>t evs. p = Ticketed t evs \<Longrightarrow> \<forall>c \<in> set (wr_commits w). fst c < t"
    and "\<And>t evs. p = Committed t evs \<Longrightarrow> (t, evs) \<in> set (wr_commits w)"
    and "\<And>t. p = FailedTicket t \<Longrightarrow> t \<notin> fst ` set (wr_commits w)"
  shows "commits_ordered w'"
proof -
  have "\<forall>c \<in> set (wr_commits w'). fst c < sq_next (wr_seq w')"
    using assms(1-3) by (fastforce simp: commits_ordered_def)
  moreover have "\<forall>c \<in> set (wr_commits w'). fst c < t" if "wr_phase w' j = Ticketed t evs" for j t evs
    using assms(2,4,5) that ordered_facts(1) [OF assms(1), of j t evs] by (cases "j = i") simp_all
  moreover have "(t, evs) \<in> set (wr_commits w')" if "wr_phase w' j = Committed t evs" for j t evs
    using assms(2,4,6) that ordered_facts(2) [OF assms(1), of j t evs] by (cases "j = i") simp_all
  moreover have "t \<notin> fst ` set (wr_commits w')" if "wr_phase w' j = FailedTicket t" for j t
    using assms(2,4,7) that ordered_facts(3) [OF assms(1), of j t] by (cases "j = i") simp_all
  ultimately show ?thesis
    using assms(1,2) unfolding commits_ordered_def by simp
qed

lemma commits_commit:
  assumes ord: "commits_ordered w" and lock: "lock_held w" and tk: "tickets_held w" and i: "wr_phase w i = Ticketed t evs"
    and w': "wr_seq w' = wr_seq w" "wr_phase w' = (wr_phase w)(i := Committed t evs)" "wr_commits w' = wr_commits w @ [(t, evs)]"
  shows "commits_ordered w'"
proof -
  have below: "\<forall>c \<in> set (wr_commits w). fst c < t"
    using ordered_facts(1) [OF ord i] by blast
  have other: "j = i" if "wr_phase w j = Ticketed u es" for j u es
    using lock_free [OF lock i that] .
  have no_fail: "u \<noteq> t" if "wr_phase w j = FailedTicket u" for j u
  proof
    assume "u = t"
    with that have "ticket_of (wr_phase w j) = Some t" by simp
    moreover have "ticket_of (wr_phase w i) = Some t" using i by simp
    ultimately have "j = i" using tk unfolding tickets_held_def by blast
    with i that show False by simp
  qed
  have "t < sq_next (wr_seq w)"
    using tk i unfolding tickets_held_def by (metis ticket_of.simps(1))
  then have "\<forall>c \<in> set (wr_commits w'). fst c < sq_next (wr_seq w')"
    using ord w' by (auto simp: commits_ordered_def)
  moreover have "sorted_wrt (<) (map fst (wr_commits w'))"
    using ord below w' by (simp add: commits_ordered_def sorted_wrt_append)
  moreover have "wr_phase w' j \<noteq> Ticketed u es" for j u es
    using other [of j u es] w' by (cases "j = i") auto
  moreover have "(u, es) \<in> set (wr_commits w')" if "wr_phase w' j = Committed u es" for j u es
    using ordered_facts(2) [OF ord, of j u es] that w' by (cases "j = i") simp_all
  moreover have "u \<notin> fst ` set (wr_commits w')" if "wr_phase w' j = FailedTicket u" for j u
  proof -
    have j: "wr_phase w j = FailedTicket u"
      using that w' by (cases "j = i") simp_all
    then have "u \<notin> fst ` set (wr_commits w)"
      using ord unfolding commits_ordered_def by blast
    then show ?thesis using no_fail [OF j] w' by simp
  qed
  ultimately show ?thesis
    unfolding commits_ordered_def by blast
qed

lemma commits_step:
  assumes "wstep w w'" and "winv w"
  shows "commits_ordered w'"
  using assms(1)
proof cases
  case (take_ticket i t s evs)
  note ord = winv_parts(3) [OF assms(2)] and ts = seq_ticket_eq [OF take_ticket(3)]
  have "\<forall>c \<in> set (wr_commits w). fst c < t"
    using ordered_facts(4) [OF ord] ts by simp
  moreover have "sq_next (wr_seq w) \<le> sq_next (wr_seq w')"
    using ts unfolding take_ticket(1) by simp
  ultimately show ?thesis
    by - (rule commits_same [OF ord, of w' i "Ticketed t evs"], (simp_all add: take_ticket(1)))
next
  case (commit_ok i t evs)
  then show ?thesis
    using winv_parts [OF assms(2)] by - (rule commits_commit [of w i t evs], simp_all)
next
  case (commit_fails i t evs)
  have "\<forall>c \<in> set (wr_commits w). fst c < t"
    using winv_parts(3) [OF assms(2)] commit_fails(2) unfolding commits_ordered_def by blast
  then have "t \<notin> fst ` set (wr_commits w)" by auto
  then show ?thesis
    unfolding commit_fails(1) using winv_parts(3) [OF assms(2)]
    by - (rule commits_same [of w _ i "FailedTicket t"], simp_all)
next
  case (begin_tx i)
  then show ?thesis
    using winv_parts(3) [OF assms(2)] by - (rule commits_same [of w w' i InTx], simp_all add: seq_done_def)
next
  case (rollback i)
  then show ?thesis
    using winv_parts(3) [OF assms(2)] by - (rule commits_same [of w w' i Idle], simp_all add: seq_done_def)
next
  case (await_turn i t evs)
  then show ?thesis
    using winv_parts(3) [OF assms(2)] by - (rule commits_same [of w w' i "Publishing t evs"], simp_all add: seq_done_def)
next
  case (deliver i t e evs)
  then show ?thesis
    using winv_parts(3) [OF assms(2)] by - (rule commits_same [of w w' i "Publishing t evs"], simp_all add: seq_done_def)
next
  case (pass_on i t)
  then show ?thesis
    using winv_parts(3) [OF assms(2)] by - (rule commits_same [of w w' i Idle], simp_all add: seq_done_def)
next
  case (pass_failed i t)
  then show ?thesis
    using winv_parts(3) [OF assms(2)] by - (rule commits_same [of w w' i Idle], simp_all add: seq_done_def)
qed

text \<open>A step of a writer that is not publishing, before or after, and does not move the turn.\<close>

lemma published_same:
  assumes ok: "published_ok w" and "wr_commits w' = wr_commits w @ cs" and "sq_turn (wr_seq w') = sq_turn (wr_seq w)"
    and "before_turn w' = before_turn w" and "wr_published w' = wr_published w"
    and "wr_phase w' = (wr_phase w)(i := p)"
    and "\<And>t evs. wr_phase w i \<noteq> Publishing t evs" and "\<And>t evs. p \<noteq> Publishing t evs"
  shows "published_ok w'"
proof -
  have same: "wr_phase w' j = Publishing t evs \<longleftrightarrow> wr_phase w j = Publishing t evs" for j t evs
    using assms(6-8) by (cases "j = i") simp_all
  show ?thesis
    using ok assms(2-5) unfolding published_ok_def same by auto
qed

lemma publishing_alone:
  assumes "winv w" and "wr_phase w i = Publishing t evs" and "wr_phase w j = Publishing u es"
  shows "j = i"
proof -
  have "t = u"
    using publishing_turn assms by blast
  then have "ticket_of (wr_phase w i) = Some t" "ticket_of (wr_phase w j) = Some t"
    using assms(2,3) by simp_all
  then show ?thesis
    using winv_parts(1) [OF assms(1)] unfolding tickets_held_def by blast
qed

lemma published_step:
  assumes step: "wstep w w'" and inv: "winv w"
  shows "published_ok w'"
  using step
proof cases
  case (commit_ok i t evs)
  have "sq_turn (wr_seq w) \<le> t"
    using winv_parts(1) [OF inv] commit_ok(2) unfolding tickets_held_def by (metis ticket_of.simps(1))
  then have "before_turn w' = before_turn w"
    by (simp add: before_turn_def commit_ok(1))
  then show ?thesis
    using winv_parts(4) [OF inv] commit_ok by - (rule published_same [of w w' "[(t, evs)]" i "Committed t evs"], simp_all)
next
  case (await_turn i t evs)
  have turn: "t = sq_turn (wr_seq w)"
    using await_turn(3) by (simp add: may_go_def)
  have none: "wr_phase w j \<noteq> Publishing u es" for j u es
  proof
    assume j: "wr_phase w j = Publishing u es"
    then have "ticket_of (wr_phase w j) = Some t" "ticket_of (wr_phase w i) = Some t"
      using publishing_turn [OF inv j] turn await_turn(2) by simp_all
    then have "j = i" using winv_parts(1) [OF inv] unfolding tickets_held_def by blast
    with j await_turn(2) show False by simp
  qed
  then have "wr_published w = before_turn w"
    using winv_parts(4) [OF inv] unfolding published_ok_def by blast
  moreover have "(t, evs) \<in> set (wr_commits w)"
    using winv_parts(3) [OF inv] await_turn(2) unfolding commits_ordered_def by blast
  moreover have "before_turn w' = before_turn w"
    by (rule before_turn_same) (simp_all add: await_turn(1))
  ultimately show ?thesis
    unfolding published_ok_def using none turn await_turn(1) by (auto split: if_splits)
next
  case (deliver i t e evs)
  obtain out where out: "(t, out @ e # evs) \<in> set (wr_commits w)" "wr_published w = before_turn w @ out" "t = sq_turn (wr_seq w)"
    using winv_parts(4) [OF inv] deliver(2) unfolding published_ok_def by blast
  have "before_turn w' = before_turn w"
    by (rule before_turn_same) (simp_all add: deliver(1))
  moreover have "j = i" if "wr_phase w j = Publishing u es" for j u es
    using publishing_alone [OF inv deliver(2) that] .
  ultimately show ?thesis
    unfolding published_ok_def using out deliver(1) by (auto split: if_splits intro!: exI [of _ "out @ [e]"])
next
  case (pass_on i t)
  obtain out where out: "(t, out) \<in> set (wr_commits w)" "wr_published w = before_turn w @ out" "t = sq_turn (wr_seq w)"
    using winv_parts(4) [OF inv] pass_on(2) unfolding published_ok_def by fastforce
  have "before_turn w' = before_turn w @ out"
    using out(1,3) winv_parts(3) [OF inv] by (intro before_turn_next) (simp_all add: pass_on(1) seq_done_def)
  moreover have "wr_phase w' j \<noteq> Publishing u es" for j u es
    using publishing_alone [OF inv pass_on(2), of j u es] pass_on(1) by (cases "j = i") auto
  ultimately show ?thesis
    unfolding published_ok_def using out pass_on(1) by simp
next
  case (pass_failed i t)
  have turn: "t = sq_turn (wr_seq w)"
    using pass_failed(3) by (simp add: may_go_def)
  have none: "wr_phase w j \<noteq> Publishing u es" for j u es
  proof
    assume j: "wr_phase w j = Publishing u es"
    then have "ticket_of (wr_phase w j) = Some t" "ticket_of (wr_phase w i) = Some t"
      using publishing_turn [OF inv j] turn pass_failed(2) by simp_all
    then have "j = i" using winv_parts(1) [OF inv] unfolding tickets_held_def by blast
    with j pass_failed(2) show False by simp
  qed
  have "t \<notin> fst ` set (wr_commits w)"
    using winv_parts(3) [OF inv] pass_failed(2) unfolding commits_ordered_def by blast
  then have "before_turn w' = before_turn w"
    using turn by (intro before_turn_skip) (simp_all add: pass_failed(1) seq_done_def)
  moreover have "wr_published w = before_turn w"
    using winv_parts(4) [OF inv] none unfolding published_ok_def by blast
  ultimately show ?thesis
    unfolding published_ok_def using none pass_failed(1) by (auto split: if_splits)
next
  case (take_ticket i t s evs)
  have "sq_turn (wr_seq w') = sq_turn (wr_seq w)"
    using seq_ticket_eq [OF take_ticket(3)] unfolding take_ticket(1) by simp
  then show ?thesis
    using winv_parts(4) [OF inv]
    by - (rule published_same [of w w' "[]" i "Ticketed t evs"], (simp_all add: take_ticket(1,2) before_turn_def))
next
  case (begin_tx i)
  then show ?thesis
    using winv_parts(4) [OF inv] by - (rule published_same [of w w' "[]" i InTx], (simp_all add: before_turn_def))
next
  case (rollback i)
  then show ?thesis
    using winv_parts(4) [OF inv] by - (rule published_same [of w w' "[]" i Idle], (simp_all add: before_turn_def))
next
  case (commit_fails i t evs)
  then show ?thesis
    using winv_parts(4) [OF inv]
    by - (rule published_same [of w w' "[]" i "FailedTicket t"], (simp_all add: before_turn_def))
qed


lemma winv_step: "wstep w w' \<Longrightarrow> winv w \<Longrightarrow> winv w'"
  unfolding winv_def [of w'] by (intro conjI tickets_step lock_step commits_step published_step)

lemma winv_reach: "wreach w \<Longrightarrow> winv w"
  unfolding wreach_def by (induction rule: rtranclp_induct) (auto intro: winv_start winv_step)

section \<open>What follows\<close>

lemma before_turn_prefix:
  assumes "sorted_wrt (<) (map fst cs)"
  shows "\<exists>rest. concat (map snd cs) = concat (map snd (filter (\<lambda>c. fst c < (n :: nat)) cs)) @ rest"
  using assms
proof (induction cs)
  case (Cons c cs)
  show ?case
  proof (cases "fst c < n")
    case True
    with Cons show ?thesis by auto
  next
    case False
    with Cons.prems have "filter (\<lambda>c. fst c < n) cs = []"
      by (auto simp: filter_empty_conv)
    with False show ?thesis by simp
  qed
qed simp

lemma out_prefix:
  assumes "sorted_wrt (<) (map fst cs)" and "(n :: nat, out @ evs) \<in> set cs"
  shows "\<exists>rest. concat (map snd cs) = concat (map snd (filter (\<lambda>c. fst c < n) cs)) @ out @ rest"
  using before_turn_prefix [OF assms(1), of "Suc n"] filter_sorted_at [OF assms] by auto

text \<open>A holder of the turn can always move, and so can a holder of the lock.\<close>

lemma turn_holder_moves:
  assumes "winv w" and "ticket_of (wr_phase w i) = Some (sq_turn (wr_seq w))"
  shows "\<exists>w'. wstep w w' \<and> wr_phase w' i \<noteq> wr_phase w i"
proof (cases "wr_phase w i")
  case (Ticketed t evs)
  from wstep.commit_ok [of w i t evs, OF this] show ?thesis
    by (intro exI conjI) (assumption, simp add: Ticketed)
next
  case (Committed t evs)
  with assms have "may_go (wr_seq w) t" by (simp add: may_go_def)
  from wstep.await_turn [of w i t evs, OF Committed this] show ?thesis
    by (intro exI conjI) (assumption, simp add: Committed)
next
  case (Publishing t evs)
  show ?thesis
  proof (cases evs)
    case Nil
    with Publishing have p: "wr_phase w i = Publishing t []" by simp
    from wstep.pass_on [of w i t, OF p] show ?thesis
      by (intro exI conjI) (assumption, simp add: p)
  next
    case (Cons e es)
    with Publishing have p: "wr_phase w i = Publishing t (e # es)" by simp
    from wstep.deliver [of w i t e es, OF p] show ?thesis
      by (intro exI conjI) (assumption, simp add: p)
  qed
next
  case (FailedTicket t)
  with assms have "may_go (wr_seq w) t" by (simp add: may_go_def)
  from wstep.pass_failed [of w i t, OF FailedTicket this] show ?thesis
    by (intro exI conjI) (assumption, simp add: FailedTicket)
qed (use assms in simp_all)

lemma turn_held:
  assumes "winv w" and "ticket_of (wr_phase w i) = Some t"
  shows "\<exists>j. ticket_of (wr_phase w j) = Some (sq_turn (wr_seq w))"
  using winv_parts(1) [OF assms(1)] assms(2) unfolding tickets_held_def by (meson le_less_trans order_refl)

end
