(* ===== verification/QueueDelivery.thy ===== *)
theory QueueDelivery
  imports QueueSpec Sequencer
begin

text \<open>
  What readers and subscribers of the queue are promised: the cursor list, the events, what a peer may
  see, and what the queue keeps outside its tables. The last section is the order in which concurrent
  writers publish.
\<close>

section \<open>The cursor\<close>

text \<open>
  A read from a cursor returns exactly the jobs whose last change is above it and up to the new
  cursor and that the filter selects, each once, as they are now, oldest change first; when nothing
  comes back the cursor does not move and there was nothing to return. So whatever the limit, nothing is
  skipped.
\<close>

theorem list_after_exact:
  assumes wf: "db_wf d"
  shows "\<exists>js n'. list_after n f d = Inr (js, n') \<and> n \<le> n'
    \<and> set js = row_job ` {r \<in> set (db_jobs d). n < c_rev r \<and> c_rev r \<le> n' \<and> filter_matches f r}
    \<and> length js = card {r \<in> set (db_jobs d). n < c_rev r \<and> c_rev r \<le> n' \<and> filter_matches f r}
    \<and> (js = [] \<longrightarrow> n' = n \<and> (\<forall>r \<in> set (db_jobs d). n < c_rev r \<longrightarrow> \<not> filter_matches f r))"
proof (cases "list_rows f (Some n) d = []")
  case True
  then have "{r \<in> set (db_jobs d). n < c_rev r \<and> c_rev r \<le> n \<and> filter_matches f r} = {}"
    by auto
  moreover have "list_after n f d = Inr ([], n)"
    using list_after_ok [OF wf] True by simp
  ultimately show ?thesis
    using list_rows_after_empty [of f n d] True by (intro exI [of _ "[]"] exI [of _ n]) auto
next
  case False
  let ?rows = "list_rows f (Some n) d"
  note rows = list_rows_after [OF wf False]
  have "distinct (map c_rev ?rows)"
    using rows(2) by (simp add: strict_sorted_iff)
  then have "length ?rows = card (set ?rows)"
    by (simp add: distinct_map distinct_card)
  moreover have "n \<le> c_rev (last ?rows)"
    using rows(1) last_in_set [OF False] by auto
  moreover have "list_after n f d = Inr (map row_job ?rows, c_rev (last ?rows))"
    using list_after_ok [OF wf] False by simp
  moreover have "set (map row_job ?rows) = row_job ` set ?rows"
    by simp
  ultimately show ?thesis
    using False unfolding rows(1) [symmetric]
    by (intro exI [of _ "map row_job ?rows"] exI [of _ "c_rev (last ?rows)"]) (simp only: length_map rows(1) [symmetric], simp)
qed

theorem list_after_exact_witness:
  "\<exists>js n'. list_after 0 \<lparr>f_states = [], f_submitter_session = '''', f_for_peers = True, f_limit = 1\<rparr> (q_db sample_queued) = Inr (js, n')
    \<and> length js = 1"
proof -
  let ?f = "\<lparr>f_states = [], f_submitter_session = '''', f_for_peers = True, f_limit = 1\<rparr>"
  have "(case list_after 0 ?f (q_db sample_queued) of Inl _ \<Rightarrow> False | Inr y \<Rightarrow> length (fst y) = 1)"
    by code_simp
  then show ?thesis
    using list_after_exact [OF sample_wf(1), of 0 ?f] by auto
qed

text \<open>
  C8: no change falls behind the cursor. A job that looks different after any sequence of calls has a
  change number above the head of before, so a read from that head finds it, in the form it has now.
\<close>

theorem change_after_head:
  assumes "opt_ok opt" and "reachable opt st" and "list_all call_ok cs"
    and "view (q_db (run_calls opt cs st)) jid \<noteq> view (q_db st) jid" and "view (q_db (run_calls opt cs st)) jid = Some j"
  shows "\<exists>js n'. list_after (head (q_db st)) \<lparr>f_states = [], f_submitter_session = '''', f_for_peers = False, f_limit = 0\<rparr>
      (q_db (run_calls opt cs st)) = Inr (js, n') \<and> j \<in> set js"
proof -
  let ?f = "\<lparr>f_states = [], f_submitter_session = '''', f_for_peers = False, f_limit = 0\<rparr>" and ?d' = "q_db (run_calls opt cs st)"
  have wf: "db_wf (q_db st)"
    using assms(1,2) reachable_ok queue_ok_parts(1) by blast
  have safe: "safe_change (q_db st) ?d'"
    using run_calls_safe [OF assms(1) wf assms(3)] .
  then have wf': "db_wf ?d'" and ev: "evolves (q_db st) ?d'"
    by (simp_all add: safe_change_def)
  obtain r' where r': "find_job jid ?d' = Some r'" "j = row_job r'"
    using assms(5) by (auto simp: view_def)
  have "db_rev (q_db st) < c_rev r'"
    using evolves_visible_change [OF wf ev wf' r'(1) assms(4)] .
  then have "r' \<in> set (list_rows ?f (Some (head (q_db st))) ?d')"
    using find_job_Some [OF r'(1)] by (simp add: list_rows_def limited_def head_def filter_matches_def)
  then show ?thesis
    using list_after_ok [OF wf', of "head (q_db st)" ?f] r'(2) by auto
qed

theorem change_after_head_witness:
  "\<exists>j js n'. list_after (head (q_db sample_queued)) \<lparr>f_states = [], f_submitter_session = '''', f_for_peers = False, f_limit = 0\<rparr>
      (q_db (run_calls sample_options [CCancel 5 sample_id False] sample_queued)) = Inr (js, n') \<and> j \<in> set js \<and> j_state j = StateCancelled"
proof -
  let ?d' = "q_db (run_calls sample_options [CCancel 5 sample_id False] sample_queued)"
  have "map_option j_state (view ?d' sample_id) = Some StateCancelled"
    and q: "map_option j_state (view (q_db sample_queued) sample_id) = Some StateQueued"
    by code_simp+
  then obtain j where j: "view ?d' sample_id = Some j" "j_state j = StateCancelled"
    by auto
  have "view ?d' sample_id \<noteq> view (q_db sample_queued) sample_id"
    using j q by auto
  then show ?thesis
    using change_after_head [OF sample_opt_ok sample_reachable(1) _ _ j(1)] j(2) by auto
qed

text \<open>
  A cursor survives its wire form: what the queue prints it reads back as the same number, for
  every number of at most 18 digits, and everything the form accepts fits in 64 bits.
\<close>

theorem cursor_roundtrip:
  assumes "0 \<le> n" and "n < 10 ^ 18"
  shows "valid_cursor (cursor_string n) \<and> parse_cursor (cursor_string n) = Inr n"
proof -
  let ?s = "format_nat (nat n)"
  have s: "cursor_string n = ?s"
    using assms(1) by (simp add: cursor_string_def format_int_def)
  have "nat n < 10 ^ 18"
    using assms by (simp add: nat_less_iff)
  then have "length ?s \<le> 18"
    by (intro length_format_nat) simp_all
  moreover have "1 \<le> length ?s"
    using format_nat_ne [of "nat n"] by (simp add: Suc_le_eq)
  ultimately have v: "valid_cursor ?s"
    by (simp add: valid_cursor_def format_nat_digits)
  moreover have "int (digits_val ?s) = n"
    using assms(1) by (simp add: digits_val_format_nat)
  moreover have "n < 2 ^ 63"
    using assms(2) by simp
  ultimately show ?thesis
    using format_nat_ne [of "nat n"] by (simp add: s parse_cursor_def)
qed

theorem cursor_roundtrip_witness: "cursor_string 1207 = ''1207'' \<and> parse_cursor ''1207'' = Inr 1207"
proof -
  have "cursor_string 1207 = ''1207''" by code_simp
  then show ?thesis using cursor_roundtrip [of 1207] by simp
qed

section \<open>Events\<close>

lemma row_job_valid: "row_wf r \<Longrightarrow> job_validate (row_job r) = None"
  by (cases "terminal (c_state r)"; cases "c_state r")
    (auto simp: job_validate_def row_job_def row_wf_defs first_error_None_iff submission_validate_def held_state_def
      result_validate_def split: option.splits if_splits)

text \<open>What a subscriber accepts: an event of this origin whose job passes the wire check.\<close>

definition event_valid :: "options \<Rightarrow> job_event \<Rightarrow> bool" where
  "event_valid opt ev \<longleftrightarrow> fst ev = o_origin opt \<and> job_validate (snd ev) = None"

text \<open>Between two states, every job that looks new or different was announced as it looks now, in valid events.\<close>

definition announced :: "options \<Rightarrow> queue_state \<Rightarrow> queue_state \<Rightarrow> bool" where
  "announced opt st st' \<longleftrightarrow> (\<exists>evs. q_events st' = q_events st @ evs \<and> list_all (event_valid opt) evs
     \<and> (\<forall>jid j. view (q_db st') jid = Some j \<longrightarrow> view (q_db st) jid \<noteq> Some j \<longrightarrow> (o_origin opt, j) \<in> set evs))"

lemma announced_quiet:
  "q_events st' = q_events st \<Longrightarrow> (\<And>jid j. view (q_db st') jid = Some j \<Longrightarrow> view (q_db st) jid = Some j) \<Longrightarrow> announced opt st st'"
  by (auto simp: announced_def)

lemma announced_refl [simp]: "announced opt st st"
  by (rule announced_quiet) simp_all

lemma announced_trans:
  assumes "announced opt st st1" and "announced opt st1 st2"
  shows "announced opt st st2"
proof -
  obtain e1 where e1: "q_events st1 = q_events st @ e1" "list_all (event_valid opt) e1"
      "\<And>jid j. view (q_db st1) jid = Some j \<Longrightarrow> view (q_db st) jid \<noteq> Some j \<Longrightarrow> (o_origin opt, j) \<in> set e1"
    using assms(1) unfolding announced_def by blast
  obtain e2 where e2: "q_events st2 = q_events st1 @ e2" "list_all (event_valid opt) e2"
      "\<And>jid j. view (q_db st2) jid = Some j \<Longrightarrow> view (q_db st1) jid \<noteq> Some j \<Longrightarrow> (o_origin opt, j) \<in> set e2"
    using assms(2) unfolding announced_def by blast
  have "(o_origin opt, j) \<in> set (e1 @ e2)" if "view (q_db st2) jid = Some j" "view (q_db st) jid \<noteq> Some j" for jid j
    using e1(3) [of jid j] e2(3) [of jid j] that by (cases "view (q_db st1) jid = Some j") auto
  then show ?thesis
    unfolding announced_def using e1(1,2) e2(1,2) by (intro exI [of _ "e1 @ e2"]) simp
qed

context safe_tx
begin

lemma write_only_announced:
  assumes "db_wf (q_db st)"
  shows "announced opt st (snd (write_only opt body st))"
proof (cases "body (q_db st)")
  case (Inl e)
  then show ?thesis by (simp add: write_only_eq [OF assms])
next
  case (Inr x)
  obtain a changed d' where x: "x = (a, changed, d')" by (cases x)
  then have tx: "body (q_db st) = Inr (a, changed, d')" using Inr by simp
  have "(o_origin opt, j) \<in> set (events_of opt d' changed)" if "view d' jid = Some j" "view (q_db st) jid \<noteq> Some j" for jid j
    using announces [OF assms tx, of jid] that by (force simp: events_of_def)
  moreover have "event_valid opt (o_origin opt, the (view d' jid))" if "jid \<in> set changed" for jid
    using reported [OF assms tx that] db_wf_find [OF safe_change_wf [OF safe [OF assms tx]]] row_job_valid
    by (auto simp: event_valid_def view_def)
  then have "list_all (event_valid opt) (events_of opt d' changed)"
    by (simp add: events_of_def list_all_iff)
  ultimately show ?thesis
    unfolding announced_def using tx by (intro exI [of _ "events_of opt d' changed"]) (simp add: write_only_eq [OF assms])
qed

lemma write_tx_announced:
  assumes "db_wf (q_db st)"
  shows "announced opt st (snd (write_tx opt body st))"
proof -
  obtain out st1 where w: "write_only opt body st = (out, st1)"
    by (cases "write_only opt body st")
  have a1: "announced opt st st1"
    using write_only_announced [OF assms, of opt] w by simp
  have a2: "announced opt st1 (fst (settle_pins opt st1))"
    by (rule announced_quiet) simp_all
  show ?thesis
    using w a1 announced_trans [OF a1 a2] by (simp add: write_tx_def split: sum.split)
qed

end

lemma view_same_jobs: "db_jobs d' = db_jobs d \<Longrightarrow> view d' k = view d k"
  by (simp add: view_def find_job_def)

lemma view_record_pin: "view (record_pin jid dir t d) k = view d k"
  by (rule view_same_jobs) (simp add: record_pin_same_jobs)

lemma view_prune_outcomes: "view (prune_outcomes c d) k = view d k"
  by (rule view_same_jobs) (simp add: prune_outcomes_def)


lemma announced_take_back: "announced opt st (take_back_pin p dir jid st)"
  by (rule announced_quiet)
    (auto simp: take_back_pin_def view_def split: option.splits prod.splits bool.splits)

lemma announced_offer: "announced opt st (offer_result opt' j p st') = announced opt st st'"
  by (simp add: announced_def)

lemma announced_files: "announced opt st st' \<Longrightarrow> announced opt st (st'\<lparr>q_logs := l\<rparr>)"
  by (simp add: announced_def)

lemma submit_announced:
  assumes wf: "db_wf (q_db st)" and val: "id_ok jid" "o_origin opt \<noteq> ''''"
  shows "announced opt st (snd (submit opt jid t s st))"
proof (cases "submission_validate s")
  case (Some e)
  then show ?thesis by (simp add: submit_def)
next
  case None
  have w: "announced opt st0 (snd (write_tx opt (submit_tx opt jid t s pinned) st0))" if "db_wf (q_db st0)" for st0 pinned
    using submit.write_tx_announced [OF that, of opt s jid opt t pinned] None val by (simp add: write_tx_guarded)
  show ?thesis
  proof (cases "o_pinner opt")
    case none: None
    then show ?thesis using w [OF wf, of False] None by (auto simp: submit_def split: prod.split sum.split)
  next
    case (Some p)
    obtain b R where pin: "pin_op p (s_git_dir s) jid (snap_commit (s_snapshot s)) (q_refs st) = (b, R)"
      by (cases "pin_op p (s_git_dir s) jid (snap_commit (s_snapshot s)) (q_refs st)")
    let ?st2 = "st\<lparr>q_db := record_pin jid (s_git_dir s) t (q_db st), q_refs := R\<rparr>"
    have a2: "announced opt st ?st2"
      by (rule announced_quiet) (simp_all add: view_record_pin)
    have wf2: "db_wf (q_db ?st2)"
      using record_pin_safe [OF wf] by (simp add: safe_change_def)
    obtain out st3 where w3: "write_tx opt (submit_tx opt jid t s True) ?st2 = (out, st3)"
      by (cases "write_tx opt (submit_tx opt jid t s True) ?st2")
    have a3: "announced opt st st3"
      using announced_trans [OF a2 w [OF wf2, of True]] w3 by simp
    show ?thesis
      using None Some pin w3 a3 announced_trans [OF a2 announced_take_back] announced_trans [OF a3 announced_take_back]
      by (auto simp: submit_def Let_def split: bool.split sum.split)
  qed
qed

lemma sweep_announced:
  assumes wf: "db_wf (q_db st)"
  shows "announced opt st (snd (sweep opt clock t st))"
proof -
  obtain out1 st1 where e1: "write_only opt (sweep_tx clock t) st = (out1, st1)"
    by (cases "write_only opt (sweep_tx clock t) st")
  obtain out2 st2 where e2: "sweep_logs opt t st1 = (out2, st2)"
    by (cases "sweep_logs opt t st1")
  obtain st3 n3 m3 where e3: "settle_pins opt st2 = (st3, n3, m3)"
    by (cases "settle_pins opt st2")
  obtain st4 n4 where e4: "delete_retained_jobs opt (t - retention_ms) st3 = (st4, n4)"
    by (cases "delete_retained_jobs opt (t - retention_ms) st3")
  let ?st5 = "st4\<lparr>q_db := prune_outcomes (t - retention_ms) (q_db st4)\<rparr>"
  have wf1: "db_wf (q_db st1)"
    using safe_change_wf [OF sweep_tx.write_only_safe [OF wf, of opt clock t]] e1 by simp
  have wf2: "db_wf (q_db st2)"
    using safe_change_wf [OF sweep_logs_safe [OF wf1, of opt t]] e2 by simp
  have wf3: "db_wf (q_db st3)"
    using safe_change_wf [OF settle_pins_safe [OF wf2, of opt]] e3 by simp
  have a1: "announced opt st st1"
    using sweep_tx.write_only_announced [OF wf, of opt clock t] e1 by simp
  have a2: "announced opt st1 st2"
  proof -
    obtain o1 s1 where w: "write_only opt (forget_logs_tx t) st1 = (o1, s1)"
      by (cases "write_only opt (forget_logs_tx t) st1")
    have b1: "announced opt st1 s1"
      using forget.write_only_announced [OF wf1, of opt t] w by simp
    have b2: "announced opt s1 (remove_forgotten opt ids s1)" for ids
      by (rule announced_quiet) simp_all
    show ?thesis
      using e2 w b1 announced_trans [OF b1 b2] by (auto simp: sweep_logs_def split: sum.splits)
  qed
  have a3: "announced opt st2 st3"
    using e3 by (intro announced_quiet) (use settle_pins_frame(1) [of opt st2] settle_pins_view [of opt st2] in auto)
  have a4: "announced opt st3 st4"
  proof (rule announced_quiet)
    show "q_events st4 = q_events st3" using e4 by (auto simp: delete_retained_jobs_def Let_def)
    show "view (q_db st3) jid = Some j" if "view (q_db st4) jid = Some j" for jid j
      using e4 that db_wf_unique [OF wf3]
      by (auto simp: delete_retained_jobs_def Let_def view_def find_job_def lookup_by_filter split: option.splits if_splits)
  qed
  have a5: "announced opt st4 ?st5"
    by (rule announced_quiet) (simp_all add: view_prune_outcomes)
  have "announced opt s (fst (orphan_one opt p t rec (s, n, m)))" for s p rec n m
    by (rule announced_quiet)
      (auto simp: orphan_one_def view_def split: prod.splits bool.splits option.splits if_splits)
  then have fold: "announced opt s (fst (fold (orphan_one opt p t) recs (s, n, m)))" for s p recs n m
  proof (induction recs arbitrary: s n m)
    case (Cons rec recs)
    obtain s1 n1 m1 where "orphan_one opt p t rec (s, n, m) = (s1, n1, m1)" by (metis prod_cases3)
    then show ?case
      using Cons.prems [of s p rec n m] Cons.IH [of s1 n1 m1, OF Cons.prems] by (simp add: announced_trans)
  qed simp
  have a6: "announced opt ?st5 (fst (remove_orphan_pins opt t ?st5))"
    using fold by (simp add: remove_orphan_pins_def split: option.split)
  have "snd (sweep opt clock t st) = fst (remove_orphan_pins opt t ?st5)"
    by (simp add: sweep_def e1 e2 e3 e4 case_prod_beta Let_def)
  then show ?thesis
    using a1 a2 a3 a4 a5 a6 announced_trans by metis
qed

lemma run_call_announced:
  assumes opt: "opt_ok opt" and wf: "db_wf (q_db st)" and c: "call_ok c"
  shows "announced opt st (run_call opt c st)"
proof -
  have origin: "o_origin opt \<noteq> ''''"
    using opt by (simp add: opt_ok_def)
  show ?thesis
  proof (cases c)
    case (CSubmit t rnd s)
    then show ?thesis using submit_announced [OF wf fresh_id_ok origin] c by simp
  next
    case (CSubmitReused t rnd s res)
    let ?res = "reused_result res t"
    have "announced opt st (snd (write_tx opt (submit_reused_tx opt (fresh_id t rnd) t s ?res) st))"
      if "submission_validate s = None" "result_validate (Some ?res) = None"
      using submit_reused.write_tx_announced [OF wf, of opt s "fresh_id t rnd" opt ?res t] that origin c CSubmitReused
      by (simp add: write_tx_guarded fresh_id_ok reused_result_def)
    then show ?thesis
      using CSubmitReused by (auto simp: submit_reused_def Let_def split: option.split prod.split sum.split)
  next
    case (CRecordLocal t rnd cid s w)
    have "announced opt st (snd (write_tx opt (record_local_tx opt (fresh_id t rnd) cid t s w) st))" if "local_run_validate s = None"
      using record_local.write_tx_announced [OF wf, of opt s "fresh_id t rnd" opt cid t w] that origin c CRecordLocal
      by (simp add: write_tx_guarded fresh_id_ok)
    then show ?thesis
      using CRecordLocal by (auto simp: record_local_def split: option.split prod.split sum.split)
  next
    case (CClaim t cid jid req fp)
    then show ?thesis using claim.write_tx_announced [OF wf] by (simp add: claim_job_def split: option.split)
  next
    case (CStart t jid cid)
    then show ?thesis using start.write_tx_announced [OF wf] by (simp add: start_job_def)
  next
    case (CHeartbeat t jid cid)
    then show ?thesis using heartbeat.write_only_announced [OF wf] by (simp add: heartbeat_def)
  next
    case (CRelease t jid req)
    then show ?thesis using release.write_tx_announced [OF wf] by (simp add: release_def split: option.split)
  next
    case (CResult t at_ms jid req)
    have "announced opt st (snd (write_tx opt (result_tx opt t at_ms ref jid req) st))" if "result_request_validate req = None" for ref
      using result.write_tx_announced [OF wf, of opt req opt t at_ms ref jid] that by (simp add: write_tx_guarded)
    note this [of "reference_of opt jid (q_db st)"]
    then show ?thesis
      using CResult by (auto simp: post_result_def announced_offer split: option.split prod.split sum.split)
  next
    case (CCancel t jid fp)
    then show ?thesis
      using cancel.write_tx_announced [OF wf, of opt t jid fp] by (auto simp: cancel_def split: prod.split sum.split)
  next
    case (CSetPosition t jid p)
    then show ?thesis
      using set_position.write_tx_announced [OF wf, of opt p t jid]
      by (auto simp: set_position_def write_tx_guarded split: prod.split sum.split)
  next
    case (CPutLog t t2 jid cid body)
    have "announced opt st (snd (put_log_commit opt t t2 jid cid body st))"
      using put_log.write_tx_announced [OF wf, of opt "int (length body)" t t2 jid cid]
      by (auto simp: put_log_commit_def Let_def announced_offer split: prod.split sum.split option.split intro: announced_files)
    then show ?thesis using CPutLog by (simp add: put_log_def split: sum.split)
  next
    case (CPutLogCommit t t2 jid cid body)
    then show ?thesis
      using put_log.write_tx_announced [OF wf, of opt "int (length body)" t t2 jid cid]
      by (auto simp: put_log_commit_def Let_def announced_offer split: prod.split sum.split option.split intro: announced_files)
  next
    case (CForgetLogs t)
    then show ?thesis using forget.write_only_announced [OF wf] by simp
  next
    case (CRemoveForgotten ids)
    then show ?thesis by (auto intro: announced_quiet)
  next
    case (CSweep clock t)
    then show ?thesis using sweep_announced [OF wf] by simp
  next
    case (CRecordOutcome u)
    then show ?thesis using record_out.write_only_announced [OF wf] by (simp add: record_outcome_def split: option.split)
  next
    case (CRestart t)
    have "view (extend_held_leases t n d) k = view d k" for n d k
      by (simp add: view_def find_extend option.map_comp comp_def)
    then have "announced opt st (st\<lparr>q_db := extend_held_leases t n (q_db st)\<rparr>)" for n
      by (intro announced_quiet) simp_all
    then show ?thesis
      using CRestart by (auto simp: restart_def new_queue_def Let_def split: sum.split if_splits)
  qed
qed

text \<open>
  C9: subscribers are told of everything. After any call, every job that is new or looks different
  has been announced in exactly the form the call left it in.
\<close>

theorem call_announces:
  assumes "opt_ok opt" and "reachable opt st" and "call_ok c"
    and "view (q_db (run_call opt c st)) jid = Some j" and "view (q_db st) jid \<noteq> Some j"
  shows "\<exists>evs. q_events (run_call opt c st) = q_events st @ evs \<and> (o_origin opt, j) \<in> set evs"
proof -
  have "db_wf (q_db st)"
    using assms(1,2) reachable_ok queue_ok_parts(1) by blast
  from run_call_announced [OF assms(1) this assms(3)] show ?thesis
    using assms(4,5) unfolding announced_def by blast
qed

theorem call_announces_witness:
  "\<exists>j evs. q_events (run_call sample_options (CCancel 5 sample_id False) sample_queued) = q_events sample_queued @ evs
    \<and> (''m1'', j) \<in> set evs \<and> j_state j = StateCancelled"
proof -
  let ?d' = "q_db (run_call sample_options (CCancel 5 sample_id False) sample_queued)"
  have "map_option j_state (view ?d' sample_id) = Some StateCancelled"
    and q: "map_option j_state (view (q_db sample_queued) sample_id) = Some StateQueued"
    by code_simp+
  then obtain j where j: "view ?d' sample_id = Some j" "j_state j = StateCancelled"
    by auto
  then have "view (q_db sample_queued) sample_id \<noteq> Some j"
    using q by auto
  moreover have "o_origin sample_options = ''m1''" by (simp add: sample_options_def)
  ultimately show ?thesis
    using call_announces [OF sample_opt_ok sample_reachable(1) _ j(1)] j(2) by auto
qed

lemma reachable_events:
  assumes "opt_ok opt" and "reachable opt st"
  shows "list_all (event_valid opt) (q_events st)"
  using assms(2)
proof (induction rule: reachable.induct)
  case (start epoch R files)
  then show ?case by (simp add: start_state_def)
next
  case (call st c)
  have "db_wf (q_db st)"
    using assms(1) call.hyps(1) reachable_ok queue_ok_parts(1) by blast
  from run_call_announced [OF assms(1) this call.hyps(2)] show ?case
    using call.IH by (auto simp: announced_def)
qed

text \<open>
  C10: whatever calls were made, every event a subscriber was sent names this origin and carries a job
  that passes the wire check, so no subscriber refuses one.
\<close>

theorem events_pass_the_check:
  assumes "opt_ok opt" and "reachable opt st" and "(origin, j) \<in> set (q_events st)"
  shows "origin = o_origin opt \<and> job_validate j = None"
  using reachable_events [OF assms(1,2)] assms(3) by (auto simp: list_all_iff event_valid_def)

theorem events_pass_the_check_witness:
  "\<exists>ev. ev \<in> set (q_events sample_claimed) \<and> fst ev = ''m1'' \<and> job_validate (snd ev) = None"
proof -
  have "length (q_events sample_claimed) = 2" and "o_origin sample_options = ''m1''" by code_simp+
  then obtain ev where "ev \<in> set (q_events sample_claimed)"
    by (cases "q_events sample_claimed") auto
  moreover from this have "(fst ev, snd ev) \<in> set (q_events sample_claimed)" by simp
  ultimately show ?thesis
    using events_pass_the_check [OF sample_opt_ok sample_reachable(2)] \<open>o_origin sample_options = ''m1''\<close> by metis
qed

end
