(* ===== verification/QueueEffects.thy ===== *)
theory QueueEffects
  imports QueueDelivery
begin

text \<open>
  What the queue promises about the things outside its tables and about who sees what: pins and logs,
  the retention, leases, and the jobs peers are not shown.
\<close>

section \<open>Who sees what\<close>

lemma list_rows_filtered: "r \<in> set (list_rows f after d) \<Longrightarrow> filter_matches f r"
  by (auto simp: list_rows_def limited_def split: option.splits if_splits dest: in_set_takeD)

lemma private_hidden: "find_job jid d = Some r \<Longrightarrow> \<not> peer_visible r \<Longrightarrow> find_for True jid d = None"
  by (simp add: find_for_def)

text \<open>
  C11: an ad-hoc or fast-lane job does not exist for a peer. It can be neither read, claimed, cancelled
  through the peers' side of the queue, each answering as for an unknown id and changing nothing; no
  list a peer reads, plain or after a cursor, holds one; and a log it opens is that of a job it may see.
\<close>

theorem peers_see_no_private_job:
  assumes wf: "db_wf (q_db st)" and r: "find_job jid (q_db st) = Some r" and priv: "\<not> peer_visible r"
    and cl: "claim_validate req = None" and f: "f_for_peers f"
  shows "get_for_peers jid (q_db st) = Inl ErrNotFound
    \<and> claim_job opt t cid jid req True st = (Inl ErrNotFound, st)
    \<and> cancel opt t jid True st = (Inl ErrNotFound, st)
    \<and> (case open_log opt jid True st of Inl e \<Rightarrow> e = ErrNotFound
        | Inr (body, _) \<Rightarrow> \<exists>k s. find_job k (q_db st) = Some s \<and> peer_visible s \<and> q_logs st k = Some body)
    \<and> (\<exists>js. list_jobs f (q_db st) = Inr js \<and> jid \<notin> j_id ` set js)
    \<and> (\<exists>js n'. list_after n f (q_db st) = Inr (js, n') \<and> jid \<notin> j_id ` set js)"
proof -
  note hidden = private_hidden [OF r priv]
  have not_listed: "jid \<notin> j_id ` row_job ` set (list_rows f after (q_db st))" for after
  proof
    assume "jid \<in> j_id ` row_job ` set (list_rows f after (q_db st))"
    then obtain x where x: "x \<in> set (list_rows f after (q_db st))" "c_id x = jid"
      by (auto simp: row_job_def)
    then have "x \<in> set (db_jobs (q_db st))"
      by (auto simp: list_rows_def limited_def split: option.splits if_splits dest: in_set_takeD)
    then have "x = r"
      using find_job_unique [OF wf, of x] x(2) r by simp
    then show False
      using list_rows_filtered [OF x(1)] f priv by (simp add: filter_matches_def)
  qed
  have "cancel opt t jid True st = (Inl ErrNotFound, st)"
    using hidden cancel.write_tx_Inl [of t jid True st ErrNotFound opt] by (simp add: cancel_def cancel_tx_def)
  moreover have "claim_job opt t cid jid req True st = (Inl ErrNotFound, st)"
    using hidden cl claim.write_tx_Inl [of opt t cid jid req True st ErrNotFound opt]
    by (simp add: claim_job_def claim_tx_def load_held_def)
  moreover have "case open_log opt jid True st of Inl e \<Rightarrow> e = ErrNotFound
      | Inr (body, _) \<Rightarrow> \<exists>k s. find_job k (q_db st) = Some s \<and> peer_visible s \<and> q_logs st k = Some body"
    by (auto simp: open_log_def Let_def find_for_Some split: option.splits)
  ultimately show ?thesis
    using hidden not_listed [of None] not_listed [of "Some n"]
    by (simp add: get_for_peers_def get_on_def list_jobs_def list_on_ok [OF wf] list_after_ok [OF wf])
qed

definition sample_private :: queue_state where
  "sample_private = run_calls sample_options [CSubmit 0 sample_rnd (sample_submission\<lparr>s_adhoc := True\<rparr>)] sample_start"

lemma sample_private_reachable: "reachable sample_options sample_private"
  unfolding sample_private_def sample_start_def by (rule reachable_calls, rule reachable.start, simp add: sample_rnd_def)

theorem peers_see_no_private_job_witness:
  "claim_job sample_options 5 sample_cid sample_id sample_claim True sample_private = (Inl ErrNotFound, sample_private)
   \<and> (\<exists>r. find_job sample_id (q_db sample_private) = Some r \<and> c_state r = StateQueued)"
proof -
  have "map_option (\<lambda>r. (peer_visible r, c_state r)) (find_job sample_id (q_db sample_private)) = Some (False, StateQueued)"
    and cl: "claim_validate sample_claim = None" by code_simp+
  then obtain r where r: "find_job sample_id (q_db sample_private) = Some r" "\<not> peer_visible r" "c_state r = StateQueued"
    by auto
  have "db_wf (q_db sample_private)"
    using reachable_ok [OF sample_private_reachable sample_opt_ok] queue_ok_parts(1) by blast
  from peers_see_no_private_job [OF this r(1,2) cl, of "\<lparr>f_states = [], f_submitter_session = '''', f_for_peers = True, f_limit = 0\<rparr>"] r(1,3)
  show ?thesis by simp
qed

section \<open>Pins and logs\<close>

text \<open>
  C12: a snapshot lasts as long as its job needs it. Whatever calls were made, a job whose snapshot was
  pinned and that has not ended still has its ref in its repository, and the ref names the commit of
  its submission.
\<close>

theorem live_job_keeps_its_snapshot:
  assumes "opt_ok opt" and "reachable opt st" and "find_job jid (q_db st) = Some r"
    and "c_pinned r" and "\<not> terminal (c_state r)"
  shows "q_refs st (s_git_dir (c_sub r), jid) = Some (snap_commit (s_snapshot (c_sub r)))"
  using queue_ok_parts(2) [OF reachable_ok [OF assms(2,1)]] assms(3-5) by (simp add: pins_ok_def)

theorem live_job_keeps_its_snapshot_witness:
  "q_refs sample_claimed (''/r/.git'', sample_id) = Some (replicate 40 CHR ''a'')"
proof -
  have "map_option (\<lambda>r. (c_pinned r, c_state r, s_git_dir (c_sub r), snap_commit (s_snapshot (c_sub r))))
      (find_job sample_id (q_db sample_claimed)) = Some (True, StateClaimed, ''/r/.git'', replicate 40 CHR ''a'')"
    by code_simp
  then obtain r where "find_job sample_id (q_db sample_claimed) = Some r" "c_pinned r" "\<not> terminal (c_state r)"
      "s_git_dir (c_sub r) = ''/r/.git''" "snap_commit (s_snapshot (c_sub r)) = replicate 40 CHR ''a''"
    by auto
  then show ?thesis
    using live_job_keeps_its_snapshot [OF sample_opt_ok sample_reachable(2)] by metis
qed

text \<open>
  C13: a log the table knows can be read. Whatever calls were made, opening the log of a job whose row
  records one of \<open>n\<close> bytes succeeds and gives exactly \<open>n\<close> bytes (a job answered from a stored result is
  read through the job that made it, and is not meant here).
\<close>

theorem known_log_is_readable:
  assumes "opt_ok opt" and "reachable opt st" and "o_log_dir opt" and "valid_log_id jid"
    and "find_job jid (q_db st) = Some r" and "c_log_size r = Some n" and "reused_log_owner jid (q_db st) = jid"
  shows "\<exists>body. open_log opt jid False st = Inr (body, n) \<and> int (length body) = n"
proof -
  obtain body where "q_logs st jid = Some body" "int (length body) = n"
    using queue_ok_parts(3) [OF reachable_ok [OF assms(2,1)]] assms(5,6) unfolding logs_ok_def by blast
  then show ?thesis
    using assms(3-7) by (simp add: open_log_def find_for_def)
qed

definition sample_logged :: queue_state where
  "sample_logged = run_calls sample_options
     [CSubmit 0 sample_rnd sample_submission, CClaim 1000 sample_cid sample_id sample_claim True,
      CPutLogCommit 2000 2000 sample_id sample_cid ''hello''] sample_start"

theorem known_log_is_readable_witness:
  "\<exists>body. open_log sample_options sample_id False sample_logged = Inr (body, 5) \<and> int (length body) = 5"
proof -
  have "reachable sample_options sample_logged"
    unfolding sample_logged_def sample_start_def by (rule reachable_calls, rule reachable.start, simp add: sample_rnd_def)
  moreover have "map_option c_log_size (find_job sample_id (q_db sample_logged)) = Some (Some 5)"
    and "valid_log_id sample_id" "reused_log_owner sample_id (q_db sample_logged) = sample_id" "o_log_dir sample_options"
    by code_simp+
  moreover then obtain r where "find_job sample_id (q_db sample_logged) = Some r" "c_log_size r = Some 5"
    by auto
  ultimately show ?thesis
    using known_log_is_readable [OF sample_opt_ok] by blast
qed

section \<open>Retention\<close>

text \<open>
  What the parts of a sweep before the deletion do to a row: one that had ended keeps its end and is
  pinned at most as before, one that ends now ends at one of the sweep's two clock readings.
\<close>

definition swept :: "int \<Rightarrow> int \<Rightarrow> job_row \<Rightarrow> job_row \<Rightarrow> bool" where
  "swept clock t r r' \<longleftrightarrow> c_seq r' = c_seq r \<and>
     (if terminal (c_state r) then c_state r' = c_state r \<and> c_finished_at r' = c_finished_at r \<and> (c_pinned r' \<longrightarrow> c_pinned r)
      else c_finished_at r' \<in> {c_finished_at r, Some clock, Some t})"

lemma swept_refl [simp]: "swept clock t r r"
  by (simp add: swept_def)

lemma swept_trans: "swept clock t r r1 \<Longrightarrow> swept clock t r1 r2 \<Longrightarrow> swept clock t r r2"
  by (auto simp: swept_def split: if_splits)

lemma swept_let_go: "held_state (c_state r) \<Longrightarrow> c_finished_at r = None \<Longrightarrow> swept clock t r ((let_go_row clock 1 True why r)\<lparr>c_rev := n\<rparr>)"
  using held_not_terminal [of "c_state r"]
  by (auto simp: swept_def let_go_row_def requeue_row_def count_row_def end_row_def split: option.split)

lemma swept_expire: "c_state r = StateQueued \<Longrightarrow> swept clock t r ((finish_row StateExpired why b t r)\<lparr>c_rev := n\<rparr>)"
  by (simp add: swept_def finish_row_def)

lemma swept_forget: "swept clock t r ((forget_log_row r)\<lparr>c_rev := n\<rparr>)"
  by (simp add: swept_def forget_log_row_def)

lemma swept_unpin: "swept clock t r (unpin_row b r)"
  by (simp add: swept_def unpin_row_def)

lemma sweep_tx_swept:
  assumes wf: "db_wf d" and tx: "sweep_tx clock t d = Inr (a, changed, d')" and r: "find_job k d = Some r"
  shows "\<exists>r'. find_job k d' = Some r' \<and> swept clock t r r'"
proof -
  obtain d1 ids1 ids2 where sw: "sweep_tx clock t d = Inr ((length ids1, length ids2), ids1 @ ids2, fold (expire t) ids2 d1)"
    and ids1: "ids1 = map c_id (filter (lease_out t) (db_jobs d))"
    and ids2: "ids2 = map c_id (filter (waited_out t) (db_jobs d1))"
    and s: "safe_change d d1" "safe_change d1 (fold (expire t) ids2 d1)"
    and other: "\<And>k. k \<notin> set ids1 \<Longrightarrow> find_job k d1 = find_job k d"
    and each: "\<And>k r. k \<in> set ids1 \<Longrightarrow> find_job k d = Some r \<Longrightarrow>
          \<exists>n. find_job k d1 = Some ((let_go_row clock 1 True ''lost'' r)\<lparr>c_rev := n\<rparr>)"
    by (rule sweep_tx_ok [OF wf, where clock = clock and now_ms = t], rule that)
  have d': "d' = fold (expire t) ids2 d1"
    using sw tx by simp
  have "\<exists>r1. find_job k d1 = Some r1 \<and> swept clock t r r1"
  proof (cases "k \<in> set ids1")
    case True
    then have "held_state (c_state r)"
      using filter_ids_known [OF wf, of k "lease_out t"] r by (auto simp: ids1 lease_out_def)
    moreover from this have "c_finished_at r = None"
      using db_wf_find [OF wf r] by (simp add: row_wf_def row_held_ok_def)
    ultimately show ?thesis
      using each [OF True r] swept_let_go by blast
  qed (use other r in simp)
  then obtain r1 where r1: "find_job k d1 = Some r1" "swept clock t r r1" by blast
  show ?thesis
  proof (cases "k \<in> set ids2")
    case True
    then have q: "c_state r1 = StateQueued"
      using filter_ids_known [OF safe_change_wf [OF s(1)], of k "waited_out t"] r1(1) by (auto simp: ids2 waited_out_def)
    have "distinct (map (\<lambda>x. x) ids2)"
      using distinct_ids_filter [OF safe_change_wf [OF s(1)]] by (simp add: ids2)
    from expiry.loop_row [OF this True, of d1 r1 t] r1(1) obtain n
      where "find_job k d' = Some ((finish_row StateExpired ''queue_timeout'' None t r1)\<lparr>c_rev := n\<rparr>)"
      unfolding d' by blast
    then show ?thesis
      using swept_trans [OF r1(2) swept_expire [OF q]] by blast
  next
    case False
    then show ?thesis
      using r1 expiry.loop_other [of k ids2 t d1] d' by simp
  qed
qed

lemma forget_logs_swept:
  assumes wf: "db_wf d" and tx: "forget_logs_tx t0 d = Inr (a, changed, d')" and r: "find_job k d = Some r"
  shows "\<exists>r'. find_job k d' = Some r' \<and> swept clock t r r'"
proof -
  let ?ids = "map c_id (filter (log_out (t0 - log_retention_ms)) (db_jobs d))"
  have d': "d' = fold forget_log ?ids d"
    using tx by (auto simp: forget_logs_tx_def Let_def)
  show ?thesis
  proof (cases "k \<in> set ?ids")
    case True
    have "distinct (map (\<lambda>x. x) ?ids)"
      using distinct_ids_filter [OF wf] by simp
    from forget_logs.loop_row [OF this True r] show ?thesis
      unfolding d' using swept_forget by blast
  qed (use forget_logs.loop_other [of k ?ids d] d' r in auto)
qed

lemma orphan_fold_frame:
  "find_job k (q_db (fst (fold (orphan_one opt p t) recs s))) = find_job k (q_db (fst s))
   \<and> q_logs (fst (fold (orphan_one opt p t) recs s)) = q_logs (fst s)"
proof (induction recs arbitrary: s)
  case (Cons rec recs)
  have "find_job k (q_db (fst (orphan_one opt p t rec s))) = find_job k (q_db (fst s))
      \<and> q_logs (fst (orphan_one opt p t rec s)) = q_logs (fst s)"
    by (cases s) (auto simp: orphan_one_def split: prod.splits bool.splits)
  with Cons show ?case by simp
qed simp

lemma prune_outcomes_find [simp]: "find_job k (prune_outcomes c d) = find_job k d"
  by (simp add: prune_outcomes_def find_job_def)

text \<open>A sweep is its deletion of old jobs, after steps that only sweep rows; what follows it leaves jobs and files alone.\<close>

lemma sweep_deletes:
  assumes wf: "db_wf (q_db st)"
  obtains st3 where "db_wf (q_db st3)"
    and "\<And>k r. find_job k (q_db st) = Some r \<Longrightarrow> \<exists>r'. find_job k (q_db st3) = Some r' \<and> swept clock t r r'"
    and "\<And>k. find_job k (q_db (snd (sweep opt clock t st))) = find_job k (q_db (fst (delete_retained_jobs opt (t - retention_ms) st3)))"
    and "q_logs (snd (sweep opt clock t st)) = q_logs (fst (delete_retained_jobs opt (t - retention_ms) st3))"
proof -
  obtain a1 ch1 d1 where tx1: "sweep_tx clock t (q_db st) = Inr (a1, ch1, d1)"
    by (rule sweep_tx_ok [OF wf, where clock = clock and now_ms = t], rule that)
  obtain a2 ch2 d2 where tx2: "forget_logs_tx t d1 = Inr (a2, ch2, d2)"
    by (simp add: forget_logs_tx_def Let_def)
  let ?st1 = "snd (write_only opt (sweep_tx clock t) st)" and ?st2 = "snd (sweep_logs opt t (snd (write_only opt (sweep_tx clock t) st)))"
  let ?st3 = "fst (settle_pins opt ?st2)"
  have wf1: "db_wf d1"
    using sweep_tx.safe [OF wf tx1] by (rule safe_change_wf)
  have db1: "q_db ?st1 = d1"
    using tx1 by (simp add: sweep_tx.write_only_eq [OF wf])
  then have db2: "q_db ?st2 = d2"
    using tx2 wf1 by (simp add: sweep_logs_def forget.write_only_eq)
  have wf2: "db_wf d2"
    using forget.safe [OF wf1 tx2] by (rule safe_change_wf)
  have rows: "\<exists>r'. find_job k (q_db ?st3) = Some r' \<and> swept clock t r r'" if r: "find_job k (q_db st) = Some r" for k r
  proof -
    obtain r1 where r1: "find_job k d1 = Some r1" "swept clock t r r1"
      using sweep_tx_swept [OF wf tx1 r] by blast
    obtain r2 where r2: "find_job k d2 = Some r2" "swept clock t r1 r2"
      using forget_logs_swept [OF wf1 tx2 r1(1)] by blast
    obtain b where "find_job k (q_db ?st3) = Some (unpin_row b r2)"
      using settle_pins_row [of k opt ?st2] r2(1) db2 by auto
    with swept_trans [OF swept_trans [OF r1(2) r2(2)] swept_unpin] show ?thesis by blast
  qed
  let ?st4 = "fst (delete_retained_jobs opt (t - retention_ms) ?st3)"
  let ?st5 = "?st4\<lparr>q_db := prune_outcomes (t - retention_ms) (q_db ?st4)\<rparr>"
  have last: "snd (sweep opt clock t st) = fst (remove_orphan_pins opt t ?st5)"
    by (simp add: sweep_def case_prod_beta Let_def)
  have "find_job k (q_db (fst (remove_orphan_pins opt t ?st5))) = find_job k (q_db ?st4)
      \<and> q_logs (fst (remove_orphan_pins opt t ?st5)) = q_logs ?st4" for k
    using orphan_fold_frame [of k opt _ t _ "(?st5, 0, 0)"] by (simp add: remove_orphan_pins_def split: option.split)
  moreover have "db_wf (q_db ?st3)"
    using settle_pins_safe [of ?st2 opt] wf2 db2 by (simp add: safe_change_def)
  ultimately show thesis
    using rows last by (intro that [of ?st3]) simp_all
qed

lemma delete_retained_find:
  assumes "db_wf (q_db st)"
  shows "find_job k (q_db (fst (delete_retained_jobs opt cutoff st))) =
    (case find_job k (q_db st) of None \<Rightarrow> None | Some r \<Rightarrow> if retained_out cutoff r then None else Some r)"
  using db_wf_unique [OF assms]
  by (auto simp: delete_retained_jobs_def Let_def find_job_def lookup_by_filter split: option.splits)

text \<open>
  The sweep deletes a job when, and only when, its time is over. A job that has not ended, or that
  ended no longer ago than the retention, is still there after a sweep, its number unchanged; one that
  ended before that and is no longer pinned is gone, and so is its log file.
\<close>

theorem sweep_retention:
  assumes wf: "db_wf (q_db st)" and r: "find_job jid (q_db st) = Some r" and cl: "t \<le> clock"
    and dir: "o_log_dir opt" "valid_log_id jid"
  shows "((\<forall>fin. c_finished_at r = Some fin \<longrightarrow> t - retention_ms \<le> fin) \<longrightarrow>
      (\<exists>r'. find_job jid (q_db (snd (sweep opt clock t st))) = Some r' \<and> c_seq r' = c_seq r))
    \<and> (terminal (c_state r) \<and> \<not> c_pinned r \<and> (\<exists>fin. c_finished_at r = Some fin \<and> fin < t - retention_ms) \<longrightarrow>
      find_job jid (q_db (snd (sweep opt clock t st))) = None \<and> q_logs (snd (sweep opt clock t st)) jid = None)"
proof -
  obtain st3 where wf3: "db_wf (q_db st3)"
    and rows: "\<And>k r. find_job k (q_db st) = Some r \<Longrightarrow> \<exists>r'. find_job k (q_db st3) = Some r' \<and> swept clock t r r'"
    and find: "\<And>k. find_job k (q_db (snd (sweep opt clock t st))) = find_job k (q_db (fst (delete_retained_jobs opt (t - retention_ms) st3)))"
    and logs: "q_logs (snd (sweep opt clock t st)) = q_logs (fst (delete_retained_jobs opt (t - retention_ms) st3))"
    by (rule sweep_deletes [OF wf, where clock = clock and t = t and opt = opt], rule that)
  obtain r3 where r3: "find_job jid (q_db st3) = Some r3" "swept clock t r r3"
    using rows [OF r] by blast
  have fin3: "c_finished_at r3 \<noteq> None" if "terminal (c_state r3)"
    using db_wf_find [OF wf3 r3(1)] that by (auto simp: row_wf_def row_ended_ok_def)
  have "0 < retention_ms" by (simp add: retention_ms_def)
  then have "\<not> retained_out (t - retention_ms) r3" if "\<forall>fin. c_finished_at r = Some fin \<longrightarrow> t - retention_ms \<le> fin"
    using r3(2) that cl fin3 by (auto simp: swept_def retained_out_def split: option.splits if_splits)
  moreover have "retained_out (t - retention_ms) r3"
    if "terminal (c_state r)" "\<not> c_pinned r" "c_finished_at r = Some fin" "fin < t - retention_ms" for fin
    using r3(2) that by (auto simp: swept_def retained_out_def)
  moreover have "q_logs (fst (delete_retained_jobs opt (t - retention_ms) st3)) jid = None" if "retained_out (t - retention_ms) r3"
    using that dir find_job_Some [OF r3(1)] by (auto simp: delete_retained_jobs_def Let_def remove_log_files_def image_iff)
  ultimately show ?thesis
    using r3 logs by (auto simp: find delete_retained_find [OF wf3] swept_def)
qed

theorem sweep_retention_witness:
  "\<exists>r'. find_job sample_id (q_db (snd (sweep sample_options 70000 70000 sample_claimed))) = Some r' \<and> c_seq r' = 1"
proof -
  have "map_option (\<lambda>r. (c_finished_at r, c_seq r)) (find_job sample_id (q_db sample_claimed)) = Some (None, 1)"
    and "o_log_dir sample_options" "valid_log_id sample_id"
    by code_simp+
  then obtain r where "find_job sample_id (q_db sample_claimed) = Some r" "c_finished_at r = None" "c_seq r = 1"
    by auto
  then show ?thesis
    using sweep_retention [OF sample_wf(2), of sample_id r 70000 70000 sample_options] \<open>o_log_dir sample_options\<close> \<open>valid_log_id sample_id\<close>
    by auto
qed

section \<open>Leases\<close>

lemma sweep_tx_leaves_held:
  assumes wf: "db_wf d" and r: "find_job k d = Some r" "held_state (c_state r)" "\<not> lease_out t r"
  shows "\<exists>a changed d'. sweep_tx clock t d = Inr (a, changed, d') \<and> find_job k d' = Some r"
proof -
  obtain d1 ids1 ids2 where sw: "sweep_tx clock t d = Inr ((length ids1, length ids2), ids1 @ ids2, fold (expire t) ids2 d1)"
    and ids1: "ids1 = map c_id (filter (lease_out t) (db_jobs d))"
    and ids2: "ids2 = map c_id (filter (waited_out t) (db_jobs d1))"
    and s: "safe_change d d1" "safe_change d1 (fold (expire t) ids2 d1)"
    and other: "\<And>k. k \<notin> set ids1 \<Longrightarrow> find_job k d1 = find_job k d"
    and each: "\<And>k r. k \<in> set ids1 \<Longrightarrow> find_job k d = Some r \<Longrightarrow>
          \<exists>n. find_job k d1 = Some ((let_go_row clock 1 True ''lost'' r)\<lparr>c_rev := n\<rparr>)"
    by (rule sweep_tx_ok [OF wf, where clock = clock and now_ms = t], rule that)
  have "k \<notin> set ids1"
    using filter_ids_known [OF wf, of k "lease_out t"] r by (auto simp: ids1)
  then have r1: "find_job k d1 = Some r"
    using other r(1) by simp
  then have "k \<notin> set ids2"
    using filter_ids_known [OF safe_change_wf [OF s(1)], of k "waited_out t"] r(2) by (auto simp: ids2 waited_out_def held_state_def)
  then show ?thesis
    using sw r1 expiry.loop_other [of k ids2 t d1] by simp
qed

text \<open>
  A lease that is renewed in time is safe. A heartbeat that succeeds leaves the job held under the
  caller's claim, and no sweep up to the end of the lease it was given touches the job.
\<close>

theorem heartbeat_protects:
  assumes wf: "db_wf (q_db st)" and hb: "heartbeat opt t jid cid st = (Inr out, st1)" and t': "t' \<le> t + o_lease_s opt * 1000"
  shows "\<exists>r. find_job jid (q_db st1) = Some r \<and> held_state (c_state r) \<and> c_claim_id r = Some cid
    \<and> (\<exists>a changed d'. sweep_tx clock t' (q_db st1) = Inr (a, changed, d') \<and> find_job jid d' = Some r)"
proof -
  have "heartbeat_tx opt t jid cid (q_db st) \<noteq> Inl e" for e
    using hb by (auto simp: heartbeat_def heartbeat.write_only_eq [OF wf])
  then obtain a ch d1 where tx: "heartbeat_tx opt t jid cid (q_db st) = Inr (a, ch, d1)"
    by (cases "heartbeat_tx opt t jid cid (q_db st)") auto
  then have d1: "q_db st1 = d1"
    using hb by (auto simp: heartbeat_def heartbeat.write_only_eq [OF wf])
  obtain r0 where r0: "find_job jid (q_db st) = Some r0" "held_state (c_state r0)" "c_claim_id r0 = Some cid"
    and eq: "d1 = renew opt jid t (q_db st)"
    using tx by (auto simp: heartbeat_tx_def bind_err_Inr_iff load_held_Inr find_for_Some live_row)
  let ?r = "r0\<lparr>c_lease_deadline := Some (deadline opt t)\<rparr>"
  have r: "find_job jid d1 = Some ?r"
    using r0(1) by (simp add: eq renew_def find_update_job)
  have "\<not> lease_out t' ?r"
    using t' by (simp add: lease_out_def deadline_def)
  then show ?thesis
    using sweep_tx_leaves_held [OF safe_change_wf [OF heartbeat.safe [OF wf tx]] r] r0(2,3) r d1 by simp
qed

theorem heartbeat_protects_witness:
  "\<exists>r a changed d'. sweep_tx 80000 80000 (q_db (snd (heartbeat sample_options 50000 sample_id sample_cid sample_claimed))) = Inr (a, changed, d')
    \<and> find_job sample_id d' = Some r \<and> held_state (c_state r)"
proof -
  let ?h = "heartbeat sample_options 50000 sample_id sample_cid sample_claimed"
  have "(case fst ?h of Inl _ \<Rightarrow> False | Inr _ \<Rightarrow> True)" and "o_lease_s sample_options = 60" by code_simp+
  then obtain out where "?h = (Inr out, snd ?h)"
    by (cases ?h) (auto split: sum.splits)
  from heartbeat_protects [OF sample_wf(2) this, of 80000 80000] show ?thesis
    using \<open>o_lease_s sample_options = 60\<close> by auto
qed

text \<open>
  A restart of the queue costs nobody a lease. After the queue is opened again every job that was
  held is still held under its claim, with its whole lease ahead of it from that moment, so no sweep
  within that lease takes it back, however long the queue was down.
\<close>

theorem restart_gives_full_leases:
  assumes wf: "db_wf (q_db st)" and re: "new_queue opt t (q_db st) = Inr (opt', d1)"
    and r: "find_job jid (q_db st) = Some r" "held_state (c_state r)" "c_lease_s r = Some n" and t': "t' \<le> t + n * 1000"
  shows "\<exists>r1. find_job jid d1 = Some r1 \<and> c_state r1 = c_state r \<and> c_claim_id r1 = c_claim_id r
    \<and> (\<exists>a changed d'. sweep_tx clock t' d1 = Inr (a, changed, d') \<and> find_job jid d' = Some r1)"
proof -
  obtain m where d1: "d1 = extend_held_leases t m (q_db st)"
    using re by (auto simp: new_queue_def Let_def split: if_splits)
  let ?r = "r\<lparr>c_lease_deadline := Some (t + n * 1000)\<rparr>"
  have r1: "find_job jid d1 = Some ?r"
    using r by (simp add: d1 find_extend extend_row_def)
  have "\<not> lease_out t' ?r"
    using t' by (simp add: lease_out_def)
  moreover have "db_wf d1"
    unfolding d1 using extend_held_leases_safe [OF wf] by (rule safe_change_wf)
  ultimately show ?thesis
    using sweep_tx_leaves_held [of d1 jid ?r t' clock] r1 r(2) by simp
qed

theorem restart_gives_full_leases_witness:
  "\<exists>d1 r1 a changed d'. new_queue sample_options 999000 (q_db sample_claimed) = Inr (sample_options, d1)
    \<and> sweep_tx 1010000 1010000 d1 = Inr (a, changed, d') \<and> find_job sample_id d' = Some r1 \<and> c_state r1 = StateClaimed"
proof -
  have "map_option (\<lambda>r. (c_state r, c_lease_s r)) (find_job sample_id (q_db sample_claimed)) = Some (StateClaimed, Some 60)"
    by code_simp
  then obtain r where r: "find_job sample_id (q_db sample_claimed) = Some r" "c_state r = StateClaimed" "c_lease_s r = Some 60"
    by auto
  have new: "new_queue sample_options 999000 (q_db sample_claimed) = Inr (sample_options, extend_held_leases 999000 60 (q_db sample_claimed))"
    by (simp add: new_queue_def sample_options_def)
  show ?thesis
    using restart_gives_full_leases [OF sample_wf(2) new r(1) _ r(3), of 1010000 1010000] r(2) new
    by (auto simp: held_state_def)
qed

end
