(* ===== verification/QueueRecords.thy ===== *)
theory QueueRecords
  imports QueueEffects
begin

text \<open>
  What the queue promises about its records: the disagreements between hosts, the ids of jobs, the
  answer to which of a list of jobs have ended, and the order and progress of what subscribers are sent.
\<close>

section \<open>Disagreements\<close>

text \<open>
  A host loses its label only over a real disagreement. Recording an outcome writes a disagreement
  against a host exactly when the latest outcome of another host for the same work ended the other way,
  and never against a host that is the reference: the two hosts named are the two that disagree, and
  the work, the task and the two jobs are theirs. Recording the same job again writes nothing.
\<close>

theorem disagreements_are_real:
  assumes "record_outcome_on opt u d = (ws, d')" and "\<not> list_ex (\<lambda>x. t_job_id x = u_job_id u) (db_outcomes d)"
  shows "(\<forall>w \<in> set ws. \<exists>e \<in> set (db_outcomes d).
        latest_of_host (work_key opt u) (db_outcomes d) e \<and> t_ok e \<noteq> u_ok u \<and> t_host e \<noteq> u_host u
        \<and> d_jobs w = (t_job_id e, u_job_id u) \<and> d_label w = u_label u \<and> d_tree w = u_tree u
        \<and> ((d_host w = u_host u \<and> d_other_host w = t_host e \<and> u_standing u \<noteq> StandingReference)
           \<or> (d_host w = t_host e \<and> d_other_host w = u_host u \<and> t_standing e \<noteq> StandingReference)))
    \<and> (\<forall>e \<in> set (db_outcomes d). latest_of_host (work_key opt u) (db_outcomes d) e \<and> t_ok e \<noteq> u_ok u
        \<and> t_host e \<noteq> u_host u \<and> valid_alias (t_host e) \<longrightarrow>
        (u_standing u \<noteq> StandingReference \<longrightarrow> disagreement_known (u_host u) (t_job_id e) (u_job_id u) (db_disagreements d'))
        \<and> (t_standing e \<noteq> StandingReference \<longrightarrow> disagreement_known (t_host e) (t_job_id e) (u_job_id u) (db_disagreements d')))
    \<and> record_outcome_on opt u d' = ([], d')"
proof (intro conjI ballI)
  let ?X = "disputes (work_key opt u) u (db_outcomes d)"
  fix w assume "w \<in> set ws"
  from record_outcome_on_sound [OF assms(1) this] obtain e h where x: "(e, h) \<in> set ?X" "dispute_of u (e, h) w"
    by auto
  then show "\<exists>e \<in> set (db_outcomes d).
        latest_of_host (work_key opt u) (db_outcomes d) e \<and> t_ok e \<noteq> u_ok u \<and> t_host e \<noteq> u_host u
        \<and> d_jobs w = (t_job_id e, u_job_id u) \<and> d_label w = u_label u \<and> d_tree w = u_tree u
        \<and> ((d_host w = u_host u \<and> d_other_host w = t_host e \<and> u_standing u \<noteq> StandingReference)
           \<or> (d_host w = t_host e \<and> d_other_host w = u_host u \<and> t_standing e \<noteq> StandingReference))"
    by (intro bexI [of _ e]) (auto simp: disputes_iff quarantined_iff dispute_of_def)
next
  fix e assume "e \<in> set (db_outcomes d)"
  then show "latest_of_host (work_key opt u) (db_outcomes d) e \<and> t_ok e \<noteq> u_ok u
        \<and> t_host e \<noteq> u_host u \<and> valid_alias (t_host e) \<longrightarrow>
        (u_standing u \<noteq> StandingReference \<longrightarrow> disagreement_known (u_host u) (t_job_id e) (u_job_id u) (db_disagreements d'))
        \<and> (t_standing e \<noteq> StandingReference \<longrightarrow> disagreement_known (t_host e) (t_job_id e) (u_job_id u) (db_disagreements d'))"
    using record_outcome_on_complete [OF assms, of e] by (auto simp: disputes_iff quarantined_iff)
next
  have "db_outcomes d' = db_outcomes d @ [outcome_row_of opt u d]"
    using assms outcomes_write_fold by (auto simp: record_outcome_on_eq case_prod_beta split: if_splits)
  then show "record_outcome_on opt u d' = ([], d')"
    by (simp add: record_outcome_on_eq outcome_row_of_def)
qed

definition sample_outcome :: "string \<Rightarrow> string \<Rightarrow> bool \<Rightarrow> outcome" where
  "sample_outcome jid host ok =
     \<lparr>u_job_id = jid, u_host = host, u_label = ''task:purdex/test'', u_tree = ''t1'', u_task = ''test'', u_args = [],
      u_def_hash = ''h'', u_reference = ''m1'', u_ok = ok, u_standing = (if host = ''m1'' then StandingReference else StandingEarned), u_at = Some 5\<rparr>"

theorem disagreements_are_real_witness:
  "\<exists>w. fst (record_outcome_on sample_options (sample_outcome ''j_2'' ''w2'' False)
        (snd (record_outcome_on sample_options (sample_outcome ''j_1'' ''m1'' True) (create_schema '''')))) = [w]
    \<and> d_host w = ''w2'' \<and> d_other_host w = ''m1''"
proof -
  let ?d = "snd (record_outcome_on sample_options (sample_outcome ''j_1'' ''m1'' True) (create_schema ''''))"
  let ?x = "record_outcome_on sample_options (sample_outcome ''j_2'' ''w2'' False) ?d"
  have n: "length (fst ?x) = 1" and new: "\<not> list_ex (\<lambda>x. t_job_id x = ''j_2'') (db_outcomes ?d)"
    and hosts: "map t_host (db_outcomes ?d) = [''m1'']" and st: "map t_standing (db_outcomes ?d) = [StandingReference]"
    by code_simp+
  obtain w where w: "fst ?x = [w]"
    using n by (cases "fst ?x") auto
  have "?x = ([w], snd ?x)" using w by (metis prod.collapse)
  from disagreements_are_real [OF this] new obtain e where "e \<in> set (db_outcomes ?d)"
      and h: "(d_host w = ''w2'' \<and> d_other_host w = t_host e) \<or> (d_host w = t_host e \<and> d_other_host w = ''w2'' \<and> t_standing e \<noteq> StandingReference)"
    by (force simp: sample_outcome_def)
  then have "t_host e = ''m1''" "t_standing e = StandingReference"
    using arg_cong [OF hosts, of set] arg_cong [OF st, of set] by auto
  with w h show ?thesis by auto
qed

section \<open>Ids\<close>

lemma new_job_id_digits:
  assumes "length rnd = 10"
  shows "\<forall>n \<in> set (time_digits 10 t @ rand_digits rnd 0 0). n < 32" and "length (time_digits 10 t @ rand_digits rnd 0 0) = 26"
  using rand_digits_10 [OF assms] time_digits_small [of _ 10 t] by auto

lemma map_crockford_inj:
  "\<forall>n \<in> set ds. n < 32 \<Longrightarrow> \<forall>n \<in> set es. n < 32 \<Longrightarrow> map (\<lambda>n. crockford ! n) ds = map (\<lambda>n. crockford ! n) es \<Longrightarrow> ds = es"
  by (subst (asm) inj_on_map_eq_map) (auto simp: inj_on_def crockford_inj)

text \<open>
  An id says when its job was made and is never made twice. For clock readings below \<open>2 ^ 50\<close>
  milliseconds (the year 37000) an earlier reading gives the smaller id, whatever the random bytes are,
  and two ids are equal only if the readings and all ten random bytes are.
\<close>

theorem job_ids_sort_by_time:
  assumes "length rnd = 10" and "length rnd' = 10" and "unat t < 2 ^ 50" and "unat t' < 2 ^ 50"
  shows "(t < t' \<longrightarrow> new_job_id t rnd < new_job_id t' rnd')
    \<and> (new_job_id t rnd = new_job_id t' rnd' \<longrightarrow> t = t' \<and> base256 rnd = base256 rnd')"
proof -
  have small: "unat t mod 32 ^ 10 = unat t" "unat t' mod 32 ^ 10 = unat t'"
    using assms(3,4) by simp_all
  have "new_job_id t rnd < new_job_id t' rnd'" if "t < t'"
    using base32_less [of "time_digits 10 t" "time_digits 10 t'"] that small time_digits_small [of _ 10]
    by (simp add: new_job_id_def time_digits_base32 word_less_nat_alt)
  moreover have "t = t' \<and> base256 rnd = base256 rnd'" if eq: "new_job_id t rnd = new_job_id t' rnd'"
  proof -
    have "time_digits 10 t @ rand_digits rnd 0 0 = time_digits 10 t' @ rand_digits rnd' 0 0"
      using eq new_job_id_digits [OF assms(1)] new_job_id_digits [OF assms(2)] by (intro map_crockford_inj) (auto simp: new_job_id_def)
    then have "time_digits 10 t = time_digits 10 t'" "rand_digits rnd 0 0 = rand_digits rnd' 0 0"
      by simp_all
    then have "unat t = unat t'" "base256 rnd = base256 rnd'"
      using time_digits_base32 [of 10 t] time_digits_base32 [of 10 t'] small rand_digits_10(3) [OF assms(1)] rand_digits_10(3) [OF assms(2)]
      by simp_all
    then show ?thesis by (simp add: unsigned_word_eqI)
  qed
  ultimately show ?thesis by blast
qed

theorem job_ids_sort_by_time_witness: "new_job_id 1760000000000 (replicate 10 255) < new_job_id 1760000000001 (replicate 10 0)"
  using job_ids_sort_by_time [of "replicate 10 255" "replicate 10 0" 1760000000000 1760000000001] by simp

section \<open>Which jobs have ended\<close>

text \<open>
  The question which of some jobs have ended is answered for exactly the ids asked about, however
  many there are: ended for a job in an end state or one the queue does not know (any more), not ended
  for every other.
\<close>

theorem ended_answers_every_id:
  assumes "db_wf d"
  shows "ended ids d jid = (if jid \<in> set ids then Some (case find_job jid d of Some r \<Rightarrow> terminal (c_state r) | None \<Rightarrow> True) else None)"
  using ended_eq [OF assms] .

theorem ended_answers_every_id_witness:
  "ended [''gone'', sample_id] (q_db sample_queued) sample_id = Some False \<and> ended [''gone'', sample_id] (q_db sample_queued) ''gone'' = Some True"
proof -
  have "c_state sample_row = StateQueued" and "find_job ''gone'' (q_db sample_queued) = None" by code_simp+
  then show ?thesis
    using ended_answers_every_id [OF sample_wf(1)] sample_find by simp
qed

section \<open>The order and the progress of events\<close>

text \<open>
  C14: subscribers see commits in commit order. However the writers interleave, what has been published
  is a beginning of the events of the commits one after the other in the order they were made: none is
  skipped, doubled or overtaken.
\<close>

theorem published_in_commit_order:
  assumes "wreach w"
  shows "\<exists>rest. concat (map snd (wr_commits w)) = wr_published w @ rest"
proof -
  note inv = winv_reach [OF assms]
  note parts = winv_parts [OF inv]
  have sorted: "sorted_wrt (<) (map fst (wr_commits w))"
    using parts(3) by (simp add: commits_ordered_def)
  show ?thesis
  proof (cases "\<exists>i t evs. wr_phase w i = Publishing t evs")
    case True
    then obtain i t evs out where "t = sq_turn (wr_seq w)" "(t, out @ evs) \<in> set (wr_commits w)" "wr_published w = before_turn w @ out"
      using parts(4) unfolding published_ok_def by blast
    then show ?thesis
      using out_prefix [OF sorted] by (fastforce simp: before_turn_def)
  next
    case False
    then have "wr_published w = before_turn w"
      using parts(4) unfolding published_ok_def by blast
    then show ?thesis
      using before_turn_prefix [OF sorted] by (simp add: before_turn_def)
  qed
qed

text \<open>One writer through a whole write: its event 7 is out, its 8 is not yet.\<close>

definition sample_writers :: "nat phase \<Rightarrow> nat option \<Rightarrow> nat \<Rightarrow> (nat \<times> nat list) list \<Rightarrow> nat list \<Rightarrow> nat writers" where
  "sample_writers ph lock next_ticket commits out =
     \<lparr>wr_seq = \<lparr>sq_next = next_ticket, sq_turn = 0\<rparr>, wr_lock = lock, wr_phase = (\<lambda>_. Idle)(0 := ph), wr_commits = commits, wr_published = out\<rparr>"

lemma wreach_step: "wreach w \<Longrightarrow> wstep w w' \<Longrightarrow> wreach w'"
  unfolding wreach_def by (rule rtranclp.rtrancl_into_rtrancl)

lemma sample_ticketed: "wreach (sample_writers (Ticketed 0 [7, 8]) (Some 0) 1 [] [])"
proof -
  have "wreach (sample_writers Idle None 0 [] [])"
    by (simp add: wreach_def sample_writers_def start_writers_def new_sequencer_def fun_upd_idem)
  moreover have "wstep (sample_writers Idle None 0 [] []) (sample_writers InTx (Some 0) 0 [] [])"
    using wstep.begin_tx [of "sample_writers Idle None 0 [] []" 0] by (simp add: sample_writers_def)
  moreover have "wstep (sample_writers InTx (Some 0) 0 [] []) (sample_writers (Ticketed 0 [7, 8]) (Some 0) 1 [] [])"
    using wstep.take_ticket [of "sample_writers InTx (Some 0) 0 [] []" 0 0 _ "[7, 8]"] by (simp add: sample_writers_def seq_ticket_def)
  ultimately show ?thesis
    using wreach_step by blast
qed

lemma sample_delivered: "wreach (sample_writers (Publishing 0 [8]) None 1 [(0, [7, 8])] [7])"
proof -
  have "wstep (sample_writers (Ticketed 0 [7, 8]) (Some 0) 1 [] []) (sample_writers (Committed 0 [7, 8]) None 1 [(0, [7, 8])] [])"
    using wstep.commit_ok [of "sample_writers (Ticketed 0 [7, 8]) (Some 0) 1 [] []" 0 0 "[7, 8]"] by (simp add: sample_writers_def)
  moreover have "wstep (sample_writers (Committed 0 [7, 8]) None 1 [(0, [7, 8])] []) (sample_writers (Publishing 0 [7, 8]) None 1 [(0, [7, 8])] [])"
    using wstep.await_turn [of "sample_writers (Committed 0 [7, 8]) None 1 [(0, [7, 8])] []" 0 0 "[7, 8]"]
    by (simp add: sample_writers_def may_go_def)
  moreover have "wstep (sample_writers (Publishing 0 [7, 8]) None 1 [(0, [7, 8])] []) (sample_writers (Publishing 0 [8]) None 1 [(0, [7, 8])] [7])"
    using wstep.deliver [of "sample_writers (Publishing 0 [7, 8]) None 1 [(0, [7, 8])] []" 0 0 7 "[8]"] by (simp add: sample_writers_def)
  ultimately show ?thesis
    using wreach_step [OF wreach_step [OF wreach_step [OF sample_ticketed]]] by blast
qed

theorem published_in_commit_order_witness: "\<exists>rest. [7, 8] = [7] @ rest \<and> wreach (sample_writers (Publishing 0 [8]) None 1 [(0, [7, 8])] [7])"
  using published_in_commit_order [OF sample_delivered] sample_delivered by (simp add: sample_writers_def)

text \<open>
  C15: nobody waits for ever for nobody. Whenever a writer holds a ticket, some writer holds the ticket
  whose turn it is, and that writer can take its next step at once: a failed commit passes its turn on
  like a published one.
\<close>

theorem turn_is_never_lost:
  assumes "wreach w" and "ticket_of (wr_phase w i) = Some t"
  shows "\<exists>j w'. ticket_of (wr_phase w j) = Some (sq_turn (wr_seq w)) \<and> wstep w w' \<and> wr_phase w' j \<noteq> wr_phase w j"
proof -
  note inv = winv_reach [OF assms(1)]
  obtain j where "ticket_of (wr_phase w j) = Some (sq_turn (wr_seq w))"
    using turn_held [OF inv assms(2)] by blast
  with turn_holder_moves [OF inv this] show ?thesis by blast
qed

theorem turn_is_never_lost_witness:
  "\<exists>j w'. ticket_of (wr_phase (sample_writers (Ticketed 0 [7, 8]) (Some 0) 1 [] []) j) = Some 0
    \<and> wstep (sample_writers (Ticketed 0 [7, 8]) (Some 0) 1 [] []) w'"
  using turn_is_never_lost [OF sample_ticketed, of 0 0] by (auto simp: sample_writers_def)

section \<open>A job announced twice\<close>

text \<open>
  One sweep can take a job back from a worker whose lease ran out and expire it, because it has also
  waited past its queue timeout: the job is then announced twice, both times as it is at the end.
\<close>

definition impatient_submission :: job_submission where
  "impatient_submission = sample_submission\<lparr>s_queue_timeout_s := 1\<rparr>"

lemma sweep_may_announce_twice:
  "map (\<lambda>(_, j). (j_id j, j_state j)) (q_events (run_calls sample_options
     [CSubmit 0 sample_rnd impatient_submission, CClaim 500 sample_cid sample_id sample_claim True, CSweep 70000 70000] sample_start))
   = [(sample_id, StateQueued), (sample_id, StateClaimed), (sample_id, StateExpired), (sample_id, StateExpired)]"
  by code_simp

end
