(* ===== verification/Machine.thy ===== *)
theory Machine
  imports Main
begin

text \<open>
  An object of the program as a machine: a state, a step for each kind of call, and what holds of the
  state whatever calls were made. The components below that keep a small state in memory are
  interpretations.
\<close>

locale machine =
  fixes step :: "'e \<Rightarrow> 's \<Rightarrow> 's" and start :: 's and allowed :: "'e \<Rightarrow> bool" and inv :: "'s \<Rightarrow> bool"
  assumes inv_start: "inv start" and inv_step: "inv s \<Longrightarrow> allowed e \<Longrightarrow> inv (step e s)"
begin

lemma inv_from: "inv s \<Longrightarrow> list_all allowed es \<Longrightarrow> inv (fold step es s)"
  by (induction es arbitrary: s) (auto intro: inv_step)

lemma inv_run: "list_all allowed es \<Longrightarrow> inv (fold step es start)"
  using inv_from [OF inv_start] .

lemma inv_between: "list_all allowed (es @ fs) \<Longrightarrow> inv (fold step es start) \<and> fold step (es @ fs) start = fold step fs (fold step es start)"
  using inv_run [of es] by simp

end

end
