(* ===== verification/Locks.thy ===== *)
theory Locks
  imports Prelude Machine "HOL-Library.Word" "HOL-Library.AList" "HOL-Library.Multiset" "HOL-Library.Char_ord" "HOL-Library.List_Lexorder"
begin

text \<open>
  The table of mutual-exclusion keys of a host (package \<open>worker/locks\<close>): the two maps of the table
  as association lists, the generation counter at its width, and a \<open>Hold\<close> as a value whose owner
  \<open>Rename\<close> replaces. \<open>Acquire\<close> unlocks the table while the job is recorded, so it is modelled in
  the two halves around that call as well as whole; the other operations run under the mutex and
  are one step each.
\<close>

section \<open>The table\<close>

record conflict =
  cf_key :: string
  cf_holder :: string

text \<open>The errors the package returns; \<open>RecordFailed\<close> is whatever the caller's \<open>record\<close> returned.\<close>

datatype lock_error = EmptyOwner | InvalidKey string | RepeatedKey string | AlreadyHeld | Busy "conflict list" | Released | RecordFailed

record held_keys =
  hk_keys :: "string list"
  hk_gen :: "64 word"

record lock_table =
  tb_by_key :: "(string \<times> string) list"
  tb_by_hold :: "(string \<times> held_keys) list"
  tb_gen :: "64 word"

record lock_handle =
  hd_owner :: string
  hd_gen :: "64 word"

definition new_table :: lock_table where
  "new_table = \<lparr>tb_by_key = [], tb_by_hold = [], tb_gen = 0\<rparr>"

abbreviation holder_of :: "lock_table \<Rightarrow> string \<Rightarrow> string option" where
  "holder_of t \<equiv> map_of (tb_by_key t)"

abbreviation hold_of :: "lock_table \<Rightarrow> string \<Rightarrow> held_keys option" where
  "hold_of t \<equiv> map_of (tb_by_hold t)"

section \<open>Operations\<close>

definition bad_key :: "string \<Rightarrow> bool" where
  "bad_key k \<longleftrightarrow> k = [] \<or> (\<exists>c \<in> set k. c = CHR 0x00 \<or> c = CHR 0x0A)"

text \<open>The loop of \<open>normalize\<close> over the sorted keys, with the key before this one.\<close>

fun check_sorted :: "string option \<Rightarrow> string list \<Rightarrow> lock_error option" where
  "check_sorted p [] = None"
| "check_sorted p (k # ks) = (if bad_key k then Some (InvalidKey k) else if p = Some k then Some (RepeatedKey k)
     else check_sorted (Some k) ks)"

definition normalize :: "string list \<Rightarrow> lock_error + string list" where
  "normalize keys = (case check_sorted None (sort keys) of Some e \<Rightarrow> Inl e | None \<Rightarrow> Inr (sort keys))"

definition validate_keys :: "string list \<Rightarrow> lock_error option" where
  "validate_keys keys = (case normalize keys of Inl e \<Rightarrow> Some e | Inr _ \<Rightarrow> None)"

definition go_get :: "(string \<times> string) list \<Rightarrow> string \<Rightarrow> string" where
  "go_get m k = (case map_of m k of Some v \<Rightarrow> v | None \<Rightarrow> [])"

definition release_locked :: "string \<Rightarrow> lock_table \<Rightarrow> lock_table" where
  "release_locked owner t =
     (let keys = (case hold_of t owner of Some h \<Rightarrow> hk_keys h | None \<Rightarrow> []) in
      t\<lparr>tb_by_key := fold (\<lambda>k m. if go_get m k = owner then AList.delete k m else m) keys (tb_by_key t),
        tb_by_hold := AList.delete owner (tb_by_hold t)\<rparr>)"

text \<open>Whether a hold is still the current one of its owner.\<close>

definition is_current :: "lock_table \<Rightarrow> lock_handle \<Rightarrow> bool" where
  "is_current t h = (case hold_of t (hd_owner h) of Some cur \<Rightarrow> hk_gen cur = hd_gen h | None \<Rightarrow> False)"

definition hold_release :: "lock_handle \<Rightarrow> lock_table \<Rightarrow> lock_table" where
  "hold_release h t = (if is_current t h then release_locked (hd_owner h) t else t)"

definition busy_list :: "string list \<Rightarrow> lock_table \<Rightarrow> conflict list" where
  "busy_list keys t = List.map_filter (\<lambda>k. map_option (\<lambda>w. \<lparr>cf_key = k, cf_holder = w\<rparr>) (holder_of t k)) keys"

text \<open>\<open>Acquire\<close> up to where it unlocks the table.\<close>

definition acquire_reserve :: "string \<Rightarrow> string list \<Rightarrow> lock_table \<Rightarrow> (lock_error + lock_handle) \<times> lock_table" where
  "acquire_reserve owner keys t =
     (if owner = [] then (Inl EmptyOwner, t)
      else case normalize keys of
        Inl e \<Rightarrow> (Inl e, t)
      | Inr ks \<Rightarrow>
          if hold_of t owner \<noteq> None then (Inl AlreadyHeld, t)
          else let busy = busy_list ks t in
            if busy \<noteq> [] then (Inl (Busy busy), t)
            else let g = tb_gen t + 1 in
              (Inr \<lparr>hd_owner = owner, hd_gen = g\<rparr>,
               t\<lparr>tb_by_key := fold (\<lambda>k. AList.update k owner) ks (tb_by_key t), tb_gen := g,
                 tb_by_hold := AList.update owner \<lparr>hk_keys = ks, hk_gen = g\<rparr> (tb_by_hold t)\<rparr>))"

datatype record_answer = RecordOk | RecordErr | RecordPanic
datatype acquire_result = Got lock_handle | Refused lock_error | Panicked

text \<open>
  \<open>Acquire\<close> after \<open>record\<close> returned or panicked, on the table as it is then. \<open>owner\<close> is the
  argument of the call: nobody else has the handle yet, so it is also the handle's owner.
\<close>

definition acquire_finish :: "string \<Rightarrow> lock_handle \<Rightarrow> record_answer \<Rightarrow> lock_table \<Rightarrow> acquire_result \<times> lock_table" where
  "acquire_finish owner h r t =
     (if r = RecordPanic then (Panicked, hold_release h t)
      else if (case hold_of t owner of None \<Rightarrow> True | Some cur \<Rightarrow> hk_gen cur \<noteq> hd_gen h)
      then (Refused (if r = RecordOk then Released else RecordFailed), t)
      else if r = RecordErr then (Refused RecordFailed, hold_release h t)
      else (Got h, t))"

text \<open>
  The whole of \<open>Acquire\<close>; \<open>record\<close> is given with its effect on the table, because other calls run
  while the table is unlocked.
\<close>

definition acquire :: "string \<Rightarrow> string list \<Rightarrow> (lock_table \<Rightarrow> record_answer \<times> lock_table) option \<Rightarrow> lock_table \<Rightarrow> acquire_result \<times> lock_table" where
  "acquire owner keys record_fn t =
     (case acquire_reserve owner keys t of
        (Inl e, t1) \<Rightarrow> (Refused e, t1)
      | (Inr h, t1) \<Rightarrow> (case record_fn of None \<Rightarrow> (Got h, t1)
                       | Some f \<Rightarrow> (let (r, t2) = f t1 in acquire_finish owner h r t2)))"

definition rename :: "string \<Rightarrow> lock_handle \<Rightarrow> lock_table \<Rightarrow> lock_error option \<times> lock_handle \<times> lock_table" where
  "rename new_owner h t =
     (if new_owner = [] then (Some EmptyOwner, h, t)
      else case hold_of t (hd_owner h) of
        None \<Rightarrow> (Some Released, h, t)
      | Some cur \<Rightarrow>
          if hk_gen cur \<noteq> hd_gen h then (Some Released, h, t)
          else if new_owner = hd_owner h then (None, h, t)
          else if hold_of t new_owner \<noteq> None then (Some AlreadyHeld, h, t)
          else (None, h\<lparr>hd_owner := new_owner\<rparr>,
                t\<lparr>tb_by_key := fold (\<lambda>k. AList.update k new_owner) (hk_keys cur) (tb_by_key t),
                  tb_by_hold := AList.update new_owner cur (AList.delete (hd_owner h) (tb_by_hold t))\<rparr>))"

definition release_owner :: "string \<Rightarrow> lock_table \<Rightarrow> lock_table" where
  "release_owner owner t = release_locked owner t"

definition holder :: "lock_table \<Rightarrow> string \<Rightarrow> string option" where
  "holder t key = holder_of t key"

definition conflicts :: "string list \<Rightarrow> lock_table \<Rightarrow> conflict list" where
  "conflicts keys t = sort_key cf_key (busy_list keys t)"

definition held_keys_map :: "lock_table \<Rightarrow> (string \<times> string) list" where
  "held_keys_map t = tb_by_key t"

definition owners :: "lock_table \<Rightarrow> nat" where
  "owners t = length (tb_by_hold t)"

section \<open>What a table holds\<close>

lemma map_of_fold_update: "map_of (fold (\<lambda>k. AList.update k v) ks m) k = (if k \<in> set ks then Some v else map_of m k)"
  by (induction ks arbitrary: m) (auto simp: update_conv')

lemma distinct_fold_update: "distinct (map fst m) \<Longrightarrow> distinct (map fst (fold (\<lambda>k. AList.update k v) ks m))"
  by (induction ks arbitrary: m) (auto simp: distinct_update)

abbreviation drop_held :: "string \<Rightarrow> string list \<Rightarrow> (string \<times> string) list \<Rightarrow> (string \<times> string) list" where
  "drop_held owner \<equiv> fold (\<lambda>k m. if go_get m k = owner then AList.delete k m else m)"

lemma map_of_drop_held:
  "owner \<noteq> [] \<Longrightarrow> map_of (drop_held owner ks m) k = (if k \<in> set ks \<and> map_of m k = Some owner then None else map_of m k)"
  by (induction ks arbitrary: m) (auto simp: delete_conv' go_get_def split: option.splits)

lemma distinct_drop_held: "distinct (map fst m) \<Longrightarrow> distinct (map fst (drop_held owner ks m))"
  by (induction ks arbitrary: m) (auto simp: distinct_delete)

lemma check_sorted_None_iff:
  "check_sorted p ks = None \<longleftrightarrow> (\<forall>k \<in> set ks. \<not> bad_key k) \<and> distinct_adj (case p of None \<Rightarrow> ks | Some k \<Rightarrow> k # ks)"
  by (induction p ks rule: check_sorted.induct) (auto split: option.splits)

lemma sorted_distinct_adj: "sorted ks \<Longrightarrow> distinct_adj ks \<longleftrightarrow> distinct ks" for ks :: "'a :: linorder list"
  by (induction ks rule: induct_list012) auto

lemma normalize_Inr_iff: "normalize keys = Inr ks \<longleftrightarrow> ks = sort keys \<and> distinct keys \<and> (\<forall>k \<in> set keys. \<not> bad_key k)"
  using check_sorted_None_iff [of None "sort keys"] by (auto simp: normalize_def sorted_distinct_adj split: option.splits)

text \<open>The invariant: an owner's hold and the key map say the same.\<close>

definition agree :: "(string \<rightharpoonup> string) \<Rightarrow> (string \<rightharpoonup> held_keys) \<Rightarrow> bool" where
  "agree bk bh \<longleftrightarrow> bh [] = None \<and> (\<forall>k w. bk k = Some w \<longleftrightarrow> (\<exists>h. bh w = Some h \<and> k \<in> set (hk_keys h)))"

definition lock_inv :: "lock_table \<Rightarrow> bool" where
  "lock_inv t \<longleftrightarrow> distinct (map fst (tb_by_key t)) \<and> distinct (map fst (tb_by_hold t)) \<and> agree (holder_of t) (hold_of t)"

lemma agree_keys: "agree bk bh \<Longrightarrow> bh w = Some h \<Longrightarrow> bk k = Some w \<longleftrightarrow> k \<in> set (hk_keys h)"
  by (simp add: agree_def)

lemma agree_iff: "agree bk bh \<Longrightarrow> bk k = Some w \<longleftrightarrow> (\<exists>h. bh w = Some h \<and> k \<in> set (hk_keys h))"
  by (simp add: agree_def)

lemma agree_remove:
  assumes a: "agree bk bh"
  shows "agree (\<lambda>k. if bk k = Some w then None else bk k) (bh(w := None))"
proof -
  have "(if bk k = Some w then None else bk k) = Some v \<longleftrightarrow> v \<noteq> w \<and> bk k = Some v" for k v by auto
  then show ?thesis using a by (simp add: agree_def)
qed

lemma agree_add:
  assumes a: "agree bk bh" and w: "w \<noteq> []" "bh w = None" and new: "\<forall>k \<in> set (hk_keys h). bk k = None"
  shows "agree (\<lambda>k. if k \<in> set (hk_keys h) then Some w else bk k) (bh(w \<mapsto> h))"
proof -
  have "(if k \<in> set (hk_keys h) then Some w else bk k) = Some v \<longleftrightarrow> (\<exists>g. (bh(w \<mapsto> h)) v = Some g \<and> k \<in> set (hk_keys g))" for k v
    using w new agree_iff [OF a, of k v] by (cases "k \<in> set (hk_keys h)"; cases "v = w") auto
  then show ?thesis using a w by (simp add: agree_def)
qed

lemma agree_move:
  assumes a: "agree bk bh" and w: "bh w = Some h" and v: "v \<noteq> []" "bh v = None"
  shows "agree (\<lambda>k. if k \<in> set (hk_keys h) then Some v else bk k) ((bh(w := None))(v \<mapsto> h))"
proof -
  have "(\<lambda>k. if k \<in> set (hk_keys h) then Some v else (if bk k = Some w then None else bk k)) = (\<lambda>k. if k \<in> set (hk_keys h) then Some v else bk k)"
    using agree_keys [OF a w] by auto
  then show ?thesis
    using agree_add [OF agree_remove [OF a, of w], of v h] agree_keys [OF a w] v by auto
qed

lemma agree_drop_held:
  assumes a: "agree bk bh" and "map_of m = bk" and ks: "ks = (case bh w of Some h \<Rightarrow> hk_keys h | None \<Rightarrow> [])"
  shows "map_of (drop_held w ks m) = (\<lambda>k. if bk k = Some w then None else bk k)"
proof (cases "bh w")
  case None
  then show ?thesis using a assms(2) ks by (auto simp: agree_def)
next
  case (Some h)
  then have "w \<noteq> []" using a by (auto simp: agree_def)
  then show ?thesis using agree_keys [OF a Some] assms(2) ks Some by (auto simp: map_of_drop_held)
qed

lemma lock_inv_new: "lock_inv new_table"
  by (simp add: lock_inv_def new_table_def agree_def)

lemma release_locked_tables:
  assumes "lock_inv t"
  shows "holder_of (release_locked w t) = (\<lambda>k. if holder_of t k = Some w then None else holder_of t k)"
    and "hold_of (release_locked w t) = (hold_of t)(w := None)"
  using assms agree_drop_held [OF _ refl refl, of "tb_by_key t" "hold_of t" w]
  by (simp_all add: release_locked_def lock_inv_def delete_conv' Let_def)

lemma lock_inv_release [simp]: "lock_inv t \<Longrightarrow> lock_inv (release_locked w t)"
  using release_locked_tables [of t w] agree_remove [of "holder_of t" "hold_of t" w]
  by (simp add: lock_inv_def) (simp add: release_locked_def Let_def distinct_drop_held distinct_delete)

lemma busy_list_Nil_iff: "busy_list ks t = [] \<longleftrightarrow> (\<forall>k \<in> set ks. holder_of t k = None)"
  by (induction ks) (auto simp: busy_list_def List.map_filter_simps split: option.splits)

lemma acquire_reserve_cases [consumes 1, case_names refused got]:
  assumes "acquire_reserve w keys t = (r, t')"
  obtains e where "r = Inl e" "t' = t"
  | g where "g = tb_gen t + 1" "r = Inr \<lparr>hd_owner = w, hd_gen = g\<rparr>" "w \<noteq> []" "distinct keys" "hold_of t w = None"
      "\<forall>k \<in> set keys. holder_of t k = None" "tb_gen t' = g"
      "tb_by_key t' = fold (\<lambda>k. AList.update k w) (sort keys) (tb_by_key t)"
      "tb_by_hold t' = AList.update w \<lparr>hk_keys = sort keys, hk_gen = g\<rparr> (tb_by_hold t)"
proof (cases "normalize keys")
  case (Inl e)
  then show ?thesis using assms that(1) by (auto simp: acquire_reserve_def split: if_splits)
next
  case (Inr ks)
  show ?thesis
  proof (cases "w = [] \<or> hold_of t w \<noteq> None \<or> busy_list ks t \<noteq> []")
    case True
    then show ?thesis using assms Inr that(1) by (auto simp: acquire_reserve_def split: if_splits)
  next
    case False
    then show ?thesis
      using assms Inr that(2) [OF refl] by (auto simp: acquire_reserve_def Let_def busy_list_Nil_iff normalize_Inr_iff)
  qed
qed

lemma lock_inv_reserve:
  assumes i: "lock_inv t" and r: "acquire_reserve w keys t = (r, t')"
  shows "lock_inv t'"
  using r
proof (cases rule: acquire_reserve_cases)
  case (got g)
  then show ?thesis
    using i agree_add [of "holder_of t" "hold_of t" w "\<lparr>hk_keys = sort keys, hk_gen = g\<rparr>"]
    by (simp add: lock_inv_def map_of_fold_update [abs_def] update_conv' distinct_fold_update distinct_update)
qed (use i in simp)

lemma rename_cases [consumes 1, case_names kept renamed]:
  assumes "rename v h t = (e, h', t')"
  obtains "h' = h" "t' = t"
  | cur where "v \<noteq> []" "hold_of t (hd_owner h) = Some cur" "hk_gen cur = hd_gen h" "v \<noteq> hd_owner h" "hold_of t v = None"
      "h' = h\<lparr>hd_owner := v\<rparr>" "tb_gen t' = tb_gen t"
      "tb_by_key t' = fold (\<lambda>k. AList.update k v) (hk_keys cur) (tb_by_key t)"
      "tb_by_hold t' = AList.update v cur (AList.delete (hd_owner h) (tb_by_hold t))"
  using assms by (auto simp: rename_def split: if_splits option.splits)

lemma lock_inv_rename:
  assumes i: "lock_inv t" and r: "rename v h t = (e, h', t')"
  shows "lock_inv t'"
  using r
proof (cases rule: rename_cases)
  case (renamed cur)
  then show ?thesis
    using i agree_move [of "holder_of t" "hold_of t" "hd_owner h" cur v]
    by (simp add: lock_inv_def map_of_fold_update [abs_def] update_conv' delete_conv' distinct_fold_update distinct_update distinct_delete)
qed (use i in simp)

lemma lock_inv_hold_release [simp]: "lock_inv t \<Longrightarrow> lock_inv (hold_release h t)"
  by (simp add: hold_release_def)

lemma lock_inv_finish: "lock_inv t \<Longrightarrow> lock_inv (snd (acquire_finish w h r t))"
  by (simp add: acquire_finish_def)

section \<open>A host's history of calls\<close>

text \<open>
  The calls in the order they take the mutex: the reserving and the finishing half of an \<open>Acquire\<close>
  (with any calls between them), and \<open>Release\<close> and \<open>Rename\<close> of any of the holds made so far, as
  often and as late as the callers like.
\<close>

record lock_state =
  ls_table :: lock_table
  ls_handles :: "lock_handle list"

datatype lock_call = Reserve string "string list" | Finish string nat record_answer | Release nat | Rename nat string | ReleaseOwner string

fun lock_step :: "lock_call \<Rightarrow> lock_state \<Rightarrow> lock_state" where
  "lock_step (Reserve w keys) s = (case acquire_reserve w keys (ls_table s) of
     (Inl e, t) \<Rightarrow> s\<lparr>ls_table := t\<rparr>
   | (Inr h, t) \<Rightarrow> s\<lparr>ls_table := t, ls_handles := ls_handles s @ [h]\<rparr>)"
| "lock_step (Finish w i r) s = (if i < length (ls_handles s)
     then s\<lparr>ls_table := snd (acquire_finish w (ls_handles s ! i) r (ls_table s))\<rparr> else s)"
| "lock_step (Release i) s = (if i < length (ls_handles s) then s\<lparr>ls_table := hold_release (ls_handles s ! i) (ls_table s)\<rparr> else s)"
| "lock_step (Rename i v) s = (if i < length (ls_handles s)
     then (case rename v (ls_handles s ! i) (ls_table s) of (e, h, t) \<Rightarrow> s\<lparr>ls_table := t, ls_handles := (ls_handles s)[i := h]\<rparr>) else s)"
| "lock_step (ReleaseOwner w) s = s\<lparr>ls_table := release_owner w (ls_table s)\<rparr>"

definition lock_start :: lock_state where
  "lock_start = \<lparr>ls_table = new_table, ls_handles = []\<rparr>"

abbreviation after_calls :: "lock_call list \<Rightarrow> lock_state" where
  "after_calls cs \<equiv> fold lock_step cs lock_start"

text \<open>The counter is the number of acquisitions, and each hold carries its own number (both at their width).\<close>

definition numbered :: "lock_state \<Rightarrow> bool" where
  "numbered s \<longleftrightarrow> tb_gen (ls_table s) = of_nat (length (ls_handles s)) \<and> (\<forall>i < length (ls_handles s). hd_gen (ls_handles s ! i) = of_nat (Suc i))"

lemma gen_release [simp]: "tb_gen (release_locked w t) = tb_gen t" "tb_gen (hold_release h t) = tb_gen t"
  by (simp_all add: release_locked_def hold_release_def Let_def)

lemma gen_finish [simp]: "tb_gen (snd (acquire_finish w h r t)) = tb_gen t"
  by (simp add: acquire_finish_def)

lemma numbered_reserve: "numbered s \<Longrightarrow> numbered (lock_step (Reserve w keys) s)"
  by (cases "acquire_reserve w keys (ls_table s)")
     (auto elim!: acquire_reserve_cases simp: numbered_def nth_append less_Suc_eq)

lemma numbered_rename: "numbered s \<Longrightarrow> numbered (lock_step (Rename i v) s)"
  by (cases "rename v (ls_handles s ! i) (ls_table s)")
     (auto elim!: rename_cases simp: numbered_def nth_list_update)

interpretation lock_run: machine lock_step lock_start "\<lambda>_. True" "\<lambda>s. lock_inv (ls_table s) \<and> numbered s"
proof
  show "lock_inv (ls_table lock_start) \<and> numbered lock_start"
    by (simp add: lock_start_def lock_inv_new numbered_def) (simp add: new_table_def)
  show "lock_inv (ls_table (lock_step c s)) \<and> numbered (lock_step c s)" if "lock_inv (ls_table s) \<and> numbered s" for c s
  proof (cases c)
    case (Reserve w keys)
    then show ?thesis
      using that numbered_reserve [of s w keys] lock_inv_reserve [of "ls_table s" w keys] by (auto split: prod.splits sum.splits)
  next
    case (Rename i v)
    then show ?thesis
      using that numbered_rename [of s i v] lock_inv_rename [of "ls_table s" v "ls_handles s ! i"] by (auto split: prod.splits)
  qed (use that in \<open>auto simp: lock_inv_finish numbered_def release_owner_def\<close>)
qed

lemmas lock_run_inv = lock_run.inv_run [simplified list_all_iff, simplified, THEN conjunct1]
  and lock_run_numbered = lock_run.inv_run [simplified list_all_iff, simplified, THEN conjunct2]

lemma handles_differ:
  assumes "numbered s" "length (ls_handles s) \<le> 2 ^ 64" "i < length (ls_handles s)" "j < length (ls_handles s)" "i \<noteq> j"
  shows "hd_gen (ls_handles s ! i) \<noteq> hd_gen (ls_handles s ! j)"
proof
  assume "hd_gen (ls_handles s ! i) = hd_gen (ls_handles s ! j)"
  then have "(of_nat i :: 64 word) = of_nat j" using assms by (simp add: numbered_def)
  then have "i mod 2 ^ 64 = j mod 2 ^ 64" by (simp add: word_of_nat_eq_iff take_bit_eq_mod)
  then show False using assms by simp
qed

section \<open>Properties\<close>

text \<open>
  C16: after any calls, in any order, two registered owners never have a key in common, and asking
  for the holder of a key names the one owner that has it.
\<close>

theorem locks_exclude:
  assumes "t = ls_table (after_calls cs)" and "hold_of t v = Some g" "k \<in> set (hk_keys g)"
    and "hold_of t w = Some h" "k \<in> set (hk_keys h)"
  shows "v = w \<and> holder t k = Some w"
proof -
  have "agree (holder_of t) (hold_of t)" using lock_run_inv [of cs] assms(1) by (simp add: lock_inv_def)
  then have "holder_of t k = Some v" "holder_of t k = Some w" using assms agree_keys by blast+
  then show ?thesis by (simp add: holder_def)
qed

definition sample_calls :: "lock_call list" where
  "sample_calls = [Reserve ''job-1'' [''port'', ''db''], Reserve ''job-2'' [''gpu''], Reserve ''job-3'' [''db''], Finish ''job-1'' 0 RecordOk,
     Rename 1 ''job-4'', ReleaseOwner ''job-1'', Reserve ''job-1'' [''db''], Release 0]"

text \<open>The calls of the example: \<open>job-3\<close> is refused, and the late release of the first \<open>job-1\<close> frees nothing of the second.\<close>

lemma sample_after:
  "after_calls sample_calls = \<lparr>ls_table = \<lparr>tb_by_key = [(''gpu'', ''job-4''), (''db'', ''job-1'')],
     tb_by_hold = [(''job-4'', \<lparr>hk_keys = [''gpu''], hk_gen = 2\<rparr>), (''job-1'', \<lparr>hk_keys = [''db''], hk_gen = 3\<rparr>)], tb_gen = 3\<rparr>,
     ls_handles = [\<lparr>hd_owner = ''job-1'', hd_gen = 1\<rparr>, \<lparr>hd_owner = ''job-4'', hd_gen = 2\<rparr>, \<lparr>hd_owner = ''job-1'', hd_gen = 3\<rparr>]\<rparr>"
  by code_simp

theorem locks_exclude_witness:
  "hold_of (ls_table (after_calls sample_calls)) ''job-1'' = Some \<lparr>hk_keys = [''db''], hk_gen = 3\<rparr> \<and> ''job-1'' = ''job-1''
     \<and> holder (ls_table (after_calls sample_calls)) ''db'' = Some ''job-1''"
  using locks_exclude [OF refl, of sample_calls "''job-1''" "\<lparr>hk_keys = [''db''], hk_gen = 3\<rparr>" "''db''" "''job-1''" "\<lparr>hk_keys = [''db''], hk_gen = 3\<rparr>"]
  by (simp add: sample_after)

lemma busy_list_props:
  "map cf_key (busy_list ks t) = filter (\<lambda>k. holder_of t k \<noteq> None) ks" "c \<in> set (busy_list ks t) \<Longrightarrow> holder_of t (cf_key c) = Some (cf_holder c)"
  by (induction ks) (auto simp: busy_list_def List.map_filter_simps split: option.splits)

lemma mset_busy_list: "mset (busy_list (sort ks) t) = mset (busy_list ks t)"
  by (simp add: busy_list_def List.map_filter_def mset_map mset_filter)

lemma busy_list_sort: "busy_list (sort keys) t = conflicts keys t"
proof -
  have "inj_on cf_key (set (busy_list keys t))"
    using busy_list_props(2) by (intro inj_onI) (metis (full_types) conflict.equality option.inject old.unit.exhaust)
  then show ?thesis
    unfolding conflicts_def
    by (intro sort_key_inj_key_eq [symmetric]) (simp_all add: mset_busy_list busy_list_props(1) sorted_filter [where f = id, simplified])
qed

text \<open>
  An acquisition of well-formed keys by an owner that holds none is all or nothing. When a key
  is taken it is refused with every taken key and its holder, as \<open>Conflicts\<close> lists them, and the
  table is as before; otherwise the owner holds exactly these keys and everybody else's keys are
  as before.
\<close>

theorem acquire_all_or_none:
  assumes "owner \<noteq> []" "validate_keys keys = None" "hold_of t owner = None"
  shows "case acquire_reserve owner keys t of
      (Inl e, t') \<Rightarrow> conflicts keys t \<noteq> [] \<and> e = Busy (conflicts keys t) \<and> t' = t
    | (Inr h, t') \<Rightarrow> conflicts keys t = [] \<and> is_current t' h \<and> (\<forall>k. holder t' k = (if k \<in> set keys then Some owner else holder t k))
        \<and> (\<forall>w. w \<noteq> owner \<longrightarrow> hold_of t' w = hold_of t w)"
proof -
  have n: "normalize keys = Inr (sort keys)"
    using assms(2) by (auto simp: validate_keys_def normalize_def split: sum.splits option.splits)
  show ?thesis
    using assms(1,3) n
    by (auto simp: acquire_reserve_def Let_def busy_list_sort holder_def is_current_def map_of_fold_update update_conv')
qed

theorem acquire_all_or_none_witness:
  "validate_keys [''gpu'', ''disk''] = None \<and>
   conflicts [''gpu'', ''disk''] (ls_table (after_calls sample_calls)) = [\<lparr>cf_key = ''gpu'', cf_holder = ''job-4''\<rparr>]
   \<and> fst (acquire_reserve ''job-9'' [''gpu'', ''disk''] (ls_table (after_calls sample_calls))) = Inl (Busy [\<lparr>cf_key = ''gpu'', cf_holder = ''job-4''\<rparr>])"
proof -
  have v: "validate_keys [''gpu'', ''disk''] = None" by code_simp
  have c: "conflicts [''gpu'', ''disk''] (ls_table (after_calls sample_calls)) = [\<lparr>cf_key = ''gpu'', cf_holder = ''job-4''\<rparr>]"
    unfolding sample_after by code_simp
  have "hold_of (ls_table (after_calls sample_calls)) ''job-9'' = None" by (simp add: sample_after)
  then show ?thesis
    using acquire_all_or_none [of "''job-9''" _ "ls_table (after_calls sample_calls)", OF _ v] c v by (auto split: prod.splits sum.splits)
qed

lemma other_hold_kept:
  assumes i: "lock_inv t" and j: "is_current t h" and d: "hd_gen g \<noteq> hd_gen h"
  shows "is_current (hold_release g t) h \<and> (\<forall>k. holder_of t k = Some (hd_owner h) \<longrightarrow> holder_of (hold_release g t) k = Some (hd_owner h))"
proof (cases "is_current t g")
  case True
  then have "hd_owner g \<noteq> hd_owner h" using j d by (auto simp: is_current_def split: option.splits)
  then show ?thesis using True j release_locked_tables [OF i] by (auto simp: hold_release_def is_current_def)
qed (use j in \<open>simp add: hold_release_def\<close>)

text \<open>
  C17: releasing one hold, however late and however often, never takes anything from another hold
  that is still current, even of the same owner; on a table that has seen at most \<open>2^64\<close>
  acquisitions.
\<close>

theorem stale_release_harmless:
  assumes "s = after_calls cs" "length (ls_handles s) \<le> 2 ^ 64" and "i < length (ls_handles s)" "j < length (ls_handles s)" "i \<noteq> j"
    and "is_current (ls_table s) (ls_handles s ! j)"
  shows "is_current (hold_release (ls_handles s ! i) (ls_table s)) (ls_handles s ! j)
    \<and> (\<forall>k. holder (ls_table s) k = Some (hd_owner (ls_handles s ! j)) \<longrightarrow>
           holder (hold_release (ls_handles s ! i) (ls_table s)) k = Some (hd_owner (ls_handles s ! j)))"
  unfolding holder_def
  by (rule other_hold_kept) (use assms lock_run_inv lock_run_numbered handles_differ in auto)

theorem stale_release_harmless_witness:
  "is_current (hold_release (ls_handles (after_calls sample_calls) ! 0) (ls_table (after_calls sample_calls))) (ls_handles (after_calls sample_calls) ! 2)"
  using stale_release_harmless [OF refl, of sample_calls 0 2] by (simp add: sample_after is_current_def)

end
