(* ===== verification/Ident.thy ===== *)
theory Ident
  imports Wire
begin

text \<open>
  How a worker names a job (package \<open>worker/ident\<close>): the connection it came in on and its id. The hex
  SHA-256 of a source is a parameter.
\<close>

record job_ref =
  rf_source :: string
  rf_id :: string

definition ref_key :: "job_ref \<Rightarrow> string" where
  "ref_key r = rf_source r @ ''/'' @ rf_id r"

definition origin_tag :: "(string \<Rightarrow> string) \<Rightarrow> string \<Rightarrow> string" where
  "origin_tag sha256_hex source = take 16 (sha256_hex source)"

definition ref_tag :: "(string \<Rightarrow> string) \<Rightarrow> job_ref \<Rightarrow> string" where
  "ref_tag sha256_hex r = origin_tag sha256_hex (rf_source r)"

text \<open>\<open>strings.LastIndexByte\<close>: -1 when the byte is absent.\<close>

definition last_index_byte :: "string \<Rightarrow> char \<Rightarrow> int" where
  "last_index_byte s c = int (length s) - 1 - int (length (takeWhile (\<lambda>d. d \<noteq> c) (rev s)))"

definition parse_key :: "string \<Rightarrow> job_ref option" where
  "parse_key key =
     (let i = last_index_byte key CHR ''/'' in
      if i \<le> 0 \<or> i = int (length key) - 1 then None
      else Some \<lparr>rf_source = take (nat i) key, rf_id = drop (nat (i + 1)) key\<rparr>)"

lemma last_index_at: "c \<notin> set b \<Longrightarrow> last_index_byte (a @ c # b) c = int (length a)"
proof -
  assume c: "c \<notin> set b"
  have "takeWhile (\<lambda>d. d \<noteq> c) (rev b @ c # rev a) = rev b"
    using c by (subst takeWhile_append2) auto
  then show ?thesis by (simp add: last_index_byte_def)
qed

lemma last_index_none: "c \<notin> set s \<Longrightarrow> last_index_byte s c = - 1"
proof -
  assume "c \<notin> set s"
  then have "takeWhile (\<lambda>d. d \<noteq> c) (rev s) = rev s" by (subst takeWhile_eq_all_conv) auto
  then show ?thesis by (simp only: last_index_byte_def length_rev)
qed

lemma parse_key_at:
  "CHR ''/'' \<notin> set b \<Longrightarrow> parse_key (a @ CHR ''/'' # b) = (if a = [] \<or> b = [] then None else Some \<lparr>rf_source = a, rf_id = b\<rparr>)"
  using last_index_at [of "CHR ''/''" b a] by (auto simp: parse_key_def Let_def nat_add_distrib)

text \<open>A job that passed the check on the wire is named by its key, under any source.\<close>

lemma valid_job_key: "job_validate j = None \<Longrightarrow> s \<noteq> [] \<Longrightarrow> parse_key (ref_key \<lparr>rf_source = s, rf_id = j_id j\<rparr>) = Some \<lparr>rf_source = s, rf_id = j_id j\<rparr>"
  using parse_key_at [of "j_id j" s]
  by (auto simp: ref_key_def job_validate_def first_error_None_iff has_slash_def split: option.splits if_splits)

text \<open>
  Reading a key back gives a source and an id exactly when the key is their \<open>source/id\<close> form, with
  neither empty and no slash in the id; so two references a worker can name never share a key,
  whatever their sources contain.
\<close>

theorem parse_key_exact:
  "parse_key key = Some r \<longleftrightarrow> key = ref_key r \<and> rf_source r \<noteq> [] \<and> rf_id r \<noteq> [] \<and> \<not> has_slash (rf_id r)"
proof (cases "CHR ''/'' \<in> set key")
  case True
  then obtain a b where k: "key = a @ CHR ''/'' # b" "CHR ''/'' \<notin> set b" by (metis split_list_last)
  have p: "parse_key key = (if a = [] \<or> b = [] then None else Some \<lparr>rf_source = a, rf_id = b\<rparr>)"
    unfolding k(1) by (rule parse_key_at [OF k(2)])
  have "key = ref_key r \<and> \<not> has_slash (rf_id r) \<longleftrightarrow> rf_source r = a \<and> rf_id r = b"
    using k last_index_at [OF k(2), of a] last_index_at [of "CHR ''/''" "rf_id r" "rf_source r"]
    by (auto simp: ref_key_def has_slash_def)
  then show ?thesis unfolding p by (cases r) auto
qed (auto simp: parse_key_def last_index_none ref_key_def)

end
