(* ===== verification/GoPath.thy ===== *)
theory GoPath
  imports Prelude
begin

text \<open>
  What the daemon uses of the standard library on names: suffixes and substrings of a string, and
  \<open>path/filepath\<close> on a Unix host (\<open>Clean\<close>, \<open>Dir\<close>, \<open>Base\<close>, \<open>IsAbs\<close>).
\<close>

definition str_suffix :: "string \<Rightarrow> string \<Rightarrow> bool" where
  "str_suffix p s = has_prefix (rev p) (rev s)"

definition trim_suffix :: "string \<Rightarrow> string \<Rightarrow> string" where
  "trim_suffix p s = (if str_suffix p s then take (length s - length p) s else s)"

fun str_contains :: "string \<Rightarrow> string \<Rightarrow> bool" where
  "str_contains p [] = (p = [])"
| "str_contains p (c # s) = (has_prefix p (c # s) \<or> str_contains p s)"

lemma str_suffix_iff: "str_suffix p s \<longleftrightarrow> (\<exists>t. s = t @ p)"
proof -
  have "str_suffix p s \<longleftrightarrow> (\<exists>u. rev s = rev p @ u)" by (simp add: str_suffix_def has_prefix_iff)
  also have "\<dots> \<longleftrightarrow> (\<exists>u. s = rev u @ p)" by (metis rev_append rev_rev_ident)
  finally show ?thesis by (metis rev_rev_ident)
qed

lemma trim_suffix_append [simp]: "trim_suffix p (s @ p) = s"
  by (auto simp: trim_suffix_def str_suffix_iff)

lemma str_contains_iff: "str_contains p s \<longleftrightarrow> (\<exists>a b. s = a @ p @ b)"
proof (induction s)
  case (Cons c s)
  have "(\<exists>a b. c # s = a @ p @ b) \<longleftrightarrow> (\<exists>b. c # s = p @ b) \<or> (\<exists>a b. s = a @ p @ b)"
    by (metis append_Cons append_Nil list.inject neq_Nil_conv)
  then show ?case using Cons by (simp add: has_prefix_iff)
qed simp

section \<open>Paths\<close>

fun path_parts :: "string \<Rightarrow> string list" where
  "path_parts [] = [[]]"
| "path_parts (c # s) = (if c = CHR ''/'' then [] # path_parts s
     else case path_parts s of [] \<Rightarrow> [[c]] | p # ps \<Rightarrow> (c # p) # ps)"

fun path_join :: "string list \<Rightarrow> string" where
  "path_join [] = []"
| "path_join [p] = p"
| "path_join (p # ps) = p @ ''/'' @ path_join ps"

definition path_is_abs :: "string \<Rightarrow> bool" where
  "path_is_abs s = has_prefix ''/'' s"

text \<open>One element of a path, onto the elements kept so far (the last one first).\<close>

definition clean_part :: "bool \<Rightarrow> string \<Rightarrow> string list \<Rightarrow> string list" where
  "clean_part rooted p acc =
     (if p = '''' \<or> p = ''.'' then acc
      else if p = ''..'' then (case acc of q # qs \<Rightarrow> if q = ''..'' then p # acc else qs | [] \<Rightarrow> if rooted then [] else [p])
      else p # acc)"

definition path_clean :: "string \<Rightarrow> string" where
  "path_clean s =
     (let body = path_join (rev (fold (clean_part (path_is_abs s)) (path_parts s) [])) in
      if path_is_abs s then ''/'' @ body else if body = '''' then ''.'' else body)"

definition path_dir :: "string \<Rightarrow> string" where
  "path_dir s = path_clean (rev (dropWhile (\<lambda>c. c \<noteq> CHR ''/'') (rev s)))"

definition path_base :: "string \<Rightarrow> string" where
  "path_base s =
     (if s = '''' then ''.''
      else let t = dropWhile (\<lambda>c. c = CHR ''/'') (rev s) in
        if t = [] then ''/'' else rev (takeWhile (\<lambda>c. c \<noteq> CHR ''/'') t))"

lemma path_examples:
  "path_clean ''/a//b/../c/.'' = ''/a/c''" "path_clean ''../../x'' = ''../../x''" "path_clean '''' = ''.''" "path_clean ''/..'' = ''/''"
  "path_clean ''a/..'' = ''.''" "path_dir ''/w/h1'' = ''/w''" "path_base ''/w/h1/'' = ''h1''" "path_dir ''/h1'' = ''/''" "path_dir ''h1'' = ''.''"
  by code_simp+

end
