(* ===== verification/Quarantine.thy ===== *)
theory Quarantine
  imports Locks Ident GoPath
begin

text \<open>
  The store of jobs whose sandbox unit is not proven stopped (package \<open>worker/quarantine\<close>): the
  entries in memory with their generations, the marker files on disk, and the table of locks the
  entries' owners hold keys in. Every operation is the code between taking and giving back the
  store's mutex; \<open>Restore\<close>, \<open>Sweep\<close> and \<open>Clear\<close> look first and act later, so they are given with the
  calls others make in between. What the file system and the unit checker answer are arguments, and
  so is the hex SHA-256 that names a marker.
\<close>

section \<open>The store\<close>

record qn_entry =
  qe_owner :: string
  qe_job_id :: string
  qe_origin :: string
  qe_claim_id :: string
  qe_dir :: string
  qe_keys :: "string list"
  qe_unit :: string
  qe_since :: "int option" \<comment> \<open>\<open>None\<close> is the zero time\<close>

record qn_rec =
  qr_e :: qn_entry
  qr_gen :: "64 word"
  qr_live :: bool

record qn_snap =
  sn_e :: qn_entry
  sn_gen :: "64 word"
  sn_live :: bool

text \<open>A file of the marker directory, as reading it decides: an entry's JSON, or anything else.\<close>

datatype qn_file = Marker qn_entry | Unreadable

record qn_store =
  st_work_root :: string
  st_files :: "(string \<times> qn_file) list"
  st_entries :: "(string \<times> qn_rec) list"
  st_gen :: "64 word"

datatype qn_error = Bad_entry string | Exists | Not_running | Running | Other_keys | Marker_failed | Not_restored lock_error
  | No_entry string | Several string "string list" | Changed_meanwhile string

abbreviation entry_of :: "qn_store \<Rightarrow> string \<Rightarrow> qn_rec option" where
  "entry_of s \<equiv> map_of (st_entries s)"

abbreviation file_of :: "qn_store \<Rightarrow> string \<Rightarrow> qn_file option" where
  "file_of s \<equiv> map_of (st_files s)"

definition marker_name :: "(string \<Rightarrow> string) \<Rightarrow> string \<Rightarrow> string" where
  "marker_name sha256_hex owner = take 32 (sha256_hex owner) @ ''.json''"

definition own_unit :: "(string \<Rightarrow> string) \<Rightarrow> qn_entry \<Rightarrow> bool" where
  "own_unit sha256_hex e =
     (if qe_unit e = ''wwd-'' @ qe_job_id e then True
      else let source = trim_suffix (''/'' @ qe_job_id e) (qe_owner e) in
        source \<noteq> '''' \<and> qe_unit e = ''wwd-'' @ origin_tag sha256_hex source @ ''-'' @ qe_job_id e)"

definition qn_validate :: "(string \<Rightarrow> string) \<Rightarrow> qn_entry \<Rightarrow> go_error" where
  "qn_validate sha256_hex e = first_error
     [(qe_owner e = '''', ''empty owner''), (qe_job_id e = '''', ''empty job id''), (qe_dir e = '''', ''empty directory''),
      (\<not> str_suffix (''/'' @ qe_job_id e) (qe_owner e), ''owner does not end in the job id''),
      (qe_unit e \<noteq> '''' \<and> \<not> own_unit sha256_hex e, ''unit is not the job's own unit'')]"

definition read_marker :: "(string \<Rightarrow> string) \<Rightarrow> string \<Rightarrow> qn_file \<Rightarrow> qn_entry option" where
  "read_marker sha256_hex name body =
     (case body of Unreadable \<Rightarrow> None
      | Marker e \<Rightarrow> if qn_validate sha256_hex e \<noteq> None then None
                   else if name \<noteq> marker_name sha256_hex (qe_owner e) then None else Some e)"

text \<open>One file of the directory listing when the store is opened.\<close>

definition load_file :: "(string \<Rightarrow> string) \<Rightarrow> string \<times> qn_file \<Rightarrow> qn_store \<Rightarrow> qn_store" where
  "load_file sha256_hex f s =
     (if str_contains ''.json.tmp-'' (fst f) then s\<lparr>st_files := AList.delete (fst f) (st_files s)\<rparr>
      else if str_suffix ''.json'' (fst f) then
        (case read_marker sha256_hex (fst f) (snd f) of
           None \<Rightarrow> s
         | Some e \<Rightarrow> let g = st_gen s + 1 in
             s\<lparr>st_gen := g, st_entries := AList.update (qe_owner e) \<lparr>qr_e = e, qr_gen = g, qr_live = False\<rparr> (st_entries s)\<rparr>)
      else s)"

text \<open>
  \<open>Open\<close> on a directory that can be read (a missing argument, a symlink or an unreadable directory is
  an error and no store). \<open>real\<close> is what \<open>filepath.EvalSymlinks\<close> says of the work root; \<open>os.ReadDir\<close>
  lists the files by name.
\<close>

definition open_store :: "(string \<Rightarrow> string) \<Rightarrow> string \<Rightarrow> string option \<Rightarrow> (string \<times> qn_file) list \<Rightarrow> qn_store" where
  "open_store sha256_hex work_root real files =
     (let root1 = (if work_root = '''' then '''' else let r = path_clean work_root in if real \<noteq> Some r then '''' else r) in
      fold (load_file sha256_hex) (sort_key fst files) \<lparr>st_work_root = root1, st_files = files, st_entries = [], st_gen = 0\<rparr>)"

section \<open>Operations under the lock\<close>

text \<open>What \<open>os.Remove\<close> of a marker answers: it is gone (or was not there), or it could not be removed.\<close>

datatype remove_answer = Removed | Remove_failed

definition remove_marker :: "(string \<Rightarrow> string) \<Rightarrow> string \<Rightarrow> remove_answer \<Rightarrow> qn_store \<Rightarrow> bool \<times> qn_store" where
  "remove_marker sha256_hex owner rm s =
     (if rm = Remove_failed then (False, s) else (True, s\<lparr>st_files := AList.delete (marker_name sha256_hex owner) (st_files s)\<rparr>))"

definition qn_normalize :: "(string \<Rightarrow> string) \<Rightarrow> int \<Rightarrow> qn_entry \<Rightarrow> qn_error + qn_entry" where
  "qn_normalize sha256_hex now e =
     (case qn_validate sha256_hex e of Some m \<Rightarrow> Inl (Bad_entry m)
      | None \<Rightarrow> Inr (if qe_since e = None then e\<lparr>qe_since := Some now\<rparr> else e))"

text \<open>\<open>install\<close>; \<open>wr\<close> says whether the temporary file was written and renamed over the marker.\<close>

definition install :: "(string \<Rightarrow> string) \<Rightarrow> qn_entry \<Rightarrow> bool \<Rightarrow> bool \<Rightarrow> qn_store \<Rightarrow> qn_error option \<times> qn_store" where
  "install sha256_hex e live wr s =
     (if \<not> wr then (Some Marker_failed, s)
      else let g = st_gen s + 1 in
        (None, s\<lparr>st_files := AList.update (marker_name sha256_hex (qe_owner e)) (Marker e) (st_files s), st_gen := g,
                 st_entries := AList.update (qe_owner e) \<lparr>qr_e = e, qr_gen = g, qr_live = live\<rparr> (st_entries s)\<rparr>))"

text \<open>The comparison of \<open>holdsExactly\<close> and \<open>reacquire\<close>: the keys wanted and the keys had, as sets.\<close>

definition exact_keys :: "qn_entry \<Rightarrow> lock_table \<Rightarrow> bool" where
  "exact_keys e t =
     (let want = remdups (qe_keys e); have = remdups (map fst (filter (\<lambda>kw. snd kw = qe_owner e) (held_keys_map t))) in
      length want = length have \<and> list_all (\<lambda>k. k \<in> set have) want)"

definition holds_exactly :: "qn_entry \<Rightarrow> lock_table \<Rightarrow> qn_error option" where
  "holds_exactly e t = (if exact_keys e t then None else Some Other_keys)"

definition qn_add :: "(string \<Rightarrow> string) \<Rightarrow> int \<Rightarrow> qn_entry \<Rightarrow> bool \<Rightarrow> lock_table \<Rightarrow> qn_store \<Rightarrow> qn_error option \<times> qn_store" where
  "qn_add sha256_hex now e0 wr t s =
     (case qn_normalize sha256_hex now e0 of
        Inl err \<Rightarrow> (Some err, s)
      | Inr e \<Rightarrow> (case holds_exactly e t of Some err \<Rightarrow> (Some err, s) | None \<Rightarrow> install sha256_hex e False wr s))"

definition qn_begin :: "(string \<Rightarrow> string) \<Rightarrow> int \<Rightarrow> qn_entry \<Rightarrow> bool \<Rightarrow> lock_table \<Rightarrow> qn_store \<Rightarrow> qn_error option \<times> qn_store" where
  "qn_begin sha256_hex now e0 wr t s =
     (case qn_normalize sha256_hex now e0 of
        Inl err \<Rightarrow> (Some err, s)
      | Inr e \<Rightarrow>
          if entry_of s (qe_owner e) \<noteq> None then (Some Exists, s)
          else (case holds_exactly e t of Some err \<Rightarrow> (Some err, s) | None \<Rightarrow> install sha256_hex e True wr s))"

text \<open>The transition \<open>Settle\<close> makes, and \<open>Discard\<close> makes before it removes the marker.\<close>

definition unlive :: "string \<Rightarrow> qn_rec \<Rightarrow> qn_store \<Rightarrow> qn_store" where
  "unlive owner r s =
     (let g = st_gen s + 1 in s\<lparr>st_gen := g, st_entries := AList.update owner (r\<lparr>qr_live := False, qr_gen := g\<rparr>) (st_entries s)\<rparr>)"

definition settle :: "string \<Rightarrow> qn_store \<Rightarrow> qn_store" where
  "settle owner s = (case entry_of s owner of None \<Rightarrow> s | Some r \<Rightarrow> if qr_live r then unlive owner r s else s)"

definition discard :: "(string \<Rightarrow> string) \<Rightarrow> string \<Rightarrow> remove_answer \<Rightarrow> qn_store \<Rightarrow> qn_error option \<times> qn_store" where
  "discard sha256_hex owner rm s =
     (case entry_of s owner of
        None \<Rightarrow> (None, s)
      | Some r \<Rightarrow>
          if \<not> qr_live r then (Some Not_running, s)
          else (case remove_marker sha256_hex owner rm (unlive owner r s) of
             (False, s') \<Rightarrow> (Some Marker_failed, s')
           | (True, s') \<Rightarrow> (None, s'\<lparr>st_entries := AList.delete owner (st_entries s')\<rparr>)))"

definition qn_snapshot :: "qn_store \<Rightarrow> qn_snap list" where
  "qn_snapshot s = sort_key (\<lambda>h. qe_owner (sn_e h))
     (map (\<lambda>wr. \<lparr>sn_e = qr_e (snd wr), sn_gen = qr_gen (snd wr), sn_live = qr_live (snd wr)\<rparr>) (st_entries s))"

definition qn_held :: "qn_store \<Rightarrow> qn_entry list" where
  "qn_held s = map sn_e (qn_snapshot s)"

definition qn_quarantined :: "string \<Rightarrow> qn_store \<Rightarrow> bool" where
  "qn_quarantined dir s = list_ex (\<lambda>wr. path_clean (qe_dir (qr_e (snd wr))) = path_clean dir) (st_entries s)"

definition reacquire :: "qn_entry \<Rightarrow> lock_table \<Rightarrow> qn_error option \<times> lock_table" where
  "reacquire e t =
     (case acquire (qe_owner e) (qe_keys e) None t of
        (Got _, t') \<Rightarrow> (None, t')
      | (Refused err, t') \<Rightarrow> if err = AlreadyHeld then ((if exact_keys e t' then None else Some Other_keys), t') else (Some (Not_restored err), t')
      | (Panicked, t') \<Rightarrow> (None, t'))"

definition restore_one :: "qn_snap \<Rightarrow> qn_store \<Rightarrow> lock_table \<Rightarrow> qn_error option \<times> lock_table" where
  "restore_one h s t =
     (case entry_of s (qe_owner (sn_e h)) of
        None \<Rightarrow> (None, t)
      | Some r \<Rightarrow> if qr_gen r \<noteq> sn_gen h \<or> qr_live r then (None, t) else reacquire (sn_e h) t)"

text \<open>What \<open>os.Lstat\<close> and \<open>filepath.EvalSymlinks\<close> say of a job directory.\<close>

datatype lstat_answer = Not_there | Lstat_failed | Not_a_dir | A_dir

record dir_answer =
  da_lstat :: lstat_answer
  da_real :: "string option"

definition safe_dir :: "string \<Rightarrow> string \<Rightarrow> dir_answer \<Rightarrow> bool" where
  "safe_dir work_root dir a =
     (if work_root = '''' then False
      else if dir = '''' \<or> path_clean dir \<noteq> dir \<or> \<not> path_is_abs dir then False
      else if path_dir dir \<noteq> work_root \<or> path_base dir = ''.'' then False
      else case da_lstat a of Not_there \<Rightarrow> True | Lstat_failed \<Rightarrow> False | Not_a_dir \<Rightarrow> False | A_dir \<Rightarrow> da_real a = Some dir)"

text \<open>
  \<open>retire\<close>: whether the entry was retired or an error, the directory it then removes (a failure to
  remove it is only logged), and the store and the table.
\<close>

definition retire :: "(string \<Rightarrow> string) \<Rightarrow> qn_snap \<Rightarrow> bool \<Rightarrow> dir_answer \<Rightarrow> remove_answer \<Rightarrow> qn_store \<Rightarrow> lock_table
    \<Rightarrow> (qn_error + bool) \<times> string option \<times> qn_store \<times> lock_table" where
  "retire sha256_hex h human a rm s t =
     (case entry_of s (qe_owner (sn_e h)) of
        None \<Rightarrow> (Inr False, None, s, t)
      | Some r \<Rightarrow>
          if qr_gen r \<noteq> sn_gen h then (Inr False, None, s, t)
          else if qr_live r then ((if human then Inl Running else Inr False), None, s, t)
          else let safe = safe_dir (st_work_root s) (qe_dir (qr_e r)) a in
            if \<not> safe \<and> \<not> human then (Inr False, None, s, t)
            else (case remove_marker sha256_hex (qe_owner (sn_e h)) rm s of
               (False, s') \<Rightarrow> (Inl Marker_failed, None, s', t)
             | (True, s') \<Rightarrow>
                 (Inr True, (if safe then Some (qe_dir (qr_e r)) else None),
                  s'\<lparr>st_entries := AList.delete (qe_owner (sn_e h)) (st_entries s')\<rparr>, release_owner (qe_owner (sn_e h)) t)))"

section \<open>Calls, one lock at a time\<close>

text \<open>What the unit checker answers; only \<open>Unit_gone\<close> is a proof.\<close>

datatype gone_answer = Unit_gone | Unit_there | Cannot_tell

text \<open>What \<open>Sweep\<close> does with one snapshot once it has tried to restore its hold.\<close>

definition sweep_act :: "(string \<Rightarrow> string) \<Rightarrow> qn_snap \<Rightarrow> gone_answer \<Rightarrow> dir_answer \<Rightarrow> remove_answer \<Rightarrow> qn_store \<Rightarrow> lock_table
    \<Rightarrow> (qn_error + bool) \<times> string option \<times> qn_store \<times> lock_table" where
  "sweep_act sha256_hex h g a rm s t =
     (if sn_live h \<or> qe_unit (sn_e h) = '''' \<or> g \<noteq> Unit_gone then (Inr False, None, s, t) else retire sha256_hex h False a rm s t)"

text \<open>
  A worker process and its disk. \<open>q_snaps\<close> collects every snapshot taken since the process started:
  a call may act on any of them, however old.
\<close>

record qn_state =
  q_store :: qn_store
  q_locks :: lock_state
  q_snaps :: "qn_snap list"

abbreviation q_table :: "qn_state \<Rightarrow> lock_table" where
  "q_table s \<equiv> ls_table (q_locks s)"

abbreviation set_table :: "lock_table \<Rightarrow> qn_state \<Rightarrow> qn_state" where
  "set_table t s \<equiv> s\<lparr>q_locks := (q_locks s)\<lparr>ls_table := t\<rparr>\<rparr>"

datatype qn_call = Q_lock lock_call | Q_add int qn_entry bool | Q_begin int qn_entry bool | Q_settle string | Q_discard string remove_answer
  | Q_look | Q_restore qn_snap | Q_sweep qn_snap gone_answer dir_answer remove_answer | Q_clear qn_snap dir_answer remove_answer
  | Q_restart string "string option"

definition apply_retire :: "(qn_error + bool) \<times> string option \<times> qn_store \<times> lock_table \<Rightarrow> qn_state \<Rightarrow> qn_state" where
  "apply_retire r s = (case r of (_, _, st, t) \<Rightarrow> set_table t (s\<lparr>q_store := st\<rparr>))"

fun qn_step :: "(string \<Rightarrow> string) \<Rightarrow> qn_call \<Rightarrow> qn_state \<Rightarrow> qn_state" where
  "qn_step sha (Q_lock c) s = s\<lparr>q_locks := lock_step c (q_locks s)\<rparr>"
| "qn_step sha (Q_add now e wr) s = s\<lparr>q_store := snd (qn_add sha now e wr (q_table s) (q_store s))\<rparr>"
| "qn_step sha (Q_begin now e wr) s = s\<lparr>q_store := snd (qn_begin sha now e wr (q_table s) (q_store s))\<rparr>"
| "qn_step sha (Q_settle w) s = s\<lparr>q_store := settle w (q_store s)\<rparr>"
| "qn_step sha (Q_discard w rm) s = s\<lparr>q_store := snd (discard sha w rm (q_store s))\<rparr>"
| "qn_step sha Q_look s = s\<lparr>q_snaps := q_snaps s @ qn_snapshot (q_store s)\<rparr>"
| "qn_step sha (Q_restore h) s = (if h \<in> set (q_snaps s) then set_table (snd (restore_one h (q_store s) (q_table s))) s else s)"
| "qn_step sha (Q_sweep h g a rm) s =
     (if h \<in> set (q_snaps s) then apply_retire (sweep_act sha h g a rm (q_store s) (q_table s)) s else s)"
| "qn_step sha (Q_clear h a rm) s = (if h \<in> set (q_snaps s) then apply_retire (retire sha h True a rm (q_store s) (q_table s)) s else s)"
| "qn_step sha (Q_restart work_root real) s =
     \<lparr>q_store = open_store sha work_root real (st_files (q_store s)), q_locks = lock_start, q_snaps = []\<rparr>"

definition qn_start :: "(string \<Rightarrow> string) \<Rightarrow> string \<Rightarrow> string option \<Rightarrow> (string \<times> qn_file) list \<Rightarrow> qn_state" where
  "qn_start sha work_root real files = \<lparr>q_store = open_store sha work_root real files, q_locks = lock_start, q_snaps = []\<rparr>"

abbreviation qn_run :: "(string \<Rightarrow> string) \<Rightarrow> qn_call list \<Rightarrow> qn_state \<Rightarrow> qn_state" where
  "qn_run sha \<equiv> fold (qn_step sha)"

section \<open>Restore, Sweep and Clear\<close>

text \<open>
  The three operations that look first. \<open>others h\<close> are the calls that get the lock before the one on
  the snapshot \<open>h\<close>.
\<close>

fun restore_loop :: "(string \<Rightarrow> string) \<Rightarrow> (qn_snap \<Rightarrow> qn_call list) \<Rightarrow> qn_snap list \<Rightarrow> qn_state \<Rightarrow> qn_error list \<times> qn_state" where
  "restore_loop sha others [] s = ([], s)"
| "restore_loop sha others (h # hs) s =
     (let s1 = qn_run sha (others h) s;
          e = fst (restore_one h (q_store s1) (q_table s1));
          (errs, s2) = restore_loop sha others hs (qn_step sha (Q_restore h) s1)
      in (case e of None \<Rightarrow> errs | Some x \<Rightarrow> x # errs, s2))"

definition restore :: "(string \<Rightarrow> string) \<Rightarrow> (qn_snap \<Rightarrow> qn_call list) \<Rightarrow> qn_state \<Rightarrow> qn_error list \<times> qn_state" where
  "restore sha others s = restore_loop sha others (qn_snapshot (q_store s)) (qn_step sha Q_look s)"

record sweep_answer =
  sa_cancelled :: bool
  sa_before :: "qn_call list" \<comment> \<open>others, before the hold is restored\<close>
  sa_asking :: "qn_call list" \<comment> \<open>others, while the unit checker is asked\<close>
  sa_gone :: gone_answer
  sa_dir :: dir_answer
  sa_remove :: remove_answer

text \<open>The loop of \<open>Sweep\<close>: how many were cleared, the errors or the cancellation, and the state.\<close>

fun sweep_loop :: "(string \<Rightarrow> string) \<Rightarrow> (qn_snap \<Rightarrow> sweep_answer) \<Rightarrow> qn_snap list \<Rightarrow> nat \<Rightarrow> qn_error list \<Rightarrow> qn_state \<Rightarrow> nat \<times> qn_error list option \<times> qn_state" where
  "sweep_loop sha ans [] cleared errs s = (cleared, Some errs, s)"
| "sweep_loop sha ans (h # hs) cleared errs s =
     (if sa_cancelled (ans h) then (cleared, None, s)
      else if sn_live h then sweep_loop sha ans hs cleared errs s
      else let s1 = qn_step sha (Q_restore h) (qn_run sha (sa_before (ans h)) s);
               s2 = qn_run sha (sa_asking (ans h)) s1;
               r = fst (sweep_act sha h (sa_gone (ans h)) (sa_dir (ans h)) (sa_remove (ans h)) (q_store s2) (q_table s2));
               s3 = qn_step sha (Q_sweep h (sa_gone (ans h)) (sa_dir (ans h)) (sa_remove (ans h))) s2
           in sweep_loop sha ans hs (if r = Inr True then Suc cleared else cleared) (case r of Inl e \<Rightarrow> errs @ [e] | Inr _ \<Rightarrow> errs) s3)"

definition qn_sweep :: "(string \<Rightarrow> string) \<Rightarrow> (qn_snap \<Rightarrow> sweep_answer) \<Rightarrow> qn_state \<Rightarrow> nat \<times> qn_error list option \<times> qn_state" where
  "qn_sweep sha ans s = sweep_loop sha ans (qn_snapshot (q_store s)) 0 [] (qn_step sha Q_look s)"

record clear_answer =
  ca_before :: "qn_call list"
  ca_dir :: dir_answer
  ca_remove :: remove_answer

text \<open>The snapshots a name given to \<open>Clear\<close> stands for.\<close>

definition clear_named :: "qn_snap list \<Rightarrow> string \<Rightarrow> qn_snap list" where
  "clear_named snaps name =
     (case List.find (\<lambda>h. qe_owner (sn_e h) = name) snaps of
        Some h \<Rightarrow> [h]
      | None \<Rightarrow> if \<not> str_contains ''/'' name then filter (\<lambda>h. qe_job_id (sn_e h) = name) snaps else [])"

fun clear_loop :: "(string \<Rightarrow> string) \<Rightarrow> (string \<Rightarrow> clear_answer) \<Rightarrow> qn_snap list \<Rightarrow> string list \<Rightarrow> qn_state \<Rightarrow> qn_error list \<times> qn_state" where
  "clear_loop sha ans snaps [] s = ([], s)"
| "clear_loop sha ans snaps (name # names) s =
     (case clear_named snaps name of
        [] \<Rightarrow> (case clear_loop sha ans snaps names s of (errs, s') \<Rightarrow> (No_entry name # errs, s'))
      | [h] \<Rightarrow>
          (let s1 = qn_run sha (ca_before (ans name)) s;
               r = fst (retire sha h True (ca_dir (ans name)) (ca_remove (ans name)) (q_store s1) (q_table s1));
               (errs, s2) = clear_loop sha ans snaps names (qn_step sha (Q_clear h (ca_dir (ans name)) (ca_remove (ans name))) s1)
           in ((case r of Inl e \<Rightarrow> e # errs | Inr ok \<Rightarrow> if ok then errs else Changed_meanwhile name # errs), s2))
      | hs \<Rightarrow> (case clear_loop sha ans snaps names s of
                 (errs, s') \<Rightarrow> (Several name (sort (map (\<lambda>h. qe_owner (sn_e h)) hs)) # errs, s')))"

definition qn_clear :: "(string \<Rightarrow> string) \<Rightarrow> (string \<Rightarrow> clear_answer) \<Rightarrow> string list \<Rightarrow> qn_state \<Rightarrow> qn_error list \<times> qn_state" where
  "qn_clear sha ans names s = clear_loop sha ans (qn_snapshot (q_store s)) names (qn_step sha Q_look s)"

text \<open>Each of the three is some sequence of the calls above, so what holds of every sequence of calls holds of them.\<close>

lemma restore_loop_calls: "\<exists>cs. snd (restore_loop sha others hs s) = qn_run sha cs s"
proof (induction hs arbitrary: s)
  case (Cons h hs)
  obtain cs where "snd (restore_loop sha others hs (qn_step sha (Q_restore h) (qn_run sha (others h) s)))
      = qn_run sha cs (qn_step sha (Q_restore h) (qn_run sha (others h) s))" using Cons.IH by blast
  then show ?case by (intro exI [of _ "others h @ Q_restore h # cs"]) (simp add: Let_def case_prod_beta del: qn_step.simps)
qed (auto intro: exI [of _ "[]"])

lemma sweep_loop_calls: "\<exists>cs. snd (snd (sweep_loop sha ans hs n errs s)) = qn_run sha cs s"
proof (induction hs arbitrary: n errs s)
  case (Cons h hs)
  let ?ops = "sa_before (ans h) @ Q_restore h # sa_asking (ans h) @ [Q_sweep h (sa_gone (ans h)) (sa_dir (ans h)) (sa_remove (ans h))]"
  have "\<exists>cs. snd (snd (sweep_loop sha ans hs m es (qn_run sha ?ops s))) = qn_run sha cs s" for m es
    using Cons.IH [of m es "qn_run sha ?ops s"] by (metis fold_append comp_apply)
  then show ?case using Cons.IH [of n errs s] by (auto simp: Let_def simp del: qn_step.simps intro: exI [of _ "[]"])
qed (auto intro: exI [of _ "[]"])

lemma clear_loop_calls: "\<exists>cs. snd (clear_loop sha ans snaps names s) = qn_run sha cs s"
proof (induction names arbitrary: s)
  case (Cons name names)
  note IH = Cons.IH
  have skip: "\<exists>cs. snd (case clear_loop sha ans snaps names s of (errs, s') \<Rightarrow> (e # errs, s')) = qn_run sha cs s" for e
    using IH [of s] by (simp add: case_prod_beta)
  show ?case
  proof (cases "clear_named snaps name")
    case (Cons h hs)
    let ?ops = "ca_before (ans name) @ [Q_clear h (ca_dir (ans name)) (ca_remove (ans name))]"
    have "\<exists>cs. snd (clear_loop sha ans snaps names (qn_run sha ?ops s)) = qn_run sha cs s"
      using IH [of "qn_run sha ?ops s"] by (metis fold_append comp_apply)
    then show ?thesis using Cons skip by (cases hs) (auto simp: Let_def case_prod_beta simp del: qn_step.simps)
  qed (use skip in simp)
qed (auto intro: exI [of _ "[]"])

section \<open>Opening the store\<close>

text \<open>The entry a file of the directory gives, if any.\<close>

definition loads :: "(string \<Rightarrow> string) \<Rightarrow> string \<times> qn_file \<Rightarrow> qn_entry option" where
  "loads sha f = (if str_contains ''.json.tmp-'' (fst f) \<or> \<not> str_suffix ''.json'' (fst f) then None else read_marker sha (fst f) (snd f))"

lemma load_file_entry:
  "entry_of (load_file sha f s) = (case loads sha f of None \<Rightarrow> entry_of s
     | Some e \<Rightarrow> (entry_of s)(qe_owner e \<mapsto> \<lparr>qr_e = e, qr_gen = st_gen s + 1, qr_live = False\<rparr>))"
  by (auto simp: load_file_def loads_def Let_def update_conv' split: option.splits)

lemma loads_name: "loads sha f = Some e \<Longrightarrow> fst f = marker_name sha (qe_owner e)"
  by (auto simp: loads_def read_marker_def split: if_splits qn_file.splits)

lemma load_other:
  "\<forall>f \<in> set fs. \<forall>e. loads sha f = Some e \<longrightarrow> qe_owner e \<noteq> w \<Longrightarrow> entry_of (fold (load_file sha) fs s) w = entry_of s w"
  by (induction fs arbitrary: s) (auto simp: load_file_entry split: option.splits)

lemma load_one:
  assumes "distinct (map fst fs)" "f \<in> set fs" "loads sha f = Some e"
  shows "\<exists>g. entry_of (fold (load_file sha) fs s) (qe_owner e) = Some \<lparr>qr_e = e, qr_gen = g, qr_live = False\<rparr>"
  using assms
proof (induction fs arbitrary: s)
  case (Cons a fs)
  show ?case
  proof (cases "f = a")
    case True
    have "qe_owner e' \<noteq> qe_owner e" if "x \<in> set fs" "loads sha x = Some e'" for x e'
      using that loads_name Cons.prems True by (metis (no_types, opaque_lifting) distinct.simps(2) image_eqI list.set_map list.simps(9))
    then show ?thesis using True Cons.prems load_other [of fs sha "qe_owner e"] by (simp add: load_file_entry)
  qed (use Cons in simp)
qed simp

lemma load_files: "st_files (fold (load_file sha) fs s) = fold AList.delete (filter (str_contains ''.json.tmp-'') (map fst fs)) (st_files s)"
  by (induction fs arbitrary: s) (auto simp: load_file_def Let_def split: option.splits)

lemma map_of_fold_delete: "map_of (fold AList.delete ks m) k = (if k \<in> set ks then None else map_of m k)"
  by (induction ks arbitrary: m) (auto simp: delete_conv')

lemma distinct_fold_delete: "distinct (map fst m) \<Longrightarrow> distinct (map fst (fold AList.delete ks m))"
  by (induction ks arbitrary: m) (auto simp: distinct_delete)

lemma length_fold_delete: "length (fold AList.delete ks m) \<le> length m"
  by (induction ks arbitrary: m) (auto intro: le_trans length_delete_le)

lemma load_all:
  assumes d: "distinct (map fst fs)" and n: "st_entries s = []"
  shows "map_option qr_e (entry_of (fold (load_file sha) fs s) w) = Some e \<longleftrightarrow> qe_owner e = w \<and> (\<exists>f \<in> set fs. loads sha f = Some e)"
proof (cases "\<exists>f \<in> set fs. \<exists>e. loads sha f = Some e \<and> qe_owner e = w")
  case True
  then obtain f e' where f: "f \<in> set fs" "loads sha f = Some e'" "qe_owner e' = w" by blast
  obtain g where en: "entry_of (fold (load_file sha) fs s) w = Some \<lparr>qr_e = e', qr_gen = g, qr_live = False\<rparr>"
    using load_one [OF d f(1,2)] f(3) by blast
  have u: "e = e'" if "f' \<in> set fs" "loads sha f' = Some e" "qe_owner e = w" for f'
  proof -
    have "fst f' = fst f" using loads_name [OF that(2)] loads_name [OF f(2)] that(3) f(3) by simp
    then have "f' = f" using d that(1) f(1) by (metis distinct_map inj_onD)
    then show ?thesis using that(2) f(2) by simp
  qed
  show ?thesis
  proof (cases "e = e'")
    case False
    then have "\<not> (qe_owner e = w \<and> (\<exists>f \<in> set fs. loads sha f = Some e))" using u by blast
    then show ?thesis using en False by simp
  qed (use en f in auto)
next
  case False
  then show ?thesis using load_other [of fs sha w s] n by auto
qed

lemma load_not_live: "\<forall>r \<in> ran (entry_of s). \<not> qr_live r \<Longrightarrow> \<forall>r \<in> ran (entry_of (fold (load_file sha) fs s)). \<not> qr_live r"
proof (induction fs arbitrary: s)
  case (Cons a fs)
  have "\<forall>r \<in> ran (entry_of (load_file sha a s)). \<not> qr_live r"
    using Cons.prems by (auto simp: load_file_entry ran_def split: option.splits if_splits)
  then show ?case using Cons.IH by simp
qed simp

text \<open>After \<open>Open\<close> the entries are exactly what the readable files say, none of them running.\<close>

lemma open_entry:
  "distinct (map fst files) \<Longrightarrow> map_option qr_e (entry_of (open_store sha root real files) w) = Some e
    \<longleftrightarrow> qe_owner e = w \<and> (\<exists>f \<in> set files. loads sha f = Some e)"
  unfolding open_store_def Let_def by (subst load_all) (auto simp: distinct_map)

lemma open_not_live: "entry_of (open_store sha root real files) w = Some r \<Longrightarrow> \<not> qr_live r"
  unfolding open_store_def Let_def by (rule load_not_live [rule_format, rotated, OF ranI]) auto

lemma open_files:
  "distinct (map fst files) \<Longrightarrow> file_of (open_store sha root real files) n = (if str_contains ''.json.tmp-'' n then None else map_of files n)"
  unfolding open_store_def Let_def by (auto simp: load_files map_of_fold_delete map_of_eq_None_iff image_iff)

lemma open_files_small: "length (st_files (open_store sha root real files)) \<le> length files"
  unfolding open_store_def Let_def by (simp add: load_files length_fold_delete)

lemma open_distinct:
  "distinct (map fst files) \<Longrightarrow> distinct (map fst (st_files (open_store sha root real files))) \<and> distinct (map fst (st_entries (open_store sha root real files)))"
proof -
  have "distinct (map fst (st_entries s)) \<Longrightarrow> distinct (map fst (st_entries (fold (load_file sha) fs s)))" for fs s
    by (induction fs arbitrary: s) (auto simp: load_file_def Let_def distinct_update split: option.splits)
  then show "distinct (map fst files) \<Longrightarrow> ?thesis"
    unfolding open_store_def Let_def by (simp add: load_files distinct_fold_delete)
qed

text \<open>Every entry loaded has its own generation, at most the number of files.\<close>

lemma load_gen:
  assumes "unat (st_gen s) + length fs < 2 ^ 64" "\<forall>r \<in> ran (entry_of s). unat (qr_gen r) \<le> unat (st_gen s)"
  shows "unat (st_gen (fold (load_file sha) fs s)) \<le> unat (st_gen s) + length fs
    \<and> (\<forall>r \<in> ran (entry_of (fold (load_file sha) fs s)). unat (qr_gen r) \<le> unat (st_gen (fold (load_file sha) fs s)))"
  using assms
proof (induction fs arbitrary: s)
  case (Cons a fs)
  let ?s = "load_file sha a s"
  have u: "unat (st_gen s + 1) = Suc (unat (st_gen s))" using Cons.prems(1) by (simp add: unat_word_ariths)
  have g: "st_gen ?s = (case loads sha a of None \<Rightarrow> st_gen s | Some _ \<Rightarrow> st_gen s + 1)"
    by (auto simp: load_file_def loads_def Let_def split: option.splits)
  have le: "unat (st_gen s) \<le> unat (st_gen ?s)" "unat (st_gen ?s) \<le> Suc (unat (st_gen s))" using g u by (auto split: option.splits)
  have "\<forall>r \<in> ran (entry_of ?s). unat (qr_gen r) \<le> unat (st_gen ?s)"
    using Cons.prems(2) g u by (auto simp: load_file_entry ran_def le_SucI split: option.splits if_splits)
  then show ?case using Cons.IH [of ?s] le Cons.prems(1) by force
qed simp

lemma open_gen:
  assumes "length files < 2 ^ 64"
  shows "unat (st_gen (open_store sha root real files)) \<le> length files
    \<and> (\<forall>r \<in> ran (entry_of (open_store sha root real files)). unat (qr_gen r) \<le> unat (st_gen (open_store sha root real files)))"
  unfolding open_store_def Let_def
  using load_gen [of "\<lparr>st_work_root = r, st_files = files, st_entries = [], st_gen = 0\<rparr>" "sort_key fst files" sha for r] assms by simp

section \<open>How the store moves\<close>

text \<open>The transitions the operations are made of.\<close>

inductive store_move :: "(string \<Rightarrow> string) \<Rightarrow> string set \<Rightarrow> qn_store \<Rightarrow> qn_store \<Rightarrow> bool" for sha W s where
  stay: "store_move sha W s s"
| put: "qn_validate sha e = None \<Longrightarrow> qe_owner e \<in> W \<Longrightarrow> g = st_gen s + 1 \<Longrightarrow> store_move sha W s
    (s\<lparr>st_files := AList.update (marker_name sha (qe_owner e)) (Marker e) (st_files s), st_gen := g,
       st_entries := AList.update (qe_owner e) \<lparr>qr_e = e, qr_gen = g, qr_live = live\<rparr> (st_entries s)\<rparr>)"
| unlive: "entry_of s w = Some r \<Longrightarrow> store_move sha W s (unlive w r s)"
| drop: "entry_of s w = Some r \<Longrightarrow> g = st_gen s \<or> g = st_gen s + 1 \<Longrightarrow> store_move sha W s
    (s\<lparr>st_gen := g, st_files := AList.delete (marker_name sha w) (st_files s), st_entries := AList.delete w (st_entries s)\<rparr>)"

inductive_cases store_move_cases [consumes 1, case_names stay put unlive drop]: "store_move sha W s s'"

lemma validate_since [simp]: "qn_validate sha (e\<lparr>qe_since := x\<rparr>) = qn_validate sha e"
  by (simp add: qn_validate_def own_unit_def)

lemma install_move: "qn_validate sha e = None \<Longrightarrow> qe_owner e \<in> W \<Longrightarrow> store_move sha W s (snd (install sha e live wr s))"
  by (auto simp: install_def Let_def intro: stay put)

lemma normalize_cases:
  assumes "qn_normalize sha now e0 = Inr e"
  shows "qn_validate sha e = None \<and> qe_owner e = qe_owner e0 \<and> qe_keys e = qe_keys e0"
  using assms by (auto simp: qn_normalize_def split: option.splits if_splits)

lemma add_move: "qe_owner e \<in> W \<Longrightarrow> store_move sha W s (snd (qn_add sha now e wr t s))"
  by (auto simp: qn_add_def dest!: normalize_cases intro: stay install_move split: sum.splits option.splits)

lemma begin_move: "qe_owner e \<in> W \<Longrightarrow> store_move sha W s (snd (qn_begin sha now e wr t s))"
  by (auto simp: qn_begin_def dest!: normalize_cases intro: stay install_move split: sum.splits option.splits)

lemma settle_move: "store_move sha W s (settle w s)"
  by (auto simp: settle_def intro: stay unlive split: option.splits)

lemma delete_update_same: "AList.delete k (AList.update k v m) = AList.delete k m"
  by (induction m) auto

lemma drop_unlived:
  "(unlive w r s)\<lparr>st_files := fs, st_entries := AList.delete w (st_entries (unlive w r s))\<rparr>
    = s\<lparr>st_gen := st_gen s + 1, st_files := fs, st_entries := AList.delete w (st_entries s)\<rparr>"
  by (simp add: unlive_def Let_def delete_update_same)

lemma discard_move: "store_move sha W s (snd (discard sha w rm s))"
proof (cases "entry_of s w")
  case (Some r)
  have "store_move sha W s ((unlive w r s)\<lparr>st_files := AList.delete (marker_name sha w) (st_files s), st_entries := AList.delete w (st_entries (unlive w r s))\<rparr>)"
    unfolding drop_unlived by (rule drop [OF Some]) simp
  moreover have "store_move sha W s (unlive w r s)" by (rule unlive [OF Some])
  ultimately show ?thesis using Some by (auto simp: discard_def remove_marker_def unlive_def Let_def intro: stay)
qed (simp add: discard_def stay)

lemma retire_move: "store_move sha W s (fst (snd (snd (retire sha h human a rm s t))))"
proof (cases "entry_of s (qe_owner (sn_e h))")
  case (Some r)
  have "store_move sha W s (s\<lparr>st_gen := st_gen s, st_files := AList.delete (marker_name sha (qe_owner (sn_e h))) (st_files s),
      st_entries := AList.delete (qe_owner (sn_e h)) (st_entries s)\<rparr>)" by (rule drop [OF Some]) simp
  then show ?thesis using Some by (auto simp: retire_def remove_marker_def Let_def intro: stay)
qed (simp add: retire_def stay)

lemma sweep_move: "store_move sha W s (fst (snd (snd (sweep_act sha h g a rm s t))))"
  by (simp add: sweep_act_def retire_move stay)

definition call_owner_in :: "string set \<Rightarrow> qn_call \<Rightarrow> bool" where
  "call_owner_in W c = (case c of Q_add _ e _ \<Rightarrow> qe_owner e \<in> W | Q_begin _ e _ \<Rightarrow> qe_owner e \<in> W | _ \<Rightarrow> True)"

lemma apply_retire_simps [simp]:
  "q_store (apply_retire r s) = fst (snd (snd r))" "q_table (apply_retire r s) = snd (snd (snd r))" "q_snaps (apply_retire r s) = q_snaps s"
  by (simp_all add: apply_retire_def case_prod_beta)

text \<open>Every call but a restart moves the store.\<close>

lemma step_move: "call_owner_in W c \<Longrightarrow> (\<And>root real. c \<noteq> Q_restart root real) \<Longrightarrow> store_move sha W (q_store s) (q_store (qn_step sha c s))"
  by (cases c) (auto simp: call_owner_in_def stay add_move begin_move settle_move discard_move retire_move sweep_move)

section \<open>Entries and markers\<close>

text \<open>What the store relies on of SHA-256 for the owners \<open>W\<close> it meets: hex digits, and no two of their markers share a name.\<close>

definition good_hash :: "(string \<Rightarrow> string) \<Rightarrow> string set \<Rightarrow> bool" where
  "good_hash sha W \<longleftrightarrow> inj_on (marker_name sha) W \<and> (\<forall>w \<in> W. list_all is_hex (sha w))"

text \<open>The entries and the markers say the same; over the two maps.\<close>

definition marked :: "(string \<Rightarrow> string) \<Rightarrow> string set \<Rightarrow> (string \<rightharpoonup> qn_rec) \<Rightarrow> (string \<rightharpoonup> qn_file) \<Rightarrow> bool" where
  "marked sha W en fi \<longleftrightarrow>
     (\<forall>w r. en w = Some r \<longrightarrow> w \<in> W \<and> qe_owner (qr_e r) = w \<and> qn_validate sha (qr_e r) = None \<and> fi (marker_name sha w) = Some (Marker (qr_e r)))
     \<and> (\<forall>e. fi (marker_name sha (qe_owner e)) = Some (Marker e) \<longrightarrow> loads sha (marker_name sha (qe_owner e), Marker e) = Some e \<longrightarrow>
          qe_owner e \<in> W \<and> map_option qr_e (en (qe_owner e)) = Some e)"

definition disk_inv :: "(string \<Rightarrow> string) \<Rightarrow> string set \<Rightarrow> qn_store \<Rightarrow> bool" where
  "disk_inv sha W s \<longleftrightarrow> distinct (map fst (st_files s)) \<and> distinct (map fst (st_entries s)) \<and> marked sha W (entry_of s) (file_of s)"

lemma marked_entryD:
  assumes "marked sha W en fi" "en w = Some r"
  shows "w \<in> W" "qe_owner (qr_e r) = w" "qn_validate sha (qr_e r) = None" "fi (marker_name sha w) = Some (Marker (qr_e r))"
  using assms by (simp_all add: marked_def)

lemma marked_put:
  assumes "marked sha W en fi" "good_hash sha W" "qe_owner e \<in> W" "qn_validate sha e = None" "qr_e r = e"
  shows "marked sha W (en(qe_owner e \<mapsto> r)) (fi(marker_name sha (qe_owner e) \<mapsto> Marker e))"
proof -
  have other: "marker_name sha v \<noteq> marker_name sha (qe_owner e)" if "v \<in> W" "v \<noteq> qe_owner e" for v
    using assms(2,3) that by (auto simp: good_hash_def inj_on_eq_iff)
  show ?thesis
    unfolding marked_def
  proof (rule conjI; intro allI impI)
    fix v r' assume "(en(qe_owner e \<mapsto> r)) v = Some r'"
    then show "v \<in> W \<and> qe_owner (qr_e r') = v \<and> qn_validate sha (qr_e r') = None \<and> (fi(marker_name sha (qe_owner e) \<mapsto> Marker e)) (marker_name sha v) = Some (Marker (qr_e r'))"
      using assms(1,3,4,5) other [of v] by (cases "v = qe_owner e") (auto simp: marked_def)
  next
    fix e' assume f: "(fi(marker_name sha (qe_owner e) \<mapsto> Marker e)) (marker_name sha (qe_owner e')) = Some (Marker e')"
      and l: "loads sha (marker_name sha (qe_owner e'), Marker e') = Some e'"
    show "qe_owner e' \<in> W \<and> map_option qr_e ((en(qe_owner e \<mapsto> r)) (qe_owner e')) = Some e'"
    proof (cases "marker_name sha (qe_owner e') = marker_name sha (qe_owner e)")
      case False
      then have "qe_owner e' \<in> W \<and> map_option qr_e (en (qe_owner e')) = Some e'"
        using f l assms(1) unfolding marked_def fun_upd_def by presburger
      moreover have "qe_owner e' \<noteq> qe_owner e" using False by metis
      ultimately show ?thesis by simp
    qed (use f assms(3,5) in simp)
  qed
qed

lemma marked_drop:
  assumes "marked sha W en fi" "good_hash sha W" "w \<in> W"
  shows "marked sha W (en(w := None)) (fi(marker_name sha w := None))"
proof -
  have other: "marker_name sha v \<noteq> marker_name sha w" if "v \<in> W" "v \<noteq> w" for v
    using assms(2,3) that by (auto simp: good_hash_def inj_on_eq_iff)
  show ?thesis using assms(1) other unfolding marked_def by auto
qed

lemma marked_same: "marked sha W en fi \<Longrightarrow> en w = Some r \<Longrightarrow> qr_e r' = qr_e r \<Longrightarrow> marked sha W (en(w \<mapsto> r')) fi"
  unfolding marked_def by auto

lemma hex_no_dot: "is_hex c \<Longrightarrow> c \<noteq> CHR ''.''"
  by (auto simp: is_hex_def is_digit_def byte_of_def)

lemma marker_loads:
  assumes "good_hash sha W" "qe_owner e \<in> W" "qn_validate sha e = None"
  shows "loads sha (marker_name sha (qe_owner e), Marker e) = Some e"
proof -
  let ?h = "take 32 (sha (qe_owner e))"
  have "\<forall>c \<in> set ?h. c \<noteq> CHR ''.''"
    using assms(1,2) hex_no_dot by (fastforce simp: good_hash_def list_all_iff dest: in_set_takeD)
  then have "filter (\<lambda>c. c = CHR ''.'') ?h = []" by (simp add: filter_empty_conv)
  then have "length (filter (\<lambda>c. c = CHR ''.'') (?h @ ''.json'')) = 1" by simp
  moreover have "length (filter (\<lambda>c. c = CHR ''.'') (a @ ''.json.tmp-'' @ b)) \<ge> 2" for a b by simp
  ultimately have "\<not> str_contains ''.json.tmp-'' (?h @ ''.json'')" unfolding str_contains_iff by (metis not_less_eq_eq numeral_2_eq_2 order_refl One_nat_def)
  moreover have "str_suffix ''.json'' (?h @ ''.json'')" by (auto simp: str_suffix_iff)
  ultimately show ?thesis using assms(3) by (simp add: loads_def read_marker_def marker_name_def)
qed

lemma loads_SomeD:
  "loads sha (n, f) = Some e \<Longrightarrow> n = marker_name sha (qe_owner e) \<and> f = Marker e \<and> qn_validate sha e = None \<and> \<not> str_contains ''.json.tmp-'' n"
  by (auto simp: loads_def read_marker_def split: if_splits qn_file.splits)

lemma disk_inv_move:
  assumes h: "good_hash sha W" and i: "disk_inv sha W s" and m: "store_move sha W s s'"
  shows "disk_inv sha W s'"
  using m
proof (cases rule: store_move_cases)
  case (put e live)
  then show ?thesis
    using i marked_put [OF _ h put(3,2)] by (simp add: disk_inv_def update_conv' distinct_update)
next
  case (unlive w r)
  then show ?thesis using i marked_same [of sha W "entry_of s" "file_of s" w r] by (simp add: disk_inv_def unlive_def Let_def update_conv' distinct_update)
next
  case (drop w r g)
  then have "w \<in> W" using i unfolding disk_inv_def marked_def by blast
  then show ?thesis
    using i drop(1) marked_drop [OF _ h] by (simp add: disk_inv_def delete_conv' distinct_delete)
qed (use i in simp)

lemma disk_inv_open:
  assumes h: "good_hash sha W" and d: "distinct (map fst files)" and W: "\<forall>f \<in> set files. \<forall>e. loads sha f = Some e \<longrightarrow> qe_owner e \<in> W"
  shows "disk_inv sha W (open_store sha root real files)"
proof -
  let ?s = "open_store sha root real files"
  have in_files: "(n, f) \<in> set files \<longleftrightarrow> map_of files n = Some f" for n f using d by simp
  have "w \<in> W \<and> qe_owner (qr_e r) = w \<and> qn_validate sha (qr_e r) = None \<and> file_of ?s (marker_name sha w) = Some (Marker (qr_e r))"
    if r: "entry_of ?s w = Some r" for w r
  proof -
    have "map_option qr_e (entry_of ?s w) = Some (qr_e r)" using r by simp
    then obtain n f where f: "(n, f) \<in> set files" "loads sha (n, f) = Some (qr_e r)" "qe_owner (qr_e r) = w"
      using open_entry [OF d] by (metis surj_pair)
    have n: "n = marker_name sha w" "f = Marker (qr_e r)" "qn_validate sha (qr_e r) = None" "\<not> str_contains ''.json.tmp-'' n"
      using loads_SomeD [OF f(2)] f(3) by auto
    have "w \<in> W" using W f by blast
    moreover have "file_of ?s n = Some f" using n(4) f(1) in_files by (simp add: open_files [OF d])
    ultimately show ?thesis using n f(3) by simp
  qed
  moreover have "qe_owner e \<in> W \<and> map_option qr_e (entry_of ?s (qe_owner e)) = Some e"
    if "file_of ?s (marker_name sha (qe_owner e)) = Some (Marker e)" "loads sha (marker_name sha (qe_owner e), Marker e) = Some e" for e
  proof -
    have "(marker_name sha (qe_owner e), Marker e) \<in> set files" using that in_files by (auto simp: open_files [OF d] split: if_splits)
    then show ?thesis using that(2) W by (subst open_entry [OF d]) auto
  qed
  ultimately have "marked sha W (entry_of ?s) (file_of ?s)" unfolding marked_def by blast
  then show ?thesis using open_distinct [OF d] by (simp add: disk_inv_def)
qed

lemma disk_inv_loads: "disk_inv sha W s \<Longrightarrow> \<forall>f \<in> set (st_files s). \<forall>e. loads sha f = Some e \<longrightarrow> qe_owner e \<in> W"
  using loads_SomeD by (fastforce simp: disk_inv_def marked_def)

lemma disk_inv_step:
  assumes h: "good_hash sha W" and i: "disk_inv sha W (q_store s)" and c: "call_owner_in W c"
  shows "disk_inv sha W (q_store (qn_step sha c s))"
proof (cases "\<exists>root real. c = Q_restart root real")
  case True
  moreover have "distinct (map fst (st_files (q_store s)))" using i by (simp add: disk_inv_def)
  ultimately show ?thesis using disk_inv_open [OF h _ disk_inv_loads [OF i]] by auto
next
  case False
  then show ?thesis using disk_inv_move [OF h i step_move [OF c]] by blast
qed

section \<open>Generations\<close>

definition gen_inv :: "nat \<Rightarrow> qn_state \<Rightarrow> bool" where
  "gen_inv n s \<longleftrightarrow> unat (st_gen (q_store s)) \<le> n \<and> length (st_files (q_store s)) \<le> n
     \<and> (\<forall>w r. entry_of (q_store s) w = Some r \<longrightarrow> unat (qr_gen r) \<le> unat (st_gen (q_store s)))
     \<and> (\<forall>h \<in> set (q_snaps s). unat (sn_gen h) \<le> unat (st_gen (q_store s))
          \<and> (\<forall>r. entry_of (q_store s) (qe_owner (sn_e h)) = Some r \<longrightarrow> qr_gen r = sn_gen h \<longrightarrow> qr_e r = sn_e h \<and> qr_live r = sn_live h))"

lemma length_update_le: "length (AList.update k v m) \<le> Suc (length m)"
  by (induction m) auto

lemma move_gen:
  assumes "store_move sha W s s'"
  shows "(st_gen s' = st_gen s \<or> st_gen s' = st_gen s + 1) \<and> length (st_files s') \<le> Suc (length (st_files s))
    \<and> (entry_of s' w = Some r \<longrightarrow> entry_of s w = Some r \<or> qr_gen r = st_gen s + 1 \<and> st_gen s' = st_gen s + 1)"
  using assms
proof (cases rule: store_move_cases)
  case (put e live)
  then show ?thesis by (auto simp: length_update_le update_conv' simp del: map_of_eq_Some_iff)
next
  case (unlive v r')
  then show ?thesis by (auto simp: unlive_def Let_def update_conv' simp del: map_of_eq_Some_iff)
next
  case (drop v r' g)
  then show ?thesis using length_delete_le [of "marker_name sha v" "st_files s"] by (auto simp: delete_conv' intro: le_SucI simp del: map_of_eq_Some_iff)
qed simp

lemma disk_inv_owner: "disk_inv sha W s \<Longrightarrow> entry_of s w = Some r \<Longrightarrow> qe_owner (qr_e r) = w"
  using marked_entryD(2) unfolding disk_inv_def by blast

lemma snapshot_entry: "h \<in> set (qn_snapshot s) \<longleftrightarrow> (\<exists>w r. (w, r) \<in> set (st_entries s) \<and> h = \<lparr>sn_e = qr_e r, sn_gen = qr_gen r, sn_live = qr_live r\<rparr>)"
  by (force simp: qn_snapshot_def)

lemma snapshot_current:
  assumes "disk_inv sha W s" "h \<in> set (qn_snapshot s)"
  shows "entry_of s (qe_owner (sn_e h)) = Some \<lparr>qr_e = sn_e h, qr_gen = sn_gen h, qr_live = sn_live h\<rparr>"
proof -
  obtain w r where r: "(w, r) \<in> set (st_entries s)" "h = \<lparr>sn_e = qr_e r, sn_gen = qr_gen r, sn_live = qr_live r\<rparr>"
    using assms(2) snapshot_entry by blast
  have "entry_of s w = Some r" using r(1) assms(1) by (simp add: disk_inv_def)
  moreover from this have "qe_owner (qr_e r) = w" using assms(1) unfolding disk_inv_def marked_def by blast
  ultimately show ?thesis using r(2) by simp
qed

lemma gen_inv_move:
  assumes g: "gen_inv n s" and n: "Suc n < 2 ^ 64" and m: "store_move sha W (q_store s) (q_store s')" and h: "set (q_snaps s') \<subseteq> set (q_snaps s)"
  shows "gen_inv (Suc n) s'"
proof -
  let ?g = "st_gen (q_store s)" and ?g' = "st_gen (q_store s')"
  have "unat ?g + 1 < 2 ^ 64" using g n by (simp add: gen_inv_def)
  then have u: "unat (?g + 1) = Suc (unat ?g)" by (simp add: unat_word_ariths)
  have "?g' = ?g \<or> ?g' = ?g + 1" using move_gen [OF m] by blast
  then have mono: "unat ?g \<le> unat ?g'" "unat ?g' \<le> Suc (unat ?g)" using u by auto
  have e: "unat (qr_gen r) \<le> unat ?g'" if "entry_of (q_store s') w = Some r" for w r
    using move_gen [OF m, of w r] that g mono u unfolding gen_inv_def by (metis le_trans order_refl)
  have "unat (sn_gen k) \<le> unat ?g'
      \<and> (\<forall>r. entry_of (q_store s') (qe_owner (sn_e k)) = Some r \<longrightarrow> qr_gen r = sn_gen k \<longrightarrow> qr_e r = sn_e k \<and> qr_live r = sn_live k)"
    if k: "k \<in> set (q_snaps s')" for k
  proof -
    have old: "unat (sn_gen k) \<le> unat ?g" "\<And>r. entry_of (q_store s) (qe_owner (sn_e k)) = Some r \<Longrightarrow> qr_gen r = sn_gen k \<Longrightarrow> qr_e r = sn_e k \<and> qr_live r = sn_live k"
      using g h k unfolding gen_inv_def by auto
    then have "sn_gen k \<noteq> ?g + 1" using u by auto
    then show ?thesis using old mono(1) move_gen [OF m, of "qe_owner (sn_e k)"] by (metis le_trans)
  qed
  moreover have "length (st_files (q_store s')) \<le> Suc (length (st_files (q_store s)))" using move_gen [OF m] by blast
  ultimately show ?thesis using g e mono unfolding gen_inv_def by (auto simp del: map_of_eq_Some_iff)
qed

lemma gen_inv_look:
  assumes "gen_inv n s" "disk_inv sha W (q_store s)"
  shows "gen_inv (Suc n) (qn_step sha Q_look s)"
proof -
  have "unat (sn_gen k) \<le> unat (st_gen (q_store s))
      \<and> (\<forall>r. entry_of (q_store s) (qe_owner (sn_e k)) = Some r \<longrightarrow> qr_gen r = sn_gen k \<longrightarrow> qr_e r = sn_e k \<and> qr_live r = sn_live k)"
    if "k \<in> set (qn_snapshot (q_store s))" for k
  proof -
    have e: "entry_of (q_store s) (qe_owner (sn_e k)) = Some \<lparr>qr_e = sn_e k, qr_gen = sn_gen k, qr_live = sn_live k\<rparr>"
      by (rule snapshot_current [OF assms(2) that])
    then have "unat (sn_gen k) \<le> unat (st_gen (q_store s))" using assms(1) unfolding gen_inv_def by (metis qn_rec.select_convs(2))
    then show ?thesis using e by (auto simp del: map_of_eq_Some_iff)
  qed
  then show ?thesis using assms(1) unfolding gen_inv_def by (simp add: ball_Un del: map_of_eq_Some_iff)
qed

lemma gen_inv_step:
  assumes g: "gen_inv n s" and n: "Suc n < 2 ^ 64" and i: "disk_inv sha W (q_store s)" and c: "call_owner_in W c"
  shows "gen_inv (Suc n) (qn_step sha c s)"
proof (cases "c = Q_look \<or> (\<exists>root real. c = Q_restart root real)")
  case True
  then show ?thesis
  proof (elim disjE exE)
    fix root real assume c: "c = Q_restart root real"
    have "length (st_files (q_store s)) \<le> n" using g by (simp add: gen_inv_def)
    then show ?thesis
      using n open_gen [of "st_files (q_store s)" sha root real] open_files_small [of sha root real "st_files (q_store s)"]
      unfolding c gen_inv_def by (auto simp: ran_def simp del: map_of_eq_Some_iff)
  qed (use gen_inv_look [OF g i] in simp)
next
  case False
  then have "store_move sha W (q_store s) (q_store (qn_step sha c s))" using step_move [OF c] by blast
  moreover have "set (q_snaps (qn_step sha c s)) \<subseteq> set (q_snaps s)" using False by (cases c) auto
  ultimately show ?thesis using gen_inv_move [OF g n] by blast
qed

section \<open>All of it, after any calls\<close>

definition qn_inv :: "(string \<Rightarrow> string) \<Rightarrow> string set \<Rightarrow> nat \<Rightarrow> qn_state \<Rightarrow> bool" where
  "qn_inv sha W n s \<longleftrightarrow> lock_inv (q_table s) \<and> disk_inv sha W (q_store s) \<and> gen_inv n s"

lemma lock_inv_acquire_nil: "lock_inv t \<Longrightarrow> lock_inv (snd (acquire w keys None t))"
  using lock_inv_reserve by (auto simp: acquire_def split: prod.splits sum.splits)

lemma lock_inv_restore: "lock_inv t \<Longrightarrow> lock_inv (snd (restore_one h s t))"
  using lock_inv_acquire_nil [of t "qe_owner (sn_e h)" "qe_keys (sn_e h)"]
  by (auto simp: restore_one_def reacquire_def split: option.splits prod.splits acquire_result.splits)

lemma lock_inv_retire: "lock_inv t \<Longrightarrow> lock_inv (snd (snd (snd (retire sha h human a rm s t))))"
  by (auto simp: retire_def Let_def release_owner_def split: option.splits prod.splits bool.splits)

lemma lock_inv_step:
  assumes i: "lock_inv (ls_table l)"
  shows "lock_inv (ls_table (lock_step c l))"
proof (cases c)
  case (Reserve w keys)
  then show ?thesis using i lock_inv_reserve [of "ls_table l" w keys] by (auto split: prod.splits sum.splits)
next
  case (Rename k v)
  then show ?thesis using i lock_inv_rename [of "ls_table l" v "ls_handles l ! k"] by (auto split: prod.splits)
qed (use i in \<open>auto simp: lock_inv_finish release_owner_def\<close>)

lemma qn_inv_step:
  assumes h: "good_hash sha W" and i: "qn_inv sha W n s" and n: "Suc n < 2 ^ 64" and c: "call_owner_in W c"
  shows "qn_inv sha W (Suc n) (qn_step sha c s)"
proof -
  have "lock_inv (q_table (qn_step sha c s))"
    using i lock_inv_step [of "q_locks s"] lock_inv_restore lock_inv_retire unfolding qn_inv_def
    by (cases c) (simp_all add: sweep_act_def lock_start_def lock_inv_new)
  then show ?thesis using i disk_inv_step [OF h _ c] gen_inv_step [OF _ n _ c] by (simp add: qn_inv_def)
qed

lemma qn_inv_run:
  "good_hash sha W \<Longrightarrow> qn_inv sha W n s \<Longrightarrow> n + length cs < 2 ^ 64 \<Longrightarrow> list_all (call_owner_in W) cs \<Longrightarrow> qn_inv sha W (n + length cs) (qn_run sha cs s)"
proof (induction cs arbitrary: n s)
  case (Cons c cs)
  then have "qn_inv sha W (Suc n) (qn_step sha c s)" by (intro qn_inv_step) auto
  then show ?case using Cons.IH [of "Suc n" "qn_step sha c s"] Cons.prems by simp
qed simp

text \<open>What a history of calls is allowed: a directory and calls that only meet the owners \<open>W\<close>, and fewer than \<open>2^64\<close> of them.\<close>

definition qn_history :: "(string \<Rightarrow> string) \<Rightarrow> string set \<Rightarrow> (string \<times> qn_file) list \<Rightarrow> qn_call list \<Rightarrow> bool" where
  "qn_history sha W files cs \<longleftrightarrow> good_hash sha W \<and> distinct (map fst files)
     \<and> list_all (\<lambda>f. case loads sha f of None \<Rightarrow> True | Some e \<Rightarrow> qe_owner e \<in> W) files
     \<and> list_all (call_owner_in W) cs \<and> length files + length cs < 2 ^ 64"

lemma qn_inv_start:
  assumes "qn_history sha W files cs"
  shows "qn_inv sha W (length files) (qn_start sha root real files)"
proof -
  have "disk_inv sha W (open_store sha root real files)"
    using assms by (intro disk_inv_open) (auto simp: qn_history_def list_all_iff split: option.splits)
  moreover have "gen_inv (length files) (qn_start sha root real files)"
    using assms open_gen [of files sha root real] open_files_small [of sha root real files]
    unfolding gen_inv_def qn_history_def by (auto simp: qn_start_def ran_def simp del: map_of_eq_Some_iff)
  ultimately show ?thesis by (simp add: qn_inv_def qn_start_def lock_start_def lock_inv_new)
qed

lemma qn_inv_history:
  "qn_history sha W files cs \<Longrightarrow> \<exists>n. qn_inv sha W n (qn_run sha cs (qn_start sha root real files))"
  using qn_inv_run [OF _ qn_inv_start, of sha W files cs cs root real] by (auto simp: qn_history_def)

section \<open>Holds\<close>

lemma exact_keys_iff:
  assumes "lock_inv t"
  shows "exact_keys e t \<longleftrightarrow> set (qe_keys e) = {k. holder_of t k = Some (qe_owner e)}"
proof -
  let ?have = "map fst (filter (\<lambda>kw. snd kw = qe_owner e) (tb_by_key t))"
  have h: "set ?have = {k. holder_of t k = Some (qe_owner e)}" using assms by (auto simp: lock_inv_def image_iff)
  have "exact_keys e t \<longleftrightarrow> card (set (qe_keys e)) = card (set ?have) \<and> set (qe_keys e) \<subseteq> set ?have"
    by (simp add: exact_keys_def held_keys_map_def Let_def length_remdups_card_conv list_all_iff subset_eq)
  also have "\<dots> \<longleftrightarrow> set (qe_keys e) = set ?have" by (metis List.finite_set card_subset_eq order_refl)
  finally show ?thesis using h by simp
qed

definition holds_keys :: "lock_table \<Rightarrow> string \<Rightarrow> string list \<Rightarrow> bool" where
  "holds_keys t w keys = (case hold_of t w of None \<Rightarrow> False | Some k \<Rightarrow> set (hk_keys k) = set keys)"

lemma holds_keys_holder: "lock_inv t \<Longrightarrow> holds_keys t w keys \<Longrightarrow> {k. holder_of t k = Some w} = set keys"
  by (auto simp: holds_keys_def lock_inv_def agree_keys simp del: map_of_eq_Some_iff split: option.splits)

text \<open>
  The calls that let the hold of \<open>w\<close> go: those made with that very hold (its release, its rename, the end
  of an acquisition whose \<open>record\<close> failed), not with another hold of the same owner, and \<open>ReleaseOwner\<close>.
\<close>

definition very_hold :: "string \<Rightarrow> nat \<Rightarrow> lock_state \<Rightarrow> bool" where
  "very_hold w i l = (case hold_of (ls_table l) w of None \<Rightarrow> False
     | Some k \<Rightarrow> i < length (ls_handles l) \<and> ls_handles l ! i = \<lparr>hd_owner = w, hd_gen = hk_gen k\<rparr>)"

definition runner_of :: "string \<Rightarrow> lock_call \<Rightarrow> lock_state \<Rightarrow> bool" where
  "runner_of w c l = (case c of Reserve _ _ \<Rightarrow> False | Finish _ i r \<Rightarrow> very_hold w i l \<and> r \<noteq> RecordOk | Release i \<Rightarrow> very_hold w i l
     | Rename i _ \<Rightarrow> very_hold w i l | ReleaseOwner v \<Rightarrow> v = w)"

lemma hold_release_other: "lock_inv t \<Longrightarrow> hd_owner h \<noteq> w \<Longrightarrow> hold_of (hold_release h t) w = hold_of t w"
  by (simp add: hold_release_def release_locked_tables)

lemma finish_other: "lock_inv t \<Longrightarrow> hd_owner h \<noteq> w \<Longrightarrow> hold_of (snd (acquire_finish v h r t)) w = hold_of t w"
  by (simp add: acquire_finish_def hold_release_other)

lemma reserve_other: "hold_of t w \<noteq> None \<Longrightarrow> hold_of (snd (acquire_reserve v keys t)) w = hold_of t w"
  by (cases "acquire_reserve v keys t") (auto elim!: acquire_reserve_cases simp: update_conv' simp del: map_of_eq_Some_iff)

lemma rename_other: "hold_of t w \<noteq> None \<Longrightarrow> hd_owner h \<noteq> w \<Longrightarrow> rename v h t = (e, h', t') \<Longrightarrow> hold_of t' w = hold_of t w"
  by (auto elim!: rename_cases simp: update_conv' delete_conv' simp del: map_of_eq_Some_iff)

text \<open>A hold that is current stays as it is through a call with another hold, be it one of the same owner.\<close>

lemma finish_not_own:
  assumes "lock_inv t" "hold_of t w = Some k" "h \<noteq> \<lparr>hd_owner = w, hd_gen = hk_gen k\<rparr>"
  shows "hold_of (hold_release h t) w = Some k" "hold_of (snd (acquire_finish v h r t)) w = Some k"
    "rename v h t = (e, h', t') \<Longrightarrow> hold_of t' w = Some k"
proof -
  have n: "\<not> is_current t h" if "hd_owner h = w" using assms(2,3) that by (cases h) (auto simp: is_current_def simp del: map_of_eq_Some_iff)
  show r: "hold_of (hold_release h t) w = Some k"
    using hold_release_other [OF assms(1), of h w] n assms(2) by (cases "hd_owner h = w") (auto simp: hold_release_def simp del: map_of_eq_Some_iff)
  then show "hold_of (snd (acquire_finish v h r t)) w = Some k" using assms(2) by (auto simp: acquire_finish_def simp del: map_of_eq_Some_iff)
  assume "rename v h t = (e, h', t')"
  then show "hold_of t' w = Some k"
    using rename_other [of t w h v e h' t'] assms(2,3) n
    by (cases "hd_owner h = w"; cases h) (auto simp: rename_def simp del: map_of_eq_Some_iff split: if_splits option.splits)
qed

lemma finish_ok_same: "hold_of (snd (acquire_finish v h RecordOk t)) w = hold_of t w"
  by (simp add: acquire_finish_def)

lemma lock_step_other:
  assumes li: "lock_inv (ls_table l)" and k: "hold_of (ls_table l) w = Some k" and no: "\<not> runner_of w c l"
  shows "hold_of (ls_table (lock_step c l)) w = Some k"
proof -
  have other: "ls_handles l ! i \<noteq> \<lparr>hd_owner = w, hd_gen = hk_gen k\<rparr>" if "\<not> very_hold w i l" "i < length (ls_handles l)" for i
    using that k by (simp add: very_hold_def)
  show ?thesis
  proof (cases c)
    case (Reserve v keys)
    then show ?thesis using reserve_other [of "ls_table l" w v keys] k by (auto split: prod.splits sum.splits)
  next
    case (Finish v i r)
    then show ?thesis
      using no k finish_ok_same [of v "ls_handles l ! i" "ls_table l" w] finish_not_own(2) [OF li k other, of i v r]
      by (cases "r = RecordOk") (auto simp: runner_of_def)
  next
    case (Release i)
    then show ?thesis using no k finish_not_own(1) [OF li k other, of i] by (auto simp: runner_of_def)
  next
    case (Rename i v)
    then show ?thesis
      using no k finish_not_own(3) [OF li k other, of i v] by (auto simp: runner_of_def split: prod.splits)
  next
    case (ReleaseOwner v)
    then show ?thesis using no k li by (auto simp: runner_of_def release_owner_def release_locked_tables)
  qed
qed

lemma restore_other: "hold_of t w \<noteq> None \<Longrightarrow> hold_of (snd (restore_one h s t)) w = hold_of t w"
  using reserve_other [of t w "qe_owner (sn_e h)" "qe_keys (sn_e h)"]
  by (auto simp: restore_one_def reacquire_def acquire_def split: option.splits prod.splits sum.splits)

lemma retire_other:
  assumes "lock_inv t" "qe_owner (sn_e h) \<noteq> w" "retire sha h human a rm s t = (x, d, s', t')"
  shows "hold_of t' w = hold_of t w \<and> entry_of s' w = entry_of s w"
  using assms
  by (auto simp: retire_def Let_def remove_marker_def release_owner_def release_locked_tables delete_conv' split: option.splits if_splits)

lemma retire_unsafe:
  "safe_dir (st_work_root s) (qe_dir (qr_e r)) a = False \<Longrightarrow> entry_of s (qe_owner (sn_e h)) = Some r \<Longrightarrow> snd (snd (retire sha h False a rm s t)) = (s, t)"
  by (simp add: retire_def Let_def)

text \<open>The calls that may end the quarantine of \<open>w\<close>: proof that its unit is gone (with a job directory that can go), a person, those that let its hold go, a new process.\<close>

definition lets_go :: "string \<Rightarrow> qn_call \<Rightarrow> qn_state \<Rightarrow> bool" where
  "lets_go w c s = (case c of Q_lock l \<Rightarrow> runner_of w l (q_locks s)
     | Q_sweep h g a rm \<Rightarrow> qe_owner (sn_e h) = w \<and> qe_unit (sn_e h) \<noteq> '''' \<and> g = Unit_gone \<and> safe_dir (st_work_root (q_store s)) (qe_dir (sn_e h)) a
     | Q_clear h a rm \<Rightarrow> qe_owner (sn_e h) = w
     | Q_restart _ _ \<Rightarrow> True | _ \<Rightarrow> False)"

text \<open>\<open>w\<close> is quarantined and holds the keys of its entry.\<close>

definition kept :: "string \<Rightarrow> string list \<Rightarrow> qn_state \<Rightarrow> bool" where
  "kept w keys s = (case entry_of (q_store s) w of None \<Rightarrow> False
     | Some r \<Rightarrow> \<not> qr_live r \<and> set (qe_keys (qr_e r)) = set keys \<and> holds_keys (q_table s) w keys)"

lemma add_kept:
  assumes i: "lock_inv t" and e: "entry_of s w = Some r" "\<not> qr_live r" "set (qe_keys (qr_e r)) = set keys" "holds_keys t w keys"
  shows "\<exists>r'. entry_of (snd (qn_add sha now x wr t s)) w = Some r' \<and> \<not> qr_live r' \<and> set (qe_keys (qr_e r')) = set keys"
  using assms exact_keys_iff [OF i] holds_keys_holder [OF i e(4)]
  by (auto simp: qn_add_def holds_exactly_def install_def Let_def update_conv' simp del: map_of_eq_Some_iff dest!: normalize_cases split: sum.splits option.splits)

lemma begin_kept: "entry_of s w = Some r \<Longrightarrow> entry_of (snd (qn_begin sha now x wr t s)) w = Some r"
  by (auto simp: qn_begin_def install_def Let_def update_conv' simp del: map_of_eq_Some_iff split: sum.splits option.splits)

lemma settle_kept: "entry_of s w = Some r \<Longrightarrow> \<not> qr_live r \<Longrightarrow> entry_of (settle v s) w = Some r"
  by (auto simp: settle_def unlive_def Let_def update_conv' simp del: map_of_eq_Some_iff split: option.splits)

lemma discard_kept: "entry_of s w = Some r \<Longrightarrow> \<not> qr_live r \<Longrightarrow> entry_of (snd (discard sha v rm s)) w = Some r"
  by (auto simp: discard_def unlive_def remove_marker_def Let_def update_conv' delete_conv' simp del: map_of_eq_Some_iff split: option.splits)

lemma sweep_kept:
  assumes i: "qn_inv sha W n s" and e: "entry_of (q_store s) w = Some r" and h: "h \<in> set (q_snaps s)"
    and l: "\<not> lets_go w (Q_sweep h g a rm) s" and x: "sweep_act sha h g a rm (q_store s) (q_table s) = (x, d, st, t)"
  shows "entry_of st w = Some r \<and> hold_of t w = hold_of (q_table s) w"
proof (cases "qe_owner (sn_e h) = w \<and> qr_gen r = sn_gen h")
  case True
  then have "qr_e r = sn_e h" using i e h unfolding qn_inv_def gen_inv_def by blast
  then have "\<not> safe_dir (st_work_root (q_store s)) (qe_dir (qr_e r)) a \<or> qe_unit (sn_e h) = '''' \<or> g \<noteq> Unit_gone"
    using l True by (auto simp: lets_go_def)
  then show ?thesis using x e True by (auto simp: sweep_act_def retire_def Let_def simp del: map_of_eq_Some_iff split: if_splits)
next
  case False
  then consider "qe_owner (sn_e h) \<noteq> w" | "qe_owner (sn_e h) = w" "qr_gen r \<noteq> sn_gen h" by blast
  then show ?thesis
  proof cases
    case 1
    then show ?thesis
      using x e i retire_other [of "q_table s" h w sha False a rm "q_store s"] by (auto simp: sweep_act_def qn_inv_def simp del: map_of_eq_Some_iff split: if_splits)
  next
    case 2
    then show ?thesis using x e by (auto simp: sweep_act_def retire_def simp del: map_of_eq_Some_iff split: if_splits)
  qed
qed

section \<open>Putting the holds back\<close>

abbreviation snap_owner :: "qn_snap \<Rightarrow> string" where
  "snap_owner h \<equiv> qe_owner (sn_e h)"

abbreviation snap_keys :: "qn_snap \<Rightarrow> string list" where
  "snap_keys h \<equiv> qe_keys (sn_e h)"

lemma reserve_free:
  assumes "w \<noteq> []" "validate_keys keys = None" "hold_of t w = None" "\<forall>k \<in> set keys. holder_of t k = None"
  obtains h t' where "acquire_reserve w keys t = (Inr h, t')" "holder_of t' = (\<lambda>k. if k \<in> set keys then Some w else holder_of t k)"
    "\<And>v. v \<noteq> w \<Longrightarrow> hold_of t' v = hold_of t v"
proof -
  have n: "normalize keys = Inr (sort keys)"
    using assms(2) by (auto simp: validate_keys_def normalize_def split: sum.splits option.splits)
  have "busy_list (sort keys) t = []" using assms(4) by (simp add: busy_list_Nil_iff)
  then show ?thesis using that assms(1,3) n by (auto simp: acquire_reserve_def Let_def map_of_fold_update [abs_def] update_conv' fun_eq_iff)
qed

text \<open>An entry that is as the snapshot saw it, not running, and whose keys are well formed.\<close>

definition restorable :: "qn_store \<Rightarrow> qn_snap \<Rightarrow> bool" where
  "restorable st h \<longleftrightarrow> entry_of st (snap_owner h) = Some \<lparr>qr_e = sn_e h, qr_gen = sn_gen h, qr_live = False\<rparr>
     \<and> validate_keys (snap_keys h) = None \<and> snap_owner h \<noteq> []"

lemma restore_one_free:
  assumes "restorable st h" "hold_of t (snap_owner h) = None" "\<forall>k \<in> set (snap_keys h). holder_of t k = None"
  obtains t' where "restore_one h st t = (None, t')" "holder_of t' = (\<lambda>k. if k \<in> set (snap_keys h) then Some (snap_owner h) else holder_of t k)"
    "\<And>v. v \<noteq> snap_owner h \<Longrightarrow> hold_of t' v = hold_of t v"
proof -
  have w: "snap_owner h \<noteq> []" "validate_keys (snap_keys h) = None" using assms(1) by (auto simp: restorable_def)
  obtain k t' where "acquire_reserve (snap_owner h) (snap_keys h) t = (Inr k, t')"
    "holder_of t' = (\<lambda>k. if k \<in> set (snap_keys h) then Some (snap_owner h) else holder_of t k)" "\<And>v. v \<noteq> snap_owner h \<Longrightarrow> hold_of t' v = hold_of t v"
    using reserve_free [OF w assms(2,3)] by blast
  then show ?thesis using that assms(1) by (simp add: restore_one_def reacquire_def acquire_def restorable_def)
qed

lemma restore_all:
  assumes "\<forall>h \<in> set hs. restorable (q_store s) h" "distinct (map snap_owner hs)" "set hs \<subseteq> set (q_snaps s)"
    and "\<forall>h \<in> set hs. hold_of (q_table s) (snap_owner h) = None \<and> (\<forall>k \<in> set (snap_keys h). holder_of (q_table s) k = None)"
    and "\<forall>h \<in> set hs. \<forall>h' \<in> set hs. snap_owner h \<noteq> snap_owner h' \<longrightarrow> set (snap_keys h) \<inter> set (snap_keys h') = {}"
  shows "fst (restore_loop sha (\<lambda>_. []) hs s) = [] \<and>
    (\<forall>k w. holder_of (q_table (snd (restore_loop sha (\<lambda>_. []) hs s))) k = Some w
       \<longleftrightarrow> holder_of (q_table s) k = Some w \<or> (\<exists>h \<in> set hs. snap_owner h = w \<and> k \<in> set (snap_keys h)))"
  using assms
proof (induction hs arbitrary: s)
  case (Cons h hs)
  have r: "restorable (q_store s) h" "hold_of (q_table s) (snap_owner h) = None" "\<forall>k \<in> set (snap_keys h). holder_of (q_table s) k = None"
    using Cons.prems(1,4) by (meson list.set_intros(1))+
  obtain t' where t: "restore_one h (q_store s) (q_table s) = (None, t')"
    "holder_of t' = (\<lambda>k. if k \<in> set (snap_keys h) then Some (snap_owner h) else holder_of (q_table s) k)"
    "\<And>v. v \<noteq> snap_owner h \<Longrightarrow> hold_of t' v = hold_of (q_table s) v"
    using restore_one_free [OF r] by blast
  let ?s = "set_table t' s"
  have step: "qn_step sha (Q_restore h) s = ?s" using Cons.prems(3) t(1) by simp
  have dis: "set (snap_keys h') \<inter> set (snap_keys h) = {}" if "h' \<in> set hs" for h'
  proof -
    have "snap_owner h' \<noteq> snap_owner h" using that Cons.prems(2) by (force simp: image_iff)
    then show ?thesis using that Cons.prems(5) by (meson list.set_intros)
  qed
  have "fst (restore_loop sha (\<lambda>_. []) hs ?s) = [] \<and> (\<forall>k w. holder_of (q_table (snd (restore_loop sha (\<lambda>_. []) hs ?s))) k = Some w
       \<longleftrightarrow> holder_of (q_table ?s) k = Some w \<or> (\<exists>h \<in> set hs. snap_owner h = w \<and> k \<in> set (snap_keys h)))"
  proof (rule Cons.IH)
    show "\<forall>h \<in> set hs. hold_of (q_table ?s) (snap_owner h) = None \<and> (\<forall>k \<in> set (snap_keys h). holder_of (q_table ?s) k = None)"
    proof
      fix k assume k: "k \<in> set hs"
      then have "snap_owner k \<noteq> snap_owner h" using Cons.prems(2) by (force simp: image_iff)
      moreover have "hold_of (q_table s) (snap_owner k) = None" "\<forall>x \<in> set (snap_keys k). holder_of (q_table s) x = None"
        using k Cons.prems(4) by (meson list.set_intros(2))+
      ultimately show "hold_of (q_table ?s) (snap_owner k) = None \<and> (\<forall>x \<in> set (snap_keys k). holder_of (q_table ?s) x = None)"
        using t(2,3) dis [OF k] by (simp add: disjoint_iff del: map_of_eq_None_iff)
    qed
  qed (use Cons.prems in auto)
  moreover have "holder_of (q_table ?s) k = Some w \<longleftrightarrow> holder_of (q_table s) k = Some w \<or> (snap_owner h = w \<and> k \<in> set (snap_keys h))" for k w
    using t(2) Cons.prems(4) by (auto simp del: map_of_eq_None_iff map_of_eq_Some_iff)
  ultimately show ?case using t(1) step by (simp add: Let_def case_prod_beta del: qn_step.simps map_of_eq_Some_iff)
qed simp

lemma reopen_entries:
  assumes h: "good_hash sha W" and i: "disk_inv sha W st"
  shows "map_option qr_e (entry_of (open_store sha root' real' (st_files st)) w) = map_option qr_e (entry_of st w)"
proof -
  have d: "distinct (map fst (st_files st))" and m: "marked sha W (entry_of st) (file_of st)"
    using i by (auto simp: disk_inv_def)
  have "qe_owner e = w \<and> (\<exists>f \<in> set (st_files st). loads sha f = Some e) \<longleftrightarrow> map_option qr_e (entry_of st w) = Some e" (is "?l \<longleftrightarrow> ?r") for e
  proof
    assume ?l
    then obtain n f where "(n, f) \<in> set (st_files st)" "loads sha (n, f) = Some e" "qe_owner e = w" by auto
    then have "file_of st (marker_name sha w) = Some (Marker e)" "loads sha (marker_name sha w, Marker e) = Some e" "qe_owner e = w"
      using d loads_SomeD by auto
    then show ?r using m unfolding marked_def by blast
  next
    assume ?r
    then obtain r where r: "entry_of st w = Some r" "e = qr_e r" by (auto simp del: map_of_eq_Some_iff)
    have e: "w \<in> W" "qe_owner e = w" "qn_validate sha e = None" "file_of st (marker_name sha w) = Some (Marker e)"
      using marked_entryD [OF m r(1)] r(2) by simp_all
    have "loads sha (marker_name sha w, Marker e) = Some e" using marker_loads [OF h, of e] e(1,2,3) by simp
    then show ?l using e(2) map_of_SomeD [OF e(4)] by auto
  qed
  then show ?thesis using open_entry [OF d, of sha root' real' w] by (metis option.exhaust)
qed

lemma snapshot_owners:
  assumes "disk_inv sha W s"
  shows "distinct (map snap_owner (qn_snapshot s))"
proof -
  let ?f = "\<lambda>wr. \<lparr>sn_e = qr_e (snd wr), sn_gen = qr_gen (snd wr), sn_live = qr_live (snd wr)\<rparr>"
  have "qe_owner (qr_e (snd wr)) = fst wr" if "wr \<in> set (st_entries s)" for wr
  proof -
    have "entry_of s (fst wr) = Some (snd wr)" using that assms by (simp add: disk_inv_def)
    then show ?thesis by (rule disk_inv_owner [OF assms])
  qed
  then have "map snap_owner (map ?f (st_entries s)) = map fst (st_entries s)" by simp
  moreover have "mset (map snap_owner (qn_snapshot s)) = mset (map snap_owner (map ?f (st_entries s)))"
    by (simp only: qn_snapshot_def mset_map mset_sort)
  ultimately have "mset (map snap_owner (qn_snapshot s)) = mset (map fst (st_entries s))" by metis
  from mset_eq_imp_distinct_iff [OF this] show ?thesis using assms by (simp add: disk_inv_def)
qed

lemma restart_snapshot:
  assumes h: "good_hash sha W" and i: "disk_inv sha W st" and k: "k \<in> set (qn_snapshot (open_store sha root real (st_files st)))"
  obtains r where "entry_of st (snap_owner k) = Some r" "qr_e r = sn_e k"
    "entry_of (open_store sha root real (st_files st)) (snap_owner k) = Some \<lparr>qr_e = sn_e k, qr_gen = sn_gen k, qr_live = False\<rparr>"
proof -
  let ?st = "open_store sha root real (st_files st)"
  have "disk_inv sha W ?st" using disk_inv_open [OF h _ disk_inv_loads [OF i]] i by (simp add: disk_inv_def)
  then have e: "entry_of ?st (snap_owner k) = Some \<lparr>qr_e = sn_e k, qr_gen = sn_gen k, qr_live = sn_live k\<rparr>"
    using snapshot_current k by blast
  then have "\<not> sn_live k" using open_not_live by fastforce
  moreover have "map_option qr_e (entry_of st (snap_owner k)) = Some (sn_e k)" using reopen_entries [OF h i, of root real "snap_owner k"] e by simp
  ultimately show ?thesis using that e by (auto simp del: map_of_eq_Some_iff)
qed

lemma restart_look:
  assumes h: "good_hash sha W" and i: "disk_inv sha W st" and r: "entry_of st w = Some r"
  shows "\<exists>k \<in> set (qn_snapshot (open_store sha root real (st_files st))). snap_owner k = w \<and> qr_e r = sn_e k"
proof -
  let ?st = "open_store sha root real (st_files st)"
  have io: "disk_inv sha W ?st" using disk_inv_open [OF h _ disk_inv_loads [OF i]] i by (simp add: disk_inv_def)
  obtain r' where r': "entry_of ?st w = Some r'" "qr_e r' = qr_e r" using reopen_entries [OF h i, of root real w] r by auto
  have "qe_owner (qr_e r') = w" by (rule disk_inv_owner [OF io r'(1)])
  moreover have "\<lparr>sn_e = qr_e r', sn_gen = qr_gen r', sn_live = qr_live r'\<rparr> \<in> set (qn_snapshot ?st)"
    using map_of_SomeD [OF r'(1)] snapshot_entry by blast
  ultimately show ?thesis using r'(2) by (metis qn_snap.select_convs(1))
qed

section \<open>An example\<close>

text \<open>Two jobs of one origin, the first of them settled without proof that its unit is gone, the second still running.\<close>

definition sample_sha :: "string \<Rightarrow> string" where
  "sample_sha w = (if w = ''a/j1'' then ''11'' else ''22'')"

definition sample_qn :: "string \<Rightarrow> string \<Rightarrow> qn_entry" where
  "sample_qn i key = \<lparr>qe_owner = ''a/'' @ i, qe_job_id = i, qe_origin = ''a'', qe_claim_id = ''c'' @ i, qe_dir = ''/w/'' @ i, qe_keys = [key],
     qe_unit = ''wwd-'' @ i, qe_since = Some 5\<rparr>"

definition sample_q_calls :: "qn_call list" where
  "sample_q_calls = [Q_lock (Reserve ''a/j1'' [''db'']), Q_lock (Reserve ''a/j2'' [''gpu'']), Q_begin 7 (sample_qn ''j1'' ''db'') True,
     Q_begin 7 (sample_qn ''j2'' ''gpu'') True, Q_settle ''a/j1'', Q_look]"

abbreviation sample_q_state :: qn_state where
  "sample_q_state \<equiv> qn_run sample_sha sample_q_calls (qn_start sample_sha ''/w'' (Some ''/w'') [])"

lemma sample_history: "qn_history sample_sha {''a/j1'', ''a/j2''} [] sample_q_calls"
proof -
  have "good_hash sample_sha {''a/j1'', ''a/j2''}" by (simp add: good_hash_def marker_name_def sample_sha_def is_hex_def is_digit_def byte_of_def)
  then show ?thesis by (simp add: qn_history_def sample_q_calls_def call_owner_in_def sample_qn_def)
qed

lemma sample_q_state_is:
  "sample_q_state = \<lparr>q_store = \<lparr>st_work_root = ''/w'',
       st_files = [(''11.json'', Marker (sample_qn ''j1'' ''db'')), (''22.json'', Marker (sample_qn ''j2'' ''gpu''))],
       st_entries = [(''a/j1'', \<lparr>qr_e = sample_qn ''j1'' ''db'', qr_gen = 3, qr_live = False\<rparr>), (''a/j2'', \<lparr>qr_e = sample_qn ''j2'' ''gpu'', qr_gen = 2, qr_live = True\<rparr>)],
       st_gen = 3\<rparr>,
     q_locks = \<lparr>ls_table = \<lparr>tb_by_key = [(''db'', ''a/j1''), (''gpu'', ''a/j2'')],
         tb_by_hold = [(''a/j1'', \<lparr>hk_keys = [''db''], hk_gen = 1\<rparr>), (''a/j2'', \<lparr>hk_keys = [''gpu''], hk_gen = 2\<rparr>)], tb_gen = 2\<rparr>,
       ls_handles = [\<lparr>hd_owner = ''a/j1'', hd_gen = 1\<rparr>, \<lparr>hd_owner = ''a/j2'', hd_gen = 2\<rparr>]\<rparr>,
     q_snaps = [\<lparr>sn_e = sample_qn ''j1'' ''db'', sn_gen = 3, sn_live = False\<rparr>, \<lparr>sn_e = sample_qn ''j2'' ''gpu'', sn_gen = 2, sn_live = True\<rparr>]\<rparr>"
  by code_simp

section \<open>Properties\<close>

text \<open>
  C22: whatever was called, and whenever the process is replaced, a new process that opens the marker
  directory finds exactly the entries the old one had: none is lost and none comes back.
\<close>

theorem restart_keeps_every_entry:
  assumes "qn_history sha W files cs" and "s = qn_run sha cs (qn_start sha root real files)"
  shows "map_option qr_e (entry_of (open_store sha root' real' (st_files (q_store s))) w) = map_option qr_e (entry_of (q_store s) w)"
  using reopen_entries [of sha W "q_store s"] qn_inv_history [OF assms(1)] assms by (auto simp: qn_inv_def qn_history_def)

theorem restart_keeps_every_entry_witness:
  "qn_history sample_sha {''a/j1'', ''a/j2''} [] sample_q_calls
   \<and> map_option qr_e (entry_of (open_store sample_sha ''/w'' (Some ''/w'') (st_files (q_store sample_q_state))) ''a/j1'') = Some (sample_qn ''j1'' ''db'')"
  using restart_keeps_every_entry [OF sample_history refl, of "''/w''" "Some ''/w''" "''/w''" "Some ''/w''" "''a/j1''"] sample_history
  by (simp add: sample_q_state_is)

text \<open>
  C23: a call that works from a snapshot (\<open>Restore\<close>, \<open>Sweep\<close>, \<open>Clear\<close>), taken however long before,
  changes nothing unless the owner's entry is still the very one the snapshot saw, through no
  transition since, and not running; so a running job is never swept or cleared, and an entry that
  was retired, discarded or settled is never acted on by a call that looked before.
\<close>

theorem acts_only_on_what_it_saw:
  assumes "qn_history sha W files cs" and "s = qn_run sha cs (qn_start sha root real files)" and "h \<in> set (q_snaps s)"
    and "c \<in> {Q_restore h, Q_sweep h g a rm, Q_clear h a rm}" and "qn_step sha c s \<noteq> s"
  shows "entry_of (q_store s) (qe_owner (sn_e h)) = Some \<lparr>qr_e = sn_e h, qr_gen = sn_gen h, qr_live = False\<rparr> \<and> \<not> sn_live h"
proof -
  obtain r where r: "entry_of (q_store s) (qe_owner (sn_e h)) = Some r" "qr_gen r = sn_gen h" "\<not> qr_live r"
  proof (rule ccontr)
    assume none: "\<not> thesis"
    then have "restore_one h (q_store s) (q_table s) = (None, q_table s)" using that by (auto simp: restore_one_def simp del: map_of_eq_Some_iff split: option.splits)
    moreover have "apply_retire (retire sha h human a rm (q_store s) (q_table s)) s = s" for human
      using none that by (auto simp: retire_def apply_retire_def simp del: map_of_eq_Some_iff split: option.splits)
    ultimately have "qn_step sha c s = s"
      using assms(4) by (cases "sn_live h \<or> qe_unit (sn_e h) = '''' \<or> g \<noteq> Unit_gone") (auto simp: sweep_act_def apply_retire_def [of "(Inr False, None, q_store s, q_table s)"])
    then show False using assms(5) by simp
  qed
  obtain n where "gen_inv n s" using qn_inv_history [OF assms(1)] assms(2) by (auto simp: qn_inv_def)
  then have "qr_e r = sn_e h \<and> qr_live r = sn_live h" using r(1,2) assms(3) unfolding gen_inv_def by blast
  then show ?thesis using r by (cases r) simp
qed

theorem acts_only_on_what_it_saw_witness:
  "let h = \<lparr>sn_e = sample_qn ''j1'' ''db'', sn_gen = 3, sn_live = False\<rparr>; c = Q_sweep h Unit_gone \<lparr>da_lstat = Not_there, da_real = None\<rparr> Removed in
   qn_step sample_sha c sample_q_state \<noteq> sample_q_state \<and> entry_of (q_store sample_q_state) ''a/j1'' = Some \<lparr>qr_e = sn_e h, qr_gen = 3, qr_live = False\<rparr>"
proof -
  let ?h = "\<lparr>sn_e = sample_qn ''j1'' ''db'', sn_gen = 3, sn_live = False\<rparr>"
  let ?c = "Q_sweep ?h Unit_gone \<lparr>da_lstat = Not_there, da_real = None\<rparr> Removed"
  have "map fst (st_entries (q_store (qn_step sample_sha ?c sample_q_state))) = [''a/j2'']" unfolding sample_q_state_is by code_simp
  moreover have "map fst (st_entries (q_store sample_q_state)) = [''a/j1'', ''a/j2'']" unfolding sample_q_state_is by simp
  ultimately have n: "qn_step sample_sha ?c sample_q_state \<noteq> sample_q_state" by (metis list.inject not_Cons_self2)
  have o: "qe_owner (sample_qn ''j1'' ''db'') = ''a/j1''" by (simp add: sample_qn_def)
  have "?h \<in> set (q_snaps sample_q_state)" by (simp add: sample_q_state_is)
  then show ?thesis using acts_only_on_what_it_saw [OF sample_history refl _ _ n, of ?h] n o by (simp add: Let_def)
qed

text \<open>
  C24: a quarantined job that holds its keys keeps its entry and exactly those keys through every
  call by anybody, other jobs' locks, late snapshots and late calls with an earlier hold of the same
  owner included, until its unit is proven gone and its directory can go, a person clears it, that very
  hold (this owner and this generation) is released, renamed or ended by a failed acquisition, its owner
  is released as a whole by \<open>ReleaseOwner\<close>, or the process is replaced.
\<close>

theorem quarantined_keeps_its_keys:
  assumes "qn_history sha W files cs" and "s = qn_run sha cs (qn_start sha root real files)"
    and "kept w keys s" and "\<not> lets_go w c s"
  shows "kept w keys (qn_step sha c s)"
proof -
  obtain n where i: "qn_inv sha W n s" using qn_inv_history [OF assms(1)] assms(2) by blast
  then have li: "lock_inv (q_table s)" by (simp add: qn_inv_def)
  obtain r where r: "entry_of (q_store s) w = Some r" "\<not> qr_live r" "set (qe_keys (qr_e r)) = set keys" "holds_keys (q_table s) w keys"
    using assms(3) by (auto simp: kept_def simp del: map_of_eq_Some_iff split: option.splits)
  obtain k where k: "hold_of (q_table s) w = Some k" using r(4) by (auto simp: holds_keys_def split: option.splits)
  then have hold: "hold_of (q_table s) w \<noteq> None" by simp
  have keep: "kept w keys s'" if "entry_of (q_store s') w = Some r" "hold_of (q_table s') w = hold_of (q_table s) w" for s'
    using that r by (simp add: kept_def holds_keys_def)
  show ?thesis
  proof (cases c)
    case (Q_lock l)
    then show ?thesis using assms(4) r(1) k lock_step_other [OF li k, of l] by (intro keep) (auto simp: lets_go_def)
  next
    case (Q_add now e wr)
    then show ?thesis using add_kept [OF li r, of sha now e wr] r(4) by (auto simp: kept_def simp del: map_of_eq_Some_iff)
  next
    case (Q_sweep h g a rm)
    then show ?thesis
      using assms(4) keep [OF r(1) refl] sweep_kept [OF i r(1), of h g a rm] by (cases "sweep_act sha h g a rm (q_store s) (q_table s)") (auto intro!: keep)
  next
    case (Q_clear h a rm)
    then have "qe_owner (sn_e h) \<noteq> w" using assms(4) by (simp add: lets_go_def)
    then show ?thesis
      using Q_clear keep [OF r(1) refl] r(1) retire_other [OF li, of h w sha True a rm "q_store s"]
      by (cases "retire sha h True a rm (q_store s) (q_table s)") (auto intro!: keep)
  next
    case (Q_restart x y)
    then show ?thesis using assms(4) by (simp add: lets_go_def)
  qed (use r in \<open>auto intro!: keep simp: begin_kept settle_kept discard_kept restore_other [OF hold] simp del: map_of_eq_Some_iff\<close>)
qed

theorem quarantined_keeps_its_keys_witness:
  "let h = \<lparr>sn_e = sample_qn ''j1'' ''db'', sn_gen = 3, sn_live = False\<rparr>; c = Q_sweep h Cannot_tell \<lparr>da_lstat = A_dir, da_real = Some ''/w/j1''\<rparr> Removed in
   kept ''a/j1'' [''db''] sample_q_state \<and> kept ''a/j1'' [''db''] (qn_step sample_sha c sample_q_state)"
proof -
  have k: "kept ''a/j1'' [''db''] sample_q_state" unfolding sample_q_state_is by code_simp
  let ?c = "Q_sweep \<lparr>sn_e = sample_qn ''j1'' ''db'', sn_gen = 3, sn_live = False\<rparr> Cannot_tell \<lparr>da_lstat = A_dir, da_real = Some ''/w/j1''\<rparr> Removed"
  have "\<not> lets_go ''a/j1'' ?c sample_q_state" by (simp add: lets_go_def)
  from quarantined_keeps_its_keys [OF sample_history refl k this] show ?thesis using k unfolding Let_def by blast
qed

text \<open>
  C25: when every entry's owner holds exactly its keys and the process is replaced at that moment,
  opening the directory and restoring, before anything else takes a lock, gives no error and every
  key back to the owner that had it.
\<close>

theorem restore_gives_the_keys_back:
  assumes "qn_history sha W files cs" and "s = qn_run sha cs (qn_start sha root real files)"
    and "\<And>w r. entry_of (q_store s) w = Some r \<Longrightarrow> holds_keys (q_table s) w (qe_keys (qr_e r)) \<and> validate_keys (qe_keys (qr_e r)) = None"
    and "restore sha (\<lambda>_. []) (qn_step sha (Q_restart root' real') s) = (errs, s')"
  shows "errs = [] \<and> (\<forall>w r k. entry_of (q_store s) w = Some r \<longrightarrow> (holder (q_table s') k = Some w \<longleftrightarrow> k \<in> set (qe_keys (qr_e r))))"
proof -
  let ?st = "open_store sha root' real' (st_files (q_store s))"
  obtain n where n: "qn_inv sha W n s" using qn_inv_history [OF assms(1)] assms(2) by blast
  have h: "good_hash sha W" using assms(1) by (simp add: qn_history_def)
  have i: "disk_inv sha W (q_store s)" and li: "lock_inv (q_table s)" using n by (auto simp: qn_inv_def)
  have io: "disk_inv sha W ?st" using disk_inv_open [OF h _ disk_inv_loads [OF i]] i by (simp add: disk_inv_def)
  have snap: "restorable ?st k \<and> (\<exists>r. entry_of (q_store s) (snap_owner k) = Some r \<and> qr_e r = sn_e k)" if k: "k \<in> set (qn_snapshot ?st)" for k
  proof -
    obtain r where r: "entry_of (q_store s) (snap_owner k) = Some r" "qr_e r = sn_e k"
      "entry_of ?st (snap_owner k) = Some \<lparr>qr_e = sn_e k, qr_gen = sn_gen k, qr_live = False\<rparr>" using restart_snapshot [OF h i k] .
    moreover have "qn_validate sha (sn_e k) = None"
      using marked_entryD(3) [of sha W "entry_of (q_store s)" "file_of (q_store s)", OF _ r(1)] i r(2) by (simp add: disk_inv_def)
    ultimately show ?thesis using assms(3) [OF r(1)] by (auto simp: restorable_def qn_validate_def simp del: map_of_eq_Some_iff split: if_splits)
  qed
  have keys: "{x. holder_of (q_table s) x = Some (snap_owner k)} = set (snap_keys k)" if "k \<in> set (qn_snapshot ?st)" for k
    using snap [OF that] assms(3) holds_keys_holder [OF li] by metis
  have all: "fst (restore_loop sha (\<lambda>_. []) (qn_snapshot ?st) (qn_step sha Q_look (qn_step sha (Q_restart root' real') s))) = [] \<and>
    (\<forall>k w. holder_of (q_table (snd (restore_loop sha (\<lambda>_. []) (qn_snapshot ?st) (qn_step sha Q_look (qn_step sha (Q_restart root' real') s))))) k = Some w
       \<longleftrightarrow> holder_of (q_table (qn_step sha Q_look (qn_step sha (Q_restart root' real') s))) k = Some w
         \<or> (\<exists>h \<in> set (qn_snapshot ?st). snap_owner h = w \<and> k \<in> set (snap_keys h)))"
  proof (rule restore_all)
    show "\<forall>h \<in> set (qn_snapshot ?st). \<forall>h' \<in> set (qn_snapshot ?st). snap_owner h \<noteq> snap_owner h' \<longrightarrow> set (snap_keys h) \<inter> set (snap_keys h') = {}"
    proof (intro ballI impI)
      fix h h' assume "h \<in> set (qn_snapshot ?st)" "h' \<in> set (qn_snapshot ?st)" "snap_owner h \<noteq> snap_owner h'"
      then show "set (snap_keys h) \<inter> set (snap_keys h') = {}" using keys [of h] keys [of h'] by (force simp del: map_of_eq_Some_iff)
    qed
  qed (use snap snapshot_owners [OF io] in \<open>auto simp: lock_start_def new_table_def\<close>)
  show ?thesis
  proof (intro conjI allI impI)
    show "errs = []" using all assms(4) by (simp add: restore_def)
    fix w r k assume r: "entry_of (q_store s) w = Some r"
    obtain h where hh: "h \<in> set (qn_snapshot ?st)" "snap_owner h = w" "qr_e r = sn_e h" using restart_look [OF h i r] by blast
    have "holder_of (q_table s') k = Some w \<longleftrightarrow> (\<exists>h \<in> set (qn_snapshot ?st). snap_owner h = w \<and> k \<in> set (snap_keys h))"
      using all assms(4) by (simp add: restore_def lock_start_def new_table_def del: map_of_eq_Some_iff)
    also have "\<dots> \<longleftrightarrow> holder_of (q_table s) k = Some w" using hh(1,2) keys by blast
    also have "\<dots> \<longleftrightarrow> k \<in> set (qe_keys (qr_e r))" using hh keys [OF hh(1)] by (simp add: set_eq_iff del: map_of_eq_Some_iff)
    finally show "holder (q_table s') k = Some w \<longleftrightarrow> k \<in> set (qe_keys (qr_e r))" by (simp add: holder_def)
  qed
qed

theorem restore_gives_the_keys_back_witness:
  "fst (restore sample_sha (\<lambda>_. []) (qn_step sample_sha (Q_restart ''/w'' (Some ''/w'')) sample_q_state)) = []
   \<and> holder (q_table (snd (restore sample_sha (\<lambda>_. []) (qn_step sample_sha (Q_restart ''/w'' (Some ''/w'')) sample_q_state)))) ''gpu'' = Some ''a/j2''"
proof -
  have h: "holds_keys (q_table sample_q_state) w (qe_keys (qr_e r)) \<and> validate_keys (qe_keys (qr_e r)) = None"
    if "entry_of (q_store sample_q_state) w = Some r" for w r
    using that by (auto simp: sample_q_state_is holds_keys_def sample_qn_def validate_keys_def normalize_def bad_key_def split: if_splits)
  have e: "entry_of (q_store sample_q_state) ''a/j2'' = Some \<lparr>qr_e = sample_qn ''j2'' ''gpu'', qr_gen = 2, qr_live = True\<rparr>"
    by (simp add: sample_q_state_is)
  have k: "''gpu'' \<in> set (qe_keys (sample_qn ''j2'' ''gpu''))" by (simp add: sample_qn_def)
  show ?thesis
    using restore_gives_the_keys_back [OF sample_history refl h, of "''/w''" "Some ''/w''"] e k by (metis (no_types, lifting) prod.collapse qn_rec.select_convs(1))
qed

end
