(* ===== verification/Float64.thy ===== *)
theory Float64
  imports Prelude "HOL-Library.Log_Nat"
begin

text \<open>
  Go's \<open>float64\<close> as far as the program uses it. A value is a rational, an infinity or not a number; an
  operation is the exact one rounded to the nearest binary64 value, ties to even, as IEEE 754 defines
  it. The sign of zero is left out: nothing here divides by a zero that was computed. The lemmas say
  that rounding is monotone and that integers up to \<open>2 ^ 53\<close> are exact.
\<close>

section \<open>Values and rounding\<close>

datatype float64 = NaN | PInf | NInf | Fin rat

text \<open>The binary exponent of a positive rational, from the lengths of its numerator and denominator.\<close>

definition expo :: "rat \<Rightarrow> int" where
  "expo x = (case quotient_of x of (p, q) \<Rightarrow>
     (let k = bitlen p - bitlen q in if 2 powi k \<le> x then k else k - 1))"

definition rne :: "rat \<Rightarrow> int" where
  "rne x = (let f = \<lfloor>x\<rfloor>; r = x - of_int f
            in if r < 1 / 2 \<or> (r = 1 / 2 \<and> even f) then f else f + 1)"

text \<open>The distance of neighbouring values around a positive number, subnormal numbers included.\<close>

definition quantum :: "rat \<Rightarrow> rat" where
  "quantum x = 2 powi (max (expo x) (- 1022) - 52)"

definition round_pos :: "rat \<Rightarrow> rat" where
  "round_pos x = of_int (rne (x / quantum x)) * quantum x"

definition round64 :: "rat \<Rightarrow> float64" where
  "round64 x =
     (if x = 0 then Fin 0
      else if x > 0 then (if round_pos x < 2 powi 1024 then Fin (round_pos x) else PInf)
      else (if round_pos (- x) < 2 powi 1024 then Fin (- round_pos (- x)) else NInf))"

section \<open>Operations\<close>

fun fneg :: "float64 \<Rightarrow> float64" where
  "fneg NaN = NaN" | "fneg PInf = NInf" | "fneg NInf = PInf" | "fneg (Fin x) = Fin (- x)"

fun fadd :: "float64 \<Rightarrow> float64 \<Rightarrow> float64" where
  "fadd (Fin x) (Fin y) = round64 (x + y)"
| "fadd NaN _ = NaN"
| "fadd _ NaN = NaN"
| "fadd PInf NInf = NaN"
| "fadd NInf PInf = NaN"
| "fadd PInf _ = PInf"
| "fadd _ PInf = PInf"
| "fadd NInf _ = NInf"
| "fadd _ NInf = NInf"

definition fsub :: "float64 \<Rightarrow> float64 \<Rightarrow> float64" where
  "fsub a b = fadd a (fneg b)"

text \<open>An infinity times a finite number takes the sign of the product.\<close>

definition inf_times :: "bool \<Rightarrow> float64 \<Rightarrow> float64" where
  "inf_times pos b =
     (case b of NaN \<Rightarrow> NaN | PInf \<Rightarrow> (if pos then PInf else NInf) | NInf \<Rightarrow> (if pos then NInf else PInf)
      | Fin y \<Rightarrow> if y = 0 then NaN else if (y > 0) = pos then PInf else NInf)"

definition fmul :: "float64 \<Rightarrow> float64 \<Rightarrow> float64" where
  "fmul a b =
     (case a of NaN \<Rightarrow> NaN | PInf \<Rightarrow> inf_times True b | NInf \<Rightarrow> inf_times False b
      | Fin x \<Rightarrow> (case b of NaN \<Rightarrow> NaN | PInf \<Rightarrow> inf_times True a | NInf \<Rightarrow> inf_times False a | Fin y \<Rightarrow> round64 (x * y)))"

text \<open>Division; a zero divisor counts as positive.\<close>

definition fdiv :: "float64 \<Rightarrow> float64 \<Rightarrow> float64" where
  "fdiv a b =
     (case b of NaN \<Rightarrow> NaN
      | Fin y \<Rightarrow> (case a of NaN \<Rightarrow> NaN
          | Fin x \<Rightarrow> if y \<noteq> 0 then round64 (x / y) else if x = 0 then NaN else if x > 0 then PInf else NInf
          | PInf \<Rightarrow> (if y \<ge> 0 then PInf else NInf) | NInf \<Rightarrow> (if y \<ge> 0 then NInf else PInf))
      | _ \<Rightarrow> (case a of Fin _ \<Rightarrow> Fin 0 | _ \<Rightarrow> NaN))"

fun flt :: "float64 \<Rightarrow> float64 \<Rightarrow> bool" where
  "flt (Fin x) (Fin y) = (x < y)"
| "flt NaN _ = False"
| "flt _ NaN = False"
| "flt NInf b = (b \<noteq> NInf)"
| "flt a NInf = False"
| "flt PInf _ = False"
| "flt (Fin x) PInf = True"

fun feq :: "float64 \<Rightarrow> float64 \<Rightarrow> bool" where
  "feq NaN _ = False"
| "feq a b = (a = b)"

definition fle :: "float64 \<Rightarrow> float64 \<Rightarrow> bool" where
  "fle a b \<longleftrightarrow> flt a b \<or> feq a b"

definition finite64 :: "float64 \<Rightarrow> bool" where
  "finite64 a = (case a of Fin _ \<Rightarrow> True | _ \<Rightarrow> False)"

definition of_int64 :: "int \<Rightarrow> float64" where
  "of_int64 n = round64 (of_int n)"

section \<open>The exponent\<close>

lemma expo_bounds:
  assumes "0 < x"
  shows "2 powi expo x \<le> x" and "x < 2 powi (expo x + 1)"
proof -
  obtain p q where pq: "quotient_of x = (p, q)" by (cases "quotient_of x")
  have q: "0 < q" and x: "x = of_int p / of_int q"
    using quotient_of_denom_pos [OF pq] quotient_of_div [OF pq] by auto
  then have p: "0 < p"
    using assms by (simp add: zero_less_divide_iff)
  have pow: "(2 :: rat) powi (bitlen n - 1) \<le> of_int n \<and> of_int n < (2 :: rat) powi bitlen n" if "0 < n" for n
  proof -
    have b: "1 \<le> bitlen n" using that bitlen_eq_zero_iff [of n] bitlen_nonneg [of n] by linarith
    have "(2 :: rat) ^ nat (bitlen n - 1) \<le> of_int n \<and> of_int n < (2 :: rat) ^ nat (bitlen n)"
      using bitlen_bounds [OF that] by (metis of_int_le_iff of_int_less_iff of_int_numeral of_int_power)
    then show ?thesis using b by (simp add: power_int_def)
  qed
  let ?k = "bitlen p - bitlen q"
  have "x < 2 powi bitlen p / 2 powi (bitlen q - 1)"
    unfolding x using pow [OF p] pow [OF q] q p by (intro frac_less) auto
  also have "\<dots> = 2 powi (?k + 1)"
    by (simp add: power_int_diff power_int_add)
  finally have up: "x < 2 powi (?k + 1)" .
  have "2 powi (?k - 1) = (2 :: rat) powi (bitlen p - 1) / 2 powi bitlen q"
    by (simp add: power_int_diff)
  also have "\<dots> \<le> x"
    unfolding x using pow [OF p] pow [OF q] q p by (intro frac_le) auto
  finally have low: "2 powi (?k - 1) \<le> x" .
  show "2 powi expo x \<le> x" and "x < 2 powi (expo x + 1)"
    using up low by (auto simp: expo_def pq Let_def)
qed

lemma expo_mono: "0 < x \<Longrightarrow> x \<le> y \<Longrightarrow> expo x \<le> expo y"
proof (rule ccontr)
  assume "0 < x" "x \<le> y" "\<not> expo x \<le> expo y"
  then have "(2 :: rat) powi (expo y + 1) \<le> 2 powi expo x"
    by (intro power_int_increasing) auto
  then show False
    using expo_bounds [of x] expo_bounds [of y] \<open>0 < x\<close> \<open>x \<le> y\<close> by linarith
qed

lemma quantum_pos [simp]: "0 < quantum x"
  by (simp add: quantum_def)

section \<open>Rounding\<close>

lemma rne_of_int [simp]: "rne (of_int n) = n"
  by (simp add: rne_def)

lemma rne_mono: "x \<le> y \<Longrightarrow> rne x \<le> rne y"
proof (cases "\<lfloor>x\<rfloor> = \<lfloor>y\<rfloor>")
  case True
  then show "x \<le> y \<Longrightarrow> rne x \<le> rne y" by (auto simp: rne_def Let_def)
next
  case False
  assume "x \<le> y"
  then have "\<lfloor>x\<rfloor> + 1 \<le> \<lfloor>y\<rfloor>" using False floor_mono [of x y] by linarith
  moreover have "rne x \<le> \<lfloor>x\<rfloor> + 1" "\<lfloor>y\<rfloor> \<le> rne y" by (auto simp: rne_def Let_def)
  ultimately show ?thesis by linarith
qed

lemma rne_nonneg: "0 \<le> x \<Longrightarrow> 0 \<le> rne x"
  using rne_mono [of 0 x] rne_of_int [of 0] by simp

lemma round_pos_nonneg: "0 < x \<Longrightarrow> 0 \<le> round_pos x"
  by (simp add: round_pos_def rne_nonneg less_imp_le)

lemma round_pos_exact: "x = of_int n * quantum x \<Longrightarrow> round_pos x = x"
  by (metis nonzero_mult_div_cancel_right order_less_irrefl quantum_pos rne_of_int round_pos_def)

text \<open>Within one exponent rounding is monotone because \<open>rne\<close> is; the next power of two is between two exponents.\<close>

lemma pow2_over_quantum:
  assumes "max (expo x) (- 1022) - 52 \<le> m"
  shows "2 powi m / quantum x = of_int (2 ^ nat (m - (max (expo x) (- 1022) - 52)))"
proof -
  let ?e = "max (expo x) (- 1022) - 52"
  have "(2 :: rat) powi m = 2 powi (m - ?e) * 2 powi ?e"
    by (subst power_int_add [symmetric]) simp_all
  moreover have "(2 :: rat) powi (m - ?e) = of_int (2 ^ nat (m - ?e))"
    using assms by (simp add: power_int_def)
  ultimately show ?thesis
    by (simp add: quantum_def)
qed

lemma round_pos_upto:
  assumes "x \<le> 2 powi m" and "max (expo x) (- 1022) - 52 \<le> m"
  shows "round_pos x \<le> 2 powi m"
proof -
  note eq = pow2_over_quantum [OF assms(2)]
  have "rne (x / quantum x) \<le> rne (2 powi m / quantum x)"
    using assms(1) by (intro rne_mono divide_right_mono) (auto simp: less_imp_le)
  then have "of_int (rne (x / quantum x)) \<le> (2 powi m / quantum x)"
    unfolding eq rne_of_int by (simp only: of_int_le_iff)
  then show ?thesis
    by (simp add: round_pos_def pos_le_divide_eq)
qed

lemma round_pos_from:
  assumes "2 powi m \<le> x" and "max (expo x) (- 1022) - 52 \<le> m"
  shows "2 powi m \<le> round_pos x"
proof -
  note eq = pow2_over_quantum [OF assms(2)]
  have "rne (2 powi m / quantum x) \<le> rne (x / quantum x)"
    using assms(1) by (intro rne_mono divide_right_mono) (auto simp: less_imp_le)
  then have "(2 powi m / quantum x) \<le> of_int (rne (x / quantum x))"
    unfolding eq rne_of_int by (simp only: of_int_le_iff)
  then show ?thesis
    by (simp add: round_pos_def pos_divide_le_eq)
qed

lemma round_pos_mono:
  assumes "0 < x" and "x \<le> y"
  shows "round_pos x \<le> round_pos y"
proof (cases "max (expo x) (- 1022) = max (expo y) (- 1022)")
  case True
  then have q: "quantum y = quantum x" by (simp add: quantum_def)
  have "rne (x / quantum x) \<le> rne (y / quantum x)"
    using assms(2) by (intro rne_mono divide_right_mono) (auto simp: less_imp_le)
  then show ?thesis
    unfolding round_pos_def q by (intro mult_right_mono) (auto simp: less_imp_le)
next
  case False
  let ?m = "max (expo x) (- 1022) + 1"
  have "?m \<le> expo y"
    using False expo_mono [OF assms] by linarith
  have "x \<le> 2 powi (expo x + 1)"
    using expo_bounds(2) [OF assms(1)] by simp
  also have "\<dots> \<le> 2 powi ?m"
    by (intro power_int_increasing) auto
  finally have "round_pos x \<le> 2 powi ?m"
    by (rule round_pos_upto) simp
  also have "\<dots> \<le> 2 powi expo y"
    using \<open>?m \<le> expo y\<close> by (intro power_int_increasing) auto
  also have "\<dots> \<le> round_pos y"
    using expo_bounds(1) [of y] assms \<open>?m \<le> expo y\<close> by (intro round_pos_from) auto
  finally show ?thesis .
qed

lemma fle_ends [simp]: "fle NInf a \<longleftrightarrow> a \<noteq> NaN" "fle a PInf \<longleftrightarrow> a \<noteq> NaN" "fle (Fin x) (Fin y) \<longleftrightarrow> x \<le> y"
    "\<not> fle NaN a" "\<not> fle a NaN" "fle PInf a \<longleftrightarrow> a = PInf" "fle a NInf \<longleftrightarrow> a = NInf"
  by (cases a; force simp: fle_def)+

lemma fle_trans: "fle a b \<Longrightarrow> fle b c \<Longrightarrow> fle a c"
  by (cases a; cases b; cases c) (auto simp: fle_def)

lemma round64_mono: "x \<le> y \<Longrightarrow> fle (round64 x) (round64 y)"
proof -
  assume xy: "x \<le> y"
  consider "x < 0" "y < 0" | "x \<le> 0" "0 \<le> y" | "0 < x" using xy by linarith
  then show ?thesis
  proof cases
    case 1
    then have "round_pos (- y) \<le> round_pos (- x)"
      using xy by (intro round_pos_mono) auto
    with 1 show ?thesis by (auto simp: round64_def fle_def)
  next
    case 2
    have "fle (round64 x) (Fin 0)"
      using 2 round_pos_nonneg [of "- x"] by (cases "x = 0") (simp_all add: round64_def)
    moreover have "fle (Fin 0) (round64 y)"
      using 2 round_pos_nonneg [of y] by (cases "y = 0") (simp_all add: round64_def)
    ultimately show ?thesis by (rule fle_trans)
  next
    case 3
    then have "round_pos x \<le> round_pos y"
      using xy by (intro round_pos_mono) auto
    with 3 xy show ?thesis by (auto simp: round64_def fle_def)
  qed
qed

text \<open>An integer of at most 53 bits is a value of the type.\<close>

lemma round_pos_int:
  assumes "0 < n" and "n \<le> 2 ^ 53"
  shows "round_pos (of_int n) = of_int n"
proof -
  let ?x = "of_int n :: rat"
  let ?e = "expo ?x"
  have b: "2 powi ?e \<le> ?x" "?x < 2 powi (?e + 1)"
    using expo_bounds [of ?x] assms(1) by simp_all
  have "1 \<le> n" using assms(1) by simp
  then have n: "of_int 1 \<le> ?x" "?x \<le> of_int (2 ^ 53)"
    using assms(2) unfolding of_int_le_iff by simp_all
  have "(2 :: rat) powi 0 < 2 powi (?e + 1)" using b(2) n(1) unfolding power_int_0_right of_int_1 by linarith
  then have e0: "0 \<le> ?e"
    using power_int_increasing [of "?e + 1" 0 "2 :: rat"] by (cases "?e + 1 \<le> 0") auto
  have "(2 :: rat) powi ?e \<le> 2 powi 53" using b(1) n(2) unfolding power_int_numeral of_int_power of_int_numeral by linarith
  then have e53: "?e \<le> 53"
    using power_int_strict_increasing [of 53 ?e "2 :: rat"] by (cases "53 < ?e") auto
  have q: "quantum ?x = 2 powi (?e - 52)" using e0 by (simp add: quantum_def)
  show ?thesis
  proof (cases "?e = 53")
    case True
    then have "?x = 2 ^ 53" using b(1) n(2) unfolding True power_int_numeral of_int_power of_int_numeral by linarith
    moreover have "quantum ?x = 2" using True q by simp
    ultimately have "?x = of_int (2 ^ 52) * quantum ?x" by simp
    then show ?thesis by (rule round_pos_exact)
  next
    case False
    define k where "k = nat (52 - ?e)"
    have "?e - 52 = - int k" using False e53 by (simp add: k_def)
    then have "quantum ?x = 1 / 2 ^ k" by (simp only: q power_int_minus power_int_of_nat inverse_eq_divide)
    moreover have "of_int (n * 2 ^ k) * (1 / 2 ^ k) = ?x" by simp
    ultimately have "?x = of_int (n * 2 ^ k) * quantum ?x" by (simp only:)
    then show ?thesis by (rule round_pos_exact)
  qed
qed

lemma round64_int: "\<bar>n\<bar> \<le> 2 ^ 53 \<Longrightarrow> round64 (of_int n) = Fin (of_int n)"
proof -
  assume n: "\<bar>n\<bar> \<le> 2 ^ 53"
  have big: "(of_int m :: rat) < 2 powi 1024" if "m \<le> 2 ^ 53" for m
  proof -
    have "(of_int m :: rat) \<le> of_int (2 ^ 53)" using that by (simp only: of_int_le_iff)
    also have "\<dots> = 2 powi 53" by (simp add: power_int_def)
    also have "\<dots> < 2 powi 1024" by (intro power_int_strict_increasing) auto
    finally show ?thesis .
  qed
  consider "n = 0" | "0 < n" | "n < 0" by linarith
  then show ?thesis
  proof cases
    case 2
    then show ?thesis using n round_pos_int [of n] big [of n] by (simp add: round64_def)
  next
    case 3
    then show ?thesis using n round_pos_int [of "- n"] big [of "- n"] by (simp add: round64_def)
  qed (simp add: round64_def)
qed

lemma of_int64_exact [simp]: "\<bar>n\<bar> \<le> 2 ^ 53 \<Longrightarrow> of_int64 n = Fin (of_int n)"
  by (simp add: of_int64_def round64_int)

section \<open>Order\<close>

lemma round64_not_NaN [simp]: "round64 x \<noteq> NaN" "NaN \<noteq> round64 x"
  by (auto simp: round64_def)

lemma fle_refl: "a \<noteq> NaN \<Longrightarrow> fle a a"
  by (cases a) (auto simp: fle_def)

lemma flt_iff: "a \<noteq> NaN \<Longrightarrow> b \<noteq> NaN \<Longrightarrow> flt a b \<longleftrightarrow> \<not> fle b a"
  by (cases a; cases b) (auto simp: fle_def)

lemma fle_cases: "a \<noteq> NaN \<Longrightarrow> b \<noteq> NaN \<Longrightarrow> fle a b \<or> fle b a"
  by (cases a; cases b) (auto simp: fle_def)

lemma fle_antisym: "fle a b \<Longrightarrow> fle b a \<Longrightarrow> a = b"
  by (cases a; cases b) (auto simp: fle_def)

lemma feq_iff: "a \<noteq> NaN \<Longrightarrow> feq a b \<longleftrightarrow> a = b"
  by (cases a) auto

text \<open>Adding the same finite number to two values keeps their order.\<close>

lemma fadd_mono: "fle a b \<Longrightarrow> fle (fadd a (Fin y)) (fadd b (Fin y))"
  by (cases a; cases b) (simp_all add: round64_mono)

end
