(* ===== verification/Facts.thy ===== *)
theory Facts
  imports Wire Float64
begin

text \<open>
  The facts record of a host and what the pool shows of it (\<open>internal/wwd/wire/facts.go\<close>, the hold
  fields of \<open>alert.go\<close>, \<open>Info\<close> and \<open>Peer\<close> of \<open>api.go\<close>, the pool gate of \<open>gate.go\<close>): the records as
  the code has them, with a pointer or an omitted field as an option, and their \<open>Validate\<close>.
\<close>

section \<open>Holds\<close>

datatype hold_flag = HoldFlagRelease | HoldFlagExpectPressure | HoldFlagOther string

definition hold_flag_valid :: "hold_flag \<Rightarrow> bool" where
  "hold_flag_valid f \<longleftrightarrow> f = HoldFlagRelease \<or> f = HoldFlagExpectPressure"

record hold_allow =
  ha_classes :: "job_class list"
  ha_repos :: "string list"

text \<open>\<open>^[A-Za-z0-9][A-Za-z0-9._-]{0,63}$\<close>\<close>

definition re_hold_repo :: "string \<Rightarrow> bool" where
  "re_hold_repo s = (case s of [] \<Rightarrow> False | c # cs \<Rightarrow> repo_first c \<and> length cs \<le> 63 \<and> list_all repo_rest cs)"

fun flags_check :: "hold_flag list \<Rightarrow> hold_flag list \<Rightarrow> go_error" where
  "flags_check seen [] = None"
| "flags_check seen (f # fs) =
     (if \<not> hold_flag_valid f then Some ''invalid flag''
      else if f \<in> set seen then Some ''flag repeated'' else flags_check (f # seen) fs)"

definition validate_hold_fields :: "hold_allow option \<Rightarrow> hold_flag list \<Rightarrow> go_error" where
  "validate_hold_fields a flags =
     (case a of
        Some a \<Rightarrow> (if \<not> list_all class_valid (ha_classes a) then Some ''allow: invalid class''
                   else if \<not> list_all re_hold_repo (ha_repos a) then Some ''allow: not a repo name''
                   else flags_check [] flags)
      | None \<Rightarrow> flags_check [] flags)"

section \<open>The record\<close>

record slots =
  sl_heavy :: int
  sl_light :: int

record fact_core =
  co_user_pct :: "float64 option"
  co_system_pct :: "float64 option"
  co_idle_pct :: "float64 option"
  co_kind :: "string option"

record fact_cpu =
  cpu_ncpu :: int
  cpu_load1 :: float64
  cpu_load5 :: float64
  cpu_idle_pct :: float64
  cpu_load15 :: "float64 option"
  cpu_user_pct :: "float64 option"
  cpu_system_pct :: "float64 option"
  cpu_cores :: "fact_core list"

record fact_psi =
  psi_some10 :: float64
  psi_full10 :: float64
  psi_some60 :: float64

record fact_mem =
  mem_total_mb :: int
  mem_available_mb :: int
  mem_pressure :: int
  mem_page_out_rate :: "float64 option"
  mem_swap_out_rate :: "float64 option"
  mem_swap_used_mb :: "int option"
  mem_compressor_mb :: "int option"
  mem_psi :: "fact_psi option"
  mem_decompress_rate :: "float64 option"
  mem_swap_total_mb :: "int option"
  mem_wired_mb :: "int option"
  mem_active_mb :: "int option"
  mem_inactive_mb :: "int option"
  mem_file_cache_mb :: "int option"

record fact_disk =
  dk_mount :: string
  dk_free_gb :: float64
  dk_used_pct :: float64
  dk_total_bytes :: int
  dk_avail_bytes :: int

datatype owner_kind = OwnerJob | OwnerSession | OwnerCodex | OwnerResident | OwnerSystem | OwnerOther string

fun owner_kind_valid :: "owner_kind \<Rightarrow> bool" where
  "owner_kind_valid (OwnerOther _) = False"
| "owner_kind_valid _ = True"

record proc_owner =
  po_kind :: owner_kind
  po_id :: string
  po_session :: string

record fact_proc =
  pc_pid :: int
  pc_name :: string
  pc_cpu_pct :: float64
  pc_mem_mb :: int
  pc_mem_kind :: string
  pc_owner :: "proc_owner option"

record resident =
  re_session :: string
  re_kind :: string
  re_count :: int
  re_mem_mb :: int

record fact_self =
  se_cpu_pct :: "float64 option"
  se_rss_mb :: "int option"

record disk_io =
  io_device :: string
  io_read_bps :: "float64 option"
  io_write_bps :: "float64 option"
  io_read_iops :: "float64 option"
  io_write_iops :: "float64 option"

record tools =
  to_go :: "string option"
  to_node :: "string option"
  to_pnpm :: "string option"
  to_php :: "string list"
  to_xcode :: "string option"
  to_claude :: "string option"

record owner_state =
  ow_active :: bool
  ow_idle_s :: int
  ow_reason :: string

record fact_exc =
  ex_name :: string
  ex_since :: int
  ex_until :: "int option"
  ex_allow :: "hold_allow option"
  ex_flags :: "hold_flag list"

text \<open>\<open>zone_override\<close> is absent (the empty string) when no fault hook is on.\<close>

record derived =
  dv_zone :: zone
  dv_zone_override :: "zone option"
  dv_headroom :: slots
  dv_sessions_room :: int
  dv_disk_low :: bool

definition pick_zone :: "derived \<Rightarrow> zone" where
  "pick_zone d = (case dv_zone_override d of Some z \<Rightarrow> z | None \<Rightarrow> dv_zone d)"

text \<open>\<open>wt_oldest_since\<close> is \<open>None\<close> for the zero time.\<close>

record waiting =
  wt_count :: int
  wt_oldest_id :: string
  wt_oldest_origin :: string
  wt_oldest_since :: "int option"
  wt_observed_at :: int
  wt_yielding :: bool
  wt_yield_over :: bool

record facts_worker =
  fw_enabled :: bool
  fw_slots :: slots
  fw_running :: slots
  fw_owner_rule :: string
  fw_waiting :: "waiting option"

record minute_stats =
  ms_sampled_s :: int
  ms_full_ticks :: int
  ms_full_starts :: int
  ms_full_longest_s :: int
  ms_normal_s :: int
  ms_warning_s :: int
  ms_danger_s :: int
  ms_heavy_running_max :: int
  ms_light_running_max :: int
  ms_gate_waiting_max :: "int option"

record facts =
  fa_v :: int
  fa_host_id :: string
  fa_alias :: string
  fa_at :: int
  fa_platform :: string
  fa_arch :: string
  fa_os_version :: string
  fa_cpu :: fact_cpu
  fa_mem :: fact_mem
  fa_disk :: "fact_disk list"
  fa_procs :: "fact_proc list"
  fa_residents :: "resident list"
  fa_tools :: tools
  fa_owner :: "owner_state option"
  fa_exceptions :: "fact_exc list"
  fa_derived :: derived
  fa_worker :: facts_worker
  fa_stats :: "minute_stats option"
  fa_queued :: "int option" \<comment> \<open>\<open>queue.queued\<close>, absent without a queue\<close>
  fa_procs_total :: "int option"
  fa_boot_at :: "int option"
  fa_self :: "fact_self option"
  fa_disk_io :: "disk_io list"

definition sample_interval_s :: int where
  "sample_interval_s = 5"

text \<open>The first loop runs over a Go map, so which negative figure is named is not fixed; that one is named is.\<close>

definition minute_stats_validate :: "minute_stats \<Rightarrow> go_error" where
  "minute_stats_validate s = first_error
     [(list_ex (\<lambda>v. v < 0) [ms_sampled_s s, ms_full_ticks s, ms_full_starts s, ms_full_longest_s s, ms_normal_s s,
         ms_warning_s s, ms_danger_s s, ms_heavy_running_max s, ms_light_running_max s], ''stats: a figure is negative''),
      (case ms_gate_waiting_max s of Some n \<Rightarrow> n < 0 | None \<Rightarrow> False, ''stats: gate_waiting_max is negative''),
      (ms_normal_s s + ms_warning_s s + ms_danger_s s > ms_sampled_s s, ''stats: the zone seconds add up to more than sampled_s''),
      (ms_full_ticks s * sample_interval_s > ms_sampled_s s, ''stats: full_ticks is more than sampled_s''),
      (ms_full_starts s > ms_full_ticks s, ''stats: full_starts is more than full_ticks'')]"

definition min_proto :: int where "min_proto = 1"
definition facts_proto :: int where "facts_proto = 2"
definition proto :: int where "proto = 3"

fun exceptions_check :: "fact_exc list \<Rightarrow> go_error" where
  "exceptions_check [] = None"
| "exceptions_check (e # es) =
     (case validate_hold_fields (ex_allow e) (ex_flags e) of Some m \<Rightarrow> Some (''facts: exceptions: '' @ m) | None \<Rightarrow> exceptions_check es)"

definition facts_validate :: "facts \<Rightarrow> go_error" where
  "facts_validate f =
     (case first_error
        [(fa_v f < min_proto \<or> fa_v f > facts_proto, ''facts: unsupported v''),
         (case mem_decompress_rate (fa_mem f) of Some r \<Rightarrow> flt r (Fin 0) | None \<Rightarrow> False, ''facts: negative decompress_rate''),
         (list_ex (\<lambda>c. case co_kind c of Some k \<Rightarrow> k \<noteq> ''p'' \<and> k \<noteq> ''e'' | None \<Rightarrow> False) (cpu_cores (fa_cpu f)), ''facts: cpu.cores: invalid kind''),
         (case fa_queued f of Some n \<Rightarrow> n < 0 | None \<Rightarrow> False, ''facts: negative queue.queued''),
         (case fw_waiting (fa_worker f) of Some w \<Rightarrow> wt_count w < 0 | None \<Rightarrow> False, ''facts: negative worker.waiting.count'')] of
        Some e \<Rightarrow> Some e
      | None \<Rightarrow> (case exceptions_check (fa_exceptions f) of Some e \<Rightarrow> Some e
      | None \<Rightarrow> (case first_error
        [(case dv_zone_override (fa_derived f) of Some z \<Rightarrow> \<not> zone_valid z | None \<Rightarrow> False, ''facts: invalid zone_override''),
         (\<not> zone_valid (dv_zone (fa_derived f)), ''facts: invalid zone''),
         (list_ex (\<lambda>p. case pc_owner p of Some w \<Rightarrow> \<not> owner_kind_valid (po_kind w) | None \<Rightarrow> False) (fa_procs f), ''facts: procs: invalid owner kind'')] of
        Some e \<Rightarrow> Some e
      | None \<Rightarrow> (case fa_stats f of None \<Rightarrow> None | Some s \<Rightarrow> map_option ((@) ''facts: '') (minute_stats_validate s)))))"

section \<open>The pool\<close>

record info_worker =
  iw_enabled :: bool
  iw_explicit_labels_only :: bool
  iw_speed_factor :: float64

record info_fault =
  if_log_upload_fail :: bool
  if_owner_active_file :: bool
  if_zone :: string
  if_snapshot_delay_s :: int

record info =
  in_host_id :: string
  in_alias :: string
  in_version :: string
  in_proto :: int
  in_platform :: string
  in_arch :: string
  in_worker :: info_worker
  in_labels :: "string list"
  in_fingerprint :: "(string \<times> string) list"
  in_fault :: "info_fault option"

definition info_validate :: "info \<Rightarrow> go_error" where
  "info_validate i = (if in_proto i < min_proto \<or> in_proto i > proto then Some ''info: unsupported proto'' else None)"

datatype liveness = LivenessOK | LivenessWwdDown | LivenessHostDown | LivenessUnknown | LivenessOther string

fun liveness_valid :: "liveness \<Rightarrow> bool" where
  "liveness_valid (LivenessOther _) = False"
| "liveness_valid _ = True"

record peer =
  pe_info :: info
  pe_facts :: "facts option"
  pe_reachable :: bool
  pe_rtt_ms :: "float64 option"
  pe_liveness :: "liveness option"
  pe_liveness_at :: "int option"
  pe_liveness_since :: "int option"

fun pool_validate :: "peer list \<Rightarrow> go_error" where
  "pool_validate [] = None"
| "pool_validate (p # ps) =
     (case info_validate (pe_info p) of Some e \<Rightarrow> Some (''pool: peers: '' @ e)
      | None \<Rightarrow> if (case pe_liveness p of Some l \<Rightarrow> \<not> liveness_valid l | None \<Rightarrow> False) then Some ''pool: peers: unknown liveness''
               else (case pe_facts p of
                       Some f \<Rightarrow> (case facts_validate f of Some e \<Rightarrow> Some (''pool: peers: '' @ e) | None \<Rightarrow> pool_validate ps)
                     | None \<Rightarrow> pool_validate ps))"

definition pool_at_least :: "peer list \<Rightarrow> int \<Rightarrow> bool" where
  "pool_at_least ps mn = list_all (\<lambda>p. \<not> in_proto (pe_info p) < mn) ps"

end
