(* ===== verification/Derived.thy ===== *)
theory Derived
  imports Facts Decimal Machine
begin

text \<open>
  What a host decides from its readings (\<open>internal/wwd/derived\<close>): the zone of its memory pressure, the
  headroom for heavy and light work with the reasons it is 0, what the fast lane may start, the room the
  holds with \<open>allow\<close> leave, the disk floor, the flag that a host is full and the minute's totals. Go's
  \<open>max\<close> and \<open>min\<close> are HOL's; durations are milliseconds.
\<close>

section \<open>The zone\<close>

definition page_rate_limit :: float64 where
  "page_rate_limit = Fin 50"

text \<open>The constant 0.9 as a \<open>float64\<close> operand.\<close>

definition exit_margin :: float64 where
  "exit_margin = round64 (9 / 10)"

fun zone_rank :: "zone \<Rightarrow> nat" where
  "zone_rank ZoneDanger = 3"
| "zone_rank ZoneWarning = 2"
| "zone_rank _ = 1"

text \<open>The state of a \<open>ZoneLatch\<close> is the zone it last gave, which \<open>Update\<close> also answers; the zero value is the empty zone.\<close>

definition zero_latch :: zone where
  "zero_latch = ZoneOther ''''"

definition zone_update :: "int \<Rightarrow> float64 \<Rightarrow> float64 \<Rightarrow> bool \<Rightarrow> zone \<Rightarrow> zone" where
  "zone_update level rate rate_limit available prev =
     (if \<not> available then ZoneUnknown
      else let rated = flt (Fin 0) rate_limit
           in if level \<ge> 4 then ZoneDanger
              else if level \<ge> 2 \<or> (rated \<and> fle rate_limit rate) then ZoneWarning
              else if zone_rank prev \<ge> 2 \<and> \<not> (level < 2 \<and> (\<not> rated \<or> flt rate (fmul exit_margin rate_limit))) then ZoneWarning
              else ZoneNormal)"

section \<open>Headroom and its reasons\<close>

record hold =
  ho_name :: string
  ho_light :: bool
  ho_release :: bool

fun release_light_slots :: "int \<Rightarrow> hold list \<Rightarrow> int" where
  "release_light_slots n [] = n"
| "release_light_slots n (h # hs) = (if ho_release h then min n 1 else release_light_slots n hs)"

definition free_slots :: "int \<Rightarrow> int \<Rightarrow> int" where
  "free_slots n running = max (n - running) 0"

record judgement =
  jd_worker_off :: bool
  jd_zone :: zone
  jd_holds :: "hold list"
  jd_owner :: bool
  jd_disk_low :: bool
  jd_free :: slots

record headroom_reasons =
  hr_heavy :: "string list"
  hr_light :: "string list"

definition heavy_reasons :: "judgement \<Rightarrow> string list" where
  "heavy_reasons j =
     (if jd_worker_off j then [''worker_off''] else [])
     @ (case jd_zone j of ZoneNormal \<Rightarrow> [] | ZoneWarning \<Rightarrow> [''zone_warning''] | ZoneDanger \<Rightarrow> [''zone_danger''] | _ \<Rightarrow> [''zone_unknown''])
     @ map (\<lambda>h. ''exception:'' @ ho_name h) (jd_holds j)
     @ (if jd_owner j then [''owner_active''] else [])
     @ (if jd_disk_low j then [''disk_low''] else [])
     @ (if sl_heavy (jd_free j) \<le> 0 then [''slots_full''] else [])"

definition light_reasons :: "judgement \<Rightarrow> string list" where
  "light_reasons j =
     (if jd_worker_off j then [''worker_off''] else [])
     @ (case jd_zone j of ZoneDanger \<Rightarrow> [''zone_danger''] | _ \<Rightarrow> [])
     @ map (\<lambda>h. ''exception:'' @ ho_name h) (filter ho_light (jd_holds j))
     @ (if jd_owner j then [''owner_active''] else [])
     @ (if sl_light (jd_free j) \<le> 0 then [''slots_full''] else [])"

definition reasons :: "judgement \<Rightarrow> headroom_reasons" where
  "reasons j = \<lparr>hr_heavy = heavy_reasons j, hr_light = light_reasons j\<rparr>"

definition without_worker :: "judgement \<Rightarrow> judgement" where
  "without_worker j = j\<lparr>jd_worker_off := False\<rparr>"

definition reasons_light_ignoring_holds :: "judgement \<Rightarrow> nat" where
  "reasons_light_ignoring_holds j = length (hr_light (reasons (without_worker (j\<lparr>jd_holds := []\<rparr>))))"

record input =
  ip_pressure :: int
  ip_pressure_known :: bool
  ip_page_rate :: float64
  ip_rate_limit :: float64
  ip_slots :: slots
  ip_running :: slots
  ip_owner_active :: bool
  ip_exceptions :: "hold list"
  ip_available_mb :: int
  ip_compressor_mb :: int
  ip_disk_low :: bool

definition session_reserve_mb :: int where "session_reserve_mb = 1024"
definition session_mb :: int where "session_mb = 512"
definition sessions_cap :: int where "sessions_cap = 8"

text \<open>Go's integer division truncates towards zero.\<close>

definition go_div :: "int \<Rightarrow> int \<Rightarrow> int" where
  "go_div a b = (if a < 0 then - ((- a) div b) else a div b)"

definition compute_with_reasons :: "input \<Rightarrow> zone \<Rightarrow> (derived \<times> headroom_reasons) \<times> zone" where
  "compute_with_reasons inp latch =
     (let zone = zone_update (ip_pressure inp) (ip_page_rate inp) (ip_rate_limit inp) (ip_pressure_known inp) latch;
          j = \<lparr>jd_worker_off = False, jd_zone = zone, jd_holds = ip_exceptions inp, jd_owner = ip_owner_active inp,
               jd_disk_low = ip_disk_low inp,
               jd_free = \<lparr>sl_heavy = free_slots (sl_heavy (ip_slots inp)) (sl_heavy (ip_running inp)),
                          sl_light = free_slots (release_light_slots (sl_light (ip_slots inp)) (ip_exceptions inp)) (sl_light (ip_running inp))\<rparr>\<rparr>;
          r = reasons j;
          usable = ip_available_mb inp - session_reserve_mb - go_div (ip_compressor_mb inp) 4
      in ((\<lparr>dv_zone = zone, dv_zone_override = None,
            dv_headroom = \<lparr>sl_heavy = (if hr_heavy r = [] then sl_heavy (jd_free j) else 0),
                           sl_light = (if hr_light r = [] then sl_light (jd_free j) else 0)\<rparr>,
            dv_sessions_room = (if zone = ZoneNormal then min (max (go_div usable session_mb) 0) sessions_cap else 0),
            dv_disk_low = ip_disk_low inp\<rparr>, r), zone))"

definition compute :: "input \<Rightarrow> zone \<Rightarrow> derived \<times> zone" where
  "compute inp latch = (case compute_with_reasons inp latch of ((d, _), z) \<Rightarrow> (d, z))"

text \<open>\<open>Why\<close>: the judgement read back from a record.\<close>

definition record_judgement :: "facts \<Rightarrow> judgement" where
  "record_judgement f =
     \<lparr>jd_worker_off = \<not> fw_enabled (fa_worker f), jd_zone = dv_zone (fa_derived f),
      jd_holds = map (\<lambda>e. \<lparr>ho_name = ex_name e, ho_light = False, ho_release = False\<rparr>) (fa_exceptions f),
      jd_owner = (fw_owner_rule (fa_worker f) \<noteq> '''' \<and> (case fa_owner f of Some w \<Rightarrow> ow_active w | None \<Rightarrow> False)),
      jd_disk_low = dv_disk_low (fa_derived f),
      jd_free = \<lparr>sl_heavy = free_slots (sl_heavy (fw_slots (fa_worker f))) (sl_heavy (fw_running (fa_worker f))),
                 sl_light = free_slots (sl_light (fw_slots (fa_worker f))) (sl_light (fw_running (fa_worker f)))\<rparr>\<rparr>"

definition why :: "facts \<Rightarrow> headroom_reasons" where
  "why f =
     (let j0 = record_judgement f;
          room = dv_headroom (fa_derived f);
          j = (if sl_light room = 0 \<and> jd_holds j0 \<noteq> [] \<and> reasons_light_ignoring_holds j0 = 0
               then j0\<lparr>jd_holds := map (\<lambda>h. h\<lparr>ho_light := True\<rparr>) (jd_holds j0)\<rparr> else j0);
          r = reasons j
      in \<lparr>hr_heavy = (if sl_heavy room = 0 \<and> hr_heavy r = [] then [''unknown''] else hr_heavy r),
          hr_light = (if sl_light room = 0 \<and> hr_light r = [] then [''unknown''] else hr_light r)\<rparr>)"

section \<open>Giving way to the queue\<close>

record yield_policy =
  yp_after :: int
  yp_max :: int

definition default_yield_after :: int where "default_yield_after = 5 * 60 * 1000"
definition default_yield_max :: int where "default_yield_max = 30 * 60 * 1000"
definition waiting_trust :: int where "waiting_trust = 60 * 1000"

text \<open>The answer is (yield, over).\<close>

definition judge :: "yield_policy \<Rightarrow> waiting option \<Rightarrow> int \<Rightarrow> bool \<times> bool" where
  "judge p w now =
     (case w of None \<Rightarrow> (False, False)
      | Some w \<Rightarrow> (case wt_oldest_since w of None \<Rightarrow> (False, False)
          | Some since \<Rightarrow>
              if yp_after p \<le> 0 \<or> wt_count w \<le> 0 then (False, False)
              else let age = now - wt_observed_at w; waited = now - since; mx = (if yp_max p \<le> 0 then default_yield_max else yp_max p)
                   in if age < 0 \<or> age > waiting_trust then (False, False)
                      else if waited < yp_after p then (False, False)
                      else if waited > mx then (False, True) else (True, False)))"

text \<open>\<open>fmt.Sprintf("%s%s(%dm)", ...)\<close> with the whole minutes waited; it is asked only when \<open>judge\<close> says
  yield, so the job is there and has waited some time. (\<open>Minutes\<close> is a \<open>float64\<close>, exact to far less than a
  millisecond at any age that yields.)\<close>

definition yield_reason :: "waiting option \<Rightarrow> int \<Rightarrow> string" where
  "yield_reason w now =
     (case w of None \<Rightarrow> ''''
      | Some w \<Rightarrow> ''yield_to_queue:'' @ wt_oldest_id w @ ''('' @
          format_int (go_div (now - (case wt_oldest_since w of Some s \<Rightarrow> s | None \<Rightarrow> 0)) 60000) @ ''m)'')"

section \<open>The fast lane\<close>

definition admit_local0 :: "facts \<Rightarrow> bool \<Rightarrow> slots \<Rightarrow> string list" where
  "admit_local0 f heavy running =
     (let r = reasons \<lparr>jd_worker_off = False, jd_zone = dv_zone (fa_derived f),
            jd_holds = map (\<lambda>e. \<lparr>ho_name = ex_name e, ho_light = False, ho_release = False\<rparr>) (fa_exceptions f),
            jd_owner = False, jd_disk_low = dv_disk_low (fa_derived f),
            jd_free = \<lparr>sl_heavy = free_slots (sl_heavy (fw_slots (fa_worker f))) (sl_heavy running),
                       sl_light = free_slots (sl_light (fw_slots (fa_worker f))) (sl_light running)\<rparr>\<rparr>
      in if heavy then hr_heavy r else filter (\<lambda>s. s = ''zone_danger'' \<or> s = ''slots_full'') (hr_light r))"

definition admit_local_at :: "facts \<Rightarrow> bool \<Rightarrow> slots \<Rightarrow> int \<Rightarrow> yield_policy \<Rightarrow> string list" where
  "admit_local_at f heavy running now p =
     (let r = admit_local0 f heavy running
      in if r = [] \<and> heavy \<and> fst (judge p (fw_waiting (fa_worker f)) now) then [yield_reason (fw_waiting (fa_worker f)) now] else r)"

definition admit_local :: "facts \<Rightarrow> bool \<Rightarrow> slots \<Rightarrow> string list" where
  "admit_local f heavy running = admit_local_at f heavy running 0 \<lparr>yp_after = 0, yp_max = 0\<rparr>"

section \<open>Holds with allow\<close>

text \<open>\<open>strings.CutPrefix\<close>\<close>

definition cut_prefix :: "string \<Rightarrow> string \<Rightarrow> string option" where
  "cut_prefix p s = (if has_prefix p s then Some (drop (length p) s) else None)"

definition heavy_room_for_allowed :: "facts \<Rightarrow> int" where
  "heavy_room_for_allowed f =
     (let selective = map ex_name (filter (\<lambda>e. ex_allow e \<noteq> None) (fa_exceptions f))
      in if selective = [] then 0
         else if list_all (\<lambda>r. r = ''worker_off'' \<or> (case cut_prefix ''exception:'' r of Some n \<Rightarrow> n \<in> set selective | None \<Rightarrow> False))
                   (hr_heavy (why f))
         then free_slots (sl_heavy (fw_slots (fa_worker f))) (sl_heavy (fw_running (fa_worker f))) else 0)"

definition admits_job :: "fact_exc list \<Rightarrow> job_class \<Rightarrow> string \<Rightarrow> bool" where
  "admits_job excs class rp =
     list_all (\<lambda>e. case ex_allow e of None \<Rightarrow> True | Some a \<Rightarrow> class \<in> set (ha_classes a) \<or> rp \<in> set (ha_repos a)) excs"

definition has_heavy_room :: "facts \<Rightarrow> bool" where
  "has_heavy_room f \<longleftrightarrow> sl_heavy (dv_headroom (fa_derived f)) \<ge> 1 \<or> heavy_room_for_allowed f \<ge> 1"

definition heavy_room_for :: "facts \<Rightarrow> job_class \<Rightarrow> string \<Rightarrow> bool" where
  "heavy_room_for f class rp \<longleftrightarrow> sl_heavy (dv_headroom (fa_derived f)) \<ge> 1
     \<or> (heavy_room_for_allowed f \<ge> 1 \<and> admits_job (fa_exceptions f) class rp)"

section \<open>The disk floor\<close>

text \<open>\<open>strings.TrimRight(s, "/")\<close>\<close>

definition trim_right_slash :: "string \<Rightarrow> string" where
  "trim_right_slash s = rev (dropWhile (\<lambda>c. c = CHR ''/'') (rev s))"

definition holds_root :: "string \<Rightarrow> fact_disk \<Rightarrow> bool" where
  "holds_root path d \<longleftrightarrow> (let m = trim_right_slash (dk_mount d) in m = '''' \<or> path = dk_mount d \<or> has_prefix (m @ ''/'') path)"

definition better_volume :: "string \<Rightarrow> fact_disk \<Rightarrow> fact_disk option \<Rightarrow> fact_disk option" where
  "better_volume path d best =
     (if \<not> holds_root path d then best
      else case best of None \<Rightarrow> Some d | Some b \<Rightarrow> if length (dk_mount d) > length (dk_mount b) then Some d else best)"

definition work_volume :: "fact_disk list \<Rightarrow> string \<Rightarrow> fact_disk option" where
  "work_volume disks path = fold (better_volume path) disks None"

definition disk_low :: "float64 \<Rightarrow> float64 \<Rightarrow> bool" where
  "disk_low free_gb min_gb \<longleftrightarrow> flt (Fin 0) min_gb \<and> flt free_gb min_gb"

section \<open>A full host and the minute's totals\<close>

definition mem_full_percent :: int where
  "mem_full_percent = 90"

text \<open>\<open>ExitMargin*MemFullPercent\<close> is a constant expression of Go, exact: 81.\<close>

definition full_update :: "float64 \<Rightarrow> int \<Rightarrow> float64 \<Rightarrow> int \<Rightarrow> bool \<Rightarrow> bool" where
  "full_update load1 ncpu mem_pct pressure on =
     (if ncpu \<le> 0 then False
      else let n = of_int64 ncpu
           in if fle n load1 \<or> fle (Fin (of_int mem_full_percent)) mem_pct \<or> pressure \<ge> 2 then True
              else if on \<and> flt load1 (fmul exit_margin n) \<and> flt mem_pct (Fin 81) \<and> pressure < 2 then False
              else on)"

definition mem_pct :: "fact_mem \<Rightarrow> float64" where
  "mem_pct m =
     (if mem_total_mb m \<le> 0 then Fin 0
      else fdiv (fmul (Fin 100) (of_int64 (mem_total_mb m - min (mem_available_mb m) (mem_total_mb m)))) (of_int64 (mem_total_mb m)))"

record minute_agg =
  ag_latch :: bool
  ag_st :: minute_stats
  ag_prev_full :: bool
  ag_run_start :: int

definition zero_stats :: minute_stats where
  "zero_stats = \<lparr>ms_sampled_s = 0, ms_full_ticks = 0, ms_full_starts = 0, ms_full_longest_s = 0, ms_normal_s = 0, ms_warning_s = 0,
     ms_danger_s = 0, ms_heavy_running_max = 0, ms_light_running_max = 0, ms_gate_waiting_max = None\<rparr>"

definition zero_agg :: minute_agg where
  "zero_agg = \<lparr>ag_latch = False, ag_st = zero_stats, ag_prev_full = False, ag_run_start = 0\<rparr>"

definition add_full :: "int \<Rightarrow> int \<Rightarrow> bool \<Rightarrow> minute_agg \<Rightarrow> minute_agg" where
  "add_full at_ms interval full a =
     (if full
      then let start = (if ag_prev_full a then ag_run_start a else at_ms);
               st = ag_st a
           in a\<lparr>ag_run_start := start,
                ag_st := st\<lparr>ms_full_starts := ms_full_starts st + (if ag_prev_full a then 0 else 1),
                            ms_full_ticks := ms_full_ticks st + 1,
                            ms_full_longest_s := max (ms_full_longest_s st) (go_div (max 0 (at_ms - start) + interval) 1000)\<rparr>\<rparr>
      else a)"

definition agg_add :: "facts \<Rightarrow> int \<Rightarrow> minute_agg \<Rightarrow> minute_agg" where
  "agg_add f interval a =
     (let full = full_update (cpu_load1 (fa_cpu f)) (cpu_ncpu (fa_cpu f)) (mem_pct (fa_mem f)) (mem_pressure (fa_mem f)) (ag_latch a);
          b = add_full (fa_at f) interval full (a\<lparr>ag_latch := full\<rparr>);
          secs = go_div interval 1000;
          st = ag_st b;
          z = dv_zone (fa_derived f)
      in b\<lparr>ag_prev_full := full,
           ag_st := st\<lparr>ms_sampled_s := ms_sampled_s st + secs,
                       ms_normal_s := ms_normal_s st + (if z = ZoneNormal then secs else 0),
                       ms_warning_s := ms_warning_s st + (if z = ZoneWarning then secs else 0),
                       ms_danger_s := ms_danger_s st + (if z = ZoneDanger then secs else 0),
                       ms_heavy_running_max := max (ms_heavy_running_max st) (sl_heavy (fw_running (fa_worker f))),
                       ms_light_running_max := max (ms_light_running_max st) (sl_light (fw_running (fa_worker f)))\<rparr>\<rparr>)"

definition agg_break :: "minute_agg \<Rightarrow> minute_agg" where
  "agg_break a = a\<lparr>ag_prev_full := False\<rparr>"

definition agg_close :: "minute_agg \<Rightarrow> minute_stats \<times> minute_agg" where
  "agg_close a = (ag_st a, a\<lparr>ag_st := zero_stats\<rparr>)"

section \<open>The zone does not flap\<close>

text \<open>
  The zone follows the pressure at once and is left with a margin. A critical level is danger and a
  warning level or a page rate at the limit is warning, whatever was before; below the warning level the
  zone is normal when the rate is under nine tenths of the limit, and between that and the limit it stays
  raised if it was raised and not otherwise. A reading that does not change gives a zone that does not
  change, and without a reading the zone is unknown.
\<close>

theorem zone_rule:
  "(level \<ge> 4 \<longrightarrow> zone_update level rate limit True prev = ZoneDanger)
   \<and> (2 \<le> level \<and> level < 4 \<longrightarrow> zone_update level rate limit True prev = ZoneWarning)
   \<and> (level < 2 \<and> flt (Fin 0) limit \<longrightarrow>
        zone_update level rate limit True prev =
          (if fle limit rate then ZoneWarning
           else if flt rate (fmul exit_margin limit) then ZoneNormal
           else if zone_rank prev \<ge> 2 then ZoneWarning else ZoneNormal))
   \<and> (level < 2 \<and> \<not> flt (Fin 0) limit \<longrightarrow> zone_update level rate limit True prev = ZoneNormal)
   \<and> zone_update level rate limit av (zone_update level rate limit av prev) = zone_update level rate limit av prev
   \<and> zone_update level rate limit False prev = ZoneUnknown"
  by (auto simp: zone_update_def Let_def)

theorem zone_rule_witness:
  "zone_update 4 (Fin 0) page_rate_limit True ZoneNormal = ZoneDanger \<and> zone_update 1 (Fin 60) page_rate_limit True ZoneNormal = ZoneWarning"
  using zone_rule [of 4 "Fin 0" page_rate_limit ZoneNormal True] zone_rule [of 1 "Fin 60" page_rate_limit ZoneNormal True]
  by (simp add: page_rate_limit_def)

text \<open>Leaving danger can skip warning: with the level down and no page rate the next zone is normal.\<close>

lemma danger_may_end_in_normal: "zone_update 1 (Fin 0) (Fin 0) True ZoneDanger = ZoneNormal"
  by (simp add: zone_update_def)

section \<open>Headroom and its reasons agree\<close>

lemma release_light_slots_le: "release_light_slots n hs \<le> n"
  by (induction hs) auto

text \<open>The record \<open>f\<close> carries what was judged from \<open>inp\<close>.\<close>

definition describes :: "facts \<Rightarrow> input \<Rightarrow> derived \<Rightarrow> bool" where
  "describes f inp d \<longleftrightarrow> fa_derived f = d \<and> fw_slots (fa_worker f) = ip_slots inp \<and> fw_running (fa_worker f) = ip_running inp
     \<and> map ex_name (fa_exceptions f) = map ho_name (ip_exceptions inp)
     \<and> (ip_owner_active inp \<longleftrightarrow> fw_owner_rule (fa_worker f) \<noteq> '''' \<and> (case fa_owner f of Some w \<Rightarrow> ow_active w | None \<Rightarrow> False))"

lemma no_reason_free: "heavy_reasons j = [] \<Longrightarrow> 0 < sl_heavy (jd_free j)" "light_reasons j = [] \<Longrightarrow> 0 < sl_light (jd_free j)"
  by (simp_all add: heavy_reasons_def light_reasons_def split: if_splits)

lemma headroom_iff:
  assumes "compute_with_reasons inp latch = ((d, r), z)"
  shows "1 \<le> sl_heavy (dv_headroom d) \<longleftrightarrow> hr_heavy r = []" and "1 \<le> sl_light (dv_headroom d) \<longleftrightarrow> hr_light r = []"
    and "sl_heavy (dv_headroom d) = 0 \<longleftrightarrow> hr_heavy r \<noteq> []" and "sl_light (dv_headroom d) = 0 \<longleftrightarrow> hr_light r \<noteq> []"
proof -
  obtain j where "r = reasons j" and "sl_heavy (dv_headroom d) = (if hr_heavy r = [] then sl_heavy (jd_free j) else 0)"
      and "sl_light (dv_headroom d) = (if hr_light r = [] then sl_light (jd_free j) else 0)"
    using assms unfolding compute_with_reasons_def Let_def by (intro that) auto
  then show "1 \<le> sl_heavy (dv_headroom d) \<longleftrightarrow> hr_heavy r = []" and "1 \<le> sl_light (dv_headroom d) \<longleftrightarrow> hr_light r = []"
    and "sl_heavy (dv_headroom d) = 0 \<longleftrightarrow> hr_heavy r \<noteq> []" and "sl_light (dv_headroom d) = 0 \<longleftrightarrow> hr_light r \<noteq> []"
    using no_reason_free [of j] by (auto simp: reasons_def)
qed

lemma heavy_reasons_cong:
  assumes "jd_worker_off j = jd_worker_off j'" and "jd_zone j = jd_zone j'" and names: "map ho_name (jd_holds j) = map ho_name (jd_holds j')"
    and "jd_owner j = jd_owner j'" and "jd_disk_low j = jd_disk_low j'" and "sl_heavy (jd_free j) = sl_heavy (jd_free j')"
  shows "heavy_reasons j = heavy_reasons j'"
proof -
  have "map (\<lambda>h. ''exception:'' @ ho_name h) hs = map ((@) ''exception:'') (map ho_name hs)" for hs by simp
  from this [of "jd_holds j"] this [of "jd_holds j'"] names assms show ?thesis
    by (simp add: heavy_reasons_def)
qed

text \<open>
  The headroom and its reasons say the same, to whoever asks. A host has room on a side exactly
  when that side has no reason; and a reader that has only the record reads back the same reasons for
  heavy work, and for light work a list that is empty exactly when the host's own is.
\<close>

theorem why_reads_the_judgement_back:
  assumes c: "compute_with_reasons inp latch = ((d, r), z)" and f: "describes f inp d" and on: "fw_enabled (fa_worker f)"
  shows "(1 \<le> sl_heavy (dv_headroom d) \<longleftrightarrow> hr_heavy r = []) \<and> (1 \<le> sl_light (dv_headroom d) \<longleftrightarrow> hr_light r = [])
    \<and> hr_heavy (why f) = hr_heavy r \<and> (hr_light (why f) = [] \<longleftrightarrow> hr_light r = [])"
proof -
  note room = headroom_iff [OF c]
  have fd: "fa_derived f = d" using f by (simp add: describes_def)
  have d: "dv_zone d = z" "dv_disk_low d = ip_disk_low inp"
    using c by (auto simp: compute_with_reasons_def Let_def)
  define j where "j = \<lparr>jd_worker_off = False, jd_zone = z, jd_holds = ip_exceptions inp, jd_owner = ip_owner_active inp,
               jd_disk_low = ip_disk_low inp,
               jd_free = \<lparr>sl_heavy = free_slots (sl_heavy (ip_slots inp)) (sl_heavy (ip_running inp)),
                          sl_light = free_slots (release_light_slots (sl_light (ip_slots inp)) (ip_exceptions inp)) (sl_light (ip_running inp))\<rparr>\<rparr>"
  have r: "r = reasons j"
    using c by (auto simp: compute_with_reasons_def Let_def j_def)
  define j' where "j' = (if sl_light (dv_headroom d) = 0 \<and> jd_holds (record_judgement f) \<noteq> [] \<and> reasons_light_ignoring_holds (record_judgement f) = 0
      then (record_judgement f)\<lparr>jd_holds := map (\<lambda>h. h\<lparr>ho_light := True\<rparr>) (jd_holds (record_judgement f))\<rparr> else record_judgement f)"
  have heavy: "heavy_reasons j' = heavy_reasons j"
    by (rule heavy_reasons_cong) (use f on d in \<open>auto simp: j'_def j_def record_judgement_def describes_def comp_def\<close>)
  have "hr_heavy (why f) = hr_heavy r"
    using heavy room(3) by (simp add: why_def Let_def fd r reasons_def flip: j'_def)
  moreover have "hr_light (why f) = []" if l: "hr_light r = []"
  proof -
    have j': "j' = record_judgement f" using room(4) l by (simp add: j'_def)
    have "light_reasons (record_judgement f) = []"
      using l f on d release_light_slots_le [of "sl_light (ip_slots inp)" "ip_exceptions inp"]
      by (auto simp: r reasons_def light_reasons_def j_def record_judgement_def describes_def free_slots_def
          filter_empty_conv split: zone.splits if_splits)
    then show ?thesis
      using room(4) l by (simp add: why_def Let_def fd reasons_def j' flip: j'_def)
  qed
  moreover have "hr_light (why f) \<noteq> []" if "hr_light r \<noteq> []"
    using room(4) that by (simp add: why_def Let_def fd)
  ultimately show ?thesis
    using room(1,2) by blast
qed

definition sample_derived :: derived where
  "sample_derived = \<lparr>dv_zone = ZoneNormal, dv_zone_override = None, dv_headroom = \<lparr>sl_heavy = 1, sl_light = 0\<rparr>, dv_sessions_room = 8, dv_disk_low = False\<rparr>"

definition sample_facts :: facts where
  "sample_facts =
     \<lparr>fa_v = 1, fa_host_id = ''h'', fa_alias = ''m1'', fa_at = 1000, fa_platform = ''linux'', fa_arch = ''amd64'', fa_os_version = ''6.1'',
      fa_cpu = \<lparr>cpu_ncpu = 8, cpu_load1 = Fin 9, cpu_load5 = Fin 1, cpu_idle_pct = Fin 90, cpu_load15 = None, cpu_user_pct = None,
                cpu_system_pct = None, cpu_cores = []\<rparr>,
      fa_mem = \<lparr>mem_total_mb = 0, mem_available_mb = 0, mem_pressure = 1, mem_page_out_rate = None, mem_swap_out_rate = None,
                mem_swap_used_mb = None, mem_compressor_mb = None, mem_psi = None, mem_decompress_rate = None, mem_swap_total_mb = None,
                mem_wired_mb = None, mem_active_mb = None, mem_inactive_mb = None, mem_file_cache_mb = None\<rparr>,
      fa_disk = [], fa_procs = [], fa_residents = [],
      fa_tools = \<lparr>to_go = Some ''1.26.0'', to_node = Some ''24.14.0'', to_pnpm = None, to_php = [], to_xcode = None, to_claude = None\<rparr>,
      fa_owner = None, fa_exceptions = [], fa_derived = sample_derived,
      fa_worker = \<lparr>fw_enabled = True, fw_slots = \<lparr>sl_heavy = 2, sl_light = 1\<rparr>, fw_running = \<lparr>sl_heavy = 1, sl_light = 1\<rparr>, fw_owner_rule = '''', fw_waiting = None\<rparr>,
      fa_stats = None, fa_queued = None, fa_procs_total = None, fa_boot_at = None, fa_self = None, fa_disk_io = []\<rparr>"

definition sample_input :: input where
  "sample_input = \<lparr>ip_pressure = 1, ip_pressure_known = True, ip_page_rate = Fin 0, ip_rate_limit = Fin 0, ip_slots = \<lparr>sl_heavy = 2, sl_light = 1\<rparr>,
     ip_running = \<lparr>sl_heavy = 1, sl_light = 1\<rparr>, ip_owner_active = False, ip_exceptions = [], ip_available_mb = 9000, ip_compressor_mb = 0, ip_disk_low = False\<rparr>"

theorem why_reads_the_judgement_back_witness: "hr_heavy (why sample_facts) = [] \<and> hr_light (why sample_facts) \<noteq> []"
proof -
  have "compute_with_reasons sample_input zero_latch = ((sample_derived, \<lparr>hr_heavy = [], hr_light = [''slots_full'']\<rparr>), ZoneNormal)"
    by (simp add: compute_with_reasons_def sample_input_def zone_update_def zero_latch_def reasons_def heavy_reasons_def light_reasons_def
        free_slots_def sample_derived_def session_reserve_mb_def session_mb_def sessions_cap_def go_div_def)
  moreover have "describes sample_facts sample_input sample_derived" and "fw_enabled (fa_worker sample_facts)"
    by (simp_all add: describes_def sample_facts_def sample_input_def)
  ultimately show ?thesis
    using why_reads_the_judgement_back [of sample_input zero_latch sample_derived] by fastforce
qed

section \<open>What the fast lane may start\<close>

text \<open>
  The fast lane starts a heavy run exactly when the zone is normal, no exception is on, the disk is
  above its floor, a heavy slot is free of what runs now, and no queued job has waited so long that the
  fast lane gives way; it starts a light run exactly when the zone is not danger and a light slot is free.
  Neither the owner at the keyboard nor a worker that is off stops it.
\<close>

theorem fast_lane_rule:
  "(admit_local_at f True running now p = [] \<longleftrightarrow>
      dv_zone (fa_derived f) = ZoneNormal \<and> fa_exceptions f = [] \<and> \<not> dv_disk_low (fa_derived f)
      \<and> sl_heavy running < sl_heavy (fw_slots (fa_worker f)) \<and> \<not> fst (judge p (fw_waiting (fa_worker f)) now))
   \<and> (admit_local_at f False running now p = [] \<longleftrightarrow>
      dv_zone (fa_derived f) \<noteq> ZoneDanger \<and> sl_light running < sl_light (fw_slots (fa_worker f)))"
proof -
  have y: "yield_reason w now \<noteq> []" if "fst (judge p w now)" for w
    using that by (auto simp: yield_reason_def judge_def split: option.splits)
  show ?thesis
    using y by (cases "dv_zone (fa_derived f)")
      (auto simp: admit_local_at_def admit_local0_def Let_def reasons_def heavy_reasons_def light_reasons_def free_slots_def filter_empty_conv)
qed

section \<open>The minute's totals\<close>

text \<open>What happens to the aggregate: a sample of the usual interval, a clock that stepped back, the end of a minute.\<close>

datatype agg_event = Sample facts | ClockBack | MinuteEnd

fun agg_step :: "agg_event \<Rightarrow> minute_agg \<Rightarrow> minute_agg" where
  "agg_step (Sample f) a = agg_add f (sample_interval_s * 1000) a"
| "agg_step ClockBack a = agg_break a"
| "agg_step MinuteEnd a = snd (agg_close a)"

lemma stats_valid_iff:
  "minute_stats_validate s = None \<longleftrightarrow>
     0 \<le> ms_sampled_s s \<and> 0 \<le> ms_full_ticks s \<and> 0 \<le> ms_full_starts s \<and> 0 \<le> ms_full_longest_s s \<and> 0 \<le> ms_normal_s s
     \<and> 0 \<le> ms_warning_s s \<and> 0 \<le> ms_danger_s s \<and> 0 \<le> ms_heavy_running_max s \<and> 0 \<le> ms_light_running_max s
     \<and> (\<forall>n. ms_gate_waiting_max s = Some n \<longrightarrow> 0 \<le> n) \<and> ms_normal_s s + ms_warning_s s + ms_danger_s s \<le> ms_sampled_s s
     \<and> ms_full_ticks s * 5 \<le> ms_sampled_s s \<and> ms_full_starts s \<le> ms_full_ticks s"
  by (auto simp: minute_stats_validate_def first_error_None_iff sample_interval_s_def not_less split: option.split)

lemma add_full_totals [simp]:
  "ms_sampled_s (ag_st (add_full t i b a)) = ms_sampled_s (ag_st a)" "ms_normal_s (ag_st (add_full t i b a)) = ms_normal_s (ag_st a)"
  "ms_warning_s (ag_st (add_full t i b a)) = ms_warning_s (ag_st a)" "ms_danger_s (ag_st (add_full t i b a)) = ms_danger_s (ag_st a)"
  "ms_heavy_running_max (ag_st (add_full t i b a)) = ms_heavy_running_max (ag_st a)"
  "ms_light_running_max (ag_st (add_full t i b a)) = ms_light_running_max (ag_st a)"
  "ms_gate_waiting_max (ag_st (add_full t i b a)) = ms_gate_waiting_max (ag_st a)"
  "ms_full_ticks (ag_st (add_full t i b a)) = ms_full_ticks (ag_st a) + (if b then 1 else 0)"
  "ms_full_starts (ag_st (add_full t i b a)) = ms_full_starts (ag_st a) + (if b \<and> \<not> ag_prev_full a then 1 else 0)"
  by (simp_all add: add_full_def Let_def)

lemma add_full_longest: "ms_full_longest_s (ag_st a) \<le> ms_full_longest_s (ag_st (add_full t i b a))"
  by (simp add: add_full_def Let_def)

interpretation minutes: machine agg_step zero_agg "\<lambda>_. True" "\<lambda>a. minute_stats_validate (ag_st a) = None"
proof
  show "minute_stats_validate (ag_st zero_agg) = None"
    by (simp add: stats_valid_iff zero_agg_def zero_stats_def)
  show "minute_stats_validate (ag_st (agg_step e a)) = None" if v: "minute_stats_validate (ag_st a) = None" for e a
  proof (cases e)
    case (Sample f)
    define b where "b = full_update (cpu_load1 (fa_cpu f)) (cpu_ncpu (fa_cpu f)) (mem_pct (fa_mem f)) (mem_pressure (fa_mem f)) (ag_latch a)"
    have "0 \<le> ms_full_longest_s (ag_st (add_full (fa_at f) 5000 b (a\<lparr>ag_latch := b\<rparr>)))"
      using v add_full_longest [of "a\<lparr>ag_latch := b\<rparr>" "fa_at f" 5000 b] by (simp add: stats_valid_iff)
    then show ?thesis
      using v unfolding stats_valid_iff Sample
      by (cases "dv_zone (fa_derived f)") (simp_all add: agg_add_def Let_def sample_interval_s_def go_div_def le_max_iff_disj flip: b_def)
  next
    case MinuteEnd
    then show ?thesis by (simp add: agg_close_def stats_valid_iff zero_stats_def)
  qed (use v in \<open>simp add: agg_break_def\<close>)
qed

text \<open>
  Whatever samples come, however the clock steps and wherever the minutes end, the totals of a
  minute pass the check every reader makes: nothing is negative, the seconds in the zones and in full
  ticks fit in the seconds sampled, and no more full runs begin than samples were full.
\<close>

theorem minute_totals_valid: "minute_stats_validate (fst (agg_close (fold agg_step es zero_agg))) = None"
  using minutes.inv_run [of es] by (simp add: agg_close_def list_all_iff)

end
