(* ===== verification/GoSort.thy ===== *)
theory GoSort
  imports "HOL-Library.Multiset"
begin

text \<open>
  \<open>sort.SliceStable\<close> of the standard library, as a stable sort driven by the caller's comparison, and
  the contract under which it means anything: the comparison is a strict weak order on the elements
  it is given. Under it the result is the one stable arrangement, so the algorithm the library uses
  does not matter.
\<close>

fun stable_insert :: "('a \<Rightarrow> 'a \<Rightarrow> bool) \<Rightarrow> 'a \<Rightarrow> 'a list \<Rightarrow> 'a list" where
  "stable_insert lt x [] = [x]"
| "stable_insert lt x (y # ys) = (if lt y x then y # stable_insert lt x ys else x # y # ys)"

definition stable_sort :: "('a \<Rightarrow> 'a \<Rightarrow> bool) \<Rightarrow> 'a list \<Rightarrow> 'a list" where
  "stable_sort lt xs = foldr (stable_insert lt) xs []"

lemma stable_sort_simps [simp]: "stable_sort lt [] = []" "stable_sort lt (x # xs) = stable_insert lt x (stable_sort lt xs)"
  by (simp_all add: stable_sort_def)

lemma mset_stable_insert [simp]: "mset (stable_insert lt x ys) = add_mset x (mset ys)"
  by (induction ys) auto

lemma mset_stable_sort [simp]: "mset (stable_sort lt xs) = mset xs"
  by (induction xs) auto

lemma set_stable_insert [simp]: "set (stable_insert lt x ys) = insert x (set ys)"
  by (induction ys) auto

lemma set_stable_sort [simp]: "set (stable_sort lt xs) = set xs"
  by (induction xs) auto

section \<open>The contract of a comparison\<close>

locale go_order =
  fixes lt :: "'a \<Rightarrow> 'a \<Rightarrow> bool" and ok :: "'a \<Rightarrow> bool"
  assumes less_asym: "ok a \<Longrightarrow> ok b \<Longrightarrow> lt a b \<Longrightarrow> \<not> lt b a"
    and less_between: "ok a \<Longrightarrow> ok b \<Longrightarrow> ok c \<Longrightarrow> lt a c \<Longrightarrow> lt a b \<or> lt b c"
begin

definition in_order :: "'a list \<Rightarrow> bool" where
  "in_order xs \<longleftrightarrow> sorted_wrt (\<lambda>a b. \<not> lt b a) xs"

definition same_place :: "'a \<Rightarrow> 'a \<Rightarrow> bool" where
  "same_place a b \<longleftrightarrow> \<not> lt a b \<and> \<not> lt b a"

lemma not_less_trans: "ok a \<Longrightarrow> ok b \<Longrightarrow> ok c \<Longrightarrow> \<not> lt b a \<Longrightarrow> \<not> lt c b \<Longrightarrow> \<not> lt c a"
  using less_between by blast

lemma in_order_Cons [simp]: "in_order (x # xs) \<longleftrightarrow> (\<forall>y \<in> set xs. \<not> lt y x) \<and> in_order xs" and in_order_Nil [simp]: "in_order []"
  by (simp_all add: in_order_def)

lemma in_order_insert: "ok x \<Longrightarrow> \<forall>y \<in> set ys. ok y \<Longrightarrow> in_order ys \<Longrightarrow> in_order (stable_insert lt x ys)"
  by (induction ys) (auto dest: less_asym not_less_trans)

lemma in_order_sort: "\<forall>x \<in> set xs. ok x \<Longrightarrow> in_order (stable_sort lt xs)"
  by (induction xs) (auto intro: in_order_insert)

lemma filter_insert:
  "ok x \<Longrightarrow> ok z \<Longrightarrow> \<forall>y \<in> set ys. ok y \<Longrightarrow>
   filter (same_place z) (stable_insert lt x ys) = filter (same_place z) (x # ys)"
proof (induction ys)
  case (Cons y ys)
  have "\<not> (same_place z x \<and> same_place z y)" if "lt y x"
    using that Cons.prems less_between [of y z x] by (auto simp: same_place_def)
  then show ?case using Cons by auto
qed simp

lemma stable: "\<forall>x \<in> set xs. ok x \<Longrightarrow> ok z \<Longrightarrow> filter (same_place z) (stable_sort lt xs) = filter (same_place z) xs"
  by (induction xs) (auto simp: filter_insert)

lemma head_least:
  assumes "in_order (y # ys)" "in_order zs" "mset zs = mset (y # ys)" "\<forall>x \<in> set (y # ys). ok x"
    and "\<And>z. ok z \<Longrightarrow> filter (same_place z) zs = filter (same_place z) (y # ys)"
  shows "\<exists>ws. zs = y # ws"
proof (cases zs)
  case (Cons w ws)
  have w: "w \<in> set (y # ys)" and y: "y \<in> set (w # ws)"
    using assms(3) Cons by (metis list.set_intros(1) set_mset_mset)+
  then have "same_place y w" "same_place y y"
    using assms(1,2,4) Cons less_asym by (auto simp: same_place_def)
  then show ?thesis using assms(4) assms(5) [of y] Cons by simp
qed (use assms(3) in simp)

text \<open>The stable arrangement in order is unique.\<close>

lemma arrangement_unique:
  assumes "in_order ys" "in_order zs" "mset zs = mset ys" "\<forall>x \<in> set ys. ok x"
    and "\<And>z. ok z \<Longrightarrow> filter (same_place z) zs = filter (same_place z) ys"
  shows "zs = ys"
  using assms
proof (induction ys arbitrary: zs)
  case (Cons y ys)
  from head_least [OF Cons.prems] obtain ws where ws: "zs = y # ws" by blast
  have "ws = ys"
  proof (rule Cons.IH)
    show "filter (same_place z) ws = filter (same_place z) ys" if "ok z" for z
      using Cons.prems(5) [OF that] ws by (simp split: if_splits)
  qed (use Cons.prems ws in auto)
  then show ?case using ws by simp
qed simp

lemma sort_unique:
  assumes "\<forall>x \<in> set xs. ok x" and "in_order zs" "mset zs = mset xs" and "\<And>z. ok z \<Longrightarrow> filter (same_place z) zs = filter (same_place z) xs"
  shows "zs = stable_sort lt xs"
  by (rule arrangement_unique) (use assms in \<open>simp_all add: in_order_sort stable\<close>)

lemma first_is_least:
  assumes "\<forall>x \<in> set xs. ok x" "x \<in> set xs" "\<forall>y \<in> set xs. y \<noteq> x \<longrightarrow> lt x y"
  shows "hd (stable_sort lt xs) = x"
proof (cases "stable_sort lt xs")
  case (Cons y ys)
  moreover have "in_order (y # ys)" "set (y # ys) = set xs" using in_order_sort [OF assms(1)] set_stable_sort [of lt xs] Cons by simp_all
  ultimately show ?thesis using assms(2,3) by (metis in_order_Cons list.sel(1) list.set_intros(1) set_ConsD)
qed (use assms(2) set_stable_sort [of lt xs] in simp)

end

section \<open>Orders from orders\<close>

text \<open>Comparing by one rule first and by a second where the first leaves a tie.\<close>

definition then_by :: "('a \<Rightarrow> 'a \<Rightarrow> bool) \<Rightarrow> ('a \<Rightarrow> 'a \<Rightarrow> bool) \<Rightarrow> 'a \<Rightarrow> 'a \<Rightarrow> bool" where
  "then_by r s a b \<longleftrightarrow> r a b \<or> (\<not> r b a \<and> s a b)"

lemma go_order_then_by:
  assumes "go_order r ok" "go_order s ok"
  shows "go_order (then_by r s) ok"
proof
  show "\<not> then_by r s b a" if "ok a" "ok b" "then_by r s a b" for a b
    using that go_order.less_asym [OF assms(1)] go_order.less_asym [OF assms(2)] unfolding then_by_def by blast
  show "then_by r s a b \<or> then_by r s b c" if "ok a" "ok b" "ok c" "then_by r s a c" for a b c
    using that go_order.less_asym [OF assms(1)] go_order.less_between [OF assms(1)] go_order.less_between [OF assms(2)]
    unfolding then_by_def by metis
qed

lemma go_order_by_key: "go_order (\<lambda>a b. f a < f b) ok" for f :: "'a \<Rightarrow> 'b :: linorder"
  by unfold_locales auto

end
