(* ===== verification/Pick.thy ===== *)
theory Pick
  imports Derived GoSort "HOL-Library.Char_ord" "HOL-Library.List_Lexorder"
begin

text \<open>
  Which queued job a worker tries next (package \<open>worker/pick\<close>): the score on floating point numbers,
  the conditions under which a job is left out, the order, the job that is left to a faster host, and
  the collection of the candidates from the origins. The current time is in nanoseconds, as the clock
  gives it; a job's creation is in milliseconds, as the queue stores it.
\<close>

section \<open>Candidates and what the worker knows\<close>

record candidate =
  cd_source :: string
  cd_zone :: zone
  cd_job :: job

text \<open>A function that may be nil is an option.\<close>

record pick_env =
  en_now :: int
  en_labels :: "string list"
  en_explicit_labels_only :: bool
  en_speed_factor :: float64
  en_estimate :: "(job \<Rightarrow> float64) option"
  en_locked :: "(string list \<Rightarrow> bool) option"
  en_warm :: "(job \<Rightarrow> bool) option"
  en_suspended :: "(string \<Rightarrow> string \<Rightarrow> bool) option"
  en_held_off :: "(string \<Rightarrow> string \<Rightarrow> bool) option"
  en_task_held :: "(string \<Rightarrow> string \<Rightarrow> string \<Rightarrow> bool) option"
  en_faster :: "(candidate \<Rightarrow> bool) option"
  en_admit :: "(job \<Rightarrow> bool) option"

record scored =
  sc_candidate :: candidate
  sc_score :: float64

abbreviation sc_job :: "scored \<Rightarrow> job" where
  "sc_job e \<equiv> cd_job (sc_candidate e)"

definition class_rank :: "job_class \<Rightarrow> float64" where
  "class_rank c = (case c of ClassRelease \<Rightarrow> Fin 3 | ClassMerge \<Rightarrow> Fin 2 | _ \<Rightarrow> Fin 1)"

definition explicit :: "string list \<Rightarrow> bool" where
  "explicit labels \<longleftrightarrow> list_ex (\<lambda>l. has_prefix ''os:'' l \<or> has_prefix ''task:'' l \<or> has_prefix ''host:'' l) labels"

definition subset_labels :: "string list \<Rightarrow> string list \<Rightarrow> bool" where
  "subset_labels need have = list_all (\<lambda>n. list_ex (\<lambda>h. h = n) have) need"

definition eligible :: "string list \<Rightarrow> string list \<Rightarrow> bool \<Rightarrow> bool" where
  "eligible need have explicit_only \<longleftrightarrow> subset_labels need have \<and> (\<not> explicit_only \<or> explicit need)"

section \<open>Durations\<close>

text \<open>\<open>Time.Sub\<close> in nanoseconds, which saturates at the ends of the type.\<close>

definition time_sub :: "int \<Rightarrow> int \<Rightarrow> int" where
  "time_sub now_ns at_ms = max (- (2 ^ 63)) (min (2 ^ 63 - 1) (now_ns - at_ms * 1000000))"

text \<open>\<open>Duration.Minutes\<close> and the conversion of a number to \<open>int\<close> (toward zero) for numbers in the range of the type.\<close>

definition minutes :: "int \<Rightarrow> float64" where
  "minutes d = fadd (of_int64 (go_div d 60000000000)) (fdiv (of_int64 (d - go_div d 60000000000 * 60000000000)) (of_int64 60000000000))"

definition to_int :: "float64 \<Rightarrow> int" where
  "to_int a = (case a of Fin x \<Rightarrow> (if x \<ge> 0 then \<lfloor>x\<rfloor> else \<lceil>x\<rceil>) | _ \<Rightarrow> 0)"

section \<open>Rank\<close>

text \<open>
  \<open>score -= a * b\<close>. The language lets a compiler fuse the two operations into one rounding, as it
  does on arm64, so the model has both.
\<close>

definition sub_mul :: "bool \<Rightarrow> float64 \<Rightarrow> float64 \<Rightarrow> float64 \<Rightarrow> float64" where
  "sub_mul fused s a b =
     (case (s, a, b) of (Fin x, Fin y, Fin z) \<Rightarrow> (if fused then round64 (x - y * z) else fsub s (fmul a b))
      | _ \<Rightarrow> fsub s (fmul a b))"

definition usable :: "float64 \<Rightarrow> bool" where
  "usable f \<longleftrightarrow> finite64 f \<and> flt (Fin 0) f"

definition speed_of :: "float64 \<Rightarrow> float64" where
  "speed_of f = (if usable f then f else Fin 1)"

text \<open>The creation times of the queued jobs of a session that are visible, and how many are before the job's.\<close>

definition by_session :: "candidate list \<Rightarrow> string \<Rightarrow> int list" where
  "by_session cands s = map (\<lambda>c. j_created_at (cd_job c))
     (filter (\<lambda>c. j_state (cd_job c) = StateQueued \<and> sub_session (j_submitter (cd_job c)) \<noteq> '''' \<and> sub_session (j_submitter (cd_job c)) = s) cands)"

definition earlier :: "candidate list \<Rightarrow> job \<Rightarrow> nat" where
  "earlier cands j = length (filter (\<lambda>a. a < j_created_at j) (by_session cands (sub_session (j_submitter j))))"

definition asks :: "('a \<Rightarrow> bool) option \<Rightarrow> 'a \<Rightarrow> bool" where
  "asks f x = (case f of None \<Rightarrow> False | Some g \<Rightarrow> g x)"

definition takeable :: "pick_env \<Rightarrow> candidate \<Rightarrow> bool" where
  "takeable env c = (let j = cd_job c in
     \<not> (j_state j \<noteq> StateQueued \<or> \<not> eligible (j_labels j) (en_labels env) (en_explicit_labels_only env))
     \<and> \<not> asks (en_locked env) (j_locks j)
     \<and> \<not> (case en_suspended env of None \<Rightarrow> False | Some f \<Rightarrow> f (cd_source c) (repo_name (j_repo j)))
     \<and> \<not> (case en_held_off env of None \<Rightarrow> False | Some f \<Rightarrow> f (cd_source c) (j_id j))
     \<and> \<not> (case en_task_held env of None \<Rightarrow> False | Some f \<Rightarrow> f (cd_source c) (repo_name (j_repo j)) (j_task j))
     \<and> \<not> asks (en_faster env) c
     \<and> j_manual j \<noteq> PositionHold
     \<and> (case en_admit env of None \<Rightarrow> True | Some f \<Rightarrow> f j))"

definition score_of :: "bool \<Rightarrow> candidate list \<Rightarrow> pick_env \<Rightarrow> candidate \<Rightarrow> float64" where
  "score_of fused cands env c =
     (let j = cd_job c;
          wait = minutes (time_sub (en_now env) (j_created_at j));
          wait = (if flt wait (Fin 0) then Fin 0 else wait);
          s = fadd (fmul (Fin 1000) (class_rank (j_class j))) (of_int64 (to_int wait));
          s = (case cd_zone c of ZoneWarning \<Rightarrow> fadd s (Fin 200) | ZoneDanger \<Rightarrow> fadd s (Fin 400) | _ \<Rightarrow> s);
          s = (if asks (en_warm env) j then fadd s (Fin 50) else s);
          s = (case en_estimate env of None \<Rightarrow> s
               | Some f \<Rightarrow> (if usable (f j) then sub_mul fused s (speed_of (en_speed_factor env)) (f j) else s))
      in sub_mul fused s (Fin 30) (of_int64 (int (earlier cands j))))"

definition group :: "scored \<Rightarrow> nat" where
  "group e = (case j_manual (sc_job e) of PositionFront \<Rightarrow> 0 | PositionBack \<Rightarrow> 2 | _ \<Rightarrow> 1)"

definition rank_less :: "scored \<Rightarrow> scored \<Rightarrow> bool" where
  "rank_less a b =
     (if group a \<noteq> group b then group a < group b
      else if group a \<noteq> 1 \<and> j_manual_seq (sc_job a) \<noteq> j_manual_seq (sc_job b) then j_manual_seq (sc_job a) < j_manual_seq (sc_job b)
      else if group a = 1 \<and> \<not> feq (sc_score a) (sc_score b) then flt (sc_score b) (sc_score a)
      else if j_created_at (sc_job a) \<noteq> j_created_at (sc_job b) then j_created_at (sc_job a) < j_created_at (sc_job b)
      else j_id (sc_job a) < j_id (sc_job b))"

definition entries :: "bool \<Rightarrow> candidate list \<Rightarrow> pick_env \<Rightarrow> scored list" where
  "entries fused cands env = map (\<lambda>c. \<lparr>sc_candidate = c, sc_score = score_of fused cands env c\<rparr>) (filter (takeable env) cands)"

definition rank :: "bool \<Rightarrow> candidate list \<Rightarrow> pick_env \<Rightarrow> scored list" where
  "rank fused cands env = stable_sort rank_less (entries fused cands env)"

section \<open>Leaving a job to a faster host\<close>

definition names_peer :: "job \<Rightarrow> float64 \<Rightarrow> peer \<Rightarrow> bool" where
  "names_peer j self_speed p =
     (let w = in_worker (pe_info p) in
      \<not> (\<not> pe_reachable p \<or> \<not> iw_enabled w \<or> \<not> finite64 (iw_speed_factor w) \<or> fle (iw_speed_factor w) (Fin 0) \<or> fle self_speed (iw_speed_factor w))
      \<and> eligible (j_labels j) (in_labels (pe_info p)) (iw_explicit_labels_only w)
      \<and> (case pe_facts p of None \<Rightarrow> False | Some f \<Rightarrow> heavy_room_for f (j_class j) (repo_name (j_repo j))))"

definition faster_host :: "job \<Rightarrow> float64 \<Rightarrow> peer list \<Rightarrow> int \<Rightarrow> int \<Rightarrow> string option" where
  "faster_host j self_speed peers now_ns patience =
     (if patience \<le> 0 \<or> time_sub now_ns (j_created_at j) \<ge> patience then None
      else map_option (\<lambda>p. in_alias (pe_info p)) (List.find (names_peer j (speed_of self_speed)) peers))"

section \<open>The candidates\<close>

text \<open>What is kept of a peer's answer.\<close>

definition peer_queued :: "job list \<Rightarrow> job list" where
  "peer_queued jobs = filter (\<lambda>j. j_state j = StateQueued \<and> \<not> j_adhoc j \<and> \<not> j_local j) jobs"

text \<open>\<open>Collect\<close>, on the answers of the sources in the order of the sources; of two errors under one host the later one stays.\<close>

fun collect :: "(string \<times> ('e + job list)) list \<Rightarrow> (string \<Rightarrow> zone) option \<Rightarrow> candidate list \<times> (string \<rightharpoonup> 'e)" where
  "collect [] zone_fn = ([], Map.empty)"
| "collect ((host, answer) # srcs) zone_fn =
     (let (cands, errs) = collect srcs zone_fn in
      case answer of
        Inl e \<Rightarrow> (cands, if host \<in> dom errs then errs else errs(host \<mapsto> e))
      | Inr jobs \<Rightarrow> (map (\<lambda>j. \<lparr>cd_source = host, cd_zone = (case zone_fn of None \<Rightarrow> ZoneOther '''' | Some f \<Rightarrow> f host), cd_job = j\<rparr>) jobs @ cands, errs))"

section \<open>Scores can be ordered\<close>

lemma round64_upto: "x \<le> of_int n \<Longrightarrow> \<bar>n\<bar> \<le> 2 ^ 53 \<Longrightarrow> fle (round64 x) (Fin (of_int n))"
  using round64_mono [of x "of_int n"] round64_int [of n] by simp

lemma round64_from: "of_int n \<le> x \<Longrightarrow> \<bar>n\<bar> \<le> 2 ^ 53 \<Longrightarrow> fle (Fin (of_int n)) (round64 x)"
  using round64_mono [of "of_int n" x] round64_int [of n] by simp

lemma fle_Fin_iff: "fle (Fin x) a \<and> fle a (Fin y) \<longleftrightarrow> (\<exists>z. a = Fin z \<and> x \<le> z \<and> z \<le> y)"
  by (cases a) auto

lemma minutes_parts:
  "go_div d 60000000000 = q \<Longrightarrow> d - q * 60000000000 = r \<Longrightarrow> \<bar>q\<bar> \<le> 2 ^ 53 \<Longrightarrow> \<bar>r\<bar> < 60000000000 \<Longrightarrow>
   minutes d = fadd (Fin (of_int q)) (round64 (of_int r / 60000000000))"
  by (simp add: minutes_def fdiv_def)

lemma minutes_between:
  assumes "0 \<le> d" "d < 2 ^ 63"
  shows "\<exists>x. minutes d = Fin x \<and> 0 \<le> x \<and> x \<le> of_int (d div 60000000000 + 1)"
proof -
  let ?q = "d div 60000000000" and ?r = "d mod 60000000000"
  have q: "0 \<le> ?q" "?q + 1 \<le> 2 ^ 52" using assms zdiv_mono1 [of d "2 ^ 63" 60000000000] by simp_all
  have r: "0 \<le> ?r" "?r < 60000000000" by simp_all
  have sel: "go_div d 60000000000 = ?q" "d - ?q * 60000000000 = ?r"
    using assms by (simp_all add: go_div_def minus_div_mult_eq_mod)
  obtain f where f: "round64 (of_int ?r / 60000000000) = Fin f" "0 \<le> f" "f \<le> 1"
    using round64_from [of 0 "of_int ?r / 60000000000"] round64_upto [of "of_int ?r / 60000000000" 1] r fle_Fin_iff [of 0 _ 1]
    by auto
  have "minutes d = round64 (of_int ?q + f)"
    using minutes_parts [OF sel] q r f by simp
  moreover have "\<exists>x. round64 (of_int ?q + f) = Fin x \<and> 0 \<le> x \<and> x \<le> of_int (?q + 1)"
    using round64_from [of 0 "of_int ?q + f"] round64_upto [of "of_int ?q + f" "?q + 1"] q f fle_Fin_iff [of 0 _ "of_int (?q + 1)"]
    by auto
  ultimately show ?thesis by simp
qed

lemma minutes_negative:
  assumes "d < 0" "- (2 ^ 63) \<le> d"
  shows "fle (minutes d) (Fin 0)"
proof -
  let ?q = "(- d) div 60000000000" and ?r = "(- d) mod 60000000000"
  have q: "0 \<le> ?q" "?q \<le> 2 ^ 52" using assms zdiv_mono1 [of "- d" "2 ^ 63" 60000000000] by simp_all
  have r: "0 \<le> ?r" "?r < 60000000000" by simp_all
  have sel: "go_div d 60000000000 = - ?q" "d - (- ?q) * 60000000000 = - ?r"
    using assms by (simp add: go_div_def) (simp only: minus_mult_div_eq_mod [symmetric] minus_diff_eq diff_minus_eq_add mult.commute mult_minus_left add.commute)
  obtain f where f: "round64 (- of_int ?r / 60000000000) = Fin f" "f \<le> 0"
    using round64_from [of "-1" "- of_int ?r / 60000000000"] round64_upto [of "- of_int ?r / 60000000000" 0] r fle_Fin_iff [of "-1" _ 0]
    by auto
  have "minutes d = round64 (- of_int ?q + f)"
    using minutes_parts [OF sel] q r f by (simp del: minus_mod_int_eq)
  then show ?thesis using round64_upto [of "- of_int ?q + f" 0] q f by simp
qed

lemma waited_between:
  assumes "wait = minutes (time_sub n a)"
  shows "\<exists>k. to_int (if flt wait (Fin 0) then Fin 0 else wait) = k \<and> 0 \<le> k \<and> k \<le> 2 ^ 52"
proof (cases "time_sub n a < 0")
  case True
  then have "fle wait (Fin 0)" using minutes_negative [of "time_sub n a"] assms by (simp add: time_sub_def)
  then show ?thesis by (cases wait) (auto simp: to_int_def fle_def)
next
  case False
  have b: "time_sub n a < 2 ^ 63" by (simp add: time_sub_def)
  then obtain x where x: "wait = Fin x" "0 \<le> x" "x \<le> of_int (time_sub n a div 60000000000 + 1)"
    using minutes_between [of "time_sub n a"] assms False by auto
  have "time_sub n a div 60000000000 + 1 \<le> 2 ^ 52" using False b zdiv_mono1 [of "time_sub n a" "2 ^ 63" 60000000000] by simp
  moreover have "\<lfloor>x\<rfloor> \<le> time_sub n a div 60000000000 + 1" using x(3) by (metis floor_mono floor_of_int)
  ultimately show ?thesis using x by (simp add: to_int_def)
qed

lemma sub_mul_low:
  assumes "fle s (Fin (2 ^ 53))" "a = Fin x" "0 < x" "b = Fin y \<and> 0 \<le> y \<or> b = PInf"
  shows "fle (sub_mul fused s a b) (Fin (2 ^ 53))"
proof (cases s)
  case (Fin u)
  have u: "u \<le> of_int (2 ^ 53)" using assms(1) Fin by simp
  show ?thesis
  proof (cases b)
    case (Fin z)
    then have p: "0 \<le> x * z" "a = Fin x" "b = Fin z" using assms by auto
    have low: "fle (round64 (u - v)) (Fin (2 ^ 53))" if "0 \<le> v" for v
      using round64_upto [of "u - v" "2 ^ 53"] u that by simp
    have "fle (Fin 0) (round64 (x * z))" using round64_from [of 0 "x * z"] p by simp
    then have "fle (fsub s (fmul a b)) (Fin (2 ^ 53))"
      using p \<open>s = Fin u\<close> low by (cases "round64 (x * z)") (auto simp: fsub_def fmul_def)
    then show ?thesis using p low [OF p(1)] \<open>s = Fin u\<close> by (simp add: sub_mul_def)
  qed (use assms \<open>s = Fin u\<close> in \<open>auto simp: sub_mul_def fsub_def fmul_def inf_times_def\<close>)
next
  case NInf
  have "fmul a b \<noteq> NaN \<and> fmul a b \<noteq> NInf"
    using assms round64_from [of 0 "x * y"] by (cases b) (auto simp: fmul_def inf_times_def split: if_splits)
  then show ?thesis using NInf by (cases "fmul a b") (auto simp: sub_mul_def fsub_def)
qed (use assms(1) in auto)

lemma of_int64_nonneg: "0 \<le> n \<Longrightarrow> (\<exists>y. of_int64 n = Fin y \<and> 0 \<le> y) \<or> of_int64 n = PInf"
  using round64_from [of 0 "of_int n"] by (cases "of_int64 n") (auto simp: of_int64_def)

text \<open>The part of the score before anything is subtracted is a whole number, far below where numbers get rounded.\<close>

definition whole :: "float64 \<Rightarrow> int \<Rightarrow> bool" where
  "whole s b \<longleftrightarrow> (\<exists>n. s = Fin (of_int n) \<and> 0 \<le> n \<and> n \<le> b)"

lemma whole_mono: "whole s b \<Longrightarrow> b \<le> c \<Longrightarrow> whole s c"
  by (auto simp: whole_def)

lemma whole_add: "whole s b \<Longrightarrow> 0 \<le> m \<Longrightarrow> b + m \<le> 2 ^ 53 \<Longrightarrow> whole (fadd s (Fin (of_int m))) (b + m)"
proof -
  assume "whole s b" "0 \<le> m" "b + m \<le> 2 ^ 53"
  then obtain n where n: "s = Fin (of_int n)" "0 \<le> n" "n \<le> b" by (auto simp: whole_def)
  moreover have "\<bar>n + m\<bar> \<le> 2 ^ 53" using n \<open>0 \<le> m\<close> \<open>b + m \<le> 2 ^ 53\<close> by linarith
  ultimately show ?thesis using round64_int [of "n + m"] \<open>0 \<le> m\<close> unfolding whole_def by (intro exI [of _ "n + m"]) simp
qed

lemma class_weight: "whole (fmul (Fin 1000) (class_rank c)) 3000"
  using round64_int [of 1000] round64_int [of 2000] round64_int [of 3000]
  unfolding whole_def by (intro exI [of _ "case c of ClassRelease \<Rightarrow> 3000 | ClassMerge \<Rightarrow> 2000 | _ \<Rightarrow> 1000"])
    (simp add: class_rank_def fmul_def split: job_class.split)

lemma base_score:
  assumes "0 \<le> k" "k \<le> 2 ^ 52"
  shows "whole (let s = fadd (fmul (Fin 1000) (class_rank cl)) (of_int64 k);
                s = (case z of ZoneWarning \<Rightarrow> fadd s (Fin 200) | ZoneDanger \<Rightarrow> fadd s (Fin 400) | _ \<Rightarrow> s)
            in if w then fadd s (Fin 50) else s) (2 ^ 53)"
proof -
  have ok: "3000 + k + 400 + 50 \<le> 2 ^ 53" "\<bar>k\<bar> \<le> 2 ^ 53" using assms by simp_all
  define s where "s = fadd (fmul (Fin 1000) (class_rank cl)) (of_int64 k)"
  define t where "t = (case z of ZoneWarning \<Rightarrow> fadd s (Fin 200) | ZoneDanger \<Rightarrow> fadd s (Fin 400) | _ \<Rightarrow> s)"
  have s: "whole s (3000 + k)" unfolding s_def using whole_add [OF class_weight assms(1), of cl] ok by simp
  have t: "whole t (3000 + k + 400)"
    using whole_add [OF s, of 200] whole_add [OF s, of 400] ok s unfolding t_def
    by (cases z) (auto elim!: whole_mono simp del: fadd.simps)
  have "whole (if w then fadd t (Fin 50) else t) (3000 + k + 400 + 50)"
    using whole_add [OF t, of 50] ok t by (auto elim!: whole_mono simp del: fadd.simps)
  then show ?thesis using whole_mono ok unfolding t_def s_def Let_def by blast
qed

lemma score_low: "fle (score_of fused cands env c) (Fin (2 ^ 53))"
proof -
  obtain k where k: "to_int (if flt (minutes (time_sub (en_now env) (j_created_at (cd_job c)))) (Fin 0) then Fin 0
      else minutes (time_sub (en_now env) (j_created_at (cd_job c)))) = k" "0 \<le> k" "k \<le> 2 ^ 52"
    using waited_between [OF refl] by blast
  obtain n where n: "(let s = fadd (fmul (Fin 1000) (class_rank (j_class (cd_job c)))) (of_int64 k);
                s = (case cd_zone c of ZoneWarning \<Rightarrow> fadd s (Fin 200) | ZoneDanger \<Rightarrow> fadd s (Fin 400) | _ \<Rightarrow> s)
            in if asks (en_warm env) (cd_job c) then fadd s (Fin 50) else s) = Fin (of_int n)" "n \<le> 2 ^ 53"
    using base_score [OF k(2,3)] unfolding whole_def by blast
  have low: "fle (Fin (of_int n)) (Fin (2 ^ 53))" using n(2) by simp
  define e where "e = (case en_estimate env of None \<Rightarrow> Fin (of_int n)
     | Some f \<Rightarrow> (if usable (f (cd_job c)) then sub_mul fused (Fin (of_int n)) (speed_of (en_speed_factor env)) (f (cd_job c)) else Fin (of_int n)))"
  have "\<exists>x. a = Fin x \<and> 0 < x" if "usable a" for a using that by (cases a) (auto simp: usable_def finite64_def)
  moreover have "\<exists>x. speed_of f = Fin x \<and> 0 < x" for f by (cases f) (auto simp: speed_of_def usable_def finite64_def)
  ultimately have "fle e (Fin (2 ^ 53))"
    using low sub_mul_low [OF low] unfolding e_def by (auto split: option.split) (metis less_imp_le)
  moreover have "score_of fused cands env c = sub_mul fused e (Fin 30) (of_int64 (int (earlier cands (cd_job c))))"
    by (simp only: score_of_def e_def Let_def k(1) n(1) [unfolded Let_def])
  ultimately show ?thesis
    using sub_mul_low [of e "Fin 30" 30] of_int64_nonneg [of "int (earlier cands (cd_job c))"] by auto
qed

lemma score_not_NaN: "score_of fused cands env c \<noteq> NaN"
  using score_low [of fused cands env c] by auto

section \<open>The order\<close>

text \<open>The second rule of the comparison: the number within the front and back groups, the score within the other.\<close>

definition place_less :: "scored \<Rightarrow> scored \<Rightarrow> bool" where
  "place_less a b = (if group a = 1 \<and> group b = 1 then flt (sc_score b) (sc_score a)
     else if group a \<noteq> 1 \<and> group b \<noteq> 1 then j_manual_seq (sc_job a) < j_manual_seq (sc_job b) else group a = 1)"

lemma flt_asym: "flt a b \<Longrightarrow> \<not> flt b a"
  by (cases a; cases b) auto

lemma flt_between: "a \<noteq> NaN \<Longrightarrow> b \<noteq> NaN \<Longrightarrow> c \<noteq> NaN \<Longrightarrow> flt a c \<Longrightarrow> flt a b \<or> flt b c"
  by (cases a; cases b; cases c) auto

lemma rank_less_eq:
  "sc_score a \<noteq> NaN \<Longrightarrow> sc_score b \<noteq> NaN \<Longrightarrow>
   rank_less a b = then_by (\<lambda>a b. group a < group b) (then_by place_less (then_by (\<lambda>a b. j_created_at (sc_job a) < j_created_at (sc_job b))
     (\<lambda>a b. j_id (sc_job a) < j_id (sc_job b)))) a b"
  using feq_iff [of "sc_score a" "sc_score b"] flt_iff [of "sc_score a" "sc_score b"] flt_iff [of "sc_score b" "sc_score a"]
    fle_cases [of "sc_score a" "sc_score b"] fle_antisym [of "sc_score a" "sc_score b"]
  unfolding rank_less_def then_by_def place_less_def by (cases "group a" "group b" rule: linorder_cases) auto

lemma place_less_order: "go_order place_less (\<lambda>e. sc_score e \<noteq> NaN)"
proof
  show "\<not> place_less b a" if "place_less a b" for a b
    using that flt_asym by (auto simp: place_less_def split: if_splits)
  show "place_less a b \<or> place_less b c" if "sc_score a \<noteq> NaN" "sc_score b \<noteq> NaN" "sc_score c \<noteq> NaN" "place_less a c" for a b c
    using that flt_between [of "sc_score c" "sc_score b" "sc_score a"] by (auto simp: place_less_def split: if_splits)
qed

interpretation rank_order: go_order rank_less "\<lambda>e. sc_score e \<noteq> NaN"
proof -
  have *: "go_order (then_by (\<lambda>a b. group a < group b) (then_by place_less (then_by (\<lambda>a b. j_created_at (sc_job a) < j_created_at (sc_job b))
     (\<lambda>a b. j_id (sc_job a) < j_id (sc_job b))))) (\<lambda>e. sc_score e \<noteq> NaN)"
    by (intro go_order_then_by go_order_by_key place_less_order)
  show "go_order rank_less (\<lambda>e. sc_score e \<noteq> NaN)"
    by unfold_locales (simp_all add: rank_less_eq go_order.less_asym [OF *] go_order.less_between [OF *])
qed

lemma entries_ok: "\<forall>e \<in> set (entries fused cands env). sc_score e \<noteq> NaN"
  by (auto simp: entries_def score_not_NaN)

section \<open>Properties\<close>

text \<open>The order the package promises, written down without the comparison of the code.\<close>

definition no_later :: "job \<Rightarrow> job \<Rightarrow> bool" where
  "no_later a b \<longleftrightarrow> j_created_at a < j_created_at b \<or> (j_created_at a = j_created_at b \<and> j_id a \<le> j_id b)"

definition ranks_before :: "scored \<Rightarrow> scored \<Rightarrow> bool" where
  "ranks_before a b \<longleftrightarrow> group a < group b
     \<or> (group a = 1 \<and> group b = 1 \<and> (flt (sc_score b) (sc_score a) \<or> (sc_score a = sc_score b \<and> no_later (sc_job a) (sc_job b))))
     \<or> (group a = group b \<and> group a \<noteq> 1 \<and> (j_manual_seq (sc_job a) < j_manual_seq (sc_job b)
          \<or> (j_manual_seq (sc_job a) = j_manual_seq (sc_job b) \<and> no_later (sc_job a) (sc_job b))))"

lemma not_flt_iff: "a \<noteq> NaN \<Longrightarrow> b \<noteq> NaN \<Longrightarrow> \<not> flt a b \<longleftrightarrow> flt b a \<or> a = b"
  by (cases a; cases b) auto

lemma flt_irrefl [simp]: "\<not> flt a a"
  by (cases a) auto

lemma ranks_before_iff:
  assumes "sc_score a \<noteq> NaN" "sc_score b \<noteq> NaN"
  shows "\<not> rank_less b a \<longleftrightarrow> ranks_before a b"
proof (cases "group a = group b")
  case True
  show ?thesis
  proof (cases "group a = 1")
    case True
    then show ?thesis
      using \<open>group a = group b\<close> not_flt_iff [OF assms] feq_iff [OF assms(2), of "sc_score a"]
      by (cases "sc_score a = sc_score b") (auto simp: rank_less_def ranks_before_def no_later_def not_less)
  next
    case False
    then show ?thesis
      using \<open>group a = group b\<close>
      by (cases "j_manual_seq (sc_job a) = j_manual_seq (sc_job b)") (auto simp: rank_less_def ranks_before_def no_later_def not_less)
  qed
qed (auto simp: rank_less_def ranks_before_def)

text \<open>
  C18: whatever the estimates, the speed and the clock give (numbers that are not numbers included), the
  ranking is every job this host may try, once, with its score, in the promised order: the jobs put
  in front by their number, then by score with the older first, then the jobs put at the back by
  their number; and jobs that tie in everything stay in the order they were read.
\<close>

theorem rank_rule:
  "mset (rank fused cands env) = mset (entries fused cands env) \<and> sorted_wrt ranks_before (rank fused cands env)
   \<and> filter (\<lambda>e. \<not> rank_less x e \<and> \<not> rank_less e x \<and> sc_score x \<noteq> NaN) (rank fused cands env)
     = filter (\<lambda>e. \<not> rank_less x e \<and> \<not> rank_less e x \<and> sc_score x \<noteq> NaN) (entries fused cands env)"
proof -
  have "sorted_wrt (\<lambda>a b. \<not> rank_less b a) (rank fused cands env)"
    using rank_order.in_order_sort [OF entries_ok] by (simp add: rank_def rank_order.in_order_def)
  moreover have "\<forall>e \<in> set (rank fused cands env). sc_score e \<noteq> NaN" using entries_ok by (simp add: rank_def)
  ultimately have "sorted_wrt ranks_before (rank fused cands env)"
    by (auto elim!: sorted_wrt_mono_rel [rotated] simp: ranks_before_iff)
  moreover have "filter (\<lambda>e. \<not> rank_less x e \<and> \<not> rank_less e x) (rank fused cands env)
     = filter (\<lambda>e. \<not> rank_less x e \<and> \<not> rank_less e x) (entries fused cands env)" if "sc_score x \<noteq> NaN"
    using rank_order.stable [OF entries_ok that, of fused cands env] by (simp add: rank_def rank_order.same_place_def [abs_def])
  ultimately show ?thesis by (cases "sc_score x = NaN") (simp_all add: rank_def)
qed

text \<open>Only jobs put in front with a number no larger come before a job put in front, whatever the scores.\<close>

lemma before_front_job:
  assumes "c \<in> set cands" "takeable env c" "j_manual (cd_job c) = PositionFront"
  obtains before sc after where "rank fused cands env = before @ sc # after" and "sc_candidate sc = c"
    and "\<And>b. b \<in> set before \<Longrightarrow> sc_candidate b \<in> set cands \<and> sc_candidate b \<noteq> c \<and> j_manual (sc_job b) = PositionFront
           \<and> j_manual_seq (sc_job b) \<le> j_manual_seq (cd_job c)"
proof -
  define e where "e = \<lparr>sc_candidate = c, sc_score = score_of fused cands env c\<rparr>"
  have "e \<in> set (rank fused cands env)" using assms(1,2) by (auto simp: rank_def entries_def e_def)
  then obtain before after where r: "rank fused cands env = before @ e # after" "e \<notin> set before"
    by (meson split_list_first)
  have sorted: "sorted_wrt (\<lambda>a b. \<not> rank_less b a) (before @ e # after)"
    using rank_order.in_order_sort [OF entries_ok, of fused cands env] r(1) by (simp add: rank_def rank_order.in_order_def)
  have "sc_candidate b \<in> set cands \<and> sc_candidate b \<noteq> c \<and> j_manual (sc_job b) = PositionFront
      \<and> j_manual_seq (sc_job b) \<le> j_manual_seq (cd_job c)" if b: "b \<in> set before" for b
  proof -
    have "b \<in> set (rank fused cands env)" using b r(1) by simp
    then obtain d where d: "d \<in> set cands" "b = \<lparr>sc_candidate = d, sc_score = score_of fused cands env d\<rparr>"
      by (auto simp: rank_def entries_def)
    have "\<not> rank_less e b" using sorted b by (auto simp: sorted_wrt_append)
    moreover have "d \<noteq> c" using d b r(2) by (auto simp: e_def)
    ultimately show ?thesis
      using assms(3) d by (auto simp: rank_less_def e_def group_def split: position.splits if_splits)
  qed
  then show thesis using that [of before e after] r(1) by (simp add: e_def)
qed

lemma names_peer_speed:
  "names_peer j s p \<Longrightarrow> s \<noteq> NaN \<Longrightarrow> usable (iw_speed_factor (in_worker (pe_info p))) \<and> flt (iw_speed_factor (in_worker (pe_info p))) s"
  by (cases "iw_speed_factor (in_worker (pe_info p))"; cases s) (auto simp: names_peer_def Let_def usable_def finite64_def)

definition speed_key :: "float64 \<Rightarrow> rat" where
  "speed_key f = (case speed_of f of Fin x \<Rightarrow> x | _ \<Rightarrow> 1)"

lemma speed_of_key: "speed_of f = Fin (speed_key f)"
  by (cases f) (auto simp: speed_key_def speed_of_def usable_def finite64_def)

lemma named_is_faster:
  assumes "faster_host j s peers now_ns patience \<noteq> None"
  shows "\<exists>p \<in> set peers. speed_key (iw_speed_factor (in_worker (pe_info p))) < speed_key s"
proof -
  obtain p where "List.find (names_peer j (speed_of s)) peers = Some p"
    using assms by (auto simp: faster_host_def split: if_splits)
  then have p: "p \<in> set peers" "names_peer j (Fin (speed_key s)) p"
    by (auto simp: find_Some_iff speed_of_key)
  then have "flt (speed_of (iw_speed_factor (in_worker (pe_info p)))) (Fin (speed_key s))"
    using names_peer_speed [OF p(2)] by (simp add: speed_of_def)
  then show ?thesis using p(1) by (auto simp: speed_of_key)
qed

text \<open>
  C19: in a pool where every host reads the speeds its peers announce, each from its own view of the
  pool and with its own clock and patience, there is always a host that leaves the job to nobody: the
  hosts cannot all wait for one another.
\<close>

theorem some_host_keeps_the_job:
  assumes "hosts \<noteq> []"
    and "\<forall>h \<in> set hosts. \<forall>p \<in> set (view h). \<exists>g \<in> set hosts. iw_speed_factor (in_worker (pe_info p)) = speed g"
  shows "\<exists>h \<in> set hosts. faster_host j (speed h) (view h) (clock h) (patience h) = None"
proof -
  define k where "k h = speed_key (speed h)" for h
  define m where "m = Min (k ` set hosts)"
  have "m \<in> k ` set hosts" unfolding m_def using assms(1) by (intro Min_in) auto
  then obtain h where h: "h \<in> set hosts" "k h = m" by auto
  have "m \<le> k g" if "g \<in> set hosts" for g unfolding m_def using that by (intro Min_le) auto
  then have "faster_host j (speed h) (view h) (clock h) (patience h) = None"
    using named_is_faster [of j "speed h" "view h"] assms(2) h k_def by (metis linorder_not_less)
  then show ?thesis using h(1) by blast
qed

definition sample_job :: job where
  "sample_job = \<lparr>j_id = ''j_1'', j_origin = ''m1'', j_repo = \<lparr>repo_name = ''purdex'', repo_root = '''', repo_remote = ''''\<rparr>,
     j_snapshot = \<lparr>snap_commit = replicate 40 CHR ''a'', snap_tree = ''t1'', snap_base = '''', snap_rel_cwd = ''''\<rparr>,
     j_task = ''test'', j_args = [], j_class = ClassMerge, j_labels = [''os:linux''], j_locks = [], j_cacheable = True, j_timeout_s = 0,
     j_supersede_key = '''', j_interruptible = True, j_queue_timeout_s = 0, j_adhoc = False, j_local = False,
     j_submitter = \<lparr>sub_session = ''s'', sub_ref = '''', sub_team = '''', sub_host = ''''\<rparr>, j_created_at = 1000, j_state = StateQueued,
     j_claim = None, j_result = None, j_manual = PositionNone, j_manual_seq = 0, j_started_at = None\<rparr>"

definition sample_peer :: "string \<Rightarrow> float64 \<Rightarrow> peer" where
  "sample_peer alias speed = \<lparr>pe_info = \<lparr>in_host_id = alias, in_alias = alias, in_version = ''1'', in_proto = proto, in_platform = ''linux'',
       in_arch = ''amd64'', in_worker = \<lparr>iw_enabled = True, iw_explicit_labels_only = True, iw_speed_factor = speed\<rparr>, in_labels = [''os:linux''],
       in_fingerprint = [], in_fault = None\<rparr>,
     pe_facts = Some sample_facts, pe_reachable = True, pe_rtt_ms = None, pe_liveness = None, pe_liveness_at = None, pe_liveness_since = None\<rparr>"

theorem some_host_keeps_the_job_witness:
  "faster_host sample_job (Fin 1) [sample_peer ''fast'' (Fin (1 / 2))] 1000000000 60000000000 = Some ''fast''
   \<and> faster_host sample_job (Fin (1 / 2)) [sample_peer ''slow'' (Fin 1)] 1000000000 60000000000 = None"
proof -
  have slow: "faster_host sample_job (Fin 1) [sample_peer ''fast'' (Fin (1 / 2))] 1000000000 60000000000 = Some ''fast''"
    by (simp add: faster_host_def names_peer_def sample_job_def sample_peer_def sample_facts_def sample_derived_def time_sub_def speed_of_def
        usable_def finite64_def eligible_def subset_labels_def explicit_def has_prefix_def heavy_room_for_def)
  have "\<exists>h \<in> set [True, False]. faster_host sample_job (if h then Fin 1 else Fin (1 / 2))
      (if h then [sample_peer ''fast'' (Fin (1 / 2))] else [sample_peer ''slow'' (Fin 1)]) 1000000000 60000000000 = None"
    by (rule some_host_keeps_the_job [where speed = "\<lambda>h. if h then Fin 1 else Fin (1 / 2)" and clock = "\<lambda>_. 1000000000"])
      (auto simp: sample_peer_def)
  then show ?thesis using slow by auto
qed

end
