(* ===== verification/Labels.thy ===== *)
theory Labels
  imports Pick "HOL-Library.AList"
begin

text \<open>
  The labels of a host (package \<open>labels\<close>): the automatic labels and the fingerprint read from its
  facts, the tracker that says when they change, the labels of the two halves of a qualification
  pair, and the task labels a reference host holds without qualifying. A fingerprint is an
  association list with one entry a key.
\<close>

section \<open>Strings\<close>

text \<open>The white space of \<open>unicode.IsSpace\<close>, as the bytes of its UTF-8 form.\<close>

definition go_spaces :: "string list" where
  "go_spaces = [[CHR 0x09], [CHR 0x0A], [CHR 0x0B], [CHR 0x0C], [CHR 0x0D], [CHR 0x20], [CHR 0xC2, CHR 0x85], [CHR 0xC2, CHR 0xA0],
     [CHR 0xE1, CHR 0x9A, CHR 0x80]]
     @ map (\<lambda>n. [CHR 0xE2, CHR 0x80, char_of (n :: nat)]) ([0x80..<0x8B] @ [0xA8, 0xA9, 0xAF])
     @ [[CHR 0xE2, CHR 0x81, CHR 0x9F], [CHR 0xE3, CHR 0x80, CHR 0x80]]"

lemma go_spaces_ne: "s \<in> set go_spaces \<Longrightarrow> s \<noteq> []"
  by (auto simp: go_spaces_def)

fun trim_start :: "string list \<Rightarrow> nat \<Rightarrow> string \<Rightarrow> string" where
  "trim_start sp 0 s = s"
| "trim_start sp (Suc n) s = (case List.find (\<lambda>p. has_prefix p s) sp of None \<Rightarrow> s | Some p \<Rightarrow> trim_start sp n (drop (length p) s))"

text \<open>\<open>strings.TrimSpace\<close>; every round takes a byte at least, so the length of the text is fuel enough.\<close>

definition trim_space :: "string \<Rightarrow> string" where
  "trim_space s = (let t = trim_start go_spaces (length s) s in rev (trim_start (map rev go_spaces) (length t) (rev t)))"

text \<open>\<open>strings.SplitN\<close> at a byte, for a positive count.\<close>

fun split_n :: "nat \<Rightarrow> char \<Rightarrow> string \<Rightarrow> string list" where
  "split_n 0 c s = []"
| "split_n (Suc 0) c s = [s]"
| "split_n (Suc (Suc n)) c s = (if c \<in> set s then takeWhile (\<lambda>d. d \<noteq> c) s # split_n (Suc n) c (tl (dropWhile (\<lambda>d. d \<noteq> c) s)) else [s])"

section \<open>Versions\<close>

definition max_version_digits :: nat where
  "max_version_digits = 4"

definition plain_number :: "string \<Rightarrow> nat option" where
  "plain_number s = (if s = [] \<or> length s > max_version_digits then None else if list_all is_digit s then Some (digits_val s) else None)"

text \<open>\<open>^((rc|beta|alpha)[0-9]{1,3})?$\<close>\<close>

definition re_minor_suffix :: "string \<Rightarrow> bool" where
  "re_minor_suffix s \<longleftrightarrow> s = [] \<or> list_ex (\<lambda>p. has_prefix p s \<and> (let d = drop (length p) s in d \<noteq> [] \<and> length d \<le> 3 \<and> list_all is_digit d))
     [''rc'', ''beta'', ''alpha'']"

definition version_parts :: "string \<Rightarrow> bool \<Rightarrow> (nat \<times> nat) option" where
  "version_parts v need_minor =
     (let f = split_n 3 CHR ''.'' (trim_space v) in
      case plain_number (hd f) of None \<Rightarrow> None
      | Some major \<Rightarrow>
          if \<not> need_minor then Some (major, 0)
          else if length f < 2 then None
          else (let digits = f ! 1 in
                case plain_number (takeWhile is_digit digits) of None \<Rightarrow> None
                | Some mnr \<Rightarrow> if \<not> re_minor_suffix (dropWhile is_digit digits) then None else Some (major, mnr)))"

section \<open>Labels and fingerprint of a record\<close>

type_synonym labelled = "string list \<times> (string \<times> string) list"

definition one_tool :: "string \<Rightarrow> string option \<Rightarrow> bool \<Rightarrow> (nat \<Rightarrow> nat \<Rightarrow> string) \<Rightarrow> labelled \<Rightarrow> labelled" where
  "one_tool key v need_minor label = (\<lambda>(labels, fp).
     case v of None \<Rightarrow> (labels, fp)
     | Some s \<Rightarrow> (case version_parts s need_minor of None \<Rightarrow> (labels, fp)
                 | Some (major, mnr) \<Rightarrow> (labels @ [''tool:'' @ key @ label major mnr], AList.update key (trim_space s) fp)))"

definition claude_tool :: "string option \<Rightarrow> labelled \<Rightarrow> labelled" where
  "claude_tool v = (\<lambda>(labels, fp).
     case v of None \<Rightarrow> (labels, fp)
     | Some s \<Rightarrow> (case version_parts s False of None \<Rightarrow> (labels, fp)
                 | Some (major, _) \<Rightarrow> (labels @ [''tool:claude''], AList.update ''claude'' (format_nat major) fp)))"

text \<open>\<open>strings.Join\<close>\<close>

fun join :: "string \<Rightarrow> string list \<Rightarrow> string" where
  "join sep [] = []"
| "join sep [s] = s"
| "join sep (s # ss) = s @ sep @ join sep ss"

definition php_tools :: "string list \<Rightarrow> labelled \<Rightarrow> labelled" where
  "php_tools vs = (\<lambda>(labels, fp).
     let good = filter (\<lambda>v. version_parts v True \<noteq> None) vs;
         names = map (\<lambda>v. case version_parts v True of Some (maj, mnr) \<Rightarrow> ''tool:php'' @ format_nat maj @ format_nat mnr | None \<Rightarrow> []) good;
         php = map trim_space good
     in (labels @ names, if php \<noteq> [] then AList.update ''php'' (join '','' (sort php)) fp else fp))"

definition from_facts :: "facts \<Rightarrow> labelled" where
  "from_facts f =
     (let l0 = (if fa_platform f \<noteq> [] then [''os:'' @ fa_platform f] else []) @ (if fa_arch f \<noteq> [] then [''arch:'' @ fa_arch f] else []);
          fp0 = (if fa_os_version f \<noteq> [] then [(''os_version'', fa_os_version f)] else []);
          major = (\<lambda>maj _. format_nat maj);
          t = fa_tools f;
          (labels, fp) = php_tools (to_php t) (claude_tool (to_claude t)
            (one_tool ''xcode'' (to_xcode t) False major (one_tool ''pnpm'' (to_pnpm t) False major
              (one_tool ''node'' (to_node t) False major
                (one_tool ''go'' (to_go t) True (\<lambda>maj mnr. format_nat maj @ ''.'' @ format_nat mnr) (l0, fp0))))))
      in (remdups_adj (sort labels), fp))"

section \<open>The tracker\<close>

record tracker =
  tr_seen :: bool
  tr_labels :: "string list"
  tr_fp :: "(string \<times> string) list"

definition zero_tracker :: tracker where
  "zero_tracker = \<lparr>tr_seen = False, tr_labels = [], tr_fp = []\<rparr>"

definition tracker_update :: "facts \<Rightarrow> string list \<Rightarrow> tracker \<Rightarrow> bool \<times> tracker" where
  "tracker_update f extra t =
     (let (l, fp) = from_facts f;
          l = (if extra \<noteq> [] then remdups_adj (sort (l @ extra)) else l)
      in (\<not> tr_seen t \<or> tr_labels t \<noteq> l, t\<lparr>tr_seen := True, tr_labels := l, tr_fp := fp\<rparr>))"

definition current :: "tracker \<Rightarrow> labelled" where
  "current t = (tr_labels t, tr_fp t)"

section \<open>Qualification\<close>

definition qualify_session :: string where
  "qualify_session = ''wwd-qualify''"

definition role_candidate :: string where
  "role_candidate = ''candidate''"

definition role_reference :: string where
  "role_reference = ''reference''"

definition qualify_key :: "string \<Rightarrow> string \<Rightarrow> string \<Rightarrow> string" where
  "qualify_key cand own role = ''qualify:'' @ cand @ '':'' @ own @ '':'' @ role"

definition qualify_role :: "string \<Rightarrow> string \<Rightarrow> string \<Rightarrow> string option" where
  "qualify_role key cand own = List.find (\<lambda>r. key = qualify_key cand own r) [role_candidate, role_reference]"

definition qualify_half_labels :: "string list \<Rightarrow> string \<Rightarrow> string \<Rightarrow> string \<Rightarrow> string list" where
  "qualify_half_labels task_labels own role host =
     filter (\<lambda>l. \<not> (role = role_candidate \<and> (l = own \<or> has_prefix ''os:'' l \<or> has_prefix ''arch:'' l))) task_labels @ [''host:'' @ host]"

definition qualify_class :: "job_class \<Rightarrow> job_class" where
  "qualify_class c = (case c of ClassRelease \<Rightarrow> ClassMerge | ClassMerge \<Rightarrow> ClassMerge | _ \<Rightarrow> ClassDev)"

section \<open>Reference hosts\<close>

record ref_task =
  rt_repo :: string
  rt_task :: string
  rt_reference :: string
  rt_needs :: "string list"

definition task_label :: "string \<Rightarrow> string \<Rightarrow> string" where
  "task_label rp task = ''task:'' @ rp @ ''/'' @ task"

definition env_prefixes :: "string list" where
  "env_prefixes = [''os:'', ''arch:'', ''tool:'']"

definition is_env_requirement :: "string \<Rightarrow> bool" where
  "is_env_requirement l = list_ex (\<lambda>p. has_prefix p l) env_prefixes"

definition reference_holds :: "string \<Rightarrow> string list \<Rightarrow> ref_task \<Rightarrow> bool" where
  "reference_holds alias have t \<longleftrightarrow>
     \<not> (rt_reference t \<noteq> alias \<or> alias = []) \<and> (''repo:'' @ rt_repo t) \<in> set have
     \<and> list_all (\<lambda>n. \<not> (\<not> is_env_requirement n \<or> n \<notin> set have)) (rt_needs t)
     \<and> valid_task_label (task_label (rt_repo t) (rt_task t))"

definition reference_labels :: "string \<Rightarrow> string list \<Rightarrow> ref_task list \<Rightarrow> string list" where
  "reference_labels alias have tasks =
     remdups_adj (sort (map (\<lambda>t. task_label (rt_repo t) (rt_task t)) (filter (reference_holds alias have) tasks)))"

section \<open>Sorted lists without duplicates\<close>

lemma sorted_remdups_adj: "sorted xs \<Longrightarrow> sorted_wrt (<) (remdups_adj xs)" for xs :: "'a :: linorder list"
proof (induction xs rule: remdups_adj.induct)
  case (3 x y xs)
  then show ?case by (cases "x = y") (auto simp: order.strict_iff_order)
qed auto

lemma compacted: "sorted_wrt (<) (remdups_adj (sort xs))" for xs :: "'a :: linorder list"
  by (rule sorted_remdups_adj) simp

lemma from_facts_sorted: "sorted_wrt (<) (fst (from_facts f))"
  by (simp add: from_facts_def Let_def compacted split: prod.split)

lemma tracker_sorted: "sorted_wrt (<) (tr_labels (snd (tracker_update f extra t)))"
  using from_facts_sorted [of f] by (auto simp: tracker_update_def Let_def compacted split: prod.splits)

lemma reference_labels_rule:
  "sorted_wrt (<) (reference_labels alias have tasks)"
  "l \<in> set (reference_labels alias have tasks) \<longleftrightarrow> (\<exists>t \<in> set tasks. reference_holds alias have t \<and> l = task_label (rt_repo t) (rt_task t))"
  by (auto simp: reference_labels_def compacted)

section \<open>Listeners of the tracker\<close>

text \<open>A listener that reads the labels only when an update reports a change: what it has read last.\<close>

fun listen :: "(facts \<times> string list) list \<Rightarrow> tracker \<times> string list \<Rightarrow> tracker \<times> string list" where
  "listen [] s = s"
| "listen ((f, extra) # us) (t, heard) = (case tracker_update f extra t of (changed, t') \<Rightarrow> listen us (t', if changed then fst (current t') else heard))"

lemma listen_current: "tr_seen t \<longrightarrow> heard = tr_labels t \<Longrightarrow> us \<noteq> [] \<Longrightarrow> snd (listen us (t, heard)) = fst (current (fst (listen us (t, heard))))"
proof (induction us arbitrary: t heard)
  case (Cons u us)
  then show ?case
    by (cases u; cases us) (auto simp: tracker_update_def Let_def current_def split: prod.splits)
qed simp

lemma listener_up_to_date: "us \<noteq> [] \<Longrightarrow> snd (listen us (zero_tracker, [])) = fst (current (fst (listen us (zero_tracker, []))))"
  by (rule listen_current) (simp_all add: zero_tracker_def)

section \<open>Qualification halves\<close>

lemma qualify_role_roundtrip: "role = role_candidate \<or> role = role_reference \<Longrightarrow> qualify_role (qualify_key cand own role) cand own = Some role"
  by (auto simp: qualify_role_def qualify_key_def role_candidate_def role_reference_def)

text \<open>A host that holds no other host's label takes a half only if it is the host the half is meant for.\<close>

lemma half_runs_on_named_host:
  assumes "e \<in> set (rank fused cands env)" "j_labels (sc_job e) = qualify_half_labels task_labels own role host"
    and "\<And>x. ''host:'' @ x \<in> set (en_labels env) \<Longrightarrow> x = alias"
  shows "alias = host"
proof -
  have "eligible (j_labels (sc_job e)) (en_labels env) (en_explicit_labels_only env)"
    using assms(1) by (auto simp: rank_def entries_def takeable_def Let_def)
  then have "''host:'' @ host \<in> set (en_labels env)"
    using assms(2) by (auto simp: eligible_def subset_labels_def qualify_half_labels_def list_all_iff list_ex_iff)
  then show ?thesis using assms(3) by blast
qed

section \<open>Reading a version\<close>

lemma split_n_here: "c \<notin> set a \<Longrightarrow> split_n (Suc (Suc n)) c (a @ c # s) = a # split_n (Suc n) c s"
proof -
  assume c: "c \<notin> set a"
  then have "takeWhile (\<lambda>d. d \<noteq> c) (a @ c # s) = a" "dropWhile (\<lambda>d. d \<noteq> c) (a @ c # s) = c # s"
    by (subst takeWhile_append2, auto) (subst dropWhile_append2, auto)
  then show ?thesis by simp
qed

lemma split_n_none: "c \<notin> set s \<Longrightarrow> split_n (Suc n) c s = [s]"
  by (cases n) simp_all

lemma no_dot: "list_all is_digit a \<Longrightarrow> CHR ''.'' \<notin> set a"
  by (induction a) (auto simp: is_digit_def byte_of_def)

lemma suffix_no_dot: "re_minor_suffix s \<Longrightarrow> CHR ''.'' \<notin> set s"
  by (auto simp: re_minor_suffix_def has_prefix_iff Let_def dest: no_dot)

lemma minor_digits: "list_all is_digit b \<Longrightarrow> re_minor_suffix s \<Longrightarrow> takeWhile is_digit (b @ s) = b \<and> dropWhile is_digit (b @ s) = s"
  by (auto simp: list_all_iff re_minor_suffix_def has_prefix_iff takeWhile_append dropWhile_append)
     (auto simp: is_digit_def byte_of_def)

lemma version_parts_read:
  assumes t: "trim_space v = a @ ''.'' @ b @ s @ rest" "rest = [] \<or> hd rest = CHR ''.''"
    and n: "plain_number a = Some maj" "plain_number b = Some mnr" and s: "re_minor_suffix s"
  shows "version_parts v True = Some (maj, mnr)"
proof -
  have d: "list_all is_digit a" "list_all is_digit b" using n by (auto simp: plain_number_def split: if_splits)
  note nd = no_dot [OF d(1)] no_dot [OF d(2)] suffix_no_dot [OF s]
  obtain ws where "split_n 3 CHR ''.'' (trim_space v) = a # (b @ s) # ws"
  proof (cases rest)
    case Nil
    then show ?thesis using that [of "[]"] t nd split_n_here [of "CHR ''.''" a 1 "b @ s"] split_n_none [of "CHR ''.''" "b @ s" 1]
      by (simp add: numeral_3_eq_3 del: split_n.simps(3))
  next
    case (Cons c r)
    then show ?thesis using that [of "[r]"] t nd split_n_here [of "CHR ''.''" a 1 "b @ s @ rest"] split_n_here [of "CHR ''.''" "b @ s" 0 r]
      by (simp add: numeral_3_eq_3 del: split_n.simps(3))
  qed
  then show ?thesis using n s minor_digits [OF d(2) s] by (simp add: version_parts_def)
qed

lemma plain_number_format: "n < 10000 \<Longrightarrow> plain_number (format_nat n) = Some n"
  using length_format_nat [of n 4] by (simp add: plain_number_def max_version_digits_def format_nat_ne format_nat_digits digits_val_format_nat)

text \<open>What later tools leave of the labels and of the entry of an earlier one.\<close>

lemma later_tools:
  "l \<in> set (fst x) \<Longrightarrow> l \<in> set (fst (one_tool key v m f x))" "key \<noteq> k \<Longrightarrow> map_of (snd (one_tool key v m f x)) k = map_of (snd x) k"
  "l \<in> set (fst x) \<Longrightarrow> l \<in> set (fst (claude_tool v x))" "k \<noteq> ''claude'' \<Longrightarrow> map_of (snd (claude_tool v x)) k = map_of (snd x) k"
  "l \<in> set (fst x) \<Longrightarrow> l \<in> set (fst (php_tools vs x))" "k \<noteq> ''php'' \<Longrightarrow> map_of (snd (php_tools vs x)) k = map_of (snd x) k"
  by (auto simp: one_tool_def claude_tool_def php_tools_def Let_def update_conv' split: prod.splits option.splits)

text \<open>
  A Go toolchain that reports version \<open>major.minor\<close>, with a release-candidate suffix or a patch
  number or white space around it or none of them, gives its host the label \<open>tool:gomajor.minor\<close> with
  exactly these numbers, and the fingerprint keeps the full version as reported.
\<close>

lemma tool_label_roundtrip:
  assumes "to_go (fa_tools f) = Some v" and "trim_space v = format_nat maj @ ''.'' @ format_nat mnr @ s @ rest"
    and "maj < 10000" "mnr < 10000" "re_minor_suffix s" "rest = [] \<or> hd rest = CHR ''.''"
  shows "''tool:go'' @ format_nat maj @ ''.'' @ format_nat mnr \<in> set (fst (from_facts f)) \<and> map_of (snd (from_facts f)) ''go'' = Some (trim_space v)"
proof -
  have "version_parts v True = Some (maj, mnr)"
    by (rule version_parts_read [OF assms(2,6) plain_number_format plain_number_format]) (use assms in simp_all)
  then have "''tool:go'' @ format_nat maj @ ''.'' @ format_nat mnr \<in> set (fst (one_tool ''go'' (to_go (fa_tools f)) True (\<lambda>maj mnr. format_nat maj @ ''.'' @ format_nat mnr) x))"
    and "map_of (snd (one_tool ''go'' (to_go (fa_tools f)) True (\<lambda>maj mnr. format_nat maj @ ''.'' @ format_nat mnr) x)) ''go'' = Some (trim_space v)" for x
    using assms(1) by (auto simp: one_tool_def update_conv' split: prod.split)
  then show ?thesis
    unfolding from_facts_def Let_def split_beta by (simp add: later_tools)
qed

end
