(* ===== verification/Yield.thy ===== *)
theory Yield
  imports Facts
begin

text \<open>
  The worker's side of the owner rule (package \<open>worker/yield\<close>): the state that follows the readings of
  the owner, and giving the running jobs back.
\<close>

section \<open>Following the readings\<close>

record decision =
  dc_may_claim :: bool
  dc_reclaim :: bool
  dc_reason :: string

record yielder =
  ye_rule :: bool
  ye_seen :: bool
  ye_yielding :: bool
  ye_since :: int
  ye_reason :: string

definition new_yielder :: "bool \<Rightarrow> yielder" where
  "new_yielder has_owner_rule = \<lparr>ye_rule = has_owner_rule, ye_seen = False, ye_yielding = False, ye_since = 0, ye_reason = ''''\<rparr>"

definition observe :: "int \<Rightarrow> owner_state option \<Rightarrow> yielder \<Rightarrow> (decision \<times> bool) \<times> yielder" where
  "observe now_ms ow y0 =
     (let y1 = (if ow \<noteq> None then y0\<lparr>ye_seen := True\<rparr> else y0);
          answer = (\<lambda>changed y. ((if ye_yielding y then \<lparr>dc_may_claim = False, dc_reclaim = True, dc_reason = ye_reason y\<rparr>
                                else \<lparr>dc_may_claim = True, dc_reclaim = False, dc_reason = ''''\<rparr>, changed), y))
      in case ow of
           None \<Rightarrow> if ye_rule y1 \<and> \<not> ye_seen y1
                   then ((\<lparr>dc_may_claim = False, dc_reclaim = False, dc_reason = ''unknown''\<rparr>, False), y1)
                   else answer False y1
         | Some s \<Rightarrow>
             if ow_active s
             then (let changed = (\<not> ye_yielding y1);
                       y2 = (if changed then y1\<lparr>ye_yielding := True, ye_since := now_ms\<rparr> else y1)
                   in answer changed (y2\<lparr>ye_reason := ow_reason s\<rparr>))
             else (let changed = ye_yielding y1
                   in answer changed (if changed then y1\<lparr>ye_yielding := False, ye_reason := ''''\<rparr> else y1)))"

definition yielded_since :: "yielder \<Rightarrow> int \<times> bool" where
  "yielded_since y = (ye_since y, ye_yielding y)"

section \<open>Giving the jobs back\<close>

text \<open>
  \<open>ReclaimAll\<close> on the answers of the calls it makes: stopping a job and releasing it, each an error or
  none. The result is the releases that were made, by job and claim, and the errors joined (none if
  every call went well). The jobs do not touch one another, so the order they finish in does not
  matter.
\<close>

record running_job =
  rj_id :: string
  rj_claim_id :: string

definition reclaim_one :: "(running_job \<Rightarrow> 'e option) \<Rightarrow> (string \<Rightarrow> string \<Rightarrow> 'e option) \<Rightarrow> running_job \<Rightarrow> (string \<times> string) list \<times> 'e option" where
  "reclaim_one stop rel j = (case stop j of Some e \<Rightarrow> ([], Some e) | None \<Rightarrow> ([(rj_id j, rj_claim_id j)], rel (rj_id j) (rj_claim_id j)))"

definition reclaim_all :: "(running_job \<Rightarrow> 'e option) \<Rightarrow> (string \<Rightarrow> string \<Rightarrow> 'e option) \<Rightarrow> running_job list \<Rightarrow> (string \<times> string) list \<times> 'e list" where
  "reclaim_all stop rel jobs =
     (concat (map (\<lambda>j. fst (reclaim_one stop rel j)) jobs), List.map_filter (\<lambda>j. snd (reclaim_one stop rel j)) jobs)"

lemma reclaim_all_rule:
  "fst (reclaim_all stop rel jobs) = map (\<lambda>j. (rj_id j, rj_claim_id j)) (filter (\<lambda>j. stop j = None) jobs)"
  "snd (reclaim_all stop rel jobs) = [] \<longleftrightarrow> (\<forall>j \<in> set jobs. stop j = None \<and> rel (rj_id j) (rj_claim_id j) = None)"
  by (induction jobs) (auto simp: reclaim_all_def reclaim_one_def split: option.splits)

section \<open>Properties\<close>

text \<open>The last reading that came, and what the worker should do after it.\<close>

fun last_reading :: "owner_state option \<Rightarrow> owner_state option list \<Rightarrow> owner_state option" where
  "last_reading l [] = l"
| "last_reading l (r # rs) = last_reading (case r of None \<Rightarrow> l | Some s \<Rightarrow> Some s) rs"

definition should :: "bool \<Rightarrow> owner_state option \<Rightarrow> decision" where
  "should rule l =
     (case l of None \<Rightarrow> \<lparr>dc_may_claim = \<not> rule, dc_reclaim = False, dc_reason = (if rule then ''unknown'' else '''')\<rparr>
      | Some s \<Rightarrow> \<lparr>dc_may_claim = \<not> ow_active s, dc_reclaim = ow_active s, dc_reason = (if ow_active s then ow_reason s else '''')\<rparr>)"

fun read_step :: "int \<times> owner_state option \<Rightarrow> yielder \<Rightarrow> yielder" where
  "read_step (t, r) y = snd (observe t r y)"

definition follows :: "bool \<Rightarrow> owner_state option \<Rightarrow> yielder \<Rightarrow> bool" where
  "follows rule l y \<longleftrightarrow> ye_rule y = rule \<and> ye_seen y = (l \<noteq> None) \<and> ye_yielding y = (case l of None \<Rightarrow> False | Some s \<Rightarrow> ow_active s)
     \<and> ye_reason y = (case l of None \<Rightarrow> '''' | Some s \<Rightarrow> if ow_active s then ow_reason s else '''')"

lemma follows_step: "follows rule l y \<Longrightarrow> follows rule (case r of None \<Rightarrow> l | Some s \<Rightarrow> Some s) (snd (observe t r y))"
  by (cases r; cases l) (auto simp: follows_def observe_def Let_def)

lemma follows_run: "follows rule l y \<Longrightarrow> follows rule (last_reading l (map snd rs)) (fold read_step rs y)"
proof (induction rs arbitrary: l y)
  case (Cons r rs)
  then show ?case using follows_step [of rule l y "snd r" "fst r"] by (cases r) auto
qed simp

lemma last_reading_append: "last_reading l (rs @ [r]) = (case r of None \<Rightarrow> last_reading l rs | Some s \<Rightarrow> Some s)"
  by (induction rs arbitrary: l) (auto split: option.split)

lemma observe_decides: "follows rule l y \<Longrightarrow> fst (fst (observe t r y)) = should rule (case r of None \<Rightarrow> l | Some s \<Rightarrow> Some s)"
  by (cases r; cases l) (auto simp: follows_def observe_def should_def Let_def)

text \<open>
  After any readings, missing ones among them, the worker does what the last reading that came says:
  while the owner is active it takes no job and gives back what runs, with the owner's reason; when the
  owner was last seen away it takes jobs; and before the first reading it takes none exactly on a host
  with an owner rule.
\<close>

theorem observe_follows_last_reading:
  "fst (fst (observe t r (fold read_step rs (new_yielder rule)))) = should rule (last_reading None (map snd rs @ [r]))"
proof -
  have "follows rule None (new_yielder rule)" by (simp add: follows_def new_yielder_def)
  from observe_decides [OF follows_run [OF this]] show ?thesis
    by (simp add: last_reading_append)
qed

end
