(* ===== verification/Report.thy ===== *)
theory Report
  imports Labels Decimal Yield
begin

text \<open>
  Delivering what a worker did with a job to the job's origin (package \<open>worker/report\<close>): the result
  and then the log, or the release of the claim, with the retries, and the holds that keep a repo, a
  job or a task from being picked again at once. Times are nanoseconds. What the origin, the clock,
  the context and the files answer at each try is a stream \<open>ans\<close>, one for each of the loops of a
  delivery; the summary of a run is a parameter. A loop that retries is a partial function: that it ends is a theorem.
\<close>

section \<open>How a run ended\<close>

text \<open>\<open>run.Result\<close>, as far as it is reported. An error is its text and whether it is \<open>exec.ErrNotFound\<close>.\<close>

record run_error =
  re_text :: string
  re_not_found :: bool

record run_result =
  rn_outcome :: string
  rn_exit_code :: int
  rn_signal :: string
  rn_err :: "run_error option"
  rn_reason :: string
  rn_started_at :: "int option"
  rn_finished_at :: "int option"
  rn_log_path :: string
  rn_capture_err :: "string option"

datatype ended_kind = KindSkipped | KindRan | KindCancelled | KindLost | KindShutdown | KindReclaimed | KindRejected | KindInfra | KindOrigin

text \<open>The error of an ended job by what it wraps: a \<open>Rejected\<close>, an \<open>OriginError\<close>, \<open>ErrBusy\<close>, or only a text.\<close>

datatype ended_error = E_rejected string | E_origin int string | E_busy | E_text string

record ended_job =
  en_kind :: ended_kind
  en_source :: string
  en_job_id :: string
  en_repo :: string
  en_task :: string
  en_claim_id :: string
  en_run :: run_result
  en_err :: "ended_error option"
  en_err_text :: string \<comment> \<open>\<open>Err.Error()\<close> when \<open>Err\<close> is set\<close>

definition command_not_found :: "run_result \<Rightarrow> bool" where
  "command_not_found r \<longleftrightarrow> rn_outcome r = ''start_failed'' \<and> (case rn_err r of None \<Rightarrow> False | Some e \<Rightarrow> re_not_found e)"

section \<open>Texts\<close>

text \<open>\<open>strings.Fields\<close>: the word being read, and the rest of the text. A byte at least goes each round.\<close>

fun fields_from :: "nat \<Rightarrow> string \<Rightarrow> string \<Rightarrow> string list" where
  "fields_from 0 w s = (if w = [] then [] else [w])"
| "fields_from (Suc n) w s =
     (case s of [] \<Rightarrow> (if w = [] then [] else [w])
      | c # cs \<Rightarrow> (case List.find (\<lambda>p. has_prefix p s) go_spaces of
           Some p \<Rightarrow> (if w = [] then [] else [w]) @ fields_from n [] (drop (length p) s)
         | None \<Rightarrow> fields_from n (w @ [c]) cs))"

definition clip :: "string \<Rightarrow> nat \<Rightarrow> string" where
  "clip s n = (let t = join '' '' (fields_from (length s) [] s) in if length t > n then take n t else t)"

definition max_detail :: nat where
  "max_detail = 200"

definition origin_detail :: "ended_error option \<Rightarrow> string \<Rightarrow> string" where
  "origin_detail err text =
     (case err of
        None \<Rightarrow> ''origin snapshot: failed''
      | Some (E_origin status body) \<Rightarrow> ''origin snapshot '' @ format_int status @ '': '' @ clip body max_detail
      | Some E_busy \<Rightarrow> ''origin snapshot busy''
      | Some _ \<Rightarrow> ''origin snapshot: '' @ clip text max_detail)"

section \<open>Configuration\<close>

definition seconds :: int where "seconds = 1000000000"

record report_config =
  rc_backoff :: int
  rc_max_backoff :: int
  rc_log_retry_for :: int
  rc_suspend_for :: int
  rc_origin_backoff :: int
  rc_origin_backoff_max :: int
  rc_task_backoff :: int
  rc_task_backoff_max :: int

definition retry_bound :: int where "retry_bound = 600 * seconds"

definition confirm_timeout :: int where "confirm_timeout = 5 * seconds"

text \<open>A first wait and a longest one, filled in the way \<open>New\<close> does for each of its pairs.\<close>

definition fill_pair :: "int \<Rightarrow> int \<Rightarrow> int \<Rightarrow> int \<Rightarrow> int \<times> int" where
  "fill_pair first0 max0 first_default max_default =
     (let first = (if first0 \<le> 0 then first_default else first0);
          mx = (if max0 < first then (if max_default < first then first else max_default) else max0)
      in (first, mx))"

definition new_config :: "report_config \<Rightarrow> report_config" where
  "new_config c =
     (let (b, bm) = fill_pair (rc_backoff c) (rc_max_backoff c) seconds (30 * seconds);
          (ob, obm) = fill_pair (rc_origin_backoff c) (rc_origin_backoff_max c) (15 * seconds) (300 * seconds);
          (tb, tbm) = fill_pair (rc_task_backoff c) (rc_task_backoff_max c) (15 * seconds) (300 * seconds)
      in \<lparr>rc_backoff = b, rc_max_backoff = bm,
          rc_log_retry_for = (if rc_log_retry_for c \<le> 0 then 120 * seconds else rc_log_retry_for c),
          rc_suspend_for = (if rc_suspend_for c \<le> 0 then 300 * seconds else rc_suspend_for c),
          rc_origin_backoff = ob, rc_origin_backoff_max = obm, rc_task_backoff = tb, rc_task_backoff_max = tbm\<rparr>)"

section \<open>Holds\<close>

record origin_hold =
  oh_until :: int
  oh_wait :: int
  oh_ended :: bool

record reporter =
  rp_suspended :: "((string \<times> string) \<times> int) list"
  rp_origin_held :: "((string \<times> string) \<times> origin_hold) list"
  rp_task_held :: "((string \<times> string \<times> string) \<times> origin_hold) list"

definition new_reporter :: reporter where
  "new_reporter = \<lparr>rp_suspended = [], rp_origin_held = [], rp_task_held = []\<rparr>"

text \<open>\<open>longOver\<close> and \<open>taskLongOver\<close>, with the longest wait of their kind of hold.\<close>

definition long_over :: "int \<Rightarrow> int \<Rightarrow> origin_hold \<Rightarrow> bool" where
  "long_over mx now h \<longleftrightarrow> \<not> now < oh_until h + mx"

text \<open>What \<open>holdOff\<close> and \<open>holdTask\<close> do to their table: forget what is long over, then hold the key.\<close>

definition put_hold :: "int \<Rightarrow> int \<Rightarrow> int \<Rightarrow> 'k \<Rightarrow> ('k \<times> origin_hold) list \<Rightarrow> ('k \<times> origin_hold) list" where
  "put_hold first mx now k m =
     (let m1 = filter (\<lambda>kh. \<not> long_over mx now (snd kh)) m;
          w = (case map_of m1 k of Some old \<Rightarrow> if \<not> long_over mx now old then min (oh_wait old * 2) mx else first | None \<Rightarrow> first)
      in AList.update k \<lparr>oh_until = now + w, oh_wait = w, oh_ended = False\<rparr> m1)"

definition hold_off :: "report_config \<Rightarrow> int \<Rightarrow> string \<Rightarrow> string \<Rightarrow> reporter \<Rightarrow> reporter" where
  "hold_off c now source job r =
     r\<lparr>rp_origin_held := put_hold (rc_origin_backoff c) (rc_origin_backoff_max c) now (source, job) (rp_origin_held r)\<rparr>"

definition hold_task :: "report_config \<Rightarrow> int \<Rightarrow> ended_job \<Rightarrow> reporter \<Rightarrow> reporter" where
  "hold_task c now e r =
     r\<lparr>rp_task_held := put_hold (rc_task_backoff c) (rc_task_backoff_max c) now (en_source e, en_repo e, en_task e) (rp_task_held r)\<rparr>"

definition forget_task :: "ended_job \<Rightarrow> reporter \<Rightarrow> reporter" where
  "forget_task e r = r\<lparr>rp_task_held := AList.delete (en_source e, en_repo e, en_task e) (rp_task_held r)\<rparr>"

definition forget_hold :: "string \<Rightarrow> string \<Rightarrow> reporter \<Rightarrow> reporter" where
  "forget_hold source job r = r\<lparr>rp_origin_held := AList.delete (source, job) (rp_origin_held r)\<rparr>"

definition task_held :: "report_config \<Rightarrow> int \<Rightarrow> string \<Rightarrow> string \<Rightarrow> string \<Rightarrow> reporter \<Rightarrow> bool \<times> reporter" where
  "task_held c now source repo task r =
     (let k = (source, repo, task) in
      case map_of (rp_task_held r) k of
        None \<Rightarrow> (False, r)
      | Some h \<Rightarrow>
          if long_over (rc_task_backoff_max c) now h then (False, r\<lparr>rp_task_held := AList.delete k (rp_task_held r)\<rparr>)
          else if now < oh_until h then (True, r)
          else (False, r\<lparr>rp_task_held := AList.update k (h\<lparr>oh_ended := True\<rparr>) (rp_task_held r)\<rparr>))"

definition held_off :: "report_config \<Rightarrow> int \<Rightarrow> string \<Rightarrow> string \<Rightarrow> reporter \<Rightarrow> bool \<times> reporter" where
  "held_off c now source job r =
     (let k = (source, job) in
      case map_of (rp_origin_held r) k of
        None \<Rightarrow> (False, r)
      | Some h \<Rightarrow>
          if long_over (rc_origin_backoff_max c) now h then (False, r\<lparr>rp_origin_held := AList.delete k (rp_origin_held r)\<rparr>)
          else (now < oh_until h, r))"

definition suspend :: "report_config \<Rightarrow> int \<Rightarrow> string \<Rightarrow> string \<Rightarrow> reporter \<Rightarrow> reporter" where
  "suspend c now source repo r =
     (if repo = '''' then r else r\<lparr>rp_suspended := AList.update (source, repo) (now + rc_suspend_for c) (rp_suspended r)\<rparr>)"

definition repo_suspended :: "int \<Rightarrow> string \<Rightarrow> string \<Rightarrow> reporter \<Rightarrow> bool \<times> reporter" where
  "repo_suspended now source repo r =
     (case map_of (rp_suspended r) (source, repo) of
        None \<Rightarrow> (False, r)
      | Some til \<Rightarrow> if \<not> now < til then (False, r\<lparr>rp_suspended := AList.delete (source, repo) (rp_suspended r)\<rparr>) else (True, r))"

section \<open>Retries\<close>

text \<open>What a call to the origin answers: \<open>nil\<close>, a 409, a 404, an ended context, or any other error.\<close>

datatype send_answer = Took | Refused_state job_state | Not_found | Ctx_error | Failed_send

datatype log_open = Log_opened | Log_missing | Log_unreadable

text \<open>
  One try: the clock when it begins and after the call, the origin's answer, whether the context has
  ended after the call, whether the pause was cut short, whether the pool reads digests now, and
  what opening the log gave. \<open>ta_ended_after\<close> is the context once the retries are over.
\<close>

record try_answer =
  ta_begin :: int
  ta_send :: send_answer
  ta_ctx_ended :: bool
  ta_now :: int
  ta_wait_failed :: bool
  ta_digest :: bool
  ta_log :: log_open
  ta_ended_after :: bool

datatype delivery_outcome = Taken | Refused_for_good | Abandoned

definition next_pause :: "report_config \<Rightarrow> int \<Rightarrow> int" where
  "next_pause c pause = (let p = pause * 2 in if p > rc_max_backoff c then rc_max_backoff c else p)"

text \<open>The loop of \<open>retryFor\<close>: how it ended, the last answer, and the number of the next try.\<close>

partial_function (option) retry_loop :: "report_config \<Rightarrow> (nat \<Rightarrow> try_answer) \<Rightarrow> (try_answer \<Rightarrow> send_answer) \<Rightarrow> int \<Rightarrow> int \<Rightarrow> nat
    \<Rightarrow> (delivery_outcome \<times> send_answer \<times> nat) option" where
  "retry_loop c ans act deadline pause n =
     (let a = ans n; r = act a in
      if r = Took then Some (Taken, r, Suc n)
      else if (case r of Refused_state _ \<Rightarrow> True | _ \<Rightarrow> r = Not_found) then Some (Refused_for_good, r, Suc n)
      else if ta_ctx_ended a then Some (Abandoned, r, Suc n)
      else if \<not> ta_now a + pause < deadline then Some (Abandoned, r, Suc n)
      else if ta_wait_failed a then Some (Abandoned, r, Suc n)
      else retry_loop c ans act deadline (next_pause c pause) (Suc n))"

declare retry_loop.simps [code]

definition retry_for :: "report_config \<Rightarrow> (nat \<Rightarrow> try_answer) \<Rightarrow> (try_answer \<Rightarrow> send_answer) \<Rightarrow> int
    \<Rightarrow> (delivery_outcome \<times> send_answer \<times> nat) option" where
  "retry_for c ans act bound = retry_loop c ans act (ta_begin (ans 0) + bound) (rc_backoff c) 0"

text \<open>What a delivery meets: the answers to the result or the release, to the confirmation of a result, and to the log.\<close>

record world =
  wd_send :: "nat \<Rightarrow> try_answer"
  wd_confirm :: "nat \<Rightarrow> try_answer"
  wd_log :: "nat \<Rightarrow> try_answer"

section \<open>Delivering\<close>

datatype message = M_result result_request | M_log string | M_release release_request

text \<open>What goes to the origin, try by try, with its answer.\<close>

type_synonym trace = "(message \<times> send_answer) list"

definition gated :: "bool \<Rightarrow> result_request \<Rightarrow> result_request" where
  "gated digest_open req =
     (case rq_summary req of
        None \<Rightarrow> req
      | Some s \<Rightarrow> if sm_passed_digest s = '''' \<or> digest_open then req else req\<lparr>rq_summary := Some (s\<lparr>sm_passed_digest := ''''\<rparr>)\<rparr>)"

text \<open>The first \<open>n\<close> tries.\<close>

definition tries :: "(nat \<Rightarrow> try_answer) \<Rightarrow> (try_answer \<Rightarrow> message \<times> send_answer) \<Rightarrow> nat \<Rightarrow> trace" where
  "tries ans f n = map (\<lambda>i. f (ans i)) [0..<n]"

text \<open>\<open>postResult\<close>: whether the origin took it, and what was sent.\<close>

definition send_result :: "report_config \<Rightarrow> world \<Rightarrow> result_request \<Rightarrow> (bool \<times> trace) option" where
  "send_result c w req =
     (let send = (\<lambda>a. (M_result (gated (ta_digest a) req), ta_send a)) in
      case retry_for c (wd_send w) ta_send retry_bound of
        None \<Rightarrow> None
      | Some (out, latest, n) \<Rightarrow>
          let t = tries (wd_send w) send n in
          if out = Abandoned \<and> ta_ended_after (wd_send w (n - 1)) \<and> latest = Ctx_error then
            (case retry_for c (wd_confirm w) ta_send confirm_timeout of
               None \<Rightarrow> None
             | Some (out2, _, n2) \<Rightarrow> Some (out2 = Taken, t @ tries (wd_confirm w) send n2))
          else Some (out = Taken, t))"

text \<open>One try of \<open>putLog\<close>: what it returns, which is no error when there is no log.\<close>

definition log_try :: "try_answer \<Rightarrow> send_answer" where
  "log_try a = (case ta_log a of Log_missing \<Rightarrow> Took | Log_unreadable \<Rightarrow> Failed_send | Log_opened \<Rightarrow> ta_send a)"

definition upload_log :: "report_config \<Rightarrow> world \<Rightarrow> string \<Rightarrow> trace option" where
  "upload_log c w claim_id =
     map_option (\<lambda>(_, _, n). map (\<lambda>i. (M_log claim_id, ta_send (wd_log w i))) (filter (\<lambda>i. ta_log (wd_log w i) = Log_opened) [0..<n]))
       (retry_for c (wd_log w) log_try (rc_log_retry_for c))"

definition send_release :: "report_config \<Rightarrow> world \<Rightarrow> release_request \<Rightarrow> trace option" where
  "send_release c w req =
     map_option (\<lambda>(_, _, n). tries (wd_send w) (\<lambda>a. (M_release req, ta_send a)) n) (retry_for c (wd_send w) ta_send retry_bound)"

text \<open>\<open>release\<close>; \<open>cause\<close> is the text of the error.\<close>

definition give_back :: "report_config \<Rightarrow> world \<Rightarrow> int \<Rightarrow> ended_job \<Rightarrow> release_reason \<Rightarrow> string option \<Rightarrow> reporter
    \<Rightarrow> (trace \<times> reporter) option" where
  "give_back c w now e reason cause r =
     (let r1 = (if reason = ReleaseInfra \<and> \<not> command_not_found (en_run e) then suspend c now (en_source e) (en_repo e) r else r);
          req = \<lparr>rl_claim_id = en_claim_id e, rl_reason = reason, rl_detail = (case cause of None \<Rightarrow> '''' | Some t \<Rightarrow> clip t max_detail)\<rparr>
      in map_option (\<lambda>t. (t, r1)) (send_release c w req))"

definition origin_failed :: "report_config \<Rightarrow> world \<Rightarrow> int \<Rightarrow> ended_job \<Rightarrow> reporter \<Rightarrow> (trace \<times> reporter) option" where
  "origin_failed c w now e r =
     (let r1 = hold_off c now (en_source e) (en_job_id e) r;
          req = \<lparr>rl_claim_id = en_claim_id e, rl_reason = ReleaseReclaim, rl_detail = origin_detail (en_err e) (en_err_text e)\<rparr>
      in map_option (\<lambda>t. (t, r1)) (send_release c w req))"

text \<open>A result and, once it is taken, the log.\<close>

definition result_then_log :: "report_config \<Rightarrow> world \<Rightarrow> result_request \<Rightarrow> bool \<Rightarrow> (bool \<times> trace) option" where
  "result_then_log c w req with_log =
     (case send_result c w req of
        None \<Rightarrow> None
      | Some (ok, t) \<Rightarrow>
          if \<not> ok \<or> \<not> with_log then Some (ok, t)
          else map_option (\<lambda>u. (True, t @ u)) (upload_log c w (rq_claim_id req)))"

definition rejected :: "report_config \<Rightarrow> world \<Rightarrow> ended_job \<Rightarrow> (bool \<times> trace) option" where
  "rejected c w e =
     (let reason = (case en_err e of Some (E_rejected t) \<Rightarrow> t | _ \<Rightarrow> ''rejected'');
          req = \<lparr>rq_claim_id = en_claim_id e, rq_state = StateFailed, rq_exit = None,
                 rq_summary = Some \<lparr>sm_passed = 0, sm_failed = 0, sm_skipped = 0, sm_failures = [], sm_tail = [reason], sm_passed_digest = ''''\<rparr>,
                 rq_started_at = None, rq_finished_at = None, rq_reason = ''''\<rparr>
      in result_then_log c w req True)"

text \<open>The state, the reason and the exit status of a run that is a result of the job.\<close>

definition run_verdict :: "run_result \<Rightarrow> (job_state \<times> string \<times> int option) option" where
  "run_verdict run =
     (if rn_outcome run = ''timed_out'' \<or> rn_reason run = ''timeout'' then Some (StateFailed, ''timeout'', None)
      else if rn_reason run = ''oom'' then Some (StateFailed, ''oom'', None)
      else if rn_outcome run = ''exited'' \<and> rn_signal run = '''' \<and> rn_exit_code run = 0 then Some (StateSucceeded, '''', Some 0)
      else if rn_outcome run = ''exited'' \<and> rn_signal run = '''' then Some (StateFailed, '''', Some (rn_exit_code run))
      else if rn_outcome run = ''exited'' then Some (StateFailed, '''', None)
      else None)"

definition err_text :: "run_error option \<Rightarrow> string" where
  "err_text e = (case e of None \<Rightarrow> ''<nil>'' | Some x \<Rightarrow> re_text x)"

definition ran :: "report_config \<Rightarrow> world \<Rightarrow> (ended_job \<Rightarrow> summary) \<Rightarrow> int \<Rightarrow> ended_job \<Rightarrow> reporter \<Rightarrow> (bool \<times> trace \<times> reporter) option" where
  "ran c w summary_of now e r =
     (let run = en_run e in
      case rn_capture_err run of
        Some x \<Rightarrow> map_option (\<lambda>(t, r1). (False, t, r1)) (give_back c w now e ReleaseInfra (Some (''the log could not be kept: '' @ x)) r)
      | None \<Rightarrow>
         (case run_verdict run of
            None \<Rightarrow>
              (let r1 = (if command_not_found run then hold_task c now e r else r) in
               map_option (\<lambda>(t, r2). (False, t, r2))
                 (give_back c w now e ReleaseInfra
                   (Some (''the command did not run to an end here ('' @ rn_outcome run @ ''): '' @ err_text (rn_err run))) r1))
          | Some (st, reason, ex) \<Rightarrow>
              map_option (\<lambda>(ok, t). (ok, t, r))
                (result_then_log c w \<lparr>rq_claim_id = en_claim_id e, rq_state = st, rq_exit = ex, rq_summary = Some (summary_of e),
                   rq_started_at = rn_started_at run, rq_finished_at = rn_finished_at run, rq_reason = reason\<rparr> (rn_log_path run \<noteq> ''''))))"

definition deliver :: "report_config \<Rightarrow> world \<Rightarrow> (ended_job \<Rightarrow> summary) \<Rightarrow> int \<Rightarrow> ended_job \<Rightarrow> reporter \<Rightarrow> (bool \<times> trace \<times> reporter) option" where
  "deliver c w summary_of now e r0 =
     (let r = (if en_kind e \<noteq> KindOrigin then forget_hold (en_source e) (en_job_id e) r0 else r0);
          back = map_option (\<lambda>(t, r1). (False, t, r1)) in
      if rn_err (en_run e) \<noteq> None \<and> \<not> command_not_found (en_run e) \<and> en_kind e \<in> {KindRan, KindCancelled, KindShutdown, KindReclaimed}
      then back (give_back c w now e ReleaseInfra (Some (''the command's unit was not proven stopped: '' @ err_text (rn_err (en_run e)))) r)
      else case en_kind e of
        KindLost \<Rightarrow> Some (False, [], r)
      | KindCancelled \<Rightarrow>
          map_option (\<lambda>(ok, t). (ok, t, r))
            (send_result c w \<lparr>rq_claim_id = en_claim_id e, rq_state = StateCancelled, rq_exit = None, rq_summary = None,
               rq_started_at = rn_started_at (en_run e), rq_finished_at = rn_finished_at (en_run e), rq_reason = ''''\<rparr>)
      | KindRejected \<Rightarrow> map_option (\<lambda>(ok, t). (ok, t, r)) (rejected c w e)
      | KindRan \<Rightarrow> ran c w summary_of now e (if rn_outcome (en_run e) \<noteq> ''start_failed'' then forget_task e r else r)
      | KindInfra \<Rightarrow> back (give_back c w now e ReleaseInfra (if en_err e = None then None else Some (en_err_text e)) r)
      | KindOrigin \<Rightarrow> back (origin_failed c w now e r)
      | KindReclaimed \<Rightarrow> back (give_back c w now e ReleaseReclaim None r)
      | KindShutdown \<Rightarrow> back (give_back c w now e ReleaseReclaim None r)
      | KindSkipped \<Rightarrow> Some (False, [], r))"

text \<open>\<open>Delivery\<close>: a job whose origin has no sink is dropped.\<close>

definition delivery :: "(string \<Rightarrow> bool) \<Rightarrow> report_config \<Rightarrow> world \<Rightarrow> (ended_job \<Rightarrow> summary) \<Rightarrow> int \<Rightarrow> ended_job \<Rightarrow> reporter
    \<Rightarrow> (bool \<times> trace \<times> reporter) option" where
  "delivery has_sink c w summary_of now e r = (if \<not> has_sink (en_source e) then Some (False, [], r) else deliver c w summary_of now e r)"

section \<open>Giving running jobs back\<close>

record held_job =
  hj_source :: string
  hj_job_id :: string
  hj_claim :: string

text \<open>Why a job was not given back; \<open>'e\<close> is an error of stopping it.\<close>

datatype 'e reclaim_error = Stop_failed 'e | Not_asked | No_sink string | Release_failed send_answer

text \<open>\<open>releaser.Release\<close>, with what the sink of an origin answers to the release of a job.\<close>

definition releaser_release :: "(string \<Rightarrow> bool) \<Rightarrow> (string \<Rightarrow> string \<Rightarrow> string \<Rightarrow> send_answer) \<Rightarrow> (string \<rightharpoonup> held_job) \<Rightarrow> string \<Rightarrow> string
    \<Rightarrow> 'e reclaim_error option" where
  "releaser_release has_sink sink by_token token claim_id =
     (case by_token token of
        None \<Rightarrow> Some Not_asked
      | Some j \<Rightarrow>
          if hj_claim j \<noteq> claim_id then Some Not_asked
          else if \<not> has_sink (hj_source j) then Some (No_sink (hj_job_id j))
          else (case sink (hj_source j) (hj_job_id j) claim_id of
                  Took \<Rightarrow> None | Refused_state _ \<Rightarrow> None | Not_found \<Rightarrow> None | x \<Rightarrow> Some (Release_failed x)))"

text \<open>The sink calls that the releases asked of \<open>releaser_release\<close> make.\<close>

definition sink_calls :: "(string \<Rightarrow> bool) \<Rightarrow> (string \<rightharpoonup> held_job) \<Rightarrow> (string \<times> string) list \<Rightarrow> (string \<times> string \<times> string) list" where
  "sink_calls has_sink by_token rels = List.map_filter
     (\<lambda>(tok, cl). case by_token tok of None \<Rightarrow> None
        | Some j \<Rightarrow> if hj_claim j \<noteq> cl \<or> \<not> has_sink (hj_source j) then None else Some (hj_source j, hj_job_id j, cl)) rels"

definition reclaim :: "(string \<Rightarrow> bool) \<Rightarrow> (string \<Rightarrow> string \<Rightarrow> string \<Rightarrow> send_answer) \<Rightarrow> (held_job \<Rightarrow> 'e option) \<Rightarrow> held_job list
    \<Rightarrow> (string \<times> string \<times> string) list \<times> 'e reclaim_error list" where
  "reclaim has_sink sink stop jobs =
     (let by_token = map_of (map (\<lambda>(i, j). (format_nat i, j)) (enumerate 0 jobs));
          ys = map (\<lambda>(i, j). \<lparr>rj_id = format_nat i, rj_claim_id = hj_claim j\<rparr>) (enumerate 0 jobs);
          stop_token = (\<lambda>y. case by_token (rj_id y) of None \<Rightarrow> None | Some j \<Rightarrow> map_option Stop_failed (stop j));
          (rels, errs) = reclaim_all stop_token (releaser_release has_sink sink by_token) ys
      in (sink_calls has_sink by_token rels, errs))"

section \<open>The retries end\<close>

definition pause_at :: "report_config \<Rightarrow> nat \<Rightarrow> int" where
  "pause_at c i = (next_pause c ^^ i) (rc_backoff c)"

text \<open>
  What the loops rely on of the clock and the timer: time does not go back during a try, and a pause
  that was not cut short lasted as long as asked.
\<close>

definition clock_runs :: "report_config \<Rightarrow> (nat \<Rightarrow> try_answer) \<Rightarrow> bool" where
  "clock_runs c ans \<longleftrightarrow> (\<forall>i. ta_begin (ans i) \<le> ta_now (ans i)
     \<and> (\<not> ta_wait_failed (ans i) \<longrightarrow> ta_now (ans i) + pause_at c i \<le> ta_begin (ans (Suc i))))"

lemma fill_pair_ok: "0 < first_default \<Longrightarrow> fill_pair f m first_default max_default = (x, y) \<Longrightarrow> 0 < x \<and> x \<le> y"
  by (auto simp: fill_pair_def Let_def split: if_splits)

lemma new_config_ok:
  "0 < rc_backoff (new_config c) \<and> rc_backoff (new_config c) \<le> rc_max_backoff (new_config c)"
  "0 < rc_origin_backoff (new_config c) \<and> rc_origin_backoff (new_config c) \<le> rc_origin_backoff_max (new_config c)"
  "0 < rc_task_backoff (new_config c) \<and> rc_task_backoff (new_config c) \<le> rc_task_backoff_max (new_config c)"
  "0 < rc_log_retry_for (new_config c)" "0 < rc_suspend_for (new_config c)"
  using fill_pair_ok [of seconds "rc_backoff c" "rc_max_backoff c" "30 * seconds"]
    fill_pair_ok [of "15 * seconds" "rc_origin_backoff c" "rc_origin_backoff_max c" "300 * seconds"]
    fill_pair_ok [of "15 * seconds" "rc_task_backoff c" "rc_task_backoff_max c" "300 * seconds"]
  by (simp_all add: new_config_def seconds_def split: prod.splits)

lemma pause_at_bounds:
  assumes "0 < rc_backoff c" "rc_backoff c \<le> rc_max_backoff c"
  shows "rc_backoff c \<le> pause_at c i \<and> pause_at c i \<le> rc_max_backoff c"
  using assms by (induction i) (auto simp: pause_at_def next_pause_def Let_def)

lemma pause_at_Suc: "pause_at c (Suc i) = next_pause c (pause_at c i)"
  by (simp add: pause_at_def)

lemma retry_loop_ends:
  assumes c: "0 < rc_backoff c" "rc_backoff c \<le> rc_max_backoff c" and clock: "clock_runs c ans"
    and i: "ta_begin (ans 0) + int i * rc_backoff c \<le> ta_begin (ans i)" "int i * rc_backoff c \<le> bound"
  shows "\<exists>out r n. retry_loop c ans act (ta_begin (ans 0) + bound) (pause_at c i) i = Some (out, r, n) \<and> int n * rc_backoff c \<le> bound + rc_backoff c
    \<and> (\<forall>j. i \<le> j \<longrightarrow> Suc j < n \<longrightarrow> ta_now (ans j) + pause_at c j < ta_begin (ans 0) + bound)"
  using i
proof (induction "nat (bound - int i * rc_backoff c)" arbitrary: i rule: less_induct)
  case less
  let ?a = "ans i"
  have p: "rc_backoff c \<le> pause_at c i" using pause_at_bounds [OF c] by blast
  have stop: "int (Suc i) * rc_backoff c \<le> bound + rc_backoff c" using less.prems(2) by (simp add: algebra_simps)
  show ?case
  proof (cases "act ?a = Took \<or> (case act ?a of Refused_state _ \<Rightarrow> True | _ \<Rightarrow> act ?a = Not_found) \<or> ta_ctx_ended ?a
      \<or> \<not> ta_now ?a + pause_at c i < ta_begin (ans 0) + bound \<or> ta_wait_failed ?a")
    case True
    then show ?thesis using stop by (subst retry_loop.simps) (auto simp: Let_def)
  next
    case False
    have t: "ta_begin ?a \<le> ta_now ?a" "ta_now ?a + pause_at c i \<le> ta_begin (ans (Suc i))" using clock False by (auto simp: clock_runs_def)
    have n: "ta_begin (ans 0) + int (Suc i) * rc_backoff c \<le> ta_begin (ans (Suc i))" "int (Suc i) * rc_backoff c \<le> bound"
      using t p less.prems(1) False by (auto simp: algebra_simps)
    have "nat (bound - int (Suc i) * rc_backoff c) < nat (bound - int i * rc_backoff c)" using n(2) c(1) by (simp add: algebra_simps)
    from less.hyps [OF this n] obtain out r m where m: "retry_loop c ans act (ta_begin (ans 0) + bound) (pause_at c (Suc i)) (Suc i) = Some (out, r, m)"
        "int m * rc_backoff c \<le> bound + rc_backoff c"
        "\<forall>j. Suc i \<le> j \<longrightarrow> Suc j < m \<longrightarrow> ta_now (ans j) + pause_at c j < ta_begin (ans 0) + bound"
      by blast
    have "ta_now (ans j) + pause_at c j < ta_begin (ans 0) + bound" if "i \<le> j" "Suc j < m" for j
      using that m(3) False by (cases "j = i") auto
    moreover have "retry_loop c ans act (ta_begin (ans 0) + bound) (pause_at c i) i = Some (out, r, m)"
      using False m(1) by (subst retry_loop.simps) (simp add: Let_def pause_at_Suc)
    ultimately show ?thesis using m(2) by blast
  qed
qed

text \<open>
  A run of \<open>n\<close> tries that kept to its time: the pause before every try but the first ends within
  \<open>bound\<close> of the beginning of the first one, so the tries are at most one more than the first pauses
  that fit in it.
\<close>

definition tries_in_time :: "report_config \<Rightarrow> (nat \<Rightarrow> try_answer) \<Rightarrow> int \<Rightarrow> nat \<Rightarrow> bool" where
  "tries_in_time c ans bound n \<longleftrightarrow> int n * rc_backoff c \<le> bound + rc_backoff c
     \<and> (\<forall>i. Suc i < n \<longrightarrow> ta_now (ans i) + pause_at c i < ta_begin (ans 0) + bound)"

lemma retry_for_ends:
  assumes "c = new_config c0" "clock_runs c ans" "0 \<le> bound"
  shows "\<exists>out r n. retry_for c ans act bound = Some (out, r, n) \<and> tries_in_time c ans bound n"
proof -
  have "0 < rc_backoff c" "rc_backoff c \<le> rc_max_backoff c" using new_config_ok(1) [of c0] assms(1) by auto
  from retry_loop_ends [OF this assms(2), of 0 bound act] show ?thesis
    using assms(3) by (simp add: retry_for_def tries_in_time_def pause_at_def [of c 0])
qed

text \<open>How a loop that ended ended: the origin took the last try or none.\<close>

lemma retry_loop_spec:
  assumes "retry_loop c ans act d p n = Some y"
  shows "n < snd (snd y) \<and> fst (snd y) = act (ans (snd (snd y) - 1)) \<and> (fst y = Taken \<longleftrightarrow> act (ans (snd (snd y) - 1)) = Took)
    \<and> (\<forall>i. n \<le> i \<longrightarrow> Suc i < snd (snd y) \<longrightarrow> act (ans i) \<noteq> Took)"
proof (rule retry_loop.raw_induct [OF _ assms])
  fix f c and ans :: "nat \<Rightarrow> try_answer" and act d p n y
  assume IH: "\<And>c ans act d p n y. f c ans act d p n = Some y \<Longrightarrow>
      n < snd (snd y) \<and> fst (snd y) = act (ans (snd (snd y) - 1)) \<and> (fst y = Taken \<longleftrightarrow> act (ans (snd (snd y) - 1)) = Took)
      \<and> (\<forall>i. n \<le> i \<longrightarrow> Suc i < snd (snd y) \<longrightarrow> act (ans i) \<noteq> Took)"
    and y: "(let a = ans n; r = act a in
      if r = Took then Some (Taken, r, Suc n)
      else if (case r of Refused_state _ \<Rightarrow> True | _ \<Rightarrow> r = Not_found) then Some (Refused_for_good, r, Suc n)
      else if ta_ctx_ended a then Some (Abandoned, r, Suc n)
      else if \<not> ta_now a + p < d then Some (Abandoned, r, Suc n)
      else if ta_wait_failed a then Some (Abandoned, r, Suc n)
      else f c ans act d (next_pause c p) (Suc n)) = Some y"
  consider (stop) "y \<in> {(Taken, Took, Suc n), (Refused_for_good, act (ans n), Suc n), (Abandoned, act (ans n), Suc n)}" "act (ans n) = Took \<longleftrightarrow> fst y = Taken"
    | (go) "act (ans n) \<noteq> Took" "f c ans act d (next_pause c p) (Suc n) = Some y"
    using y by (auto simp: Let_def split: if_splits)
  then show "n < snd (snd y) \<and> fst (snd y) = act (ans (snd (snd y) - 1)) \<and> (fst y = Taken \<longleftrightarrow> act (ans (snd (snd y) - 1)) = Took)
      \<and> (\<forall>i. n \<le> i \<longrightarrow> Suc i < snd (snd y) \<longrightarrow> act (ans i) \<noteq> Took)"
  proof cases
    case stop
    then show ?thesis by auto
  next
    case go
    then show ?thesis using IH [OF go(2)] by (metis Suc_leI Suc_lessD le_neq_implies_less)
  qed
qed

lemma retry_for_spec:
  assumes "retry_for c ans act bound = Some (out, r, n)"
  shows "0 < n \<and> r = act (ans (n - 1)) \<and> (out = Taken \<longleftrightarrow> (\<exists>i < n. act (ans i) = Took))"
proof -
  have "0 < n" "r = act (ans (n - 1))" "out = Taken \<longleftrightarrow> act (ans (n - 1)) = Took" "\<forall>i. Suc i < n \<longrightarrow> act (ans i) \<noteq> Took"
    using retry_loop_spec [OF assms [unfolded retry_for_def]] by simp_all
  moreover from \<open>0 < n\<close> obtain k where "n = Suc k" by (cases n) auto
  ultimately show ?thesis by (metis Suc_less_eq diff_Suc_1 less_antisym lessI)
qed

section \<open>What is sent\<close>

text \<open>A result was taken, in a trace.\<close>

definition result_taken :: "trace \<Rightarrow> bool" where
  "result_taken t \<longleftrightarrow> (\<exists>req. (M_result req, Took) \<in> set t)"

lemma result_taken_simps [simp]:
  "result_taken [] \<longleftrightarrow> False" "result_taken (t @ u) \<longleftrightarrow> result_taken t \<or> result_taken u"
  by (auto simp: result_taken_def)

lemma tries_taken: "result_taken (tries ans (\<lambda>a. (M_result (g a), ta_send a)) n) \<longleftrightarrow> (\<exists>i < n. ta_send (ans i) = Took)"
  by (force simp: result_taken_def tries_def image_iff)

lemma release_not_taken: "send_release c w req = Some t \<Longrightarrow> \<not> result_taken t"
  by (auto simp: send_release_def tries_def result_taken_def)

lemma log_not_taken: "upload_log c w cl = Some t \<Longrightarrow> \<not> result_taken t"
  by (auto simp: upload_log_def result_taken_def)

lemma send_result_taken:
  assumes "send_result c w req = Some (ok, t)"
  shows "ok \<longleftrightarrow> result_taken t"
proof -
  let ?f = "\<lambda>a. (M_result (gated (ta_digest a) req), ta_send a)"
  have tk: "result_taken (tries ans ?f n) \<longleftrightarrow> (\<exists>i < n. ta_send (ans i) = Took)" for ans n by (rule tries_taken)
  obtain out r n where m: "retry_for c (wd_send w) ta_send retry_bound = Some (out, r, n)"
    using assms by (auto simp: send_result_def Let_def split: option.splits prod.splits)
  show ?thesis
  proof (cases "out = Abandoned \<and> ta_ended_after (wd_send w (n - 1)) \<and> r = Ctx_error")
    case True
    then obtain out2 r2 n2 where m2: "retry_for c (wd_confirm w) ta_send confirm_timeout = Some (out2, r2, n2)"
      and t: "ok = (out2 = Taken)" "t = tries (wd_send w) ?f n @ tries (wd_confirm w) ?f n2"
      using assms m by (auto simp: send_result_def Let_def split: option.splits)
    have "\<not> result_taken (tries (wd_send w) ?f n)" using retry_for_spec [OF m] True tk by auto
    then show ?thesis using t retry_for_spec [OF m2] tk by auto
  next
    case False
    then have "ok = (out = Taken)" "t = tries (wd_send w) ?f n" using assms m by (auto simp: send_result_def Let_def)
    then show ?thesis using retry_for_spec [OF m] tk by simp
  qed
qed

lemma result_then_log_taken: "result_then_log c w req l = Some (ok, t) \<Longrightarrow> ok \<longleftrightarrow> result_taken t"
  by (auto simp: result_then_log_def dest: send_result_taken log_not_taken split: option.splits prod.splits if_splits)

lemma give_back_not_taken: "give_back c w now e reason cause r = Some (t, r') \<Longrightarrow> \<not> result_taken t"
  by (auto simp: give_back_def Let_def dest: release_not_taken)

lemma ran_taken: "ran c w summary_of now e r = Some (ok, t, r') \<Longrightarrow> ok \<longleftrightarrow> result_taken t"
  by (auto simp: ran_def Let_def dest: give_back_not_taken result_then_log_taken split: option.splits prod.splits)

lemma back_taken: "map_option (\<lambda>(t, r1). (False, t, r1)) x = Some (ok, t, r') \<Longrightarrow> x = Some (t, r') \<and> \<not> ok"
  by (cases x) auto

lemma deliver_taken:
  assumes "deliver c w summary_of now e r = Some (ok, t, r')"
  shows "ok \<longleftrightarrow> result_taken t"
proof -
  have o: "origin_failed c w now e r0 = Some (t, r') \<Longrightarrow> \<not> result_taken t" for r0 by (auto simp: origin_failed_def Let_def dest: release_not_taken)
  show ?thesis
    using assms
    by (cases "en_kind e")
       (auto simp: deliver_def Let_def rejected_def dest!: back_taken dest: give_back_not_taken result_then_log_taken send_result_taken ran_taken o split: if_splits)
qed

text \<open>Every result in a trace.\<close>

definition results_of :: "trace \<Rightarrow> result_request set" where
  "results_of t = {req. \<exists>a. (M_result req, a) \<in> set t}"

lemma results_of_append [simp]: "results_of (t @ u) = results_of t \<union> results_of u"
  by (auto simp: results_of_def)

lemma results_of_release: "send_release c w req = Some t \<Longrightarrow> results_of t = {}"
  by (auto simp: send_release_def tries_def results_of_def)

lemma results_of_log: "upload_log c w cl = Some t \<Longrightarrow> results_of t = {}"
  by (auto simp: upload_log_def results_of_def)

definition gated_forms :: "result_request \<Rightarrow> result_request set" where
  "gated_forms req = range (\<lambda>d. gated d req)"

lemma gated_in_forms: "gated d req \<in> gated_forms req"
  by (simp add: gated_forms_def)

lemma results_of_post: "send_result c w req = Some (ok, t) \<Longrightarrow> results_of t \<subseteq> gated_forms req"
proof -
  have m: "x \<in> results_of (tries ans (\<lambda>a. (M_result (gated (ta_digest a) req), ta_send a)) n) \<Longrightarrow> x \<in> gated_forms req" for x ans n
    by (auto simp: results_of_def tries_def gated_in_forms)
  show "send_result c w req = Some (ok, t) \<Longrightarrow> ?thesis"
    by (auto simp: send_result_def Let_def dest: m split: option.splits prod.splits if_splits)
qed

lemma results_of_with_log: "result_then_log c w req l = Some (ok, t) \<Longrightarrow> results_of t \<subseteq> gated_forms req"
  by (auto simp: result_then_log_def dest!: results_of_post results_of_log split: option.splits prod.splits if_splits)

lemma results_of_give_back: "give_back c w now e reason cause r = Some (t, r') \<Longrightarrow> results_of t = {}"
  by (auto simp: give_back_def Let_def dest: results_of_release)

lemma gated_valid: "result_request_validate req = None \<Longrightarrow> result_request_validate (gated d req) = None"
  by (auto simp: gated_def result_request_validate_def summary_validate_def split: option.splits if_splits)

text \<open>The states a verdict gives are states of a result, and its reason goes with a failure.\<close>

lemma verdict_valid:
  assumes "run_verdict run = Some (st, reason, ex)" and "check_claim_id cl = None" "summary_validate sm = None"
  shows "result_request_validate \<lparr>rq_claim_id = cl, rq_state = st, rq_exit = ex, rq_summary = sm, rq_started_at = a, rq_finished_at = b, rq_reason = reason\<rparr> = None"
  using assms by (auto simp: run_verdict_def result_request_validate_def result_reasons_def split: if_splits)

lemma ran_results:
  assumes "ran c w summary_of now e r = Some (ok, t, r')" "check_claim_id (en_claim_id e) = None" "summary_validate (Some (summary_of e)) = None"
    and "q \<in> results_of t"
  shows "result_request_validate q = None"
proof -
  obtain st reason ex where v: "run_verdict (en_run e) = Some (st, reason, ex)"
    and l: "result_then_log c w \<lparr>rq_claim_id = en_claim_id e, rq_state = st, rq_exit = ex, rq_summary = Some (summary_of e),
        rq_started_at = rn_started_at (en_run e), rq_finished_at = rn_finished_at (en_run e), rq_reason = reason\<rparr> (rn_log_path (en_run e) \<noteq> '''') = Some (ok, t)"
    using assms(1,4) by (auto simp: ran_def Let_def dest: results_of_give_back split: option.splits prod.splits)
  then show ?thesis
    using results_of_with_log [OF l] verdict_valid [OF v assms(2,3)] gated_valid assms(4) by (auto simp: gated_forms_def)
qed

lemma deliver_results:
  assumes d: "deliver c w summary_of now e r = Some (ok, t, r')" and v: "check_claim_id (en_claim_id e) = None" "summary_validate (Some (summary_of e)) = None"
    and q: "q \<in> results_of t"
  shows "result_request_validate q = None"
proof -
  have post: "result_request_validate req = None \<Longrightarrow> send_result c w req = Some (ok, t) \<Longrightarrow> result_request_validate q = None" for req
    using results_of_post q gated_valid by (fastforce simp: gated_forms_def)
  have wlog: "result_request_validate req = None \<Longrightarrow> result_then_log c w req l = Some (ok, t) \<Longrightarrow> result_request_validate q = None" for req l
    using results_of_with_log q gated_valid by (fastforce simp: gated_forms_def)
  have orig: "origin_failed c w now e r0 = Some (t, r') \<Longrightarrow> results_of t = {}" for r0 by (auto simp: origin_failed_def Let_def dest: results_of_release)
  have n: "results_of [] = {}" by (simp add: results_of_def)
  show ?thesis
  proof (cases "rn_err (en_run e) \<noteq> None \<and> \<not> command_not_found (en_run e) \<and> en_kind e \<in> {KindRan, KindCancelled, KindShutdown, KindReclaimed}")
    case True
    then show ?thesis using d q by (auto simp: deliver_def Let_def dest!: back_taken results_of_give_back)
  next
    case False
    show ?thesis
    proof (cases "en_kind e")
      case KindCancelled
      then have p: "send_result c w \<lparr>rq_claim_id = en_claim_id e, rq_state = StateCancelled, rq_exit = None, rq_summary = None,
          rq_started_at = rn_started_at (en_run e), rq_finished_at = rn_finished_at (en_run e), rq_reason = ''''\<rparr> = Some (ok, t)"
        using d False by (auto simp: deliver_def Let_def)
      show ?thesis by (rule post [OF _ p]) (simp add: result_request_validate_def summary_validate_def v)
    next
      case KindRejected
      then obtain reason where "result_then_log c w \<lparr>rq_claim_id = en_claim_id e, rq_state = StateFailed, rq_exit = None,
          rq_summary = Some \<lparr>sm_passed = 0, sm_failed = 0, sm_skipped = 0, sm_failures = [], sm_tail = [reason], sm_passed_digest = ''''\<rparr>,
          rq_started_at = None, rq_finished_at = None, rq_reason = ''''\<rparr> True = Some (ok, t)"
        using d False by (auto simp: deliver_def Let_def rejected_def)
      then show ?thesis by (rule wlog [rotated]) (simp add: result_request_validate_def summary_validate_def v)
    next
      case KindRan
      then obtain r0 where "ran c w summary_of now e r0 = Some (ok, t, r')" using d False by (auto simp: deliver_def Let_def)
      then show ?thesis using ran_results v q by blast
    qed (use d q False in \<open>auto simp: deliver_def Let_def n dest!: back_taken results_of_give_back orig\<close>)
  qed
qed

lemma length_tries [simp]: "length (tries ans f n) = n"
  by (simp add: tries_def)

text \<open>
  What a delivery sent, as the runs of tries it is made of: the result or the release, the confirmation
  of a result, the log (a try of which sends nothing when the log cannot be opened).
\<close>

definition log_tries :: "world \<Rightarrow> string \<Rightarrow> nat \<Rightarrow> trace" where
  "log_tries w claim_id n = map (\<lambda>i. (M_log claim_id, ta_send (wd_log w i))) (filter (\<lambda>i. ta_log (wd_log w i) = Log_opened) [0..<n])"

definition sent_in_time :: "report_config \<Rightarrow> world \<Rightarrow> trace \<Rightarrow> bool" where
  "sent_in_time c w t \<longleftrightarrow> (\<exists>f cl n n2 n3. t = tries (wd_send w) f n @ tries (wd_confirm w) f n2 @ log_tries w cl n3
     \<and> tries_in_time c (wd_send w) retry_bound n
     \<and> tries_in_time c (wd_confirm w) confirm_timeout n2 \<and> tries_in_time c (wd_log w) (rc_log_retry_for c) n3)"

lemma tries_0 [simp]: "tries ans f 0 = []" "log_tries w cl 0 = []"
  by (simp_all add: tries_def log_tries_def)

lemma length_log_tries: "length (log_tries w cl n) \<le> n"
  using length_filter_le [of _ "[0..<n]"] by (simp add: log_tries_def)

lemma no_tries: "0 < rc_backoff c \<Longrightarrow> 0 \<le> bound \<Longrightarrow> tries_in_time c ans bound 0"
  by (simp add: tries_in_time_def)

lemma send_result_ends:
  assumes c: "c = new_config c0" and w: "clock_runs c (wd_send w)" "clock_runs c (wd_confirm w)"
  shows "\<exists>ok f n n2. send_result c w req = Some (ok, tries (wd_send w) f n @ tries (wd_confirm w) f n2) \<and> tries_in_time c (wd_send w) retry_bound n
    \<and> tries_in_time c (wd_confirm w) confirm_timeout n2"
proof -
  have b: "0 \<le> retry_bound" "0 \<le> confirm_timeout" by (simp_all add: retry_bound_def confirm_timeout_def seconds_def)
  obtain out r n where m: "retry_for c (wd_send w) ta_send retry_bound = Some (out, r, n)" "tries_in_time c (wd_send w) retry_bound n"
    using retry_for_ends [OF c w(1) b(1)] by blast
  obtain out2 r2 n2 where m2: "retry_for c (wd_confirm w) ta_send confirm_timeout = Some (out2, r2, n2)"
      "tries_in_time c (wd_confirm w) confirm_timeout n2"
    using retry_for_ends [OF c w(2) b(2)] by blast
  have z: "tries_in_time c (wd_confirm w) confirm_timeout 0" using new_config_ok(1) c b by (intro no_tries) blast+
  show ?thesis
  proof (cases "out = Abandoned \<and> ta_ended_after (wd_send w (n - 1)) \<and> r = Ctx_error")
    case True
    then show ?thesis using m m2 by (simp add: send_result_def Let_def) blast
  next
    case False
    with m have "\<exists>ok f. send_result c w req = Some (ok, tries (wd_send w) f n @ tries (wd_confirm w) f 0)"
      by (auto simp: send_result_def Let_def)
    then show ?thesis using m(2) z by blast
  qed
qed

lemma upload_log_ends:
  assumes c: "c = new_config c0" and w: "clock_runs c (wd_log w)"
  shows "\<exists>n. upload_log c w cl = Some (log_tries w cl n) \<and> tries_in_time c (wd_log w) (rc_log_retry_for c) n"
proof -
  have c': "0 \<le> rc_log_retry_for c" using new_config_ok(4) [of c0] c by simp
  obtain out r n where "retry_for c (wd_log w) log_try (rc_log_retry_for c) = Some (out, r, n)" "tries_in_time c (wd_log w) (rc_log_retry_for c) n"
    using retry_for_ends [OF c w c'] by blast
  then show ?thesis by (auto simp: upload_log_def log_tries_def)
qed

lemma result_then_log_ends:
  assumes c: "c = new_config c0" and w: "clock_runs c (wd_send w)" "clock_runs c (wd_confirm w)" "clock_runs c (wd_log w)"
  shows "\<exists>ok t. result_then_log c w req l = Some (ok, t) \<and> sent_in_time c w t"
proof -
  obtain ok f n n2 where p: "send_result c w req = Some (ok, tries (wd_send w) f n @ tries (wd_confirm w) f n2)"
      "tries_in_time c (wd_send w) retry_bound n" "tries_in_time c (wd_confirm w) confirm_timeout n2"
    using send_result_ends [OF c w(1,2)] by blast
  obtain n3 where u: "upload_log c w (rq_claim_id req) = Some (log_tries w (rq_claim_id req) n3)"
      "tries_in_time c (wd_log w) (rc_log_retry_for c) n3"
    using upload_log_ends [OF c w(3)] by blast
  have "tries_in_time c (wd_log w) (rc_log_retry_for c) 0" using new_config_ok(1,4) [of c0] c by (intro no_tries) auto
  then have "sent_in_time c w (tries (wd_send w) f n @ tries (wd_confirm w) f n2 @ log_tries w (rq_claim_id req) 0)"
      "sent_in_time c w (tries (wd_send w) f n @ tries (wd_confirm w) f n2 @ log_tries w (rq_claim_id req) n3)"
    using p(2,3) u(2) unfolding sent_in_time_def by blast+
  then show ?thesis using p(1) u(1) by (auto simp: result_then_log_def)
qed

lemma sent_in_time_Nil:
  assumes "c = new_config c0"
  shows "sent_in_time c w []"
proof -
  have "tries_in_time c (wd_send w) retry_bound 0" "tries_in_time c (wd_confirm w) confirm_timeout 0"
      "tries_in_time c (wd_log w) (rc_log_retry_for c) 0"
    using new_config_ok(1,4) [of c0] assms by (auto intro!: no_tries simp: retry_bound_def confirm_timeout_def seconds_def)
  moreover have "[] = tries (wd_send w) f 0 @ tries (wd_confirm w) f 0 @ log_tries w [] 0" for f by simp
  ultimately show ?thesis unfolding sent_in_time_def by blast
qed

lemma send_release_ends:
  assumes c: "c = new_config c0" and w: "clock_runs c (wd_send w)"
  shows "\<exists>t. send_release c w req = Some t \<and> sent_in_time c w t"
proof -
  have b: "0 \<le> retry_bound" "0 \<le> confirm_timeout" "0 \<le> rc_log_retry_for c"
    using new_config_ok(4) [of c0] c by (simp_all add: retry_bound_def confirm_timeout_def seconds_def)
  obtain out r n where m: "retry_for c (wd_send w) ta_send retry_bound = Some (out, r, n)" "tries_in_time c (wd_send w) retry_bound n"
    using retry_for_ends [OF c w b(1)] by blast
  have "0 < rc_backoff c" using new_config_ok(1) c by blast
  then have "tries_in_time c (wd_confirm w) confirm_timeout 0" "tries_in_time c (wd_log w) (rc_log_retry_for c) 0"
    using b by (simp_all add: no_tries)
  then have "sent_in_time c w (tries (wd_send w) (\<lambda>a. (M_release req, ta_send a)) n
      @ tries (wd_confirm w) (\<lambda>a. (M_release req, ta_send a)) 0 @ log_tries w [] 0)"
    using m(2) unfolding sent_in_time_def by blast
  then show ?thesis using m(1) by (simp add: send_release_def)
qed

text \<open>A step that ended in time; \<open>tr\<close> reads what it sent.\<close>

definition in_time :: "report_config \<Rightarrow> world \<Rightarrow> ('a \<Rightarrow> trace) \<Rightarrow> 'a option \<Rightarrow> bool" where
  "in_time c w tr x = (case x of None \<Rightarrow> False | Some y \<Rightarrow> sent_in_time c w (tr y))"

lemma in_time_map [simp]: "in_time c w tr (map_option f x) = in_time c w (\<lambda>y. tr (f y)) x"
  by (cases x) (simp_all add: in_time_def)

lemma in_time_Some [simp]: "in_time c w tr (Some y) \<longleftrightarrow> sent_in_time c w (tr y)"
  by (simp add: in_time_def)

lemma delivery_steps_end:
  assumes "c = new_config c0" "clock_runs c (wd_send w)" "clock_runs c (wd_confirm w)" "clock_runs c (wd_log w)"
  shows "in_time c w (\<lambda>t. t) (send_release c w rel)" "in_time c w snd (send_result c w req)" "in_time c w snd (result_then_log c w req l)"
proof -
  show "in_time c w (\<lambda>t. t) (send_release c w rel)" using send_release_ends [OF assms(1,2), of rel] by (auto simp: in_time_def)
  have l: "in_time c w snd (result_then_log c w req l)" for l using result_then_log_ends [OF assms, of req l] by (auto simp: in_time_def)
  show "in_time c w snd (result_then_log c w req l)" by (rule l)
  show "in_time c w snd (send_result c w req)" using l [of False] by (auto simp: result_then_log_def in_time_def split: option.splits)
qed

lemma give_back_ends: "(\<And>rel. in_time c w (\<lambda>t. t) (send_release c w rel)) \<Longrightarrow> in_time c w fst (give_back c w now e reason cause r)"
  by (simp add: give_back_def Let_def)

lemma ran_ends:
  assumes "\<And>rel. in_time c w (\<lambda>t. t) (send_release c w rel)" "\<And>req l. in_time c w snd (result_then_log c w req l)"
  shows "in_time c w (\<lambda>y. fst (snd y)) (ran c w summary_of now e r)"
  using give_back_ends [OF assms(1)] assms(2) by (simp add: ran_def Let_def case_prod_beta split: option.splits)

lemma deliver_ends:
  assumes "\<And>rel. in_time c w (\<lambda>t. t) (send_release c w rel)" "\<And>req l. in_time c w snd (result_then_log c w req l)" "\<And>req. in_time c w snd (send_result c w req)"
    and "sent_in_time c w []"
  shows "in_time c w (\<lambda>y. fst (snd y)) (deliver c w summary_of now e r)"
  using give_back_ends [OF assms(1)] ran_ends [OF assms(1,2)] assms
  by (cases "en_kind e") (simp_all add: deliver_def rejected_def origin_failed_def Let_def case_prod_beta)

lemma sent_in_time_count:
  assumes "sent_in_time c w t" and "0 < rc_backoff c"
  shows "int (length t) * rc_backoff c \<le> retry_bound + confirm_timeout + rc_log_retry_for c + 3 * rc_backoff c"
proof -
  obtain f cl n n2 n3 where t: "t = tries (wd_send w) f n @ tries (wd_confirm w) f n2 @ log_tries w cl n3"
    and n: "int n * rc_backoff c \<le> retry_bound + rc_backoff c"
      "int n2 * rc_backoff c \<le> confirm_timeout + rc_backoff c" "int n3 * rc_backoff c \<le> rc_log_retry_for c + rc_backoff c"
    using assms(1) by (auto simp: sent_in_time_def tries_in_time_def)
  have "length t \<le> n + n2 + n3" using length_log_tries [of w cl n3] by (simp add: t tries_def)
  then have "int (length t) * rc_backoff c \<le> int (n + n2 + n3) * rc_backoff c"
    using assms(2) by (intro mult_right_mono) simp_all
  then show ?thesis using n by (simp add: algebra_simps)
qed

section \<open>Waits and tokens\<close>

lemma map_of_filter_distinct:
  "distinct (map fst m) \<Longrightarrow> map_of (filter (\<lambda>kv. P (snd kv)) m) k = (case map_of m k of None \<Rightarrow> None | Some v \<Rightarrow> if P v then Some v else None)"
  by (induction m) (auto split: option.splits simp: map_of_eq_None_iff rev_image_eqI)

lemma put_hold_distinct: "distinct (map fst m) \<Longrightarrow> distinct (map fst (put_hold first mx now k m))"
  by (simp add: put_hold_def Let_def distinct_update distinct_map_filter)

lemma put_hold_at:
  assumes "distinct (map fst m)"
  shows "map_of (put_hold first mx now k m) k =
    (let w = (case map_of m k of Some old \<Rightarrow> if long_over mx now old then first else min (oh_wait old * 2) mx | None \<Rightarrow> first)
     in Some \<lparr>oh_until = now + w, oh_wait = w, oh_ended = False\<rparr>)"
  using map_of_filter_distinct [OF assms, of "\<lambda>h. \<not> long_over mx now h" k]
  by (auto simp: put_hold_def Let_def update_conv' split: option.splits)

text \<open>The wait after \<open>n\<close> failures in a row and one more.\<close>

definition nth_wait :: "int \<Rightarrow> int \<Rightarrow> nat \<Rightarrow> int" where
  "nth_wait first mx n = min (first * 2 ^ n) mx"

text \<open>Failures at the times \<open>ts\<close>, each before the hold of the one before was long over.\<close>

definition in_a_row :: "int \<Rightarrow> int \<Rightarrow> int list \<Rightarrow> bool" where
  "in_a_row first mx ts \<longleftrightarrow> (\<forall>i. Suc i < length ts \<longrightarrow> ts ! Suc i < ts ! i + nth_wait first mx i + mx)"

lemma put_hold_row:
  assumes "0 < first" "first \<le> mx" "distinct (map fst m)" "map_of m k = None" "ts \<noteq> []" "in_a_row first mx ts"
  shows "distinct (map fst (fold (\<lambda>t. put_hold first mx t k) ts m)) \<and> map_of (fold (\<lambda>t. put_hold first mx t k) ts m) k =
    Some \<lparr>oh_until = last ts + nth_wait first mx (length ts - 1), oh_wait = nth_wait first mx (length ts - 1), oh_ended = False\<rparr>"
  using assms(5,6)
proof (induction ts rule: rev_induct)
  case (snoc t ts)
  show ?case
  proof (cases "ts = []")
    case True
    then show ?thesis using assms(1-4) put_hold_at [OF assms(3), of first mx t k] put_hold_distinct [OF assms(3)] by (simp add: nth_wait_def Let_def)
  next
    case False
    then have n: "length ts = Suc (length ts - 1)" by simp
    have row: "in_a_row first mx ts" using snoc.prems(2) unfolding in_a_row_def by (metis Suc_lessD length_append_singleton less_SucI nth_append)
    let ?m = "fold (\<lambda>t. put_hold first mx t k) ts m" and ?w = "nth_wait first mx (length ts - 1)"
    have IH: "distinct (map fst ?m)" "map_of ?m k = Some \<lparr>oh_until = last ts + ?w, oh_wait = ?w, oh_ended = False\<rparr>"
      using snoc.IH [OF False row] by auto
    have "t < last ts + ?w + mx" using snoc.prems(2) n False by (auto simp: in_a_row_def nth_append last_conv_nth dest: spec [of _ "length ts - 1"])
    then have "\<not> long_over mx t \<lparr>oh_until = last ts + ?w, oh_wait = ?w, oh_ended = False\<rparr>" by (simp add: long_over_def)
    moreover have "min (?w * 2) mx = nth_wait first mx (length ts)" using assms(1,2) by (subst (2) n) (simp add: nth_wait_def min_def)
    ultimately show ?thesis using put_hold_at [OF IH(1), of first mx t k] put_hold_distinct [OF IH(1)] IH(2) by (simp add: Let_def)
  qed
qed simp

lemma fold_hold_off: "rp_origin_held (fold (\<lambda>t. hold_off c t source job) ts r)
    = fold (\<lambda>t. put_hold (rc_origin_backoff c) (rc_origin_backoff_max c) t (source, job)) ts (rp_origin_held r)"
  by (induction ts arbitrary: r) (simp_all add: hold_off_def)

text \<open>Giving jobs back goes by position: each release is of the job that was stopped, whatever ids and claims they share.\<close>

lemma token_lookup:
  "map_of (map (\<lambda>(i, j). (format_nat i, j)) (enumerate n js)) (format_nat i) = (if n \<le> i \<and> i < n + length js then Some (js ! (i - n)) else None)"
proof (induction js arbitrary: n)
  case (Cons j js)
  have "format_nat i = format_nat n \<longleftrightarrow> i = n" by (metis digits_val_format_nat)
  then show ?case using Cons.IH [of "Suc n"] by (auto simp: nth_Cons' less_Suc_eq)
qed simp

lemma enumerate_filter: "map (\<lambda>(i, j). f j) (filter (\<lambda>(i, j). P j) (enumerate n js)) = map f (filter P js)"
  by (induction js arbitrary: n) auto

lemma reclaim_rule:
  "fst (reclaim has_sink sink stop jobs) = map (\<lambda>j. (hj_source j, hj_job_id j, hj_claim j)) (filter (\<lambda>j. stop j = None \<and> has_sink (hj_source j)) jobs)"
proof -
  let ?by = "map_of (map (\<lambda>(i, j). (format_nat i, j)) (enumerate 0 jobs))"
  have "sink_calls has_sink ?by (map (\<lambda>y. (rj_id y, rj_claim_id y)) (filter (\<lambda>y. (case ?by (rj_id y) of None \<Rightarrow> None | Some j \<Rightarrow> map_option Stop_failed (stop j)) = None)
        (map (\<lambda>(i, j). \<lparr>rj_id = format_nat i, rj_claim_id = hj_claim j\<rparr>) ys)))
      = map (\<lambda>(i, j). (hj_source j, hj_job_id j, hj_claim j)) (filter (\<lambda>(i, j). stop j = None \<and> has_sink (hj_source j)) ys)"
    if "set ys \<subseteq> set (enumerate 0 jobs)" for ys
    using that
  proof (induction ys)
    case (Cons y ys)
    obtain i j where y: "y = (i, j)" "i < length jobs" "j = jobs ! i" using Cons.prems by (cases y) (auto simp: in_set_enumerate_eq)
    then have "?by (format_nat i) = Some j" using token_lookup [of 0 jobs i] by simp
    then show ?case using Cons y by (auto simp: sink_calls_def List.map_filter_simps)
  qed (simp add: sink_calls_def List.map_filter_simps)
  from this [of "enumerate 0 jobs"] have "fst (reclaim has_sink sink stop jobs)
      = map (\<lambda>(i, j). (hj_source j, hj_job_id j, hj_claim j)) (filter (\<lambda>(i, j). stop j = None \<and> has_sink (hj_source j)) (enumerate 0 jobs))"
    by (simp add: reclaim_def Let_def reclaim_all_rule case_prod_beta)
  then show ?thesis by (simp only: enumerate_filter)
qed

section \<open>An example\<close>

text \<open>A run that exited with status 2, reported to an origin that answers at the third try.\<close>

definition sample_config :: report_config where
  "sample_config = new_config \<lparr>rc_backoff = 0, rc_max_backoff = 0, rc_log_retry_for = 0, rc_suspend_for = 0, rc_origin_backoff = 0,
     rc_origin_backoff_max = 0, rc_task_backoff = 0, rc_task_backoff_max = 0\<rparr>"

definition sample_try :: "nat \<Rightarrow> try_answer" where
  "sample_try i = \<lparr>ta_begin = int i * 40 * seconds, ta_send = (if i < 2 then Failed_send else Took), ta_ctx_ended = False,
     ta_now = int i * 40 * seconds + seconds, ta_wait_failed = False, ta_digest = False, ta_log = Log_opened, ta_ended_after = False\<rparr>"

definition sample_world :: world where
  "sample_world = \<lparr>wd_send = sample_try, wd_confirm = sample_try, wd_log = sample_try\<rparr>"

definition sample_summary :: summary where
  "sample_summary = \<lparr>sm_passed = 3, sm_failed = 1, sm_skipped = 0, sm_failures = [], sm_tail = [''FAIL''], sm_passed_digest = ''''\<rparr>"

definition sample_ended :: ended_job where
  "sample_ended = \<lparr>en_kind = KindRan, en_source = ''mini'', en_job_id = ''j_1'', en_repo = ''purdex'', en_task = ''test'',
     en_claim_id = ''0123456789abcdef0123456789abcdef'',
     en_run = \<lparr>rn_outcome = ''exited'', rn_exit_code = 2, rn_signal = '''', rn_err = None, rn_reason = '''', rn_started_at = Some 1,
       rn_finished_at = Some 9, rn_log_path = '''', rn_capture_err = None\<rparr>, en_err = None, en_err_text = ''''\<rparr>"

definition sample_request :: result_request where
  "sample_request = \<lparr>rq_claim_id = ''0123456789abcdef0123456789abcdef'', rq_state = StateFailed, rq_exit = Some 2,
     rq_summary = Some sample_summary, rq_started_at = Some 1, rq_finished_at = Some 9, rq_reason = ''''\<rparr>"

lemma sample_delivery:
  "deliver sample_config sample_world (\<lambda>_. sample_summary) 0 sample_ended new_reporter
    = Some (True, [(M_result sample_request, Failed_send), (M_result sample_request, Failed_send), (M_result sample_request, Took)], new_reporter)"
  by code_simp

lemma sample_clock: "clock_runs sample_config sample_try"
proof -
  have "pause_at sample_config i \<le> rc_max_backoff sample_config" for i
    using pause_at_bounds [of sample_config i] new_config_ok(1) by (simp add: sample_config_def)
  moreover have "rc_max_backoff sample_config = 30 * seconds" by code_simp
  ultimately have p: "pause_at sample_config i \<le> 30 * seconds" for i by metis
  have "pause_at sample_config i \<le> 39000000000" for i using p [of i] by (simp add: seconds_def)
  then show ?thesis by (simp add: clock_runs_def sample_try_def algebra_simps seconds_def)
qed

section \<open>Properties\<close>

text \<open>
  C26: every delivery ends, with any configuration and whatever the origin answers, as long as the clock
  runs. It is up to three runs of tries (the result or the release, the confirmation of a result, the
  log), and in each of them another try is made only while the pause before it ends within the run's
  time, counted from the beginning of its first try: ten minutes, five seconds, the time for the log.
  How long one try may last is the sink's. So the number of messages times the first pause is at most
  the sum of the three times and three first pauses, one for the first try of each run.
\<close>

theorem every_delivery_ends:
  assumes "c = new_config c0" and "clock_runs c (wd_send w)" "clock_runs c (wd_confirm w)" "clock_runs c (wd_log w)"
  shows "\<exists>ok t r'. deliver c w summary_of now e r = Some (ok, t, r')
    \<and> (\<exists>f cl n n2 n3. t = tries (wd_send w) f n @ tries (wd_confirm w) f n2 @ log_tries w cl n3
        \<and> (\<forall>i. Suc i < n \<longrightarrow> ta_now (wd_send w i) + pause_at c i < ta_begin (wd_send w 0) + 600 * seconds)
        \<and> (\<forall>i. Suc i < n2 \<longrightarrow> ta_now (wd_confirm w i) + pause_at c i < ta_begin (wd_confirm w 0) + 5 * seconds)
        \<and> (\<forall>i. Suc i < n3 \<longrightarrow> ta_now (wd_log w i) + pause_at c i < ta_begin (wd_log w 0) + rc_log_retry_for c))
    \<and> int (length t) * rc_backoff c \<le> 605 * seconds + rc_log_retry_for c + 3 * rc_backoff c"
proof -
  have "in_time c w (\<lambda>y. fst (snd y)) (deliver c w summary_of now e r)"
    by (intro deliver_ends delivery_steps_end [OF assms] sent_in_time_Nil [OF assms(1)])
  then obtain ok t r' where d: "deliver c w summary_of now e r = Some (ok, t, r')" and t: "sent_in_time c w t"
    by (auto simp: in_time_def split: option.splits)
  have b: "retry_bound = 600 * seconds" "confirm_timeout = 5 * seconds"
    by (simp_all add: retry_bound_def confirm_timeout_def seconds_def)
  have "0 < rc_backoff c" using new_config_ok(1) assms(1) by blast
  note count = sent_in_time_count [OF t this]
  obtain f cl n n2 n3 where "t = tries (wd_send w) f n @ tries (wd_confirm w) f n2 @ log_tries w cl n3"
      "tries_in_time c (wd_send w) (600 * seconds) n" "tries_in_time c (wd_confirm w) (5 * seconds) n2"
      "tries_in_time c (wd_log w) (rc_log_retry_for c) n3"
    using t unfolding sent_in_time_def b by blast
  with d count show ?thesis
    unfolding tries_in_time_def b
    by (intro exI [of _ ok] exI [of _ t] exI [of _ r'] conjI exI [of _ f] exI [of _ cl] exI [of _ n] exI [of _ n2] exI [of _ n3]) simp_all
qed

theorem every_delivery_ends_witness:
  "\<exists>ok t r'. deliver sample_config sample_world (\<lambda>_. sample_summary) 0 sample_ended new_reporter = Some (ok, t, r')
     \<and> int (length t) * rc_backoff sample_config \<le> 605 * seconds + rc_log_retry_for sample_config + 3 * rc_backoff sample_config"
proof -
  have "clock_runs sample_config (wd_send sample_world)" "clock_runs sample_config (wd_confirm sample_world)"
      "clock_runs sample_config (wd_log sample_world)"
    using sample_clock by (simp_all add: sample_world_def)
  from every_delivery_ends [OF sample_config_def this, of "\<lambda>_. sample_summary" 0 sample_ended new_reporter] show ?thesis by blast
qed

text \<open>
  C27: a delivery says the job's result was taken exactly when the origin answered a result with
  success, at whatever try and also when the answer was lost with the lease and asked for again;
  never for a release, a refusal, a lost lease or a delivery that was given up.
\<close>

theorem delivered_means_taken:
  assumes "deliver c w summary_of now e r = Some (ok, t, r')"
  shows "ok \<longleftrightarrow> (\<exists>req. (M_result req, Took) \<in> set t)"
  using deliver_taken [OF assms] by (simp add: result_taken_def)

theorem delivered_means_taken_witness:
  "True \<longleftrightarrow> (\<exists>req. (M_result req, Took) \<in> set [(M_result sample_request, Failed_send), (M_result sample_request, Failed_send), (M_result sample_request, Took)])"
  by (rule delivered_means_taken [OF sample_delivery])

text \<open>
  C28: every result a worker sends, at every try, passes the check the queue makes of it before it
  changes anything (state, reason, summary), for a claim id the queue gave and a summary with no
  digest or a well-formed one; so no job is left to its lease because of a result the queue will
  not read.
\<close>

theorem results_pass_the_check:
  assumes "deliver c w summary_of now e r = Some (ok, t, r')" and "valid_claim_id (en_claim_id e)" "summary_validate (Some (summary_of e)) = None"
    and "(M_result req, a) \<in> set t"
  shows "result_request_validate req = None"
  using deliver_results [OF assms(1) _ assms(3), of req] assms(2,4) by (auto simp: check_claim_id_def results_of_def)

theorem results_pass_the_check_witness: "result_request_validate sample_request = None"
proof (rule results_pass_the_check [OF sample_delivery, where a = Took])
  show "valid_claim_id (en_claim_id sample_ended)" by code_simp
  show "summary_validate (Some sample_summary) = None" by code_simp
qed simp

text \<open>
  A job whose origin fails to give its snapshot is held off for the first wait, and for twice
  the wait before with every failure in a row, up to the longest wait and never beyond it.
\<close>

theorem hold_doubles:
  assumes "c = new_config c0" and "distinct (map fst (rp_origin_held r))" "map_of (rp_origin_held r) (source, job) = None"
    and "ts \<noteq> []" "in_a_row (rc_origin_backoff c) (rc_origin_backoff_max c) ts"
  shows "held_off c now source job (fold (\<lambda>t. hold_off c t source job) ts r) =
    (let til = last ts + min (rc_origin_backoff c * 2 ^ (length ts - 1)) (rc_origin_backoff_max c);
         r' = fold (\<lambda>t. hold_off c t source job) ts r
     in (now < til, if now < til + rc_origin_backoff_max c then r' else forget_hold source job r'))"
proof -
  have ok: "0 < rc_origin_backoff c" "rc_origin_backoff c \<le> rc_origin_backoff_max c" using new_config_ok(2) [of c0] assms(1) by auto
  show ?thesis
    using put_hold_row [OF ok assms(2-5)] ok by (auto simp: held_off_def fold_hold_off forget_hold_def nth_wait_def long_over_def Let_def)
qed

theorem hold_doubles_witness:
  "held_off sample_config (70 * seconds) ''mini'' ''j_1'' (fold (\<lambda>t. hold_off sample_config t ''mini'' ''j_1'') [0, 20 * seconds, 60 * seconds] new_reporter)
    = (True, fold (\<lambda>t. hold_off sample_config t ''mini'' ''j_1'') [0, 20 * seconds, 60 * seconds] new_reporter)"
proof -
  have c: "rc_origin_backoff sample_config = 15 * seconds" "rc_origin_backoff_max sample_config = 300 * seconds" by code_simp+
  have "in_a_row (15 * seconds) (300 * seconds) [0, 20 * seconds, 60 * seconds]"
    by (simp add: in_a_row_def nth_wait_def seconds_def nth_Cons' less_Suc_eq numeral_3_eq_3)
  then show ?thesis
    using hold_doubles [OF sample_config_def, of new_reporter "''mini''" "''j_1''" "[0, 20 * seconds, 60 * seconds]" "70 * seconds"] c
    by (simp add: new_reporter_def Let_def seconds_def)
qed

end
