(* ===== verification/Runner.thy ===== *)
theory Runner
  imports Claims Quarantine Report Pick
begin

text \<open>
  One job from the candidate to the end of its command (package \<open>worker/runner\<close>), with the guard over
  the quarantine store (\<open>worker/loop/guard.go\<close>): claiming under the lock table, the lease and its
  renewal, making the workspace, starting, running, and handing the ending to \<open>Finish\<close>. The job's
  goroutine and the goroutine that renews the lease are two programs that take steps in any order;
  a step is the code between two calls to others, or one operation under a mutex. What the origin,
  the executor, the file system and the clock answer comes with the step. Times are nanoseconds of
  the monotonic clock. \<open>ru_origin_until\<close> and \<open>ru_log\<close> are not in the code: the end of the lease as the
  origin counts it, and the calls made to others.
\<close>

section \<open>Data\<close>

datatype stop_reason = StopNone | StopReclaim | StopCancelled | StopLost

fun stop_rank :: "stop_reason \<Rightarrow> nat" where
  "stop_rank StopNone = 0"
| "stop_rank StopReclaim = 1"
| "stop_rank StopCancelled = 2"
| "stop_rank StopLost = 3"

text \<open>The reasons are ordered as the constants of the source are.\<close>

instantiation stop_reason :: linorder
begin

definition less_eq_stop_reason :: "stop_reason \<Rightarrow> stop_reason \<Rightarrow> bool" where
  "less_eq_stop_reason a b \<longleftrightarrow> stop_rank a \<le> stop_rank b"

definition less_stop_reason :: "stop_reason \<Rightarrow> stop_reason \<Rightarrow> bool" where
  "less_stop_reason a b \<longleftrightarrow> stop_rank a < stop_rank b"

instance
proof
  fix a b :: stop_reason
  show "a \<le> b \<Longrightarrow> b \<le> a \<Longrightarrow> a = b" by (cases a; cases b) (simp_all add: less_eq_stop_reason_def)
qed (auto simp: less_eq_stop_reason_def less_stop_reason_def)

end

definition set_stop :: "stop_reason \<Rightarrow> stop_reason \<Rightarrow> stop_reason" where
  "set_stop s cur = (if s > cur then s else cur)"

record workspace =
  ws_dir :: string
  ws_cleanup :: bool \<comment> \<open>\<open>Cleanup\<close> is set\<close>

record run_plan =
  pn_argv :: "string list"
  pn_dir :: string
  pn_timeout :: int
  pn_task_env :: "string list"
  pn_summary :: string
  pn_out_dir :: string

text \<open>An error of a step of the work: whether it is \<open>ErrStaleClaim\<close>, what the reporter reads in it, its text.\<close>

record trouble =
  tr_stale :: bool
  tr_err :: ended_error
  tr_text :: string

definition is_origin_side :: "trouble \<Rightarrow> bool" where
  "is_origin_side e = (case tr_err e of E_origin _ _ \<Rightarrow> True | E_busy \<Rightarrow> True | _ \<Rightarrow> False)"

definition is_rejected :: "trouble \<Rightarrow> bool" where
  "is_rejected e = (case tr_err e of E_rejected _ \<Rightarrow> True | _ \<Rightarrow> False)"

text \<open>\<open>fmt.Errorf("what: %w", err)\<close>: the text is longer, what it wraps is the same.\<close>

definition wrap_err :: "string \<Rightarrow> trouble \<Rightarrow> trouble" where
  "wrap_err what e = e\<lparr>tr_text := what @ '': '' @ tr_text e\<rparr>"

record run_ended = ended_job +
  en_job :: job
  en_plan :: run_plan
  en_root :: string
  en_quarantined :: bool

datatype caller = By_start | By_renew

record lease_clock =
  lk_call :: "caller option" \<comment> \<open>who is inside \<open>call\<close>\<close>
  lk_deadline :: int
  lk_renew_at :: int
  lk_changed :: bool \<comment> \<open>the channel holds a token\<close>

record runner_cfg =
  rg_worker :: string
  rg_labels :: "string list"
  rg_fingerprint :: "(string \<times> string) list"
  rg_unit :: int
  rg_guard :: bool
  rg_finish :: bool
  rg_can_release :: bool
  rg_sha :: "string \<Rightarrow> string"
  rg_lock_text :: "lock_error \<Rightarrow> string"

datatype action = Act_claim claim_request | Act_release release_request | Act_start | Act_heartbeat | Act_run | Act_finish run_ended | Act_cleanup string

text \<open>Where the job's goroutine is, and where the renewing one is.\<close>

datatype work_pc = W_reserve | W_record | W_claiming int | W_recorded int "claim_response option" string
  | W_materialize | W_made | W_prepare | W_planned | W_locking | W_locked | W_sending | W_starting int | W_start_failed bool trouble | W_started
  | W_begin | W_run | W_guard_end | W_over | W_lost | W_cancelled | W_reclaimed | W_shutdown | W_finish ended_kind "trouble option"
  | W_finishing | W_finished | W_cleanup | W_wait | W_returned

datatype beat_error = Beat_conflict | Beat_failed

datatype renew_pc = R_none | R_top | R_sleep int int | R_woken int int | R_locking | R_locked | R_sending | R_beating int | R_answered bool
  | R_cancel | R_unlock "beat_error option" | R_after beat_error | R_lost | R_end_run | R_end_renew | R_returned

record runner_state =
  ru_now :: int
  ru_q :: qn_state
  ru_source :: string
  ru_job :: job
  ru_owner :: string
  ru_hold :: nat
  ru_claim_id :: string
  ru_work :: work_pc
  ru_renew :: renew_pc
  ru_lease :: lease_clock
  ru_stop :: stop_reason
  ru_ctx_ended :: bool
  ru_renew_ended :: bool
  ru_run_ended :: bool
  ru_reclaims :: nat \<comment> \<open>calls of \<open>reclaim\<close> between their two statements\<close>
  ru_ws :: workspace
  ru_plan :: run_plan
  ru_res :: run_result
  ru_err :: "trouble option"
  ru_quarantined :: bool
  ru_ended :: "run_ended option"
  ru_origin_until :: int
  ru_log :: "action list"

abbreviation renew_ctx_ended :: "runner_state \<Rightarrow> bool" where
  "renew_ctx_ended s \<equiv> ru_ctx_ended s \<or> ru_renew_ended s"

abbreviation run_ctx_ended :: "runner_state \<Rightarrow> bool" where
  "run_ctx_ended s \<equiv> renew_ctx_ended s \<or> ru_run_ended s"

definition zero_ws :: workspace where
  "zero_ws = \<lparr>ws_dir = '''', ws_cleanup = False\<rparr>"

definition zero_plan :: run_plan where
  "zero_plan = \<lparr>pn_argv = [], pn_dir = '''', pn_timeout = 0, pn_task_env = [], pn_summary = '''', pn_out_dir = ''''\<rparr>"

definition zero_run :: run_result where
  "zero_run = \<lparr>rn_outcome = '''', rn_exit_code = 0, rn_signal = '''', rn_err = None, rn_reason = '''', rn_started_at = None, rn_finished_at = None,
     rn_log_path = '''', rn_capture_err = None\<rparr>"

section \<open>Helpers\<close>

definition same_set :: "string list \<Rightarrow> string list \<Rightarrow> bool" where
  "same_set a b = (let x = remdups a; y = remdups b in length x = length y \<and> list_all (\<lambda>k. k \<in> set y) x)"

text \<open>\<open>sent.Add(time.Duration(n) * unit)\<close>: the product is a 64-bit number.\<close>

definition after_units :: "int \<Rightarrow> int \<Rightarrow> int \<Rightarrow> int" where
  "after_units unit sent n = sent + sint (word_of_int (n * unit) :: 64 word)"

definition deadline_for :: "runner_cfg \<Rightarrow> int \<Rightarrow> int \<Rightarrow> int" where
  "deadline_for cfg sent lease_s = after_units (rg_unit cfg) sent lease_s"

definition extend :: "int \<Rightarrow> int \<Rightarrow> lease_clock \<Rightarrow> lease_clock" where
  "extend d r l = l\<lparr>lk_deadline := d, lk_renew_at := r, lk_changed := True\<rparr>"

definition lease_answer :: "runner_cfg \<Rightarrow> int \<Rightarrow> int \<Rightarrow> int \<Rightarrow> lease_clock \<Rightarrow> lease_clock" where
  "lease_answer cfg sent lease_s renew_s = extend (deadline_for cfg sent lease_s) (after_units (rg_unit cfg) sent renew_s)"

definition expired :: "runner_state \<Rightarrow> bool" where
  "expired s \<longleftrightarrow> \<not> ru_now s < lk_deadline (ru_lease s)"

definition unit_name :: "string \<Rightarrow> string \<Rightarrow> string" where
  "unit_name tag job_id = (if tag = '''' then ''wwd-'' @ job_id else ''wwd-'' @ tag @ ''-'' @ job_id)"

text \<open>\<open>entryOf\<close>: the quarantine entry of a job.\<close>

definition entry_for :: "(string \<Rightarrow> string) \<Rightarrow> run_ended \<Rightarrow> bool \<Rightarrow> int \<Rightarrow> qn_entry" where
  "entry_for sha e sandboxed now =
     \<lparr>qe_owner = en_source e @ ''/'' @ j_id (en_job e), qe_job_id = j_id (en_job e), qe_origin = j_origin (en_job e), qe_claim_id = en_claim_id e,
      qe_dir = path_dir (en_root e), qe_keys = j_locks (en_job e),
      qe_unit = (if sandboxed then unit_name (origin_tag sha (en_source e)) (j_id (en_job e)) else ''''), qe_since = Some now\<rparr>"

definition mk_ended :: "runner_state \<Rightarrow> ended_kind \<Rightarrow> trouble option \<Rightarrow> run_ended" where
  "mk_ended s kind err =
     \<lparr>en_kind = kind, en_source = ru_source s, en_job_id = j_id (ru_job s), en_repo = repo_name (j_repo (ru_job s)), en_task = j_task (ru_job s),
      en_claim_id = ru_claim_id s, en_run = ru_res s, en_err = map_option tr_err err, en_err_text = (case err of None \<Rightarrow> '''' | Some e \<Rightarrow> tr_text e),
      en_job = ru_job s, en_plan = ru_plan s, en_root = ws_dir (ru_ws s), en_quarantined = ru_quarantined s\<rparr>"

definition unproven :: "run_result \<Rightarrow> bool" where
  "unproven r \<longleftrightarrow> rn_err r \<noteq> None \<and> rn_outcome r \<noteq> ''start_failed''"

definition q_call :: "runner_cfg \<Rightarrow> qn_call \<Rightarrow> runner_state \<Rightarrow> runner_state" where
  "q_call cfg c s = s\<lparr>ru_q := qn_step (rg_sha cfg) c (ru_q s)\<rparr>"

definition noted :: "action \<Rightarrow> runner_state \<Rightarrow> runner_state" where
  "noted a s = s\<lparr>ru_log := ru_log s @ [a]\<rparr>"

section \<open>The job's goroutine\<close>

text \<open>What comes with a step: the answer to the call it waits for. A time is when the origin handled the call.\<close>

datatype work_answer = A_go
  | A_facts "(string list \<times> (string \<times> string) list) option"
  | A_claimed int claim_response
  | A_not_claimed string
  | A_made "trouble + workspace"
  | A_planned "trouble + run_plan"
  | A_started int int int
  | A_not_started bool trouble "(int \<times> int) option"
  | A_began int bool string
  | A_ran run_result
  | A_dropped remove_answer

text \<open>\<open>Acquire\<close> up to where the claim is recorded.\<close>

definition do_reserve :: "runner_cfg \<Rightarrow> runner_state \<Rightarrow> runner_state" where
  "do_reserve cfg s =
     (let s1 = q_call cfg (Q_lock (Reserve (ru_owner s) (j_locks (ru_job s)))) s in
      case fst (acquire_reserve (ru_owner s) (j_locks (ru_job s)) (q_table (ru_q s))) of
        Inl e \<Rightarrow> s1\<lparr>ru_ended := Some (mk_ended s KindSkipped (Some \<lparr>tr_stale = False, tr_err = E_text (rg_lock_text cfg e), tr_text = rg_lock_text cfg e\<rparr>)),
                    ru_work := W_returned\<rparr>
      | Inr h \<Rightarrow> s1\<lparr>ru_hold := length (ls_handles (q_locks (ru_q s))), ru_work := W_record\<rparr>)"

text \<open>The claim is sent with the labels and the fingerprint of this moment.\<close>

definition do_send_claim :: "runner_cfg \<Rightarrow> (string list \<times> (string \<times> string) list) option \<Rightarrow> runner_state \<Rightarrow> runner_state" where
  "do_send_claim cfg f s =
     (let (labels, fp) = (case f of None \<Rightarrow> (rg_labels cfg, rg_fingerprint cfg) | Some x \<Rightarrow> x) in
      noted (Act_claim \<lparr>cr_worker = rg_worker cfg, cr_labels = labels, cr_fingerprint = fp\<rparr>) (s\<lparr>ru_work := W_claiming (ru_now s)\<rparr>))"

text \<open>\<open>%v\<close> of a list of strings, and the error of a claim with other keys.\<close>

definition fmt_strings :: "string list \<Rightarrow> string" where
  "fmt_strings ss = ''['' @ join '' '' ss @ '']''"

definition other_locks :: "job \<Rightarrow> job \<Rightarrow> string" where
  "other_locks listed got =
     ''runner: claim of '' @ j_id listed @ '' came back with locks '' @ fmt_strings (j_locks got) @ '', the candidate had '' @ fmt_strings (j_locks listed)"

text \<open>The answer to the claim: taken with the keys of the candidate, or not; a claim with other keys is handed back.\<close>

definition do_claim_answer :: "runner_cfg \<Rightarrow> int \<Rightarrow> int \<Rightarrow> claim_response \<Rightarrow> runner_state \<Rightarrow> runner_state" where
  "do_claim_answer cfg sent h cr s =
     (if \<not> (sent \<le> h \<and> h \<le> ru_now s) then s
      else let s1 = s\<lparr>ru_origin_until := h + cp_lease_s cr * rg_unit cfg\<rparr> in
      if same_set (j_locks (cp_job cr)) (j_locks (ru_job s)) then s1\<lparr>ru_work := W_recorded sent (Some cr) ''''\<rparr>
      else let s2 = s1\<lparr>ru_work := W_recorded sent None (other_locks (ru_job s) (cp_job cr))\<rparr> in
        if rg_can_release cfg
        then noted (Act_release \<lparr>rl_claim_id = cp_claim_id cr, rl_reason = ReleaseInfra, rl_detail = ''locks changed between listing and claim''\<rparr>) s2
        else s2)"

text \<open>\<open>Acquire\<close> from there on. When the claim is ours the lease begins, and with it the renewing goroutine.\<close>

definition do_recorded :: "runner_cfg \<Rightarrow> int \<Rightarrow> claim_response option \<Rightarrow> string \<Rightarrow> runner_state \<Rightarrow> runner_state" where
  "do_recorded cfg sent cr text s =
     (let r = (if cr = None then RecordErr else RecordOk);
          s1 = q_call cfg (Q_lock (Finish (ru_owner s) (ru_hold s) r)) s;
          skip = (\<lambda>t. s1\<lparr>ru_ended := Some (mk_ended s KindSkipped (Some \<lparr>tr_stale = False, tr_err = E_text t, tr_text = t\<rparr>)), ru_work := W_returned\<rparr>) in
      case (fst (acquire_finish (ru_owner s) (ls_handles (q_locks (ru_q s)) ! ru_hold s) r (q_table (ru_q s))), cr) of
        (Got _, Some c) \<Rightarrow>
          s1\<lparr>ru_job := (cp_job c)\<lparr>j_origin := ru_source s\<rparr>, ru_claim_id := cp_claim_id c,
             ru_lease := \<lparr>lk_call = None, lk_deadline = deadline_for cfg sent (cp_lease_s c), lk_renew_at = after_units (rg_unit cfg) sent (cp_renew_s c), lk_changed = False\<rparr>,
             ru_renew := R_top, ru_work := W_materialize\<rparr>
      | (Refused e, _) \<Rightarrow> skip (if e = RecordFailed then text else rg_lock_text cfg e)
      | _ \<Rightarrow> skip text)"

definition do_made :: "trouble + workspace \<Rightarrow> runner_state \<Rightarrow> runner_state" where
  "do_made r s = (case r of Inl e \<Rightarrow> s\<lparr>ru_err := Some e, ru_work := W_over\<rparr> | Inr ws \<Rightarrow> s\<lparr>ru_ws := ws, ru_work := W_made\<rparr>)"

definition do_planned :: "trouble + run_plan \<Rightarrow> runner_state \<Rightarrow> runner_state" where
  "do_planned r s = (case r of Inl e \<Rightarrow> s\<lparr>ru_err := Some e, ru_work := W_over\<rparr> | Inr p \<Rightarrow> s\<lparr>ru_plan := p, ru_work := W_planned\<rparr>)"

text \<open>\<open>st.get() == stopNone && runCtx.Err() == nil\<close>, before the plan is made and before the start.\<close>

definition unless_stopped :: "work_pc \<Rightarrow> runner_state \<Rightarrow> runner_state" where
  "unless_stopped next s = s\<lparr>ru_work := (if ru_stop s = StopNone \<and> \<not> run_ctx_ended s then next else W_over)\<rparr>"

definition set_call :: "caller option \<Rightarrow> runner_state \<Rightarrow> runner_state" where
  "set_call c s = s\<lparr>ru_lease := (ru_lease s)\<lparr>lk_call := c\<rparr>\<rparr>"

text \<open>\<open>start\<close>: take the call lock, look again, send, and apply the lease.\<close>

definition do_lock :: "runner_state \<Rightarrow> runner_state" where
  "do_lock s = (if lk_call (ru_lease s) = None then set_call (Some By_start) (s\<lparr>ru_work := W_locked\<rparr>) else s)"

definition do_locked :: "runner_state \<Rightarrow> runner_state" where
  "do_locked s = (if ru_stop s \<noteq> StopNone \<or> run_ctx_ended s then set_call None (s\<lparr>ru_work := W_over\<rparr>) else s\<lparr>ru_work := W_sending\<rparr>)"

definition do_started :: "runner_cfg \<Rightarrow> int \<Rightarrow> int \<Rightarrow> int \<Rightarrow> int \<Rightarrow> runner_state \<Rightarrow> runner_state" where
  "do_started cfg sent h lease_s renew_s s =
     (if \<not> (sent \<le> h \<and> h \<le> ru_now s) then s
      else set_call None (s\<lparr>ru_origin_until := h + lease_s * rg_unit cfg, ru_lease := lease_answer cfg sent lease_s renew_s (ru_lease s), ru_work := W_started\<rparr>))"

text \<open>A call that failed may have been handled all the same, at some time and with some lease.\<close>

definition handled :: "runner_cfg \<Rightarrow> int \<Rightarrow> (int \<times> int) option \<Rightarrow> runner_state \<Rightarrow> runner_state" where
  "handled cfg sent x s = (case x of None \<Rightarrow> s
     | Some (h, lease_s) \<Rightarrow> if sent \<le> h \<and> h \<le> ru_now s then s\<lparr>ru_origin_until := h + lease_s * rg_unit cfg\<rparr> else s)"

definition do_not_started :: "runner_cfg \<Rightarrow> int \<Rightarrow> bool \<Rightarrow> trouble \<Rightarrow> (int \<times> int) option \<Rightarrow> runner_state \<Rightarrow> runner_state" where
  "do_not_started cfg sent conflict e x s = set_call None (handled cfg sent x (s\<lparr>ru_work := W_start_failed conflict e\<rparr>))"

definition do_start_failed :: "bool \<Rightarrow> trouble \<Rightarrow> runner_state \<Rightarrow> runner_state" where
  "do_start_failed conflict e s =
     (if conflict \<or> expired s then s\<lparr>ru_stop := set_stop StopLost (ru_stop s), ru_work := W_over\<rparr>
      else s\<lparr>ru_err := Some (wrap_err ''start'' e), ru_work := W_over\<rparr>)"

definition do_begin_run :: "runner_state \<Rightarrow> runner_state" where
  "do_begin_run s = (if ru_stop s = StopNone then s\<lparr>ru_quarantined := True, ru_work := W_begin\<rparr> else s\<lparr>ru_work := W_over\<rparr>)"

text \<open>The guard's \<open>Begin\<close>, and the command. \<open>KindRan\<close> stands for the zero kind of the value the guard is given, which it does not read.\<close>

definition guard_entry :: "runner_cfg \<Rightarrow> runner_state \<Rightarrow> qn_entry" where
  "guard_entry cfg s = entry_for (rg_sha cfg) (mk_ended s KindRan None) True (ru_now s)"

definition do_begin :: "runner_cfg \<Rightarrow> int \<Rightarrow> bool \<Rightarrow> string \<Rightarrow> runner_state \<Rightarrow> runner_state" where
  "do_begin cfg now wr text s =
     (if \<not> rg_guard cfg then noted Act_run (s\<lparr>ru_work := W_run\<rparr>)
      else let s1 = q_call cfg (Q_begin now (guard_entry cfg s) wr) s in
        case fst (qn_begin (rg_sha cfg) now (guard_entry cfg s) wr (q_table (ru_q s)) (q_store (ru_q s))) of
          Some _ \<Rightarrow> s1\<lparr>ru_err := Some \<lparr>tr_stale = False, tr_err = E_text text, tr_text = ''guard: '' @ text\<rparr>, ru_quarantined := False, ru_work := W_over\<rparr>
        | None \<Rightarrow> noted Act_run (s1\<lparr>ru_work := W_run\<rparr>))"

definition marker_owner :: "runner_state \<Rightarrow> string" where
  "marker_owner s = ru_source s @ ''/'' @ j_id (ru_job s)"

definition do_guard_end :: "runner_cfg \<Rightarrow> remove_answer \<Rightarrow> runner_state \<Rightarrow> runner_state" where
  "do_guard_end cfg rm s =
     (if \<not> rg_guard cfg then s\<lparr>ru_work := W_over\<rparr>
      else q_call cfg (if unproven (ru_res s) then Q_settle (marker_owner s) else Q_discard (marker_owner s) rm) (s\<lparr>ru_work := W_over\<rparr>))"

text \<open>The command is over: its keys go unless it is not proven gone.\<close>

definition do_over :: "runner_cfg \<Rightarrow> runner_state \<Rightarrow> runner_state" where
  "do_over cfg s =
     (let s1 = s\<lparr>ru_quarantined := unproven (ru_res s), ru_work := W_lost\<rparr> in
      if unproven (ru_res s) then s1 else q_call cfg (Q_lock (Release (ru_hold s))) s1)"

text \<open>The cases of the kind, each with its own look at the reason; what is left when none of them holds.\<close>

definition kind_left :: "trouble option \<Rightarrow> ended_kind \<times> trouble option" where
  "kind_left err = (case err of
       None \<Rightarrow> (KindRan, None)
     | Some e \<Rightarrow> (if is_rejected e then KindRejected else if is_origin_side e then KindOrigin else KindInfra, err))"

definition do_kind_lost :: "runner_state \<Rightarrow> runner_state" where
  "do_kind_lost s = s\<lparr>ru_work :=
     (if ru_stop s = StopLost \<or> (case ru_err s of None \<Rightarrow> False | Some e \<Rightarrow> tr_stale e) then W_finish KindLost None else W_cancelled)\<rparr>"

definition do_kind_cancelled :: "runner_state \<Rightarrow> runner_state" where
  "do_kind_cancelled s = s\<lparr>ru_work := (if ru_stop s = StopCancelled then W_finish KindCancelled None else W_reclaimed)\<rparr>"

definition do_kind_reclaimed :: "runner_state \<Rightarrow> runner_state" where
  "do_kind_reclaimed s = s\<lparr>ru_work := (if ru_stop s = StopReclaim then W_finish KindReclaimed None else W_shutdown)\<rparr>"

definition do_kind_shutdown :: "runner_state \<Rightarrow> runner_state" where
  "do_kind_shutdown s = s\<lparr>ru_work := (if ru_ctx_ended s then W_finish KindShutdown None else case kind_left (ru_err s) of (k, e) \<Rightarrow> W_finish k e)\<rparr>"

definition do_finish :: "runner_cfg \<Rightarrow> ended_kind \<Rightarrow> trouble option \<Rightarrow> runner_state \<Rightarrow> runner_state" where
  "do_finish cfg k err s =
     (let e = mk_ended s k err; s1 = s\<lparr>ru_ended := Some e\<rparr> in
      if rg_finish cfg then noted (Act_finish e) (s1\<lparr>ru_work := W_finishing\<rparr>) else s1\<lparr>ru_work := W_finished\<rparr>)"

definition do_finished :: "runner_state \<Rightarrow> runner_state" where
  "do_finished s = (if ru_stop s = StopLost then s\<lparr>ru_ended := map_option (\<lambda>e. e\<lparr>en_kind := KindLost\<rparr>) (ru_ended s)\<rparr> else s)\<lparr>ru_work := W_cleanup\<rparr>"

definition do_cleanup :: "runner_state \<Rightarrow> runner_state" where
  "do_cleanup s =
     (if ws_cleanup (ru_ws s) \<and> \<not> ru_quarantined s then noted (Act_cleanup (ws_dir (ru_ws s))) s else s)\<lparr>ru_renew_ended := True, ru_work := W_wait\<rparr>"

text \<open>\<open>wg.Wait()\<close>, then the deferred calls.\<close>

definition do_wait :: "runner_cfg \<Rightarrow> runner_state \<Rightarrow> runner_state" where
  "do_wait cfg s =
     (if ru_renew s \<noteq> R_returned then s
      else let s1 = s\<lparr>ru_run_ended := True, ru_work := W_returned\<rparr> in
        if ru_quarantined s then s1 else q_call cfg (Q_lock (Release (ru_hold s))) s1)"


definition work_step :: "runner_cfg \<Rightarrow> work_answer \<Rightarrow> runner_state \<Rightarrow> runner_state" where
  "work_step cfg a s =
     (case ru_work s of
        W_reserve \<Rightarrow> do_reserve cfg s
      | W_record \<Rightarrow> (case a of A_facts f \<Rightarrow> do_send_claim cfg f s | _ \<Rightarrow> s)
      | W_claiming sent \<Rightarrow> (case a of A_claimed h cr \<Rightarrow> do_claim_answer cfg sent h cr s
                            | A_not_claimed t \<Rightarrow> s\<lparr>ru_work := W_recorded sent None t\<rparr> | _ \<Rightarrow> s)
      | W_recorded sent cr t \<Rightarrow> do_recorded cfg sent cr t s
      | W_materialize \<Rightarrow> (case a of A_made r \<Rightarrow> do_made r s | _ \<Rightarrow> s)
      | W_made \<Rightarrow> unless_stopped W_prepare s
      | W_prepare \<Rightarrow> (case a of A_planned r \<Rightarrow> do_planned r s | _ \<Rightarrow> s)
      | W_planned \<Rightarrow> unless_stopped W_locking s
      | W_locking \<Rightarrow> do_lock s
      | W_locked \<Rightarrow> do_locked s
      | W_sending \<Rightarrow> noted Act_start (s\<lparr>ru_work := W_starting (ru_now s)\<rparr>)
      | W_starting sent \<Rightarrow> (case a of A_started h l r \<Rightarrow> do_started cfg sent h l r s
                            | A_not_started c e x \<Rightarrow> do_not_started cfg sent c e x s | _ \<Rightarrow> s)
      | W_start_failed c e \<Rightarrow> do_start_failed c e s
      | W_started \<Rightarrow> do_begin_run s
      | W_begin \<Rightarrow> (case a of A_began now wr t \<Rightarrow> do_begin cfg now wr t s | _ \<Rightarrow> s)
      | W_run \<Rightarrow> (case a of A_ran r \<Rightarrow> s\<lparr>ru_res := r, ru_work := W_guard_end\<rparr> | _ \<Rightarrow> s)
      | W_guard_end \<Rightarrow> (case a of A_dropped rm \<Rightarrow> do_guard_end cfg rm s | _ \<Rightarrow> s)
      | W_over \<Rightarrow> do_over cfg s
      | W_lost \<Rightarrow> do_kind_lost s
      | W_cancelled \<Rightarrow> do_kind_cancelled s
      | W_reclaimed \<Rightarrow> do_kind_reclaimed s
      | W_shutdown \<Rightarrow> do_kind_shutdown s
      | W_finish k e \<Rightarrow> do_finish cfg k e s
      | W_finishing \<Rightarrow> s\<lparr>ru_work := W_finished\<rparr>
      | W_finished \<Rightarrow> do_finished s
      | W_cleanup \<Rightarrow> do_cleanup s
      | W_wait \<Rightarrow> do_wait cfg s
      | W_returned \<Rightarrow> s)"

section \<open>The goroutine that renews the lease\<close>

datatype renew_answer = B_go | B_done | B_changed | B_timer | B_ok int int int bool | B_err beat_error "(int \<times> int) option"

text \<open>The \<open>select\<close>: any of its cases that is ready.\<close>

definition do_sleep :: "renew_answer \<Rightarrow> int \<Rightarrow> int \<Rightarrow> runner_state \<Rightarrow> runner_state" where
  "do_sleep a d r s =
     (case a of
        B_done \<Rightarrow> if renew_ctx_ended s then s\<lparr>ru_renew := R_returned\<rparr> else s
      | B_changed \<Rightarrow> if lk_changed (ru_lease s) then s\<lparr>ru_lease := (ru_lease s)\<lparr>lk_changed := False\<rparr>, ru_renew := R_top\<rparr> else s
      | B_timer \<Rightarrow> if \<not> ru_now s < (if d < r then d else r) then s\<lparr>ru_renew := R_woken d r\<rparr> else s
      | _ \<Rightarrow> s)"

definition do_woken :: "int \<Rightarrow> int \<Rightarrow> runner_state \<Rightarrow> runner_state" where
  "do_woken d r s = s\<lparr>ru_renew := (if \<not> ru_now s < d then R_lost else if ru_now s < r then R_top else R_locking)\<rparr>"

definition do_renew_lock :: "runner_state \<Rightarrow> runner_state" where
  "do_renew_lock s = (if lk_call (ru_lease s) = None then set_call (Some By_renew) (s\<lparr>ru_renew := R_locked\<rparr>) else s)"

definition do_renew_locked :: "runner_state \<Rightarrow> runner_state" where
  "do_renew_locked s = (if expired s then set_call None (s\<lparr>ru_renew := R_lost\<rparr>) else s\<lparr>ru_renew := R_sending\<rparr>)"

definition do_beaten :: "runner_cfg \<Rightarrow> int \<Rightarrow> int \<Rightarrow> int \<Rightarrow> int \<Rightarrow> bool \<Rightarrow> runner_state \<Rightarrow> runner_state" where
  "do_beaten cfg sent h lease_s renew_s cancel s =
     (if \<not> (sent \<le> h \<and> h \<le> ru_now s) then s
      else s\<lparr>ru_origin_until := h + lease_s * rg_unit cfg, ru_lease := lease_answer cfg sent lease_s renew_s (ru_lease s), ru_renew := R_answered cancel\<rparr>)"

definition do_answered :: "bool \<Rightarrow> runner_state \<Rightarrow> runner_state" where
  "do_answered cancel s =
     (if cancel \<and> ru_stop s < StopCancelled then s\<lparr>ru_stop := set_stop StopCancelled (ru_stop s), ru_renew := R_cancel\<rparr>
      else s\<lparr>ru_renew := R_unlock None\<rparr>)"

definition do_unlock :: "beat_error option \<Rightarrow> runner_state \<Rightarrow> runner_state" where
  "do_unlock e s = set_call None (s\<lparr>ru_renew := (case e of None \<Rightarrow> R_top | Some x \<Rightarrow> R_after x)\<rparr>)"

definition do_after :: "runner_cfg \<Rightarrow> beat_error \<Rightarrow> runner_state \<Rightarrow> runner_state" where
  "do_after cfg e s =
     (if e = Beat_conflict then s\<lparr>ru_renew := R_lost\<rparr>
      else if renew_ctx_ended s then s\<lparr>ru_renew := R_returned\<rparr>
      else s\<lparr>ru_lease := (ru_lease s)\<lparr>lk_renew_at := ru_now s + go_div (rg_unit cfg) 4\<rparr>, ru_renew := R_top\<rparr>)"

definition renew_step :: "runner_cfg \<Rightarrow> renew_answer \<Rightarrow> runner_state \<Rightarrow> runner_state" where
  "renew_step cfg a s =
     (case ru_renew s of
        R_none \<Rightarrow> s
      | R_top \<Rightarrow> s\<lparr>ru_renew := R_sleep (lk_deadline (ru_lease s)) (lk_renew_at (ru_lease s))\<rparr>
      | R_sleep d r \<Rightarrow> do_sleep a d r s
      | R_woken d r \<Rightarrow> do_woken d r s
      | R_locking \<Rightarrow> do_renew_lock s
      | R_locked \<Rightarrow> do_renew_locked s
      | R_sending \<Rightarrow> noted Act_heartbeat (s\<lparr>ru_renew := R_beating (ru_now s)\<rparr>)
      | R_beating sent \<Rightarrow> (case a of B_ok h l r c \<Rightarrow> do_beaten cfg sent h l r c s
                           | B_err e x \<Rightarrow> handled cfg sent x (s\<lparr>ru_renew := R_unlock (Some e)\<rparr>) | _ \<Rightarrow> s)
      | R_answered c \<Rightarrow> do_answered c s
      | R_cancel \<Rightarrow> s\<lparr>ru_run_ended := True, ru_renew := R_unlock None\<rparr>
      | R_unlock e \<Rightarrow> do_unlock e s
      | R_after e \<Rightarrow> do_after cfg e s
      | R_lost \<Rightarrow> s\<lparr>ru_stop := set_stop StopLost (ru_stop s), ru_renew := R_end_run\<rparr>
      | R_end_run \<Rightarrow> s\<lparr>ru_run_ended := True, ru_renew := R_end_renew\<rparr>
      | R_end_renew \<Rightarrow> s\<lparr>ru_renew_ended := True, ru_renew := R_returned\<rparr>
      | R_returned \<Rightarrow> s)"

section \<open>A run\<close>

text \<open>The two goroutines, the clock, the worker's context, the callers of \<open>Stop\<close>, and everybody else who uses the locks and the markers.\<close>

datatype run_event = Ev_tick nat | Ev_others qn_call | Ev_ctx_end | Ev_reclaim | Ev_reclaim_end | Ev_work work_answer | Ev_renew renew_answer

definition run_step :: "runner_cfg \<Rightarrow> run_event \<Rightarrow> runner_state \<Rightarrow> runner_state" where
  "run_step cfg e s =
     (case e of
        Ev_tick n \<Rightarrow> s\<lparr>ru_now := ru_now s + int n\<rparr>
      | Ev_others c \<Rightarrow> q_call cfg c s
      | Ev_ctx_end \<Rightarrow> s\<lparr>ru_ctx_ended := True\<rparr>
      | Ev_reclaim \<Rightarrow> if ru_renew s = R_none then s else s\<lparr>ru_stop := set_stop StopReclaim (ru_stop s), ru_reclaims := Suc (ru_reclaims s)\<rparr>
      | Ev_reclaim_end \<Rightarrow> if ru_reclaims s = 0 then s else s\<lparr>ru_run_ended := True, ru_reclaims := ru_reclaims s - 1\<rparr>
      | Ev_work a \<Rightarrow> work_step cfg a s
      | Ev_renew a \<Rightarrow> renew_step cfg a s)"

definition run_start :: "int \<Rightarrow> qn_state \<Rightarrow> candidate \<Rightarrow> runner_state" where
  "run_start now q c =
     \<lparr>ru_now = now, ru_q = q, ru_source = cd_source c, ru_job = cd_job c, ru_owner = ref_key \<lparr>rf_source = cd_source c, rf_id = j_id (cd_job c)\<rparr>,
      ru_hold = 0, ru_claim_id = '''', ru_work = W_reserve, ru_renew = R_none, ru_lease = \<lparr>lk_call = None, lk_deadline = 0, lk_renew_at = 0, lk_changed = False\<rparr>,
      ru_stop = StopNone, ru_ctx_ended = False, ru_renew_ended = False, ru_run_ended = False, ru_reclaims = 0, ru_ws = zero_ws, ru_plan = zero_plan,
      ru_res = zero_run, ru_err = None, ru_quarantined = False, ru_ended = None, ru_origin_until = 0, ru_log = []\<rparr>"

abbreviation run_events :: "runner_cfg \<Rightarrow> run_event list \<Rightarrow> runner_state \<Rightarrow> runner_state" where
  "run_events cfg \<equiv> fold (run_step cfg)"

section \<open>The job as its caller sees it\<close>

definition running_claimed :: "runner_state \<Rightarrow> bool" where
  "running_claimed s \<longleftrightarrow> ru_renew s \<noteq> R_none"

definition running_done :: "runner_state \<Rightarrow> bool" where
  "running_done s \<longleftrightarrow> ru_work s = W_returned"

text \<open>\<open>Running.Start\<close> returns when the claim is decided; \<open>None\<close> is a call that still waits.\<close>

definition running_start :: "runner_state \<Rightarrow> bool option" where
  "running_start s = (if running_claimed s \<or> running_done s then Some (running_claimed s) else None)"

text \<open>\<open>Running.Stop\<close> after it asked: no error, the context's, or that the job is not proven stopped.\<close>

datatype stop_answer = Stopped | Stop_ctx | Not_proven

definition running_stop :: "bool \<Rightarrow> runner_state \<Rightarrow> stop_answer option" where
  "running_stop ctx_done s =
     (if running_done s
      then (case ru_ended s of Some e \<Rightarrow> if en_quarantined e then Some Not_proven else Some Stopped | None \<Rightarrow> Some Stopped)
      else if ctx_done then Some Stop_ctx else None)"


end
