(* ===== verification/RunnerLease.thy ===== *)
theory RunnerLease
  imports Runner Machine
begin

text \<open>
  The lease of a running job (\<open>worker/runner\<close>), however the two goroutines, the clock, the origin and
  everybody else take turns: one call with a lease at a time, a lease never longer than the origin's,
  and a lease that ran out ends the command.
\<close>

section \<open>Steps\<close>

lemmas work_defs = do_reserve_def do_send_claim_def do_claim_answer_def do_recorded_def do_made_def do_planned_def unless_stopped_def
  do_lock_def do_locked_def do_started_def handled_def do_not_started_def do_start_failed_def do_begin_run_def do_begin_def do_guard_end_def do_over_def
  do_kind_lost_def do_kind_cancelled_def do_kind_reclaimed_def do_kind_shutdown_def do_finish_def do_finished_def do_cleanup_def do_wait_def
  set_call_def noted_def q_call_def Let_def

lemmas renew_defs = do_sleep_def do_woken_def do_renew_lock_def do_renew_locked_def do_beaten_def do_answered_def do_unlock_def do_after_def
  handled_def set_call_def noted_def

lemmas step_splits = work_answer.splits renew_answer.splits sum.splits option.splits prod.splits acquire_result.splits

lemma set_stop_None [simp]: "set_stop r s = StopNone \<longleftrightarrow> r = StopNone \<and> s = StopNone"
  by (cases r; cases s) (simp_all add: set_stop_def less_stop_reason_def)

lemma set_stop_Lost [simp]: "set_stop StopLost s = StopLost"
  by (cases s) (simp_all add: set_stop_def less_stop_reason_def)

lemma lease_answer_simps [simp]:
  "lk_call (lease_answer cfg sent l r c) = lk_call c" "lk_deadline (lease_answer cfg sent l r c) = deadline_for cfg sent l"
  "lk_renew_at (lease_answer cfg sent l r c) = after_units (rg_unit cfg) sent r" "lk_changed (lease_answer cfg sent l r c)"
  by (simp_all add: lease_answer_def extend_def)

text \<open>Only the step that ends \<open>Acquire\<close> begins the renewing.\<close>

lemma work_renew:
  "ru_renew (work_step cfg a s) = ru_renew s \<or> (ru_renew (work_step cfg a s) = R_top \<and> ru_work (work_step cfg a s) = W_materialize)"
  by (cases "ru_work s"; simp only: work_step_def work_pc.case) (simp_all add: work_defs split: step_splits)

lemma renew_work [simp]: "ru_work (renew_step cfg a s) = ru_work s"
  by (cases "ru_renew s"; simp only: renew_step_def renew_pc.case) (simp_all add: renew_defs split: step_splits)

lemma renew_keeps_run [simp]:
  "ru_q (renew_step cfg a s) = ru_q s" "ru_owner (renew_step cfg a s) = ru_owner s" "ru_hold (renew_step cfg a s) = ru_hold s"
  "ru_job (renew_step cfg a s) = ru_job s" "ru_source (renew_step cfg a s) = ru_source s"
  by (cases "ru_renew s"; simp only: renew_step_def renew_pc.case; simp add: renew_defs split: step_splits)+

section \<open>One call with a lease at a time\<close>

definition work_calls :: "work_pc \<Rightarrow> bool" where
  "work_calls w = (case w of W_locked \<Rightarrow> True | W_sending \<Rightarrow> True | W_starting _ \<Rightarrow> True | _ \<Rightarrow> False)"

definition renew_calls :: "renew_pc \<Rightarrow> bool" where
  "renew_calls r = (case r of R_locked \<Rightarrow> True | R_sending \<Rightarrow> True | R_beating _ \<Rightarrow> True | R_answered _ \<Rightarrow> True | R_cancel \<Rightarrow> True | R_unlock _ \<Rightarrow> True | _ \<Rightarrow> False)"

definition unclaimed :: "work_pc \<Rightarrow> bool" where
  "unclaimed w = (case w of W_reserve \<Rightarrow> True | W_record \<Rightarrow> True | W_claiming _ \<Rightarrow> True | W_recorded _ _ _ \<Rightarrow> True | _ \<Rightarrow> False)"

definition call_inv :: "runner_state \<Rightarrow> bool" where
  "call_inv s \<longleftrightarrow> (work_calls (ru_work s) \<longleftrightarrow> lk_call (ru_lease s) = Some By_start) \<and> (renew_calls (ru_renew s) \<longleftrightarrow> lk_call (ru_lease s) = Some By_renew)
     \<and> (unclaimed (ru_work s) \<longrightarrow> ru_renew s = R_none) \<and> (ru_renew s = R_none \<longrightarrow> unclaimed (ru_work s) \<or> ru_work s = W_returned)"

lemmas call_inv_defs = call_inv_def work_calls_def renew_calls_def unclaimed_def

lemma call_inv_work: "call_inv s \<Longrightarrow> call_inv (work_step cfg a s)"
  by (cases "ru_work s"; simp only: work_step_def work_pc.case) (auto simp: work_defs call_inv_defs split: step_splits)

lemma call_inv_renew: "call_inv s \<Longrightarrow> call_inv (renew_step cfg a s)"
  by (cases "ru_renew s"; simp only: renew_step_def renew_pc.case) (auto simp: renew_defs call_inv_defs split: step_splits)

lemma call_inv_step: "call_inv s \<Longrightarrow> call_inv (run_step cfg e s)"
  using call_inv_work [of s cfg] call_inv_renew [of s cfg]
  by (cases e) (auto simp: run_step_def q_call_def call_inv_def unclaimed_def split: work_pc.splits)

lemma call_inv_start: "call_inv (run_start now q c)"
  by (simp add: call_inv_defs run_start_def)

section \<open>The lease is never longer than the origin's\<close>

text \<open>A 64-bit product is never more than the product itself, of numbers that are not negative.\<close>

lemma wrap_le: "0 \<le> x \<Longrightarrow> sint (word_of_int x :: 64 word) \<le> x"
  by (simp add: sint_sbintrunc' signed_take_bit_int_less_eq_self_iff)

lemma deadline_upto: "0 \<le> l \<Longrightarrow> 0 \<le> rg_unit cfg \<Longrightarrow> deadline_for cfg sent l \<le> sent + l * rg_unit cfg"
  using wrap_le [of "l * rg_unit cfg"] by (simp add: deadline_for_def after_units_def)

text \<open>The origin gives the same lease in every answer, as the queue does.\<close>

definition gives_lease :: "runner_cfg \<Rightarrow> int \<Rightarrow> run_event \<Rightarrow> bool" where
  "gives_lease cfg l e \<longleftrightarrow> 0 \<le> l \<and> 0 \<le> rg_unit cfg \<and>
     (case e of
        Ev_work (A_claimed _ cr) \<Rightarrow> cp_lease_s cr = l
      | Ev_work (A_started _ x _) \<Rightarrow> x = l
      | Ev_work (A_not_started _ _ (Some (_, x))) \<Rightarrow> x = l
      | Ev_renew (B_ok _ x _ _) \<Rightarrow> x = l
      | Ev_renew (B_err _ (Some (_, x))) \<Rightarrow> x = l
      | _ \<Rightarrow> True)"

text \<open>In flight, a call was sent at or after the one the current lease comes from.\<close>

definition sent_ok :: "runner_cfg \<Rightarrow> int \<Rightarrow> work_pc \<Rightarrow> int \<Rightarrow> int \<Rightarrow> int \<Rightarrow> bool" where
  "sent_ok cfg l w now until d =
     (case w of W_claiming sent \<Rightarrow> sent \<le> now
      | W_recorded sent (Some cr) _ \<Rightarrow> sent \<le> now \<and> deadline_for cfg sent (cp_lease_s cr) \<le> sent + l * rg_unit cfg \<and> sent + l * rg_unit cfg \<le> until
      | W_starting sent \<Rightarrow> sent \<le> now \<and> d \<le> sent + l * rg_unit cfg
      | _ \<Rightarrow> True)"

definition beat_ok :: "runner_cfg \<Rightarrow> int \<Rightarrow> renew_pc \<Rightarrow> int \<Rightarrow> int \<Rightarrow> bool" where
  "beat_ok cfg l r now d = (case r of R_beating sent \<Rightarrow> sent \<le> now \<and> d \<le> sent + l * rg_unit cfg | _ \<Rightarrow> True)"

definition lease_inv :: "runner_cfg \<Rightarrow> int \<Rightarrow> runner_state \<Rightarrow> bool" where
  "lease_inv cfg l s \<longleftrightarrow> call_inv s
     \<and> sent_ok cfg l (ru_work s) (ru_now s) (ru_origin_until s) (lk_deadline (ru_lease s))
     \<and> beat_ok cfg l (ru_renew s) (ru_now s) (lk_deadline (ru_lease s))
     \<and> (ru_renew s \<noteq> R_none \<longrightarrow> lk_deadline (ru_lease s) \<le> ru_origin_until s \<and> lk_deadline (ru_lease s) \<le> ru_now s + l * rg_unit cfg)"

lemma work_frame:
  assumes "case ru_work s of W_record \<Rightarrow> False | W_claiming _ \<Rightarrow> False | W_recorded _ _ _ \<Rightarrow> False | W_sending \<Rightarrow> False | W_starting _ \<Rightarrow> False | _ \<Rightarrow> True"
  shows "lk_deadline (ru_lease (work_step cfg a s)) = lk_deadline (ru_lease s) \<and> ru_origin_until (work_step cfg a s) = ru_origin_until s
    \<and> ru_now (work_step cfg a s) = ru_now s \<and> ru_renew (work_step cfg a s) = ru_renew s
    \<and> (case ru_work (work_step cfg a s) of W_claiming _ \<Rightarrow> False | W_recorded _ _ _ \<Rightarrow> False | W_starting _ \<Rightarrow> False | _ \<Rightarrow> True)"
  using assms by (cases "ru_work s"; simp only: work_step_def work_pc.case) (simp_all add: work_defs split: step_splits)

lemma lease_inv_work:
  assumes i: "lease_inv cfg l s" and g: "gives_lease cfg l (Ev_work a)"
  shows "lease_inv cfg l (work_step cfg a s)"
proof -
  have d: "deadline_for cfg t l \<le> t + l * rg_unit cfg" for t using g deadline_upto by (simp add: gives_lease_def)
  have c: "call_inv (work_step cfg a s)" using i call_inv_work by (simp add: lease_inv_def)
  show ?thesis
  proof (cases "case ru_work s of W_record \<Rightarrow> False | W_claiming _ \<Rightarrow> False | W_recorded _ _ _ \<Rightarrow> False | W_sending \<Rightarrow> False | W_starting _ \<Rightarrow> False | _ \<Rightarrow> True")
    case True
    note f = work_frame [OF this, of cfg a]
    then have "sent_ok cfg l (ru_work (work_step cfg a s)) n u x" for n u x
      by (cases "ru_work (work_step cfg a s)") (simp_all add: sent_ok_def)
    then show ?thesis using i c f by (simp add: lease_inv_def)
  next
    case False
    then consider "ru_work s = W_record" | t where "ru_work s = W_claiming t" | t cr x where "ru_work s = W_recorded t cr x" | "ru_work s = W_sending"
      | t where "ru_work s = W_starting t" by (cases "ru_work s") auto
    then show ?thesis
    proof cases
      case 1
      then show ?thesis using i c by (cases a) (simp_all add: work_step_def do_send_claim_def noted_def lease_inv_def sent_ok_def split: prod.splits)
    next
      case 2
      then have "ru_renew s = R_none" using i by (simp add: lease_inv_def call_inv_def unclaimed_def)
      then show ?thesis
        using 2 i c g d [of t] by (cases a) (auto simp: work_step_def do_claim_answer_def noted_def Let_def lease_inv_def sent_ok_def beat_ok_def gives_lease_def)
    next
      case 3
      then have r: "ru_renew s = R_none" using i by (simp add: lease_inv_def call_inv_def unclaimed_def)
      show ?thesis
        using 3 r i c by (auto simp: work_step_def do_recorded_def q_call_def Let_def lease_inv_def sent_ok_def beat_ok_def split: acquire_result.splits option.splits)
    next
      case 4
      then show ?thesis using i c by (auto simp: work_step_def noted_def lease_inv_def sent_ok_def beat_ok_def call_inv_defs)
    next
      case 5
      then have r: "ru_renew s = R_beating x \<Longrightarrow> False" for x using i by (auto simp: lease_inv_def call_inv_defs)
      then have b: "beat_ok cfg l (ru_renew s) n x" for n x by (cases "ru_renew s") (auto simp: beat_ok_def)
      show ?thesis
        using 5 i c g d [of t] b
        by (cases a) (auto simp: work_step_def do_started_def do_not_started_def handled_def set_call_def lease_inv_def sent_ok_def gives_lease_def split: option.splits)
    qed
  qed
qed

lemma renew_frame:
  assumes "case ru_renew s of R_sending \<Rightarrow> False | R_beating _ \<Rightarrow> False | _ \<Rightarrow> True"
  shows "lk_deadline (ru_lease (renew_step cfg a s)) = lk_deadline (ru_lease s) \<and> ru_origin_until (renew_step cfg a s) = ru_origin_until s
    \<and> ru_now (renew_step cfg a s) = ru_now s \<and> (ru_renew (renew_step cfg a s) = R_none \<longleftrightarrow> ru_renew s = R_none)
    \<and> (case ru_renew (renew_step cfg a s) of R_beating _ \<Rightarrow> False | _ \<Rightarrow> True)"
  using assms by (cases "ru_renew s"; simp only: renew_step_def renew_pc.case) (simp_all add: renew_defs split: step_splits)

lemma lease_inv_renew:
  assumes i: "lease_inv cfg l s" and g: "gives_lease cfg l (Ev_renew a)"
  shows "lease_inv cfg l (renew_step cfg a s)"
proof -
  have d: "deadline_for cfg t l \<le> t + l * rg_unit cfg" for t using g deadline_upto by (simp add: gives_lease_def)
  have c: "call_inv (renew_step cfg a s)" using i call_inv_renew by (simp add: lease_inv_def)
  consider "case ru_renew s of R_sending \<Rightarrow> False | R_beating _ \<Rightarrow> False | _ \<Rightarrow> True" | "ru_renew s = R_sending" | t where "ru_renew s = R_beating t"
    by (cases "ru_renew s") auto
  then show ?thesis
  proof cases
    case 1
    note f = renew_frame [OF this, of cfg a]
    then have "beat_ok cfg l (ru_renew (renew_step cfg a s)) n x" for n x
      by (cases "ru_renew (renew_step cfg a s)") (simp_all add: beat_ok_def)
    then show ?thesis using i c f by (simp add: lease_inv_def)
  next
    case 2
    then show ?thesis using i c by (simp add: renew_step_def noted_def lease_inv_def beat_ok_def)
  next
    case 3
    then have r: "ru_work s = W_starting x \<Longrightarrow> False" "unclaimed (ru_work s) \<Longrightarrow> False" for x using i by (auto simp: lease_inv_def call_inv_defs)
    then have b: "sent_ok cfg l (ru_work s) n u x" for n u x by (cases "ru_work s") (auto simp: sent_ok_def unclaimed_def)
    show ?thesis
      using 3 i c g d [of t] b by (cases a) (auto simp: renew_step_def do_beaten_def handled_def lease_inv_def beat_ok_def gives_lease_def split: option.splits)
  qed
qed

lemma lease_inv_step:
  assumes i: "lease_inv cfg l s" and g: "gives_lease cfg l e"
  shows "lease_inv cfg l (run_step cfg e s)"
proof (cases e)
  case (Ev_tick n)
  have "sent_ok cfg l w now u x \<Longrightarrow> sent_ok cfg l w (now + int n) u x" for w now u x by (cases w) (auto simp: sent_ok_def split: option.splits)
  moreover have "beat_ok cfg l r now x \<Longrightarrow> beat_ok cfg l r (now + int n) x" for r now x by (cases r) (auto simp: beat_ok_def)
  ultimately show ?thesis using i Ev_tick call_inv_step [of s cfg e] by (auto simp: lease_inv_def run_step_def)
next
  case (Ev_work a)
  then show ?thesis using lease_inv_work [OF i] g by (simp add: run_step_def)
next
  case (Ev_renew a)
  then show ?thesis using lease_inv_renew [OF i] g by (simp add: run_step_def)
qed (use i call_inv_step [of s cfg e] in \<open>auto simp: lease_inv_def run_step_def q_call_def\<close>)

interpretation lease_run: machine "run_step cfg" "run_start now q c" "gives_lease cfg l" "lease_inv cfg l"
proof
  show "lease_inv cfg l (run_start now q c)"
    using call_inv_start [of now q c] by (simp add: lease_inv_def) (simp add: run_start_def sent_ok_def beat_ok_def)
qed (rule lease_inv_step)

section \<open>An expired lease ends the command\<close>

text \<open>
  What the renewing goroutine can do at once: a case of the \<open>select\<close> that is ready; the end of a
  heartbeat, which is an error when the lease is over, because its context has that deadline.
\<close>

definition ready :: "renew_answer \<Rightarrow> runner_state \<Rightarrow> bool" where
  "ready a s =
     (case ru_renew s of
        R_none \<Rightarrow> False
      | R_sleep d r \<Rightarrow> (case a of B_done \<Rightarrow> renew_ctx_ended s | B_changed \<Rightarrow> lk_changed (ru_lease s) | B_timer \<Rightarrow> \<not> ru_now s < min d r | _ \<Rightarrow> False)
      | R_locking \<Rightarrow> lk_call (ru_lease s) = None
      | R_beating _ \<Rightarrow> (case a of B_err _ None \<Rightarrow> True | _ \<Rightarrow> False)
      | R_returned \<Rightarrow> False
      | _ \<Rightarrow> True)"

fun ready_steps :: "runner_cfg \<Rightarrow> renew_answer list \<Rightarrow> runner_state \<Rightarrow> bool" where
  "ready_steps cfg [] s \<longleftrightarrow> True"
| "ready_steps cfg (a # as) s \<longleftrightarrow> ready a s \<and> ready_steps cfg as (renew_step cfg a s)"

text \<open>A goroutine that sleeps towards an old lease has been woken; one that returned, or is about to, has ended the command.\<close>

definition renew_inv :: "runner_state \<Rightarrow> bool" where
  "renew_inv s = (case ru_renew s of
       R_sleep d r \<Rightarrow> d = lk_deadline (ru_lease s) \<or> lk_changed (ru_lease s)
     | R_end_renew \<Rightarrow> ru_run_ended s
     | R_returned \<Rightarrow> renew_ctx_ended s
     | _ \<Rightarrow> True)"

lemma renew_inv_renew: "renew_inv s \<Longrightarrow> renew_inv (renew_step cfg a s)"
  by (cases "ru_renew s"; simp only: renew_step_def renew_pc.case) (auto simp: renew_defs renew_inv_def split: step_splits)

lemma work_lease:
  "(lk_deadline (ru_lease (work_step cfg a s)) = lk_deadline (ru_lease s) \<and> lk_changed (ru_lease (work_step cfg a s)) = lk_changed (ru_lease s))
   \<or> lk_changed (ru_lease (work_step cfg a s)) \<or> ru_renew (work_step cfg a s) = R_top"
  by (cases "ru_work s"; simp only: work_step_def work_pc.case) (simp_all add: work_defs split: step_splits)

lemma work_contexts:
  "ru_ctx_ended (work_step cfg a s) = ru_ctx_ended s" "ru_renew_ended s \<Longrightarrow> ru_renew_ended (work_step cfg a s)"
  "ru_run_ended s \<Longrightarrow> ru_run_ended (work_step cfg a s)"
  by (cases "ru_work s"; simp only: work_step_def work_pc.case; simp add: work_defs split: step_splits)+

lemma renew_inv_step: "renew_inv s \<Longrightarrow> renew_inv (run_step cfg e s)"
proof (cases e)
  case (Ev_work a)
  assume i: "renew_inv s"
  show ?thesis
    using i Ev_work work_renew [of cfg a s] work_lease [of cfg a s] work_contexts
    by (cases "ru_renew s") (auto simp: run_step_def renew_inv_def)
qed (use renew_inv_renew in \<open>auto simp: run_step_def renew_inv_def q_call_def split: renew_pc.splits\<close>)


text \<open>How many steps the renewing goroutine is from ending the command, once the lease is over; a token costs one more look.\<close>

definition steps_left :: "runner_state \<Rightarrow> nat" where
  "steps_left s = (if lk_changed (ru_lease s) then 6 else 0) +
     (case ru_renew s of R_end_run \<Rightarrow> 1 | R_lost \<Rightarrow> 2 | R_locked \<Rightarrow> 3 | R_locking \<Rightarrow> 4
      | R_woken d r \<Rightarrow> if \<not> ru_now s < d then 3 else 6
      | R_sleep d r \<Rightarrow> if d = lk_deadline (ru_lease s) then 4 else 7
      | R_top \<Rightarrow> 5 | R_after _ \<Rightarrow> 6 | R_unlock _ \<Rightarrow> 7 | R_cancel \<Rightarrow> 8 | R_beating _ \<Rightarrow> 8 | R_sending \<Rightarrow> 9 | R_answered _ \<Rightarrow> 9 | _ \<Rightarrow> 0)"

lemma steps_left_upto: "steps_left s \<le> 15"
  by (cases "ru_renew s") (simp_all add: steps_left_def)

definition over_time :: "runner_state \<Rightarrow> bool" where
  "over_time s \<longleftrightarrow> call_inv s \<and> renew_inv s \<and> ru_renew s \<noteq> R_none \<and> expired s \<and> lk_call (ru_lease s) \<noteq> Some By_start"

lemma over_time_ready: "over_time s \<Longrightarrow> \<not> run_ctx_ended s \<Longrightarrow> \<exists>a. ready a s"
proof -
  assume o: "over_time s" and n: "\<not> run_ctx_ended s"
  have "lk_call (ru_lease s) = None" if "ru_renew s = R_locking"
    using o that by (cases "lk_call (ru_lease s)"; cases "the (lk_call (ru_lease s))") (auto simp: over_time_def call_inv_defs)
  moreover have "ready B_timer s \<or> ready B_changed s" if "ru_renew s = R_sleep d r" for d r
    using o that by (auto simp: over_time_def renew_inv_def ready_def expired_def)
  moreover have "ready (B_err Beat_failed None) s" if "ru_renew s = R_beating t" for t using that by (simp add: ready_def)
  moreover have "ready B_go s" if "\<not> (\<exists>d r. ru_renew s = R_sleep d r)" "\<not> (\<exists>t. ru_renew s = R_beating t)" "ru_renew s \<noteq> R_locking"
    using o n that by (cases "ru_renew s") (auto simp: ready_def over_time_def renew_inv_def)
  moreover have "ready B_go s" if "ru_renew s = R_locking" "lk_call (ru_lease s) = None" using that by (simp add: ready_def)
  ultimately show ?thesis by blast
qed

lemma over_time_step:
  assumes o: "over_time s" and r: "ready a s" and n: "\<not> run_ctx_ended (renew_step cfg a s)"
  shows "over_time (renew_step cfg a s) \<and> steps_left (renew_step cfg a s) < steps_left s"
proof -
  have "call_inv (renew_step cfg a s)" "renew_inv (renew_step cfg a s)" using o call_inv_renew renew_inv_renew by (auto simp: over_time_def)
  then show ?thesis
    using o r n
    by (cases "ru_renew s"; simp only: renew_step_def renew_pc.case)
      (auto simp: over_time_def expired_def ready_def steps_left_def renew_inv_def renew_defs split: step_splits if_splits)
qed

lemma renew_contexts: "run_ctx_ended s \<Longrightarrow> run_ctx_ended (renew_step cfg a s)"
  by (cases "ru_renew s"; simp only: renew_step_def renew_pc.case) (auto simp: renew_defs split: step_splits)

lemma over_time_ends:
  "over_time s \<Longrightarrow> ready_steps cfg as s \<Longrightarrow> s' = fold (renew_step cfg) as s \<Longrightarrow>
   run_ctx_ended s' \<or> (over_time s' \<and> steps_left s' + length as \<le> steps_left s)"
proof (induction as arbitrary: s)
  case (Cons a as)
  have mono: "run_ctx_ended t \<Longrightarrow> run_ctx_ended (fold (renew_step cfg) bs t)" for t bs
    by (induction bs arbitrary: t) (use renew_contexts in auto)
  show ?case
  proof (cases "run_ctx_ended (renew_step cfg a s)")
    case True
    then show ?thesis using mono Cons.prems(3) by simp
  next
    case False
    then show ?thesis using over_time_step [of s a cfg] Cons.IH [of "renew_step cfg a s"] Cons.prems by auto
  qed
qed simp


lemma steps_left_pos: "over_time s \<Longrightarrow> \<not> run_ctx_ended s \<Longrightarrow> 0 < steps_left s"
  by (cases "ru_renew s") (auto simp: steps_left_def over_time_def renew_inv_def)

lemma renew_inv_start: "renew_inv (run_start now q c)"
  by (simp add: renew_inv_def run_start_def)

section \<open>An example\<close>

text \<open>A job with one key, up to where its command runs, on a host with the guard.\<close>

definition sample_cfg :: runner_cfg where
  "sample_cfg = \<lparr>rg_worker = ''m1'', rg_labels = [], rg_fingerprint = [], rg_unit = 10, rg_guard = True, rg_finish = True, rg_can_release = True,
     rg_sha = sample_sha, rg_lock_text = (\<lambda>_. ''locks'')\<rparr>"

definition sample_locked_job :: job where
  "sample_locked_job = sample_job\<lparr>j_id := ''j1'', j_locks := [''db'']\<rparr>"

definition sample_runner :: runner_state where
  "sample_runner = run_start 0 (qn_start sample_sha ''/w'' (Some ''/w'') []) \<lparr>cd_source = ''a'', cd_zone = ZoneNormal, cd_job = sample_locked_job\<rparr>"

definition sample_started :: "run_event list" where
  "sample_started = [Ev_work A_go, Ev_work (A_facts None), Ev_tick 5,
     Ev_work (A_claimed 3 \<lparr>cp_job = sample_locked_job, cp_claim_id = ''c1'', cp_lease_s = 60, cp_renew_s = 20\<rparr>), Ev_work A_go,
     Ev_renew B_go, Ev_work (A_made (Inr \<lparr>ws_dir = ''/w/h1/ws'', ws_cleanup = True\<rparr>)), Ev_work A_go, Ev_work (A_planned (Inr zero_plan)),
     Ev_work A_go, Ev_work A_go, Ev_work A_go, Ev_work A_go, Ev_tick 2, Ev_work (A_started 6 60 20), Ev_work A_go, Ev_work (A_began 8 True '''')]"

lemma sample_lease:
  "ru_lease (run_events sample_cfg sample_started sample_runner) = \<lparr>lk_call = None, lk_deadline = 605, lk_renew_at = 205, lk_changed = True\<rparr>"
  "ru_renew (run_events sample_cfg sample_started sample_runner) = R_sleep 600 200"
  "ru_origin_until (run_events sample_cfg sample_started sample_runner) = 606"
  "ru_now (run_events sample_cfg sample_started sample_runner) = 7"
  by code_simp+

section \<open>Properties\<close>

text \<open>
  a worker never trusts a lease longer than its origin does. Whatever happens in whatever order
  (answers lost, calls handled late, 64-bit durations that wrap), as long as the origin gives the
  same lease each time, the worker's own deadline is never later than the origin's.
\<close>

theorem lease_never_outlives_the_origins:
  assumes "list_all (gives_lease cfg l) es" and "s = run_events cfg es (run_start now q c)" and "running_claimed s"
  shows "lk_deadline (ru_lease s) \<le> ru_origin_until s"
  using lease_run.inv_run [OF assms(1), of now q c] assms(2,3) by (simp add: lease_inv_def running_claimed_def)

theorem lease_never_outlives_the_origins_witness:
  "list_all (gives_lease sample_cfg 60) sample_started \<and> running_claimed (run_events sample_cfg sample_started sample_runner)
   \<and> lk_deadline (ru_lease (run_events sample_cfg sample_started sample_runner)) \<le> 606"
proof -
  have g: "list_all (gives_lease sample_cfg 60) sample_started" by (simp add: sample_started_def gives_lease_def sample_cfg_def)
  have c: "running_claimed (run_events sample_cfg sample_started sample_runner)" by (simp add: running_claimed_def sample_lease)
  from lease_never_outlives_the_origins [OF g sample_runner_def [THEN arg_cong [of _ _ "run_events sample_cfg sample_started"]] c] g c show ?thesis
    by (simp add: sample_lease)
qed

text \<open>
  a lease that was not renewed ends the command. From any point of any run, once the clock is at
  the worker's deadline and no start is under way, the renewing goroutine can always go on, and before
  its fifteenth step the command's context has ended, whatever it was doing.
\<close>

theorem expired_lease_ends_the_command:
  assumes "s = run_events cfg es (run_start now q c)" and "running_claimed s" "expired s" and "lk_call (ru_lease s) \<noteq> Some By_start"
    and "ready_steps cfg as s" and "s' = fold (renew_step cfg) as s"
  shows "run_ctx_ended s' \<or> (length as < 15 \<and> (\<exists>a. ready a s'))"
proof -
  have "call_inv s \<and> renew_inv s"
    unfolding assms(1) by (induction es rule: rev_induct) (simp_all add: call_inv_start call_inv_step renew_inv_step renew_inv_start)
  then have "over_time s" using assms(2,3,4) by (simp add: over_time_def running_claimed_def)
  from over_time_ends [OF this assms(5,6)] show ?thesis
    using over_time_ready [of s'] steps_left_pos [of s'] steps_left_upto [of s] by fastforce
qed

text \<open>The lease of the example runs out while the goroutine sleeps towards the one before.\<close>

definition sample_late :: "run_event list" where
  "sample_late = sample_started @ [Ev_tick 600]"

definition sample_wakes :: "renew_answer list" where
  "sample_wakes = [B_changed, B_go, B_timer, B_go, B_go, B_go, B_go]"

lemma sample_late_is:
  "run_events sample_cfg sample_late sample_runner = (run_events sample_cfg sample_started sample_runner)\<lparr>ru_now := 607\<rparr>"
  using sample_lease(4) by (simp add: sample_late_def run_step_def)

theorem expired_lease_ends_the_command_witness:
  "ready_steps sample_cfg sample_wakes (run_events sample_cfg sample_late sample_runner)
   \<and> run_ctx_ended (fold (renew_step sample_cfg) sample_wakes (run_events sample_cfg sample_late sample_runner))"
proof -
  let ?s = "run_events sample_cfg sample_late sample_runner"
  have a: "running_claimed ?s" "expired ?s" "lk_call (ru_lease ?s) \<noteq> Some By_start"
    by (simp_all add: sample_late_is running_claimed_def expired_def sample_lease)
  have r: "ready_steps sample_cfg sample_wakes ?s"
    by (simp add: sample_late_is sample_lease sample_wakes_def ready_def renew_step_def do_sleep_def do_woken_def)
  have "ru_renew (fold (renew_step sample_cfg) sample_wakes ?s) = R_returned"
    by (simp add: sample_late_is sample_lease sample_wakes_def renew_step_def do_sleep_def do_woken_def)
  then have "\<not> ready x (fold (renew_step sample_cfg) sample_wakes ?s)" for x by (simp add: ready_def)
  then show ?thesis
    using expired_lease_ends_the_command [OF sample_runner_def [THEN arg_cong [of _ _ "run_events sample_cfg sample_late"]] a r refl] r by blast
qed

end
