(* ===== verification/RunnerKeys.thy ===== *)
theory RunnerKeys
  imports RunnerLease
begin

text \<open>
  The lock keys and the marker of a command that may be running (\<open>worker/runner\<close> with the guard of
  \<open>worker/loop\<close>), through everything others do with the lock table and the quarantine store meanwhile.
\<close>

section \<open>The keys and the marker of a command that may be running\<close>

definition own_hold :: "runner_state \<Rightarrow> lock_handle" where
  "own_hold s = ls_handles (q_locks (ru_q s)) ! ru_hold s"

text \<open>Where the job has its keys and its command is not yet over.\<close>

definition busy :: "work_pc \<Rightarrow> bool" where
  "busy w = (case w of W_record \<Rightarrow> True | W_claiming _ \<Rightarrow> True | W_recorded _ _ _ \<Rightarrow> True | W_materialize \<Rightarrow> True | W_made \<Rightarrow> True | W_prepare \<Rightarrow> True
     | W_planned \<Rightarrow> True | W_locking \<Rightarrow> True | W_locked \<Rightarrow> True | W_sending \<Rightarrow> True | W_starting _ \<Rightarrow> True | W_start_failed _ _ \<Rightarrow> True | W_started \<Rightarrow> True
     | W_begin \<Rightarrow> True | W_run \<Rightarrow> True | _ \<Rightarrow> False)"

text \<open>
  What others may do while the command is not over: anything but a call with this very hold, the
  release of everything of this owner, the end of this run's marker, or a new process. A sweep or a
  clearing of an entry of this owner comes only while that entry is a running one.
\<close>

definition running_entry :: "string \<Rightarrow> qn_state \<Rightarrow> bool" where
  "running_entry w q = (case entry_of (q_store q) w of Some r \<Rightarrow> qr_live r | None \<Rightarrow> False)"

definition others_may :: "qn_call \<Rightarrow> runner_state \<Rightarrow> bool" where
  "others_may c s =
     (case c of
        Q_lock (Reserve _ _) \<Rightarrow> True
      | Q_lock (Finish _ i _) \<Rightarrow> ls_handles (q_locks (ru_q s)) ! i \<noteq> own_hold s
      | Q_lock (Release i) \<Rightarrow> ls_handles (q_locks (ru_q s)) ! i \<noteq> own_hold s
      | Q_lock (Rename i _) \<Rightarrow> ls_handles (q_locks (ru_q s)) ! i \<noteq> own_hold s
      | Q_lock (ReleaseOwner v) \<Rightarrow> v \<noteq> ru_owner s
      | Q_add _ e _ \<Rightarrow> qe_owner e \<noteq> marker_owner s
      | Q_settle v \<Rightarrow> v \<noteq> marker_owner s
      | Q_discard v _ \<Rightarrow> v \<noteq> marker_owner s
      | Q_sweep h _ _ _ \<Rightarrow> qe_owner (sn_e h) \<in> {ru_owner s, marker_owner s} \<longrightarrow> running_entry (qe_owner (sn_e h)) (ru_q s)
      | Q_clear h _ _ \<Rightarrow> qe_owner (sn_e h) \<in> {ru_owner s, marker_owner s} \<longrightarrow> running_entry (qe_owner (sn_e h)) (ru_q s)
      | Q_restart _ _ \<Rightarrow> False
      | _ \<Rightarrow> True)"

inductive reached :: "runner_cfg \<Rightarrow> runner_state \<Rightarrow> runner_state \<Rightarrow> bool" for cfg s0 where
  reached_start: "reached cfg s0 s0"
| reached_step: "reached cfg s0 s \<Longrightarrow> (\<And>c. e = Ev_others c \<Longrightarrow> busy (ru_work s) \<Longrightarrow> others_may c s) \<Longrightarrow> reached cfg s0 (run_step cfg e s)"

lemma lock_inv_call: "lock_inv (q_table q) \<Longrightarrow> lock_inv (q_table (qn_step sha c q))"
  using lock_inv_step [of "q_locks q"] lock_inv_restore lock_inv_retire
  by (cases c) (simp_all add: sweep_act_def lock_start_def lock_inv_new)

lemma retire_running: "running_entry (qe_owner (sn_e h)) q \<Longrightarrow> snd (snd (retire sha h human a rm (q_store q) (q_table q))) = (q_store q, q_table q)"
  by (auto simp: retire_def running_entry_def simp del: map_of_eq_Some_iff split: option.splits)

lemma sweep_running: "running_entry (qe_owner (sn_e h)) q \<Longrightarrow> snd (snd (sweep_act sha h g a rm (q_store q) (q_table q))) = (q_store q, q_table q)"
  by (auto simp: sweep_act_def retire_running)

lemma apply_retire_same: "snd (snd x) = (q_store q, q_table q) \<Longrightarrow> apply_retire x q = q"
  by (cases x) (simp add: apply_retire_def)

lemma sweep_other:
  assumes "lock_inv t" "qe_owner (sn_e h) \<noteq> w" "sweep_act sha h g a rm st t = (x, d, s', t')"
  shows "hold_of t' w = hold_of t w \<and> entry_of s' w = entry_of st w"
  using assms retire_other [OF assms(1,2), of sha False a rm st] by (auto simp: sweep_act_def split: if_splits)

text \<open>So the hold of a busy job stays through what others may do.\<close>

lemma others_keep_hold:
  assumes li: "lock_inv (q_table (ru_q s))" and k: "hold_of (q_table (ru_q s)) (ru_owner s) = Some k"
    and own: "own_hold s = \<lparr>hd_owner = ru_owner s, hd_gen = hk_gen k\<rparr>" "ru_hold s < length (ls_handles (q_locks (ru_q s)))" and m: "others_may c s"
  shows "hold_of (q_table (qn_step sha c (ru_q s))) (ru_owner s) = Some k \<and> ls_handles (q_locks (qn_step sha c (ru_q s))) ! ru_hold s = own_hold s
    \<and> ru_hold s < length (ls_handles (q_locks (qn_step sha c (ru_q s))))"
proof -
  let ?q = "ru_q s" and ?w = "ru_owner s"
  have hn: "hold_of (q_table ?q) ?w \<noteq> None" using k by simp
  note no = finish_not_own [OF li k, folded own(1)]
  show ?thesis
  proof (cases c)
    case (Q_lock l)
    show ?thesis
    proof (cases l)
      case (Reserve v keys)
      then show ?thesis
        using Q_lock k own reserve_other [OF hn, of v keys] by (auto simp: own_hold_def nth_append simp del: map_of_eq_Some_iff split: prod.splits sum.splits)
    next
      case (Rename i v)
      then have "i \<noteq> ru_hold s" using Q_lock m by (auto simp: others_may_def own_hold_def)
      then show ?thesis
        using Q_lock Rename k own no(3) [of "ls_handles (q_locks ?q) ! i" v] m
        by (auto simp: others_may_def own_hold_def simp del: map_of_eq_Some_iff split: prod.splits)
    qed (use Q_lock k own no m li in \<open>auto simp: others_may_def own_hold_def release_owner_def release_locked_tables simp del: map_of_eq_Some_iff\<close>)
  next
    case (Q_sweep h g a rm)
    then show ?thesis
      using k own m sweep_other [OF li, of h ?w sha g a rm "q_store ?q"] apply_retire_same [OF sweep_running [of h ?q sha g a rm]]
      by (cases "sweep_act sha h g a rm (q_store ?q) (q_table ?q)"; cases "qe_owner (sn_e h) = ?w")
        (auto simp: others_may_def apply_retire_def own_hold_def simp del: map_of_eq_Some_iff)
  next
    case (Q_clear h a rm)
    then show ?thesis
      using k own m retire_other [OF li, of h ?w sha True a rm "q_store ?q"] apply_retire_same [OF retire_running [of h ?q sha True a rm]]
      by (cases "retire sha h True a rm (q_store ?q) (q_table ?q)"; cases "qe_owner (sn_e h) = ?w")
        (auto simp: others_may_def apply_retire_def own_hold_def simp del: map_of_eq_Some_iff)
  qed (use k own m restore_other [OF hn] in \<open>auto simp: others_may_def own_hold_def simp del: map_of_eq_Some_iff\<close>)
qed

lemma others_keep_entry:
  assumes li: "lock_inv (q_table (ru_q s))" and e: "entry_of (q_store (ru_q s)) (marker_owner s) = Some r" "qr_live r" and m: "others_may c s"
  shows "entry_of (q_store (qn_step sha c (ru_q s))) (marker_owner s) = Some r"
proof -
  let ?q = "ru_q s" and ?w = "marker_owner s"
  have live: "running_entry ?w ?q" using e by (simp add: running_entry_def)
  show ?thesis
  proof (cases c)
    case (Q_add now x wr)
    then show ?thesis
      using e m by (auto simp: others_may_def qn_add_def install_def Let_def update_conv' simp del: map_of_eq_Some_iff dest!: normalize_cases split: sum.splits option.splits)
  next
    case (Q_sweep h g a rm)
    then show ?thesis
      using e m live sweep_other [OF li, of h ?w sha g a rm "q_store ?q"] apply_retire_same [OF sweep_running [of h ?q sha g a rm]]
      by (cases "sweep_act sha h g a rm (q_store ?q) (q_table ?q)"; cases "qe_owner (sn_e h) = ?w") (auto simp: apply_retire_def simp del: map_of_eq_Some_iff)
  next
    case (Q_clear h a rm)
    then show ?thesis
      using e m live retire_other [OF li, of h ?w sha True a rm "q_store ?q"] apply_retire_same [OF retire_running [of h ?q sha True a rm]]
      by (cases "retire sha h True a rm (q_store ?q) (q_table ?q)"; cases "qe_owner (sn_e h) = ?w") (auto simp: apply_retire_def simp del: map_of_eq_Some_iff)
  qed (use e m in \<open>auto simp: others_may_def begin_kept settle_def discard_def unlive_def remove_marker_def Let_def update_conv' delete_conv'
         simp del: map_of_eq_Some_iff split: option.splits\<close>)
qed


definition has_keys :: "runner_state \<Rightarrow> bool" where
  "has_keys s \<longleftrightarrow> (\<exists>k. hold_of (q_table (ru_q s)) (ru_owner s) = Some k \<and> own_hold s = \<lparr>hd_owner = ru_owner s, hd_gen = hk_gen k\<rparr>
     \<and> ru_hold s < length (ls_handles (q_locks (ru_q s))) \<and> set (hk_keys k) = set (j_locks (ru_job s)))"

definition has_marker :: "runner_state \<Rightarrow> bool" where
  "has_marker s \<longleftrightarrow> (\<exists>r. entry_of (q_store (ru_q s)) (marker_owner s) = Some r \<and> qr_live r \<and> set (qe_keys (qr_e r)) = set (j_locks (ru_job s)))"

definition same_locks :: "work_pc \<Rightarrow> string list \<Rightarrow> bool" where
  "same_locks w ks = (case w of W_recorded _ (Some cr) _ \<Rightarrow> set (j_locks (cp_job cr)) = set ks | _ \<Rightarrow> True)"

definition keys_inv :: "runner_cfg \<Rightarrow> runner_state \<Rightarrow> bool" where
  "keys_inv cfg s \<longleftrightarrow> lock_inv (q_table (ru_q s)) \<and> (busy (ru_work s) \<longrightarrow> has_keys s) \<and> (ru_work s = W_run \<and> rg_guard cfg \<longrightarrow> has_marker s)
     \<and> same_locks (ru_work s) (j_locks (ru_job s))"

lemma same_set_iff: "same_set a b \<longleftrightarrow> set a = set b"
proof -
  have "same_set a b \<longleftrightarrow> card (set a) = card (set b) \<and> set a \<subseteq> set b"
    by (simp add: same_set_def Let_def length_remdups_card_conv list_all_iff subset_eq)
  then show ?thesis by (metis List.finite_set card_subset_eq order_refl)
qed

lemma work_keeps_run:
  assumes "case ru_work s of W_reserve \<Rightarrow> False | W_claiming _ \<Rightarrow> False | W_recorded _ _ _ \<Rightarrow> False | W_begin \<Rightarrow> False | _ \<Rightarrow> True"
  shows "busy (ru_work (work_step cfg a s)) \<Longrightarrow> busy (ru_work s) \<and> ru_q (work_step cfg a s) = ru_q s \<and> ru_owner (work_step cfg a s) = ru_owner s
      \<and> ru_hold (work_step cfg a s) = ru_hold s \<and> ru_job (work_step cfg a s) = ru_job s \<and> ru_source (work_step cfg a s) = ru_source s
      \<and> (ru_work (work_step cfg a s) = W_run \<longrightarrow> ru_work s = W_run) \<and> (case ru_work (work_step cfg a s) of W_recorded _ _ _ \<Rightarrow> False | _ \<Rightarrow> True)"
  using assms by (cases "ru_work s"; simp only: work_step_def work_pc.case) (simp_all add: work_defs busy_def split: step_splits if_splits)

lemma work_keeps_lock_inv: "lock_inv (q_table (ru_q s)) \<Longrightarrow> lock_inv (q_table (ru_q (work_step cfg a s)))"
  using lock_inv_call [of "ru_q s" "rg_sha cfg"]
  by (cases "ru_work s"; simp only: work_step_def work_pc.case) (simp_all add: work_defs del: qn_step.simps split: step_splits)


lemma keys_inv_reserve:
  assumes "lock_inv (q_table (ru_q s))"
  shows "keys_inv cfg (do_reserve cfg s)"
proof -
  have li: "lock_inv (q_table (qn_step (rg_sha cfg) (Q_lock (Reserve (ru_owner s) (j_locks (ru_job s)))) (ru_q s)))" using assms lock_inv_call by blast
  obtain r t where x: "acquire_reserve (ru_owner s) (j_locks (ru_job s)) (q_table (ru_q s)) = (r, t)" by fastforce
  then show ?thesis
    using li x
    by (cases rule: acquire_reserve_cases) (auto simp: do_reserve_def q_call_def Let_def keys_inv_def same_locks_def busy_def has_keys_def own_hold_def update_conv' simp del: map_of_eq_Some_iff)
qed

lemma keys_inv_recorded:
  assumes i: "keys_inv cfg s" and w: "ru_work s = W_recorded t cr x"
  shows "keys_inv cfg (do_recorded cfg t cr x s)"
proof -
  let ?h = "own_hold s" and ?t = "q_table (ru_q s)"
  obtain k where k: "hold_of ?t (ru_owner s) = Some k" "?h = \<lparr>hd_owner = ru_owner s, hd_gen = hk_gen k\<rparr>"
    "ru_hold s < length (ls_handles (q_locks (ru_q s)))" "set (hk_keys k) = set (j_locks (ru_job s))"
    using i w by (auto simp: keys_inv_def same_locks_def busy_def has_keys_def)
  have f: "acquire_finish (ru_owner s) ?h RecordOk ?t = (Got ?h, ?t)" "fst (acquire_finish (ru_owner s) ?h RecordErr ?t) = Refused RecordFailed"
    using k(1,2) by (auto simp: acquire_finish_def)
  have li: "lock_inv (q_table (qn_step (rg_sha cfg) c (ru_q s)))" for c using i lock_inv_call by (simp add: keys_inv_def)
  show ?thesis
  proof (cases cr)
    case None
    then show ?thesis
      using f(2) li [of "Q_lock (Finish (ru_owner s) (ru_hold s) RecordErr)"] by (simp add: do_recorded_def q_call_def Let_def own_hold_def [symmetric] keys_inv_def same_locks_def busy_def del: qn_step.simps)
  next
    case (Some c)
    then have c: "set (j_locks (cp_job c)) = set (j_locks (ru_job s))" using i w by (simp add: keys_inv_def same_locks_def)
    have "qn_step (rg_sha cfg) (Q_lock (Finish (ru_owner s) (ru_hold s) RecordOk)) (ru_q s) = ru_q s"
      using f(1) k(3) by (simp add: own_hold_def)
    then show ?thesis
      using f(1) k c i Some
      by (simp add: do_recorded_def q_call_def Let_def own_hold_def [symmetric] keys_inv_def same_locks_def busy_def has_keys_def del: qn_step.simps map_of_eq_Some_iff) (simp add: own_hold_def)
  qed
qed

lemma keys_inv_begin:
  assumes i: "keys_inv cfg s" and w: "ru_work s = W_begin"
  shows "keys_inv cfg (do_begin cfg now wr x s)"
proof (cases "rg_guard cfg")
  case True
  let ?e = "guard_entry cfg s"
  have e: "qe_owner ?e = marker_owner s" "qe_keys ?e = j_locks (ru_job s)" by (simp_all add: guard_entry_def entry_for_def mk_ended_def marker_owner_def)
  have k: "has_keys s" using i w by (simp add: keys_inv_def same_locks_def busy_def)
  have m: "\<exists>r. entry_of (snd (qn_begin (rg_sha cfg) now ?e wr (q_table (ru_q s)) (q_store (ru_q s)))) (marker_owner s) = Some r \<and> qr_live r
      \<and> set (qe_keys (qr_e r)) = set (j_locks (ru_job s))"
    if "fst (qn_begin (rg_sha cfg) now ?e wr (q_table (ru_q s)) (q_store (ru_q s))) = None"
    using that e by (auto simp: qn_begin_def install_def Let_def update_conv' simp del: map_of_eq_Some_iff dest!: normalize_cases split: sum.splits option.splits if_splits)
  show ?thesis
    using True i k m
    by (auto simp: do_begin_def q_call_def noted_def Let_def keys_inv_def same_locks_def busy_def has_keys_def has_marker_def own_hold_def marker_owner_def simp del: map_of_eq_Some_iff split: option.splits)
qed (use i w in \<open>auto simp: do_begin_def noted_def keys_inv_def same_locks_def busy_def has_keys_def own_hold_def\<close>)

lemma keys_inv_work:
  assumes i: "keys_inv cfg s"
  shows "keys_inv cfg (work_step cfg a s)"
proof -
  consider "case ru_work s of W_reserve \<Rightarrow> False | W_claiming _ \<Rightarrow> False | W_recorded _ _ _ \<Rightarrow> False | W_begin \<Rightarrow> False | _ \<Rightarrow> True"
    | "ru_work s = W_reserve" | t where "ru_work s = W_claiming t" | t cr x where "ru_work s = W_recorded t cr x" | "ru_work s = W_begin"
    by (cases "ru_work s") auto
  then show ?thesis
  proof cases
    case 1
    have li: "lock_inv (q_table (ru_q (work_step cfg a s)))" using i work_keeps_lock_inv by (simp add: keys_inv_def)
    show ?thesis
    proof (cases "busy (ru_work (work_step cfg a s))")
      case True
      note f = work_keeps_run [OF 1 True]
      then show ?thesis using i by (auto simp: keys_inv_def has_keys_def has_marker_def own_hold_def marker_owner_def same_locks_def simp del: map_of_eq_Some_iff split: work_pc.splits)
    next
      case False
      then show ?thesis using li by (cases "ru_work (work_step cfg a s)") (auto simp: keys_inv_def same_locks_def busy_def)
    qed
  next
    case 2
    then show ?thesis using i keys_inv_reserve by (simp add: work_step_def keys_inv_def)
  next
    case 3
    then show ?thesis
      using i by (cases a) (auto simp: work_step_def do_claim_answer_def noted_def Let_def keys_inv_def same_locks_def busy_def has_keys_def own_hold_def same_set_iff)
  next
    case 4
    then show ?thesis using keys_inv_recorded [OF i] by (simp add: work_step_def)
  next
    case 5
    then show ?thesis using i keys_inv_begin [OF i] by (cases a) (simp_all add: work_step_def)
  qed
qed

lemma keys_inv_step:
  assumes i: "keys_inv cfg s" and m: "\<And>c. e = Ev_others c \<Longrightarrow> busy (ru_work s) \<Longrightarrow> others_may c s"
  shows "keys_inv cfg (run_step cfg e s)"
proof (cases e)
  case (Ev_work a)
  then show ?thesis using keys_inv_work [OF i] by (simp add: run_step_def)
next
  case (Ev_renew a)
  then show ?thesis using i by (simp add: run_step_def keys_inv_def has_keys_def has_marker_def own_hold_def marker_owner_def)
next
  case (Ev_others c)
  let ?s = "q_call cfg c s"
  have li: "lock_inv (q_table (ru_q s))" using i by (simp add: keys_inv_def)
  have k: "has_keys ?s" if b: "busy (ru_work s)"
  proof -
    from i b obtain k where k: "hold_of (q_table (ru_q s)) (ru_owner s) = Some k" "own_hold s = \<lparr>hd_owner = ru_owner s, hd_gen = hk_gen k\<rparr>"
      "ru_hold s < length (ls_handles (q_locks (ru_q s)))" "set (hk_keys k) = set (j_locks (ru_job s))" by (auto simp: keys_inv_def has_keys_def)
    from others_keep_hold [OF li k(1-3) m [OF Ev_others b], of "rg_sha cfg"] k show ?thesis
      by (simp add: has_keys_def q_call_def own_hold_def [of "ru_q_update f s" for f] del: qn_step.simps map_of_eq_Some_iff)
  qed
  have "has_marker ?s" if "ru_work s = W_run" "rg_guard cfg"
  proof -
    from that have b: "busy (ru_work s)" by (simp add: busy_def)
    from i that obtain r where r: "entry_of (q_store (ru_q s)) (marker_owner s) = Some r" "qr_live r" "set (qe_keys (qr_e r)) = set (j_locks (ru_job s))"
      by (auto simp: keys_inv_def has_marker_def)
    from others_keep_entry [OF li r(1,2) m [OF Ev_others b], of "rg_sha cfg"] r show ?thesis
      by (simp add: has_marker_def q_call_def marker_owner_def del: qn_step.simps map_of_eq_Some_iff)
  qed
  then show ?thesis using Ev_others i k lock_inv_call [OF li]
    by (simp add: run_step_def keys_inv_def q_call_def del: qn_step.simps)
qed (use i in \<open>auto simp: run_step_def keys_inv_def has_keys_def has_marker_def own_hold_def marker_owner_def\<close>)

lemma keys_inv_reached: "reached cfg s0 s \<Longrightarrow> keys_inv cfg s0 \<Longrightarrow> keys_inv cfg s"
  by (induction rule: reached.induct) (auto intro: keys_inv_step)


section \<open>Properties\<close>

lemma lock_inv_run: "lock_inv (q_table (qn_run sha cs (qn_start sha dir lnk files)))"
  by (induction cs rule: rev_induct) (simp_all add: qn_start_def lock_start_def lock_inv_new lock_inv_call del: qn_step.simps)

lemma keys_inv_start: "lock_inv (q_table q) \<Longrightarrow> keys_inv cfg (run_start now q c)"
  by (simp add: keys_inv_def run_start_def busy_def same_locks_def)

lemma has_keys_holder:
  assumes "has_keys s" "lock_inv (q_table (ru_q s))"
  shows "{k. holder (q_table (ru_q s)) k = Some (ru_owner s)} = set (j_locks (ru_job s))"
proof -
  have "holds_keys (q_table (ru_q s)) (ru_owner s) (j_locks (ru_job s))" using assms(1) by (auto simp: has_keys_def holds_keys_def)
  from holds_keys_holder [OF assms(2) this] show ?thesis by (simp only: holder_def)
qed

lemma reached_events: "list_all (\<lambda>e. \<forall>c. e \<noteq> Ev_others c) es \<Longrightarrow> reached cfg s0 (run_events cfg es s0)"
  by (induction es rule: rev_induct) (auto intro: reached_start reached_step)

text \<open>
  a command that may be running has its keys and its marker. Whatever others do with the lock
  table and the markers meanwhile (late releases of older holds of the same job, other jobs, sweeps and
  clearings that looked before), the owner of the job holds exactly the keys of the job the origin
  gave, and on a host with the guard the store has an entry with those keys that says it is running.
\<close>

theorem command_has_its_keys_and_marker:
  assumes "q = qn_run sha cs (qn_start sha dir lnk files)" and "reached cfg (run_start now q c) s" and "ru_work s = W_run"
  shows "{k. holder (q_table (ru_q s)) k = Some (ru_owner s)} = set (j_locks (ru_job s))
    \<and> (rg_guard cfg \<longrightarrow> (\<exists>r. entry_of (q_store (ru_q s)) (marker_owner s) = Some r \<and> qr_live r \<and> set (qe_keys (qr_e r)) = set (j_locks (ru_job s))))"
proof -
  have i: "keys_inv cfg s" using keys_inv_reached [OF assms(2) keys_inv_start] lock_inv_run assms(1) by simp
  then have "has_keys s" "lock_inv (q_table (ru_q s))" "rg_guard cfg \<Longrightarrow> has_marker s" using assms(3) by (simp_all add: keys_inv_def busy_def)
  then show ?thesis using has_keys_holder has_marker_def by blast
qed

text \<open>The example, with the release of a hold that is long gone, and another job's keys, while the command runs.\<close>

lemma sample_running:
  "ru_work (run_events sample_cfg sample_started sample_runner) = W_run"
  "ru_q (run_events sample_cfg sample_started sample_runner) =
     qn_run sample_sha [Q_lock (Reserve ''a/j1'' [''db'']), Q_lock (Finish ''a/j1'' 0 RecordOk),
       Q_begin 8 \<lparr>qe_owner = ''a/j1'', qe_job_id = ''j1'', qe_origin = ''a'', qe_claim_id = ''c1'', qe_dir = ''/w/h1'', qe_keys = [''db''],
         qe_unit = ''wwd-22-j1'', qe_since = Some 7\<rparr> True] (qn_start sample_sha ''/w'' (Some ''/w'') [])"
  "ru_owner (run_events sample_cfg sample_started sample_runner) = ''a/j1''" "marker_owner (run_events sample_cfg sample_started sample_runner) = ''a/j1''"
  "j_locks (ru_job (run_events sample_cfg sample_started sample_runner)) = [''db'']"
  by code_simp+

abbreviation sample_started_state :: runner_state where
  "sample_started_state \<equiv> run_events sample_cfg sample_started sample_runner"

lemma sample_reached: "reached sample_cfg sample_runner sample_started_state"
  by (rule reached_events) (simp add: sample_started_def)

theorem command_has_its_keys_and_marker_witness:
  "reached sample_cfg sample_runner (run_step sample_cfg (Ev_others (Q_lock (Reserve ''b/j2'' [''gpu'']))) sample_started_state)
   \<and> {k. holder (q_table (ru_q (run_step sample_cfg (Ev_others (Q_lock (Reserve ''b/j2'' [''gpu'']))) sample_started_state))) k = Some ''a/j1''} = {''db''}"
proof -
  let ?s = "run_step sample_cfg (Ev_others (Q_lock (Reserve ''b/j2'' [''gpu'']))) sample_started_state"
  have r: "reached sample_cfg sample_runner ?s" by (rule reached_step [OF sample_reached]) (simp add: others_may_def)
  have w: "ru_work ?s = W_run" "ru_owner ?s = ''a/j1''" "set (j_locks (ru_job ?s)) = {''db''}" by (simp_all add: run_step_def q_call_def sample_running)
  show ?thesis
    using command_has_its_keys_and_marker [where q = "qn_start sample_sha ''/w'' (Some ''/w'') []" and cs = "[]" and now = 0
        and c = "\<lparr>cd_source = ''a'', cd_zone = ZoneNormal, cd_job = sample_locked_job\<rparr>", folded sample_runner_def, OF _ r w(1)] r w(2,3) by simp
qed

text \<open>
  a process that dies while a command may be running leaves it to the next one. A new process
  that opens the marker directory at that moment has an entry for the job, not a running one, with
  exactly the keys of the job.
\<close>

theorem dying_process_leaves_the_marker:
  assumes "q = qn_run (rg_sha cfg) cs (qn_start (rg_sha cfg) dir lnk files)" and "reached cfg (run_start now q c) s" and "ru_work s = W_run" "rg_guard cfg"
    and "qn_history (rg_sha cfg) W files cs'" and "ru_q s = qn_run (rg_sha cfg) cs' (qn_start (rg_sha cfg) dir lnk files)"
  shows "\<exists>r. entry_of (open_store (rg_sha cfg) dir' lnk' (st_files (q_store (ru_q s)))) (marker_owner s) = Some r \<and> \<not> qr_live r
    \<and> set (qe_keys (qr_e r)) = set (j_locks (ru_job s))"
proof -
  let ?st = "open_store (rg_sha cfg) dir' lnk' (st_files (q_store (ru_q s)))"
  have "keys_inv cfg s" using keys_inv_reached [OF assms(2) keys_inv_start] lock_inv_run assms(1) by simp
  then obtain r where r: "entry_of (q_store (ru_q s)) (marker_owner s) = Some r" "set (qe_keys (qr_e r)) = set (j_locks (ru_job s))"
    using assms(3,4) by (auto simp: keys_inv_def has_marker_def)
  obtain n where "qn_inv (rg_sha cfg) W n (ru_q s)" using qn_inv_history [OF assms(5)] assms(6) by metis
  then have "map_option qr_e (entry_of ?st (marker_owner s)) = map_option qr_e (entry_of (q_store (ru_q s)) (marker_owner s))"
    using reopen_entries [of "rg_sha cfg" W "q_store (ru_q s)" dir' lnk' "marker_owner s"] assms(5) by (simp add: qn_inv_def qn_history_def)
  then obtain r' where "entry_of ?st (marker_owner s) = Some r'" "qr_e r' = qr_e r" using r(1) by auto
  then show ?thesis using r(2) open_not_live by metis
qed

theorem dying_process_leaves_the_marker_witness:
  "\<exists>r. entry_of (open_store sample_sha ''/w'' (Some ''/w'') (st_files (q_store (ru_q sample_started_state)))) ''a/j1'' = Some r \<and> \<not> qr_live r
     \<and> set (qe_keys (qr_e r)) = {''db''}"
proof -
  have h: "qn_history sample_sha {''a/j1'', ''a/j2''} [] [Q_lock (Reserve ''a/j1'' [''db'']), Q_lock (Finish ''a/j1'' 0 RecordOk),
       Q_begin 8 \<lparr>qe_owner = ''a/j1'', qe_job_id = ''j1'', qe_origin = ''a'', qe_claim_id = ''c1'', qe_dir = ''/w/h1'', qe_keys = [''db''],
         qe_unit = ''wwd-22-j1'', qe_since = Some 7\<rparr> True]"
    using sample_history by (simp add: qn_history_def call_owner_in_def)
  have s: "rg_sha sample_cfg = sample_sha" "rg_guard sample_cfg" by (simp_all add: sample_cfg_def)
  show ?thesis
    using dying_process_leaves_the_marker [where cfg = sample_cfg and cs = "[]" and files = "[]" and dir = "''/w''" and lnk = "Some ''/w''"
        and dir' = "''/w''" and lnk' = "Some ''/w''" and q = "qn_start sample_sha ''/w'' (Some ''/w'') []" and now = 0
        and c = "\<lparr>cd_source = ''a'', cd_zone = ZoneNormal, cd_job = sample_locked_job\<rparr>",
        folded sample_runner_def, unfolded s(1), OF _ sample_reached sample_running(1) s(2) h sample_running(2)]
    by (simp add: sample_running(4,5))
qed


end
