(* ===== verification/RunnerEnding.thy ===== *)
theory RunnerEnding
  imports RunnerLease
begin

text \<open>
  How a job ends (\<open>worker/runner\<close>): one that was stopped is not started, what \<open>Finish\<close> is told and
  that it is told once, and what the reason of a stop can become while the ending is worked out.
\<close>

section \<open>A job that was stopped\<close>

abbreviation times :: "action \<Rightarrow> runner_state \<Rightarrow> nat" where
  "times a s \<equiv> count_list (ru_log s) a"

lemma renew_log: "times Act_run (renew_step cfg a s) = times Act_run s \<and> times Act_start (renew_step cfg a s) = times Act_start s"
  by (cases "ru_renew s"; simp only: renew_step_def renew_pc.case) (simp_all add: renew_defs split: step_splits)

lemma stop_stays:
  "ru_stop s \<noteq> StopNone \<Longrightarrow> ru_stop (work_step cfg a s) \<noteq> StopNone" "ru_stop s \<noteq> StopNone \<Longrightarrow> ru_stop (renew_step cfg b s) \<noteq> StopNone"
  by (cases "ru_work s"; simp only: work_step_def work_pc.case; simp add: work_defs split: step_splits)
    (cases "ru_renew s"; simp only: renew_step_def renew_pc.case; simp add: renew_defs split: step_splits)

lemma stopped_work:
  assumes "ru_stop s \<noteq> StopNone" "ru_work s \<noteq> W_begin"
  shows "ru_work (work_step cfg a s) \<noteq> W_begin \<and> times Act_run (work_step cfg a s) = times Act_run s
    \<and> (ru_work s \<noteq> W_sending \<longrightarrow> ru_work (work_step cfg a s) \<noteq> W_sending \<and> times Act_start (work_step cfg a s) = times Act_start s)"
  using assms by (cases "ru_work s"; simp only: work_step_def work_pc.case) (simp_all add: work_defs split: step_splits)

lemma stopped_step:
  assumes "ru_stop s \<noteq> StopNone" "ru_work s \<noteq> W_begin"
  shows "ru_stop (run_step cfg e s) \<noteq> StopNone \<and> ru_work (run_step cfg e s) \<noteq> W_begin \<and> times Act_run (run_step cfg e s) = times Act_run s
    \<and> (ru_work s \<noteq> W_sending \<longrightarrow> ru_work (run_step cfg e s) \<noteq> W_sending \<and> times Act_start (run_step cfg e s) = times Act_start s)"
  using assms stopped_work [OF assms, of cfg] stop_stays [OF assms(1), of cfg] renew_log [of cfg _ s]
  by (cases e) (simp_all add: run_step_def q_call_def)

section \<open>The one ending\<close>

abbreviation acts :: "runner_state \<Rightarrow> action list" where
  "acts s \<equiv> filter (\<lambda>a. a \<noteq> Act_heartbeat) (ru_log s)"

definition ending :: "action \<Rightarrow> bool" where
  "ending a = (case a of Act_finish _ \<Rightarrow> True | Act_cleanup _ \<Rightarrow> True | _ \<Rightarrow> False)"

definition ending_told :: "run_ended \<Rightarrow> runner_state \<Rightarrow> bool" where
  "ending_told e s \<longleftrightarrow> en_run e = ru_res s \<and> en_quarantined e = ru_quarantined s \<and> en_root e = ws_dir (ru_ws s) \<and> en_job e = ru_job s \<and> en_claim_id e = ru_claim_id s"

definition cleaned :: "runner_state \<Rightarrow> action list" where
  "cleaned s = (if ws_cleanup (ru_ws s) \<and> \<not> ru_quarantined s then [Act_cleanup (ws_dir (ru_ws s))] else [])"

fun stage :: "work_pc \<Rightarrow> nat" where
  "stage W_lost = 1" | "stage W_cancelled = 1" | "stage W_reclaimed = 1" | "stage W_shutdown = 1" | "stage (W_finish _ _) = 1"
| "stage W_finishing = 2" | "stage W_finished = 2" | "stage W_cleanup = 2" | "stage W_wait = 3" | "stage W_returned = 4"
| "stage _ = 0"

definition log_inv :: "runner_state \<Rightarrow> bool" where
  "log_inv s \<longleftrightarrow> (Act_run \<notin> set (ru_log s) \<longrightarrow> ru_res s = zero_run \<and> ru_work s \<noteq> W_run)
     \<and> (stage (ru_work s) \<noteq> 0 \<and> ru_renew s \<noteq> R_none \<longrightarrow> ru_quarantined s = unproven (ru_res s))
     \<and> (stage (ru_work s) \<le> 1 \<or> ru_renew s = R_none \<longrightarrow> \<not> list_ex ending (acts s))
     \<and> (stage (ru_work s) = 2 \<longrightarrow> (\<exists>pre e. acts s = pre @ [Act_finish e] \<and> \<not> list_ex ending pre \<and> ending_told e s))
     \<and> (stage (ru_work s) \<ge> 3 \<and> ru_renew s \<noteq> R_none \<longrightarrow> (\<exists>pre e. acts s = pre @ Act_finish e # cleaned s \<and> \<not> list_ex ending pre \<and> ending_told e s))"

lemmas log_defs = log_inv_def ending_told_def cleaned_def

text \<open>What the ending depends on is not touched by the renewing goroutine, nor by others.\<close>

lemma log_inv_cong:
  assumes "log_inv s" "acts t = acts s" "ru_res t = ru_res s" "ru_work t = ru_work s" "ru_renew t = R_none \<longleftrightarrow> ru_renew s = R_none"
    "ru_quarantined t = ru_quarantined s" "ru_ws t = ru_ws s" "ru_job t = ru_job s" "ru_claim_id t = ru_claim_id s"
  shows "log_inv t"
proof -
  have "Act_run \<in> set (ru_log t) \<longleftrightarrow> Act_run \<in> set (ru_log s)"
    using arg_cong [OF assms(2), of "\<lambda>l. Act_run \<in> set l"] by simp
  moreover have "ending_told e t = ending_told e s" "cleaned t = cleaned s" for e using assms by (simp_all add: ending_told_def cleaned_def)
  ultimately show ?thesis using assms unfolding log_inv_def by simp
qed

lemma renew_keeps_ending:
  "acts (renew_step cfg a s) = acts s" "ru_res (renew_step cfg a s) = ru_res s" "ru_renew (renew_step cfg a s) = R_none \<longleftrightarrow> ru_renew s = R_none"
  "ru_quarantined (renew_step cfg a s) = ru_quarantined s" "ru_ws (renew_step cfg a s) = ru_ws s" "ru_claim_id (renew_step cfg a s) = ru_claim_id s"
  by (cases "ru_renew s"; simp only: renew_step_def renew_pc.case; simp add: renew_defs split: step_splits)+

lemma log_inv_renew: "log_inv s \<Longrightarrow> log_inv (renew_step cfg a s)"
  by (erule log_inv_cong) (simp_all add: renew_keeps_ending)

text \<open>The work up to the end of the command tells nobody.\<close>

lemma early_work:
  assumes "stage (ru_work s) = 0"
  shows "list_ex ending (acts (work_step cfg a s)) = list_ex ending (acts s)"
    and "Act_run \<in> set (ru_log s) \<longrightarrow> Act_run \<in> set (ru_log (work_step cfg a s))"
    and "ru_work s \<noteq> W_run \<longrightarrow> ru_res (work_step cfg a s) = ru_res s"
    and "ru_work (work_step cfg a s) = W_run \<longrightarrow> ru_work s \<noteq> W_run \<longrightarrow> Act_run \<in> set (ru_log (work_step cfg a s))"
    and "stage (ru_work (work_step cfg a s)) \<noteq> 0 \<longrightarrow> stage (ru_work (work_step cfg a s)) \<noteq> 1 \<longrightarrow> unclaimed (ru_work s) \<and> ru_renew (work_step cfg a s) = ru_renew s \<and> stage (ru_work (work_step cfg a s)) = 4"
    and "stage (ru_work (work_step cfg a s)) = 1 \<longrightarrow> ru_quarantined (work_step cfg a s) = unproven (ru_res (work_step cfg a s))"
  using assms by (cases "ru_work s"; simp only: work_step_def work_pc.case; simp add: work_defs ending_def unclaimed_def split: step_splits)+

lemma log_inv_early:
  assumes i: "log_inv s" "call_inv s" and z: "stage (ru_work s) = 0"
  shows "log_inv (work_step cfg a s)"
proof -
  let ?t = "work_step cfg a s"
  note f = early_work [OF z, of cfg a]
  have n: "\<not> list_ex ending (acts ?t)" using i(1) z f(1) by (simp add: log_inv_def)
  have r: "Act_run \<in> set (ru_log ?t) \<or> ru_res ?t = zero_run \<and> ru_work ?t \<noteq> W_run"
    using i(1) f(2,3,4) by (cases "ru_work s = W_run") (auto simp: log_inv_def)
  show ?thesis
  proof (cases "stage (ru_work ?t) \<le> 1")
    case True
    then have "ru_quarantined ?t = unproven (ru_res ?t)" if "stage (ru_work ?t) \<noteq> 0" using f(6) that by linarith
    then show ?thesis using True n r unfolding log_inv_def by auto
  next
    case False
    then have "ru_renew ?t = R_none" "stage (ru_work ?t) \<noteq> 2" "stage (ru_work ?t) > 1" using f(5) i(2) by (simp_all add: call_inv_def)
    then show ?thesis using n r unfolding log_inv_def by auto
  qed
qed

lemma log_inv_late:
  assumes i: "log_inv s" "call_inv s" and g: "rg_finish cfg" and z: "stage (ru_work s) \<noteq> 0"
  shows "log_inv (work_step cfg a s)"
proof (cases "ru_work s")
  case (W_finish k e)
  then have "ru_renew s \<noteq> R_none" using i by (auto simp: call_inv_defs)
  then show ?thesis
    using i g W_finish by (auto simp: work_step_def do_finish_def noted_def Let_def log_defs mk_ended_def ending_def)
next
  case W_cleanup
  then have r: "ru_renew s \<noteq> R_none" using i by (auto simp: call_inv_defs)
  from W_cleanup obtain pre e where "acts s = pre @ [Act_finish e]" "\<not> list_ex ending pre" "ending_told e s" using i by (auto simp: log_inv_def)
  then show ?thesis using i W_cleanup r by (auto simp: work_step_def do_cleanup_def noted_def log_defs)
next
  case W_wait
  then show ?thesis using i by (auto simp: work_step_def do_wait_def q_call_def Let_def log_defs)
qed (use i z in \<open>auto simp: work_step_def do_kind_lost_def do_kind_cancelled_def do_kind_reclaimed_def do_kind_shutdown_def do_finished_def log_defs split: option.splits prod.splits\<close>)

lemma log_inv_start: "log_inv (run_start now q c)"
  by (simp add: log_inv_def run_start_def)

lemma log_inv_step: "log_inv s \<Longrightarrow> call_inv s \<Longrightarrow> rg_finish cfg \<Longrightarrow> log_inv (run_step cfg e s)"
proof (cases e)
  case (Ev_work a)
  assume "log_inv s" "call_inv s" "rg_finish cfg"
  then show ?thesis using Ev_work log_inv_early [of s cfg a] log_inv_late [of s cfg a] by (cases "stage (ru_work s) = 0") (simp_all add: run_step_def)
qed (auto simp: run_step_def q_call_def renew_keeps_ending elim!: log_inv_cong)

section \<open>Properties\<close>

text \<open>
  a job that was stopped is not started. From the moment a reason to stop is recorded (the owner
  wants the machine, the origin cancelled, the lease is lost), wherever the job is, its command is not
  run any more unless it was about to be, and the origin is not asked to start it unless that call was
  about to be made; whatever follows.
\<close>

theorem stopped_job_is_not_started:
  assumes "ru_stop s \<noteq> StopNone" and "ru_work s \<noteq> W_begin" and "s' = run_events cfg es s"
  shows "times Act_run s' = times Act_run s \<and> (ru_work s \<noteq> W_sending \<longrightarrow> times Act_start s' = times Act_start s)"
proof -
  have "ru_stop s' \<noteq> StopNone \<and> ru_work s' \<noteq> W_begin \<and> times Act_run s' = times Act_run s
      \<and> (ru_work s \<noteq> W_sending \<longrightarrow> ru_work s' \<noteq> W_sending \<and> times Act_start s' = times Act_start s)"
    unfolding assms(3)
  proof (induction es rule: rev_induct)
    case (snoc e es)
    then show ?case using stopped_step [of "run_events cfg es s" cfg e] by auto
  qed (use assms in simp)
  then show ?thesis by blast
qed

text \<open>The origin cancels while the workspace is made; the job gets to its end without a start.\<close>

definition sample_cancelled :: "run_event list" where
  "sample_cancelled = take 6 sample_started @ [Ev_tick 200, Ev_renew B_timer, Ev_renew B_go, Ev_renew B_go, Ev_renew B_go, Ev_renew B_go,
     Ev_renew (B_ok 205 60 20 True), Ev_renew B_go]"

definition sample_rest :: "run_event list" where
  "sample_rest = [Ev_work (A_made (Inr \<lparr>ws_dir = ''/w/h1/ws'', ws_cleanup = True\<rparr>)), Ev_work A_go, Ev_work A_go, Ev_work A_go, Ev_work A_go, Ev_work A_go]"

theorem stopped_job_is_not_started_witness:
  "let s = run_events sample_cfg sample_cancelled sample_runner in
   ru_stop s = StopCancelled \<and> ru_work s = W_materialize \<and> times Act_start (run_events sample_cfg sample_rest s) = 0"
proof -
  let ?s = "run_events sample_cfg sample_cancelled sample_runner"
  have s: "ru_stop ?s = StopCancelled" "ru_work ?s = W_materialize" "times Act_start ?s = 0" by code_simp+
  show ?thesis using stopped_job_is_not_started [of ?s _ sample_cfg sample_rest] s by (simp add: Let_def)
qed

text \<open>
  a claimed job has one ending. When it is over, \<open>Finish\<close> was called once, with how the command
  ended (nothing when none ran) and under the claim the origin gave; the call came after everything
  else, and only the workspace was removed after it, which is left in place exactly when the command
  is not proven gone.
\<close>

theorem finish_is_told_once:
  assumes "rg_finish cfg" and "s = run_events cfg es (run_start now q c)" and "running_done s" "running_claimed s"
  shows "\<exists>pre e. acts s = pre @ Act_finish e # (if ws_cleanup (ru_ws s) \<and> \<not> unproven (en_run e) then [Act_cleanup (en_root e)] else [])
    \<and> \<not> list_ex ending pre \<and> (Act_run \<in> set pre \<or> en_run e = zero_run) \<and> en_quarantined e = unproven (en_run e) \<and> en_claim_id e = ru_claim_id s"
proof -
  have "call_inv s \<and> log_inv s"
    unfolding assms(2) by (induction es rule: rev_induct) (simp_all add: call_inv_start call_inv_step log_inv_step log_inv_start assms(1))
  then have i: "log_inv s" ..
  have st: "stage (ru_work s) = 4" "ru_renew s \<noteq> R_none" using assms(3,4) by (simp_all add: running_done_def running_claimed_def)
  then obtain pre e where a: "acts s = pre @ Act_finish e # cleaned s" "\<not> list_ex ending pre" "ending_told e s" and q: "ru_quarantined s = unproven (ru_res s)"
    using i by (auto simp: log_inv_def)
  have "Act_run \<in> set (acts s) \<longleftrightarrow> Act_run \<in> set pre" using a(1) by (auto simp: cleaned_def)
  then have "Act_run \<in> set pre \<or> ru_res s = zero_run" using i by (auto simp: log_inv_def)
  then show ?thesis using a q by (intro exI [of _ pre] exI [of _ e]) (auto simp: ending_told_def cleaned_def)
qed


definition sample_run_result :: run_result where
  "sample_run_result = zero_run\<lparr>rn_outcome := ''exited''\<rparr>"

definition sample_done :: "run_event list" where
  "sample_done = sample_started @ [Ev_work (A_ran sample_run_result), Ev_work (A_dropped Removed)] @ replicate 9 (Ev_work A_go) @ [Ev_renew B_done, Ev_work A_go]"

theorem finish_is_told_once_witness:
  "let s = run_events sample_cfg sample_done sample_runner in running_done s \<and> running_claimed s \<and>
   (\<exists>pre e. acts s = pre @ Act_finish e # (if ws_cleanup (ru_ws s) \<and> \<not> unproven (en_run e) then [Act_cleanup (en_root e)] else []) \<and> en_claim_id e = ''c1'')"
proof -
  let ?s = "run_events sample_cfg sample_done sample_runner"
  have s: "running_done ?s" "running_claimed ?s" "ru_claim_id ?s = ''c1''" by code_simp+
  have f: "rg_finish sample_cfg" by (simp add: sample_cfg_def)
  from finish_is_told_once [where s = ?s and now = 0 and q = "qn_start sample_sha ''/w'' (Some ''/w'') []"
      and c = "\<lparr>cd_source = ''a'', cd_zone = ZoneNormal, cd_job = sample_locked_job\<rparr>", folded sample_runner_def, OF f refl s(1,2)]
  show ?thesis using s(1,2) unfolding Let_def s(3) [symmetric] by blast
qed

text \<open>
  When nothing happens while the ending is worked out, \<open>Finish\<close> is told the highest reason: a lost
  lease, else a cancel, else a reclaim, else the end of the worker, else what the work came to.
\<close>

lemma kind_undisturbed:
  assumes "ru_work s = W_lost" and "\<forall>e. ru_err s = Some e \<longrightarrow> \<not> tr_stale e"
  shows "\<exists>n \<le> 4. ((work_step cfg A_go) ^^ n) s = s\<lparr>ru_work :=
     (case ru_stop s of StopLost \<Rightarrow> W_finish KindLost None | StopCancelled \<Rightarrow> W_finish KindCancelled None | StopReclaim \<Rightarrow> W_finish KindReclaimed None
      | StopNone \<Rightarrow> if ru_ctx_ended s then W_finish KindShutdown None else case kind_left (ru_err s) of (k, e) \<Rightarrow> W_finish k e)\<rparr>"
proof -
  note steps = work_step_def do_kind_lost_def do_kind_cancelled_def do_kind_reclaimed_def do_kind_shutdown_def
  have stale: "\<not> (case ru_err s of None \<Rightarrow> False | Some e \<Rightarrow> tr_stale e)" using assms(2) by (auto split: option.splits)
  show ?thesis
  proof (cases "ru_stop s")
    case StopLost
    then show ?thesis using assms(1) by (intro exI [of _ 1]) (simp add: steps)
  next
    case StopCancelled
    then show ?thesis using assms(1) stale by (intro exI [of _ 2]) (simp add: steps numeral_2_eq_2)
  next
    case StopReclaim
    then show ?thesis using assms(1) stale by (intro exI [of _ 3]) (simp add: steps numeral_3_eq_3)
  next
    case StopNone
    then show ?thesis using assms(1) stale by (intro exI [of _ 4]) (simp add: steps numeral_eq_Suc split: prod.splits)
  qed
qed

text \<open>
  But each case looks at the reason anew. A reclaim that becomes a cancel between the look for a cancel
  and the look for a reclaim is missed by both: \<open>Finish\<close> is told that the command ran, when none did,
  and the job goes back as an infrastructure failure.
\<close>

definition sample_race :: "run_event list" where
  "sample_race = take 6 sample_started @ [Ev_reclaim, Ev_reclaim_end, Ev_work (A_made (Inr \<lparr>ws_dir = ''/w/h1/ws'', ws_cleanup = True\<rparr>)),
     Ev_work A_go, Ev_work A_go, Ev_work A_go, Ev_work A_go,
     Ev_tick 200, Ev_renew B_timer, Ev_renew B_go, Ev_renew B_go, Ev_renew B_go, Ev_renew B_go, Ev_renew (B_ok 205 60 20 True), Ev_renew B_go,
     Ev_work A_go, Ev_work A_go, Ev_work A_go]"

theorem reclaim_then_cancel_is_told_as_ran:
  "\<exists>s e. s = run_events sample_cfg sample_race sample_runner \<and> last (acts s) = Act_finish e \<and> en_kind e = KindRan \<and> Act_run \<notin> set (ru_log s)
     \<and> ru_stop s = StopCancelled \<and> run_verdict (en_run e) = None"
proof -
  let ?s = "run_events sample_cfg sample_race sample_runner"
  have a: "(case last (acts ?s) of Act_finish e \<Rightarrow> en_kind e = KindRan \<and> run_verdict (en_run e) = None | _ \<Rightarrow> False)"
    and b: "list_all (\<lambda>a. a \<noteq> Act_run) (ru_log ?s)" and c: "ru_stop ?s = StopCancelled" by code_simp+
  from a obtain e where "last (acts ?s) = Act_finish e" "en_kind e = KindRan" "run_verdict (en_run e) = None"
    by (auto split: action.splits)
  then show ?thesis using b c by (intro exI [of _ ?s] exI [of _ e]) (auto simp: list_all_iff)
qed


end
