(* ===== verification/Loop.thy ===== *)
theory Loop
  imports Runner
begin

text \<open>
  The worker's loop (package \<open>worker/loop\<close>): one round, which follows the owner, counts the heavy
  slots, reads and ranks the queues, leaves jobs to faster hosts, claims one and records what waits;
  the sweep; and the ending of a job, which writes its quarantine marker before anything is given back.
  Times are nanoseconds; the times of facts and jobs are milliseconds, as they are recorded. What the
  round reads (settings, facts, queues, locks, holds, peers, clock) and what its calls answer is one
  argument. The claiming itself is the theory of the runner: here a try is taken or not.
\<close>

section \<open>Configuration\<close>

record loop_cfg =
  lc_reserve :: bool \<comment> \<open>\<open>Reserve\<close> is set\<close>
  lc_facts :: bool \<comment> \<open>\<open>Facts\<close> is set\<close>
  lc_report :: "report_config option"
  lc_warm :: "(job \<Rightarrow> bool) option"
  lc_speed_factor :: float64
  lc_estimate :: "(job \<Rightarrow> float64) option"
  lc_explicit_labels_only :: bool
  lc_peers :: bool \<comment> \<open>\<open>Peers\<close> is set\<close>
  lc_defer_patience :: int
  lc_sweepers :: nat
  lc_quarantine :: bool
  lc_sandboxed :: bool
  lc_guarded :: bool
  lc_usage :: bool
  lc_sweep_every :: int
  lc_marker_retry :: int
  lc_facts_max_age :: int
  lc_interval :: int
  lc_settle :: int
  lc_waiting_every :: int
  lc_stop_timeout :: int
  lc_shutdown_grace :: int
  lc_max_tries :: int

definition or_default :: "int \<Rightarrow> int \<Rightarrow> int" where
  "or_default d x = (if x \<le> 0 then d else x)"

definition new_loop_cfg :: "loop_cfg \<Rightarrow> loop_cfg" where
  "new_loop_cfg c = c\<lparr>
     lc_interval := or_default (2 * seconds) (lc_interval c), lc_waiting_every := or_default (10 * seconds) (lc_waiting_every c),
     lc_facts_max_age := or_default (6 * sample_interval_s * seconds) (lc_facts_max_age c),
     lc_settle := or_default (2 * sample_interval_s * seconds) (lc_settle c), lc_marker_retry := or_default (5 * seconds) (lc_marker_retry c),
     lc_sweep_every := or_default (60 * seconds) (lc_sweep_every c), lc_stop_timeout := or_default (60 * seconds) (lc_stop_timeout c),
     lc_shutdown_grace := or_default (30 * seconds) (lc_shutdown_grace c), lc_max_tries := or_default 8 (lc_max_tries c)\<rparr>"

record worker_settings =
  wk_enabled :: bool
  wk_slots :: slots
  wk_owner_rule :: string

section \<open>State\<close>

text \<open>A job of one origin's queue, \<open>deferKey\<close>. A zero time is \<open>None\<close>.\<close>

type_synonym defer_key = "string \<times> string"

record worker_loop =
  lp_y :: "yielder option"
  lp_owner_rule :: bool
  lp_deferred :: "(defer_key \<times> int) list"
  lp_running :: "string list"
  lp_last_claim :: "int option"
  lp_last_sweep :: "int option"
  lp_waiting :: "waiting option"
  lp_first_seen :: "(defer_key \<times> int) list"
  lp_last_look :: "int option"

definition new_loop :: worker_loop where
  "new_loop = \<lparr>lp_y = None, lp_owner_rule = False, lp_deferred = [], lp_running = [], lp_last_claim = None, lp_last_sweep = None,
     lp_waiting = None, lp_first_seen = [], lp_last_look = None\<rparr>"

definition cand_key :: "candidate \<Rightarrow> defer_key" where
  "cand_key c = (cd_source c, j_id (cd_job c))"

abbreviation scored_key :: "scored \<Rightarrow> defer_key" where
  "scored_key e \<equiv> cand_key (sc_candidate e)"

definition running_key :: "scored \<Rightarrow> string" where
  "running_key e = cd_source (sc_candidate e) @ ''/'' @ j_id (sc_job e)"

text \<open>One origin: its host id, the host its reader names, what the reader answers, and its zone, if it has one.\<close>

record loop_origin =
  og_host :: string
  og_reader :: string
  og_answer :: "string + job list"
  og_zone :: "zone option"

text \<open>Where a round reads the clock.\<close>

datatype clock_read = Now_owner | Now_age | Now_look | Now_rank | Now_note | Now_claim | Now_note_claimed

record round_input =
  ro_ctx_ended :: bool
  ro_settings :: worker_settings
  ro_clock :: "clock_read \<Rightarrow> int"
  ro_facts :: "facts option"
  ro_done :: "string \<Rightarrow> bool" \<comment> \<open>running jobs that are over\<close>
  ro_held :: "qn_entry list"
  ro_origins :: "loop_origin list"
  ro_host_labels :: "string list"
  ro_locks :: lock_table
  ro_reporter :: reporter
  ro_report_now :: int
  ro_peers :: "peer list"
  ro_reserved :: bool
  ro_try_ended :: "nat \<Rightarrow> bool" \<comment> \<open>the context has ended before this try\<close>
  ro_try_facts :: "nat \<Rightarrow> facts option"
  ro_claimed :: "nat \<Rightarrow> bool"

section \<open>Slots\<close>

definition prune :: "(string \<Rightarrow> bool) \<Rightarrow> worker_loop \<Rightarrow> worker_loop" where
  "prune over l = l\<lparr>lp_running := filter (\<lambda>k. \<not> over k) (lp_running l)\<rparr>"

definition slot_count :: "loop_cfg \<Rightarrow> qn_entry list \<Rightarrow> worker_loop \<Rightarrow> int" where
  "slot_count cfg held l =
     int (length (lp_running l)) + (if lc_quarantine cfg then int (length (filter (\<lambda>e. qe_owner e \<notin> set (lp_running l)) held)) else 0)"

definition loop_running :: "loop_cfg \<Rightarrow> (string \<Rightarrow> bool) \<Rightarrow> qn_entry list \<Rightarrow> worker_loop \<Rightarrow> int \<times> worker_loop" where
  "loop_running cfg over held l = (slot_count cfg held (prune over l), prune over l)"

section \<open>Leaving a job to a faster host\<close>

definition forget_gone :: "candidate list \<Rightarrow> (string \<rightharpoonup> string) \<Rightarrow> worker_loop \<Rightarrow> worker_loop" where
  "forget_gone cands errs l =
     l\<lparr>lp_deferred := filter (\<lambda>kt. fst kt \<in> set (map cand_key cands) \<or> errs (fst (fst kt)) \<noteq> None) (lp_deferred l)\<rparr>"

text \<open>The closure \<open>env.Faster\<close>: its answer, and what it notes.\<close>

definition leaves :: "loop_cfg \<Rightarrow> peer list \<Rightarrow> int \<Rightarrow> (defer_key \<times> int) list \<Rightarrow> candidate \<Rightarrow> bool" where
  "leaves cfg peers now deferred c =
     (case map_of deferred (cand_key c) of
        Some first \<Rightarrow> if now - first \<ge> lc_defer_patience cfg then False
                     else faster_host (cd_job c) (lc_speed_factor cfg) peers now (lc_defer_patience cfg) \<noteq> None
      | None \<Rightarrow> faster_host (cd_job c) (lc_speed_factor cfg) peers now (lc_defer_patience cfg) \<noteq> None)"

definition note_deferred :: "int \<Rightarrow> candidate \<Rightarrow> (defer_key \<times> int) list \<Rightarrow> (defer_key \<times> int) list" where
  "note_deferred now c m = (case map_of m (cand_key c) of Some _ \<Rightarrow> m | None \<Rightarrow> AList.update (cand_key c) now m)"

text \<open>The candidates \<open>Rank\<close> asks the closure about are those no earlier condition leaves out; it asks in their order.\<close>

definition asked :: "pick_env \<Rightarrow> candidate \<Rightarrow> bool" where
  "asked env c = (let j = cd_job c in
     j_state j = StateQueued \<and> eligible (j_labels j) (en_labels env) (en_explicit_labels_only env)
     \<and> \<not> asks (en_locked env) (j_locks j)
     \<and> \<not> (case en_suspended env of None \<Rightarrow> False | Some f \<Rightarrow> f (cd_source c) (repo_name (j_repo j)))
     \<and> \<not> (case en_held_off env of None \<Rightarrow> False | Some f \<Rightarrow> f (cd_source c) (j_id j))
     \<and> \<not> (case en_task_held env of None \<Rightarrow> False | Some f \<Rightarrow> f (cd_source c) (repo_name (j_repo j)) (j_task j)))"

definition ask_faster :: "loop_cfg \<Rightarrow> peer list \<Rightarrow> int \<Rightarrow> pick_env \<Rightarrow> candidate \<Rightarrow> (defer_key \<times> int) list \<Rightarrow> (defer_key \<times> int) list" where
  "ask_faster cfg peers now env c m = (if asked env c \<and> leaves cfg peers now m c then note_deferred now c m else m)"

section \<open>Ranking what is queued\<close>

definition by_host :: "loop_origin list \<Rightarrow> string \<rightharpoonup> loop_origin" where
  "by_host os = map_of (rev (map (\<lambda>og. (og_host og, og)) os))"

definition zone_of :: "loop_origin list \<Rightarrow> string \<Rightarrow> zone" where
  "zone_of os host = (case by_host os host of Some og \<Rightarrow> (case og_zone og of Some z \<Rightarrow> z | None \<Rightarrow> ZoneOther '''') | None \<Rightarrow> ZoneOther '''')"

definition read_queues :: "round_input \<Rightarrow> candidate list \<times> (string \<rightharpoonup> string)" where
  "read_queues inp = collect (map (\<lambda>og. (og_reader og, og_answer og)) (ro_origins inp)) (Some (zone_of (ro_origins inp)))"

definition loop_env :: "loop_cfg \<Rightarrow> round_input \<Rightarrow> fact_exc list \<Rightarrow> pick_env" where
  "loop_env cfg inp holds =
     \<lparr>en_now = ro_clock inp Now_rank, en_labels = ro_host_labels inp, en_explicit_labels_only = lc_explicit_labels_only cfg,
      en_speed_factor = lc_speed_factor cfg, en_estimate = lc_estimate cfg,
      en_locked = Some (\<lambda>keys. conflicts keys (ro_locks inp) \<noteq> []), en_warm = lc_warm cfg,
      en_suspended = (case lc_report cfg of None \<Rightarrow> None | Some c \<Rightarrow> Some (\<lambda>src rp. fst (repo_suspended (ro_report_now inp) src rp (ro_reporter inp)))),
      en_held_off = (case lc_report cfg of None \<Rightarrow> None | Some c \<Rightarrow> Some (\<lambda>src j. fst (held_off c (ro_report_now inp) src j (ro_reporter inp)))),
      en_task_held = (case lc_report cfg of None \<Rightarrow> None | Some c \<Rightarrow> Some (\<lambda>src rp t. fst (task_held c (ro_report_now inp) src rp t (ro_reporter inp)))),
      en_faster = None,
      en_admit = (if list_ex (\<lambda>h. ex_allow h \<noteq> None) holds then Some (\<lambda>j. admits_job holds (j_class j) (repo_name (j_repo j))) else None)\<rparr>"

definition defers :: "loop_cfg \<Rightarrow> bool" where
  "defers cfg \<longleftrightarrow> lc_peers cfg \<and> lc_defer_patience cfg > 0"

definition rank_queued :: "bool \<Rightarrow> loop_cfg \<Rightarrow> round_input \<Rightarrow> fact_exc list \<Rightarrow> worker_loop \<Rightarrow> scored list \<times> worker_loop" where
  "rank_queued fused cfg inp holds l =
     (let (cands, errs) = read_queues inp;
          env = loop_env cfg inp holds;
          l1 = (if defers cfg then forget_gone cands errs l else l);
          env1 = (if defers cfg then env\<lparr>en_faster := Some (leaves cfg (ro_peers inp) (en_now env) (lp_deferred l1))\<rparr> else env);
          l2 = (if defers cfg then l1\<lparr>lp_deferred := fold (ask_faster cfg (ro_peers inp) (en_now env) env) cands (lp_deferred l1)\<rparr> else l1)
      in (rank fused cands env1, l2))"

section \<open>What waits\<close>

text \<open>One ranked job: the first-seen times and the record so far.\<close>

definition note_one :: "int \<Rightarrow> (defer_key \<rightharpoonup> int) \<Rightarrow> scored option \<Rightarrow> scored \<Rightarrow> (defer_key \<times> int) list \<times> waiting \<Rightarrow> (defer_key \<times> int) list \<times> waiting" where
  "note_one now seen_at skip sc sw =
     (if skip \<noteq> None \<and> scored_key sc = scored_key (the skip) then sw
      else let first = (case seen_at (scored_key sc) of Some t \<Rightarrow> t | None \<Rightarrow> now);
               w = (snd sw)\<lparr>wt_count := wt_count (snd sw) + 1\<rparr>
           in (AList.update (scored_key sc) first (fst sw),
               if wt_count w = 1 \<or> (case wt_oldest_since w of Some t \<Rightarrow> first < t | None \<Rightarrow> False)
               then w\<lparr>wt_oldest_id := j_id (sc_job sc), wt_oldest_origin := cd_source (sc_candidate sc), wt_oldest_since := Some first\<rparr> else w))"

definition zero_waiting :: waiting where
  "zero_waiting = \<lparr>wt_count = 0, wt_oldest_id = '''', wt_oldest_origin = '''', wt_oldest_since = None, wt_observed_at = 0, wt_yielding = False, wt_yield_over = False\<rparr>"

definition note_waiting :: "int \<Rightarrow> scored list \<Rightarrow> scored option \<Rightarrow> worker_loop \<Rightarrow> worker_loop" where
  "note_waiting now ranked skip l =
     (let (seen, w) = fold (note_one now (map_of (lp_first_seen l)) skip) ranked ([], zero_waiting) in
      l\<lparr>lp_first_seen := seen, lp_last_look := Some now, lp_waiting := (if wt_count w = 0 then None else Some (w\<lparr>wt_observed_at := now\<rparr>))\<rparr>)"

definition clear_waiting :: "worker_loop \<Rightarrow> worker_loop" where
  "clear_waiting l = l\<lparr>lp_waiting := None, lp_first_seen := []\<rparr>"

text \<open>Whether this much time has passed since; since the zero time it always has.\<close>

definition since :: "int option \<Rightarrow> int \<Rightarrow> int \<Rightarrow> bool" where
  "since t now d = (case t of None \<Rightarrow> True | Some x \<Rightarrow> now - x \<ge> d)"

definition observe_waiting :: "bool \<Rightarrow> loop_cfg \<Rightarrow> round_input \<Rightarrow> fact_exc list \<Rightarrow> worker_loop \<Rightarrow> worker_loop" where
  "observe_waiting fused cfg inp holds l =
     (if \<not> since (lp_last_look l) (ro_clock inp Now_look) (lc_waiting_every cfg) then l
      else let (ranked, l1) = rank_queued fused cfg inp holds l in note_waiting (ro_clock inp Now_note) ranked None l1)"

section \<open>Claiming\<close>

text \<open>The tries of one round, with the number of tries before this one; the job that is taken.\<close>

fun claim_tries :: "loop_cfg \<Rightarrow> round_input \<Rightarrow> nat \<Rightarrow> scored list \<Rightarrow> scored option" where
  "claim_tries cfg inp n [] = None"
| "claim_tries cfg inp n (sc # rest) =
     (if int n \<ge> lc_max_tries cfg \<or> ro_try_ended inp n then None
      else if lc_facts cfg \<and> (case ro_try_facts inp n of None \<Rightarrow> True | Some f \<Rightarrow> \<not> has_heavy_room f) then None
      else if lc_facts cfg \<and> (case ro_try_facts inp n of None \<Rightarrow> False | Some f \<Rightarrow> \<not> admits_job (fa_exceptions f) (j_class (sc_job sc)) (repo_name (j_repo (sc_job sc))))
      then claim_tries cfg inp (Suc n) rest
      else if by_host (ro_origins inp) (cd_source (sc_candidate sc)) = None then claim_tries cfg inp (Suc n) rest
      else if ro_claimed inp n then Some sc
      else claim_tries cfg inp (Suc n) rest)"

definition claim_ranked :: "loop_cfg \<Rightarrow> round_input \<Rightarrow> scored list \<Rightarrow> worker_loop \<Rightarrow> scored option \<times> worker_loop" where
  "claim_ranked cfg inp ranked l =
     (if lc_reserve cfg \<and> ranked \<noteq> [] \<and> \<not> ro_reserved inp then (None, l)
      else case claim_tries cfg inp 0 ranked of
        None \<Rightarrow> (None, l)
      | Some sc \<Rightarrow> (Some sc, note_waiting (ro_clock inp Now_note_claimed) ranked (Some sc)
            (l\<lparr>lp_running := List.insert (running_key sc) (lp_running l), lp_last_claim := Some (ro_clock inp Now_claim)\<rparr>)))"

definition claim_one :: "bool \<Rightarrow> loop_cfg \<Rightarrow> round_input \<Rightarrow> fact_exc list \<Rightarrow> worker_loop \<Rightarrow> scored option \<times> worker_loop" where
  "claim_one fused cfg inp holds l =
     (let (ranked, l1) = rank_queued fused cfg inp holds l
      in claim_ranked cfg inp ranked (note_waiting (ro_clock inp Now_note) ranked None l1))"

section \<open>A round\<close>

text \<open>What a round does to jobs: stops all it runs (with the reason), or claims one, or neither.\<close>

datatype round_act = No_act | Stops "string list" string | Claims scored

definition follow_owner :: "loop_cfg \<Rightarrow> round_input \<Rightarrow> worker_loop \<Rightarrow> decision \<times> worker_loop" where
  "follow_owner cfg inp l =
     (let rule = (wk_owner_rule (ro_settings inp) \<noteq> '''');
          y = (case lp_y l of Some y \<Rightarrow> if rule \<noteq> lp_owner_rule l then new_yielder rule else y | None \<Rightarrow> new_yielder rule);
          reading = (case ro_facts inp of Some f \<Rightarrow> if rule then fa_owner f else None | None \<Rightarrow> None);
          ((d, _), y1) = observe (ro_clock inp Now_owner) reading y
      in (d, l\<lparr>lp_y := Some y1, lp_owner_rule := rule\<rparr>))"

text \<open>The facts are fresh, and have seen the job claimed last; the differences saturate as \<open>Time.Sub\<close> does.\<close>

definition room_settled :: "loop_cfg \<Rightarrow> int \<Rightarrow> int option \<Rightarrow> facts \<Rightarrow> bool" where
  "room_settled cfg now prev f =
     (let age = time_sub now (fa_at f) in
      \<not> (age < 0 \<or> age > lc_facts_max_age cfg
         \<or> (case prev of None \<Rightarrow> False | Some t \<Rightarrow> max (- (2 ^ 63)) (min (2 ^ 63 - 1) (fa_at f * 1000000 - t)) < lc_settle cfg)))"

definition loop_round :: "bool \<Rightarrow> loop_cfg \<Rightarrow> round_input \<Rightarrow> worker_loop \<Rightarrow> round_act \<times> worker_loop" where
  "loop_round fused cfg inp l =
     (if ro_ctx_ended inp then (No_act, l)
      else let (d, l1) = follow_owner cfg inp l; st = ro_settings inp in
        if dc_reclaim d then ((if lp_running l1 = [] then No_act else Stops (lp_running l1) (dc_reason d)), clear_waiting l1)
        else case ro_facts inp of
          None \<Rightarrow> (No_act, clear_waiting l1)
        | Some f \<Rightarrow>
            if \<not> wk_enabled st \<or> \<not> dc_may_claim d then (No_act, clear_waiting l1)
            else let l2 = prune (ro_done inp) l1 in
              if slot_count cfg (ro_held inp) l2 \<ge> sl_heavy (wk_slots st) \<or> \<not> has_heavy_room f
              then (No_act, observe_waiting fused cfg inp (fa_exceptions f) l2)
              else if \<not> room_settled cfg (ro_clock inp Now_age) (lp_last_claim l2) f then (No_act, l2)
              else case claim_one fused cfg inp (fa_exceptions f) l2 of
                (None, l3) \<Rightarrow> (No_act, l3) | (Some sc, l3) \<Rightarrow> (Claims sc, l3))"

section \<open>The sweep\<close>

definition sweep_if_due :: "loop_cfg \<Rightarrow> bool \<Rightarrow> int \<Rightarrow> worker_loop \<Rightarrow> bool \<times> worker_loop" where
  "sweep_if_due cfg ctx_ended now l =
     (if (lc_sweepers cfg = 0 \<and> \<not> lc_quarantine cfg) \<or> ctx_ended then (False, l)
      else if since (lp_last_sweep l) now (lc_sweep_every cfg) then (True, l\<lparr>lp_last_sweep := Some now\<rparr>) else (False, l))"

text \<open>The keys the sweepers are given: what runs, what \<open>Held\<close> says (if set), what is quarantined after its own sweep.\<close>

definition live_keys :: "loop_cfg \<Rightarrow> (string \<Rightarrow> bool) \<Rightarrow> string list option \<Rightarrow> qn_store \<Rightarrow> worker_loop \<Rightarrow> string list" where
  "live_keys cfg over also st l =
     lp_running (prune over l) @ (case also of None \<Rightarrow> [] | Some ks \<Rightarrow> ks) @ (if lc_quarantine cfg then map qe_owner (qn_held st) else [])"

definition loop_sweep :: "loop_cfg \<Rightarrow> (string \<Rightarrow> string) \<Rightarrow> (qn_snap \<Rightarrow> sweep_answer) \<Rightarrow> (string \<Rightarrow> bool) \<Rightarrow> string list option \<Rightarrow> qn_state \<Rightarrow> worker_loop
    \<Rightarrow> string list \<times> qn_state \<times> worker_loop" where
  "loop_sweep cfg sha ans over also q l =
     (let q1 = (if lc_quarantine cfg then snd (snd (qn_sweep sha ans q)) else q)
      in (live_keys cfg over also (q_store q1) l, q1, prune over l))"

text \<open>
  \<open>Run\<close>: the holds of the quarantined jobs are put back first, and the worker starts only when all of
  them could be; then a round and the sweep that may be due, again and again.
\<close>

definition may_start :: "loop_cfg \<Rightarrow> (string \<Rightarrow> string) \<Rightarrow> (qn_snap \<Rightarrow> qn_call list) \<Rightarrow> qn_state \<Rightarrow> bool \<times> qn_state" where
  "may_start cfg sha others q = (if lc_quarantine cfg then (case restore sha others q of (errs, q1) \<Rightarrow> (errs = [], q1)) else (True, q))"

definition one_pass :: "bool \<Rightarrow> loop_cfg \<Rightarrow> round_input \<times> bool \<times> int \<times> (string \<Rightarrow> bool) \<Rightarrow> worker_loop \<Rightarrow> worker_loop" where
  "one_pass fused cfg x l =
     (case x of (inp, ctx_ended, now, over) \<Rightarrow>
        let l1 = snd (loop_round fused cfg inp l); (due, l2) = sweep_if_due cfg ctx_ended now l1 in if due then prune over l2 else l2)"

abbreviation passes :: "bool \<Rightarrow> loop_cfg \<Rightarrow> (round_input \<times> bool \<times> int \<times> (string \<Rightarrow> bool)) list \<Rightarrow> worker_loop \<Rightarrow> worker_loop" where
  "passes fused cfg \<equiv> fold (one_pass fused cfg)"

section \<open>The ending of a job\<close>

text \<open>One try to write a quarantine marker: others' calls before it, the clock, whether the file was written, whether the context has ended after it.\<close>

record marker_try =
  mt_others :: "qn_call list"
  mt_now :: int
  mt_written :: bool
  mt_ctx_ended :: bool

partial_function (option) write_marker :: "(string \<Rightarrow> string) \<Rightarrow> qn_entry \<Rightarrow> (nat \<Rightarrow> marker_try) \<Rightarrow> nat \<Rightarrow> qn_state \<Rightarrow> (bool \<times> qn_state) option" where
  "write_marker sha e ans n q =
     (let q1 = qn_run sha (mt_others (ans n)) q;
          err = fst (qn_add sha (mt_now (ans n)) e (mt_written (ans n)) (q_table q1) (q_store q1));
          q2 = qn_step sha (Q_add (mt_now (ans n)) e (mt_written (ans n))) q1
      in if err = None then Some (True, q2) else if mt_ctx_ended (ans n) then Some (False, q2) else write_marker sha e ans (Suc n) q2)"

definition quarantine :: "loop_cfg \<Rightarrow> (string \<Rightarrow> string) \<Rightarrow> int \<Rightarrow> run_ended \<Rightarrow> (nat \<Rightarrow> marker_try) \<Rightarrow> qn_state \<Rightarrow> (bool \<times> qn_state) option" where
  "quarantine cfg sha now e ans q =
     (if \<not> en_quarantined e \<or> \<not> lc_quarantine cfg \<or> lc_guarded cfg then Some (True, q)
      else write_marker sha (entry_for sha e (lc_sandboxed cfg) now) ans 0 q)"

text \<open>The \<open>Finish\<close> the loop gives the runner: the marker, the delivery, and the record of a run whose result was taken.\<close>

record finish_out =
  fo_q :: qn_state
  fo_trace :: trace
  fo_reporter :: reporter
  fo_recorded :: bool

definition loop_finish :: "loop_cfg \<Rightarrow> (string \<Rightarrow> string) \<Rightarrow> (string \<Rightarrow> bool) \<Rightarrow> world \<Rightarrow> (ended_job \<Rightarrow> summary) \<Rightarrow> int \<Rightarrow> (nat \<Rightarrow> marker_try) \<Rightarrow> int \<Rightarrow> run_ended
    \<Rightarrow> qn_state \<Rightarrow> reporter \<Rightarrow> finish_out option" where
  "loop_finish cfg sha has_sink w summary_of marker_now ans now e q r =
     (case quarantine cfg sha marker_now e ans q of
        None \<Rightarrow> None
      | Some (False, q1) \<Rightarrow> Some \<lparr>fo_q = q1, fo_trace = [], fo_reporter = r, fo_recorded = False\<rparr>
      | Some (True, q1) \<Rightarrow>
          (case lc_report cfg of
             None \<Rightarrow> Some \<lparr>fo_q = q1, fo_trace = [], fo_reporter = r, fo_recorded = False\<rparr>
           | Some c \<Rightarrow> map_option (\<lambda>(ok, t, r1). \<lparr>fo_q = q1, fo_trace = t, fo_reporter = r1, fo_recorded = ok \<and> lc_usage cfg\<rparr>)
               (delivery has_sink c w summary_of now (ended_job.truncate e) r)))"

end
