(* ===== verification/LoopSpec.thy ===== *)
theory LoopSpec
  imports Loop
begin

text \<open>
  What a round of the worker's loop keeps: the conditions of a claim and its place in the ranking, the
  number of heavy slots, how long a job is left to a faster host, what is recorded as waiting, and that
  nothing of a quarantined job is given back before its marker is written.
\<close>

section \<open>Claims\<close>

lemma claim_tries_Some:
  assumes "claim_tries cfg inp n ranked = Some sc"
  shows "\<exists>i < length ranked. ranked ! i = sc \<and> int (n + i) < lc_max_tries cfg \<and> \<not> ro_try_ended inp (n + i) \<and> ro_claimed inp (n + i)
    \<and> by_host (ro_origins inp) (cd_source (sc_candidate sc)) \<noteq> None
    \<and> (lc_facts cfg \<longrightarrow> (\<exists>f. ro_try_facts inp (n + i) = Some f \<and> has_heavy_room f \<and> admits_job (fa_exceptions f) (j_class (sc_job sc)) (repo_name (j_repo (sc_job sc)))))
    \<and> (\<forall>m < i. \<not> (ro_claimed inp (n + m) \<and> by_host (ro_origins inp) (cd_source (sc_candidate (ranked ! m))) \<noteq> None
         \<and> (lc_facts cfg \<longrightarrow> (\<exists>f. ro_try_facts inp (n + m) = Some f \<and> admits_job (fa_exceptions f) (j_class (sc_job (ranked ! m))) (repo_name (j_repo (sc_job (ranked ! m))))))))"
  using assms
proof (induction ranked arbitrary: n)
  case (Cons x rest)
  let ?taken = "ro_claimed inp n \<and> by_host (ro_origins inp) (cd_source (sc_candidate x)) \<noteq> None
     \<and> (lc_facts cfg \<longrightarrow> (\<exists>f. ro_try_facts inp n = Some f \<and> admits_job (fa_exceptions f) (j_class (sc_job x)) (repo_name (j_repo (sc_job x)))))"
  show ?case
  proof (cases ?taken)
    case True
    then show ?thesis using Cons.prems by (intro exI [of _ 0]) (auto split: if_splits option.splits)
  next
    case False
    then have "claim_tries cfg inp (Suc n) rest = Some sc" using Cons.prems by (auto split: if_splits option.splits)
    from Cons.IH [OF this] obtain i where i: "i < length rest" "rest ! i = sc" "int (Suc n + i) < lc_max_tries cfg" "\<not> ro_try_ended inp (Suc n + i)" "ro_claimed inp (Suc n + i)"
      "by_host (ro_origins inp) (cd_source (sc_candidate sc)) \<noteq> None"
      "lc_facts cfg \<longrightarrow> (\<exists>f. ro_try_facts inp (Suc n + i) = Some f \<and> has_heavy_room f \<and> admits_job (fa_exceptions f) (j_class (sc_job sc)) (repo_name (j_repo (sc_job sc))))"
      "\<forall>m < i. \<not> (ro_claimed inp (Suc n + m) \<and> by_host (ro_origins inp) (cd_source (sc_candidate (rest ! m))) \<noteq> None
         \<and> (lc_facts cfg \<longrightarrow> (\<exists>f. ro_try_facts inp (Suc n + m) = Some f \<and> admits_job (fa_exceptions f) (j_class (sc_job (rest ! m))) (repo_name (j_repo (sc_job (rest ! m)))))))"
      by blast
    have "\<not> (ro_claimed inp (n + m) \<and> by_host (ro_origins inp) (cd_source (sc_candidate ((x # rest) ! m))) \<noteq> None
         \<and> (lc_facts cfg \<longrightarrow> (\<exists>f. ro_try_facts inp (n + m) = Some f \<and> admits_job (fa_exceptions f) (j_class (sc_job ((x # rest) ! m))) (repo_name (j_repo (sc_job ((x # rest) ! m)))))))"
      if "m < Suc i" for m
      using that False i(8) [rule_format, of "m - 1"] by (cases m) auto
    then show ?thesis using i by (intro exI [of _ "Suc i"]) simp
  qed
qed simp

text \<open>The candidates of a ranking are the ones read that the host may take.\<close>

lemma rank_members: "sc \<in> set (rank fused cands env) \<longleftrightarrow> sc \<in> set (entries fused cands env)"
  by (simp add: rank_def)

lemma rank_candidates: "sc_candidate ` set (rank fused cands env) = set (filter (takeable env) cands)"
  by (auto simp: rank_def entries_def image_iff)

section \<open>Slots\<close>

lemma slot_count_card:
  assumes "distinct (lp_running l)" "distinct (map qe_owner held)"
  shows "slot_count cfg held l = int (card (set (lp_running l) \<union> (if lc_quarantine cfg then qe_owner ` set held else {})))"
proof -
  have "length (filter (\<lambda>e. qe_owner e \<notin> set (lp_running l)) held) = card (qe_owner ` set held - set (lp_running l))"
  proof -
    have "distinct (map qe_owner (filter (\<lambda>e. qe_owner e \<notin> set (lp_running l)) held))" using assms(2) by (simp add: distinct_map_filter)
    then have "length (filter (\<lambda>e. qe_owner e \<notin> set (lp_running l)) held) = card (set (map qe_owner (filter (\<lambda>e. qe_owner e \<notin> set (lp_running l)) held)))"
      by (metis distinct_card length_map)
    also have "set (map qe_owner (filter (\<lambda>e. qe_owner e \<notin> set (lp_running l)) held)) = qe_owner ` set held - set (lp_running l)" by auto
    finally show ?thesis .
  qed
  moreover have "card (set (lp_running l) \<union> qe_owner ` set held) = card (set (lp_running l)) + card (qe_owner ` set held - set (lp_running l))"
    by (metis List.finite_set Un_Diff_cancel card_Un_disjoint finite_Diff finite_imageI Diff_disjoint)
  ultimately show ?thesis using assms(1) by (simp add: slot_count_def distinct_card)
qed

lemma rank_queued_running: "rank_queued fused cfg inp holds l = (ranked, l1) \<Longrightarrow> lp_running l1 = lp_running l"
  by (auto simp: rank_queued_def forget_gone_def Let_def split: prod.splits)

lemma note_waiting_running [simp]:
  "lp_running (note_waiting now ranked skip l) = lp_running l" "lp_deferred (note_waiting now ranked skip l) = lp_deferred l"
  by (simp_all add: note_waiting_def split: prod.splits)

lemma observe_waiting_running [simp]: "lp_running (observe_waiting fused cfg inp holds l) = lp_running l"
  using rank_queued_running by (auto simp: observe_waiting_def split: prod.splits)

lemma claim_one_running:
  "claim_one fused cfg inp holds l = (x, l1) \<Longrightarrow> lp_running l1 = (case x of None \<Rightarrow> lp_running l | Some sc \<Rightarrow> List.insert (running_key sc) (lp_running l))"
  using rank_queued_running [of fused cfg inp holds l] by (auto simp: claim_one_def claim_ranked_def split: prod.splits option.splits if_splits)

lemma follow_owner_running [simp]: "lp_running (snd (follow_owner cfg inp l)) = lp_running l" "lp_deferred (snd (follow_owner cfg inp l)) = lp_deferred l"
  by (simp_all add: follow_owner_def Let_def split: prod.splits)

lemma prune_running: "lp_running l1 = lp_running l \<Longrightarrow> lp_running (prune over l1) = lp_running (prune over l)"
  by (simp add: prune_def)

lemma slot_count_running: "lp_running l1 = lp_running l \<Longrightarrow> slot_count cfg held l1 = slot_count cfg held l"
  by (simp add: slot_count_def)

lemma round_running:
  assumes "loop_round fused cfg inp l = (act, l')"
  shows "lp_running l' = lp_running l \<or> lp_running l' = lp_running (prune (ro_done inp) l)
   \<or> (\<exists>sc. act = Claims sc \<and> slot_count cfg (ro_held inp) (prune (ro_done inp) l) < sl_heavy (wk_slots (ro_settings inp))
        \<and> lp_running l' = List.insert (running_key sc) (lp_running (prune (ro_done inp) l)))"
proof -
  obtain d l1 where f: "follow_owner cfg inp l = (d, l1)" by fastforce
  then have r: "lp_running l1 = lp_running l" using follow_owner_running(1) [of cfg inp l] by simp
  note p = prune_running [OF r, of "ro_done inp"]
  note s = slot_count_running [OF p, of cfg "ro_held inp"]
  show ?thesis
    using assms f r p s claim_one_running [of fused cfg inp _ "prune (ro_done inp) l1"]
    by (auto simp: loop_round_def Let_def clear_waiting_def split: option.splits prod.splits if_splits)
qed

lemma round_distinct: "distinct (lp_running l) \<Longrightarrow> loop_round fused cfg inp l = (act, l') \<Longrightarrow> distinct (lp_running l')"
  using round_running [of fused cfg inp l act l'] by (auto simp: prune_def)

lemma sweep_if_due_running: "lp_running (snd (sweep_if_due cfg x now l)) = lp_running l" "lp_deferred (snd (sweep_if_due cfg x now l)) = lp_deferred l"
  by (simp_all add: sweep_if_due_def)

lemma passes_distinct: "distinct (lp_running l) \<Longrightarrow> distinct (lp_running (passes fused cfg xs l))"
proof (induction xs arbitrary: l)
  case (Cons x xs)
  obtain inp e now over where x: "x = (inp, e, now, over)" by (cases x)
  have "distinct (lp_running (snd (loop_round fused cfg inp l)))" using round_distinct [OF Cons.prems, of fused cfg inp] by (metis prod.collapse)
  then have "distinct (lp_running (one_pass fused cfg x l))"
    using x sweep_if_due_running(1) [of cfg e now "snd (loop_round fused cfg inp l)"]
    by (auto simp: one_pass_def prune_def Let_def split: prod.splits)
  then show ?case using Cons.IH by simp
qed simp

lemma round_slots:
  assumes d: "distinct (lp_running l)" "distinct (map qe_owner (ro_held inp))" and r: "loop_round fused cfg inp l = (act, l')"
  shows "slot_count cfg (ro_held inp) l' \<le> max (slot_count cfg (ro_held inp) l) (sl_heavy (wk_slots (ro_settings inp)))"
proof -
  let ?held = "ro_held inp" and ?p = "prune (ro_done inp) l"
  have p: "distinct (lp_running ?p)" "set (lp_running ?p) \<subseteq> set (lp_running l)" using d by (auto simp: prune_def)
  then have le: "slot_count cfg ?held ?p \<le> slot_count cfg ?held l"
    using d by (auto simp: slot_count_card intro!: card_mono)
  have ins: "slot_count cfg ?held l' \<le> slot_count cfg ?held ?p + 1" if "lp_running l' = List.insert k (lp_running ?p)" for k
    using that d p card_insert_le_m1 [of "Suc n" A k for n A] by (simp add: slot_count_card card_insert_if)
  from round_running [OF r] show ?thesis
    using le ins slot_count_running [of l' l cfg ?held] slot_count_running [of l' ?p cfg ?held] by fastforce
qed

section \<open>A claim\<close>

lemma claim_one_Some:
  assumes "claim_one fused cfg inp holds l = (Some sc, l')"
  shows "claim_tries cfg inp 0 (fst (rank_queued fused cfg inp holds l)) = Some sc \<and> (lc_reserve cfg \<longrightarrow> ro_reserved inp)"
  using assms by (auto simp: claim_one_def claim_ranked_def split: prod.splits option.splits if_splits)

lemma round_claims:
  assumes "loop_round fused cfg inp l = (Claims sc, l')"
  shows "\<exists>f l1. \<not> ro_ctx_ended inp \<and> dc_may_claim (fst (follow_owner cfg inp l)) \<and> \<not> dc_reclaim (fst (follow_owner cfg inp l)) \<and> ro_facts inp = Some f
    \<and> wk_enabled (ro_settings inp) \<and> slot_count cfg (ro_held inp) (prune (ro_done inp) l) < sl_heavy (wk_slots (ro_settings inp)) \<and> has_heavy_room f
    \<and> room_settled cfg (ro_clock inp Now_age) (lp_last_claim l) f \<and> (lc_reserve cfg \<longrightarrow> ro_reserved inp)
    \<and> claim_tries cfg inp 0 (fst (rank_queued fused cfg inp (fa_exceptions f) l1)) = Some sc"
proof -
  obtain d l1 where f: "follow_owner cfg inp l = (d, l1)" by fastforce
  have c: "lp_last_claim l1 = lp_last_claim l" "lp_running l1 = lp_running l" using f by (auto simp: follow_owner_def Let_def split: prod.splits)
  have s: "slot_count cfg (ro_held inp) (prune (ro_done inp) l1) = slot_count cfg (ro_held inp) (prune (ro_done inp) l)"
    using c(2) by (intro slot_count_running prune_running)
  show ?thesis
    using assms f c(1) s claim_one_Some [of fused cfg inp _ "prune (ro_done inp) l1" sc]
    by (auto simp: loop_round_def Let_def split: option.splits prod.splits if_splits) (auto simp: prune_def)
qed

lemma ranked_candidates:
  assumes "sc \<in> set (fst (rank_queued fused cfg inp holds l))"
  shows "sc_candidate sc \<in> set (fst (read_queues inp)) \<and> takeable (loop_env cfg inp holds) (sc_candidate sc)"
proof -
  obtain cands errs where r: "read_queues inp = (cands, errs)" by fastforce
  have "takeable (e\<lparr>en_faster := x\<rparr>) c \<Longrightarrow> en_faster e = None \<Longrightarrow> takeable e c" for e x c by (simp add: takeable_def asks_def Let_def split: option.splits)
  moreover have "en_faster (loop_env cfg inp holds) = None" by (simp add: loop_env_def)
  ultimately show ?thesis
    using assms r by (auto simp: rank_queued_def rank_members entries_def Let_def split: if_splits)
qed


section \<open>An example\<close>

definition sample_loop_cfg :: loop_cfg where
  "sample_loop_cfg = new_loop_cfg \<lparr>lc_reserve = True, lc_facts = True, lc_report = None, lc_warm = None, lc_speed_factor = Fin 1, lc_estimate = None,
     lc_explicit_labels_only = False, lc_peers = True, lc_defer_patience = 60 * seconds, lc_sweepers = 0, lc_quarantine = True, lc_sandboxed = True, lc_guarded = True,
     lc_usage = False, lc_sweep_every = 0, lc_marker_retry = 0, lc_facts_max_age = 0, lc_interval = 0, lc_settle = 0, lc_waiting_every = 0, lc_stop_timeout = 0,
     lc_shutdown_grace = 0, lc_max_tries = 0\<rparr>"

definition sample_in :: "int \<Rightarrow> peer list \<Rightarrow> round_input" where
  "sample_in now peers =
     \<lparr>ro_ctx_ended = False, ro_settings = \<lparr>wk_enabled = True, wk_slots = \<lparr>sl_heavy = 1, sl_light = 1\<rparr>, wk_owner_rule = ''''\<rparr>, ro_clock = (\<lambda>_. now),
      ro_facts = Some (sample_facts\<lparr>fa_at := now div 1000000\<rparr>), ro_done = (\<lambda>_. False), ro_held = [],
      ro_origins = [\<lparr>og_host = ''m1'', og_reader = ''m1'', og_answer = Inr [sample_job], og_zone = Some ZoneNormal\<rparr>], ro_host_labels = [''os:linux''],
      ro_locks = new_table, ro_reporter = new_reporter, ro_report_now = now, ro_peers = peers, ro_reserved = True, ro_try_ended = (\<lambda>_. False),
      ro_try_facts = (\<lambda>_. Some sample_facts), ro_claimed = (\<lambda>_. True)\<rparr>"


definition sample_sc :: "pick_env \<Rightarrow> scored" where
  "sample_sc env = \<lparr>sc_candidate = \<lparr>cd_source = ''m1'', cd_zone = ZoneNormal, cd_job = sample_job\<rparr>,
     sc_score = score_of False [\<lparr>cd_source = ''m1'', cd_zone = ZoneNormal, cd_job = sample_job\<rparr>] env \<lparr>cd_source = ''m1'', cd_zone = ZoneNormal, cd_job = sample_job\<rparr>\<rparr>"

lemma sample_reads: "read_queues (sample_in now peers) = ([\<lparr>cd_source = ''m1'', cd_zone = ZoneNormal, cd_job = sample_job\<rparr>], Map.empty)"
  by (simp add: read_queues_def sample_in_def zone_of_def by_host_def)

lemma sample_takeable:
  "takeable (loop_env sample_loop_cfg (sample_in now peers) []) \<lparr>cd_source = ''m1'', cd_zone = ZoneNormal, cd_job = sample_job\<rparr>"
  "asked (loop_env sample_loop_cfg (sample_in now peers) []) \<lparr>cd_source = ''m1'', cd_zone = ZoneNormal, cd_job = sample_job\<rparr>"
  by (simp_all add: takeable_def asked_def loop_env_def sample_loop_cfg_def new_loop_cfg_def sample_in_def sample_job_def asks_def eligible_def subset_labels_def conflicts_def
      busy_list_def new_table_def)

lemma sample_ranked:
  "\<exists>env. fst (rank_queued False sample_loop_cfg (sample_in now []) [] l) = [sample_sc env]"
proof -
  have "leaves sample_loop_cfg (ro_peers (sample_in now [])) x m c = False" for x m c
    by (simp add: leaves_def faster_host_def sample_in_def split: option.splits)
  then have "takeable ((loop_env sample_loop_cfg (sample_in now []) [])\<lparr>en_faster := Some (leaves sample_loop_cfg (ro_peers (sample_in now [])) x m)\<rparr>)
      \<lparr>cd_source = ''m1'', cd_zone = ZoneNormal, cd_job = sample_job\<rparr>" for x m
    using sample_takeable(1) [of now "[]"] by (simp add: takeable_def asks_def Let_def)
  then show ?thesis
    using sample_takeable(1) [of now "[]"]
    by (auto simp: rank_queued_def sample_reads Let_def rank_def entries_def stable_sort_def sample_sc_def)
qed

lemma sample_claims:
  "\<exists>env l'. loop_round False sample_loop_cfg (sample_in 2000000000 []) new_loop = (Claims (sample_sc env), l')"
proof -
  let ?i = "sample_in 2000000000 []"
  have fo: "follow_owner sample_loop_cfg ?i new_loop = (\<lparr>dc_may_claim = True, dc_reclaim = False, dc_reason = ''''\<rparr>, new_loop\<lparr>lp_y := Some (new_yielder False)\<rparr>)"
    by (simp add: follow_owner_def sample_in_def new_loop_def observe_def new_yielder_def)
  obtain env l1 where r: "rank_queued False sample_loop_cfg ?i [] (prune (ro_done ?i) (new_loop\<lparr>lp_y := Some (new_yielder False)\<rparr>)) = ([sample_sc env], l1)"
    using sample_ranked by (metis prod.collapse)
  have t: "claim_tries sample_loop_cfg ?i 0 [sample_sc env] = Some (sample_sc env)"
    by (simp add: sample_in_def sample_loop_cfg_def new_loop_cfg_def or_default_def sample_sc_def by_host_def has_heavy_room_def admits_job_def)
      (simp add: sample_facts_def sample_derived_def)
  have g: "\<not> ro_ctx_ended ?i" "ro_facts ?i = Some (sample_facts\<lparr>fa_at := 2000\<rparr>)" "wk_enabled (ro_settings ?i)" "ro_reserved ?i"
    "slot_count sample_loop_cfg (ro_held ?i) (prune (ro_done ?i) (new_loop\<lparr>lp_y := Some (new_yielder False)\<rparr>)) < sl_heavy (wk_slots (ro_settings ?i))"
    by (simp_all add: sample_in_def slot_count_def prune_def new_loop_def)
  have f: "has_heavy_room (sample_facts\<lparr>fa_at := 2000\<rparr>)" "fa_exceptions (sample_facts\<lparr>fa_at := 2000\<rparr>) = []"
    by (simp_all add: has_heavy_room_def sample_facts_def sample_derived_def)
  have st: "room_settled sample_loop_cfg (ro_clock ?i Now_age) (lp_last_claim (prune (ro_done ?i) (new_loop\<lparr>lp_y := Some (new_yielder False)\<rparr>))) (sample_facts\<lparr>fa_at := 2000\<rparr>)"
    by (simp add: room_settled_def sample_in_def prune_def new_loop_def time_sub_def sample_loop_cfg_def new_loop_cfg_def or_default_def sample_interval_s_def seconds_def)
  show ?thesis using fo r t g f st by (intro exI [of _ env]) (simp add: loop_round_def claim_one_def claim_ranked_def del: claim_tries.simps)
qed


section \<open>Properties of a round\<close>

text \<open>
  a round claims only when everything allows it, and only the best it can get. A claim means that
  the worker is on, the owner is not using the machine, the facts are fresh, have seen the job claimed
  before and show room, and the heavy slots (quarantined jobs counted) are not all taken; the job is one
  a queue listed that this host may take under the holds; it was admitted by the facts read just before
  the try; and every job ranked better was tried before it, and not taken or not admitted.
\<close>

theorem round_claims_only_what_it_may:
  assumes "loop_round fused cfg inp l = (Claims sc, l')"
  shows "\<exists>f l1 i. ro_facts inp = Some f \<and> wk_enabled (ro_settings inp) \<and> dc_may_claim (fst (follow_owner cfg inp l))
    \<and> slot_count cfg (ro_held inp) (prune (ro_done inp) l) < sl_heavy (wk_slots (ro_settings inp)) \<and> has_heavy_room f
    \<and> room_settled cfg (ro_clock inp Now_age) (lp_last_claim l) f
    \<and> sc_candidate sc \<in> set (fst (read_queues inp)) \<and> takeable (loop_env cfg inp (fa_exceptions f)) (sc_candidate sc)
    \<and> i < length (fst (rank_queued fused cfg inp (fa_exceptions f) l1)) \<and> fst (rank_queued fused cfg inp (fa_exceptions f) l1) ! i = sc
    \<and> int i < lc_max_tries cfg \<and> ro_claimed inp i
    \<and> (lc_facts cfg \<longrightarrow> (\<exists>g. ro_try_facts inp i = Some g \<and> has_heavy_room g \<and> admits_job (fa_exceptions g) (j_class (sc_job sc)) (repo_name (j_repo (sc_job sc)))))
    \<and> (\<forall>m < i. let better = fst (rank_queued fused cfg inp (fa_exceptions f) l1) ! m in
         \<not> (ro_claimed inp m \<and> by_host (ro_origins inp) (cd_source (sc_candidate better)) \<noteq> None
            \<and> (lc_facts cfg \<longrightarrow> (\<exists>g. ro_try_facts inp m = Some g \<and> admits_job (fa_exceptions g) (j_class (sc_job better)) (repo_name (j_repo (sc_job better)))))))"
proof -
  obtain f l1 where f: "ro_facts inp = Some f" "wk_enabled (ro_settings inp)" "dc_may_claim (fst (follow_owner cfg inp l))"
    "slot_count cfg (ro_held inp) (prune (ro_done inp) l) < sl_heavy (wk_slots (ro_settings inp))" "has_heavy_room f"
    "room_settled cfg (ro_clock inp Now_age) (lp_last_claim l) f" "claim_tries cfg inp 0 (fst (rank_queued fused cfg inp (fa_exceptions f) l1)) = Some sc"
    using round_claims [OF assms] by blast
  let ?r = "fst (rank_queued fused cfg inp (fa_exceptions f) l1)"
  from claim_tries_Some [OF f(7)] obtain i where i: "i < length ?r" "?r ! i = sc" "int i < lc_max_tries cfg" "ro_claimed inp i"
    "lc_facts cfg \<longrightarrow> (\<exists>g. ro_try_facts inp i = Some g \<and> has_heavy_room g \<and> admits_job (fa_exceptions g) (j_class (sc_job sc)) (repo_name (j_repo (sc_job sc))))"
    "\<forall>m < i. \<not> (ro_claimed inp m \<and> by_host (ro_origins inp) (cd_source (sc_candidate (?r ! m))) \<noteq> None
       \<and> (lc_facts cfg \<longrightarrow> (\<exists>g. ro_try_facts inp m = Some g \<and> admits_job (fa_exceptions g) (j_class (sc_job (?r ! m))) (repo_name (j_repo (sc_job (?r ! m)))))))"
    by auto
  moreover have "sc \<in> set ?r" using i(1,2) nth_mem by blast
  ultimately show ?thesis using f ranked_candidates [of sc fused cfg inp "fa_exceptions f" l1] unfolding Let_def by blast
qed

theorem round_claims_only_what_it_may_witness:
  "\<exists>env l'. loop_round False sample_loop_cfg (sample_in 2000000000 []) new_loop = (Claims (sample_sc env), l')
     \<and> sc_candidate (sample_sc env) \<in> set (fst (read_queues (sample_in 2000000000 [])))"
proof -
  obtain env l' where e: "loop_round False sample_loop_cfg (sample_in 2000000000 []) new_loop = (Claims (sample_sc env), l')" using sample_claims by blast
  from round_claims_only_what_it_may [OF e] e show ?thesis by blast
qed

text \<open>
  the heavy slots are never overbooked by a round. From a start with nothing running, after any
  rounds and sweeps, with whatever jobs ended or quarantined, a round leaves at most as many heavy slots
  taken as the setting allows, or as were taken before it (when the setting went down).
\<close>

theorem round_never_overbooks:
  assumes "l = passes fused cfg xs new_loop" and "distinct (map qe_owner (ro_held inp))" and "loop_round fused cfg inp l = (act, l')"
  shows "slot_count cfg (ro_held inp) l' \<le> max (slot_count cfg (ro_held inp) l) (sl_heavy (wk_slots (ro_settings inp)))"
  by (rule round_slots [OF _ assms(2,3)]) (use passes_distinct [of new_loop] assms(1) in \<open>simp add: new_loop_def\<close>)

theorem round_never_overbooks_witness:
  "\<exists>act l'. loop_round False sample_loop_cfg (sample_in 2000000000 []) new_loop = (act, l') \<and> slot_count sample_loop_cfg [] l' \<le> 1"
proof -
  obtain act l' where e: "loop_round False sample_loop_cfg (sample_in 2000000000 []) new_loop = (act, l')" by fastforce
  have i: "ro_held (sample_in 2000000000 []) = []" "sl_heavy (wk_slots (ro_settings (sample_in 2000000000 []))) = 1" by (simp_all add: sample_in_def)
  have n: "slot_count sample_loop_cfg [] new_loop = 0" by (simp add: slot_count_def new_loop_def)
  show ?thesis using round_never_overbooks [where xs = "[]", OF _ _ e] e i n by auto
qed


section \<open>A job that is left to a faster host\<close>

lemma map_of_filter_key: "map_of (filter (\<lambda>kv. P (fst kv)) m) k = (if P k then map_of m k else None)"
  by (induction m) auto

definition still_there :: "defer_key \<Rightarrow> round_input \<Rightarrow> bool" where
  "still_there k inp \<longleftrightarrow> k \<in> set (map cand_key (fst (read_queues inp))) \<or> snd (read_queues inp) (fst k) \<noteq> None"

lemma forget_gone_keeps:
  "read_queues inp = (cands, errs) \<Longrightarrow> still_there k inp \<Longrightarrow> map_of (lp_deferred (forget_gone cands errs l)) k = map_of (lp_deferred l) k"
  using map_of_filter_key [of "\<lambda>k. k \<in> set (map cand_key cands) \<or> errs (fst k) \<noteq> None" "lp_deferred l" k]
  by (simp add: forget_gone_def still_there_def)

lemma ask_faster_keeps: "map_of m k = Some t \<Longrightarrow> map_of (ask_faster cfg peers now env c m) k = Some t"
  by (auto simp: ask_faster_def note_deferred_def update_conv' simp del: map_of_eq_Some_iff split: option.splits)

lemma fold_ask_keeps: "map_of m k = Some t \<Longrightarrow> map_of (fold (ask_faster cfg peers now env) cs m) k = Some t"
  by (induction cs arbitrary: m) (simp_all add: ask_faster_keeps del: map_of_eq_Some_iff)

lemma rank_queued_keeps:
  assumes "still_there k inp" "map_of (lp_deferred l) k = Some t"
  shows "map_of (lp_deferred (snd (rank_queued fused cfg inp holds l))) k = Some t"
  using assms forget_gone_keeps [of inp _ _ k l] by (auto simp: rank_queued_def Let_def fold_ask_keeps simp del: map_of_eq_Some_iff split: prod.splits)

lemma round_keeps:
  assumes "still_there k inp" "map_of (lp_deferred l) k = Some t"
  shows "map_of (lp_deferred (snd (loop_round fused cfg inp l))) k = Some t"
proof -
  obtain d l1 where f: "follow_owner cfg inp l = (d, l1)" by fastforce
  then have "map_of (lp_deferred (prune (ro_done inp) l1)) k = Some t" "map_of (lp_deferred l1) k = Some t"
    using assms(2) follow_owner_running(2) [of cfg inp l] by (simp_all add: prune_def)
  moreover from this have "map_of (lp_deferred (snd (rank_queued fused cfg inp holds (prune (ro_done inp) l1)))) k = Some t" for holds
    using rank_queued_keeps [OF assms(1)] by blast
  ultimately show ?thesis
    using f assms(2)
    by (auto simp: loop_round_def Let_def clear_waiting_def observe_waiting_def claim_one_def claim_ranked_def simp del: map_of_eq_Some_iff split: option.splits prod.splits)
      (metis snd_conv)+
qed

lemma passes_keep:
  "\<forall>x \<in> set xs. still_there k (fst x) \<Longrightarrow> map_of (lp_deferred l) k = Some t \<Longrightarrow> map_of (lp_deferred (passes fused cfg xs l)) k = Some t"
proof (induction xs arbitrary: l)
  case (Cons x xs)
  obtain inp e now over where x: "x = (inp, e, now, over)" by (cases x)
  have "map_of (lp_deferred (snd (loop_round fused cfg inp l))) k = Some t" using Cons.prems x by (intro round_keeps) auto
  then have "map_of (lp_deferred (one_pass fused cfg x l)) k = Some t"
    using x sweep_if_due_running(2) [of cfg e now "snd (loop_round fused cfg inp l)"]
    by (auto simp: one_pass_def prune_def Let_def simp del: map_of_eq_Some_iff split: prod.splits)
  then show ?case using Cons.IH Cons.prems(1) by simp
qed simp

lemma fold_ask_notes:
  assumes "c \<in> set cs" "asked env c" "leaves cfg peers now m0 c" "map_of m0 (cand_key c) = None" "lc_defer_patience cfg > 0"
    and "map_of m (cand_key c) = None \<or> map_of m (cand_key c) = Some now"
  shows "map_of (fold (ask_faster cfg peers now env) cs m) (cand_key c) = Some now"
  using assms(1,6)
proof (induction cs arbitrary: m)
  case (Cons x xs)
  have f: "faster_host (cd_job c) (lc_speed_factor cfg) peers now (lc_defer_patience cfg) \<noteq> None"
    using assms(3,4) by (simp add: leaves_def split: option.splits)
  let ?m = "ask_faster cfg peers now env x m"
  have m: "map_of ?m (cand_key c) = None \<or> map_of ?m (cand_key c) = Some now"
    using Cons.prems(2) by (auto simp: ask_faster_def note_deferred_def update_conv' simp del: map_of_eq_Some_iff map_of_eq_None_iff split: option.splits)
  show ?case
  proof (cases "x = c")
    case True
    then have "map_of ?m (cand_key c) = Some now"
      using Cons.prems(2) assms(2,5) f by (auto simp: ask_faster_def leaves_def note_deferred_def update_conv' simp del: map_of_eq_Some_iff split: option.splits)
    then show ?thesis using fold_ask_keeps by simp
  next
    case False
    then show ?thesis using Cons.IH [OF _ m] Cons.prems(1) by simp
  qed
qed simp

text \<open>
  a job is not left to a faster host for ever. When a round first leaves a job, then after any
  rounds that still find it in its queue (or cannot read that queue), from the patience on by this
  host's own clock, whatever the origin's clock says of its age and however many faster hosts there are,
  a round that could take the job ranks it.
\<close>

theorem leaving_ends_with_the_patience:
  assumes "defers cfg" and "c \<in> set (fst (read_queues inp))" "asked (loop_env cfg inp holds) c" "map_of (lp_deferred l) (cand_key c) = None"
    and "leaves cfg (ro_peers inp) (ro_clock inp Now_rank) (lp_deferred l) c"
    and "l' = passes fused cfg xs (snd (rank_queued fused cfg inp holds l))" and "list_all (\<lambda>x. still_there (cand_key c) (fst x)) xs"
    and "c' \<in> set (fst (read_queues inp'))" "cand_key c' = cand_key c" "takeable (loop_env cfg inp' holds') c'"
    and "ro_clock inp' Now_rank \<ge> ro_clock inp Now_rank + lc_defer_patience cfg"
  shows "c' \<in> sc_candidate ` set (fst (rank_queued fused cfg inp' holds' l'))"
proof -
  have p: "lc_defer_patience cfg > 0" using assms(1) by (simp add: defers_def)
  obtain cands errs where r: "read_queues inp = (cands, errs)" by fastforce
  have "still_there (cand_key c) inp" using assms(2) by (auto simp: still_there_def)
  then have n: "map_of (lp_deferred (forget_gone cands errs l)) (cand_key c) = None" using forget_gone_keeps [OF r, of "cand_key c" l] assms(4) by metis
  then have "leaves cfg (ro_peers inp) (ro_clock inp Now_rank) (lp_deferred (forget_gone cands errs l)) c" using assms(4,5) by (simp add: leaves_def del: map_of_eq_None_iff)
  then have "map_of (lp_deferred (snd (rank_queued fused cfg inp holds l))) (cand_key c) = Some (ro_clock inp Now_rank)"
    using assms(1,2,3) r n p fold_ask_notes [of c cands "loop_env cfg inp holds" cfg "ro_peers inp" "ro_clock inp Now_rank" "lp_deferred (forget_gone cands errs l)"]
    by (simp add: rank_queued_def Let_def loop_env_def del: map_of_eq_None_iff map_of_eq_Some_iff)
  then have k: "map_of (lp_deferred l') (cand_key c') = Some (ro_clock inp Now_rank)"
    using passes_keep [of xs "cand_key c"] assms(6,7,9) by (simp add: list_all_iff del: map_of_eq_Some_iff)
  obtain cands' errs' where r': "read_queues inp' = (cands', errs')" by fastforce
  have "still_there (cand_key c') inp'" using assms(8) by (auto simp: still_there_def)
  then have "map_of (lp_deferred (forget_gone cands' errs' l')) (cand_key c') = Some (ro_clock inp Now_rank)"
    using forget_gone_keeps [OF r', of "cand_key c'" l'] k by simp
  then have "\<not> leaves cfg (ro_peers inp') (ro_clock inp' Now_rank) (lp_deferred (forget_gone cands' errs' l')) c'"
    using assms(11) by (simp add: leaves_def del: map_of_eq_Some_iff)
  then have "takeable ((loop_env cfg inp' holds')\<lparr>en_faster := Some (leaves cfg (ro_peers inp') (en_now (loop_env cfg inp' holds')) (lp_deferred (forget_gone cands' errs' l')))\<rparr>) c'"
    using assms(10) by (simp add: takeable_def asks_def loop_env_def Let_def)
  then show ?thesis
    using assms(1,8) r' by (simp add: rank_queued_def Let_def rank_candidates)
qed


text \<open>A host at half the work of this one is in the pool all the time; the job is left to it for a minute.\<close>

abbreviation sample_fast :: "peer list" where
  "sample_fast \<equiv> [sample_peer ''fast'' (Fin (1 / 2))]"

theorem leaving_ends_with_the_patience_witness:
  "\<lparr>cd_source = ''m1'', cd_zone = ZoneNormal, cd_job = sample_job\<rparr> \<in> sc_candidate ` set (fst (rank_queued False sample_loop_cfg (sample_in 62000000000 sample_fast) []
      (passes False sample_loop_cfg [(sample_in 3000000000 sample_fast, False, 3000000000, \<lambda>_. False)]
        (snd (rank_queued False sample_loop_cfg (sample_in 2000000000 sample_fast) [] new_loop)))))"
proof -
  let ?c = "\<lparr>cd_source = ''m1'', cd_zone = ZoneNormal, cd_job = sample_job\<rparr>"
  have d: "defers sample_loop_cfg" by (simp add: defers_def sample_loop_cfg_def new_loop_cfg_def seconds_def)
  have c: "?c \<in> set (fst (read_queues (sample_in now sample_fast)))" for now by (simp add: sample_reads)
  have n: "map_of (lp_deferred new_loop) (cand_key ?c) = None" by (simp add: new_loop_def)
  have p: "lc_speed_factor sample_loop_cfg = Fin 1" "lc_defer_patience sample_loop_cfg = 60000000000" "ro_peers (sample_in now ps) = ps" "ro_clock (sample_in now ps) r = now"
    for now ps r by (simp_all add: sample_loop_cfg_def new_loop_cfg_def seconds_def sample_in_def)
  have "faster_host sample_job (Fin 1) sample_fast 2000000000 60000000000 = Some ''fast''"
    by (simp add: faster_host_def names_peer_def sample_job_def sample_peer_def sample_facts_def sample_derived_def time_sub_def speed_of_def
        usable_def finite64_def eligible_def subset_labels_def explicit_def has_prefix_def heavy_room_for_def)
  then have f: "leaves sample_loop_cfg (ro_peers (sample_in 2000000000 sample_fast)) (ro_clock (sample_in 2000000000 sample_fast) Now_rank) (lp_deferred new_loop) ?c"
    using n by (simp add: leaves_def p del: map_of_eq_None_iff)
  have s: "list_all (\<lambda>x. still_there (cand_key ?c) (fst x)) [(sample_in 3000000000 sample_fast, False, 3000000000, \<lambda>_. False)]"
    by (simp add: still_there_def sample_reads)
  show ?thesis
    by (rule leaving_ends_with_the_patience [OF d c sample_takeable(2) n f refl s c refl sample_takeable(1)]) (simp add: p)
qed

section \<open>What waits\<close>

text \<open>The jobs that wait: the ranked ones but the one just claimed. When this worker first saw one.\<close>

definition kept_jobs :: "scored option \<Rightarrow> scored list \<Rightarrow> scored list" where
  "kept_jobs skip ranked = filter (\<lambda>sc. skip = None \<or> scored_key sc \<noteq> scored_key (the skip)) ranked"

definition first_of :: "int \<Rightarrow> worker_loop \<Rightarrow> scored \<Rightarrow> int" where
  "first_of now l sc = (case map_of (lp_first_seen l) (scored_key sc) of Some t \<Rightarrow> t | None \<Rightarrow> now)"

text \<open>The job of a list seen the longest, the best ranked of several.\<close>

fun longest :: "(scored \<Rightarrow> int) \<Rightarrow> scored \<Rightarrow> scored list \<Rightarrow> scored" where
  "longest f best [] = best"
| "longest f best (sc # rest) = longest f (if f sc < f best then sc else best) rest"

definition names :: "waiting \<Rightarrow> (scored \<Rightarrow> int) \<Rightarrow> scored \<Rightarrow> bool" where
  "names w f sc \<longleftrightarrow> wt_oldest_id w = j_id (sc_job sc) \<and> wt_oldest_origin w = cd_source (sc_candidate sc) \<and> wt_oldest_since w = Some (f sc)"

lemma note_fold_kept: "fold (note_one now sa skip) ranked sw = fold (note_one now sa None) (kept_jobs skip ranked) sw"
  by (induction ranked arbitrary: sw) (auto simp: kept_jobs_def note_one_def)

lemma note_fold_names:
  "names (snd sw) (first_of now l) best \<Longrightarrow> wt_count (snd sw) \<ge> 1 \<Longrightarrow>
   names (snd (fold (note_one now (map_of (lp_first_seen l)) None) scs sw)) (first_of now l) (longest (first_of now l) best scs)
   \<and> wt_count (snd (fold (note_one now (map_of (lp_first_seen l)) None) scs sw)) = wt_count (snd sw) + int (length scs)"
proof (induction scs arbitrary: sw best)
  case (Cons sc scs)
  let ?sw = "note_one now (map_of (lp_first_seen l)) None sc sw"
  let ?best = "if first_of now l sc < first_of now l best then sc else best"
  have "names (snd ?sw) (first_of now l) ?best" "wt_count (snd ?sw) = wt_count (snd sw) + 1"
    using Cons.prems by (auto simp: note_one_def names_def first_of_def Let_def split: option.splits)
  then show ?case using Cons.IH [of ?sw ?best] Cons.prems(2) by simp
qed simp

lemma note_fold_seen:
  "map_of (fst (fold (note_one now sa None) scs sw)) k =
     (if k \<in> scored_key ` set scs then Some (case sa k of Some t \<Rightarrow> t | None \<Rightarrow> now) else map_of (fst sw) k)"
proof (induction scs arbitrary: sw)
  case (Cons sc scs)
  then show ?case by (auto simp: note_one_def Let_def update_conv' simp del: map_of_eq_Some_iff split: option.splits)
qed simp

lemma longest_least: "longest f best scs \<in> set (best # scs) \<and> (\<forall>sc \<in> set (best # scs). f (longest f best scs) \<le> f sc)"
proof (induction scs arbitrary: best)
  case (Cons sc scs)
  have "f (longest f (if f sc < f best then sc else best) scs) \<le> f (if f sc < f best then sc else best)" using Cons.IH by fastforce
  then show ?case using Cons.IH [of "if f sc < f best then sc else best"] by (auto split: if_splits)
qed simp


text \<open>
  the worker says truly what waits for it. After a look, the record counts the ranked jobs (but the
  one just taken) and names one this worker has seen queued the longest, with the time it first saw it;
  there is none exactly when nothing waits. A job that is still there keeps its first time, a new one
  gets this look's, and one that is gone is forgotten.
\<close>

theorem waiting_names_the_longest_seen:
  "(case lp_waiting (note_waiting now ranked skip l) of
      None \<Rightarrow> kept_jobs skip ranked = []
    | Some w \<Rightarrow> kept_jobs skip ranked \<noteq> [] \<and> wt_count w = int (length (kept_jobs skip ranked)) \<and> wt_observed_at w = now
        \<and> wt_oldest_since w = Some (Min (first_of now l ` set (kept_jobs skip ranked)))
        \<and> (wt_oldest_origin w, wt_oldest_id w) \<in> scored_key ` {sc \<in> set (kept_jobs skip ranked). first_of now l sc = Min (first_of now l ` set (kept_jobs skip ranked))})
   \<and> map_of (lp_first_seen (note_waiting now ranked skip l)) k =
       (if k \<in> scored_key ` set (kept_jobs skip ranked) then Some (case map_of (lp_first_seen l) k of Some t \<Rightarrow> t | None \<Rightarrow> now) else None)"
proof -
  let ?f = "first_of now l" and ?sa = "map_of (lp_first_seen l)" and ?ks = "kept_jobs skip ranked"
  let ?sw = "fold (note_one now ?sa None) ?ks ([], zero_waiting)"
  have n: "note_waiting now ranked skip l = l\<lparr>lp_first_seen := fst ?sw, lp_last_look := Some now,
      lp_waiting := (if wt_count (snd ?sw) = 0 then None else Some ((snd ?sw)\<lparr>wt_observed_at := now\<rparr>))\<rparr>"
    by (simp add: note_waiting_def note_fold_kept [of now ?sa skip] split: prod.splits)
  have seen: "map_of (fst ?sw) k = (if k \<in> scored_key ` set ?ks then Some (case ?sa k of Some t \<Rightarrow> t | None \<Rightarrow> now) else None)"
    using note_fold_seen [of now ?sa ?ks "([], zero_waiting)" k] by simp
  show ?thesis
  proof (cases ?ks)
    case Nil
    then show ?thesis using n seen by (simp add: zero_waiting_def)
  next
    case (Cons sc scs)
    let ?one = "note_one now ?sa None sc ([], zero_waiting)" and ?b = "longest ?f sc scs"
    have o: "names (snd ?one) ?f sc" "wt_count (snd ?one) = 1" by (auto simp: note_one_def names_def first_of_def zero_waiting_def Let_def split: option.splits)
    have w: "names (snd ?sw) ?f ?b" "wt_count (snd ?sw) = int (length ?ks)" using note_fold_names [OF o(1), of scs] o(2) Cons by auto
    have m: "?f ?b = Min (?f ` set ?ks)" "?b \<in> set ?ks" using longest_least [of ?f sc scs] Cons by (auto intro!: Min_eqI [symmetric])
    show ?thesis using n seen w m Cons by (auto simp: names_def cand_key_def image_iff simp del: map_of_eq_Some_iff)
  qed
qed

section \<open>Nothing is given back before the marker\<close>

lemma add_installs:
  "fst (qn_add sha now e wr t s) = None \<Longrightarrow> \<exists>r. entry_of (snd (qn_add sha now e wr t s)) (qe_owner e) = Some r \<and> qe_keys (qr_e r) = qe_keys e"
  by (auto simp: qn_add_def install_def Let_def update_conv' simp del: map_of_eq_Some_iff dest!: normalize_cases split: sum.splits option.splits if_splits)

text \<open>The marker that is written says what the entry says; a marker given up means that the context ended.\<close>

lemma write_marker_writes:
  assumes "write_marker sha e ans n q = Some y"
  shows "(fst y \<longrightarrow> (\<exists>r. entry_of (q_store (snd y)) (qe_owner e) = Some r \<and> qe_keys (qr_e r) = qe_keys e))
    \<and> (\<not> fst y \<longrightarrow> (\<exists>m \<ge> n. mt_ctx_ended (ans m)))"
proof (rule write_marker.raw_induct [OF _ assms])
  fix f and sha :: "string \<Rightarrow> string" and e and ans :: "nat \<Rightarrow> marker_try" and n q y
  assume IH: "\<And>sha e ans n q y. f sha e ans n q = Some y \<Longrightarrow>
      (fst y \<longrightarrow> (\<exists>r. entry_of (q_store (snd y)) (qe_owner e) = Some r \<and> qe_keys (qr_e r) = qe_keys e)) \<and> (\<not> fst y \<longrightarrow> (\<exists>m \<ge> n. mt_ctx_ended (ans m)))"
    and y: "(let q1 = qn_run sha (mt_others (ans n)) q;
          err = fst (qn_add sha (mt_now (ans n)) e (mt_written (ans n)) (q_table q1) (q_store q1));
          q2 = qn_step sha (Q_add (mt_now (ans n)) e (mt_written (ans n))) q1
      in if err = None then Some (True, q2) else if mt_ctx_ended (ans n) then Some (False, q2) else f sha e ans (Suc n) q2) = Some y"
  define q1 where "q1 = qn_run sha (mt_others (ans n)) q"
  define add where "add = qn_add sha (mt_now (ans n)) e (mt_written (ans n)) (q_table q1) (q_store q1)"
  define q2 where "q2 = qn_step sha (Q_add (mt_now (ans n)) e (mt_written (ans n))) q1"
  have store: "q_store q2 = snd add" by (simp add: q2_def add_def)
  have y': "(if fst add = None then Some (True, q2) else if mt_ctx_ended (ans n) then Some (False, q2) else f sha e ans (Suc n) q2) = Some y"
    using y by (simp only: Let_def q1_def add_def q2_def)
  show "(fst y \<longrightarrow> (\<exists>r. entry_of (q_store (snd y)) (qe_owner e) = Some r \<and> qe_keys (qr_e r) = qe_keys e)) \<and> (\<not> fst y \<longrightarrow> (\<exists>m \<ge> n. mt_ctx_ended (ans m)))"
  proof (cases "fst add = None")
    case True
    then have "y = (True, q2)" using y' by simp
    then show ?thesis using add_installs [OF True [unfolded add_def]] store by (simp add: add_def del: map_of_eq_Some_iff)
  next
    case False
    show ?thesis
    proof (cases "mt_ctx_ended (ans n)")
      case True
      then have "y = (False, q2)" using y' False by simp
      then show ?thesis using True by auto
    next
      case go: False
      then have "f sha e ans (Suc n) q2 = Some y" using y' False by simp
      from IH [OF this] show ?thesis using Suc_leD by blast
    qed
  qed
qed

lemma write_marker_returns: "mt_ctx_ended (ans m) \<Longrightarrow> n \<le> m \<Longrightarrow> \<exists>y. write_marker sha e ans n q = Some y"
proof (induction "m - n" arbitrary: n q)
  case 0
  then show ?case by (subst write_marker.simps) (auto simp: Let_def)
next
  case (Suc k)
  then have "k = m - Suc n" "Suc n \<le> m" by simp_all
  from Suc.hyps(1) [OF this(1) Suc.prems(1) this(2)] show ?case by (subst write_marker.simps) (auto simp: Let_def)
qed

text \<open>
  A job whose unit could not be proven stopped is told to its origin only once the marker that keeps its
  keys is written: whatever the loop's \<open>Finish\<close> sends, the entry with the job's keys is in the store by
  then; and \<open>Finish\<close> is not held up for ever once the worker is stopping.
\<close>

theorem nothing_is_told_before_the_marker:
  assumes "lc_quarantine cfg" "\<not> lc_guarded cfg" "en_quarantined e"
    and "loop_finish cfg sha has_sink w summary_of marker_now ans now e q r = Some out" "fo_trace out \<noteq> []"
  shows "\<exists>x. entry_of (q_store (fo_q out)) (qe_owner (entry_for sha e (lc_sandboxed cfg) marker_now)) = Some x
    \<and> qe_keys (qr_e x) = qe_keys (entry_for sha e (lc_sandboxed cfg) marker_now)"
proof -
  let ?e = "entry_for sha e (lc_sandboxed cfg) marker_now"
  have g: "quarantine cfg sha marker_now e ans q = write_marker sha ?e ans 0 q"
    using assms(1-3) by (simp add: quarantine_def)
  obtain b q1 where m: "write_marker sha ?e ans 0 q = Some (b, q1)"
    using assms(4) unfolding loop_finish_def g by (cases "write_marker sha ?e ans 0 q") auto
  have "b" using assms(4,5) unfolding loop_finish_def g m by (cases b) auto
  moreover from this have "fo_q out = q1"
    using assms(4) unfolding loop_finish_def g m by (auto split: option.splits)
  ultimately show ?thesis using write_marker_writes [OF m] by (simp del: map_of_eq_Some_iff)
qed

theorem marker_returns_when_stopping:
  "mt_ctx_ended (ans m) \<Longrightarrow> \<exists>y. quarantine cfg sha now e ans q = Some y"
  using write_marker_returns [of ans m 0] by (auto simp: quarantine_def)

end
