(* ===== verification/Reuse.thy ===== *)
theory Reuse
  imports Labels
begin

text \<open>
  Which stored result answers a new submission (package \<open>reuse\<close>). Fingerprints are association lists
  with one entry a key, as in \<open>/v1/info\<close>. The digest of the encoded key parts is a parameter: it
  stands for the hex SHA-256 of the JSON object with these fields, whose encoding sorts the keys of a
  map, so it is a function of the maps and not of how they were built.
\<close>

section \<open>The key\<close>

record key_parts =
  kp_tree :: string
  kp_task :: string
  kp_args :: "string list"
  kp_def_hash :: string
  kp_os :: string
  kp_arch :: string
  kp_toolchain :: "(string \<times> string) list"
  kp_qualification :: "(string \<times> string) list"

definition key_version :: int where
  "key_version = 2"

text \<open>The object that is encoded, in the order of its fields.\<close>

type_synonym key_object = "int \<times> string \<times> string \<times> string list \<times> string \<times> string \<times> string \<times> (string \<rightharpoonup> string) \<times> (string \<rightharpoonup> string)"

definition key_at :: "(key_object \<Rightarrow> string) \<Rightarrow> int \<Rightarrow> key_parts \<Rightarrow> string" where
  "key_at digest version p = digest (version, kp_tree p, kp_task p, kp_args p, kp_def_hash p, kp_os p, kp_arch p,
     map_of (kp_toolchain p), map_of (kp_qualification p))"

definition reuse_key :: "(key_object \<Rightarrow> string) \<Rightarrow> key_parts \<Rightarrow> string" where
  "reuse_key digest p = key_at digest key_version p"

section \<open>Entries, questions and hosts\<close>

record entry =
  et_tree :: string
  et_task :: string
  et_args :: "string list"
  et_def_hash :: string
  et_host :: string
  et_fingerprint :: "(string \<times> string) list"

record query =
  qy_tree :: string
  qy_task :: string
  qy_args :: "string list"
  qy_def_hash :: string
  qy_labels :: "string list"
  qy_host :: string

record host_now =
  hn_labels :: "string list"
  hn_earned :: bool
  hn_earned_fingerprint :: "(string \<times> string) list"
  hn_current_fingerprint :: "(string \<times> string) list"
  hn_quarantined :: bool
  hn_standing_unverified :: bool
  hn_reference :: bool
  hn_reference_fingerprint :: "(string \<times> string) list"

definition host_now_from_info :: "info \<Rightarrow> string \<Rightarrow> bool \<Rightarrow> bool \<Rightarrow> host_now" where
  "host_now_from_info i label is_reference never_quarantined =
     (let h = \<lparr>hn_labels = in_labels i, hn_earned = False, hn_earned_fingerprint = [], hn_current_fingerprint = in_fingerprint i,
               hn_quarantined = False, hn_standing_unverified = False, hn_reference = False, hn_reference_fingerprint = []\<rparr>
      in if is_reference then h\<lparr>hn_reference := True, hn_reference_fingerprint := in_fingerprint i\<rparr>
         else if label \<in> set (in_labels i) then h\<lparr>hn_earned := True, hn_earned_fingerprint := in_fingerprint i\<rparr>
         else if \<not> never_quarantined then h\<lparr>hn_standing_unverified := True\<rparr>
         else h)"

section \<open>The conditions\<close>

definition same_work :: "entry \<Rightarrow> query \<Rightarrow> bool" where
  "same_work e q \<longleftrightarrow> et_tree e = qy_tree q \<and> et_task e = qy_task q \<and> et_def_hash e = qy_def_hash q \<and> et_args e = qy_args q"

definition host_covers_labels :: "host_now \<Rightarrow> string list \<Rightarrow> bool" where
  "host_covers_labels h job_labels = list_all (\<lambda>l. l \<in> set (hn_labels h)) job_labels"

definition same_fingerprint :: "(string \<times> string) list \<Rightarrow> (string \<times> string) list \<Rightarrow> bool" where
  "same_fingerprint a b =
     (if length a = 0 \<or> length a \<noteq> length b then False else list_all (\<lambda>(k, v). case map_of b k of None \<Rightarrow> False | Some w \<Rightarrow> w = v) a)"

definition host_still_valid :: "entry \<Rightarrow> host_now \<Rightarrow> bool" where
  "host_still_valid e h =
     (if hn_earned h \<and> same_fingerprint (hn_earned_fingerprint h) (et_fingerprint e) then True
      else hn_reference h \<and> same_fingerprint (hn_reference_fingerprint h) (et_fingerprint e))"

definition same_host_only :: "entry \<Rightarrow> query \<Rightarrow> host_now \<Rightarrow> bool" where
  "same_host_only e q h \<longleftrightarrow> \<not> hn_earned h \<and> \<not> hn_reference h \<and> \<not> hn_quarantined h \<and> \<not> hn_standing_unverified h \<and> et_host e \<noteq> []
     \<and> et_host e = qy_host q \<and> same_fingerprint (hn_current_fingerprint h) (et_fingerprint e)"

definition answers :: "entry \<Rightarrow> query \<Rightarrow> host_now \<Rightarrow> bool" where
  "answers e q h =
     (if \<not> same_work e q \<or> \<not> host_covers_labels h (qy_labels q) then False else host_still_valid e h \<or> same_host_only e q h)"

definition key_for_host :: "(key_object \<Rightarrow> string) \<Rightarrow> string \<Rightarrow> string \<Rightarrow> string list \<Rightarrow> string \<Rightarrow> string \<Rightarrow> string \<Rightarrow> host_now \<Rightarrow> string" where
  "key_for_host digest tree task args def_hash platform arch h =
     reuse_key digest \<lparr>kp_tree = tree, kp_task = task, kp_args = args, kp_def_hash = def_hash, kp_os = platform, kp_arch = arch,
       kp_toolchain = hn_current_fingerprint h, kp_qualification = (if hn_earned h then hn_earned_fingerprint h else [])\<rparr>"

section \<open>Equality of fingerprints\<close>

lemma map_of_same:
  assumes d: "distinct (map fst a)" "distinct (map fst b)" and l: "length a = length b" and s: "set a \<subseteq> set b"
  shows "map_of a = map_of b"
proof -
  have "set a = set b"
    using d l s by (intro card_subset_eq) (simp_all add: distinct_card distinct_map)
  then show ?thesis using d by (simp add: map_of_inject_set)
qed

lemma same_fingerprint_iff:
  assumes d: "distinct (map fst a)" "distinct (map fst b)"
  shows "same_fingerprint a b \<longleftrightarrow> a \<noteq> [] \<and> map_of a = map_of b"
proof
  assume "same_fingerprint a b"
  then have "a \<noteq> []" "length a = length b" and "\<forall>x \<in> set a. map_of b (fst x) = Some (snd x)"
    by (auto simp: same_fingerprint_def list_all_iff split: if_splits option.splits)
  moreover from this(3) have "set a \<subseteq> set b" by (metis map_of_SomeD prod.collapse subsetI)
  ultimately show "a \<noteq> [] \<and> map_of a = map_of b" using map_of_same [OF d] by blast
next
  assume r: "a \<noteq> [] \<and> map_of a = map_of b"
  then have "set a = set b" using d map_of_inject_set by blast
  then have "length a = length b" using d by (metis distinct_card distinct_map)
  then show "same_fingerprint a b"
    using r d(1) unfolding same_fingerprint_def list_all_iff by (auto simp: map_of_is_SomeI simp flip: r [THEN conjunct2])
qed

section \<open>Properties\<close>

text \<open>
  C21: what \<open>/v1/info\<close> of a host says decides whether a result it made answers a submission. The work
  is the same in tree, task, arguments and definition; the host advertises every label the job asks
  for; and its toolchain, which it must have reported, is what it was when it made the result. Then the
  result answers everybody if the host is the reference or advertises the task's label, and otherwise
  only a submission from that host itself, and only when it is known never to have lost the label.
\<close>

theorem reuse_rule:
  assumes "distinct (map fst (in_fingerprint i))" "distinct (map fst (et_fingerprint e))"
  shows "answers e q (host_now_from_info i label is_ref never_q) \<longleftrightarrow>
     et_tree e = qy_tree q \<and> et_task e = qy_task q \<and> et_args e = qy_args q \<and> et_def_hash e = qy_def_hash q
     \<and> set (qy_labels q) \<subseteq> set (in_labels i)
     \<and> in_fingerprint i \<noteq> [] \<and> map_of (in_fingerprint i) = map_of (et_fingerprint e)
     \<and> (is_ref \<or> label \<in> set (in_labels i) \<or> (never_q \<and> et_host e \<noteq> [] \<and> et_host e = qy_host q))"
  using same_fingerprint_iff [OF assms]
  by (auto simp: answers_def host_now_from_info_def host_still_valid_def same_host_only_def same_work_def host_covers_labels_def
      list_all_iff Let_def)

definition sample_entry :: entry where
  "sample_entry = \<lparr>et_tree = ''t1'', et_task = ''test'', et_args = [], et_def_hash = ''h'', et_host = ''m1'',
     et_fingerprint = [(''node'', ''24.14.0''), (''go'', ''1.26.0'')]\<rparr>"

definition sample_query :: query where
  "sample_query = \<lparr>qy_tree = ''t1'', qy_task = ''test'', qy_args = [], qy_def_hash = ''h'', qy_labels = [''os:linux''], qy_host = ''m2''\<rparr>"

definition sample_info :: info where
  "sample_info = (pe_info (sample_peer ''m1'' (Fin 1)))\<lparr>in_labels := [''os:linux'', ''task:purdex/test''],
     in_fingerprint := [(''go'', ''1.26.0''), (''node'', ''24.14.0'')]\<rparr>"

text \<open>The entry answers another host under the earned label, and nobody else's submission once the label is gone.\<close>

theorem reuse_rule_witness:
  "answers sample_entry sample_query (host_now_from_info sample_info ''task:purdex/test'' False False)
   \<and> \<not> answers sample_entry sample_query (host_now_from_info (sample_info\<lparr>in_labels := [''os:linux'']\<rparr>) ''task:purdex/test'' False True)"
  by (subst reuse_rule, simp_all add: sample_entry_def sample_query_def sample_info_def sample_peer_def reuse_rule)
     (auto simp: fun_eq_iff)

end
