(* ===== verification/Drift.thy ===== *)
theory Drift
  imports Reuse
begin

text \<open>
  How a host notices that what it earned a task label on has moved (package \<open>drift\<close>): the decision, and
  the watcher that takes labels away and drops the results made under them. The earned-label table and
  the result cache are outside; what their calls answer is an argument and what the watcher asks them to
  do is the list of its effects.
\<close>

section \<open>The decision\<close>

definition earned_label_earned :: string where
  "earned_label_earned = ''earned''"

definition earned_label_quarantined :: string where
  "earned_label_quarantined = ''quarantined''"

record earned_label =
  el_label :: string
  el_state :: string
  el_fingerprint :: "(string \<times> string) list"
  el_snapshot :: string
  el_granted_at :: int

definition os_version_key :: string where
  "os_version_key = ''os_version''"

definition tool_key :: "string \<Rightarrow> string option" where
  "tool_key need =
     (case cut_prefix ''tool:'' need of None \<Rightarrow> None
      | Some name \<Rightarrow> (let name = rev (dropWhile (\<lambda>c. is_digit c \<or> c = CHR ''.'') (rev name)) in if name = [] then None else Some name))"

definition keys_for :: "string list \<Rightarrow> string list" where
  "keys_for needs =
     sort (fold (\<lambda>n keys. case tool_key n of Some k \<Rightarrow> if k \<in> set keys then keys else keys @ [k] | None \<Rightarrow> keys) needs [os_version_key])"

definition changed_keys :: "(string \<times> string) list \<Rightarrow> (string \<times> string) list \<Rightarrow> string list \<Rightarrow> string list" where
  "changed_keys stored now_fp keys =
     filter (\<lambda>k. map_of stored k = None \<or> map_of now_fp k = None \<or> map_of stored k \<noteq> map_of now_fp k) keys"

record revocation =
  rv_label :: string
  rv_keys :: "string list"

definition revoked_row :: "(string \<Rightarrow> string list option) \<Rightarrow> (string \<times> string) list \<Rightarrow> earned_label \<Rightarrow> revocation option" where
  "revoked_row needs now_fp e =
     (if el_state e \<noteq> earned_label_earned then None
      else case needs (el_label e) of None \<Rightarrow> None
           | Some n \<Rightarrow> (let keys = changed_keys (el_fingerprint e) now_fp (keys_for n)
                       in if keys \<noteq> [] then Some \<lparr>rv_label = el_label e, rv_keys = keys\<rparr> else None))"

text \<open>The rows have one label each, so sorting by label leaves no choice.\<close>

definition revoked :: "earned_label list \<Rightarrow> (string \<Rightarrow> string list option) \<Rightarrow> (string \<times> string) list \<Rightarrow> revocation list" where
  "revoked rows needs now_fp = sort_key rv_label (List.map_filter (revoked_row needs now_fp) rows)"

section \<open>The watcher\<close>

record drift_task =
  dt_label :: string
  dt_needs :: "string list"
  dt_is_reference :: bool

record watcher =
  wa_seen :: "(string \<times> (string \<times> string) list) list"
  wa_pending :: "string list"

datatype drift_effect = DeletedLabel string | DroppedEntries string | RefreshedLabels

type_synonym watching = "watcher \<times> drift_effect list"

text \<open>
  What the outside answers during one record: the tasks, the rows of the earned labels (none when the
  table cannot be read; damaged rows are left out), whether a label could be deleted, and whether the
  entries of a label could be dropped, in each of the three places where that is tried.
\<close>

datatype drop_place = ForReference | ForPending | ForRevoked

record drift_io =
  io_tasks :: "drift_task list"
  io_rows :: "earned_label list option"
  io_delete_ok :: "string \<Rightarrow> bool"
  io_drop_ok :: "drop_place \<Rightarrow> string \<Rightarrow> bool"
  io_tell :: bool \<comment> \<open>\<open>Config.Revoked\<close> is set\<close>

definition new_watcher :: watcher where
  "new_watcher = \<lparr>wa_seen = [], wa_pending = []\<rparr>"

definition drop_entries :: "bool \<Rightarrow> string \<Rightarrow> bool \<Rightarrow> watching \<Rightarrow> bool \<times> watching" where
  "drop_entries ok label track = (\<lambda>(w, es).
     if \<not> ok then (False, (if track then w\<lparr>wa_pending := List.insert label (wa_pending w)\<rparr> else w), es)
     else (True, w\<lparr>wa_pending := removeAll label (wa_pending w)\<rparr>, es @ [DroppedEntries label]))"

definition retry_one :: "drift_io \<Rightarrow> earned_label list \<Rightarrow> string \<Rightarrow> watching \<Rightarrow> watching" where
  "retry_one io rows label = (\<lambda>(w, es).
     if label \<in> el_label ` set rows then (w\<lparr>wa_pending := removeAll label (wa_pending w)\<rparr>, es)
     else snd (drop_entries (io_drop_ok io ForPending label) label True (w, es)))"

definition retry_pending :: "drift_io \<Rightarrow> earned_label list \<Rightarrow> watching \<Rightarrow> watching" where
  "retry_pending io rows = (\<lambda>(w, es). fold (retry_one io rows) (wa_pending w) (w, es))"

definition same_keys :: "(string \<times> string) list \<Rightarrow> (string \<times> string) list \<Rightarrow> bool" where
  "same_keys a b =
     (if length a \<noteq> length b then False else list_all (\<lambda>(k, v). case map_of b k of None \<Rightarrow> False | Some w \<Rightarrow> w = v) a)"

definition depended_on :: "(string \<times> string) list \<Rightarrow> string list \<Rightarrow> (string \<times> string) list" where
  "depended_on now_fp keys = List.map_filter (\<lambda>k. map_option (Pair k) (map_of now_fp k)) keys"

definition watch_one :: "drift_io \<Rightarrow> (string \<times> string) list \<Rightarrow> drift_task \<Rightarrow> watching \<Rightarrow> watching" where
  "watch_one io now_fp t = (\<lambda>(w, es).
     if \<not> dt_is_reference t then (w, es)
     else let now_keys = depended_on now_fp (keys_for (dt_needs t));
              note_it = (\<lambda>(w, es). (w\<lparr>wa_seen := AList.update (dt_label t) now_keys (wa_seen w)\<rparr>, es))
          in case map_of (wa_seen w) (dt_label t) of
               None \<Rightarrow> note_it (w, es)
             | Some before \<Rightarrow>
                 if same_keys before now_keys then note_it (w, es)
                 else (case drop_entries (io_drop_ok io ForReference (dt_label t)) (dt_label t) False (w, es) of
                         (dropped, w2) \<Rightarrow> if dropped then note_it w2 else w2))"

definition watch_references :: "drift_io \<Rightarrow> (string \<times> string) list \<Rightarrow> watching \<Rightarrow> watching" where
  "watch_references io now_fp s =
     (let (w, es) = fold (watch_one io now_fp) (io_tasks io) s;
          live = map dt_label (filter dt_is_reference (io_tasks io))
      in (w\<lparr>wa_seen := filter (\<lambda>(l, _). l \<in> set live) (wa_seen w)\<rparr>, es))"

definition revoke_one :: "drift_io \<Rightarrow> revocation \<Rightarrow> bool \<times> watching \<Rightarrow> bool \<times> watching" where
  "revoke_one io r = (\<lambda>(told, w, es).
     if \<not> io_delete_ok io (rv_label r) then (told, w, es)
     else (True, snd (drop_entries (io_drop_ok io ForRevoked (rv_label r)) (rv_label r) True (w, es @ [DeletedLabel (rv_label r)]))))"

text \<open>The needs by label: of two tasks with one label the later one.\<close>

definition needs_of :: "drift_task list \<Rightarrow> string \<Rightarrow> string list option" where
  "needs_of tasks = map_of (rev (map (\<lambda>t. (dt_label t, dt_needs t)) tasks))"

definition on_facts :: "drift_io \<Rightarrow> (string \<times> string) list \<Rightarrow> watcher \<Rightarrow> watching" where
  "on_facts io now_fp w0 =
     (let s1 = watch_references io now_fp (w0, []) in
      case io_rows io of None \<Rightarrow> s1
      | Some rows \<Rightarrow>
          (let s2 = retry_pending io rows s1;
               (told, w3, es3) = fold (revoke_one io) (revoked rows (needs_of (io_tasks io)) now_fp) (False, s2)
           in (w3, if told \<and> io_tell io then es3 @ [RefreshedLabels] else es3)))"

section \<open>What drifted\<close>

lemma keys_for_set: "set (keys_for needs) = insert os_version_key {k. \<exists>n \<in> set needs. tool_key n = Some k}"
proof -
  have "set (fold (\<lambda>n keys. case tool_key n of Some k \<Rightarrow> if k \<in> set keys then keys else keys @ [k] | None \<Rightarrow> keys) needs ks)
      = set ks \<union> {k. \<exists>n \<in> set needs. tool_key n = Some k}" for ks
    by (induction needs arbitrary: ks) (auto split: option.splits)
  then show ?thesis by (simp add: keys_for_def)
qed

text \<open>The label is trusted while every key it depends on is recorded and has the recorded value.\<close>

definition trusted :: "(string \<times> string) list \<Rightarrow> (string \<times> string) list \<Rightarrow> string list \<Rightarrow> bool" where
  "trusted stored now_fp needs \<longleftrightarrow>
     (\<forall>k \<in> insert os_version_key {k. \<exists>n \<in> set needs. tool_key n = Some k}. \<exists>v. map_of stored k = Some v \<and> map_of now_fp k = Some v)"

lemma changed_Nil_iff: "changed_keys stored now_fp (keys_for needs) = [] \<longleftrightarrow> trusted stored now_fp needs"
  unfolding changed_keys_def filter_empty_conv keys_for_set trusted_def by (intro ball_cong refl) auto

lemma set_map_filter: "set (List.map_filter f xs) = {y. \<exists>x \<in> set xs. f x = Some y}"
  by (induction xs) (auto split: option.splits)

lemma revoked_row_iff:
  "(\<exists>r. revoked_row needs now_fp e = Some r \<and> rv_label r = l) \<longleftrightarrow>
     el_label e = l \<and> el_state e = earned_label_earned \<and> (\<exists>n. needs l = Some n \<and> \<not> trusted (el_fingerprint e) now_fp n)"
  by (auto simp: revoked_row_def Let_def changed_Nil_iff split: option.splits)

lemma revoked_labels:
  "l \<in> rv_label ` set (revoked rows needs now_fp) \<longleftrightarrow>
     (\<exists>e \<in> set rows. el_label e = l \<and> el_state e = earned_label_earned \<and> (\<exists>n. needs l = Some n \<and> \<not> trusted (el_fingerprint e) now_fp n))"
proof -
  have "l \<in> rv_label ` set (revoked rows needs now_fp) \<longleftrightarrow> (\<exists>e \<in> set rows. \<exists>r. revoked_row needs now_fp e = Some r \<and> rv_label r = l)"
    by (auto simp: revoked_def set_map_filter)
  then show ?thesis unfolding revoked_row_iff .
qed

section \<open>What the watcher does about it\<close>

lemma fold_revoke:
  assumes "fold (revoke_one io) rs (told, w, es) = (told', w', es')"
  shows "\<exists>new. es' = es @ new \<and> {l. DeletedLabel l \<in> set new} = {l \<in> rv_label ` set rs. io_delete_ok io l}
    \<and> (told' \<longleftrightarrow> told \<or> (\<exists>l \<in> rv_label ` set rs. io_delete_ok io l)) \<and> RefreshedLabels \<notin> set new"
  using assms
proof (induction rs arbitrary: told w es)
  case (Cons r rs)
  obtain told1 w1 es1 where r: "revoke_one io r (told, w, es) = (told1, w1, es1)" by (metis prod_cases3)
  then obtain new where "es' = es1 @ new" "{l. DeletedLabel l \<in> set new} = {l \<in> rv_label ` set rs. io_delete_ok io l}"
    "told' \<longleftrightarrow> told1 \<or> (\<exists>l \<in> rv_label ` set rs. io_delete_ok io l)" "RefreshedLabels \<notin> set new"
    using Cons by fastforce
  then show ?case
    using r by (auto simp: revoke_one_def drop_entries_def split: if_splits intro!: exI)
qed simp

text \<open>The entries of a label are accounted for: dropped, or remembered to be dropped.\<close>

definition settled :: "string \<Rightarrow> watching \<Rightarrow> bool" where
  "settled l s \<longleftrightarrow> l \<in> set (wa_pending (fst s)) \<or> DroppedEntries l \<in> set (snd s)"

lemma settled_drop: "settled l s \<Longrightarrow> settled l (snd (drop_entries ok label track s))" "settled l (snd (drop_entries ok l True s))"
  by (cases s; auto simp: settled_def drop_entries_def)+

lemma settled_effect: "settled l (w, es) \<Longrightarrow> settled l (w, es @ [e])"
  by (auto simp: settled_def)

lemma settled_revoke: "settled l s \<Longrightarrow> settled l (snd (revoke_one io r (told, s)))"
  by (cases s) (auto simp: revoke_one_def intro: settled_drop(1) settled_effect)

lemma fold_settled: "settled l s \<Longrightarrow> settled l (snd (fold (revoke_one io) rs (told, s)))"
proof (induction rs arbitrary: told s)
  case (Cons r rs)
  then show ?case using settled_revoke [OF Cons.prems, of io r told] by (metis fold_simps(2) prod.collapse)
qed simp

lemma revoked_settled:
  "l \<in> rv_label ` set rs \<Longrightarrow> io_delete_ok io l \<Longrightarrow> settled l (snd (fold (revoke_one io) rs (told, s)))"
proof (induction rs arbitrary: told s)
  case (Cons r rs)
  obtain told1 s1 where r: "revoke_one io r (told, s) = (told1, s1)" by (metis prod.collapse)
  show ?case
  proof (cases "rv_label r = l")
    case True
    then have "settled l s1" using r Cons.prems settled_drop(2) by (cases s) (auto simp: revoke_one_def)
    then show ?thesis using fold_settled r by simp
  qed (use Cons r in auto)
qed simp

text \<open>The first two parts of a record delete nothing.\<close>

definition only_drops :: "drift_effect list \<Rightarrow> bool" where
  "only_drops es \<longleftrightarrow> (\<forall>e \<in> set es. \<exists>l. e = DroppedEntries l)"

lemma only_drops_drop: "only_drops (snd s) \<Longrightarrow> only_drops (snd (snd (drop_entries ok label track s)))"
  by (cases s) (auto simp: only_drops_def drop_entries_def)

lemma only_drops_retry: "only_drops (snd s) \<Longrightarrow> only_drops (snd (fold (retry_one io rows) ls s))"
proof (induction ls arbitrary: s)
  case (Cons l ls)
  have "only_drops (snd (retry_one io rows l s))"
    using Cons.prems only_drops_drop [of s] by (cases s) (auto simp: retry_one_def)
  then show ?case using Cons.IH by simp
qed simp

lemma only_drops_watch: "only_drops (snd s) \<Longrightarrow> only_drops (snd (fold (watch_one io now_fp) ts s))"
proof (induction ts arbitrary: s)
  case (Cons t ts)
  have "only_drops (snd (watch_one io now_fp t s))"
    using Cons.prems only_drops_drop [of s "io_drop_ok io ForReference (dt_label t)" "dt_label t" False]
    by (cases s) (auto simp: watch_one_def Let_def split: option.splits prod.splits)
  then show ?case using Cons.IH by simp
qed simp

lemma only_drops_before: "only_drops (snd (retry_pending io rows (watch_references io now_fp (w, []))))"
proof -
  have "only_drops (snd (fold (watch_one io now_fp) (io_tasks io) (w, [])))"
    by (rule only_drops_watch) (simp add: only_drops_def)
  then have "only_drops (snd (watch_references io now_fp (w, [])))"
    by (auto simp: watch_references_def split: prod.split)
  then show ?thesis
    using only_drops_retry by (cases "watch_references io now_fp (w, [])") (simp add: retry_pending_def)
qed

text \<open>Entries that could not be dropped are not forgotten while their label is not earned again.\<close>

lemma settled_watch: "settled l s \<Longrightarrow> settled l (watch_one io now_fp t s)"
proof -
  assume s: "settled l s"
  have "settled l (w\<lparr>wa_seen := x\<rparr>, es)" if "settled l (w, es)" for w x es using that by (simp add: settled_def)
  then show ?thesis
    using s settled_drop(1) [OF s, of "io_drop_ok io ForReference (dt_label t)" "dt_label t" False]
    by (cases s) (auto simp: watch_one_def Let_def split: option.splits prod.splits)
qed

lemma settled_retry: "settled l s \<Longrightarrow> l \<notin> el_label ` set rows \<Longrightarrow> settled l (retry_one io rows k s)"
  using settled_drop(1) [of l s] by (cases s) (auto simp: retry_one_def settled_def)

lemma settled_fold: "(\<And>x s. settled l s \<Longrightarrow> settled l (f x s)) \<Longrightarrow> settled l s \<Longrightarrow> settled l (fold f xs s)"
  by (induction xs arbitrary: s) auto

lemma pending_kept:
  assumes "l \<in> set (wa_pending w0)" and "\<And>rows. io_rows io = Some rows \<Longrightarrow> l \<notin> el_label ` set rows"
  shows "settled l (on_facts io now_fp w0)"
proof -
  have "settled l (fold (watch_one io now_fp) (io_tasks io) (w0, []))"
    by (rule settled_fold) (use assms(1) in \<open>auto simp: settled_def [of l "(w0, [])"] intro: settled_watch\<close>)
  then have one: "settled l (watch_references io now_fp (w0, []))"
    by (auto simp: watch_references_def settled_def split: prod.split)
  show ?thesis
  proof (cases "io_rows io")
    case (Some rows)
    have two: "settled l (retry_pending io rows (watch_references io now_fp (w0, [])))"
      using one settled_fold [OF settled_retry] assms(2) [OF Some]
      by (cases "watch_references io now_fp (w0, [])") (simp add: retry_pending_def)
    show ?thesis
      using fold_settled [OF two, of io "revoked rows (needs_of (io_tasks io)) now_fp" False] Some
      by (auto simp: on_facts_def Let_def settled_def split: prod.split)
  qed (use one in \<open>simp add: on_facts_def\<close>)
qed

section \<open>Properties\<close>

text \<open>
  C20: on every record of the facts whose label table can be read, the watcher takes away exactly the
  earned labels of known tasks for which the operating system's version or a tool the task needs is not,
  or not any more, what it was when the label was earned, as far as the table lets it; the results made
  under such a label are dropped or remembered to be dropped; and the host is told to stop advertising
  exactly when a label went.
\<close>

theorem drift_rule:
  assumes rows: "io_rows io = Some rows" and s: "on_facts io now_fp w0 = (w, es)" and "io_tell io"
  shows "{l. DeletedLabel l \<in> set es} =
      {l. io_delete_ok io l \<and> (\<exists>e \<in> set rows. el_label e = l \<and> el_state e = earned_label_earned
            \<and> (\<exists>n. needs_of (io_tasks io) l = Some n \<and> \<not> trusted (el_fingerprint e) now_fp n))}
    \<and> (\<forall>l. DeletedLabel l \<in> set es \<longrightarrow> l \<in> set (wa_pending w) \<or> DroppedEntries l \<in> set es)
    \<and> (RefreshedLabels \<in> set es \<longleftrightarrow> (\<exists>l. DeletedLabel l \<in> set es))"
proof -
  define s2 where "s2 = retry_pending io rows (watch_references io now_fp (w0, []))"
  define rs where "rs = revoked rows (needs_of (io_tasks io)) now_fp"
  obtain told w3 es3 where f: "fold (revoke_one io) rs (False, s2) = (told, w3, es3)" by (metis prod_cases3)
  then obtain new where new: "es3 = snd s2 @ new" "{l. DeletedLabel l \<in> set new} = {l \<in> rv_label ` set rs. io_delete_ok io l}"
    "told \<longleftrightarrow> (\<exists>l \<in> rv_label ` set rs. io_delete_ok io l)" "RefreshedLabels \<notin> set new"
    using fold_revoke [of io rs False "fst s2" "snd s2"] by auto
  have d: "DeletedLabel l \<notin> set (snd s2)" "RefreshedLabels \<notin> set (snd s2)" for l
    using only_drops_before [of io rows now_fp w0] by (auto simp: s2_def only_drops_def)
  have e: "w = w3" "es = (if told then es3 @ [RefreshedLabels] else es3)"
    using s rows f \<open>io_tell io\<close> by (auto simp: on_facts_def s2_def rs_def Let_def)
  have del: "DeletedLabel l \<in> set es \<longleftrightarrow> l \<in> rv_label ` set rs \<and> io_delete_ok io l" for l
    using e(2) new(1,2) d(1) by auto
  have "settled l (w3, es3)" if "DeletedLabel l \<in> set es" for l
    using revoked_settled [of l rs io False s2] f that del by simp
  then have "\<forall>l. DeletedLabel l \<in> set es \<longrightarrow> l \<in> set (wa_pending w) \<or> DroppedEntries l \<in> set es"
    using e by (auto simp: settled_def)
  moreover have "RefreshedLabels \<in> set es \<longleftrightarrow> (\<exists>l. DeletedLabel l \<in> set es)"
    using e(2) new(1,3,4) d(2) unfolding del by auto
  ultimately show ?thesis
    unfolding del rs_def revoked_labels by blast
qed

text \<open>Go is upgraded under an earned label: the label goes and, the cache being busy, its results are remembered.\<close>

definition sample_drift :: drift_io where
  "sample_drift = \<lparr>io_tasks = [\<lparr>dt_label = ''task:purdex/test'', dt_needs = [''os:linux'', ''tool:go1.26''], dt_is_reference = False\<rparr>],
     io_rows = Some [\<lparr>el_label = ''task:purdex/test'', el_state = earned_label_earned,
        el_fingerprint = [(''os_version'', ''6.1''), (''go'', ''1.26.0'')], el_snapshot = '''', el_granted_at = 0\<rparr>],
     io_delete_ok = (\<lambda>_. True), io_drop_ok = (\<lambda>_ _. False), io_tell = True\<rparr>"

theorem drift_rule_witness:
  "on_facts sample_drift [(''os_version'', ''6.1''), (''go'', ''1.26.1'')] new_watcher =
     (\<lparr>wa_seen = [], wa_pending = [''task:purdex/test'']\<rparr>, [DeletedLabel ''task:purdex/test'', RefreshedLabels])
   \<and> \<not> trusted [(''os_version'', ''6.1''), (''go'', ''1.26.0'')] [(''os_version'', ''6.1''), (''go'', ''1.26.1'')] [''os:linux'', ''tool:go1.26'']"
proof -
  let ?now = "[(''os_version'', ''6.1''), (''go'', ''1.26.1'')]"
  have run: "on_facts sample_drift ?now new_watcher =
     (\<lparr>wa_seen = [], wa_pending = [''task:purdex/test'']\<rparr>, [DeletedLabel ''task:purdex/test'', RefreshedLabels])" by code_simp
  have "io_tell sample_drift" and rows: "io_rows sample_drift = Some [\<lparr>el_label = ''task:purdex/test'', el_state = earned_label_earned,
        el_fingerprint = [(''os_version'', ''6.1''), (''go'', ''1.26.0'')], el_snapshot = '''', el_granted_at = 0\<rparr>]"
    and needs: "needs_of (io_tasks sample_drift) ''task:purdex/test'' = Some [''os:linux'', ''tool:go1.26'']"
    by (simp_all add: sample_drift_def needs_of_def)
  from drift_rule [OF rows run this(1)] have "''task:purdex/test'' \<in> {l. DeletedLabel l \<in> set [DeletedLabel ''task:purdex/test'', RefreshedLabels]}
      \<longleftrightarrow> io_delete_ok sample_drift ''task:purdex/test'' \<and> \<not> trusted [(''os_version'', ''6.1''), (''go'', ''1.26.0'')] ?now [''os:linux'', ''tool:go1.26'']"
    using needs by simp
  then show ?thesis using run by simp
qed

end
