(* ===== verification/Qualify.thy ===== *)
theory Qualify
  imports Drift
begin

text \<open>
  Qualification (package \<open>qualify\<close>): whether the two halves of a pair agree, which tasks a host should
  start a pair for, what a reader is shown of each task, and the coordinator that submits pairs, settles
  them and grants labels. What the coordinator reads of the queue, the manifests and the host is an
  argument, each reading its own; what it asks of the queue and the store is the list of its effects. The
  text of a verdict is kept as the message with its arguments.
\<close>

section \<open>Comparing two halves\<close>

record half =
  hf_want :: string
  hf_result :: "result option"

datatype pair_outcome = OutcomeMatch | OutcomeMismatch | OutcomeVoid

text \<open>Why a pair ended as it did: one constructor a message, with what its format is given.\<close>

datatype verdict_why = W_no_result string | W_no_exit string string | W_other_host string string string | W_exits int int | W_no_summaries | W_no_tests
  | W_one_summary | W_no_digest | W_passed_differ | W_counts int int int int | W_cut int int int int | W_failing_differ | W_same
  | W_gone | W_not_run | W_toolchain | W_definition | W_not_saved string | W_prepare string | W_candidate string | W_reference string

record verdict =
  vd_outcome :: pair_outcome
  vd_why :: verdict_why

abbreviation void :: "verdict_why \<Rightarrow> verdict" where
  "void w \<equiv> \<lparr>vd_outcome = OutcomeVoid, vd_why = w\<rparr>"

definition plain_kind :: "string \<Rightarrow> bool" where
  "plain_kind kind \<longleftrightarrow> kind = '''' \<or> kind = ''plain''"

definition no_tests :: "summary option \<Rightarrow> bool" where
  "no_tests s = (case s of None \<Rightarrow> False
     | Some s \<Rightarrow> sm_passed s = 0 \<and> sm_failed s = 0 \<and> sm_skipped s = 0 \<and> length (sm_failures s) = 0 \<and> sm_passed_digest s = '''')"

definition truncated :: "summary \<Rightarrow> bool" where
  "truncated s \<longleftrightarrow> sm_failed s > int (length (sm_failures s))"

definition reason_of :: "result \<Rightarrow> string" where
  "reason_of r = (if r_reason r \<noteq> '''' then r_reason r else ''no reason given'')"

definition failure_set :: "summary \<Rightarrow> string list" where
  "failure_set s = sort (map (\<lambda>f. fl_file f @ [CHR 0x00] @ fl_name f) (sm_failures s))"

text \<open>The loop of \<open>Compare\<close> over the two halves: the first that did not run to an exit where it should.\<close>

definition half_void :: "string \<Rightarrow> half \<Rightarrow> verdict option" where
  "half_void name h =
     (case hf_result h of
        None \<Rightarrow> Some (void (W_no_result name))
      | Some r \<Rightarrow>
          if r_exit r = None then Some (void (W_no_exit name (reason_of r)))
          else if r_host r \<noteq> hf_want h then Some (void (W_other_host name (r_host r) (hf_want h)))
          else None)"

text \<open>The rest of \<open>Compare\<close>, on the two summaries, once the exit states are the same.\<close>

definition compare_summaries :: "summary option \<Rightarrow> summary option \<Rightarrow> string \<Rightarrow> verdict" where
  "compare_summaries hs rs kind =
     (if hs = None \<and> rs = None then \<lparr>vd_outcome = OutcomeMatch, vd_why = W_no_summaries\<rparr>
      else if plain_kind kind \<and> no_tests hs \<and> no_tests rs then \<lparr>vd_outcome = OutcomeMatch, vd_why = W_no_tests\<rparr>
      else case (hs, rs) of
        (Some h, Some r) \<Rightarrow>
          if sm_passed_digest h = '''' \<or> sm_passed_digest r = '''' then \<lparr>vd_outcome = OutcomeMismatch, vd_why = W_no_digest\<rparr>
          else if sm_passed_digest h \<noteq> sm_passed_digest r then \<lparr>vd_outcome = OutcomeMismatch, vd_why = W_passed_differ\<rparr>
          else if sm_passed h \<noteq> sm_passed r \<or> sm_failed h \<noteq> sm_failed r
            then \<lparr>vd_outcome = OutcomeMismatch, vd_why = W_counts (sm_passed h) (sm_failed h) (sm_passed r) (sm_failed r)\<rparr>
          else if truncated h \<or> truncated r
            then void (W_cut (int (length (sm_failures h))) (sm_failed h) (int (length (sm_failures r))) (sm_failed r))
          else if failure_set h \<noteq> failure_set r then \<lparr>vd_outcome = OutcomeMismatch, vd_why = W_failing_differ\<rparr>
          else \<lparr>vd_outcome = OutcomeMatch, vd_why = W_same\<rparr>
      | _ \<Rightarrow> \<lparr>vd_outcome = OutcomeMismatch, vd_why = W_one_summary\<rparr>)"

definition compare_halves :: "half \<Rightarrow> half \<Rightarrow> string \<Rightarrow> verdict" where
  "compare_halves host reference kind =
     (case half_void ''candidate'' host of
        Some v \<Rightarrow> v
      | None \<Rightarrow>
         (case half_void ''reference'' reference of
            Some v \<Rightarrow> v
          | None \<Rightarrow>
             (case (hf_result host, hf_result reference) of
                (Some h, Some r) \<Rightarrow>
                  (case (r_exit h, r_exit r) of
                     (Some he, Some re) \<Rightarrow>
                       if (he = 0) \<noteq> (re = 0) then \<lparr>vd_outcome = OutcomeMismatch, vd_why = W_exits he re\<rparr>
                       else compare_summaries (r_summary h) (r_summary r) kind
                   | _ \<Rightarrow> void W_not_run)
              | _ \<Rightarrow> void W_not_run)))"

section \<open>When to qualify\<close>

definition retry_after :: int where
  "retry_after = 24 * 3600 * 1000000000"

record qtask =
  qt_repo :: string
  qt_name :: string
  qt_reference :: string
  qt_args :: "string list"
  qt_needs :: "string list"
  qt_def_hash :: string
  qt_summary :: string
  qt_commit :: string

definition qt_identity :: "qtask \<Rightarrow> string" where
  "qt_identity t = join [CHR 0x01] [qt_repo t, qt_name t, qt_reference t, qt_def_hash t, join [CHR 0x00] (qt_args t), join [CHR 0x00] (sort (qt_needs t))]"

definition qt_label :: "qtask \<Rightarrow> string" where
  "qt_label t = task_label (qt_repo t) (qt_name t)"

record attempt =
  at_at :: int
  at_outcome :: pair_outcome
  at_fingerprint :: "(string \<times> string) list"

record qhost =
  qh_alias :: string
  qh_worker_on :: bool
  qh_labels :: "string list"
  qh_fingerprint :: "(string \<times> string) list"

record qinput =
  qi_now :: int
  qi_host :: qhost
  qi_tasks :: "qtask list"
  qi_earned :: "(string \<times> string) list"
  qi_in_flight :: "string list"
  qi_last :: "(string \<times> attempt) list"

datatype check_error = ErrNoQualify | ErrNoDefinition | ErrReference | ErrWorkerOff | ErrInFlight | ErrAlreadyHas | Missing "string list"

definition missing_labels :: "qinput \<Rightarrow> qtask \<Rightarrow> string list" where
  "missing_labels i t =
     (if ''repo:'' @ qt_repo t \<notin> set (qh_labels (qi_host i)) then [''repo:'' @ qt_repo t] else [])
     @ filter (\<lambda>n. has_prefix ''tool:'' n \<and> n \<notin> set (qh_labels (qi_host i))) (qt_needs t)"

definition check :: "qinput \<Rightarrow> qtask \<Rightarrow> check_error option" where
  "check i t =
     (if qt_reference t = '''' \<or> qt_name t = '''' then Some ErrNoQualify
      else if qt_def_hash t = '''' then Some ErrNoDefinition
      else if qt_reference t = qh_alias (qi_host i) then Some ErrReference
      else if \<not> qh_worker_on (qi_host i) then Some ErrWorkerOff
      else if map_of (qi_earned i) (qt_label t) = Some earned_label_earned then Some ErrAlreadyHas
      else if qt_label t \<in> set (qi_in_flight i) then Some ErrInFlight
      else let m = missing_labels i t in if length m > 0 then Some (Missing m) else None)"

definition retry_waits :: "qinput \<Rightarrow> qtask \<Rightarrow> bool" where
  "retry_waits i t =
     (case map_of (qi_last i) (qt_label t) of
        None \<Rightarrow> False
      | Some a \<Rightarrow> if \<not> same_fingerprint (at_fingerprint a) (qh_fingerprint (qi_host i)) then False else qi_now i - at_at a < retry_after)"

fun decide_from :: "qinput \<Rightarrow> string list \<Rightarrow> qtask list \<Rightarrow> qtask list" where
  "decide_from i seen [] = []"
| "decide_from i seen (t # ts) =
     (if qt_label t \<in> set seen \<or> check i t \<noteq> None \<or> retry_waits i t then decide_from i seen ts
      else t # decide_from i (qt_label t # seen) ts)"

definition decide :: "qinput \<Rightarrow> qtask list" where
  "decide i = decide_from i [] (qi_tasks i)"

datatype manual_error = Unknown_task string | Refused_task check_error

definition manual :: "qinput \<Rightarrow> string \<Rightarrow> manual_error + qtask" where
  "manual i repo_task =
     (case List.find (\<lambda>t. qt_repo t @ ''/'' @ qt_name t = repo_task) (qi_tasks i) of
        None \<Rightarrow> Inl (Unknown_task repo_task)
      | Some t \<Rightarrow> (case check i t of Some e \<Rightarrow> Inl (Refused_task e) | None \<Rightarrow> Inr t))"

section \<open>What a reader is shown\<close>

record qpair =
  qp_label :: string
  qp_candidate :: string
  qp_reference :: string
  qp_since :: int

record pair_record =
  pr_label :: string
  pr_outcome :: pair_outcome
  pr_why :: verdict_why
  pr_at :: int
  pr_candidate :: string
  pr_reference :: string

record qual_blocked =
  qb_code :: string
  qb_labels :: "string list"

record qual_last =
  ql_outcome :: pair_outcome
  ql_at :: int
  ql_why :: "verdict_why option" \<comment> \<open>\<open>None\<close> is the empty text\<close>

record qual_task =
  qv_label :: string
  qv_reference :: string
  qv_gone :: bool
  qv_hold :: string
  qv_progress :: string
  qv_earned :: "(int \<times> (string \<times> string) list \<times> string) option"
  qv_pair :: "(string \<times> string \<times> int) option"
  qv_last :: "qual_last option"
  qv_retry_at :: "int option"
  qv_blocked :: "qual_blocked option"

record host_qualification =
  hq_host :: string
  hq_tasks :: "qual_task list"
  hq_unreadable :: "string list"
  hq_recent :: "pair_record list"

definition earned_view :: "earned_label \<Rightarrow> int \<times> (string \<times> string) list \<times> string" where
  "earned_view r = (el_granted_at r, el_fingerprint r, el_snapshot r)"

definition reference_lacks :: "qinput \<Rightarrow> qtask \<Rightarrow> string list" where
  "reference_lacks i t =
     (if ''repo:'' @ qt_repo t \<notin> set (qh_labels (qi_host i)) then [''repo:'' @ qt_repo t] else [])
     @ filter (\<lambda>n. n \<notin> set (qh_labels (qi_host i))) (qt_needs t)"

definition blocked_view :: "qinput \<Rightarrow> qtask \<Rightarrow> check_error \<Rightarrow> qual_blocked" where
  "blocked_view i t e =
     (case e of
        ErrNoQualify \<Rightarrow> \<lparr>qb_code = ''no_definition'', qb_labels = []\<rparr>
      | ErrNoDefinition \<Rightarrow> \<lparr>qb_code = ''no_definition'', qb_labels = []\<rparr>
      | ErrReference \<Rightarrow> \<lparr>qb_code = ''reference_missing'', qb_labels = reference_lacks i t\<rparr>
      | ErrWorkerOff \<Rightarrow> \<lparr>qb_code = ''worker_off'', qb_labels = []\<rparr>
      | Missing ls \<Rightarrow> \<lparr>qb_code = ''missing'', qb_labels = ls\<rparr>
      | _ \<Rightarrow> \<lparr>qb_code = ''unknown'', qb_labels = []\<rparr>)"

definition last_why :: "pair_record list \<Rightarrow> string \<Rightarrow> pair_outcome \<Rightarrow> verdict_why option" where
  "last_why history label out = map_option pr_why (List.find (\<lambda>h. pr_label h = label \<and> pr_outcome h = out) (rev history))"

text \<open>The first switch of \<open>taskView\<close>: what the host holds of the task, and the row it is read from.\<close>

definition task_hold :: "qinput \<Rightarrow> qtask \<Rightarrow> earned_label option \<Rightarrow> string \<times> earned_label option" where
  "task_hold i t row =
     (if qt_reference t \<noteq> '''' \<and> qt_reference t = qh_alias (qi_host i) \<and> qt_label t \<in> set (qh_labels (qi_host i)) then (''reference'', None)
      else case row of
        None \<Rightarrow> (''none'', None)
      | Some r \<Rightarrow>
          if el_state r = earned_label_quarantined \<and> qt_reference t = qh_alias (qi_host i) then (''none'', None)
          else (el_state r, Some r))"

definition task_view :: "qinput \<Rightarrow> (string \<rightharpoonup> earned_label) \<Rightarrow> (string \<rightharpoonup> qpair) \<Rightarrow> pair_record list \<Rightarrow> qtask \<Rightarrow> qual_task" where
  "task_view i row_of pair_of history t =
     (let l = qt_label t;
          (hold, row) = task_hold i t (row_of l);
          tk = \<lparr>qv_label = l, qv_reference = qt_reference t, qv_gone = False, qv_hold = hold, qv_progress = '''',
                qv_earned = map_option earned_view row, qv_pair = None, qv_last = None, qv_retry_at = None, qv_blocked = None\<rparr>;
          has_it = (hold = ''reference'' \<or> hold = ''earned'')
      in case (if has_it then None else pair_of l) of
        Some p \<Rightarrow> tk\<lparr>qv_progress := ''pairing'', qv_pair := Some (qp_candidate p, qp_reference p, qp_since p)\<rparr>
      | None \<Rightarrow>
          if has_it then tk\<lparr>qv_progress := ''idle''\<rparr>
          else case check i t of
            Some e \<Rightarrow> tk\<lparr>qv_progress := ''blocked'', qv_blocked := Some (blocked_view i t e)\<rparr>
          | None \<Rightarrow>
              if retry_waits i t then
                (case map_of (qi_last i) l of
                   None \<Rightarrow> tk
                 | Some a \<Rightarrow> tk\<lparr>qv_progress := ''waiting'',
                     qv_last := Some \<lparr>ql_outcome = at_outcome a, ql_at = at_at a, ql_why = last_why history l (at_outcome a)\<rparr>,
                     qv_retry_at := Some (at_at a + retry_after)\<rparr>)
              else tk\<lparr>qv_progress := ''ready''\<rparr>)"

definition repo_of_label :: "string \<Rightarrow> string" where
  "repo_of_label label = takeWhile (\<lambda>c. c \<noteq> CHR ''/'') (case cut_prefix ''task:'' label of Some s \<Rightarrow> s | None \<Rightarrow> label)"

text \<open>An error by what it unwraps to: nothing, a \<open>ManifestError\<close>, the errors of an \<open>errors.Join\<close>, one error, or no more.\<close>

datatype err_tree = E_nil | E_manifest string | E_join "err_tree list" | E_wrap err_tree | E_leaf

fun walk_err :: "err_tree \<Rightarrow> string list" where
  "walk_err E_nil = []"
| "walk_err (E_manifest rp) = [rp]"
| "walk_err (E_join es) = concat (map walk_err es)"
| "walk_err (E_wrap e) = walk_err e"
| "walk_err E_leaf = []"

definition unreadable_repos :: "err_tree \<Rightarrow> string list" where
  "unreadable_repos e = remdups_adj (sort (walk_err e))"

lemma unreadable_repos_set: "set (unreadable_repos e) = set (walk_err e)" "sorted (unreadable_repos e)"
  by (simp_all add: unreadable_repos_def)

text \<open>The tasks of the view, one a label, and then the rows whose task is not listed and not hidden.\<close>

fun first_of_label :: "string list \<Rightarrow> qtask list \<Rightarrow> qtask list" where
  "first_of_label seen [] = []"
| "first_of_label seen (t # ts) = (if qt_label t \<in> set seen then first_of_label seen ts else t # first_of_label (qt_label t # seen) ts)"

fun gone_rows :: "string list \<Rightarrow> string list \<Rightarrow> earned_label list \<Rightarrow> qual_task list" where
  "gone_rows seen hidden [] = []"
| "gone_rows seen hidden (r # rs) =
     (if el_label r \<in> set seen \<or> repo_of_label (el_label r) \<in> set hidden then gone_rows seen hidden rs
      else \<lparr>qv_label = el_label r, qv_reference = '''', qv_gone = True, qv_hold = el_state r, qv_progress = ''idle'', qv_earned = Some (earned_view r),
            qv_pair = None, qv_last = None, qv_retry_at = None, qv_blocked = None\<rparr> # gone_rows (el_label r # seen) hidden rs)"

text \<open>\<open>BuildView\<close>'s input: what is earned and in flight is read from the rows and the pairs.\<close>

definition view_input :: "qinput \<Rightarrow> earned_label list \<Rightarrow> qpair list \<Rightarrow> qinput" where
  "view_input i rows pairs =
     i\<lparr>qi_earned := fold (\<lambda>r. AList.update (el_label r) (el_state r)) rows [], qi_in_flight := map qp_label pairs\<rparr>"

definition build_view :: "qinput \<Rightarrow> earned_label list \<Rightarrow> qpair list \<Rightarrow> pair_record list \<Rightarrow> string list \<Rightarrow> host_qualification" where
  "build_view i0 rows pairs history unreadable =
     (let i = view_input i0 rows pairs;
          row_of = map_of (fold (\<lambda>r. AList.update (el_label r) r) rows []);
          pair_of = map_of (fold (\<lambda>p. AList.update (qp_label p) p) pairs []);
          listed = first_of_label [] (qi_tasks i)
      in \<lparr>hq_host = qh_alias (qi_host i),
          hq_tasks = sort_key qv_label (map (task_view i row_of pair_of history) listed @ gone_rows (map qt_label listed) unreadable rows),
          hq_unreadable = unreadable, hq_recent = rev history\<rparr>)"

text \<open>\<open>HostQualification.Validate\<close>; a record's outcome is one of the three by its type.\<close>

fun tasks_validate :: "string list \<Rightarrow> qual_task list \<Rightarrow> go_error" where
  "tasks_validate seen [] = None"
| "tasks_validate seen (t # ts) =
     (if \<not> valid_task_label (qv_label t) then Some ''qualification: label''
      else if qv_label t \<in> set seen then Some ''qualification: repeats''
      else if qv_hold t = '''' \<or> qv_progress t = '''' then Some ''qualification: no hold or progress''
      else tasks_validate (qv_label t # seen) ts)"

definition host_qualification_validate :: "host_qualification \<Rightarrow> go_error" where
  "host_qualification_validate v =
     (if hq_host v = '''' then Some ''qualification: no host''
      else case tasks_validate [] (hq_tasks v) of Some e \<Rightarrow> Some e
      | None \<Rightarrow> if list_all (\<lambda>r. valid_task_label (pr_label r)) (hq_recent v) then None else Some ''qualification: recent label'')"

section \<open>The coordinator\<close>

record open_pair =
  op_task :: qtask
  op_identity :: string
  op_cand :: string
  op_ref :: string
  op_at :: int
  op_fp :: "(string \<times> string) list"
  op_tree :: string

record coordinator =
  co_pairs :: "(string \<times> open_pair) list"
  co_last :: "(string \<times> attempt) list"
  co_history :: "pair_record list"

datatype qual_effect = Q_submit job_submission | Q_cancel string | Q_save_label earned_label | Q_granted | Q_save_attempt string attempt | Q_delete_attempt string

definition max_history :: nat where
  "max_history = 50"

definition new_coordinator :: "(string \<times> attempt) list \<Rightarrow> coordinator" where
  "new_coordinator rows = \<lparr>co_pairs = [], co_last = fold (\<lambda>r. AList.update (fst r) (snd r)) rows [], co_history = []\<rparr>"

type_synonym coordinating = "coordinator \<times> qual_effect list"

definition remember_attempt :: "string \<Rightarrow> attempt \<Rightarrow> coordinating \<Rightarrow> coordinating" where
  "remember_attempt label a = (\<lambda>(c, es). (c\<lparr>co_last := AList.update label a (co_last c)\<rparr>, es @ [Q_save_attempt label a]))"

definition forget_attempt :: "string \<Rightarrow> coordinating \<Rightarrow> coordinating" where
  "forget_attempt label = (\<lambda>(c, es). (c\<lparr>co_last := AList.delete label (co_last c)\<rparr>, es @ [Q_delete_attempt label]))"

definition remember :: "pair_record \<Rightarrow> coordinating \<Rightarrow> coordinating" where
  "remember r = (\<lambda>(c, es). (let h = co_history c @ [r] in c\<lparr>co_history := (if length h > max_history then drop (length h - max_history) h else h)\<rparr>, es))"

text \<open>What settling one pair reads: the two jobs, the host and the manifests each time it looks, the clock, and whether the label was saved.\<close>

datatype get_answer = Got_job job | Job_not_found | Get_failed

record pair_io =
  pi_cand :: get_answer
  pi_ref :: get_answer
  pi_alias :: string
  pi_tasks_hidden :: "qtask list \<times> bool"
  pi_fingerprint :: "(string \<times> string) list"
  pi_tasks_now :: "qtask list"
  pi_now :: int
  pi_save :: "string option" \<comment> \<open>the error of \<open>SaveEarnedLabel\<close>\<close>

definition still_the_same_task :: "qtask list \<Rightarrow> open_pair \<Rightarrow> bool" where
  "still_the_same_task tasks p =
     (case List.find (\<lambda>t. qt_label t = qt_label (op_task p)) tasks of None \<Rightarrow> False | Some t \<Rightarrow> qt_identity t = op_identity p)"

definition task_hidden :: "qtask list \<times> bool \<Rightarrow> open_pair \<Rightarrow> bool" where
  "task_hidden tr p = (if \<not> snd tr then False else \<not> list_ex (\<lambda>t. qt_label t = qt_label (op_task p)) (fst tr))"

definition finish_pair :: "pair_io \<Rightarrow> string \<Rightarrow> open_pair \<Rightarrow> verdict \<Rightarrow> coordinating \<Rightarrow> coordinating" where
  "finish_pair io label p v0 ce =
     (let ce1 = (case ce of (c, es) \<Rightarrow> (c\<lparr>co_pairs := AList.delete label (co_pairs c)\<rparr>, es));
          v1 = (if vd_outcome v0 = OutcomeMatch \<and> \<not> same_fingerprint (op_fp p) (pi_fingerprint io) then void W_toolchain else v0);
          v2 = (if vd_outcome v1 = OutcomeMatch \<and> \<not> still_the_same_task (pi_tasks_now io) p then void W_definition else v1);
          row = \<lparr>el_label = label, el_state = earned_label_earned, el_fingerprint = op_fp p, el_snapshot = op_tree p, el_granted_at = pi_now io\<rparr>;
          (v3, ce2) = (if vd_outcome v2 = OutcomeMatch then
                         (case pi_save io of
                            Some e \<Rightarrow> (void (W_not_saved e), ce1)
                          | None \<Rightarrow> (v2, case forget_attempt label (case ce1 of (c, es) \<Rightarrow> (c, es @ [Q_save_label row])) of (c, es) \<Rightarrow> (c, es @ [Q_granted])))
                       else (v2, ce1));
          ce3 = (if vd_outcome v3 \<noteq> OutcomeMatch
                 then remember_attempt label \<lparr>at_at = pi_now io, at_outcome = vd_outcome v3, at_fingerprint = op_fp p\<rparr> ce2 else ce2)
      in remember \<lparr>pr_label = label, pr_outcome = vd_outcome v3, pr_why = vd_why v3, pr_at = pi_now io, pr_candidate = op_cand p, pr_reference = op_ref p\<rparr> ce3)"

definition cancel_quietly :: "open_pair \<Rightarrow> bool \<Rightarrow> bool \<Rightarrow> coordinating \<Rightarrow> coordinating" where
  "cancel_quietly p cand_done ref_done = (\<lambda>(c, es). (c, es @ (if cand_done then [] else [Q_cancel (op_cand p)]) @ (if ref_done then [] else [Q_cancel (op_ref p)])))"

definition ran_to_an_exit :: "job \<Rightarrow> bool" where
  "ran_to_an_exit j = (case j_result j of None \<Rightarrow> False | Some r \<Rightarrow> r_exit r \<noteq> None)"

definition over :: "get_answer \<Rightarrow> bool" where
  "over g = (case g of Got_job j \<Rightarrow> terminal (j_state j) | _ \<Rightarrow> True)"

definition settle_pair :: "pair_io \<Rightarrow> string \<Rightarrow> open_pair \<Rightarrow> coordinating \<Rightarrow> coordinating" where
  "settle_pair io label p ce =
     (if pi_cand io = Job_not_found \<or> pi_ref io = Job_not_found then
        finish_pair io label p (void W_gone) (cancel_quietly p (over (pi_cand io)) (over (pi_ref io)) ce)
      else case (pi_cand io, pi_ref io) of
        (Got_job cj, Got_job rj) \<Rightarrow>
          (let c_done = terminal (j_state cj); r_done = terminal (j_state rj) in
           if c_done \<and> r_done then
             (let v = compare_halves \<lparr>hf_want = pi_alias io, hf_result = j_result cj\<rparr>
                        \<lparr>hf_want = qt_reference (op_task p), hf_result = j_result rj\<rparr> (qt_summary (op_task p)) in
              if vd_outcome v = OutcomeMatch \<and> task_hidden (pi_tasks_hidden io) p then ce else finish_pair io label p v ce)
           else if (c_done \<and> \<not> ran_to_an_exit cj) \<or> (r_done \<and> \<not> ran_to_an_exit rj) then
             finish_pair io label p (void W_not_run) (cancel_quietly p c_done r_done ce)
           else ce)
      | _ \<Rightarrow> ce)"

definition settle_pairs :: "(string \<Rightarrow> pair_io) \<Rightarrow> coordinating \<Rightarrow> coordinating" where
  "settle_pairs io ce = fold (\<lambda>(label, p). settle_pair (io label) label p) (co_pairs (fst ce)) ce"

section \<open>Starting pairs\<close>

text \<open>One half of a pair, made from the task's own submission.\<close>

definition half_of :: "job_submission \<Rightarrow> string \<Rightarrow> string \<Rightarrow> string \<Rightarrow> string \<Rightarrow> job_submission" where
  "half_of base own cand role host =
     base\<lparr>s_class := qualify_class (s_class base), s_cacheable := False, s_interruptible := True, s_adhoc := False,
       s_supersede_key := qualify_key cand own role,
       s_submitter := \<lparr>sub_session = qualify_session, sub_ref = '''', sub_team = '''', sub_host = cand\<rparr>,
       s_labels := qualify_half_labels (s_labels base) own role host\<rparr>"

definition halves :: "job_submission \<Rightarrow> qtask \<Rightarrow> string \<Rightarrow> job_submission \<times> job_submission" where
  "halves base t cand =
     (half_of base (qt_label t) cand role_candidate cand, half_of base (qt_label t) cand role_reference (qt_reference t))"

definition note_pair :: "int \<Rightarrow> qtask \<Rightarrow> verdict_why \<Rightarrow> string \<Rightarrow> string \<Rightarrow> (string \<times> string) list \<Rightarrow> coordinating \<Rightarrow> coordinating" where
  "note_pair now t w cand ref fp ce =
     remember \<lparr>pr_label = qt_label t, pr_outcome = OutcomeVoid, pr_why = w, pr_at = now, pr_candidate = cand, pr_reference = ref\<rparr>
       (remember_attempt (qt_label t) \<lparr>at_at = now, at_outcome = OutcomeVoid, at_fingerprint = fp\<rparr> ce)"

text \<open>What starting a pair meets: the host, the snapshot, the two submissions, the clock. A text is the error.\<close>

record start_io =
  si_host :: qhost
  si_prepare :: "string + job_submission"
  si_cand :: "string + string"
  si_ref :: "string + string"
  si_now :: int

record started =
  sd_label :: string
  sd_candidate :: string
  sd_reference :: string

definition add_effects :: "qual_effect list \<Rightarrow> coordinating \<Rightarrow> coordinating" where
  "add_effects fs = (\<lambda>(c, es). (c, es @ fs))"

definition start_pair :: "start_io \<Rightarrow> qtask \<Rightarrow> coordinating \<Rightarrow> (verdict_why + started) \<times> coordinating" where
  "start_pair io t ce =
     (let fp = qh_fingerprint (si_host io) in
      case si_prepare io of
        Inl e \<Rightarrow> (Inl (W_prepare e), note_pair (si_now io) t (W_prepare e) '''' '''' fp ce)
      | Inr base \<Rightarrow>
         (let (cand, ref) = halves base t (qh_alias (si_host io)) in
          case si_cand io of
            Inl e \<Rightarrow> (Inl (W_candidate e), note_pair (si_now io) t (W_candidate e) '''' '''' fp (add_effects [Q_submit cand] ce))
          | Inr cid \<Rightarrow>
             (case si_ref io of
                Inl e \<Rightarrow> (Inl (W_reference e), note_pair (si_now io) t (W_reference e) cid '''' fp (add_effects [Q_submit cand, Q_submit ref, Q_cancel cid] ce))
              | Inr rid \<Rightarrow>
                  (Inr \<lparr>sd_label = qt_label t, sd_candidate = cid, sd_reference = rid\<rparr>,
                   (case add_effects [Q_submit cand, Q_submit ref] ce of (c, es) \<Rightarrow>
                     (c\<lparr>co_pairs := AList.update (qt_label t) \<lparr>op_task = t, op_identity = qt_identity t, op_cand = cid, op_ref = rid, op_at = si_now io,
                          op_fp = fp, op_tree = snap_tree (s_snapshot base)\<rparr> (co_pairs c)\<rparr>, es))))))"

text \<open>What a tick or a request reads before it decides: the rows of the store (\<open>None\<close>: they could not be read), the manifests, the host, the clock.\<close>

record tick_io =
  ti_rows :: "earned_label list option"
  ti_tasks :: "qtask list"
  ti_tasks_err :: bool
  ti_host :: qhost
  ti_now :: int
  ti_pairs :: "string \<Rightarrow> pair_io"
  ti_start :: "string \<Rightarrow> start_io"

definition coordinator_input :: "tick_io \<Rightarrow> earned_label list \<Rightarrow> coordinator \<Rightarrow> qinput" where
  "coordinator_input io rows c =
     \<lparr>qi_now = ti_now io, qi_host = ti_host io, qi_tasks = ti_tasks io, qi_earned = fold (\<lambda>r. AList.update (el_label r) (el_state r)) rows [],
      qi_in_flight = map fst (co_pairs c), qi_last = co_last c\<rparr>"

definition forget_gone_tasks :: "qtask list \<Rightarrow> coordinating \<Rightarrow> coordinating" where
  "forget_gone_tasks tasks ce = fold (\<lambda>l. if l \<in> set (map qt_label tasks) then id else forget_attempt l) (map fst (co_last (fst ce))) ce"

definition tick :: "tick_io \<Rightarrow> coordinator \<Rightarrow> coordinating" where
  "tick io c =
     (let ce = settle_pairs (ti_pairs io) (c, []) in
      case ti_rows io of
        None \<Rightarrow> ce
      | Some rows \<Rightarrow>
         (let i = coordinator_input io rows (fst ce);
              ce1 = (if ti_tasks_err io then ce else forget_gone_tasks (ti_tasks io) ce)
          in fold (\<lambda>t ce. snd (start_pair (ti_start io (qt_label t)) t ce)) (decide i) ce1))"

datatype request_error = Rows_unreadable | Manifest_unreadable string | Request_refused manual_error | Start_failed verdict_why

definition request :: "tick_io \<Rightarrow> string \<Rightarrow> coordinator \<Rightarrow> (request_error + started) \<times> coordinating" where
  "request io repo_task c =
     (let ce = settle_pairs (ti_pairs io) (c, []) in
      case ti_rows io of
        None \<Rightarrow> (Inl Rows_unreadable, ce)
      | Some rows \<Rightarrow>
         (case manual (coordinator_input io rows (fst ce)) repo_task of
            Inl (Unknown_task n) \<Rightarrow> (Inl (if ti_tasks_err io then Manifest_unreadable n else Request_refused (Unknown_task n)), ce)
          | Inl e \<Rightarrow> (Inl (Request_refused e), ce)
          | Inr t \<Rightarrow> (case start_pair (ti_start io (qt_label t)) t ce of
               (Inl w, ce') \<Rightarrow> (Inl (Start_failed w), ce')
             | (Inr s, ce') \<Rightarrow> (Inr s, ce'))))"

definition coordinator_status :: "coordinator \<Rightarrow> started list \<times> pair_record list" where
  "coordinator_status c =
     (sort_key sd_label (map (\<lambda>(l, p). \<lparr>sd_label = qt_label (op_task p), sd_candidate = op_cand p, sd_reference = op_ref p\<rparr>) (co_pairs c)), rev (co_history c))"

definition qualification_view :: "tick_io \<Rightarrow> string list \<Rightarrow> coordinator \<Rightarrow> host_qualification option" where
  "qualification_view io unreadable c =
     (case ti_rows io of None \<Rightarrow> None
      | Some rows \<Rightarrow> Some (build_view \<lparr>qi_now = ti_now io, qi_host = ti_host io, qi_tasks = ti_tasks io, qi_earned = [], qi_in_flight = [], qi_last = co_last c\<rparr>
          rows (map (\<lambda>(l, p). \<lparr>qp_label = l, qp_candidate = op_cand p, qp_reference = op_ref p, qp_since = op_at p\<rparr>) (co_pairs c)) (co_history c) unreadable))"

section \<open>What a match means\<close>

text \<open>The two summaries of a pair say the same of the tests.\<close>

definition same_tests :: "string \<Rightarrow> summary option \<Rightarrow> summary option \<Rightarrow> bool" where
  "same_tests kind hs rs \<longleftrightarrow> (hs = None \<and> rs = None) \<or> (plain_kind kind \<and> no_tests hs \<and> no_tests rs)
     \<or> (\<exists>h r. hs = Some h \<and> rs = Some r \<and> sm_passed_digest h \<noteq> '''' \<and> sm_passed_digest h = sm_passed_digest r
         \<and> sm_passed h = sm_passed r \<and> sm_failed h = sm_failed r \<and> \<not> truncated h \<and> \<not> truncated r \<and> failure_set h = failure_set r)"

text \<open>A half ran to an exit on the host it was meant for.\<close>

definition ran_on :: "half \<Rightarrow> int \<Rightarrow> result \<Rightarrow> bool" where
  "ran_on h ex r \<longleftrightarrow> hf_result h = Some r \<and> r_exit r = Some ex \<and> r_host r = hf_want h"

lemma half_void_None_iff: "half_void n h = None \<longleftrightarrow> (\<exists>ex r. ran_on h ex r)"
  by (auto simp: half_void_def ran_on_def split: option.splits)

lemma compare_summaries_match: "vd_outcome (compare_summaries hs rs kind) = OutcomeMatch \<longleftrightarrow> same_tests kind hs rs"
  by (auto simp: compare_summaries_def same_tests_def split: option.splits)

lemma compare_match_iff:
  "vd_outcome (compare_halves a b kind) = OutcomeMatch \<longleftrightarrow>
     (\<exists>x y r s. ran_on a x r \<and> ran_on b y s \<and> (x = 0 \<longleftrightarrow> y = 0) \<and> same_tests kind (r_summary r) (r_summary s))"
proof (cases "half_void ''candidate'' a = None \<and> half_void ''reference'' b = None")
  case True
  then obtain x r y s where "ran_on a x r" "ran_on b y s" by (meson half_void_None_iff)
  then show ?thesis
    using True compare_summaries_match [of "r_summary r" "r_summary s" kind] by (auto simp: compare_halves_def ran_on_def)
next
  case False
  have "half_void n h = Some v \<Longrightarrow> vd_outcome v = OutcomeVoid" for n h v by (auto simp: half_void_def split: option.splits if_splits)
  then have "vd_outcome (compare_halves a b kind) = OutcomeVoid" using False by (auto simp: compare_halves_def split: option.splits)
  moreover have "\<not> (\<exists>x r. ran_on a x r) \<or> \<not> (\<exists>x r. ran_on b x r)" using False half_void_None_iff by blast
  ultimately show ?thesis by auto
qed

section \<open>What is granted\<close>

definition saves :: "qual_effect list \<Rightarrow> earned_label set" where
  "saves es = {row. Q_save_label row \<in> set es}"

lemma saves_simps [simp]:
  "saves [] = {}" "saves (es @ fs) = saves es \<union> saves fs"
  "saves (Q_save_label row # es) = insert row (saves es)" "saves (Q_submit j # es) = saves es" "saves (Q_cancel i # es) = saves es"
  "saves (Q_granted # es) = saves es" "saves (Q_save_attempt l a # es) = saves es" "saves (Q_delete_attempt l # es) = saves es"
  by (auto simp: saves_def)

lemma remember_saves [simp]:
  "saves (snd (remember_attempt l a ce)) = saves (snd ce)" "saves (snd (forget_attempt l ce)) = saves (snd ce)" "saves (snd (remember r ce)) = saves (snd ce)"
  "saves (snd (cancel_quietly p x y ce)) = saves (snd ce)" "saves (snd (note_pair n t w i j fp ce)) = saves (snd ce)"
  by (cases ce; simp add: remember_attempt_def forget_attempt_def remember_def cancel_quietly_def note_pair_def Let_def)+

text \<open>The row a pair that proves its task is written as.\<close>

definition earned_row :: "pair_io \<Rightarrow> string \<Rightarrow> open_pair \<Rightarrow> earned_label" where
  "earned_row io label p = \<lparr>el_label = label, el_state = earned_label_earned, el_fingerprint = op_fp p, el_snapshot = op_tree p, el_granted_at = pi_now io\<rparr>"

text \<open>A verdict that stands when the pair is finished: the host and the task are still what the pair ran on.\<close>

definition stands :: "pair_io \<Rightarrow> open_pair \<Rightarrow> bool" where
  "stands io p \<longleftrightarrow> same_fingerprint (op_fp p) (pi_fingerprint io) \<and> still_the_same_task (pi_tasks_now io) p \<and> pi_save io = None"

lemma finish_pair_saves:
  "saves (snd (finish_pair io label p v ce)) = saves (snd ce) \<union> (if vd_outcome v = OutcomeMatch \<and> stands io p then {earned_row io label p} else {})"
  by (cases ce) (auto simp: finish_pair_def stands_def earned_row_def forget_attempt_def Let_def case_prod_beta split: option.splits)

text \<open>Both halves of a pair are over and agree, each having run where it was meant to, and the task is not hidden by a manifest.\<close>

definition pair_agrees :: "pair_io \<Rightarrow> open_pair \<Rightarrow> bool" where
  "pair_agrees io p \<longleftrightarrow> (\<exists>cj rj. pi_cand io = Got_job cj \<and> pi_ref io = Got_job rj \<and> terminal (j_state cj) \<and> terminal (j_state rj)
     \<and> (\<exists>x y r s. ran_on \<lparr>hf_want = pi_alias io, hf_result = j_result cj\<rparr> x r \<and> ran_on \<lparr>hf_want = qt_reference (op_task p), hf_result = j_result rj\<rparr> y s
          \<and> (x = 0 \<longleftrightarrow> y = 0) \<and> same_tests (qt_summary (op_task p)) (r_summary r) (r_summary s)))
     \<and> \<not> task_hidden (pi_tasks_hidden io) p"

lemma settle_pair_saves:
  "saves (snd (settle_pair io label p ce)) = saves (snd ce) \<union> (if pair_agrees io p \<and> stands io p then {earned_row io label p} else {})"
proof (cases "\<exists>cj rj. pi_cand io = Got_job cj \<and> pi_ref io = Got_job rj")
  case True
  then obtain cj rj where j: "pi_cand io = Got_job cj" "pi_ref io = Got_job rj" by blast
  let ?v = "compare_halves \<lparr>hf_want = pi_alias io, hf_result = j_result cj\<rparr> \<lparr>hf_want = qt_reference (op_task p), hf_result = j_result rj\<rparr> (qt_summary (op_task p))"
  have "pair_agrees io p \<longleftrightarrow> terminal (j_state cj) \<and> terminal (j_state rj) \<and> vd_outcome ?v = OutcomeMatch \<and> \<not> task_hidden (pi_tasks_hidden io) p"
    unfolding pair_agrees_def compare_match_iff using j by simp
  then show ?thesis using j by (simp add: settle_pair_def Let_def finish_pair_saves)
next
  case False
  then have "\<not> pair_agrees io p" by (auto simp: pair_agrees_def)
  then show ?thesis using False by (auto simp: settle_pair_def Let_def finish_pair_saves split: get_answer.splits)
qed

lemma settle_pairs_saves:
  "saves (snd (settle_pairs io ce)) = saves (snd ce)
     \<union> {row. \<exists>p. (el_label row, p) \<in> set (co_pairs (fst ce)) \<and> pair_agrees (io (el_label row)) p \<and> stands (io (el_label row)) p
            \<and> row = earned_row (io (el_label row)) (el_label row) p}"
proof -
  have "saves (snd (fold (\<lambda>(label, p). settle_pair (io label) label p) ps ce)) = saves (snd ce)
     \<union> {row. \<exists>p. (el_label row, p) \<in> set ps \<and> pair_agrees (io (el_label row)) p \<and> stands (io (el_label row)) p
            \<and> row = earned_row (io (el_label row)) (el_label row) p}" for ps
  proof (induction ps arbitrary: ce)
    case (Cons lp ps)
    obtain l p where lp: "lp = (l, p)" by (cases lp)
    have "el_label (earned_row i l p) = l" for i by (simp add: earned_row_def)
    then show ?case using Cons.IH [of "settle_pair (io l) l p ce"] by (auto simp: lp settle_pair_saves split: if_splits)
  qed simp
  then show ?thesis by (simp add: settle_pairs_def)
qed

lemma start_pair_saves [simp]: "saves (snd (snd (start_pair io t ce))) = saves (snd ce)"
  by (cases ce) (auto simp: start_pair_def halves_def add_effects_def Let_def split: sum.splits)

lemma fold_start_saves: "saves (snd (fold (\<lambda>t ce. snd (start_pair (st t) t ce)) ts ce)) = saves (snd ce)"
  by (induction ts arbitrary: ce) simp_all

lemma forget_gone_saves: "saves (snd (forget_gone_tasks tasks ce)) = saves (snd ce)"
proof -
  have "saves (snd (fold (\<lambda>l. if l \<in> L then id else forget_attempt l) ls ce)) = saves (snd ce)" for L ls
    by (induction ls arbitrary: ce) simp_all
  then show ?thesis by (simp add: forget_gone_tasks_def)
qed

text \<open>The reference half ran to exit 0.\<close>

definition reference_passed :: "pair_io \<Rightarrow> bool" where
  "reference_passed io \<longleftrightarrow> (\<exists>rj s. pi_ref io = Got_job rj \<and> j_result rj = Some s \<and> r_exit s = Some 0)"

text \<open>
  C29: a tick grants a task label only for a pair in flight whose two halves both ended where they were
  meant to run, both with exit 0 or both with another one, with the same tests passed and failed, while
  the host's tools and the task's definition are still those the pair was queued for, and the row says
  which tools and which snapshot; and every such pair whose reference passed is granted the label.
\<close>

theorem label_needs_a_matching_pair:
  "(Q_save_label row \<in> set (snd (tick io c)) \<longrightarrow>
     (\<exists>p. (el_label row, p) \<in> set (co_pairs c) \<and> pair_agrees (ti_pairs io (el_label row)) p \<and> stands (ti_pairs io (el_label row)) p
        \<and> row = earned_row (ti_pairs io (el_label row)) (el_label row) p))
   \<and> (\<forall>label p. (label, p) \<in> set (co_pairs c) \<longrightarrow> reference_passed (ti_pairs io label) \<longrightarrow> pair_agrees (ti_pairs io label) p \<longrightarrow>
        stands (ti_pairs io label) p \<longrightarrow> Q_save_label (earned_row (ti_pairs io label) label p) \<in> set (snd (tick io c)))"
proof -
  have "saves (snd (tick io c)) = saves (snd (settle_pairs (ti_pairs io) (c, [])))"
    by (simp add: tick_def Let_def fold_start_saves forget_gone_saves split: option.splits)
  then have "Q_save_label row \<in> set (snd (tick io c)) \<longleftrightarrow>
     (\<exists>p. (el_label row, p) \<in> set (co_pairs c) \<and> pair_agrees (ti_pairs io (el_label row)) p \<and> stands (ti_pairs io (el_label row)) p
        \<and> row = earned_row (ti_pairs io (el_label row)) (el_label row) p)" for row
    using settle_pairs_saves [of "ti_pairs io" "(c, [])"] by (auto simp: saves_def)
  moreover have "el_label (earned_row io' label p) = label" for io' label p
    by (simp add: earned_row_def)
  ultimately show ?thesis by metis
qed

section \<open>The view and the decision\<close>

lemma map_of_fold_put: "map_of (fold (\<lambda>r. AList.update (k r) (f r)) rs m) = fold (\<lambda>r M. M(k r \<mapsto> f r)) rs (map_of m)"
  by (induction rs arbitrary: m) (simp_all add: update_conv')

lemma fold_put_map: "fold (\<lambda>r M. M(k r \<mapsto> g (f r))) rs (\<lambda>l. map_option g (M l)) = (\<lambda>l. map_option g (fold (\<lambda>r M. M(k r \<mapsto> f r)) rs M l))"
proof (induction rs arbitrary: M)
  case (Cons r rs)
  have "(\<lambda>l. map_option g (M l))(k r \<mapsto> g (f r)) = (\<lambda>l. map_option g ((M(k r \<mapsto> f r)) l))" by auto
  then show ?case unfolding fold_Cons comp_apply by (simp only: Cons.IH)
qed simp

abbreviation rows_by_label :: "earned_label list \<Rightarrow> string \<rightharpoonup> earned_label" where
  "rows_by_label rows \<equiv> map_of (fold (\<lambda>r. AList.update (el_label r) r) rows [])"

abbreviation pairs_by_label :: "qpair list \<Rightarrow> string \<rightharpoonup> qpair" where
  "pairs_by_label pairs \<equiv> map_of (fold (\<lambda>p. AList.update (qp_label p) p) pairs [])"

lemma earned_by_label: "map_of (qi_earned (view_input i rows pairs)) l = map_option el_state (rows_by_label rows l)"
  using fold_put_map [of el_label el_state "\<lambda>r. r" rows "\<lambda>_. None"] by (simp add: view_input_def map_of_fold_put fun_eq_iff)

lemma fold_put_dom: "l \<in> dom (fold (\<lambda>r M. M(k r \<mapsto> f r)) rs M) \<longleftrightarrow> l \<in> k ` set rs \<or> l \<in> dom M"
  by (induction rs arbitrary: M) auto

lemma fold_put_ran: "fold (\<lambda>r M. M(k r \<mapsto> r)) rs M l = Some x \<Longrightarrow> (x \<in> set rs \<and> k x = l) \<or> M l = Some x"
proof (induction rs arbitrary: M)
  case (Cons a rs)
  then have "(x \<in> set rs \<and> k x = l) \<or> (M(k a \<mapsto> a)) l = Some x" unfolding fold_Cons comp_apply by blast
  then show ?case by (auto split: if_splits)
qed simp

lemma pairs_by_label_None: "pairs_by_label pairs l = None \<longleftrightarrow> l \<notin> qp_label ` set pairs"
  using fold_put_dom [of l qp_label "\<lambda>p. p" pairs Map.empty] by (auto simp: map_of_fold_put dom_def)

lemma rows_by_label_Some: "rows_by_label rows l = Some r \<Longrightarrow> r \<in> set rows \<and> el_label r = l"
  using fold_put_ran [of el_label rows Map.empty l r] by (simp add: map_of_fold_put)

lemma decide_from_set: "t \<in> set (decide_from i seen ts) \<Longrightarrow> t \<in> set ts \<and> check i t = None \<and> \<not> retry_waits i t"
  by (induction i seen ts rule: decide_from.induct) (auto split: if_splits)

lemma decide_from_distinct:
  "distinct (map qt_label ts) \<Longrightarrow> set seen \<inter> qt_label ` set ts = {} \<Longrightarrow> set (decide_from i seen ts) = {t \<in> set ts. check i t = None \<and> \<not> retry_waits i t}"
  by (induction i seen ts rule: decide_from.induct) (auto simp: image_iff)

lemma check_not_held: "check i t = None \<Longrightarrow> qt_reference t \<noteq> qh_alias (qi_host i) \<and> map_of (qi_earned i) (qt_label t) \<noteq> Some earned_label_earned
    \<and> qt_label t \<notin> set (qi_in_flight i)"
  by (auto simp: check_def split: if_splits)

text \<open>What the rows say of a state: earned or quarantined, as the store keeps them.\<close>

definition rows_ok :: "earned_label list \<Rightarrow> bool" where
  "rows_ok rows \<longleftrightarrow> (\<forall>r \<in> set rows. el_state r = earned_label_earned \<or> el_state r = earned_label_quarantined)"

lemmas state_word_defs = earned_label_earned_def earned_label_quarantined_def

lemma hold_earned_iff:
  assumes "rows_ok rows"
  shows "fst (task_hold (view_input i rows pairs) t (rows_by_label rows (qt_label t))) = ''earned''
    \<longleftrightarrow> \<not> (qt_reference t \<noteq> '''' \<and> qt_reference t = qh_alias (qi_host i) \<and> qt_label t \<in> set (qh_labels (qi_host i)))
      \<and> map_of (qi_earned (view_input i rows pairs)) (qt_label t) = Some earned_label_earned"
proof (cases "rows_by_label rows (qt_label t)")
  case None
  then show ?thesis using earned_by_label [of i rows pairs "qt_label t"] by (simp add: task_hold_def)
next
  case (Some r)
  have "el_state r = ''earned'' \<or> el_state r = ''quarantined''"
    using rows_by_label_Some [OF Some] assms by (auto simp: rows_ok_def state_word_defs)
  then show ?thesis
    using Some earned_by_label [of i rows pairs "qt_label t"]
    by (elim disjE) (auto simp: task_hold_def view_input_def state_word_defs)
qed

lemma task_view_ready:
  assumes "rows_ok rows" and i: "i = view_input i0 rows pairs"
  shows "qv_progress (task_view i (rows_by_label rows) (pairs_by_label pairs) history t) = ''ready'' \<longleftrightarrow> check i t = None \<and> \<not> retry_waits i t"
proof -
  obtain hold row where h: "task_hold i t (rows_by_label rows (qt_label t)) = (hold, row)" by (cases "task_hold i t (rows_by_label rows (qt_label t))")
  have e: "hold = ''earned'' \<Longrightarrow> check i t \<noteq> None"
    using hold_earned_iff [OF assms(1), of i0 pairs t] h check_not_held [of i t] by (auto simp: i)
  have r: "fst (task_hold i t (rows_by_label rows (qt_label t))) = ''reference'' \<Longrightarrow> qt_reference t = qh_alias (qi_host i)"
  proof (cases "rows_by_label rows (qt_label t)")
    case (Some x)
    have "el_state x = ''earned'' \<or> el_state x = ''quarantined''"
      using rows_by_label_Some [OF Some] assms(1) by (auto simp: rows_ok_def state_word_defs)
    then show "fst (task_hold i t (rows_by_label rows (qt_label t))) = ''reference'' \<Longrightarrow> ?thesis"
      using Some by (elim disjE) (simp_all add: task_hold_def split: if_splits)
  qed (simp add: task_hold_def split: if_splits)
  have r': "hold = ''reference'' \<Longrightarrow> check i t \<noteq> None"
    using h r check_not_held [of i t] by auto
  have p: "check i t = None \<Longrightarrow> pairs_by_label pairs (qt_label t) = None"
    using check_not_held [of i t] unfolding pairs_by_label_None by (simp add: i view_input_def)
  show ?thesis
  proof (cases "check i t")
    case None
    then have "hold \<noteq> ''reference''" "hold \<noteq> ''earned''" "pairs_by_label pairs (qt_label t) = None" using e r' p by blast+
    then show ?thesis using None h by (simp add: task_view_def Let_def retry_waits_def split: option.splits)
  next
    case (Some x)
    then show ?thesis using h by (simp add: task_view_def Let_def split: option.splits)
  qed
qed

lemma first_of_label_set: "t \<in> set (first_of_label seen ts) \<Longrightarrow> t \<in> set ts \<and> qt_label t \<notin> set seen"
  by (induction seen ts rule: first_of_label.induct) (auto split: if_splits)

lemma first_of_label_distinct: "distinct (map qt_label (first_of_label seen ts))"
  by (induction seen ts rule: first_of_label.induct) (auto dest: first_of_label_set)

lemma first_of_label_all: "distinct (map qt_label ts) \<Longrightarrow> set seen \<inter> qt_label ` set ts = {} \<Longrightarrow> first_of_label seen ts = ts"
  by (induction seen ts rule: first_of_label.induct) (auto simp: image_iff)

lemma gone_rows_in: "k \<in> set (gone_rows seen hidden rs) \<Longrightarrow> qv_label k \<notin> set seen \<and> qv_gone k \<and> qv_progress k = ''idle'' \<and> (\<exists>r \<in> set rs. qv_label k = el_label r \<and> qv_hold k = el_state r)"
  by (induction seen hidden rs rule: gone_rows.induct) (auto split: if_splits)

lemma gone_rows_distinct: "distinct (map qv_label (gone_rows seen hidden rs))"
  by (induction seen hidden rs rule: gone_rows.induct) (auto dest: gone_rows_in)

lemma task_view_label [simp]:
  "qv_label (task_view i ro po h t) = qt_label t" "qv_gone (task_view i ro po h t) = False"
  by (auto simp: task_view_def Let_def split: prod.splits option.splits)

lemma build_view_task:
  "k \<in> set (hq_tasks (build_view i rows pairs history un)) \<longleftrightarrow>
     (\<exists>t \<in> set (first_of_label [] (qi_tasks i)). k = task_view (view_input i rows pairs) (rows_by_label rows) (pairs_by_label pairs) history t)
     \<or> k \<in> set (gone_rows (map qt_label (first_of_label [] (qi_tasks i))) un rows)"
  by (auto simp: build_view_def Let_def view_input_def)

section \<open>Properties of the view\<close>

text \<open>
  C30: the view says a task is ready exactly when the automatic trigger, asked at the same moment
  with the same rows and pairs, would start a pair for it; for manifests that list a task once.
\<close>

theorem ready_means_decided:
  assumes "distinct (map qt_label (qi_tasks i))" and "rows_ok rows" and "t \<in> set (qi_tasks i)"
  shows "(\<exists>k \<in> set (hq_tasks (build_view i rows pairs history un)). qv_label k = qt_label t \<and> qv_progress k = ''ready'')
    \<longleftrightarrow> t \<in> set (decide (view_input i rows pairs))"
proof -
  let ?i = "view_input i rows pairs"
  have all: "first_of_label [] (qi_tasks i) = qi_tasks i" using assms(1) by (simp add: first_of_label_all)
  have dec: "set (decide ?i) = {t \<in> set (qi_tasks i). check ?i t = None \<and> \<not> retry_waits ?i t}"
    using assms(1) decide_from_distinct [of "qi_tasks i" "[]" ?i] by (simp add: decide_def view_input_def)
  have one: "u = t" if "u \<in> set (qi_tasks i)" "qt_label u = qt_label t" for u
    using assms(1,3) that by (auto simp: distinct_map inj_on_def)
  let ?v = "task_view ?i (rows_by_label rows) (pairs_by_label pairs) history"
  have "(\<exists>k \<in> set (hq_tasks (build_view i rows pairs history un)). qv_label k = qt_label t \<and> qv_progress k = ''ready'') \<longleftrightarrow> qv_progress (?v t) = ''ready''"
    (is "?l \<longleftrightarrow> ?r")
  proof
    assume ?l
    then obtain k where k: "k \<in> set (hq_tasks (build_view i rows pairs history un))" "qv_label k = qt_label t" "qv_progress k = ''ready''" by blast
    have "k \<notin> set (gone_rows (map qt_label (qi_tasks i)) un rows)" using k(3) by (auto dest: gone_rows_in)
    then obtain u where "u \<in> set (qi_tasks i)" "k = ?v u" using k(1) build_view_task [of k i rows pairs history un] all by auto
    then show ?r using k one [of u] by simp
  next
    assume ?r
    moreover have "?v t \<in> set (hq_tasks (build_view i rows pairs history un))" using build_view_task [of "?v t" i rows pairs history un] all assms(3) by auto
    ultimately show ?l by (intro bexI [of _ "?v t"]) simp_all
  qed
  then show ?thesis using task_view_ready [OF assms(2) refl] dec assms(3) by simp
qed

text \<open>The combinations of hold and progress a reader may meet.\<close>

definition valid_combination :: "qual_task \<Rightarrow> bool" where
  "valid_combination k \<longleftrightarrow>
     (if qv_gone k then qv_progress k = ''idle'' \<and> qv_hold k \<in> {''earned'', ''quarantined''}
      else if qv_hold k \<in> {''earned'', ''reference''} then qv_progress k = ''idle''
      else qv_hold k \<in> {''quarantined'', ''none''}
        \<and> (qv_progress k \<in> {''pairing'', ''waiting'', ''ready''}
           \<or> (qv_progress k = ''blocked'' \<and>
              (\<exists>b. qv_blocked k = Some b \<and> qb_code b \<in> {''no_definition'', ''worker_off'', ''missing''} \<union> (if qv_hold k = ''none'' then {''reference_missing''} else {})))))"

lemma hold_words:
  assumes "rows_ok rows"
  shows "fst (task_hold (view_input i rows pairs) t (rows_by_label rows (qt_label t))) \<in> {''reference'', ''earned'', ''quarantined'', ''none''}"
proof (cases "rows_by_label rows (qt_label t)")
  case (Some r)
  have "el_state r = ''earned'' \<or> el_state r = ''quarantined''"
    using rows_by_label_Some [OF Some] assms by (auto simp: rows_ok_def state_word_defs)
  then show ?thesis using Some by (auto simp: task_hold_def)
qed (simp add: task_hold_def)

lemma hold_quarantined:
  assumes "fst (task_hold i t row) = ''quarantined''"
  shows "qt_reference t \<noteq> qh_alias (qi_host i)"
  using assms by (auto simp: task_hold_def state_word_defs split: if_splits option.splits)

lemma task_view_valid:
  assumes "rows_ok rows" and i: "i = view_input i0 rows pairs"
  shows "valid_combination (task_view i (rows_by_label rows) (pairs_by_label pairs) history t)"
proof -
  obtain hold row where h: "task_hold i t (rows_by_label rows (qt_label t)) = (hold, row)" by (cases "task_hold i t (rows_by_label rows (qt_label t))")
  have w: "hold \<in> {''reference'', ''earned'', ''quarantined'', ''none''}" using hold_words [OF assms(1), of i0 pairs t] h i by simp
  show ?thesis
  proof (cases "hold \<in> {''reference'', ''earned''}")
    case True
    then show ?thesis using h by (auto simp: task_view_def Let_def valid_combination_def)
  next
    case False
    then have hq: "hold = ''quarantined'' \<or> hold = ''none''" using w by auto
    have held: "check i t \<noteq> Some ErrAlreadyHas"
      using hold_earned_iff [OF assms(1), of i0 pairs t] False h by (auto simp: check_def i Let_def view_input_def split: if_splits)
    have flight: "pairs_by_label pairs (qt_label t) = None \<Longrightarrow> check i t \<noteq> Some ErrInFlight"
      unfolding pairs_by_label_None by (auto simp: check_def i Let_def view_input_def split: if_splits)
    have ref: "hold = ''quarantined'' \<Longrightarrow> check i t \<noteq> Some ErrReference"
      using hold_quarantined [of i t "rows_by_label rows (qt_label t)"] h by (auto simp: check_def Let_def split: if_splits)
    show ?thesis
    proof (cases "pairs_by_label pairs (qt_label t)")
      case (Some p)
      then show ?thesis using h False hq by (auto simp: task_view_def Let_def valid_combination_def)
    next
      case None
      show ?thesis
      proof (cases "check i t")
        case c: None
        then show ?thesis using h False hq None by (auto simp: task_view_def Let_def valid_combination_def retry_waits_def split: option.splits if_splits)
      next
        case (Some e)
        then have "qb_code (blocked_view i t e) \<in> {''no_definition'', ''worker_off'', ''missing''} \<union> (if hold = ''none'' then {''reference_missing''} else {})"
          using held flight [OF None] ref hq by (cases e) (auto simp: blocked_view_def)
        then show ?thesis using h False hq None Some by (simp add: task_view_def Let_def valid_combination_def)
      qed
    qed
  qed
qed

lemma tasks_validate_iff:
  "tasks_validate seen ts = None \<longleftrightarrow> (\<forall>t \<in> set ts. valid_task_label (qv_label t) \<and> qv_hold t \<noteq> '''' \<and> qv_progress t \<noteq> '''')
     \<and> distinct (map qv_label ts) \<and> set seen \<inter> qv_label ` set ts = {}"
  by (induction seen ts rule: tasks_validate.induct) (auto simp: image_iff)

lemma combination_words: "valid_combination k \<Longrightarrow> qv_hold k \<noteq> '''' \<and> qv_progress k \<noteq> ''''"
  by (auto simp: valid_combination_def split: if_splits)

lemma build_view_distinct: "distinct (map qv_label (hq_tasks (build_view i rows pairs history un)))"
proof -
  let ?ts = "first_of_label [] (qi_tasks i)" and ?g = "gone_rows (map qt_label (first_of_label [] (qi_tasks i))) un rows"
  let ?v = "task_view (view_input i rows pairs) (rows_by_label rows) (pairs_by_label pairs) history"
  have dis: "qt_label ` set ?ts \<inter> qv_label ` set ?g = {}"
  proof -
    have "\<forall>k \<in> set ?g. qv_label k \<notin> qt_label ` set ?ts" using gone_rows_in [of _ "map qt_label ?ts" un rows] by (simp add: Ball_def)
    then show ?thesis unfolding disjoint_iff by (metis imageE)
  qed
  have "distinct (map qv_label (map ?v ?ts @ ?g))"
    using first_of_label_distinct [of "[]" "qi_tasks i"] gone_rows_distinct [of "map qt_label ?ts" un rows]
    dis by (simp add: comp_def)
  moreover have "mset (map qv_label (hq_tasks (build_view i rows pairs history un))) = mset (map qv_label (map ?v ?ts @ ?g))"
    by (simp add: build_view_def Let_def view_input_def multiset.map_comp)
  ultimately show ?thesis using mset_eq_imp_distinct_iff by blast
qed

text \<open>
  Whatever the manifests, the rows, the pairs and the records are, as long as their labels are
  task labels, the view passes the check every reader makes of it, lists no task twice, and puts
  each task in one of the documented combinations of hold and progress.
\<close>

theorem view_is_well_formed:
  assumes "qh_alias (qi_host i) \<noteq> ''''" and "rows_ok rows" and "\<forall>t \<in> set (qi_tasks i). valid_task_label (qt_label t)"
    and "\<forall>r \<in> set rows. valid_task_label (el_label r)" and "\<forall>h \<in> set history. valid_task_label (pr_label h)"
  shows "host_qualification_validate (build_view i rows pairs history un) = None
    \<and> (\<forall>k \<in> set (hq_tasks (build_view i rows pairs history un)). valid_combination k)"
proof -
  let ?v = "build_view i rows pairs history un"
  have k: "valid_combination k \<and> valid_task_label (qv_label k)" if "k \<in> set (hq_tasks ?v)" for k
    using that unfolding build_view_task
  proof (elim disjE bexE)
    fix t assume t: "t \<in> set (first_of_label [] (qi_tasks i))" and "k = task_view (view_input i rows pairs) (rows_by_label rows) (pairs_by_label pairs) history t"
    then show ?thesis using task_view_valid [OF assms(2) refl] first_of_label_set [OF t] assms(3) by simp
  next
    assume "k \<in> set (gone_rows (map qt_label (first_of_label [] (qi_tasks i))) un rows)"
    then have "qv_gone k \<and> qv_progress k = ''idle'' \<and> (\<exists>r \<in> set rows. qv_label k = el_label r \<and> qv_hold k = el_state r)" using gone_rows_in by blast
    then show ?thesis using assms(2,4) by (auto simp: valid_combination_def rows_ok_def state_word_defs)
  qed
  have "tasks_validate [] (hq_tasks ?v) = None" unfolding tasks_validate_iff using k combination_words build_view_distinct by auto
  moreover have "hq_host ?v = qh_alias (qi_host i)" "hq_recent ?v = rev history" by (simp_all add: build_view_def Let_def view_input_def)
  ultimately show ?thesis using assms(1,5) k by (simp add: host_qualification_validate_def list_all_iff)
qed

text \<open>A host that lacks nothing, a task it has not qualified for, one it lost, and one whose manifest entry is gone.\<close>

definition sample_qtask :: "string \<Rightarrow> qtask" where
  "sample_qtask n = \<lparr>qt_repo = ''purdex'', qt_name = n, qt_reference = ''mini'', qt_args = [], qt_needs = [''tool:go''], qt_def_hash = ''h'', qt_summary = ''go-json'', qt_commit = ''''\<rparr>"

definition sample_earned :: "string \<Rightarrow> string \<Rightarrow> earned_label" where
  "sample_earned n st = \<lparr>el_label = ''task:purdex/'' @ n, el_state = st, el_fingerprint = [(''go'', ''1.24'')], el_snapshot = ''t'', el_granted_at = 5\<rparr>"

definition sample_qinput :: qinput where
  "sample_qinput = \<lparr>qi_now = 100, qi_host = \<lparr>qh_alias = ''air'', qh_worker_on = True, qh_labels = [''repo:purdex'', ''tool:go''], qh_fingerprint = [(''go'', ''1.24'')]\<rparr>,
     qi_tasks = [sample_qtask ''unit'', sample_qtask ''race''], qi_earned = [], qi_in_flight = [],
     qi_last = [(''task:purdex/race'', \<lparr>at_at = 90, at_outcome = OutcomeMismatch, at_fingerprint = [(''go'', ''1.24'')]\<rparr>)]\<rparr>"

definition sample_rows :: "earned_label list" where
  "sample_rows = [sample_earned ''race'' ''quarantined'', sample_earned ''old'' ''earned'']"

lemma sample_rows_ok: "rows_ok sample_rows"
  by (simp add: rows_ok_def sample_rows_def sample_earned_def state_word_defs)

lemma sample_view:
  "map (\<lambda>k. (qv_label k, qv_hold k, qv_progress k)) (hq_tasks (build_view sample_qinput sample_rows [] [] []))
    = [(''task:purdex/old'', ''earned'', ''idle''), (''task:purdex/race'', ''quarantined'', ''waiting''), (''task:purdex/unit'', ''none'', ''ready'')]"
  by code_simp

theorem ready_means_decided_witness:
  "\<exists>k \<in> set (hq_tasks (build_view sample_qinput sample_rows [] [] [])). qv_label k = qt_label (sample_qtask ''unit'') \<and> qv_progress k = ''ready''"
proof -
  have d: "distinct (map qt_label (qi_tasks sample_qinput))" by code_simp
  have t: "sample_qtask ''unit'' \<in> set (qi_tasks sample_qinput)" by (simp add: sample_qinput_def)
  have "List.member (decide (view_input sample_qinput sample_rows [])) (sample_qtask ''unit'')" by code_simp
  then have "sample_qtask ''unit'' \<in> set (decide (view_input sample_qinput sample_rows []))" by (simp add: List.member_iff)
  then show ?thesis using ready_means_decided [OF d sample_rows_ok t, of "[]" "[]" "[]"] by blast
qed

theorem view_is_well_formed_witness:
  "host_qualification_validate (build_view sample_qinput sample_rows [] [] []) = None
    \<and> list_all valid_combination (hq_tasks (build_view sample_qinput sample_rows [] [] []))"
proof -
  have "qh_alias (qi_host sample_qinput) \<noteq> ''''" by (simp add: sample_qinput_def)
  moreover have "\<forall>t \<in> set (qi_tasks sample_qinput). valid_task_label (qt_label t)" by code_simp
  moreover have "\<forall>r \<in> set sample_rows. valid_task_label (el_label r)" by code_simp
  ultimately show ?thesis
    using view_is_well_formed [of sample_qinput sample_rows "[]" "[]" "[]"] sample_rows_ok by (simp add: list_all_iff)
qed

text \<open>A pair both halves of which passed with the same tests, and the label it earns.\<close>

definition sample_half :: "string \<Rightarrow> job" where
  "sample_half host = \<lparr>j_id = ''j_1'', j_origin = ''mini'', j_repo = \<lparr>repo_name = ''purdex'', repo_root = '''', repo_remote = ''''\<rparr>,
     j_snapshot = \<lparr>snap_commit = '''', snap_tree = ''t'', snap_base = '''', snap_rel_cwd = ''''\<rparr>, j_task = ''unit'', j_args = [], j_class = ClassDev,
     j_labels = [], j_locks = [], j_cacheable = False, j_timeout_s = 0, j_supersede_key = '''', j_interruptible = False, j_queue_timeout_s = 0,
     j_adhoc = False, j_local = False, j_submitter = \<lparr>sub_session = '''', sub_ref = '''', sub_team = '''', sub_host = ''''\<rparr>, j_created_at = 1,
     j_state = StateSucceeded, j_claim = None,
     j_result = Some \<lparr>r_exit = Some 0, r_summary = Some \<lparr>sm_passed = 2, sm_failed = 0, sm_skipped = 0, sm_failures = [], sm_tail = [],
       sm_passed_digest = ''sha256:x''\<rparr>, r_log = '''', r_host = host, r_started_at = None, r_finished_at = None, r_cache_hit = False,
       r_reason = '''', r_superseded_by = None\<rparr>,
     j_manual = PositionNone, j_manual_seq = 0, j_started_at = None\<rparr>"

definition sample_open_pair :: open_pair where
  "sample_open_pair = \<lparr>op_task = sample_qtask ''unit'', op_identity = qt_identity (sample_qtask ''unit''), op_cand = ''j_1'', op_ref = ''j_2'', op_at = 1,
     op_fp = [(''go'', ''1.24'')], op_tree = ''t''\<rparr>"

definition sample_pair_io :: pair_io where
  "sample_pair_io = \<lparr>pi_cand = Got_job (sample_half ''air''), pi_ref = Got_job (sample_half ''mini''), pi_alias = ''air'', pi_tasks_hidden = ([], False),
     pi_fingerprint = [(''go'', ''1.24'')], pi_tasks_now = [sample_qtask ''unit''], pi_now = 9, pi_save = None\<rparr>"

definition sample_tick_io :: tick_io where
  "sample_tick_io = \<lparr>ti_rows = None, ti_tasks = [], ti_tasks_err = False, ti_host = qi_host sample_qinput, ti_now = 9, ti_pairs = (\<lambda>_. sample_pair_io),
     ti_start = (\<lambda>_. \<lparr>si_host = qi_host sample_qinput, si_prepare = Inl '''', si_cand = Inl '''', si_ref = Inl '''', si_now = 9\<rparr>)\<rparr>"

theorem label_needs_a_matching_pair_witness:
  "Q_save_label (earned_row sample_pair_io ''task:purdex/unit'' sample_open_pair)
     \<in> set (snd (tick sample_tick_io \<lparr>co_pairs = [(''task:purdex/unit'', sample_open_pair)], co_last = [], co_history = []\<rparr>))"
proof -
  have "reference_passed sample_pair_io"
    by (simp add: reference_passed_def sample_pair_io_def sample_half_def)
  moreover have "pair_agrees sample_pair_io sample_open_pair"
    by (auto simp: pair_agrees_def sample_pair_io_def sample_half_def sample_open_pair_def sample_qtask_def ran_on_def same_tests_def truncated_def
        task_hidden_def)
  moreover have "same_fingerprint (op_fp sample_open_pair) (pi_fingerprint sample_pair_io) \<and> still_the_same_task (pi_tasks_now sample_pair_io) sample_open_pair"
    by code_simp
  then have "stands sample_pair_io sample_open_pair"
    by (simp add: stands_def) (simp add: sample_pair_io_def)
  moreover have "ti_pairs sample_tick_io l = sample_pair_io" for l
    by (simp add: sample_tick_io_def)
  ultimately show ?thesis
    using label_needs_a_matching_pair [of _ sample_tick_io "\<lparr>co_pairs = [(''task:purdex/unit'', sample_open_pair)], co_last = [], co_history = []\<rparr>"]
    by simp
qed

text \<open>A pair in which both hosts fail the same tests is a match: the candidate reproduces the reference, failures included.\<close>

lemma failing_reference_can_match:
  "let r = \<lparr>r_exit = Some 1, r_summary = Some \<lparr>sm_passed = 2, sm_failed = 1, sm_skipped = 0, sm_failures = [\<lparr>fl_name = ''T'', fl_file = ''f'', fl_message = ''m''\<rparr>],
       sm_tail = [], sm_passed_digest = ''sha256:x''\<rparr>, r_log = '''', r_host = ''mini'', r_started_at = None, r_finished_at = None, r_cache_hit = False,
       r_reason = '''', r_superseded_by = None\<rparr>
   in vd_outcome (compare_halves \<lparr>hf_want = ''air'', hf_result = Some (r\<lparr>r_host := ''air''\<rparr>)\<rparr> \<lparr>hf_want = ''mini'', hf_result = Some r\<rparr> ''go-json'') = OutcomeMatch"
  by code_simp

end
