(* ===== verification/Utf8.thy ===== *)
theory Utf8
  imports Prelude
begin

text \<open>
  Characters of a UTF-8 text, as Go's \<open>range\<close> over a string and \<open>strings.Map\<close> read them: the bytes of a
  text split into characters, a byte that starts none standing for U+FFFD. The lemmas say that texts put
  together from characters are valid, and that a text is cut between two characters when the cut is
  moved back to the start of one.
\<close>

section \<open>Splitting\<close>

text \<open>The length of the character a text starts with; 0 when it starts with none.\<close>

definition second_ok :: "nat \<Rightarrow> nat \<Rightarrow> bool" where
  "second_ok a b \<longleftrightarrow>
     (if a = 224 then 160 \<le> b \<and> b \<le> 191 else if a = 237 then 128 \<le> b \<and> b \<le> 159
      else if a = 240 then 144 \<le> b \<and> b \<le> 191 else if a = 244 then 128 \<le> b \<and> b \<le> 143 else cont_byte b)"

definition rune_len :: "nat list \<Rightarrow> nat" where
  "rune_len s =
     (case s of
        [] \<Rightarrow> 0
      | a # t \<Rightarrow>
          if a < 128 then 1
          else if 194 \<le> a \<and> a \<le> 223 then (case t of b # _ \<Rightarrow> if cont_byte b then 2 else 0 | _ \<Rightarrow> 0)
          else if 224 \<le> a \<and> a \<le> 239 then (case t of b # c # _ \<Rightarrow> if second_ok a b \<and> cont_byte c then 3 else 0 | _ \<Rightarrow> 0)
          else if 240 \<le> a \<and> a \<le> 244 then (case t of b # c # d # _ \<Rightarrow> if second_ok a b \<and> cont_byte c \<and> cont_byte d then 4 else 0 | _ \<Rightarrow> 0)
          else 0)"

lemma rune_len_le: "rune_len s \<le> length s"
  by (auto simp: rune_len_def split: list.splits)

text \<open>\<open>None\<close> is a byte that is part of no character.\<close>

function runes :: "nat list \<Rightarrow> nat list option list" where
  "runes [] = []"
| "runes (a # t) =
     (let n = rune_len (a # t) in if n = 0 then None # runes t else Some (take n (a # t)) # runes (drop n (a # t)))"
  by pat_completeness auto
termination by (relation "measure length") auto

definition is_rune :: "nat list \<Rightarrow> bool" where
  "is_rune r \<longleftrightarrow> r \<noteq> [] \<and> rune_len r = length r"

definition rune_control :: "nat list \<Rightarrow> bool" where
  "rune_control r = (case r of [a] \<Rightarrow> a < 32 \<or> a = 127 | [a, b] \<Rightarrow> a = 194 \<and> b \<le> 159 | _ \<Rightarrow> False)"

definition rune_start :: "nat \<Rightarrow> bool" where
  "rune_start b \<longleftrightarrow> \<not> cont_byte b"

text \<open>U+FFFD\<close>

definition rune_error :: "nat list" where
  "rune_error = [239, 191, 189]"

text \<open>\<open>strings.Map\<close> with a mapping that drops control characters and keeps every other.\<close>

definition drop_controls :: "nat list \<Rightarrow> nat list" where
  "drop_controls s = concat (map (\<lambda>r. case r of None \<Rightarrow> rune_error | Some r \<Rightarrow> if rune_control r then [] else r) (runes s))"

text \<open>The loop that moves a cut back to the start of a character.\<close>

fun cut_at :: "nat list \<Rightarrow> nat \<Rightarrow> nat" where
  "cut_at s 0 = 0"
| "cut_at s (Suc n) = (if rune_start (s ! Suc n) then Suc n else cut_at s n)"

section \<open>Texts made of characters\<close>

lemma is_rune_cases:
  assumes "is_rune r"
  obtains a where "r = [a]" "a < 128"
  | a b where "r = [a, b]" "194 \<le> a" "a \<le> 223" "cont_byte b"
  | a b c where "r = [a, b, c]" "224 \<le> a" "a \<le> 239" "second_ok a b" "cont_byte c"
  | a b c d where "r = [a, b, c, d]" "240 \<le> a" "a \<le> 244" "second_ok a b" "cont_byte c" "cont_byte d"
  using assms by (auto simp: is_rune_def rune_len_def split: list.splits if_splits)

lemma second_cont: "second_ok a b \<Longrightarrow> cont_byte b"
  by (auto simp: second_ok_def cont_byte_def split: if_splits)

lemma rune_len_append: "is_rune r \<Longrightarrow> rune_len (r @ s) = length r"
  by (erule is_rune_cases) (auto simp: rune_len_def)

lemma take_rune: "rune_len s \<noteq> 0 \<Longrightarrow> is_rune (take (rune_len s) s)"
  by (auto simp: rune_len_def is_rune_def split: list.splits if_splits)

lemma is_rune_error: "is_rune rune_error" "\<not> rune_control rune_error"
  by (simp_all add: is_rune_def rune_error_def rune_len_def second_ok_def cont_byte_def rune_control_def)

lemma utf8_step: "utf8_valid s \<longleftrightarrow> s = [] \<or> rune_len s \<noteq> 0 \<and> utf8_valid (drop (rune_len s) s)"
proof (cases s rule: utf8_valid.cases)
  case (5 a b c d t)
  consider "a < 128" | "128 \<le> a" "a < 194" | "194 \<le> a" "a \<le> 223" | "a = 224" | "a = 237" | "225 \<le> a" "a \<le> 239" "a \<noteq> 237"
    | "a = 240" | "241 \<le> a" "a \<le> 243" | "a = 244" | "244 < a" by linarith
  then show ?thesis unfolding 5 by cases (auto simp: rune_len_def second_ok_def)
next
  case (4 a b c)
  consider "a < 128" | "128 \<le> a" "a < 194" | "194 \<le> a" "a \<le> 223" | "a = 224" | "a = 237" | "225 \<le> a" "a \<le> 239" "a \<noteq> 237"
    | "239 < a" by linarith
  then show ?thesis unfolding 4 by cases (auto simp: rune_len_def second_ok_def)
qed (auto simp: rune_len_def)

lemma utf8_rune_append: "is_rune r \<Longrightarrow> utf8_valid (r @ s) \<longleftrightarrow> utf8_valid s"
  by (subst utf8_step) (auto simp: rune_len_append is_rune_def)

lemma utf8_runes: "list_all is_rune rs \<Longrightarrow> utf8_valid (concat rs)"
  by (induction rs) (auto simp: utf8_rune_append)

lemma control_rune_append: "is_rune r \<Longrightarrow> has_control (r @ s) \<longleftrightarrow> rune_control r \<or> has_control s"
  by (erule is_rune_cases) (auto simp: rune_control_def cont_byte_def dest!: second_cont)

lemma control_runes: "list_all is_rune rs \<Longrightarrow> has_control (concat rs) \<longleftrightarrow> list_ex rune_control rs"
  by (induction rs) (auto simp: control_rune_append)

lemma utf8_split:
  "utf8_valid s \<Longrightarrow> \<exists>rs. runes s = map Some rs \<and> concat rs = s \<and> list_all is_rune rs"
proof (induction s rule: runes.induct)
  case (2 a t)
  let ?n = "rune_len (a # t)"
  have n: "?n \<noteq> 0" and v: "utf8_valid (drop ?n (a # t))" using 2(3) utf8_step [of "a # t"] by auto
  then obtain rs where rs: "runes (drop ?n (a # t)) = map Some rs" "concat rs = drop ?n (a # t)" "list_all is_rune rs"
    using 2(2) by auto
  then show ?case using n take_rune [OF n] append_take_drop_id [of ?n "a # t"]
    by (intro exI [of _ "take ?n (a # t) # rs"]) (auto simp: Let_def simp del: append_take_drop_id)
qed simp

lemma runes_are: "Some r \<in> set (runes s) \<Longrightarrow> is_rune r"
  by (induction s rule: runes.induct) (auto simp: Let_def take_rune split: if_splits)

text \<open>What is left when the control characters are dropped.\<close>

lemma drop_controls_made_of:
  "\<exists>rs. drop_controls s = concat rs \<and> list_all is_rune rs \<and> \<not> list_ex rune_control rs"
proof -
  define f where "f r = (case r of None \<Rightarrow> rune_error | Some r \<Rightarrow> r)" for r :: "nat list option"
  have "concat (map (\<lambda>r. case r of None \<Rightarrow> rune_error | Some r \<Rightarrow> if rune_control r then [] else r) xs)
      = concat (filter (\<lambda>r. \<not> rune_control r) (map f xs))" for xs
    by (induction xs) (auto simp: f_def is_rune_error split: option.splits)
  moreover have "list_all is_rune (map f (runes s))"
    using runes_are is_rune_error by (auto simp: list_all_iff f_def split: option.splits)
  ultimately show ?thesis
    by (intro exI [of _ "filter (\<lambda>r. \<not> rune_control r) (map f (runes s))"]) (auto simp: drop_controls_def list_all_iff list_ex_iff)
qed

lemma drop_controls_same: "utf8_valid s \<Longrightarrow> \<not> has_control s \<Longrightarrow> drop_controls s = s"
proof -
  assume v: "utf8_valid s" and c: "\<not> has_control s"
  obtain rs where rs: "runes s = map Some rs" "concat rs = s" "list_all is_rune rs" using utf8_split [OF v] by blast
  then have "\<forall>r \<in> set rs. \<not> rune_control r" using c control_runes [OF rs(3)] by (auto simp: list_ex_iff)
  then have "map (\<lambda>r. if rune_control r then [] else r) rs = rs" by (simp add: map_idI)
  then show ?thesis using rs by (simp add: drop_controls_def comp_def)
qed

section \<open>Cutting\<close>

lemma cut_at_le: "cut_at s n \<le> n"
  by (induction n) auto

lemma rune_starts: "is_rune r \<Longrightarrow> 0 < k \<Longrightarrow> k < length r \<Longrightarrow> \<not> rune_start (r ! k)"
  by (erule is_rune_cases) (auto simp: rune_start_def less_Suc_eq nth_Cons' dest: second_cont)

lemma rune_head: "is_rune r \<Longrightarrow> rune_start (r ! 0)"
  by (erule is_rune_cases) (auto simp: rune_start_def cont_byte_def)

lemma cut_inside: "is_rune r \<Longrightarrow> n < length r \<Longrightarrow> cut_at (r @ s) n = 0"
  by (induction n) (auto simp: nth_append rune_starts)

lemma cut_behind:
  assumes "is_rune r" "n < length s" "rune_start (s ! 0)"
  shows "cut_at (r @ s) (length r + n) = length r + cut_at s n"
  using assms(2)
proof (induction n)
  case 0
  have "length r = Suc (length r - 1)" using assms(1) by (simp add: is_rune_def)
  then show ?case using 0 assms(3) cut_at.simps(2) [of "r @ s" "length r - 1"] by (simp add: nth_append)
next
  case (Suc n)
  then show ?case by (simp add: nth_append)
qed

lemma runes_head: "list_all is_rune rs \<Longrightarrow> concat rs \<noteq> [] \<Longrightarrow> rune_start (concat rs ! 0)"
  by (cases rs) (auto simp: rune_head nth_append is_rune_def)

lemma runes_head_at: "list_all is_rune rs \<Longrightarrow> n < length (concat rs) \<Longrightarrow> rune_start (concat rs ! 0)"
  using runes_head [of rs] by (metis length_0_conv not_less_zero)

lemma cut_between:
  assumes "list_all is_rune rs" "n < length (concat rs)"
  shows "\<exists>k. take (cut_at (concat rs) n) (concat rs) = concat (take k rs)"
  using assms
proof (induction rs arbitrary: n)
  case (Cons r rs)
  show ?case
  proof (cases "n < length r")
    case True
    then show ?thesis using Cons.prems cut_inside [of r n "concat rs"] by (intro exI [of _ 0]) simp
  next
    case False
    then have n: "n = length r + (n - length r)" "n - length r < length (concat rs)" using Cons.prems by auto
    then have "rune_start (concat rs ! 0)" using Cons.prems runes_head_at by auto
    then have "cut_at (r @ concat rs) n = length r + cut_at (concat rs) (n - length r)"
      using cut_behind [of r "n - length r" "concat rs"] Cons.prems n by simp
    moreover obtain k where "take (cut_at (concat rs) (n - length r)) (concat rs) = concat (take k rs)"
      using Cons.IH [of "n - length r"] Cons.prems n by auto
    ultimately show ?thesis by (intro exI [of _ "Suc k"]) simp
  qed
qed simp

lemma cut_loses_little: "list_all is_rune rs \<Longrightarrow> n < length (concat rs) \<Longrightarrow> n \<le> cut_at (concat rs) n + 3"
proof (induction rs arbitrary: n)
  case (Cons r rs)
  show ?case
  proof (cases "n < length r")
    case True
    then have "n \<le> 3" using Cons.prems by (auto elim!: is_rune_cases)
    then show ?thesis by simp
  next
    case False
    then have n: "n = length r + (n - length r)" "n - length r < length (concat rs)" using Cons.prems by auto
    then have "rune_start (concat rs ! 0)" using Cons.prems runes_head_at by auto
    then have "cut_at (r @ concat rs) n = length r + cut_at (concat rs) (n - length r)"
      using cut_behind [of r "n - length r" "concat rs"] Cons.prems n by simp
    then show ?thesis using Cons.IH [of "n - length r"] Cons.prems n by simp
  qed
qed simp

end
