(* ===== verification/Alert.thy ===== *)
theory Alert
  imports Wire Utf8 GoPath Machine "HOL-Library.Char_ord" "HOL-Library.List_Lexorder"
begin

text \<open>
  Alerts: the record and its checks (\<open>wire/alert.go\<close>, \<open>wire/alert_skip.go\<close>), the table of a host's alerts
  (\<open>store/alerts.go\<close>) and the book the alert rules write to (\<open>daemon/alertbook.go\<close>). Instants are
  milliseconds, the unit of the table. The theorems follow the table over every history of calls: each row
  tells its alert's current episode, the list can always be read, and no change of the list goes
  unannounced.
\<close>

section \<open>The record\<close>

datatype alert_kind = AlertDiskLow | AlertDiskFalling | AlertPressureHeld | AlertMservService | AlertWorkerCrash | AlertSilence
  | AlertThrash | AlertResidentGrowth | AlertOrphans | AlertPressureWatch | AlertPressureDanger | AlertSwapGrowth
  | AlertQueueStalled | AlertJobRequeued | AlertQueueBacklog | AlertQueueUnclaimable | AlertKindOther string

fun kind_name :: "alert_kind \<Rightarrow> string" where
  "kind_name AlertDiskLow = ''disk_low''"
| "kind_name AlertDiskFalling = ''disk_falling''"
| "kind_name AlertPressureHeld = ''pressure_held''"
| "kind_name AlertMservService = ''mserv_service''"
| "kind_name AlertWorkerCrash = ''worker_crash_loop''"
| "kind_name AlertSilence = ''silence''"
| "kind_name AlertThrash = ''thrash''"
| "kind_name AlertResidentGrowth = ''resident_growth''"
| "kind_name AlertOrphans = ''orphans''"
| "kind_name AlertPressureWatch = ''pressure_watch''"
| "kind_name AlertPressureDanger = ''pressure_danger''"
| "kind_name AlertSwapGrowth = ''swap_growth''"
| "kind_name AlertQueueStalled = ''queue_stalled''"
| "kind_name AlertJobRequeued = ''job_requeued''"
| "kind_name AlertQueueBacklog = ''queue_backlog''"
| "kind_name AlertQueueUnclaimable = ''queue_unclaimable''"
| "kind_name (AlertKindOther s) = s"

fun kind_valid :: "alert_kind \<Rightarrow> bool" where
  "kind_valid (AlertKindOther _) = False"
| "kind_valid _ = True"

datatype alert_level = AlertPush | AlertDigest | AlertWatch | AlertLevelOther string

fun level_name :: "alert_level \<Rightarrow> string" where
  "level_name AlertPush = ''push''"
| "level_name AlertDigest = ''digest''"
| "level_name AlertWatch = ''watch''"
| "level_name (AlertLevelOther s) = s"

fun level_valid :: "alert_level \<Rightarrow> bool" where
  "level_valid (AlertLevelOther _) = False"
| "level_valid _ = True"

record alert =
  al_key :: string
  al_kind :: alert_kind
  al_level :: alert_level
  al_since :: int
  al_last :: int
  al_cleared_at :: "int option"
  al_detail :: string

text \<open>The zero \<open>time.Time\<close> (1 January of year 1) as a Unix time in milliseconds.\<close>

definition zero_time :: int where
  "zero_time = -62135596800000"

definition max_alert_key_bytes :: nat where
  "max_alert_key_bytes = 200"

definition max_alert_detail_bytes :: nat where
  "max_alert_detail_bytes = 200"

definition max_alert_name_bytes :: nat where
  "max_alert_name_bytes = 64"

definition truncate_bytes :: "nat list \<Rightarrow> nat list" where
  "truncate_bytes s =
     (let t = drop_controls s in
      if length t \<le> max_alert_detail_bytes then t else take (cut_at t max_alert_detail_bytes) t)"

definition truncate_detail :: "string \<Rightarrow> string" where
  "truncate_detail s = map char_of (truncate_bytes (map byte_of s))"

definition detail_ok :: "string \<Rightarrow> bool" where
  "detail_ok s \<longleftrightarrow> length s \<le> max_alert_detail_bytes \<and> \<not> has_control (map byte_of s) \<and> utf8_valid (map byte_of s)"

text \<open>An unknown kind or level is told apart from every other error.\<close>

datatype alert_error = Broken string | Unknown_kind | Unknown_level

definition check_alert_name :: "string \<Rightarrow> string \<Rightarrow> alert_error option" where
  "check_alert_name what s =
     (if s = '''' \<or> length s > max_alert_name_bytes \<or> \<not> utf8_valid (map byte_of s) \<or> has_control (map byte_of s)
      then Some (Broken (''alert: the '' @ what @ '' must be a short line of text'')) else None)"

definition alert_validate :: "alert \<Rightarrow> alert_error option" where
  "alert_validate a =
     (if al_key a = '''' \<or> length (al_key a) > max_alert_key_bytes then Some (Broken ''alert: the key must be 1 to 200 bytes'')
      else if \<not> detail_ok (al_detail a) then Some (Broken ''alert: the detail must be valid text'')
      else if al_since a = zero_time \<or> al_last a = zero_time then Some (Broken ''alert: since and last are required'')
      else if al_last a < al_since a then Some (Broken ''alert: last is before since'')
      else if (case al_cleared_at a of Some c \<Rightarrow> c < al_last a | None \<Rightarrow> False) then Some (Broken ''alert: cleared_at is before last'')
      else case check_alert_name ''kind'' (kind_name (al_kind a)) of Some e \<Rightarrow> Some e
      | None \<Rightarrow> (case check_alert_name ''level'' (level_name (al_level a)) of Some e \<Rightarrow> Some e
      | None \<Rightarrow> if \<not> kind_valid (al_kind a) then Some Unknown_kind
               else if \<not> level_valid (al_level a) then Some Unknown_level else None))"

definition is_unknown_alert :: "alert_error \<Rightarrow> bool" where
  "is_unknown_alert e \<longleftrightarrow> e = Unknown_kind \<or> e = Unknown_level"

record alert_list =
  ll_host :: string
  ll_alerts :: "alert list"

definition alert_list_validate :: "alert_list \<Rightarrow> alert_error option" where
  "alert_list_validate l =
     (if ll_host l = '''' then Some (Broken ''alerts: missing host'')
      else List.find (\<lambda>_. True) (List.map_filter alert_validate (ll_alerts l)))"

record alert_event =
  le_host :: string

definition alert_event_validate :: "alert_event \<Rightarrow> go_error" where
  "alert_event_validate e = (if le_host e = '''' then Some ''alert event: missing host'' else None)"

section \<open>The two silences\<close>

text \<open>Byte by byte: the words for ``the host is offline'', for ``wwd does not answer (the host is there)'', and the wide colon.\<close>

definition silence_host_down_text :: string where
  "silence_host_down_text = map char_of [228, 184, 187, 230, 169, 159, 233, 155, 162, 231, 183, 154 :: nat]"

definition silence_wwd_down_text :: string where
  "silence_wwd_down_text = map char_of [119, 119, 100, 32, 230, 178, 146, 230, 156, 137, 229, 155, 158, 230, 135, 137, 239, 188, 136,
     228, 184, 187, 230, 169, 159, 233, 130, 132, 229, 156, 168, 239, 188, 137 :: nat]"

definition wide_colon :: string where
  "wide_colon = map char_of [239, 188, 154 :: nat]"

definition silence_detail_wwd_down :: "string \<Rightarrow> string" where
  "silence_detail_wwd_down alias = alias @ wide_colon @ silence_wwd_down_text"

definition silence_detail_host_down :: "string \<Rightarrow> string" where
  "silence_detail_host_down alias = alias @ wide_colon @ silence_host_down_text"

definition silence_host_down :: "string \<Rightarrow> bool" where
  "silence_host_down detail = str_suffix silence_host_down_text detail"

definition silence_kind :: "alert \<Rightarrow> string" where
  "silence_kind a =
     (if al_kind a \<noteq> AlertSilence then ''''
      else if silence_host_down (al_detail a) then ''host_down''
      else if str_suffix silence_wwd_down_text (al_detail a) then ''wwd_down'' else ''unknown'')"

section \<open>Unknown names, said once\<close>

text \<open>What a reader calls the alert it skipped: the quoted text of the source, as a value.\<close>

datatype skip_name = Skip_kind string | Skip_level string | Skip_more

record alert_skips =
  sk_seen :: "skip_name list"
  sk_overflow :: bool

definition max_alert_skips :: nat where
  "max_alert_skips = 64"

definition skip_what :: "alert \<Rightarrow> alert_error \<Rightarrow> skip_name option" where
  "skip_what a e = (case e of Unknown_kind \<Rightarrow> Some (Skip_kind (kind_name (al_kind a)))
     | Unknown_level \<Rightarrow> Some (Skip_level (level_name (al_level a))) | Broken _ \<Rightarrow> None)"

text \<open>\<open>First\<close>: the name, when it is to be said now.\<close>

definition skip_first :: "alert \<Rightarrow> alert_error \<Rightarrow> alert_skips \<Rightarrow> skip_name option \<times> alert_skips" where
  "skip_first a e s =
     (case skip_what a e of
        None \<Rightarrow> (None, s)
      | Some w \<Rightarrow>
          if w \<in> set (sk_seen s) then (None, s)
          else if length (sk_seen s) \<ge> max_alert_skips
            then (if sk_overflow s then (None, s) else (Some Skip_more, s\<lparr>sk_overflow := True\<rparr>))
          else (Some w, s\<lparr>sk_seen := w # sk_seen s\<rparr>))"

section \<open>The table\<close>

record alert_row =
  ar_key :: string
  ar_kind :: alert_kind
  ar_level :: alert_level
  ar_since :: int
  ar_last :: int
  ar_cleared :: "int option"
  ar_detail :: string

type_synonym alerts = "alert_row list"

definition active_rows :: "alerts \<Rightarrow> alert_row list" where
  "active_rows t = sort_key ar_key (filter (\<lambda>r. ar_cleared r = None) t)"

definition row_alert :: "alert_row \<Rightarrow> alert" where
  "row_alert r = \<lparr>al_key = ar_key r, al_kind = ar_kind r, al_level = ar_level r, al_since = ar_since r, al_last = ar_last r,
     al_cleared_at = None, al_detail = truncate_detail (ar_detail r)\<rparr>"

text \<open>The loop of \<open>ActiveAlerts\<close>: the alerts or the first error, what is logged, and the names remembered.\<close>

fun read_rows :: "alert_row list \<Rightarrow> alert_skips \<Rightarrow> (alert_error + alert list) \<times> skip_name list \<times> alert_skips" where
  "read_rows [] s = (Inr [], [], s)"
| "read_rows (r # rs) s =
     (case alert_validate (row_alert r) of
        None \<Rightarrow> (case read_rows rs s of (out, said, s') \<Rightarrow> (map_sum (\<lambda>e. e) ((#) (row_alert r)) out, said, s'))
      | Some e \<Rightarrow>
          if is_unknown_alert e then
            (case skip_first (row_alert r) e s of (w, s1) \<Rightarrow>
             (case read_rows rs s1 of (out, said, s') \<Rightarrow> (out, (case w of None \<Rightarrow> said | Some n \<Rightarrow> n # said), s')))
          else (Inl e, [], s))"

definition active_alerts :: "alerts \<Rightarrow> alert_skips \<Rightarrow> (alert_error + alert list) \<times> skip_name list \<times> alert_skips" where
  "active_alerts t s = read_rows (active_rows t) s"

definition active_alert_keys :: "alerts \<Rightarrow> string list" where
  "active_alert_keys t = map ar_key (active_rows t)"

definition alerts_retention :: int where
  "alerts_retention = 7 * 24 * 3600 * 1000"

definition drop_cleared :: "int \<Rightarrow> alerts \<Rightarrow> alerts" where
  "drop_cleared now t = filter (\<lambda>r. case ar_cleared r of None \<Rightarrow> True | Some c \<Rightarrow> \<not> c < now - alerts_retention) t"

text \<open>\<open>RaiseAlert\<close> fills the record the rule gave before it is checked.\<close>

definition raised_at :: "alert \<Rightarrow> int \<Rightarrow> alert" where
  "raised_at a now = a\<lparr>al_detail := truncate_detail (al_detail a), al_since := now, al_last := now, al_cleared_at := None\<rparr>"

definition raise_alert :: "alert \<Rightarrow> int \<Rightarrow> alerts \<Rightarrow> alert_error + (bool \<times> alerts)" where
  "raise_alert a0 now t =
     (let a = raised_at a0 now in
      case alert_validate a of
        Some e \<Rightarrow> Inl e
      | None \<Rightarrow>
          (let (changed_row, t1) =
             (case lookup_by ar_key (al_key a) t of
                None \<Rightarrow> (True, t @ [\<lparr>ar_key = al_key a, ar_kind = al_kind a, ar_level = al_level a, ar_since = now, ar_last = now,
                                  ar_cleared = None, ar_detail = al_detail a\<rparr>])
              | Some r \<Rightarrow>
                  if ar_cleared r \<noteq> None then
                    (True, update_by ar_key (al_key a) (\<lambda>r. r\<lparr>ar_kind := al_kind a, ar_level := al_level a, ar_detail := al_detail a,
                       ar_since := now, ar_last := now, ar_cleared := None\<rparr>) t)
                  else
                    (ar_kind r \<noteq> al_kind a \<or> ar_level r \<noteq> al_level a \<or> ar_detail r \<noteq> al_detail a,
                     update_by ar_key (al_key a) (\<lambda>r. r\<lparr>ar_kind := al_kind a, ar_level := al_level a, ar_detail := al_detail a,
                       ar_last := max (ar_last r) now\<rparr>) t))
           in Inr (changed_row, drop_cleared now t1)))"

definition clear_alert :: "string \<Rightarrow> int \<Rightarrow> alerts \<Rightarrow> bool \<times> alerts" where
  "clear_alert key now t =
     (let hit = (\<lambda>r. ar_key r = key \<and> ar_cleared r = None) in
      (list_ex hit t, map (\<lambda>r. if hit r then r\<lparr>ar_cleared := Some (max now (ar_last r))\<rparr> else r) t))"

section \<open>The book\<close>

text \<open>Each call: its error, whether the list's readers are told, and the table. \<open>broker\<close>: whether there is anyone to tell.\<close>

definition book_raise :: "bool \<Rightarrow> alert \<Rightarrow> int \<Rightarrow> alerts \<Rightarrow> alert_error option \<times> bool \<times> alerts" where
  "book_raise broker a now t = (case raise_alert a now t of Inl e \<Rightarrow> (Some e, False, t) | Inr (ch, t') \<Rightarrow> (None, ch \<and> broker, t'))"

definition book_clear :: "bool \<Rightarrow> string \<Rightarrow> int \<Rightarrow> alerts \<Rightarrow> bool \<times> alerts" where
  "book_clear broker key now t = (case clear_alert key now t of (ch, t') \<Rightarrow> (ch \<and> broker, t'))"

text \<open>\<open>Active\<close>, for the store, which has \<open>ActiveAlertKeys\<close>.\<close>

definition book_active :: "alerts \<Rightarrow> string \<Rightarrow> bool" where
  "book_active t key \<longleftrightarrow> key \<in> set (active_alert_keys t)"

section \<open>Details\<close>

lemma truncate_ok: "length (truncate_bytes s) \<le> max_alert_detail_bytes \<and> utf8_valid (truncate_bytes s) \<and> \<not> has_control (truncate_bytes s)"
proof -
  obtain rs where rs: "drop_controls s = concat rs" "list_all is_rune rs" "\<not> list_ex rune_control rs"
    using drop_controls_made_of by blast
  show ?thesis
  proof (cases "length (concat rs) \<le> max_alert_detail_bytes")
    case True
    then show ?thesis using rs utf8_runes [OF rs(2)] control_runes [OF rs(2)] by (simp add: truncate_bytes_def)
  next
    case False
    then obtain k where k: "take (cut_at (concat rs) max_alert_detail_bytes) (concat rs) = concat (take k rs)"
      using cut_between [OF rs(2)] by (metis not_le)
    have ok: "list_all is_rune (take k rs)" "\<not> list_ex rune_control (take k rs)"
      using rs(2,3) set_take_subset [of k rs] by (auto simp: list_all_iff list_ex_iff)
    then have "truncate_bytes s = concat (take k rs)" using False rs(1) k by (simp add: truncate_bytes_def)
    moreover have "length (truncate_bytes s) \<le> max_alert_detail_bytes"
      using False rs(1) cut_at_le [of "concat rs" max_alert_detail_bytes] by (simp add: truncate_bytes_def Let_def)
    ultimately show ?thesis using utf8_runes [OF ok(1)] control_runes [OF ok(1)] ok(2) by simp
  qed
qed

lemma rune_bytes: "is_rune r \<Longrightarrow> b \<in> set r \<Longrightarrow> b < 256"
  by (erule is_rune_cases) (auto simp: cont_byte_def dest!: second_cont)

lemma utf8_byte: "utf8_valid s \<Longrightarrow> b \<in> set s \<Longrightarrow> b < 256"
  using utf8_split [of s] rune_bytes by (fastforce simp: list_all_iff)

lemma bytes_of_chars: "\<forall>b \<in> set s. b < 256 \<Longrightarrow> map byte_of (map char_of s) = s"
  by (induction s) (simp_all add: byte_of_def)

lemma detail_bytes: "map byte_of (truncate_detail s) = truncate_bytes (map byte_of s)"
  unfolding truncate_detail_def using truncate_ok [of "map byte_of s"] utf8_byte [of "truncate_bytes (map byte_of s)"]
  by (intro bytes_of_chars) auto

lemma truncate_detail_ok [simp]: "detail_ok (truncate_detail s)"
  using truncate_ok [of "map byte_of s"] detail_bytes [of s] by (simp add: detail_ok_def) (simp add: truncate_detail_def)

lemma truncate_detail_same [simp]: "detail_ok s \<Longrightarrow> truncate_detail s = s"
  by (simp add: detail_ok_def truncate_detail_def truncate_bytes_def drop_controls_same map_idI byte_of_def comp_def)

text \<open>A longer text without control characters loses at most three bytes more than it has to.\<close>

lemma truncate_keeps: "length (drop_controls s) > max_alert_detail_bytes \<Longrightarrow> max_alert_detail_bytes \<le> length (truncate_bytes s) + 3"
proof -
  assume l: "length (drop_controls s) > max_alert_detail_bytes"
  obtain rs where rs: "drop_controls s = concat rs" "list_all is_rune rs" using drop_controls_made_of by blast
  then have "max_alert_detail_bytes \<le> cut_at (concat rs) max_alert_detail_bytes + 3" using cut_loses_little [OF rs(2)] l by simp
  then show ?thesis using l rs(1) cut_at_le [of "concat rs" max_alert_detail_bytes] by (simp add: truncate_bytes_def Let_def)
qed

text \<open>The two texts of a silence are told apart whatever the alias is.\<close>

lemma suffix_last: "q \<noteq> [] \<Longrightarrow> last p \<noteq> last q \<Longrightarrow> p \<noteq> [] \<Longrightarrow> \<not> str_suffix p (s @ q)"
  by (auto simp: str_suffix_iff) (metis last_appendR)

lemma silence_kinds:
  "al_kind a = AlertSilence \<Longrightarrow> al_detail a = silence_detail_wwd_down alias \<Longrightarrow> silence_kind a = ''wwd_down''"
  "al_kind a = AlertSilence \<Longrightarrow> al_detail a = silence_detail_host_down alias \<Longrightarrow> silence_kind a = ''host_down''"
proof -
  have "\<not> str_suffix silence_host_down_text ((alias @ wide_colon) @ silence_wwd_down_text)"
    by (rule suffix_last) (simp_all add: silence_host_down_text_def silence_wwd_down_text_def)
  moreover have "str_suffix silence_wwd_down_text ((alias @ wide_colon) @ silence_wwd_down_text)"
    "str_suffix silence_host_down_text ((alias @ wide_colon) @ silence_host_down_text)" by (auto simp: str_suffix_iff)
  ultimately show
    "al_kind a = AlertSilence \<Longrightarrow> al_detail a = silence_detail_wwd_down alias \<Longrightarrow> silence_kind a = ''wwd_down''"
    "al_kind a = AlertSilence \<Longrightarrow> al_detail a = silence_detail_host_down alias \<Longrightarrow> silence_kind a = ''host_down''"
    by (simp_all add: silence_kind_def silence_host_down_def silence_detail_wwd_down_def silence_detail_host_down_def)
qed

section \<open>Histories\<close>

datatype alert_call = A_raise alert int | A_clear string int

fun alert_step :: "alert_call \<Rightarrow> alerts \<Rightarrow> alerts" where
  "alert_step (A_raise a now) t = snd (snd (book_raise True a now t))"
| "alert_step (A_clear k now) t = snd (book_clear True k now t)"

text \<open>Whether the readers of the list are told.\<close>

fun told :: "alert_call \<Rightarrow> alerts \<Rightarrow> bool" where
  "told (A_raise a now) t = fst (snd (book_raise True a now t))"
| "told (A_clear k now) t = fst (book_clear True k now t)"

definition active_row :: "string \<Rightarrow> alerts \<Rightarrow> alert_row option" where
  "active_row k t = (case lookup_by ar_key k t of Some r \<Rightarrow> if ar_cleared r = None then Some r else None | None \<Rightarrow> None)"

lemma active_key: "unique_by ar_key t \<Longrightarrow> book_active t k \<longleftrightarrow> active_row k t \<noteq> None"
  by (force simp: book_active_def active_alert_keys_def active_rows_def active_row_def lookup_by_None_iff
      dest: lookup_by_Some lookup_by_unique split: option.splits)

definition accepted :: "alert \<Rightarrow> int \<Rightarrow> bool" where
  "accepted a now \<longleftrightarrow> alert_validate (raised_at a now) = None"

lemma valid_names:
  "kind_valid k \<Longrightarrow> check_alert_name ''kind'' (kind_name k) = None"
  "level_valid l \<Longrightarrow> check_alert_name ''level'' (level_name l) = None"
  by (cases k; simp; code_simp) (cases l; simp; code_simp)

lemma accepted_iff:
  "accepted a now \<longleftrightarrow> al_key a \<noteq> '''' \<and> length (al_key a) \<le> max_alert_key_bytes \<and> now \<noteq> zero_time \<and> kind_valid (al_kind a) \<and> level_valid (al_level a)"
  by (auto simp: accepted_def alert_validate_def raised_at_def valid_names split: option.splits)

text \<open>What a raise makes of a row, and a fresh one.\<close>

definition refreshed :: "alert \<Rightarrow> int \<Rightarrow> alert_row \<Rightarrow> alert_row" where
  "refreshed a now r = r\<lparr>ar_kind := al_kind a, ar_level := al_level a, ar_detail := truncate_detail (al_detail a), ar_last := max (ar_last r) now\<rparr>"

definition fresh_row :: "alert \<Rightarrow> int \<Rightarrow> alert_row" where
  "fresh_row a now = \<lparr>ar_key = al_key a, ar_kind = al_kind a, ar_level = al_level a, ar_since = now, ar_last = now, ar_cleared = None,
     ar_detail = truncate_detail (al_detail a)\<rparr>"

lemma active_drop_cleared: "unique_by ar_key t \<Longrightarrow> active_row k (drop_cleared now t) = active_row k t"
  by (auto simp: active_row_def drop_cleared_def lookup_by_filter split: option.splits)

lemma raise_alert_cases:
  assumes "accepted a now"
  obtains "lookup_by ar_key (al_key a) t = None" "book_raise True a now t = (None, True, drop_cleared now (t @ [fresh_row a now]))"
  | r where "lookup_by ar_key (al_key a) t = Some r" "ar_cleared r \<noteq> None"
      "book_raise True a now t = (None, True, drop_cleared now (update_by ar_key (al_key a) (\<lambda>_. fresh_row a now) t))"
  | r where "lookup_by ar_key (al_key a) t = Some r" "ar_cleared r = None"
      "book_raise True a now t = (None, ar_kind r \<noteq> al_kind a \<or> ar_level r \<noteq> al_level a \<or> ar_detail r \<noteq> truncate_detail (al_detail a),
         drop_cleared now (update_by ar_key (al_key a) (refreshed a now) t))"
proof (cases "lookup_by ar_key (al_key a) t")
  case None
  then show ?thesis using assms that(1) by (simp add: book_raise_def raise_alert_def Let_def accepted_def raised_at_def fresh_row_def)
next
  case (Some r)
  have eq: "update_by ar_key (al_key a) (\<lambda>r. r\<lparr>ar_kind := al_kind a, ar_level := al_level a, ar_detail := truncate_detail (al_detail a),
      ar_since := now, ar_last := now, ar_cleared := None\<rparr>) t = update_by ar_key (al_key a) (\<lambda>_. fresh_row a now) t"
    by (auto simp: update_by_def fresh_row_def)
  show ?thesis
    using assms that(2,3) Some eq
    by (cases "ar_cleared r") (simp_all add: book_raise_def raise_alert_def Let_def accepted_def raised_at_def refreshed_def [abs_def])
qed

lemma refused: "\<not> accepted a now \<Longrightarrow> alert_step (A_raise a now) t = t \<and> \<not> told (A_raise a now) t"
  by (auto simp: book_raise_def raise_alert_def accepted_def Let_def split: option.splits)

lemma refreshed_simps [simp]:
  "ar_key (refreshed a now r) = ar_key r" "ar_cleared (refreshed a now r) = ar_cleared r" "ar_key (fresh_row a now) = al_key a"
  "ar_cleared (fresh_row a now) = None" "ar_since (refreshed a now r) = ar_since r"
  by (simp_all add: refreshed_def fresh_row_def)

lemma clear_as_update:
  "clear_alert key now t = (list_ex (\<lambda>r. ar_key r = key \<and> ar_cleared r = None) t,
     update_by ar_key key (\<lambda>r. if ar_cleared r = None then r\<lparr>ar_cleared := Some (max now (ar_last r))\<rparr> else r) t)"
  by (auto simp: clear_alert_def update_by_def)

lemma unique_step: "unique_by ar_key t \<Longrightarrow> unique_by ar_key (alert_step c t)"
proof (cases c)
  case (A_raise a now)
  assume u: "unique_by ar_key t"
  have f: "unique_by ar_key (update_by ar_key (al_key a) (\<lambda>_. fresh_row a now) t)"
    using u by (simp add: unique_by_def update_by_def comp_def if_distrib cong: if_cong)
  show ?thesis
  proof (cases "accepted a now")
    case True
    then show ?thesis unfolding A_raise using u f
      by (cases rule: raise_alert_cases [of a now t])
        (auto simp: drop_cleared_def unique_by_snoc lookup_by_None_iff intro!: unique_by_filter)
  qed (use u A_raise refused in simp)
next
  case (A_clear k now)
  assume "unique_by ar_key t"
  then show ?thesis unfolding A_clear by (auto simp: book_clear_def clear_as_update)
qed

lemma lookup_replace:
  "lookup_by key k' (update_by key (key x) (\<lambda>_. x) t) = (if k' = key x then (if lookup_by key (key x) t = None then None else Some x) else lookup_by key k' t)"
  by (induction t) (auto simp: update_by_def)

lemma active_raise:
  assumes u: "unique_by ar_key t"
  shows "active_row k (alert_step (A_raise a now) t) =
    (if accepted a now \<and> k = al_key a then Some (case active_row k t of None \<Rightarrow> fresh_row a now | Some r \<Rightarrow> refreshed a now r) else active_row k t)"
proof (cases "accepted a now")
  case True
  have r: "lookup_by ar_key k (update_by ar_key (al_key a) (refreshed a now) t)
      = (if k = al_key a then map_option (refreshed a now) (lookup_by ar_key (al_key a) t) else lookup_by ar_key k t)"
    by (rule lookup_update_by) simp
  have f: "lookup_by ar_key k (update_by ar_key (al_key a) (\<lambda>_. fresh_row a now) t)
      = (if k = al_key a then (if lookup_by ar_key (al_key a) t = None then None else Some (fresh_row a now)) else lookup_by ar_key k t)"
    using lookup_replace [of ar_key k "fresh_row a now" t] by simp
  have u': "unique_by ar_key (update_by ar_key (al_key a) (refreshed a now) t)" using u by auto
  have u'': "unique_by ar_key (update_by ar_key (al_key a) (\<lambda>_. fresh_row a now) t)"
    using u by (simp add: unique_by_def update_by_def comp_def if_distrib cong: if_cong)
  from True show ?thesis
  proof (cases rule: raise_alert_cases [of a now t])
    case 1
    then have "unique_by ar_key (t @ [fresh_row a now])" using u by (auto simp: unique_by_snoc lookup_by_None_iff)
    then show ?thesis using True 1 by (auto simp: active_drop_cleared) (auto simp: active_row_def lookup_by_append split: option.splits)
  next
    case (2 r)
    then show ?thesis using True u'' f by (auto simp: active_drop_cleared) (auto simp: active_row_def)
  next
    case (3 r)
    then show ?thesis using True u' r by (auto simp: active_drop_cleared) (auto simp: active_row_def)
  qed
qed (simp add: refused del: alert_step.simps)

lemma active_clear: "active_row k (alert_step (A_clear k' now) t) = (if k = k' then None else active_row k t)"
  by (auto simp: book_clear_def clear_as_update active_row_def lookup_update_by split: option.splits)

text \<open>The raises of a key since it was last cleared.\<close>

fun episode_step :: "string \<Rightarrow> alert_call \<Rightarrow> (alert \<times> int) list \<Rightarrow> (alert \<times> int) list" where
  "episode_step k (A_raise a now) ep = (if accepted a now \<and> k = al_key a then ep @ [(a, now)] else ep)"
| "episode_step k (A_clear k' now) ep = (if k = k' then [] else ep)"

definition episode :: "string \<Rightarrow> alert_call list \<Rightarrow> (alert \<times> int) list" where
  "episode k cs = fold (episode_step k) cs []"

definition episode_row :: "string \<Rightarrow> (alert \<times> int) list \<Rightarrow> alert_row option" where
  "episode_row k ep = (if ep = [] then None else
     Some \<lparr>ar_key = k, ar_kind = al_kind (fst (last ep)), ar_level = al_level (fst (last ep)), ar_since = snd (hd ep), ar_last = Max (set (map snd ep)),
           ar_cleared = None, ar_detail = truncate_detail (al_detail (fst (last ep)))\<rparr>)"

lemma episode_row_snoc:
  "k = al_key a \<Longrightarrow> episode_row k (ep @ [(a, now)]) = Some (case episode_row k ep of None \<Rightarrow> fresh_row a now | Some r \<Rightarrow> refreshed a now r)"
  by (auto simp: episode_row_def fresh_row_def refreshed_def max.commute)

definition table_after :: "alert_call list \<Rightarrow> alerts" where
  "table_after cs = fold alert_step cs []"

lemma table_after_snoc: "table_after (cs @ [c]) = alert_step c (table_after cs)"
  by (simp add: table_after_def)

interpretation alert_table: machine alert_step "[]" "\<lambda>_. True" "unique_by ar_key"
  by unfold_locales (simp_all add: unique_by_def [of _ "[]"] unique_step)

lemma table_unique: "unique_by ar_key (table_after cs)"
  using alert_table.inv_run [of cs] by (simp add: table_after_def list_all_iff)

text \<open>
  C31: the table tells, for every key and whatever was raised and cleared before, the alert's current
  episode: no active row unless an accepted raise came after the last clear, and then a row that began
  with the first raise of the episode, was last seen at the latest of them (also when the clock went
  back), and has the kind, the level and the cut text of the newest.
\<close>

theorem table_tells_the_episode:
  "active_row k (table_after cs) = episode_row k (episode k cs)"
proof (induction cs rule: rev_induct)
  case Nil
  show ?case by (simp add: table_after_def active_row_def episode_def episode_row_def)
next
  case (snoc c cs)
  have "episode k (cs @ [c]) = episode_step k c (episode k cs)" by (simp add: episode_def)
  then show ?case
    using snoc active_raise [OF table_unique, of k] active_clear
    by (cases c) (auto simp: table_after_snoc episode_row_snoc simp del: alert_step.simps, simp add: episode_row_def)
qed


section \<open>What readers see\<close>

text \<open>A row as this or a later release writes it: all of the check but the two names being known ones.\<close>

definition row_shape :: "alert_row \<Rightarrow> bool" where
  "row_shape r \<longleftrightarrow> ar_key r \<noteq> '''' \<and> length (ar_key r) \<le> max_alert_key_bytes \<and> ar_since r \<noteq> zero_time \<and> ar_last r \<noteq> zero_time
     \<and> ar_since r \<le> ar_last r \<and> check_alert_name ''kind'' (kind_name (ar_kind r)) = None \<and> check_alert_name ''level'' (level_name (ar_level r)) = None"

definition known_row :: "alert_row \<Rightarrow> bool" where
  "known_row r \<longleftrightarrow> kind_valid (ar_kind r) \<and> level_valid (ar_level r)"

lemma validate_row:
  "row_shape r \<Longrightarrow> alert_validate (row_alert r) =
     (if \<not> kind_valid (ar_kind r) then Some Unknown_kind else if \<not> level_valid (ar_level r) then Some Unknown_level else None)"
  by (simp add: alert_validate_def row_alert_def row_shape_def)

lemma read_rows_ok: "\<forall>r \<in> set rs. row_shape r \<Longrightarrow> fst (read_rows rs s) = Inr (map row_alert (filter known_row rs))"
proof (induction rs arbitrary: s)
  case (Cons r rs)
  then show ?case
    by (simp add: validate_row known_row_def is_unknown_alert_def case_prod_beta)
qed simp

definition table_ok :: "alerts \<Rightarrow> bool" where
  "table_ok t \<longleftrightarrow> unique_by ar_key t \<and> (\<forall>r \<in> set t. row_shape r)"

lemma shape_raise:
  "accepted a now \<Longrightarrow> row_shape (fresh_row a now)"
  "accepted a now \<Longrightarrow> row_shape r \<Longrightarrow> row_shape (refreshed a now r)"
  by (auto simp: accepted_iff row_shape_def fresh_row_def refreshed_def valid_names max_def)

lemma table_ok_step: "table_ok t \<Longrightarrow> table_ok (alert_step c t)"
proof -
  assume t: "table_ok t"
  have "row_shape r" if "r \<in> set (alert_step c t)" for r
  proof (cases c)
    case (A_raise a now)
    show ?thesis
    proof (cases "accepted a now")
      case True
      from True show ?thesis
        using True that t unfolding A_raise
        by (cases rule: raise_alert_cases [of a now t]) (auto simp: drop_cleared_def set_update_by table_ok_def shape_raise split: if_splits)
    qed (use t that A_raise refused [of a now t] in \<open>auto simp: table_ok_def\<close>)
  next
    case (A_clear k now)
    then show ?thesis using that t by (auto simp: book_clear_def clear_alert_def table_ok_def row_shape_def split: if_splits)
  qed
  then show ?thesis using t unique_step by (auto simp: table_ok_def)
qed

text \<open>
  C32: the list of alerts can always be read. Whatever is raised and cleared, on a table that a
  release before or after this one may have begun, reading the list gives every active alert this
  release knows, in the order of their keys, and never an error; the rows of a later release are left
  out and nothing else is.
\<close>

theorem alerts_always_readable:
  assumes "table_ok t0" and "t = fold alert_step cs t0"
  shows "fst (active_alerts t s) = Inr (map row_alert (filter known_row (active_rows t)))"
proof -
  have "table_ok t \<Longrightarrow> table_ok (fold alert_step cs t)" for t
    by (induction cs arbitrary: t) (auto simp: table_ok_step)
  then have "\<forall>r \<in> set (active_rows t). row_shape r" using assms by (auto simp: table_ok_def active_rows_def)
  then show ?thesis by (simp add: active_alerts_def read_rows_ok)
qed

text \<open>What the list shows of a row but for the time it was last seen.\<close>

definition shown_row :: "alert_row \<Rightarrow> string \<times> alert_kind \<times> alert_level \<times> int \<times> string" where
  "shown_row r = (ar_key r, ar_kind r, ar_level r, ar_since r, ar_detail r)"

definition shown :: "alerts \<Rightarrow> (string \<times> alert_kind \<times> alert_level \<times> int \<times> string) list" where
  "shown t = map shown_row (active_rows t)"

lemma active_row_iff: "unique_by ar_key t \<Longrightarrow> active_row k t = Some r \<longleftrightarrow> r \<in> set t \<and> ar_cleared r = None \<and> ar_key r = k"
proof -
  assume "unique_by ar_key t"
  moreover have "active_row k t = Some r \<longleftrightarrow> lookup_by ar_key k t = Some r \<and> ar_cleared r = None"
    by (auto simp: active_row_def split: option.splits)
  ultimately show ?thesis by (auto simp: lookup_by_unique_iff)
qed

lemma shown_at:
  assumes "unique_by ar_key t"
  shows "map_option shown_row (active_row k t) = Some v \<longleftrightarrow> v \<in> set (shown t) \<and> fst v = k"
  using active_row_iff [OF assms, of k] by (auto simp: shown_def active_rows_def shown_row_def)

lemma shown_determines:
  assumes "unique_by ar_key s" "unique_by ar_key t" "shown s = shown t"
  shows "map_option shown_row (active_row k s) = map_option shown_row (active_row k t)"
proof -
  have "map_option shown_row (active_row k s) = Some v \<longleftrightarrow> map_option shown_row (active_row k t) = Some v" for v
    by (simp only: shown_at [OF assms(1)] shown_at [OF assms(2)] assms(3))
  then show ?thesis by (metis option.exhaust)
qed

lemma sort_key_update: "(\<And>x. key (f x) = key x) \<Longrightarrow> sort_key key (map f xs) = map f (sort_key key xs)"
proof (induction xs)
  case (Cons x xs)
  have "insort_key key (f x) (map f ys) = map f (insort_key key x ys)" for ys using Cons.prems by (induction ys) auto
  then show ?case using Cons by simp
qed simp

lemma shown_update:
  assumes "\<And>r. ar_key (f r) = ar_key r" "\<And>r. ar_cleared (f r) = ar_cleared r" "\<And>r. r \<in> set t \<Longrightarrow> shown_row (f r) = shown_row r"
  shows "shown (map f t) = shown t"
  using assms by (simp add: shown_def active_rows_def filter_map sort_key_update comp_def)

lemma shown_drop [simp]: "shown (drop_cleared now t) = shown t"
proof -
  have "filter (\<lambda>r. ar_cleared r = None) (drop_cleared now t) = filter (\<lambda>r. ar_cleared r = None) t"
    by (auto simp: drop_cleared_def intro!: filter_cong)
  then show ?thesis by (simp add: shown_def active_rows_def)
qed


lemma refreshed_shown:
  "ar_kind r = al_kind a \<Longrightarrow> ar_level r = al_level a \<Longrightarrow> ar_detail r = truncate_detail (al_detail a) \<Longrightarrow> shown_row (refreshed a now r) = shown_row r"
  by (simp add: shown_row_def refreshed_def)

lemma quiet_shows_same: "\<not> told c t \<Longrightarrow> unique_by ar_key t \<Longrightarrow> shown (alert_step c t) = shown t"
proof (cases c)
  case (A_raise a now)
  assume q: "\<not> told c t" and u: "unique_by ar_key t"
  show ?thesis
  proof (cases "accepted a now")
    case True
    from True show ?thesis
    proof (cases rule: raise_alert_cases [of a now t])
      case (3 r)
      then have "ar_kind r = al_kind a" "ar_level r = al_level a" "ar_detail r = truncate_detail (al_detail a)" using q A_raise by auto
      moreover have "s = r" if "s \<in> set t" "ar_key s = al_key a" for s using lookup_by_unique [OF u that(1)] that(2) 3(1) by simp
      ultimately have "shown_row (refreshed a now s) = shown_row s" if "s \<in> set t" "ar_key s = al_key a" for s
        using that by (metis refreshed_shown)
      then show ?thesis using A_raise 3 by (simp add: update_by_def) (rule shown_update; simp)
    qed (use q A_raise in auto)
  qed (use A_raise refused [of a now t] in simp)
next
  case (A_clear k now)
  assume q: "\<not> told c t"
  then have "map (\<lambda>r. if ar_key r = k \<and> ar_cleared r = None then r\<lparr>ar_cleared := Some (max now (ar_last r))\<rparr> else r) t = t"
    using A_clear by (auto simp: book_clear_def clear_alert_def list_ex_iff intro!: map_idI)
  then show ?thesis using A_clear by (simp add: book_clear_def clear_alert_def)
qed

lemma told_shows_other:
  assumes "told c t" "unique_by ar_key t"
  shows "shown (alert_step c t) \<noteq> shown t"
proof -
  let ?k = "case c of A_raise a _ \<Rightarrow> al_key a | A_clear k _ \<Rightarrow> k"
  have "map_option shown_row (active_row ?k (alert_step c t)) \<noteq> map_option shown_row (active_row ?k t)"
  proof (cases c)
    case (A_raise a now)
    then have acc: "accepted a now" using assms(1) refused by blast
    from acc show ?thesis
    proof (cases rule: raise_alert_cases [of a now t])
      case 1
      then have "active_row (al_key a) t = None" by (simp add: active_row_def)
      then show ?thesis using A_raise acc active_raise [OF assms(2)] by simp
    next
      case (2 r)
      then have "active_row (al_key a) t = None" by (simp add: active_row_def)
      then show ?thesis using A_raise acc active_raise [OF assms(2)] by simp
    next
      case (3 r)
      then have "active_row (al_key a) t = Some r" by (simp add: active_row_def)
      then show ?thesis using A_raise acc active_raise [OF assms(2), of "al_key a" a now] assms(1) 3
        by (auto simp: shown_row_def refreshed_def)
    qed
  next
    case (A_clear k now)
    then obtain r where r: "r \<in> set t" "ar_key r = k" "ar_cleared r = None"
      using assms(1) by (auto simp: book_clear_def clear_alert_def list_ex_iff)
    then have "active_row k t = Some r" using lookup_by_unique [OF assms(2) r(1)] by (simp add: active_row_def)
    then show ?thesis using A_clear active_clear [of k k now t] by simp
  qed
  then show ?thesis using shown_determines [OF unique_step [OF assms(2)] assms(2)] by blast
qed


text \<open>
  C33: after every history, a call tells the readers of the list exactly when the list it leaves shows
  something else: another alert, one alert less, or another level, kind, beginning or text. A repeated
  raise that only moves the time last seen tells nobody, and no change goes unannounced.
\<close>

theorem changes_are_announced:
  "told c (table_after cs) \<longleftrightarrow> shown (table_after (cs @ [c])) \<noteq> shown (table_after cs)"
  using told_shows_other [of c "table_after cs"] quiet_shows_same [of c "table_after cs"] table_unique [of cs]
  by (auto simp: table_after_snoc)

text \<open>
  C34: the text of an alert is always fit for a push, whatever the rule wrote, valid UTF-8 or not: at
  most 200 bytes of valid text with no control character.
\<close>

theorem detail_always_fits:
  "length (truncate_detail s) \<le> 200 \<and> utf8_valid (map byte_of (truncate_detail s)) \<and> \<not> has_control (map byte_of (truncate_detail s))"
  using truncate_detail_ok [of s] by (simp add: detail_ok_def max_alert_detail_bytes_def)

section \<open>An example\<close>

definition sample_alert :: "string \<Rightarrow> alert" where
  "sample_alert d = \<lparr>al_key = ''disk_low'', al_kind = AlertDiskLow, al_level = AlertPush, al_since = zero_time, al_last = zero_time, al_cleared_at = None, al_detail = d\<rparr>"

definition later_row :: alert_row where
  "later_row = \<lparr>ar_key = ''x'', ar_kind = AlertKindOther ''moon_phase'', ar_level = AlertPush, ar_since = 1, ar_last = 2, ar_cleared = None, ar_detail = ''?''\<rparr>"

theorem alerts_always_readable_witness:
  "fst (active_alerts (fold alert_step [A_raise (sample_alert ''a'') 5, A_raise (sample_alert ''b'') 4] [later_row]) \<lparr>sk_seen = [], sk_overflow = False\<rparr>)
     = Inr [\<lparr>al_key = ''disk_low'', al_kind = AlertDiskLow, al_level = AlertPush, al_since = 5, al_last = 5, al_cleared_at = None, al_detail = ''b''\<rparr>]"
proof -
  have "table_ok [later_row]"
    by (simp add: table_ok_def later_row_def row_shape_def unique_by_def zero_time_def max_alert_key_bytes_def) code_simp
  from alerts_always_readable [OF this refl, of "[A_raise (sample_alert ''a'') 5, A_raise (sample_alert ''b'') 4]"]
  show ?thesis by (simp only:) code_simp
qed

end
