(* ===== verification/AlertText.thy ===== *)
theory AlertText
  imports Float64 Decimal
begin

text \<open>
  The one line of text of each alert (the \<open>fmt.Sprintf\<close> calls of \<open>advisor/rules*.go\<close>), byte by byte: the
  Chinese words are the UTF-8 bytes of the source, \<open>%d\<close> a decimal number, \<open>%.1f\<close> and \<open>%.0f\<close> a \<open>float64\<close>
  rounded to the nearest decimal, half to even.
\<close>

section \<open>Numbers\<close>

definition utf :: "nat list \<Rightarrow> string" where
  "utf bs = map char_of bs"

definition fmt_special :: "float64 \<Rightarrow> string" where
  "fmt_special x = (case x of NaN \<Rightarrow> ''NaN'' | PInf \<Rightarrow> ''+Inf'' | NInf \<Rightarrow> ''-Inf'' | Fin _ \<Rightarrow> '''')"

definition fmt_f1 :: "float64 \<Rightarrow> string" where
  "fmt_f1 x = (case x of Fin q \<Rightarrow>
       (let n = nat (rne (\<bar>q\<bar> * 10)) in (if q < 0 then ''-'' else '''') @ format_nat (n div 10) @ ''.'' @ format_nat (n mod 10))
     | _ \<Rightarrow> fmt_special x)"

definition fmt_f0 :: "float64 \<Rightarrow> string" where
  "fmt_f0 x = (case x of Fin q \<Rightarrow> (if q < 0 then ''-'' else '''') @ format_nat (nat (rne \<bar>q\<bar>)) | _ \<Rightarrow> fmt_special x)"

section \<open>Lines\<close>

definition text_disk_left :: "string \<Rightarrow> float64 \<Rightarrow> string" where
  "text_disk_left mount free =
    mount @ '' '' @ utf [229, 137, 169] @ '' '' @ fmt_f1 free @ '' GB''"

definition text_disk_falls :: "string \<Rightarrow> float64 \<Rightarrow> float64 \<Rightarrow> string" where
  "text_disk_falls mount free rate =
    mount @ '' '' @ utf [229, 137, 169] @ '' '' @ fmt_f1 free @ '' GB'' @
    utf [239, 188, 140, 230, 175, 143, 229, 176, 143, 230, 153, 130, 229, 176, 145] @ '' '' @ fmt_f1 rate @ '' GB'' @ utf [239, 188, 136] @ ''3 '' @
    utf [229, 176, 143, 230, 153, 130, 232, 182, 168, 229, 139, 162, 239, 188, 137]"

definition text_crash :: "int \<Rightarrow> string" where
  "text_crash n =
    ''wwd '' @
    utf [228, 184, 128, 229, 176, 143, 230, 153, 130, 229, 133, 167, 231, 149, 182, 230, 169, 159, 229, 190, 140, 233, 135, 141, 229, 149, 159] @
    '' '' @ format_int n @ '' '' @ utf [230, 172, 161]"

definition text_and_more :: "string \<Rightarrow> int \<Rightarrow> string" where
  "text_and_more ids n =
    ids @ '' '' @ utf [231, 173, 137] @ '' '' @ format_int n @ '' '' @ utf [228, 187, 182]"

definition text_backlog :: "string \<Rightarrow> int \<Rightarrow> string" where
  "text_backlog jid n =
    utf [228, 189, 135, 229, 136, 151, 231, 169, 141, 229, 163, 147, 239, 188, 154, 230, 156, 128, 232, 128, 129, 231, 154, 132] @ '' job '' @ jid @
    '' '' @ utf [229, 183, 178, 231, 173, 137] @ '' '' @ format_int n @ '' '' @ utf [229, 136, 134, 233, 144, 152]"

definition text_times :: "string \<Rightarrow> int \<Rightarrow> string" where
  "text_times jid n =
    jid @ utf [239, 188, 136] @ format_int n @ '' '' @ utf [230, 172, 161, 239, 188, 137]"

definition text_requeued :: "string \<Rightarrow> string" where
  "text_requeued ids =
    ''job '' @ utf [229, 143, 141, 232, 166, 134, 232, 162, 171, 230, 148, 190, 229, 155, 158, 239, 188, 154] @ ids"

definition text_stalled_one :: "string \<Rightarrow> string \<Rightarrow> int \<Rightarrow> string" where
  "text_stalled_one h ids n =
    utf [228, 189, 135, 229, 136, 151, 229, 129, 156, 230, 187, 175, 239, 188, 154] @ h @ '' '' @
    utf [230, 156, 137, 231, 169, 186, 228, 189, 141, 239, 188, 140] @ ids @ '' '' @
    utf [229, 183, 178, 231, 173, 137, 232, 182, 133, 233, 129, 142] @ '' '' @ format_int n @ '' '' @
    utf [229, 136, 134, 233, 144, 152, 230, 178, 146, 232, 162, 171, 233, 160, 152]"

definition text_stalled_part :: "string \<Rightarrow> string \<Rightarrow> string" where
  "text_stalled_part h ids =
    h @ '' '' @ utf [230, 156, 137, 231, 169, 186, 228, 189, 141, 239, 188, 140] @ ids"

definition text_stalled_more :: "string \<Rightarrow> int \<Rightarrow> string" where
  "text_stalled_more parts n =
    utf [228, 189, 135, 229, 136, 151, 229, 129, 156, 230, 187, 175, 239, 188, 154] @ parts @
    utf [239, 188, 155, 228, 187, 165, 228, 184, 138, 229, 183, 178, 231, 173, 137, 232, 182, 133, 233, 129, 142] @ '' '' @ format_int n @ '' '' @
    utf [229, 136, 134, 233, 144, 152, 230, 178, 146, 232, 162, 171, 233, 160, 152]"

definition text_unclaimable :: "string \<Rightarrow> string" where
  "text_unclaimable ids =
    utf [230, 178, 146, 230, 156, 137, 228, 184, 187, 230, 169, 159, 230, 142, 165, 229, 190, 151, 228, 186, 134, 239, 188, 154] @ ids"

definition text_watch_still :: "string" where
  "text_watch_still =
    utf [232, 168, 152, 230, 134, 182, 233, 171, 148, 229, 163, 147, 229, 138, 155, 228, 187, 141, 229, 156, 168, 239, 188, 136, 230, 156, 128, 232,
      191, 145] @ '' 10 '' @
    utf [229, 136, 134, 233, 144, 152, 229, 133, 167, 230, 156, 137, 229, 163, 147, 229, 138, 155, 230, 168, 163, 230, 156, 172, 239, 188, 137]"

definition text_watch_span :: "int \<Rightarrow> string" where
  "text_watch_span n =
    utf [232, 168, 152, 230, 134, 182, 233, 171, 148, 229, 163, 147, 229, 138, 155, 229, 183, 178, 230, 140, 129, 231, 186, 140] @ '' '' @
    format_int n @ '' '' @ utf [231, 167, 146]"

definition text_watch_entries :: "int \<Rightarrow> string" where
  "text_watch_entries n =
    ''30 '' @ utf [229, 136, 134, 233, 144, 152, 229, 133, 167] @ '' '' @ format_int n @ '' '' @
    utf [230, 172, 161, 233, 128, 178, 229, 133, 165, 232, 168, 152, 230, 134, 182, 233, 171, 148, 229, 163, 147, 229, 138, 155]"

definition text_danger_psi :: "float64 \<Rightarrow> float64 \<Rightarrow> string" where
  "text_danger_psi full10 some60 =
    utf [232, 168, 152, 230, 134, 182, 233, 171, 148, 229, 163, 147, 229, 138, 155, 229, 141, 177, 230, 128, 165, 239, 188, 136] @ ''PSI full10 '' @
    fmt_f1 full10 @ utf [239, 188, 140] @ ''some60 '' @ fmt_f1 some60 @ utf [239, 188, 137]"

definition text_danger_level :: "int \<Rightarrow> string" where
  "text_danger_level n =
    utf [232, 168, 152, 230, 134, 182, 233, 171, 148, 229, 163, 147, 229, 138, 155, 229, 141, 177, 230, 128, 165, 239, 188, 136, 231, 173, 137, 231,
      180, 154] @ '' '' @ format_int n @ utf [239, 188, 137]"

definition text_swap_grew :: "int \<Rightarrow> int \<Rightarrow> string" where
  "text_swap_grew n limit =
    ''swap '' @ utf [229, 156, 168] @ '' 30 '' @ utf [229, 136, 134, 233, 144, 152, 229, 133, 167, 229, 162, 158, 229, 138, 160] @ '' '' @
    format_int n @ '' MB'' @ utf [239, 188, 136, 233, 150, 128, 230, 170, 187] @ '' '' @ format_int limit @ '' MB'' @ utf [239, 188, 137]"

definition text_held_still :: "string" where
  "text_held_still =
    utf [232, 168, 152, 230, 134, 182, 233, 171, 148, 229, 163, 147, 229, 138, 155, 230, 140, 129, 231, 186, 140, 229, 156, 168] @ '' warning '' @
    utf [228, 187, 165, 228, 184, 138]"

definition text_held :: "int \<Rightarrow> int \<Rightarrow> string" where
  "text_held n mb =
    utf [232, 168, 152, 230, 134, 182, 233, 171, 148, 229, 163, 147, 229, 138, 155, 229, 156, 168] @ '' warning '' @
    utf [228, 187, 165, 228, 184, 138, 229, 183, 178] @ '' '' @ format_int n @ '' '' @ utf [229, 136, 134, 233, 144, 152, 239, 188, 140] @
    ''swap '' @ utf [229, 162, 158, 229, 138, 160] @ '' '' @ format_int mb @ '' MB''"

definition text_thrash :: "int \<Rightarrow> float64 \<Rightarrow> int \<Rightarrow> string" where
  "text_thrash mb rate n =
    ''compressor '' @ format_int mb @ '' MB'' @ utf [239, 188, 140, 230, 175, 143, 231, 167, 146, 232, 167, 163, 229, 163, 147] @ '' '' @
    fmt_f0 rate @ '' '' @ utf [233, 160, 129, 239, 188, 140, 229, 183, 178] @ '' '' @ format_int n @ '' '' @ utf [231, 167, 146]"

definition text_resident :: "string \<Rightarrow> int \<Rightarrow> string" where
  "text_resident name mb =
    name @ '' '' @ utf [228, 189, 148] @ '' '' @ format_int mb @ '' MB''"

definition text_mem_left :: "int \<Rightarrow> string" where
  "text_mem_left mb =
    ''MemAvailable '' @ utf [229, 143, 170, 229, 137, 169] @ '' '' @ format_int mb @ '' MB''"

definition text_psi_high :: "float64 \<Rightarrow> int \<Rightarrow> float64 \<Rightarrow> string" where
  "text_psi_high limit n v =
    ''PSI some avg60 '' @ utf [229, 156, 168] @ '' '' @ fmt_f0 limit @ '' '' @ utf [228, 187, 165, 228, 184, 138, 229, 183, 178] @ '' '' @
    format_int n @ '' '' @ utf [229, 136, 134, 233, 144, 152, 239, 188, 136, 231, 143, 190, 229, 156, 168] @ '' '' @ fmt_f1 v @ utf [239, 188, 137]"

definition text_unreachable :: "string \<Rightarrow> int \<Rightarrow> string" where
  "text_unreachable alias n =
    alias @ '' '' @ utf [231, 154, 132] @ '' wwd '' @ utf [229, 183, 178] @ '' '' @ format_int n @ '' '' @
    utf [229, 136, 134, 233, 144, 152, 233, 128, 163, 228, 184, 141, 228, 184, 138]"

definition text_partner :: "int \<Rightarrow> string" where
  "text_partner n =
    utf [233, 128, 153, 229, 143, 176, 231, 154, 132] @ '' Purdex daemon '' @ utf [229, 183, 178] @ '' '' @ format_int n @ '' '' @
    utf [229, 136, 134, 233, 144, 152, 230, 178, 146, 230, 156, 137, 228, 190, 134, 232, 174, 128, 229, 145, 138, 232, 173, 166]"

definition text_loops :: "int \<Rightarrow> float64 \<Rightarrow> int \<Rightarrow> string" where
  "text_loops n worst m =
    ''fork '' @ utf [232, 191, 180, 229, 156, 136] @ '' '' @ format_int n @ '' '' @
    utf [229, 128, 139, 239, 188, 136, 230, 156, 128, 233, 171, 152] @ '' '' @ fmt_f0 worst @ ''/s'' @ utf [239, 188, 140, 229, 183, 178] @ '' '' @
    format_int m @ '' '' @ utf [229, 136, 134, 233, 144, 152, 239, 188, 137]"

definition text_orphans :: "int \<Rightarrow> string \<Rightarrow> string" where
  "text_orphans n kinds =
    ''dev '' @ utf [229, 173, 164, 229, 133, 146] @ '' '' @ format_int n @ '' '' @ utf [229, 128, 139, 239, 188, 136] @ kinds @ utf [239, 188, 137]"

definition text_kind_count :: "string \<Rightarrow> int \<Rightarrow> string" where
  "text_kind_count kind n =
    kind @ '' '' @ format_int n"

definition mark_and :: string where
  "mark_and = utf [227, 128, 129]"

definition mark_semi :: string where
  "mark_semi = utf [239, 188, 155]"

end
