(* ===== verification/Pressure.thy ===== *)
theory Pressure
  imports Facts
begin

text \<open>
  The pressure level of a Linux host (\<open>facts/linux_pressure.go\<close>): what one reading of memory, swap and
  stall time calls for, and the debounce that takes a worse level after ten seconds and a better one
  after thirty. Instants are nanoseconds. The theorems look at every sequence of readings: a level is
  taken only when it was called for all that time, and it is taken when it was.
\<close>

section \<open>The object\<close>

definition psi_warn :: "fact_psi \<Rightarrow> bool" where
  "psi_warn p \<longleftrightarrow> fle (Fin 10) (psi_some10 p) \<or> fle (Fin 1) (psi_full10 p)"

definition psi_danger :: "fact_psi \<Rightarrow> bool" where
  "psi_danger p \<longleftrightarrow> fle (Fin 10) (psi_full10 p) \<or> fle (Fin 25) (psi_some60 p)"

definition second :: int where "second = 1000000000"

definition swap_grow_window :: int where "swap_grow_window = 60 * second"

definition rise_after :: int where "rise_after = 10 * second"

definition fall_after :: int where "fall_after = 30 * second"

record swap_point =
  sp_at :: int
  sp_mb :: int

record linux_pressure =
  lp_level :: int
  lp_pending :: int
  lp_waiting :: bool
  lp_since :: int
  lp_swap :: "swap_point list"

definition new_pressure :: linux_pressure where
  "new_pressure = \<lparr>lp_level = 0, lp_pending = 0, lp_waiting = False, lp_since = 0, lp_swap = []\<rparr>"

record reading =
  rg_now :: int
  rg_total_mb :: int
  rg_avail_mb :: int
  rg_swap_used_mb :: int
  rg_psi :: "fact_psi option"

definition keep_swap :: "reading \<Rightarrow> swap_point list \<Rightarrow> swap_point list" where
  "keep_swap r sw = filter (\<lambda>s. rg_now r - sp_at s \<le> swap_grow_window) sw @ [\<lparr>sp_at = rg_now r, sp_mb = rg_swap_used_mb r\<rparr>]"

text \<open>The factor 0.20 is a constant of type \<open>float64\<close>.\<close>

definition target :: "reading \<Rightarrow> linux_pressure \<Rightarrow> int \<times> linux_pressure" where
  "target r p =
     (let sw = keep_swap r (lp_swap p);
          grew = fold (\<lambda>s g. max g (rg_swap_used_mb r - sp_mb s)) sw 0;
          dang0 = rg_avail_mb r < 1536 \<or> grew > 1024;
          warn0 = flt (of_int64 (rg_avail_mb r)) (fmul (round64 (1 / 5)) (of_int64 (rg_total_mb r))) \<or> rg_swap_used_mb r > 512;
          dang = dang0 \<or> (case rg_psi r of Some q \<Rightarrow> psi_danger q | None \<Rightarrow> False);
          warn = warn0 \<or> (case rg_psi r of Some q \<Rightarrow> psi_warn q | None \<Rightarrow> False)
      in (if dang then 4 else if warn then 2 else if rg_psi r = None then 0 else 1, p\<lparr>lp_swap := sw\<rparr>))"

definition update_pressure :: "reading \<Rightarrow> linux_pressure \<Rightarrow> linux_pressure" where
  "update_pressure r p0 =
     (let (t, p) = target r p0 in
      if t = lp_level p \<or> t = 0 \<or> (lp_level p = 0 \<and> t = 1) then p\<lparr>lp_level := t, lp_waiting := False\<rparr>
      else
        let p1 = (if \<not> lp_waiting p \<or> lp_pending p \<noteq> t then p\<lparr>lp_pending := t, lp_since := rg_now r, lp_waiting := True\<rparr> else p);
            wait = (if t > lp_level p then rise_after else fall_after)
        in if rg_now r - lp_since p1 \<ge> wait then p1\<lparr>lp_level := t, lp_waiting := False\<rparr> else p1)"

section \<open>Sequences of readings\<close>

text \<open>For each reading, when it was taken, what it called for, and the level after it.\<close>

fun levels :: "linux_pressure \<Rightarrow> reading list \<Rightarrow> (int \<times> int \<times> int) list" where
  "levels p [] = []"
| "levels p (r # rs) = (let q = update_pressure r p in (rg_now r, fst (target r p), lp_level q) # levels q rs)"

abbreviation at_of :: "int \<times> int \<times> int \<Rightarrow> int" where "at_of \<equiv> fst"
abbreviation called_of :: "int \<times> int \<times> int \<Rightarrow> int" where "called_of \<equiv> \<lambda>e. fst (snd e)"
abbreviation level_of :: "int \<times> int \<times> int \<Rightarrow> int" where "level_of \<equiv> \<lambda>e. snd (snd e)"

definition wait_for :: "int \<Rightarrow> int \<Rightarrow> int" where
  "wait_for l t = (if t > l then rise_after else fall_after)"

lemma target_swap_only: "target r p = (t, q) \<Longrightarrow> lp_level q = lp_level p \<and> lp_pending q = lp_pending p \<and> lp_waiting q = lp_waiting p \<and> lp_since q = lp_since p"
  by (auto simp: target_def Let_def)

text \<open>The same step, with the swap readings left aside.\<close>

lemma update_cases:
  assumes "fst (target r p) = t"
  obtains "t = lp_level p \<or> t = 0 \<or> (lp_level p = 0 \<and> t = 1)" "lp_level (update_pressure r p) = t" "\<not> lp_waiting (update_pressure r p)"
  | s where "t \<noteq> lp_level p" "t \<noteq> 0" "\<not> (lp_level p = 0 \<and> t = 1)"
      "s = (if lp_waiting p \<and> lp_pending p = t then lp_since p else rg_now r)"
      "rg_now r - s \<ge> wait_for (lp_level p) t" "lp_level (update_pressure r p) = t" "\<not> lp_waiting (update_pressure r p)"
  | s where "t \<noteq> lp_level p" "t \<noteq> 0" "\<not> (lp_level p = 0 \<and> t = 1)"
      "s = (if lp_waiting p \<and> lp_pending p = t then lp_since p else rg_now r)"
      "rg_now r - s < wait_for (lp_level p) t" "lp_level (update_pressure r p) = lp_level p" "lp_waiting (update_pressure r p)"
      "lp_pending (update_pressure r p) = t" "lp_since (update_pressure r p) = s"
proof -
  obtain q where q: "target r p = (t, q)" using assms by (metis prod.collapse)
  note f = target_swap_only [OF q]
  let ?s = "if lp_waiting p \<and> lp_pending p = t then lp_since p else rg_now r"
  consider "t = lp_level p \<or> t = 0 \<or> (lp_level p = 0 \<and> t = 1)"
    | "t \<noteq> lp_level p" "t \<noteq> 0" "\<not> (lp_level p = 0 \<and> t = 1)" "rg_now r - ?s \<ge> wait_for (lp_level p) t"
    | "t \<noteq> lp_level p" "t \<noteq> 0" "\<not> (lp_level p = 0 \<and> t = 1)" "rg_now r - ?s < wait_for (lp_level p) t" by linarith
  then show ?thesis
  proof cases
    case 1
    then show ?thesis using q f that(1) by (auto simp: update_pressure_def)
  next
    case 2
    then have "lp_level (update_pressure r p) = t \<and> \<not> lp_waiting (update_pressure r p)"
      using q f by (auto simp: update_pressure_def Let_def wait_for_def split: if_splits)
    then show ?thesis using that(2) [OF 2(1-3) refl 2(4)] by blast
  next
    case 3
    then have "lp_level (update_pressure r p) = lp_level p \<and> lp_waiting (update_pressure r p) \<and> lp_pending (update_pressure r p) = t
        \<and> lp_since (update_pressure r p) = ?s"
      using q f by (auto simp: update_pressure_def Let_def wait_for_def split: if_splits)
    then show ?thesis using that(3) [OF 3(1-3) refl 3(4)] by blast
  qed
qed

lemma levels_snoc:
  "levels p (rs @ [r]) = levels p rs @ [(rg_now r, fst (target r (fold update_pressure rs p)), lp_level (update_pressure r (fold update_pressure rs p)))]"
  by (induction rs arbitrary: p) (simp_all add: Let_def)

text \<open>A level that waits has been called for since the time it is dated.\<close>

definition waits_since :: "(int \<times> int \<times> int) list \<Rightarrow> linux_pressure \<Rightarrow> bool" where
  "waits_since es p \<longleftrightarrow> (lp_waiting p \<longrightarrow>
     (\<exists>as bs. es = as @ bs \<and> bs \<noteq> [] \<and> at_of (hd bs) = lp_since p \<and> list_all (\<lambda>e. called_of e = lp_pending p) bs))"

lemma waits_run:
  assumes "waits_since es p" and "fst (target r p) = t" and "s = (if lp_waiting p \<and> lp_pending p = t then lp_since p else rg_now r)"
  shows "\<exists>as bs. es @ [(rg_now r, t, l)] = as @ bs \<and> bs \<noteq> [] \<and> at_of (hd bs) = s \<and> list_all (\<lambda>e. called_of e = t) bs"
proof (cases "lp_waiting p \<and> lp_pending p = t")
  case True
  then obtain as bs where "es = as @ bs" "bs \<noteq> []" "at_of (hd bs) = lp_since p" "list_all (\<lambda>e. called_of e = t) bs"
    using assms(1) by (auto simp: waits_since_def)
  then show ?thesis using True assms(3) by (intro exI [of _ as] exI [of _ "bs @ [(rg_now r, t, l)]"]) simp
next
  case False
  then show ?thesis using assms(3) by (intro exI [of _ es] exI [of _ "[(rg_now r, t, l)]"]) auto
qed

lemma waits_step: "waits_since es p \<Longrightarrow> waits_since (es @ [(rg_now r, fst (target r p), l)]) (update_pressure r p)"
  by (rule update_cases [OF refl, of r p]) (use waits_run [OF _ refl refl, of es p r l] in \<open>auto simp: waits_since_def\<close>)

lemma waits_history: "waits_since (levels new_pressure rs) (fold update_pressure rs new_pressure)"
proof (induction rs rule: rev_induct)
  case Nil
  show ?case by (simp add: waits_since_def new_pressure_def)
qed (simp add: levels_snoc waits_step)

text \<open>
  C38: a single spike moves nothing. Whatever the readings were, the level moves to another one (but for
  unknown, which is taken at once, and for calm after unknown) only when every reading called for that
  very level over the last ten seconds, if it is worse, and the last thirty, if it is better.
\<close>

theorem level_needs_its_time:
  assumes "p = fold update_pressure rs new_pressure" and "lp_level (update_pressure r p) = t"
    and "t \<noteq> lp_level p" "t \<noteq> 0" "\<not> (lp_level p = 0 \<and> t = 1)"
  shows "\<exists>as bs. levels new_pressure (rs @ [r]) = as @ bs \<and> bs \<noteq> [] \<and> list_all (\<lambda>e. called_of e = t) bs
    \<and> rg_now r - at_of (hd bs) \<ge> (if t > lp_level p then 10 * second else 30 * second)"
proof (rule update_cases [OF refl, of r p])
  fix s
  assume s: "s = (if lp_waiting p \<and> lp_pending p = fst (target r p) then lp_since p else rg_now r)"
    and w: "wait_for (lp_level p) (fst (target r p)) \<le> rg_now r - s" and l: "lp_level (update_pressure r p) = fst (target r p)"
  obtain as bs where "levels new_pressure rs @ [(rg_now r, t, t)] = as @ bs" "bs \<noteq> []" "at_of (hd bs) = s" "list_all (\<lambda>e. called_of e = t) bs"
    using waits_run [OF waits_history [of rs], of r t s t] s l assms(1,2) by auto
  then show ?thesis
    using w l assms(1,2) by (intro exI [of _ as] exI [of _ bs]) (auto simp: levels_snoc wait_for_def rise_after_def fall_after_def)
qed (use assms in auto)

text \<open>The times a waiting level is dated lie in the past.\<close>

lemma since_step:
  "lp_waiting (update_pressure r p) \<Longrightarrow> lp_since (update_pressure r p) = rg_now r \<or> lp_waiting p \<and> lp_since (update_pressure r p) = lp_since p"
  by (rule update_cases [OF refl, of r p]) auto

lemma since_past:
  "\<forall>q \<in> set rs. rg_now q \<le> now \<Longrightarrow> lp_waiting (fold update_pressure rs new_pressure) \<Longrightarrow> lp_since (fold update_pressure rs new_pressure) \<le> now"
proof (induction rs rule: rev_induct)
  case Nil
  then show ?case by (simp add: new_pressure_def)
next
  case (snoc r rs)
  then show ?case using since_step [of r "fold update_pressure rs new_pressure"] by auto
qed

text \<open>A level called for from the first of the readings \<open>bs\<close> on is taken or dated no later than that.\<close>

lemma called_for:
  assumes "list_all (\<lambda>e. called_of e = t) (levels p (r # rs))" and "lp_waiting p \<Longrightarrow> lp_since p \<le> rg_now r"
  shows "lp_level (fold update_pressure (r # rs) p) = t
    \<or> lp_waiting (fold update_pressure (r # rs) p) \<and> lp_pending (fold update_pressure (r # rs) p) = t \<and> lp_since (fold update_pressure (r # rs) p) \<le> rg_now r"
  using assms(1)
proof (induction rs rule: rev_induct)
  case Nil
  then have t: "fst (target r p) = t" by (simp add: Let_def)
  show ?case by (rule update_cases [OF t]) (use assms(2) in auto)
next
  case (snoc q rs)
  let ?p = "fold update_pressure (r # rs) p"
  have t: "fst (target q ?p) = t" and ih: "list_all (\<lambda>e. called_of e = t) (levels p (r # rs))"
    using snoc.prems levels_snoc [of p "r # rs" q] by auto
  show ?case by (rule update_cases [OF t]) (use snoc.IH [OF ih] in auto)
qed

text \<open>
  C39: what is called for is taken. When every reading of at least thirty seconds called for one level,
  that is the host's level at the end of them, whatever came before.
\<close>

theorem held_long_enough_is_taken:
  assumes "levels new_pressure (rs @ r # qs) = as @ bs" "length as = length rs"
    and "list_all (\<lambda>e. called_of e = t) bs" and "\<forall>q \<in> set rs. rg_now q \<le> rg_now r" and "rg_now (last (r # qs)) - rg_now r \<ge> 30 * second"
  shows "lp_level (fold update_pressure (rs @ r # qs) new_pressure) = t"
proof -
  let ?p = "fold update_pressure rs new_pressure"
  have "levels p (xs @ ys) = levels p xs @ levels (fold update_pressure xs p) ys" "length (levels p xs) = length xs" for p xs ys
    by (induction xs arbitrary: p) (simp_all add: Let_def)
  then have bs: "bs = levels ?p (r # qs)" using assms(1,2) by (metis append_eq_append_conv)
  have "qs \<noteq> []" using assms(5) by (auto simp: second_def)
  then obtain ys q where qs: "qs = ys @ [q]" by (metis rev_exhaust)
  let ?q = "fold update_pressure (r # ys) ?p"
  have t: "fst (target q ?q) = t" and ih: "list_all (\<lambda>e. called_of e = t) (levels ?p (r # ys))"
    using assms(3) bs qs levels_snoc [of ?p "r # ys" q] by auto
  have w: "wait_for (lp_level ?q) t \<le> 30 * second" and g: "30 * second \<le> rg_now q - rg_now r"
    using assms(5) qs by (auto simp: wait_for_def rise_after_def fall_after_def second_def)
  have c: "lp_level ?q = t \<or> lp_waiting ?q \<and> lp_pending ?q = t \<and> lp_since ?q \<le> rg_now r"
    using called_for [OF ih] since_past [of rs "rg_now r"] assms(4) by blast
  have "lp_level (update_pressure q ?q) = t" by (rule update_cases [OF t]) (use w g c in auto)
  then show ?thesis using qs by simp
qed

section \<open>An example\<close>

text \<open>A calm reading, then ten seconds of high stall times, seen every five seconds; and half a minute of them.\<close>

definition sample_psi :: "int \<Rightarrow> int \<Rightarrow> reading" where
  "sample_psi s v = \<lparr>rg_now = s * second, rg_total_mb = 0, rg_avail_mb = 8000, rg_swap_used_mb = 0,
     rg_psi = Some \<lparr>psi_some10 = Fin (of_int v), psi_full10 = Fin 0, psi_some60 = Fin 0\<rparr>\<rparr>"

lemma sample_now [simp]: "rg_now (sample_psi s v) = s * second"
  by (simp add: sample_psi_def)

definition swap_zero :: "int list \<Rightarrow> swap_point list" where
  "swap_zero ts = map (\<lambda>s. \<lparr>sp_at = s * second, sp_mb = 0\<rparr>) ts"

lemma sample_grew: "fold (\<lambda>s g. max g (- sp_mb s)) (swap_zero ts) 0 = 0"
  by (induction ts) (simp_all add: swap_zero_def)

lemma sample_zero: "\<not> flt (Fin 8000) (fmul c (Fin 0))"
  by (cases c) (auto simp: fmul_def inf_times_def round64_def)

lemma sample_target:
  assumes "lp_swap p = swap_zero ts" "\<forall>u \<in> set ts. s - u \<le> 60"
  shows "target (sample_psi s v) p = (if 10 \<le> v then 2 else 1, p\<lparr>lp_swap := swap_zero (ts @ [s])\<rparr>)"
proof -
  have "s * second - u * second \<le> swap_grow_window" if "u \<in> set ts" for u
    using assms(2) that by (auto simp: swap_grow_window_def second_def dest!: bspec)
  then have "keep_swap (sample_psi s v) (lp_swap p) = swap_zero (ts @ [s])"
    using assms(1) by (auto simp: keep_swap_def sample_psi_def swap_zero_def intro!: filter_True)
  moreover have "(10 :: rat) \<le> of_int v \<longleftrightarrow> 10 \<le> v" by linarith
  ultimately show ?thesis
    using sample_grew [of "ts @ [s]"] sample_zero
    by (simp add: target_def Let_def) (simp add: sample_psi_def psi_warn_def psi_danger_def)
qed

lemma sample_calm: "fold update_pressure [sample_psi 0 1, sample_psi 5 20, sample_psi 10 20] new_pressure
    = \<lparr>lp_level = 1, lp_pending = 2, lp_waiting = True, lp_since = 5 * second, lp_swap = swap_zero [0, 5, 10]\<rparr>"
  by (simp add: update_pressure_def new_pressure_def swap_zero_def [of "[]"] rise_after_def fall_after_def second_def
      sample_target [of _ "[]"] sample_target [of _ "[0]"] sample_target [of _ "[0, 5]"])

theorem level_needs_its_time_witness:
  "\<exists>as bs. levels new_pressure ([sample_psi 0 1, sample_psi 5 20, sample_psi 10 20] @ [sample_psi 15 20]) = as @ bs \<and> bs \<noteq> []
     \<and> list_all (\<lambda>e. called_of e = 2) bs \<and> rg_now (sample_psi 15 20) - at_of (hd bs) \<ge> 10 * second"
proof -
  let ?p = "fold update_pressure [sample_psi 0 1, sample_psi 5 20, sample_psi 10 20] new_pressure"
  have "lp_level (update_pressure (sample_psi 15 20) ?p) = 2" unfolding sample_calm
    by (simp add: update_pressure_def sample_target [of _ "[0, 5, 10]"] rise_after_def second_def)
  moreover have "lp_level ?p = 1" unfolding sample_calm by simp
  ultimately show ?thesis using level_needs_its_time [OF refl, of "sample_psi 15 20" "[sample_psi 0 1, sample_psi 5 20, sample_psi 10 20]" 2] by simp
qed

theorem held_long_enough_is_taken_witness:
  "lp_level (fold update_pressure ([sample_psi 0 1] @ sample_psi 5 20 # [sample_psi 20 20, sample_psi 35 20]) new_pressure) = 2"
proof (rule held_long_enough_is_taken)
  show "levels new_pressure ([sample_psi 0 1] @ sample_psi 5 20 # [sample_psi 20 20, sample_psi 35 20])
      = [(0, 1, 1)] @ [(5 * second, 2, 1), (20 * second, 2, 2), (35 * second, 2, 2)]"
    by (simp add: update_pressure_def new_pressure_def swap_zero_def [of "[]"] rise_after_def fall_after_def second_def
        sample_target [of _ "[]"] sample_target [of _ "[0]"] sample_target [of _ "[0, 5]"] sample_target [of _ "[0, 5, 20]"])
qed (simp_all add: second_def)

end
