(* ===== verification/Advisor.thy ===== *)
theory Advisor
  imports Pick Labels Reads Alert AlertText Pressure
begin

text \<open>
  The alert rules (\<open>internal/wwd/advisor/rules*.go\<close>): each rule as a function of what the daemon knows at one
  moment and of whether its alert is raised now. Instants and spans are milliseconds. An error (the left side)
  means that the rule could not be judged, and leaves the alert as it was.
\<close>

section \<open>What a rule judges on\<close>

record peer_down =
  pd_alias :: string
  pd_since :: "int option" \<comment> \<open>\<open>None\<close>: it answers now\<close>
  pd_liveness :: liveness

record orphan_proc =
  op_pid :: int
  op_name :: string
  op_kind :: string
  op_age :: int

record fork_loop =
  lo_pid :: int
  lo_name :: string
  lo_rate :: float64
  lo_since :: int

record orphan_report =
  or_at :: int
  or_procs :: "orphan_proc list"
  or_loops :: "fork_loop list"

text \<open>
  The histories are the records themselves, oldest first; \<open>Minutes\<close> and \<open>Recent\<close> hand out those at or after
  a time. \<open>None\<close> is a source that is not available. \<open>ai_orphans = Some None\<close>: the scan has not run yet.
\<close>

record advisor_input =
  ai_now :: int
  ai_facts :: facts
  ai_minutes :: "facts list option"
  ai_recent :: "facts list option"
  ai_orphans :: "orphan_report option option"
  ai_peers :: "peer_down list option"
  ai_partner_seen :: "int option"
  ai_unclean_starts :: "(int \<Rightarrow> string + int) option"
  ai_queue :: "(string + queued_job list) option"
  ai_pool :: "peer list option"
  ai_work_root :: string
  ai_raised :: "(string \<Rightarrow> bool) option"

definition since_time :: "int \<Rightarrow> facts list \<Rightarrow> facts list" where
  "since_time t fs = filter (\<lambda>f. \<not> fa_at f < t) fs"

record rule_verdict =
  rv_holds :: bool
  rv_key :: string
  rv_level :: alert_level
  rv_detail :: string

type_synonym judged = "string + rule_verdict"

definition calm :: "string \<Rightarrow> alert_level \<Rightarrow> judged" where
  "calm key level = Inr \<lparr>rv_holds = False, rv_key = key, rv_level = level, rv_detail = ''''\<rparr>"

definition alarm :: "string \<Rightarrow> alert_level \<Rightarrow> string \<Rightarrow> judged" where
  "alarm key level detail = Inr \<lparr>rv_holds = True, rv_key = key, rv_level = level, rv_detail = detail\<rparr>"

definition minute :: int where "minute = 60000"

section \<open>Disks\<close>

definition volume :: "advisor_input \<Rightarrow> string + fact_disk" where
  "volume i = (case work_volume (fa_disk (ai_facts i)) (ai_work_root i) of
     Some d \<Rightarrow> Inr d | None \<Rightarrow> Inl ''no disk in the facts holds the work root'')"

definition disk_low_rule :: "bool \<Rightarrow> advisor_input \<Rightarrow> judged" where
  "disk_low_rule raised i = bind_err (volume i) (\<lambda>d.
     let limit = (if raised then fadd (Fin 12) (Fin (1 / 2)) else Fin 12) in
     if flt (dk_free_gb d) limit then alarm ''disk_low'' AlertPush (text_disk_left (dk_mount d) (dk_free_gb d))
     else calm ''disk_low'' AlertPush)"

definition free_of :: "facts \<Rightarrow> string \<Rightarrow> float64 option" where
  "free_of f mount = map_option dk_free_gb (List.find (\<lambda>d. dk_mount d = mount) (fa_disk f))"

text \<open>\<open>Duration.Hours\<close> of a span that is not negative.\<close>

definition hours :: "int \<Rightarrow> float64" where
  "hours ms = fadd (of_int64 (ms div 3600000)) (fdiv (of_int64 (ms mod 3600000 * 1000000)) (of_int64 3600000000000))"

text \<open>The records the slope stands on, with the free space: only the past, in order, and with the volume in them.\<close>

fun slope_records :: "int \<Rightarrow> string \<Rightarrow> int option \<Rightarrow> facts list \<Rightarrow> (int \<times> float64) list" where
  "slope_records now mount seen [] = []"
| "slope_records now mount seen (f # fs) =
     (if fa_at f > now \<or> (case seen of Some l \<Rightarrow> \<not> fa_at f > l | None \<Rightarrow> False) then slope_records now mount seen fs
      else case free_of f mount of
        None \<Rightarrow> slope_records now mount seen fs
      | Some free \<Rightarrow> (fa_at f, free) # slope_records now mount (Some (fa_at f)) fs)"

text \<open>\<open>s += a * b\<close>, which the compiler may fuse into one rounding.\<close>

definition add_mul :: "bool \<Rightarrow> float64 \<Rightarrow> float64 \<Rightarrow> float64 \<Rightarrow> float64" where
  "add_mul fused s a b =
     (case (s, a, b) of (Fin x, Fin y, Fin z) \<Rightarrow> (if fused then round64 (x + y * z) else fadd s (fmul a b))
      | _ \<Rightarrow> fadd s (fmul a b))"

definition slope :: "bool \<Rightarrow> (float64 \<times> float64) list \<Rightarrow> float64 option" where
  "slope fused pts =
     (let n = of_int64 (int (length pts));
          mx = fdiv (fold (\<lambda>p s. fadd s (fst p)) pts (Fin 0)) n;
          my = fdiv (fold (\<lambda>p s. fadd s (snd p)) pts (Fin 0)) n;
          sxy = fold (\<lambda>p s. add_mul fused s (fsub (fst p) mx) (fsub (snd p) my)) pts (Fin 0);
          sxx = fold (\<lambda>p s. add_mul fused s (fsub (fst p) mx) (fsub (fst p) mx)) pts (Fin 0)
      in if feq sxx (Fin 0) then None else Some (fdiv (fneg sxy) sxx))"

definition fall_rate :: "bool \<Rightarrow> advisor_input \<Rightarrow> string \<Rightarrow> float64 option" where
  "fall_rate fused i mount =
     (case ai_minutes i of
        None \<Rightarrow> None
      | Some ms \<Rightarrow>
          (case slope_records (ai_now i) mount None (since_time (ai_now i - 180 * minute) ms) of
             [] \<Rightarrow> None
           | r # rs \<Rightarrow>
               if fst (last (r # rs)) - fst r < 90 * minute \<or> length (r # rs) < 60 then None
               else slope fused (map (\<lambda>(t, free). (hours (t - fst r), free)) (r # rs))))"

definition disk_falling_rule :: "bool \<Rightarrow> bool \<Rightarrow> advisor_input \<Rightarrow> judged" where
  "disk_falling_rule fused raised i = bind_err (volume i) (\<lambda>d.
     if flt (dk_free_gb d) (Fin 14) then alarm ''disk_falling'' AlertDigest (text_disk_left (dk_mount d) (dk_free_gb d))
     else case fall_rate fused i (dk_mount d) of
       None \<Rightarrow> calm ''disk_falling'' AlertDigest
     | Some rate \<Rightarrow>
         let (min_rate, floor) = (if raised then (Fin (3 / 2), Fin 12) else (Fin 2, Fin 10)) in
         if fle min_rate rate \<and> flt (sub_mul fused (dk_free_gb d) rate (Fin 6)) floor
         then alarm ''disk_falling'' AlertDigest (text_disk_falls (dk_mount d) (dk_free_gb d) rate)
         else calm ''disk_falling'' AlertDigest)"

section \<open>Crashes\<close>

definition crash_loop_rule :: "advisor_input \<Rightarrow> judged" where
  "crash_loop_rule i =
     (case ai_unclean_starts i of
        None \<Rightarrow> Inl ''the start log is not available''
      | Some starts \<Rightarrow> bind_err (starts (ai_now i - 60 * minute)) (\<lambda>n.
          if n \<ge> 3 then alarm ''worker_crash_loop'' AlertPush (text_crash n) else calm ''worker_crash_loop'' AlertPush))"

section \<open>The queue\<close>

definition queue_input :: "advisor_input \<Rightarrow> string + (queued_job list \<times> peer list)" where
  "queue_input i =
     (case (ai_queue i, ai_pool i) of
        (Some q, Some pool) \<Rightarrow> bind_err q (\<lambda>jobs. Inr (jobs, pool))
      | _ \<Rightarrow> Inl ''the queue or the pool is not available'')"

definition can_take :: "peer \<Rightarrow> string list \<Rightarrow> bool" where
  "can_take p need \<longleftrightarrow> pe_reachable p \<and> iw_enabled (in_worker (pe_info p))
     \<and> eligible need (in_labels (pe_info p)) (iw_explicit_labels_only (in_worker (pe_info p)))"

definition has_room :: "peer \<Rightarrow> queued_job \<Rightarrow> bool" where
  "has_room p j = (case pe_facts p of None \<Rightarrow> False | Some f \<Rightarrow> heavy_room_for f (v_class j) (v_repo j))"

definition waited_for :: "int \<Rightarrow> int \<Rightarrow> int" where
  "waited_for now since = (if now - since > 0 then now - since else 0)"

definition named_jobs :: "string list \<Rightarrow> string" where
  "named_jobs ids = (if length ids \<le> 3 then join mark_and ids else text_and_more (join mark_and (take 3 ids)) (int (length ids)))"

definition backlog_rule :: "advisor_input \<Rightarrow> judged" where
  "backlog_rule i = bind_err (queue_input i) (\<lambda>(jobs, _).
     case List.find (\<lambda>j. \<not> v_held j) jobs of
       None \<Rightarrow> calm ''queue_backlog'' AlertWatch
     | Some j \<Rightarrow> let w = waited_for (ai_now i) (v_created_at j) in
         if w \<ge> 20 * minute then alarm ''queue_backlog'' AlertWatch (text_backlog (v_id j) (w div minute))
         else calm ''queue_backlog'' AlertWatch)"

definition requeued_rule :: "advisor_input \<Rightarrow> judged" where
  "requeued_rule i = bind_err (queue_input i) (\<lambda>(jobs, _).
     let ids = map (\<lambda>j. text_times (v_id j) (v_attempts j)) (filter (\<lambda>j. v_attempts j \<ge> 3) jobs) in
     if ids \<noteq> [] then alarm ''job_requeued'' AlertWatch (text_requeued (named_jobs ids)) else calm ''job_requeued'' AlertWatch)"

definition untaken_since :: "queued_job \<Rightarrow> int" where
  "untaken_since j = (if v_attempts j > 0 \<and> v_touched j > v_created_at j then v_touched j else v_created_at j)"

text \<open>The host a stalled job is told with: the first of the pool that could take it and has room.\<close>

definition stalled_on :: "int \<Rightarrow> peer list \<Rightarrow> queued_job \<Rightarrow> string option" where
  "stalled_on now pool j =
     (if v_held j \<or> waited_for now (untaken_since j) < 5 * minute then None
      else map_option (\<lambda>p. in_alias (pe_info p)) (List.find (\<lambda>p. can_take p (v_labels j) \<and> has_room p j) pool))"

text \<open>The jobs by host, the hosts in the order they were first named.\<close>

fun put_host :: "string \<Rightarrow> string \<Rightarrow> (string \<times> string list) list \<Rightarrow> (string \<times> string list) list" where
  "put_host h j [] = [(h, [j])]"
| "put_host h j ((k, js) # hs) = (if h = k then (k, js @ [j]) # hs else (k, js) # put_host h j hs)"

definition stalled_hosts :: "int \<Rightarrow> peer list \<Rightarrow> queued_job list \<Rightarrow> (string \<times> string list) list" where
  "stalled_hosts now pool jobs =
     fold (\<lambda>j hs. case stalled_on now pool j of None \<Rightarrow> hs | Some h \<Rightarrow> put_host h (v_id j) hs) jobs []"

definition stalled_rule :: "advisor_input \<Rightarrow> judged" where
  "stalled_rule i = bind_err (queue_input i) (\<lambda>(jobs, pool).
     case stalled_hosts (ai_now i) pool jobs of
       [] \<Rightarrow> calm ''queue_stalled'' AlertWatch
     | [(h, js)] \<Rightarrow> alarm ''queue_stalled'' AlertWatch (text_stalled_one h (named_jobs js) 5)
     | hs \<Rightarrow> alarm ''queue_stalled'' AlertWatch
         (text_stalled_more (join mark_semi (map (\<lambda>(h, js). text_stalled_part h (named_jobs js)) hs)) 5))"

text \<open>
  \<open>QueueUnclaimable\<close> remembers, for each job, when the current run of looks that found no host for it began.
\<close>

type_synonym look_memory = "(string \<times> int) list"

definition unclaimed_since :: "int \<Rightarrow> look_memory \<Rightarrow> queued_job \<Rightarrow> int" where
  "unclaimed_since now mem j =
     (let s = (case map_of mem (v_id j) of Some s \<Rightarrow> s | None \<Rightarrow> now) in if v_touched j > s then v_touched j else s)"

definition nobody_takes :: "peer list \<Rightarrow> queued_job \<Rightarrow> bool" where
  "nobody_takes pool j \<longleftrightarrow> \<not> v_held j \<and> \<not> list_ex (\<lambda>p. can_take p (v_labels j)) pool"

definition unclaimable_ids :: "int \<Rightarrow> look_memory \<Rightarrow> peer list \<Rightarrow> queued_job list \<Rightarrow> string list" where
  "unclaimable_ids now mem pool jobs = map v_id (filter (\<lambda>j. nobody_takes pool j
     \<and> waited_for now (v_created_at j) \<ge> 10 * minute \<and> waited_for now (unclaimed_since now mem j) \<ge> 10 * minute) jobs)"

definition unclaimable_rule :: "advisor_input \<Rightarrow> look_memory \<Rightarrow> judged \<times> look_memory" where
  "unclaimable_rule i mem =
     (case queue_input i of
        Inl e \<Rightarrow> (Inl e, [])
      | Inr (jobs, pool) \<Rightarrow>
          (let ids = unclaimable_ids (ai_now i) mem pool jobs in
           (if ids \<noteq> [] then alarm ''queue_unclaimable'' AlertWatch (text_unclaimable (named_jobs ids)) else calm ''queue_unclaimable'' AlertWatch,
            rev (map (\<lambda>j. (v_id j, unclaimed_since (ai_now i) mem j)) (filter (nobody_takes pool) jobs)))))"

section \<open>Memory pressure at every sample\<close>

text \<open>Whether the sample was read, shows pressure, and shows danger.\<close>

definition pressure_state :: "facts \<Rightarrow> bool \<times> bool \<times> bool" where
  "pressure_state f =
     (let m = fa_mem f in
      if mem_total_mb m \<le> 0 then (False, False, False)
      else if fa_platform f = ''linux'' then
        (case mem_psi m of None \<Rightarrow> (False, False, False) | Some p \<Rightarrow> (True, psi_warn p, psi_danger p))
      else if mem_pressure m \<le> 0 then (False, False, False)
      else (True, mem_pressure m \<ge> 2, mem_pressure m \<ge> 4))"

definition was_read :: "facts \<Rightarrow> bool" where "was_read f = fst (pressure_state f)"
definition shows_pressure :: "facts \<Rightarrow> bool" where "shows_pressure f = fst (snd (pressure_state f))"
definition shows_danger :: "facts \<Rightarrow> bool" where "shows_danger f = snd (snd (pressure_state f))"

definition watch_max_gap :: int where "watch_max_gap = 2 * sample_interval_s * 1000"

fun no_gap :: "facts list \<Rightarrow> bool" where
  "no_gap (a # b # fs) = (fa_at b - fa_at a \<le> watch_max_gap \<and> no_gap (b # fs))"
| "no_gap _ = True"

definition pressure_since :: "facts list \<Rightarrow> int \<Rightarrow> bool" where
  "pressure_since recs from = list_ex (\<lambda>f. shows_pressure f \<and> \<not> fa_at f < from) recs"

definition minute_of_pressure :: "facts list \<Rightarrow> int \<Rightarrow> bool" where
  "minute_of_pressure recs now =
     (let win = since_time (now - minute) recs in
      \<not> (length win < 12 \<or> now - fa_at (last win) > watch_max_gap \<or> fa_at (last win) - fa_at (hd win) < minute - sample_interval_s * 1000)
      \<and> list_all shows_pressure win \<and> no_gap win)"

definition calm_over :: "facts list \<Rightarrow> int \<Rightarrow> int \<Rightarrow> (facts \<Rightarrow> bool) \<Rightarrow> bool" where
  "calm_over recs from now still =
     (let win = since_time from recs in
      \<not> (win = [] \<or> fa_at (hd win) - from > watch_max_gap \<or> now - fa_at (last win) > watch_max_gap)
      \<and> list_all (\<lambda>f. was_read f \<and> \<not> still f) win \<and> no_gap win)"

fun entries_into :: "facts list \<Rightarrow> int" where
  "entries_into (a # b # fs) =
     (if was_read a \<and> was_read b \<and> \<not> shows_pressure a \<and> shows_pressure b \<and> fa_at b - fa_at a \<le> watch_max_gap then 1 else 0) + entries_into (b # fs)"
| "entries_into _ = 0"

definition pressure_watch_rule :: "bool \<Rightarrow> advisor_input \<Rightarrow> judged" where
  "pressure_watch_rule raised i =
     (case ai_recent i of
        None \<Rightarrow> Inl ''pressure watch needs the 5 s samples''
      | Some rs \<Rightarrow>
          (let recs = since_time (ai_now i - 30 * minute) rs; from = ai_now i - 10 * minute in
           if raised then
             if pressure_since recs from then alarm ''pressure_watch'' AlertWatch text_watch_still
             else if \<not> calm_over recs from (ai_now i) shows_pressure then Inl ''the last 10 minutes were not read in full''
             else calm ''pressure_watch'' AlertWatch
           else if minute_of_pressure recs (ai_now i) then alarm ''pressure_watch'' AlertWatch (text_watch_span 60)
           else if entries_into recs \<ge> 2 \<and> pressure_since recs from
             then alarm ''pressure_watch'' AlertWatch (text_watch_entries (entries_into recs))
           else calm ''pressure_watch'' AlertWatch))"

definition danger_detail :: "facts \<Rightarrow> string" where
  "danger_detail f =
     (case mem_psi (fa_mem f) of
        Some p \<Rightarrow> (if fa_platform f = ''linux'' then text_danger_psi (psi_full10 p) (psi_some60 p) else text_danger_level (mem_pressure (fa_mem f)))
      | None \<Rightarrow> text_danger_level (mem_pressure (fa_mem f)))"

definition pressure_danger_rule :: "bool \<Rightarrow> advisor_input \<Rightarrow> judged" where
  "pressure_danger_rule raised i =
     (case ai_recent i of
        None \<Rightarrow> Inl ''pressure danger needs the 5 s samples''
      | Some rs \<Rightarrow>
          (let from = ai_now i - (if raised then 2 * minute else 30000); recs = since_time from rs in
           case filter shows_danger recs of
             [] \<Rightarrow> (if raised \<and> \<not> calm_over recs from (ai_now i) shows_danger then Inl ''the last 2 minutes were not read in full''
                    else calm ''pressure_danger'' AlertPush)
           | fs \<Rightarrow> alarm ''pressure_danger'' AlertPush (danger_detail (last fs))))"

section \<open>Memory over minutes\<close>

definition minute_full :: "facts \<Rightarrow> bool" where
  "minute_full f = (case fa_stats f of None \<Rightarrow> False | Some s \<Rightarrow> ms_sampled_s s \<ge> 55)"

definition zone_high :: "zone \<Rightarrow> bool" where
  "zone_high z \<longleftrightarrow> z = ZoneWarning \<or> z = ZoneDanger"

definition minute_high :: "facts \<Rightarrow> bool" where
  "minute_high f =
     (case fa_stats f of
        Some s \<Rightarrow> (if ms_sampled_s s > 0 then ms_normal_s s = 0 \<and> ms_warning_s s + ms_danger_s s > 0 else zone_high (dv_zone (fa_derived f)))
      | None \<Rightarrow> zone_high (dv_zone (fa_derived f)))"

definition swap_threshold_mb :: "int \<Rightarrow> int \<Rightarrow> int" where
  "swap_threshold_mb ram override =
     (if override > 0 then override else if ram \<le> 16384 then 500 else go_div (ram * 500) 16384)"

text \<open>The whole minutes up to now with a swap reading.\<close>

definition swap_minutes :: "int \<Rightarrow> facts list \<Rightarrow> (facts \<times> int) list" where
  "swap_minutes now recs = List.map_filter (\<lambda>f. if fa_at f > now \<or> \<not> minute_full f then None
     else map_option (\<lambda>mb. (f, mb)) (mem_swap_used_mb (fa_mem f))) recs"

definition swap_growth_rule :: "int \<Rightarrow> bool \<Rightarrow> advisor_input \<Rightarrow> judged" where
  "swap_growth_rule threshold raised i =
     (case ai_minutes i of
        None \<Rightarrow> Inl ''swap growth needs the minute history''
      | Some ms \<Rightarrow>
          (let now = ai_now i; ws = swap_minutes now (since_time (now - 30 * minute - 30000) ms) in
           if ws = [] \<or> now - fa_at (fst (last ws)) > 90000 \<or> fa_at (fst (last ws)) - fa_at (fst (hd ws)) < 28 * minute then
             (if raised then Inl ''the minute history does not cover the last 30 minutes of swap'' else calm ''swap_growth'' AlertWatch)
           else
             let ram0 = mem_total_mb (fa_mem (fst (last ws)));
                 ram = (if ram0 \<le> 0 then mem_total_mb (fa_mem (ai_facts i)) else ram0);
                 limit = swap_threshold_mb ram threshold;
                 grew = snd (last ws) - snd (hd ws)
             in if (\<not> raised \<and> grew \<ge> limit) \<or> (raised \<and> 2 * grew \<ge> limit)
                then alarm ''swap_growth'' AlertWatch (text_swap_grew grew limit) else calm ''swap_growth'' AlertWatch))"

text \<open>From the newest record back to the newest whole minute.\<close>

fun stands_from :: "bool \<Rightarrow> facts \<Rightarrow> int \<Rightarrow> facts list \<Rightarrow> bool" where
  "stands_from is_newest newest now [] = False"
| "stands_from is_newest newest now (f # fs) =
     (if \<not> minute_full f then stands_from False newest now fs
      else if now - fa_at f > 150000 \<or> \<not> minute_high f then False
      else is_newest \<or> (case fa_stats newest of None \<Rightarrow> True | Some s \<Rightarrow> ms_normal_s s = 0))"

definition pressure_stands :: "facts list \<Rightarrow> int \<Rightarrow> bool" where
  "pressure_stands recs now = (recs \<noteq> [] \<and> stands_from True (last recs) now (rev recs))"

fun minutes_apart :: "facts list \<Rightarrow> bool" where
  "minutes_apart (a # b # fs) = (fa_at b - fa_at a = minute \<and> minutes_apart (b # fs))"
| "minutes_apart _ = True"

text \<open>The growth of the swap over five whole minutes of pressure, if they were that.\<close>

definition five_high :: "facts list \<Rightarrow> int option" where
  "five_high recs0 =
     (let recs = (if minute_full (last recs0) then recs0 else butlast recs0) in
      if length recs < 6 then None
      else let win = drop (length recs - 5) recs; base = recs ! (length recs - 6) in
        if list_all (\<lambda>f. minute_full f \<and> minute_high f) win \<and> minutes_apart (base # win) then
          (case (mem_swap_used_mb (fa_mem base), mem_swap_used_mb (fa_mem (last win))) of
             (Some a, Some b) \<Rightarrow> (if b - a < 1024 then None else Some (b - a)) | _ \<Rightarrow> None)
        else None)"

definition pressure_held_rule :: "bool \<Rightarrow> advisor_input \<Rightarrow> judged" where
  "pressure_held_rule raised i =
     (case ai_minutes i of
        None \<Rightarrow> Inl ''no minute history is available''
      | Some ms \<Rightarrow>
          (let recs = since_time (ai_now i - 8 * minute) ms in
           if recs = [] \<or> ai_now i - fa_at (last recs) > 90000 then calm ''pressure_held'' AlertPush
           else if raised \<and> pressure_stands recs (ai_now i) then alarm ''pressure_held'' AlertPush text_held_still
           else case five_high recs of
             None \<Rightarrow> calm ''pressure_held'' AlertPush
           | Some mb \<Rightarrow> alarm ''pressure_held'' AlertPush (text_held 5 mb)))"

definition thrashing :: "fact_mem \<Rightarrow> bool" where
  "thrashing m = (case (mem_compressor_mb m, mem_decompress_rate m) of (Some c, Some r) \<Rightarrow> c > 4096 \<and> flt (Fin 80000) r | _ \<Rightarrow> False)"

text \<open>The loop over the samples: an error, or whether every sample thrashes with no hole between them.\<close>

fun thrash_loop :: "string \<Rightarrow> int option \<Rightarrow> facts list \<Rightarrow> string + bool" where
  "thrash_loop platform prev [] = Inr True"
| "thrash_loop platform prev (f # fs) =
     (if platform = ''darwin'' \<and> mem_decompress_rate (fa_mem f) = None then Inl ''decompress_rate is not recorded''
      else if \<not> thrashing (fa_mem f) \<or> (case prev of Some p \<Rightarrow> fa_at f - p > watch_max_gap | None \<Rightarrow> False) then Inr False
      else thrash_loop platform (Some (fa_at f)) fs)"

definition thrash_rule :: "advisor_input \<Rightarrow> judged" where
  "thrash_rule i =
     (case ai_recent i of
        None \<Rightarrow> Inl ''thrash needs the 5 s samples''
      | Some rs \<Rightarrow>
          (let recs = since_time (ai_now i - 60000) rs in
           if recs = [] \<or> fa_at (last recs) - fa_at (hd recs) < 55000 then calm ''thrash'' AlertDigest
           else bind_err (thrash_loop (fa_platform (ai_facts i)) None recs) (\<lambda>all_high.
             let m = fa_mem (last recs) in
             if all_high then alarm ''thrash'' AlertDigest (text_thrash (the (mem_compressor_mb m)) (the (mem_decompress_rate m)) 60)
             else calm ''thrash'' AlertDigest)))"

definition simulator_proc :: "string \<Rightarrow> bool" where
  "simulator_proc name \<longleftrightarrow> has_prefix ''SimLaunchHost'' name \<or> name = ''launchd_sim'' \<or> name = ''Simulator'' \<or> str_contains ''CoreSimulator'' name"

definition suppressed :: "advisor_input \<Rightarrow> bool" where
  "suppressed i =
     (let m = fa_mem (ai_facts i) in
      case (mem_swap_used_mb m, ai_minutes i) of
        (Some used, Some ms) \<Rightarrow>
          \<not> (mem_total_mb m \<le> 0 \<or> mem_available_mb m * 2 < mem_total_mb m) \<and>
          (case List.find (\<lambda>f. mem_swap_used_mb (fa_mem f) \<noteq> None) (since_time (ai_now i - 10 * minute) ms) of
             None \<Rightarrow> False
           | Some f \<Rightarrow> \<not> fa_at f > ai_now i - 10 * minute + 90000 \<and> used \<le> the (mem_swap_used_mb (fa_mem f)))
      | _ \<Rightarrow> False)"

definition big_procs :: "facts \<Rightarrow> fact_proc list" where
  "big_procs f =
     (let limit = max 4096 (go_div (mem_total_mb (fa_mem f)) 4) in
      stable_sort (\<lambda>a b. pc_mem_mb b < pc_mem_mb a)
        (filter (\<lambda>p. (case pc_owner p of None \<Rightarrow> False | Some w \<Rightarrow> po_kind w = OwnerSystem \<or> po_kind w = OwnerResident)
           \<and> \<not> simulator_proc (pc_name p) \<and> \<not> pc_mem_mb p < limit) (fa_procs f)))"

definition resident_growth_rule :: "string list \<Rightarrow> advisor_input \<Rightarrow> judged" where
  "resident_growth_rule known i =
     (case List.find (\<lambda>p. \<not> (pc_name p \<in> set known \<and> suppressed i)) (big_procs (ai_facts i)) of
        None \<Rightarrow> calm ''resident_growth'' AlertDigest
      | Some p \<Rightarrow> alarm ''resident_growth'' AlertDigest (text_resident (pc_name p) (pc_mem_mb p)))"

section \<open>The server's services\<close>

definition suspends_psi :: "fact_exc list \<Rightarrow> bool" where
  "suspends_psi excs = list_ex (\<lambda>e. HoldFlagExpectPressure \<in> set (ex_flags e)) excs"

definition psi_at_least :: "float64 \<Rightarrow> facts \<Rightarrow> bool" where
  "psi_at_least limit f = (case mem_psi (fa_mem f) of None \<Rightarrow> False | Some p \<Rightarrow> \<not> flt (psi_some60 p) limit)"

definition two_high :: "facts list \<Rightarrow> bool" where
  "two_high recs0 =
     (let recs = (if recs0 \<noteq> [] \<and> \<not> minute_full (last recs0) then butlast recs0 else recs0);
          win = drop (length recs - 2) recs
      in \<not> length recs < 2 \<and> list_all (\<lambda>f. minute_full f \<and> psi_at_least (Fin 10) f) win \<and> minutes_apart win)"

definition mserv_rule :: "bool \<Rightarrow> advisor_input \<Rightarrow> judged" where
  "mserv_rule raised i =
     (let f = ai_facts i; m = fa_mem f; limit = (if raised then 1536 + 256 else 1536) in
      if fa_platform f \<noteq> ''linux'' then calm ''mserv_service'' AlertPush
      else if mem_total_mb m > 0 \<and> mem_available_mb m < limit then alarm ''mserv_service'' AlertPush (text_mem_left (mem_available_mb m))
      else if suspends_psi (fa_exceptions f) then calm ''mserv_service'' AlertPush
      else case ai_minutes i of
        None \<Rightarrow> Inl ''no minute history is available for the PSI part''
      | Some ms \<Rightarrow>
          (case mem_psi m of
             None \<Rightarrow> calm ''mserv_service'' AlertPush
           | Some p \<Rightarrow>
               if flt (psi_some60 p) (Fin 10) \<or> \<not> two_high (since_time (ai_now i - 4 * minute) ms) then calm ''mserv_service'' AlertPush
               else alarm ''mserv_service'' AlertPush (text_psi_high (Fin 10) 2 (psi_some60 p))))"

section \<open>Silence\<close>

definition silence_after :: int where "silence_after = 3 * minute"

definition silence_key :: "string \<Rightarrow> string" where
  "silence_key alias = ''silence:'' @ alias"

definition silence_rule :: "string \<Rightarrow> advisor_input \<Rightarrow> judged" where
  "silence_rule alias i =
     (case ai_peers i of
        None \<Rightarrow> Inl ''the pool view is not available''
      | Some ps \<Rightarrow>
          (case List.find (\<lambda>p. pd_alias p = alias) ps of
             None \<Rightarrow> Inl ''not a peer of this host''
           | Some p \<Rightarrow>
               (case pd_since p of
                  None \<Rightarrow> calm (silence_key alias) AlertPush
                | Some s \<Rightarrow>
                    if ai_now i - s < silence_after then calm (silence_key alias) AlertPush
                    else alarm (silence_key alias) AlertPush
                      (case pd_liveness p of
                         LivenessWwdDown \<Rightarrow> silence_detail_wwd_down alias
                       | LivenessHostDown \<Rightarrow> silence_detail_host_down alias
                       | _ \<Rightarrow> text_unreachable alias ((ai_now i - s) div minute)))))"

definition partner_rule :: "advisor_input \<Rightarrow> judged" where
  "partner_rule i =
     (case ai_partner_seen i of
        None \<Rightarrow> Inl ''the last read of the partner is not available''
      | Some s \<Rightarrow> let gap = ai_now i - s in
          if gap \<ge> silence_after then alarm ''partner_down'' AlertPush (text_partner (gap div minute)) else calm ''partner_down'' AlertPush)"

section \<open>Orphans\<close>

definition kind_counts :: "orphan_proc list \<Rightarrow> string" where
  "kind_counts ps =
     (let n = (\<lambda>k. length (filter (\<lambda>p. op_kind p = k) ps)) in
      join mark_and (map (\<lambda>k. text_kind_count k (int (n k)))
        (stable_sort (\<lambda>a b. if n a \<noteq> n b then n b < n a else a < b) (remdups (map op_kind ps)))))"

text \<open>The built-in \<open>max\<close> of two numbers.\<close>

definition fmax :: "float64 \<Rightarrow> float64 \<Rightarrow> float64" where
  "fmax a b = (if a = NaN \<or> b = NaN then NaN else if flt a b then b else a)"

definition orphans_rule :: "advisor_input \<Rightarrow> judged" where
  "orphans_rule i =
     (case ai_orphans i of
        None \<Rightarrow> Inl ''no process scan is available''
      | Some None \<Rightarrow> Inl ''the process scan has not run yet''
      | Some (Some r) \<Rightarrow>
          if ai_now i - or_at r > 2 * minute then Inl ''the process scan is old''
          else if or_procs r = [] \<and> or_loops r = [] then calm ''orphans'' AlertDigest
          else
            let level = (if list_ex (\<lambda>l. ai_now i - lo_since l \<ge> 10 * minute) (or_loops r) then AlertPush else AlertDigest);
                worst = fold (\<lambda>l w. fmax w (lo_rate l)) (or_loops r) (Fin 0);
                longest = fold (\<lambda>l w. max w (ai_now i - lo_since l)) (or_loops r) 0
            in alarm ''orphans'' level (join mark_semi
                 ((if or_loops r \<noteq> [] then [text_loops (int (length (or_loops r))) worst (longest div minute)] else [])
                  @ (if or_procs r \<noteq> [] then [text_orphans (int (length (or_procs r))) (kind_counts (or_procs r))] else []))))"

section \<open>Every rule\<close>

datatype advisor_rule = DiskLow | DiskFalling bool | WorkerCrashLoop | QueueBacklog | JobRequeued | QueueStalled | QueueUnclaimable
  | PressureWatch | PressureDanger | SwapGrowth int | PressureHeld | Thrash | ResidentGrowth "string list" | MservService
  | PeerSilence string | PartnerDown | Orphans

fun rule_kind :: "advisor_rule \<Rightarrow> alert_kind" where
  "rule_kind DiskLow = AlertDiskLow"
| "rule_kind (DiskFalling _) = AlertDiskFalling"
| "rule_kind WorkerCrashLoop = AlertWorkerCrash"
| "rule_kind QueueBacklog = AlertQueueBacklog"
| "rule_kind JobRequeued = AlertJobRequeued"
| "rule_kind QueueStalled = AlertQueueStalled"
| "rule_kind QueueUnclaimable = AlertQueueUnclaimable"
| "rule_kind PressureWatch = AlertPressureWatch"
| "rule_kind PressureDanger = AlertPressureDanger"
| "rule_kind (SwapGrowth _) = AlertSwapGrowth"
| "rule_kind PressureHeld = AlertPressureHeld"
| "rule_kind Thrash = AlertThrash"
| "rule_kind (ResidentGrowth _) = AlertResidentGrowth"
| "rule_kind MservService = AlertMservService"
| "rule_kind (PeerSilence _) = AlertSilence"
| "rule_kind PartnerDown = AlertSilence"
| "rule_kind Orphans = AlertOrphans"

text \<open>The key of a rule's alert: the name of its kind, but for the two kinds of silence.\<close>

definition rule_key :: "advisor_rule \<Rightarrow> string" where
  "rule_key r = (case r of PeerSilence alias \<Rightarrow> silence_key alias | PartnerDown \<Rightarrow> ''partner_down'' | _ \<Rightarrow> kind_name (rule_kind r))"

text \<open>A rule's judgement when its alert is raised or is not; the last component is the memory of the rule.\<close>

fun judge_rule :: "advisor_rule \<Rightarrow> bool \<Rightarrow> advisor_input \<Rightarrow> look_memory \<Rightarrow> judged \<times> look_memory" where
  "judge_rule DiskLow raised i mem = (disk_low_rule raised i, mem)"
| "judge_rule (DiskFalling fused) raised i mem = (disk_falling_rule fused raised i, mem)"
| "judge_rule WorkerCrashLoop raised i mem = (crash_loop_rule i, mem)"
| "judge_rule QueueBacklog raised i mem = (backlog_rule i, mem)"
| "judge_rule JobRequeued raised i mem = (requeued_rule i, mem)"
| "judge_rule QueueStalled raised i mem = (stalled_rule i, mem)"
| "judge_rule QueueUnclaimable raised i mem = unclaimable_rule i mem"
| "judge_rule PressureWatch raised i mem = (pressure_watch_rule raised i, mem)"
| "judge_rule PressureDanger raised i mem = (pressure_danger_rule raised i, mem)"
| "judge_rule (SwapGrowth threshold) raised i mem = (swap_growth_rule threshold raised i, mem)"
| "judge_rule PressureHeld raised i mem = (pressure_held_rule raised i, mem)"
| "judge_rule Thrash raised i mem = (thrash_rule i, mem)"
| "judge_rule (ResidentGrowth known) raised i mem = (resident_growth_rule known i, mem)"
| "judge_rule MservService raised i mem = (mserv_rule raised i, mem)"
| "judge_rule (PeerSilence alias) raised i mem = (silence_rule alias i, mem)"
| "judge_rule PartnerDown raised i mem = (partner_rule i, mem)"
| "judge_rule Orphans raised i mem = (orphans_rule i, mem)"

text \<open>\<open>in.Raised != nil && in.Raised(key)\<close>\<close>

definition raised_now :: "advisor_input \<Rightarrow> string \<Rightarrow> bool" where
  "raised_now i key = (case ai_raised i of None \<Rightarrow> False | Some f \<Rightarrow> f key)"

definition eval_rule :: "advisor_rule \<Rightarrow> advisor_input \<Rightarrow> look_memory \<Rightarrow> judged \<times> look_memory" where
  "eval_rule r i mem = judge_rule r (raised_now i (rule_key r)) i mem"

definition every_sample :: "advisor_rule \<Rightarrow> bool" where
  "every_sample r \<longleftrightarrow> r = PressureDanger"

section \<open>The contract of a rule\<close>

text \<open>
  What the evaluator relies on: a rule names the same alert whatever it answers, at a known level, and it is not harder to keep
  an alert than to raise it, so that what is raised stays raised and what is cleared stays cleared on the
  same input.
\<close>

definition alert_after :: "(bool \<Rightarrow> 'i \<Rightarrow> judged) \<Rightarrow> bool \<Rightarrow> 'i \<Rightarrow> bool" where
  "alert_after look raised i = (case look raised i of Inl _ \<Rightarrow> raised | Inr v \<Rightarrow> rv_holds v)"

locale alert_rule =
  fixes look :: "bool \<Rightarrow> 'i \<Rightarrow> judged" and key :: string
  assumes names: "look b i = Inr v \<Longrightarrow> rv_key v = key \<and> level_valid (rv_level v)"
    and keeps: "look False i = Inr v \<Longrightarrow> rv_holds v \<Longrightarrow> \<exists>w. look True i = Inr w \<and> rv_holds w"
    and clears: "look True i = Inr v \<Longrightarrow> \<not> rv_holds v \<Longrightarrow> \<exists>w. look False i = Inr w \<and> \<not> rv_holds w"
begin

lemma steady: "alert_after look (alert_after look b i) i = alert_after look b i"
proof (cases b)
  case True
  then show ?thesis using clears [of i] by (cases "look True i"; cases "alert_after look True i") (auto simp: alert_after_def)
next
  case False
  then show ?thesis using keeps [of i] by (cases "look False i"; cases "alert_after look False i") (auto simp: alert_after_def)
qed

lemma pulled_back: "alert_rule (\<lambda>b j. look b (f j)) key"
  using names keeps clears by unfold_locales blast+

end

text \<open>A rule that does not look at what is raised.\<close>

locale plain_rule =
  fixes rule :: "'i \<Rightarrow> judged" and key :: string
  assumes names_it: "rule i = Inr v \<Longrightarrow> rv_key v = key \<and> level_valid (rv_level v)"

sublocale plain_rule \<subseteq> alert_rule "\<lambda>_. rule" key
  using names_it by unfold_locales auto

lemma calm_alarm [simp]:
  "calm k l = Inr v \<longleftrightarrow> v = \<lparr>rv_holds = False, rv_key = k, rv_level = l, rv_detail = ''''\<rparr>"
  "alarm k l d = Inr v \<longleftrightarrow> v = \<lparr>rv_holds = True, rv_key = k, rv_level = l, rv_detail = d\<rparr>"
  by (auto simp: calm_def alarm_def)

lemmas judged_splits = option.splits if_splits list.splits prod.splits sum.splits

interpretation crash_loop: plain_rule crash_loop_rule "''worker_crash_loop''"
  by unfold_locales (auto simp: crash_loop_rule_def bind_err_Inr_iff split: judged_splits)

interpretation backlog: plain_rule backlog_rule "''queue_backlog''"
  by unfold_locales (auto simp: backlog_rule_def bind_err_Inr_iff Let_def split: judged_splits)

interpretation requeued: plain_rule requeued_rule "''job_requeued''"
  by unfold_locales (auto simp: requeued_rule_def bind_err_Inr_iff Let_def split: judged_splits)

interpretation stalled: plain_rule stalled_rule "''queue_stalled''"
proof unfold_locales
  fix i v
  assume "stalled_rule i = Inr v"
  then obtain jobs pool where "queue_input i = Inr (jobs, pool)" by (cases "queue_input i") (auto simp: stalled_rule_def)
  then show "rv_key v = ''queue_stalled'' \<and> level_valid (rv_level v)"
    using \<open>stalled_rule i = Inr v\<close> by (cases "stalled_hosts (ai_now i) pool jobs" rule: remdups_adj.cases) (auto simp: stalled_rule_def)
qed

interpretation unclaimable: plain_rule "\<lambda>im. fst (unclaimable_rule (fst im) (snd im))" "''queue_unclaimable''"
  by unfold_locales (auto simp: unclaimable_rule_def Let_def split: judged_splits)

interpretation thrash: plain_rule thrash_rule "''thrash''"
  by unfold_locales (auto simp: thrash_rule_def bind_err_Inr_iff Let_def split: judged_splits)

interpretation resident_growth: plain_rule "resident_growth_rule known" "''resident_growth''"
  by unfold_locales (auto simp: resident_growth_rule_def split: judged_splits)

interpretation silence: plain_rule "silence_rule alias" "silence_key alias"
  by unfold_locales (auto simp: silence_rule_def split: judged_splits)

interpretation partner: plain_rule partner_rule "''partner_down''"
  by unfold_locales (auto simp: partner_rule_def Let_def split: judged_splits)

interpretation orphans: plain_rule orphans_rule "''orphans''"
  by unfold_locales (auto simp: orphans_rule_def Let_def split: judged_splits)

lemma flt_12: "flt x (Fin 12) \<Longrightarrow> flt x (fadd (Fin 12) (Fin (1 / 2)))"
proof -
  have "fle (Fin 12) (fadd (Fin 12) (Fin (1 / 2)))"
    using round64_mono [of 12 "12 + 1 / 2"] round64_int [of 12] by simp
  then show "flt x (Fin 12) \<Longrightarrow> flt x (fadd (Fin 12) (Fin (1 / 2)))"
    by (cases x; cases "fadd (Fin 12) (Fin (1 / 2))") (auto simp: fle_def)
qed

text \<open>A rule with two limits, the wider one for an alert that is raised.\<close>

lemma threshold_rule:
  assumes "\<And>b i. rule b i = bind_err (m i) (\<lambda>d. if P b i d then alarm k l (t i d) else calm k l)" and "\<And>i d. P False i d \<Longrightarrow> P True i d"
    and "level_valid l"
  shows "alert_rule rule k"
proof
  fix b i v
  show "rule b i = Inr v \<Longrightarrow> rv_key v = k \<and> level_valid (rv_level v)" using assms(3) by (cases "m i") (auto simp: assms(1) split: if_splits)
  show "rule False i = Inr v \<Longrightarrow> rv_holds v \<Longrightarrow> \<exists>w. rule True i = Inr w \<and> rv_holds w"
    by (cases "m i") (auto simp: assms split: if_splits)
  show "rule True i = Inr v \<Longrightarrow> \<not> rv_holds v \<Longrightarrow> \<exists>w. rule False i = Inr w \<and> \<not> rv_holds w"
    using assms(2) by (cases "m i") (auto simp: assms(1) split: if_splits)
qed

interpretation disk_low: alert_rule disk_low_rule "''disk_low''"
  by (rule threshold_rule [where P = "\<lambda>b i d. flt (dk_free_gb d) (if b then fadd (Fin 12) (Fin (1 / 2)) else Fin 12)", OF disk_low_rule_def [unfolded Let_def]])
    (simp_all only: if_False if_True flt_12 level_valid.simps)

lemma fall_wider: "fle (Fin 2) rate \<Longrightarrow> fle (Fin (3 / 2)) rate" "flt x (Fin 10) \<Longrightarrow> flt x (Fin 12)"
  by (cases rate; simp) (cases x; simp)

definition falls :: "bool \<Rightarrow> bool \<Rightarrow> fact_disk \<Rightarrow> float64 \<Rightarrow> bool" where
  "falls fused raised d rate \<longleftrightarrow> fle (if raised then Fin (3 / 2) else Fin 2) rate
     \<and> flt (sub_mul fused (dk_free_gb d) rate (Fin 6)) (if raised then Fin 12 else Fin 10)"

lemma disk_falling_as_threshold:
  "disk_falling_rule fused b i = bind_err (volume i) (\<lambda>d.
     if flt (dk_free_gb d) (Fin 14) \<or> (case fall_rate fused i (dk_mount d) of None \<Rightarrow> False | Some rate \<Rightarrow> falls fused b d rate)
     then alarm ''disk_falling'' AlertDigest (if flt (dk_free_gb d) (Fin 14) then text_disk_left (dk_mount d) (dk_free_gb d)
       else text_disk_falls (dk_mount d) (dk_free_gb d) (the (fall_rate fused i (dk_mount d))))
     else calm ''disk_falling'' AlertDigest)"
  unfolding disk_falling_rule_def falls_def
  by (rule arg_cong [where f = "bind_err (volume i)"]) (auto simp: fun_eq_iff split: option.split)

interpretation disk_falling: alert_rule "disk_falling_rule fused" "''disk_falling''"
  by (rule threshold_rule [OF disk_falling_as_threshold]) (auto simp: falls_def fall_wider split: option.splits)

interpretation mserv: alert_rule mserv_rule "''mserv_service''"
  by unfold_locales (auto simp: mserv_rule_def Let_def split: if_splits option.splits)

interpretation pressure_held: alert_rule pressure_held_rule "''pressure_held''"
  by unfold_locales (auto simp: pressure_held_rule_def Let_def split: if_splits option.splits)

lemma swap_threshold_pos: "0 < swap_threshold_mb ram override"
  by (auto simp: swap_threshold_mb_def go_div_def)

interpretation swap_growth: alert_rule "swap_growth_rule threshold" "''swap_growth''"
proof unfold_locales
  fix i v
  show "\<exists>w. swap_growth_rule threshold True i = Inr w \<and> rv_holds w" if "swap_growth_rule threshold False i = Inr v" "rv_holds v"
    using that swap_threshold_pos by (auto simp: swap_growth_rule_def Let_def split: if_splits option.splits) (smt (verit))+
  show "\<exists>w. swap_growth_rule threshold False i = Inr w \<and> \<not> rv_holds w" if "swap_growth_rule threshold True i = Inr v" "\<not> rv_holds v"
    using that swap_threshold_pos by (auto simp: swap_growth_rule_def Let_def split: if_splits option.splits) (smt (verit))+
qed (auto simp: swap_growth_rule_def Let_def split: if_splits option.splits)

lemma since_time_later: "s \<le> t \<Longrightarrow> since_time t (since_time s fs) = since_time t fs"
  by (auto simp: since_time_def intro!: filter_cong)

lemma in_since_time [simp]: "f \<in> set (since_time t fs) \<longleftrightarrow> f \<in> set fs \<and> t \<le> fa_at f"
  by (auto simp: since_time_def)

lemma danger_window: "filter shows_danger (since_time (now - 30000) fs) \<noteq> [] \<Longrightarrow> filter shows_danger (since_time (now - 2 * minute) fs) \<noteq> []"
  by (auto simp: filter_empty_conv minute_def)

interpretation pressure_danger: alert_rule pressure_danger_rule "''pressure_danger''"
proof unfold_locales
  fix b i v
  show "pressure_danger_rule b i = Inr v \<Longrightarrow> rv_key v = ''pressure_danger'' \<and> level_valid (rv_level v)"
    by (auto simp: pressure_danger_rule_def Let_def split: option.splits list.splits if_splits)
  let ?rs = "the (ai_recent i)"
  show "pressure_danger_rule False i = Inr v \<Longrightarrow> rv_holds v \<Longrightarrow> \<exists>w. pressure_danger_rule True i = Inr w \<and> rv_holds w"
    "pressure_danger_rule True i = Inr v \<Longrightarrow> \<not> rv_holds v \<Longrightarrow> \<exists>w. pressure_danger_rule False i = Inr w \<and> \<not> rv_holds w"
    using danger_window [of "ai_now i" ?rs]
    by (cases "ai_recent i"; cases "filter shows_danger (since_time (ai_now i - 2 * minute) ?rs)";
        cases "filter shows_danger (since_time (ai_now i - 30000) ?rs)"; simp add: pressure_danger_rule_def Let_def split: if_splits)+
qed

lemma minute_has_pressure: "minute_of_pressure recs now \<Longrightarrow> pressure_since recs (now - 10 * minute)"
proof -
  assume m: "minute_of_pressure recs now"
  then obtain f where "f \<in> set (since_time (now - minute) recs)" and "list_all shows_pressure (since_time (now - minute) recs)"
    by (cases "since_time (now - minute) recs") (auto simp: minute_of_pressure_def Let_def)
  then show ?thesis by (auto simp: pressure_since_def list_ex_iff list_all_iff minute_def intro!: bexI [of _ f])
qed

interpretation pressure_watch: alert_rule pressure_watch_rule "''pressure_watch''"
  using minute_has_pressure
  by unfold_locales (auto simp: pressure_watch_rule_def Let_def split: if_splits option.splits)


lemma every_rule: "alert_rule (\<lambda>b im. fst (judge_rule r b (fst im) (snd im))) (rule_key r)"
  by (cases r) (simp_all add: rule_key_def disk_low.pulled_back disk_falling.pulled_back crash_loop.pulled_back backlog.pulled_back
      requeued.pulled_back stalled.pulled_back unclaimable.alert_rule_axioms pressure_watch.pulled_back pressure_danger.pulled_back
      swap_growth.pulled_back pressure_held.pulled_back thrash.pulled_back resident_growth.pulled_back mserv.pulled_back
      silence.pulled_back partner.pulled_back orphans.pulled_back)

section \<open>Jobs no host takes\<close>

text \<open>A look of the rule that saw the job, free to be taken, and no host for it.\<close>

definition no_host_for :: "string \<Rightarrow> advisor_input \<Rightarrow> bool" where
  "no_host_for jid i = (case queue_input i of Inl _ \<Rightarrow> False
     | Inr (jobs, pool) \<Rightarrow> list_ex (\<lambda>j. v_id j = jid \<and> nobody_takes pool j) jobs)"

definition looks :: "advisor_input list \<Rightarrow> look_memory" where
  "looks is = fold (\<lambda>i m. snd (unclaimable_rule i m)) is []"

lemma looks_snoc: "looks (is @ [i]) = snd (unclaimable_rule i (looks is))"
  by (simp add: looks_def)

lemma unclaimed_since_ge: "ai_now i \<le> unclaimed_since (ai_now i) mem j \<or> (\<exists>s. map_of mem (v_id j) = Some s \<and> s \<le> unclaimed_since (ai_now i) mem j)"
  by (auto simp: unclaimed_since_def Let_def split: option.splits)

definition run_since :: "advisor_input list \<Rightarrow> string \<Rightarrow> int \<Rightarrow> bool" where
  "run_since is jid s \<longleftrightarrow> (\<exists>as bs. is = as @ bs \<and> bs \<noteq> [] \<and> ai_now (hd bs) \<le> s \<and> list_all (no_host_for jid) bs)"

lemma run_since_mono: "run_since is jid s \<Longrightarrow> s \<le> t \<Longrightarrow> run_since is jid t"
  by (auto simp: run_since_def intro: order_trans)

lemma run_since_snoc: "run_since is jid s \<Longrightarrow> no_host_for jid i \<Longrightarrow> run_since (is @ [i]) jid s"
proof -
  assume "run_since is jid s" and n: "no_host_for jid i"
  then obtain as bs where "is = as @ bs" "bs \<noteq> []" "ai_now (hd bs) \<le> s" "list_all (no_host_for jid) bs" by (auto simp: run_since_def)
  then show ?thesis using n unfolding run_since_def by (intro exI [of _ as] exI [of _ "bs @ [i]"]) auto
qed

lemma run_since_here: "no_host_for jid i \<Longrightarrow> run_since (is @ [i]) jid (ai_now i)"
  unfolding run_since_def by (intro exI [of _ "is"] exI [of _ "[i]"]) auto

lemma run_since_look:
  assumes "\<And>s. map_of mem (v_id j) = Some s \<Longrightarrow> run_since is (v_id j) s" and "no_host_for (v_id j) i"
  shows "run_since (is @ [i]) (v_id j) (unclaimed_since (ai_now i) mem j)"
  using unclaimed_since_ge [of i mem j] assms run_since_mono run_since_here run_since_snoc by metis

lemma looks_dated: "map_of (looks is) jid = Some s \<Longrightarrow> run_since is jid s"
proof (induction "is" arbitrary: jid s rule: rev_induct)
  case (snoc i "is")
  then obtain jobs pool where q: "queue_input i = Inr (jobs, pool)"
    by (cases "queue_input i") (auto simp: looks_snoc unclaimable_rule_def)
  then obtain j where "j \<in> set jobs" "nobody_takes pool j" "jid = v_id j" "s = unclaimed_since (ai_now i) (looks is) j"
    using map_of_SomeD [OF snoc.prems] by (auto simp: looks_snoc unclaimable_rule_def Let_def)
  then show ?case using run_since_look [of "looks is" j "is" i] snoc.IH q by (auto simp: no_host_for_def list_ex_iff)
qed (simp add: looks_def)

text \<open>
  C37: a job is called unclaimable only when it has been. Whatever the looks before were, the ones that
  failed included, a job the rule names now was seen in the queue, not on hold and with no host of the
  pool to take it, at every single look of at least the last ten minutes.
\<close>

theorem unclaimable_for_ten_minutes:
  assumes "queue_input i = Inr (jobs, pool)" and "jid \<in> set (unclaimable_ids (ai_now i) (looks is) pool jobs)"
  shows "\<exists>as bs. is @ [i] = as @ bs \<and> bs \<noteq> [] \<and> 10 * minute \<le> ai_now i - ai_now (hd bs) \<and> list_all (no_host_for jid) bs"
proof -
  obtain j where j: "j \<in> set jobs" "nobody_takes pool j" "jid = v_id j" "10 * minute \<le> waited_for (ai_now i) (unclaimed_since (ai_now i) (looks is) j)"
    using assms(2) by (auto simp: unclaimable_ids_def)
  then have "run_since (is @ [i]) jid (unclaimed_since (ai_now i) (looks is) j)"
    using run_since_look [of "looks is" j "is" i] looks_dated assms(1) by (auto simp: no_host_for_def list_ex_iff)
  then obtain as bs where "is @ [i] = as @ bs" "bs \<noteq> []" "ai_now (hd bs) \<le> unclaimed_since (ai_now i) (looks is) j" "list_all (no_host_for jid) bs"
    by (auto simp: run_since_def)
  then show ?thesis using j(4) by (intro exI [of _ as] exI [of _ bs]) (auto simp: waited_for_def minute_def split: if_splits)
qed

text \<open>No job is both stalled and unclaimable: the one needs a host that takes it.\<close>

lemma stalled_is_claimable: "stalled_on now pool j = Some h \<Longrightarrow> \<not> nobody_takes pool j"
  by (auto simp: stalled_on_def nobody_takes_def list_ex_iff find_Some_iff split: if_splits)

text \<open>Looking twice at the same moment is looking once.\<close>

lemma unclaimable_again:
  assumes "\<And>jobs pool. queue_input i = Inr (jobs, pool) \<Longrightarrow> distinct (map v_id jobs)"
  shows "unclaimable_rule i (snd (unclaimable_rule i mem)) = unclaimable_rule i mem"
proof (cases "queue_input i")
  case (Inr q)
  then obtain jobs pool where q: "queue_input i = Inr (jobs, pool)" by (cases q) auto
  let ?js = "filter (nobody_takes pool) jobs" and ?m = "snd (unclaimable_rule i mem)"
  have "distinct (map v_id ?js)" using assms [OF q] by (simp add: distinct_map_filter)
  moreover have "?m = rev (map (\<lambda>j. (v_id j, unclaimed_since (ai_now i) mem j)) ?js)" using q by (simp add: unclaimable_rule_def Let_def)
  ultimately have "distinct (map fst ?m)" by (simp only: rev_map [symmetric] distinct_rev map_map comp_def fst_conv)
  then have m: "map_of ?m (v_id j) = Some (unclaimed_since (ai_now i) mem j)" if "j \<in> set ?js" for j
    using that q by (intro map_of_is_SomeI) (auto simp: unclaimable_rule_def Let_def)
  have s: "unclaimed_since (ai_now i) ?m j = unclaimed_since (ai_now i) mem j" if "j \<in> set ?js" for j
    using m [OF that] by (auto simp: unclaimed_since_def [of _ ?m] Let_def) (auto simp: unclaimed_since_def Let_def split: if_splits)
  have "unclaimable_ids (ai_now i) ?m pool jobs = unclaimable_ids (ai_now i) mem pool jobs"
    unfolding unclaimable_ids_def by (intro arg_cong [where f = "map v_id"] filter_cong refl) (use s in auto)
  moreover have "map (\<lambda>j. (v_id j, unclaimed_since (ai_now i) ?m j)) ?js = map (\<lambda>j. (v_id j, unclaimed_since (ai_now i) mem j)) ?js"
    using s by simp
  ultimately show ?thesis using q by (simp add: unclaimable_rule_def Let_def)
qed (simp add: unclaimable_rule_def)

section \<open>An example\<close>

text \<open>A queued job that asks for a label no host has, a host that crashed five times, and a daemon that reads the alerts.\<close>

definition sample_queued_job :: queued_job where
  "sample_queued_job = \<lparr>v_id = ''j_1'', v_labels = [''os:plan9''], v_class = ClassDev, v_repo = ''r'', v_created_at = 0, v_touched = 0, v_attempts = 0, v_held = False\<rparr>"

definition sample_look :: "int \<Rightarrow> advisor_input" where
  "sample_look now = \<lparr>ai_now = now, ai_facts = sample_facts, ai_minutes = None, ai_recent = None, ai_orphans = None, ai_peers = None,
     ai_partner_seen = Some now, ai_unclean_starts = Some (\<lambda>_. Inr 5), ai_queue = Some (Inr [sample_queued_job]), ai_pool = Some [],
     ai_work_root = ''/'', ai_raised = None\<rparr>"

theorem unclaimable_for_ten_minutes_witness:
  "\<exists>as bs. [sample_look 0] @ [sample_look 600000] = as @ bs \<and> bs \<noteq> [] \<and> 10 * minute \<le> ai_now (sample_look 600000) - ai_now (hd bs)
     \<and> list_all (no_host_for ''j_1'') bs"
proof (rule unclaimable_for_ten_minutes)
  show q: "queue_input (sample_look 600000) = Inr ([sample_queued_job], [])" by (simp add: queue_input_def sample_look_def)
  show "''j_1'' \<in> set (unclaimable_ids (ai_now (sample_look 600000)) (looks [sample_look 0]) [] [sample_queued_job])"
    by (simp add: looks_def unclaimable_rule_def queue_input_def sample_look_def unclaimable_ids_def nobody_takes_def sample_queued_job_def
        unclaimed_since_def waited_for_def minute_def)
qed

end
