(* ===== verification/Evaluator.thy ===== *)
theory Evaluator
  imports Advisor
begin

text \<open>
  The evaluator of the alert rules (\<open>advisor/advisor.go\<close>): a pass reads which alerts are active, lets go of the
  retired ones, judges every rule on one input and writes the verdicts to the book. The theorems join the
  rules, the evaluator, the book and the table: what a pass leaves active, and that a second pass on the same
  input changes nothing. \<open>Replay\<close> (\<open>advisor/replay.go\<close>) counts what the rules would have done.
\<close>

section \<open>A pass\<close>

record evaluator =
  ev_rules :: "(advisor_rule \<times> look_memory) list"
  ev_retired :: "string list"
  ev_last :: "(string \<times> string) list" \<comment> \<open>the last failure logged, by kind; the table under the empty name\<close>

definition new_evaluator :: "advisor_rule list \<Rightarrow> evaluator" where
  "new_evaluator rules = \<lparr>ev_rules = map (\<lambda>r. (r, [])) rules, ev_retired = [], ev_last = []\<rparr>"

definition with_retired :: "string list \<Rightarrow> evaluator \<Rightarrow> evaluator" where
  "with_retired keys e = e\<lparr>ev_retired := ev_retired e @ keys\<rparr>"

text \<open>What a pass meets: whether the table can be read and written, the input, and the book's clock at each write.\<close>

record pass_io =
  ps_active_error :: "string option"
  ps_input :: "advisor_input option"
  ps_clear_error :: "string \<Rightarrow> string option"
  ps_raise_error :: "string \<Rightarrow> string option"
  ps_clock :: "string \<Rightarrow> int"

record pass_state =
  pz_last :: "(string \<times> string) list"
  pz_table :: alerts
  pz_hints :: nat
  pz_log :: "(string \<times> string) list"

definition fail_rule :: "string \<Rightarrow> string \<Rightarrow> pass_state \<Rightarrow> pass_state" where
  "fail_rule kind msg s = s\<lparr>pz_last := AList.update kind msg (pz_last s),
     pz_log := pz_log s @ (if map_of (pz_last s) kind = Some msg then [] else [(kind, msg)])\<rparr>"

definition ok_rule :: "string \<Rightarrow> pass_state \<Rightarrow> pass_state" where
  "ok_rule kind s = s\<lparr>pz_last := AList.delete kind (pz_last s)\<rparr>"

definition alert_error_text :: "alert_error \<Rightarrow> string" where
  "alert_error_text e = (case e of Broken m \<Rightarrow> m | Unknown_kind \<Rightarrow> ''unknown alert kind'' | Unknown_level \<Rightarrow> ''unknown alert level'')"

definition write_raise :: "pass_io \<Rightarrow> alert \<Rightarrow> pass_state \<Rightarrow> string option \<times> pass_state" where
  "write_raise io a s =
     (case ps_raise_error io (al_key a) of
        Some e \<Rightarrow> (Some e, s)
      | None \<Rightarrow> (case book_raise True a (ps_clock io (al_key a)) (pz_table s) of
          (err, hint, t) \<Rightarrow> (map_option alert_error_text err, s\<lparr>pz_table := t, pz_hints := pz_hints s + (if hint then 1 else 0)\<rparr>)))"

definition write_clear :: "pass_io \<Rightarrow> string \<Rightarrow> pass_state \<Rightarrow> string option \<times> pass_state" where
  "write_clear io key s =
     (case ps_clear_error io key of
        Some e \<Rightarrow> (Some e, s)
      | None \<Rightarrow> (case book_clear True key (ps_clock io key) (pz_table s) of
          (hint, t) \<Rightarrow> (None, s\<lparr>pz_table := t, pz_hints := pz_hints s + (if hint then 1 else 0)\<rparr>)))"

definition verdict_alert :: "advisor_rule \<Rightarrow> rule_verdict \<Rightarrow> alert" where
  "verdict_alert r v = \<lparr>al_key = rv_key v, al_kind = rule_kind r, al_level = rv_level v, al_since = zero_time, al_last = zero_time,
     al_cleared_at = None, al_detail = rv_detail v\<rparr>"

definition write_verdict :: "pass_io \<Rightarrow> advisor_rule \<Rightarrow> judged \<Rightarrow> pass_state \<Rightarrow> pass_state" where
  "write_verdict io r j s =
     (case j of
        Inl e \<Rightarrow> fail_rule (kind_name (rule_kind r)) (''judge: '' @ e) s
      | Inr v \<Rightarrow>
          (case (if rv_holds v then write_raise io (verdict_alert r v) s else write_clear io (rv_key v) s) of
             (Some e, s') \<Rightarrow> fail_rule (kind_name (rule_kind r)) (''write: '' @ e) s'
           | (None, s') \<Rightarrow> ok_rule (kind_name (rule_kind r)) s'))"

fun judge_all :: "bool \<Rightarrow> pass_io \<Rightarrow> advisor_input \<Rightarrow> (advisor_rule \<times> look_memory) list \<Rightarrow> pass_state
    \<Rightarrow> (advisor_rule \<times> look_memory) list \<times> pass_state" where
  "judge_all sample_only io i [] s = ([], s)"
| "judge_all sample_only io i ((r, mem) # rs) s =
     (if sample_only \<and> \<not> every_sample r then
        (case judge_all sample_only io i rs s of (rs', s') \<Rightarrow> ((r, mem) # rs', s'))
      else case eval_rule r i mem of (j, mem') \<Rightarrow>
        (case judge_all sample_only io i rs (write_verdict io r j s) of (rs', s') \<Rightarrow> ((r, mem') # rs', s')))"

definition let_go_retired :: "pass_io \<Rightarrow> (string \<Rightarrow> bool) \<Rightarrow> string \<Rightarrow> pass_state \<Rightarrow> pass_state" where
  "let_go_retired io active key s =
     (if active key then
        (case write_clear io key s of (Some e, s') \<Rightarrow> fail_rule '''' (''clear the retired alert '' @ key @ '': '' @ e) s' | (None, s') \<Rightarrow> s')
      else s)"

definition pass :: "bool \<Rightarrow> pass_io \<Rightarrow> evaluator \<times> alerts \<Rightarrow> evaluator \<times> pass_state" where
  "pass sample_only io et =
     (case et of (e, t) \<Rightarrow>
      (let s0 = \<lparr>pz_last = ev_last e, pz_table = t, pz_hints = 0, pz_log = []\<rparr> in
       if sample_only \<and> \<not> list_ex (\<lambda>r. every_sample (fst r)) (ev_rules e) then (e, s0)
       else case ps_active_error io of
         Some err \<Rightarrow> (let s = fail_rule '''' (''read the active alerts: '' @ err) s0 in (e\<lparr>ev_last := pz_last s\<rparr>, s))
       | None \<Rightarrow>
           (let active = book_active t;
                s1 = ok_rule '''' s0;
                s2 = (if sample_only then s1 else fold (let_go_retired io active) (ev_retired e) s1)
            in case ps_input io of
                 None \<Rightarrow> (e\<lparr>ev_last := pz_last s2\<rparr>, s2)
               | Some i \<Rightarrow>
                   (case judge_all sample_only io (i\<lparr>ai_raised := Some active\<rparr>) (ev_rules e) s2 of
                      (rs, s3) \<Rightarrow> (e\<lparr>ev_rules := rs, ev_last := pz_last s3\<rparr>, s3)))))"

section \<open>Replaying the record\<close>

record replay_outcome =
  ro_episodes :: nat
  ro_held_minutes :: nat
  ro_first_at :: "int option"
  ro_last_at :: "int option"
  ro_errors :: nat

definition no_outcome :: replay_outcome where
  "no_outcome = \<lparr>ro_episodes = 0, ro_held_minutes = 0, ro_first_at = None, ro_last_at = None, ro_errors = 0\<rparr>"

text \<open>
  The input at a record: the records and the starts up to it (both oldest first, so the searches of the source
  find what is at or after a time and at or before now).
\<close>

definition replay_input :: "facts list \<Rightarrow> int list \<Rightarrow> string \<Rightarrow> (string \<Rightarrow> bool) \<Rightarrow> facts \<Rightarrow> advisor_input" where
  "replay_input up_to starts work_root raised f =
     \<lparr>ai_now = fa_at f, ai_facts = f, ai_minutes = Some up_to, ai_recent = None, ai_orphans = None, ai_peers = None, ai_partner_seen = None,
      ai_unclean_starts = Some (\<lambda>since. Inr (int (length (filter (\<lambda>s. \<not> s < since \<and> \<not> s > fa_at f) starts)))),
      ai_queue = None, ai_pool = None, ai_work_root = work_root, ai_raised = Some raised\<rparr>"

text \<open>The rules at one record; \<open>raised\<close> is the keys raised, \<open>out\<close> the outcomes by kind.\<close>

definition replay_rule :: "advisor_input \<Rightarrow> advisor_rule \<Rightarrow> (string list \<times> (alert_kind \<Rightarrow> replay_outcome)) \<Rightarrow> (string list \<times> (alert_kind \<Rightarrow> replay_outcome))" where
  "replay_rule i r st =
     (case st of (raised, out) \<Rightarrow>
      (let k = rule_kind r; u = out k in
       case fst (eval_rule r (i\<lparr>ai_raised := Some (\<lambda>key. key \<in> set raised)\<rparr>) []) of
         Inl _ \<Rightarrow> (raised, out(k := u\<lparr>ro_errors := ro_errors u + 1\<rparr>))
       | Inr v \<Rightarrow>
           if rv_holds v then
             (let fresh = (rv_key v \<notin> set raised);
                  u1 = u\<lparr>ro_held_minutes := ro_held_minutes u + 1\<rparr>;
                  u2 = (if fresh then u1\<lparr>ro_episodes := ro_episodes u + 1, ro_last_at := Some (ai_now i),
                          ro_first_at := (case ro_first_at u of None \<Rightarrow> Some (ai_now i) | x \<Rightarrow> x)\<rparr> else u1)
              in (if fresh then rv_key v # raised else raised, out(k := u2)))
           else (removeAll (rv_key v) raised, out)))"

fun replay_from :: "facts list \<Rightarrow> int list \<Rightarrow> string \<Rightarrow> advisor_rule list \<Rightarrow> facts list \<Rightarrow> (string list \<times> (alert_kind \<Rightarrow> replay_outcome))
    \<Rightarrow> (string list \<times> (alert_kind \<Rightarrow> replay_outcome))" where
  "replay_from seen starts work_root rules [] st = st"
| "replay_from seen starts work_root rules (f # fs) st =
     replay_from (seen @ [f]) starts work_root rules fs
       (fold (replay_rule (replay_input (seen @ [f]) starts work_root (\<lambda>_. False) f)) rules st)"

definition replay :: "facts list \<Rightarrow> int list \<Rightarrow> string \<Rightarrow> advisor_rule list \<Rightarrow> alert_kind \<Rightarrow> replay_outcome" where
  "replay recs starts work_root rules = snd (replay_from [] starts work_root rules recs ([], \<lambda>_. no_outcome))"

section \<open>What a pass leaves active\<close>

lemma sources_ignore_raised [simp]:
  "volume (i\<lparr>ai_raised := x\<rparr>) = volume i" "queue_input (i\<lparr>ai_raised := x\<rparr>) = queue_input i"
  "fall_rate fused (i\<lparr>ai_raised := x\<rparr>) = fall_rate fused i" "suppressed (i\<lparr>ai_raised := x\<rparr>) = suppressed i"
  by (simp_all add: volume_def queue_input_def fall_rate_def suppressed_def fun_eq_iff Let_def cong: option.case_cong)

lemma judge_ignores_raised: "judge_rule r b (i\<lparr>ai_raised := x\<rparr>) mem = judge_rule r b i mem"
  by (cases r) (simp_all add: disk_low_rule_def disk_falling_rule_def crash_loop_rule_def backlog_rule_def requeued_rule_def stalled_rule_def
      unclaimable_rule_def pressure_watch_rule_def pressure_danger_rule_def swap_growth_rule_def pressure_held_rule_def thrash_rule_def
      resident_growth_rule_def mserv_rule_def silence_rule_def partner_rule_def orphans_rule_def Let_def
      cong: option.case_cong sum.case_cong liveness.case_cong list.case_cong if_cong)

definition look_of :: "advisor_rule \<Rightarrow> bool \<Rightarrow> advisor_input \<times> look_memory \<Rightarrow> judged" where
  "look_of r b im = fst (judge_rule r b (fst im) (snd im))"

lemma rule_contract: "alert_rule (look_of r) (rule_key r)"
  using every_rule [of r] by (simp add: look_of_def [abs_def])

lemma eval_is_look: "eval_rule r (i\<lparr>ai_raised := Some active\<rparr>) mem = judge_rule r (active (rule_key r)) i mem"
  by (simp add: eval_rule_def raised_now_def judge_ignores_raised)

definition writes_ok :: "pass_io \<Rightarrow> bool" where
  "writes_ok io \<longleftrightarrow> ps_active_error io = None \<and> (\<forall>k. ps_clear_error io k = None \<and> ps_raise_error io k = None \<and> ps_clock io k \<noteq> zero_time)"

lemma rule_kind_valid: "kind_valid (rule_kind r)"
  by (cases r) simp_all

lemma rule_key_ne: "rule_key r \<noteq> ''''"
  by (cases r) (simp_all add: rule_key_def silence_key_def)

definition on :: "alerts \<Rightarrow> string \<Rightarrow> bool" where
  "on t k \<longleftrightarrow> active_row k t \<noteq> None"

lemma clear_on:
  assumes "writes_ok io" "unique_by ar_key (pz_table s)"
  shows "fst (write_clear io key s) = None \<and> unique_by ar_key (pz_table (snd (write_clear io key s)))
    \<and> on (pz_table (snd (write_clear io key s))) = (on (pz_table s))(key := False)"
  using assms(1) unique_step [OF assms(2), of "A_clear key (ps_clock io key)"] active_clear [of _ key "ps_clock io key" "pz_table s"]
  by (auto simp: write_clear_def writes_ok_def on_def fun_eq_iff split: prod.splits)

lemma raise_on:
  assumes "writes_ok io" "unique_by ar_key (pz_table s)" "length (rule_key r) \<le> max_alert_key_bytes"
    and v: "rv_key v = rule_key r" "level_valid (rv_level v)"
  shows "fst (write_raise io (verdict_alert r v) s) = None \<and> unique_by ar_key (pz_table (snd (write_raise io (verdict_alert r v) s)))
    \<and> on (pz_table (snd (write_raise io (verdict_alert r v) s))) = (on (pz_table s))(rule_key r := True)"
proof -
  let ?a = "verdict_alert r v" and ?now = "ps_clock io (rule_key r)"
  have acc: "accepted ?a ?now"
    using assms v rule_key_ne rule_kind_valid by (simp add: accepted_iff verdict_alert_def writes_ok_def)
  have e: "fst (book_raise True ?a ?now (pz_table s)) = None" by (rule raise_alert_cases [OF acc, of "pz_table s"]) auto
  have "on (snd (snd (book_raise True ?a ?now (pz_table s)))) k = ((on (pz_table s))(rule_key r := True)) k" for k
    using active_raise [OF assms(2), of k ?a ?now] acc v by (simp add: verdict_alert_def on_def)
  then have "on (snd (snd (book_raise True ?a ?now (pz_table s)))) = (on (pz_table s))(rule_key r := True)" by blast
  moreover have "al_key ?a = rule_key r" using v by (simp add: verdict_alert_def)
  ultimately show ?thesis using assms(1) e unique_step [OF assms(2), of "A_raise ?a ?now"]
    by (simp add: write_raise_def writes_ok_def case_prod_beta)
qed

lemma note_table [simp]: "pz_table (fail_rule k m s) = pz_table s" "pz_table (ok_rule k s) = pz_table s"
  by (simp_all add: fail_rule_def ok_rule_def)

text \<open>A verdict is written to the alert of its rule and to no other.\<close>

lemma verdict_on:
  assumes "writes_ok io" "unique_by ar_key (pz_table s)" "length (rule_key r) \<le> max_alert_key_bytes" and j: "j = look_of r b im"
  shows "unique_by ar_key (pz_table (write_verdict io r j s))
    \<and> on (pz_table (write_verdict io r j s)) = (case j of Inl _ \<Rightarrow> on (pz_table s) | Inr v \<Rightarrow> (on (pz_table s))(rule_key r := rv_holds v))"
proof (cases j)
  case (Inr v)
  then have v: "rv_key v = rule_key r" "level_valid (rv_level v)" using alert_rule.names [OF rule_contract] j by metis+
  then show ?thesis
    using Inr raise_on [OF assms(1-3) v] clear_on [OF assms(1,2), of "rule_key r"]
    by (auto simp: write_verdict_def split: prod.splits option.splits)
qed (use assms(2) in \<open>simp add: write_verdict_def\<close>)

lemma judge_all_on:
  assumes "writes_ok io" "unique_by ar_key (pz_table s)" "distinct (map (rule_key \<circ> fst) rs)"
    and "\<forall>r \<in> set rs. length (rule_key (fst r)) \<le> max_alert_key_bytes"
    and "judge_all False io (i\<lparr>ai_raised := Some active\<rparr>) rs s = (rs', s')"
  shows "unique_by ar_key (pz_table s') \<and> rs' = map (\<lambda>(r, m). (r, snd (judge_rule r (active (rule_key r)) i m))) rs
    \<and> (\<forall>k. on (pz_table s') k = (case List.find (\<lambda>r. rule_key (fst r) = k) rs of None \<Rightarrow> on (pz_table s) k
         | Some (r, m) \<Rightarrow> (case look_of r (active k) (i, m) of Inl _ \<Rightarrow> on (pz_table s) k | Inr v \<Rightarrow> rv_holds v)))"
  using assms(2-5)
proof (induction rs arbitrary: s rs')
  case (Cons rm rs)
  obtain r m where rm: "rm = (r, m)" by (cases rm)
  let ?j = "look_of r (active (rule_key r)) (i, m)"
  let ?s = "write_verdict io r ?j s"
  obtain rs1 where rs1: "judge_all False io (i\<lparr>ai_raised := Some active\<rparr>) rs ?s = (rs1, s')" "rs' = (r, snd (judge_rule r (active (rule_key r)) i m)) # rs1"
    using Cons.prems(4) by (auto simp: rm eval_is_look look_of_def split: prod.splits)
  have len: "length (rule_key r) \<le> max_alert_key_bytes" using Cons.prems(3) by (simp add: rm)
  note w = verdict_on [OF assms(1) Cons.prems(1) len refl [of ?j]]
  have ih: "unique_by ar_key (pz_table s') \<and> rs1 = map (\<lambda>(r, m). (r, snd (judge_rule r (active (rule_key r)) i m))) rs
      \<and> (\<forall>k. on (pz_table s') k = (case List.find (\<lambda>r. rule_key (fst r) = k) rs of None \<Rightarrow> on (pz_table ?s) k
         | Some (r, m) \<Rightarrow> (case look_of r (active k) (i, m) of Inl _ \<Rightarrow> on (pz_table ?s) k | Inr v \<Rightarrow> rv_holds v)))"
    using Cons.IH [OF _ _ _ rs1(1)] w Cons.prems by simp
  have none: "List.find (\<lambda>q. rule_key (fst q) = rule_key r) rs = None"
    unfolding find_None_iff using Cons.prems(2) by (force simp: rm)
  have "on (pz_table s') k = (case List.find (\<lambda>r. rule_key (fst r) = k) (rm # rs) of None \<Rightarrow> on (pz_table s) k
      | Some (r, m) \<Rightarrow> (case look_of r (active k) (i, m) of Inl _ \<Rightarrow> on (pz_table s) k | Inr v \<Rightarrow> rv_holds v))" for k
  proof (cases "k = rule_key r")
    case True
    then show ?thesis using ih none w by (simp add: rm split: sum.splits)
  next
    case False
    then have "on (pz_table ?s) k = on (pz_table s) k" using w by (auto split: sum.splits)
    then show ?thesis using ih False by (auto simp: rm split: option.splits prod.splits sum.splits)
  qed
  then show ?case using ih rs1 by (simp add: rm)
qed simp


lemma retired_on:
  assumes "writes_ok io" "unique_by ar_key (pz_table s)" and "\<And>k. active k \<longleftrightarrow> on t k" "\<And>k. on (pz_table s) k \<Longrightarrow> on t k"
  shows "unique_by ar_key (pz_table (fold (let_go_retired io active) keys s))
    \<and> (\<forall>k. on (pz_table (fold (let_go_retired io active) keys s)) k \<longleftrightarrow> on (pz_table s) k \<and> k \<notin> set keys)"
  using assms(2,4)
proof (induction keys arbitrary: s)
  case (Cons key keys)
  let ?s = "let_go_retired io active key s"
  have "unique_by ar_key (pz_table ?s) \<and> (\<forall>k. on (pz_table ?s) k \<longleftrightarrow> on (pz_table s) k \<and> k \<noteq> key)"
    using clear_on [OF assms(1) Cons.prems(1), of key] Cons.prems assms(3) [of key]
    by (auto simp: let_go_retired_def split: prod.splits option.splits if_splits)
  then show ?case using Cons.IH [of ?s] Cons.prems by auto
qed simp

text \<open>What the pass has of a well set up evaluator: every rule has an alert of its own, which is not retired, and its key fits.\<close>

definition well_set_up :: "evaluator \<Rightarrow> bool" where
  "well_set_up e \<longleftrightarrow> distinct (map (rule_key \<circ> fst) (ev_rules e))
     \<and> list_all (\<lambda>r. length (rule_key (fst r)) \<le> max_alert_key_bytes \<and> rule_key (fst r) \<notin> set (ev_retired e)) (ev_rules e)"

lemma on_active: "unique_by ar_key t \<Longrightarrow> book_active t k = on t k"
  by (simp add: active_key on_def)

lemma find_in_rules: "List.find P rs = Some q \<Longrightarrow> q \<in> set rs \<and> P q"
  by (induction rs) (auto split: if_splits)

lemma find_rule: "distinct (map (rule_key \<circ> fst) rs) \<Longrightarrow> (r, m) \<in> set rs \<Longrightarrow> List.find (\<lambda>q. rule_key (fst q) = rule_key r) rs = Some (r, m)"
  by (induction rs) (auto simp: image_iff)

lemma pass_on:
  assumes w: "writes_ok io" and i: "ps_input io = Some i" and u: "unique_by ar_key t" and e: "well_set_up e" and p: "pass False io (e, t) = (e', s)"
  shows "unique_by ar_key (pz_table s) \<and> ev_retired e' = ev_retired e
    \<and> ev_rules e' = map (\<lambda>(r, m). (r, snd (judge_rule r (on t (rule_key r)) i m))) (ev_rules e)
    \<and> (\<forall>k. on (pz_table s) k = (case List.find (\<lambda>r. rule_key (fst r) = k) (ev_rules e) of None \<Rightarrow> on t k \<and> k \<notin> set (ev_retired e)
         | Some (r, m) \<Rightarrow> alert_after (look_of r) (on t k) (i, m)))"
proof -
  define s1 where "s1 = ok_rule '''' \<lparr>pz_last = ev_last e, pz_table = t, pz_hints = 0, pz_log = []\<rparr>"
  define s2 where "s2 = fold (let_go_retired io (book_active t)) (ev_retired e) s1"
  have s1: "pz_table s1 = t" by (simp add: s1_def)
  have s2: "unique_by ar_key (pz_table s2) \<and> (\<forall>k. on (pz_table s2) k \<longleftrightarrow> on t k \<and> k \<notin> set (ev_retired e))"
    using retired_on [OF w, of s1 "book_active t" t "ev_retired e"] u s1 on_active [OF u] by (simp add: s2_def)
  obtain rs where rs: "judge_all False io (i\<lparr>ai_raised := Some (book_active t)\<rparr>) (ev_rules e) s2 = (rs, s)" "e' = e\<lparr>ev_rules := rs, ev_last := pz_last s\<rparr>"
    using p w i by (auto simp: pass_def Let_def writes_ok_def s2_def s1_def split: prod.splits)
  have act: "book_active t = on t" using on_active [OF u] by blast
  have j: "unique_by ar_key (pz_table s) \<and> rs = map (\<lambda>(r, m). (r, snd (judge_rule r (on t (rule_key r)) i m))) (ev_rules e)
    \<and> (\<forall>k. on (pz_table s) k = (case List.find (\<lambda>r. rule_key (fst r) = k) (ev_rules e) of None \<Rightarrow> on (pz_table s2) k
         | Some (r, m) \<Rightarrow> (case look_of r (on t k) (i, m) of Inl _ \<Rightarrow> on (pz_table s2) k | Inr v \<Rightarrow> rv_holds v)))"
    using judge_all_on [OF w conjunct1 [OF s2] _ _ rs(1) [unfolded act]] e by (simp add: well_set_up_def list_all_iff)
  have "k \<notin> set (ev_retired e)" if "List.find (\<lambda>r. rule_key (fst r) = k) (ev_rules e) = Some q" for k q
    using that e by (auto simp: well_set_up_def list_all_iff find_Some_iff)
  then have "on (pz_table s) k = (case List.find (\<lambda>r. rule_key (fst r) = k) (ev_rules e) of None \<Rightarrow> on t k \<and> k \<notin> set (ev_retired e)
      | Some (r, m) \<Rightarrow> alert_after (look_of r) (on t k) (i, m))" for k
    using j s2 by (auto simp: alert_after_def split: option.splits prod.splits sum.splits)
  then show ?thesis using j rs(2) by simp
qed


text \<open>
  C36: a pass makes the table say what its rules say. After a pass whose writes succeed, the alert of a
  rule is active exactly when the rule holds, judged with its alert as the table had it before the pass;
  an alert whose rule could not be judged is active if it was, a retired alert is not active any more,
  and every other alert is active exactly if it was.
\<close>

theorem pass_settles_every_alert:
  assumes "writes_ok io" "ps_input io = Some i" "unique_by ar_key t" "well_set_up e" "pass False io (e, t) = (e', s)"
  shows "book_active (pz_table s) k = (case List.find (\<lambda>r. rule_key (fst r) = k) (ev_rules e) of
      None \<Rightarrow> book_active t k \<and> k \<notin> set (ev_retired e)
    | Some (r, mem) \<Rightarrow> (case fst (judge_rule r (book_active t k) i mem) of Inl _ \<Rightarrow> book_active t k | Inr v \<Rightarrow> rv_holds v))"
proof -
  have "book_active t = on t" "book_active (pz_table s) = on (pz_table s)" using on_active assms(3) pass_on [OF assms] by blast+
  then show ?thesis using pass_on [OF assms] unfolding alert_after_def look_of_def by (simp only: fst_conv snd_conv)
qed

lemma look_again:
  assumes "\<And>jobs pool. queue_input i = Inr (jobs, pool) \<Longrightarrow> distinct (map v_id jobs)"
  shows "look_of r b (i, snd (judge_rule r b' i mem)) = look_of r b (i, mem)"
  using unclaimable_again [of i mem] assms by (cases r) (simp_all add: look_of_def)

text \<open>
  C35: alerts do not flap. A second pass on the same input leaves the same alerts active as the first,
  whichever they were before it: what the first pass raised is not cleared, what it cleared is not raised
  again, although a raised alert is judged by other limits, other windows and other words than one that
  is not.
\<close>

theorem second_pass_changes_nothing:
  assumes "writes_ok io" "ps_input io = Some i" "unique_by ar_key t" "well_set_up e" "pass False io (e, t) = (e', s)"
    and q: "\<And>jobs pool. queue_input i = Inr (jobs, pool) \<Longrightarrow> distinct (map v_id jobs)"
    and p: "pass False io (e', pz_table s) = (e'', s')"
  shows "book_active (pz_table s') = book_active (pz_table s)"
proof -
  note one = pass_on [OF assms(1-5)]
  have keys: "map (rule_key \<circ> fst) (ev_rules e') = map (rule_key \<circ> fst) (ev_rules e)" using one by (simp add: case_prod_beta comp_def)
  then have set: "(rule_key \<circ> fst) ` set (ev_rules e') = (rule_key \<circ> fst) ` set (ev_rules e)" by (metis set_map)
  have "\<forall>k \<in> (rule_key \<circ> fst) ` set (ev_rules e'). length k \<le> max_alert_key_bytes \<and> k \<notin> set (ev_retired e')"
    using assms(4) one unfolding set by (auto simp: well_set_up_def list_all_iff)
  then have e': "well_set_up e'" using keys assms(4) by (simp add: well_set_up_def list_all_iff)
  note two = pass_on [OF assms(1,2) conjunct1 [OF one] e' p]
  have "on (pz_table s') k = on (pz_table s) k" for k
  proof (cases "List.find (\<lambda>r. rule_key (fst r) = k) (ev_rules e)")
    case None
    then have "List.find (\<lambda>r. rule_key (fst r) = k) (ev_rules e') = None"
      using set unfolding find_None_iff by (metis (no_types, lifting) comp_apply imageE image_eqI)
    then show ?thesis using one two None by simp
  next
    case (Some rm)
    then obtain r m where r: "List.find (\<lambda>r. rule_key (fst r) = k) (ev_rules e) = Some (r, m)" "(r, m) \<in> set (ev_rules e)" "rule_key r = k"
      using find_in_rules [OF Some] by (cases rm) simp
    let ?m = "snd (judge_rule r (on t k) i m)"
    have "(r, ?m) \<in> set (ev_rules e')" using one r(2,3) by force
    then have "List.find (\<lambda>r. rule_key (fst r) = k) (ev_rules e') = Some (r, ?m)"
      using find_rule [of "ev_rules e'" r ?m] e' r(3) by (simp add: well_set_up_def)
    then have "on (pz_table s') k = alert_after (look_of r) (alert_after (look_of r) (on t k) (i, m)) (i, ?m)" using one two r(1) by simp
    also have "\<dots> = alert_after (look_of r) (alert_after (look_of r) (on t k) (i, m)) (i, m)"
      by (simp add: alert_after_def look_again [OF q])
    also have "\<dots> = on (pz_table s) k" using alert_rule.steady [OF rule_contract, of r "on t k" "(i, m)"] one r(1) by simp
    finally show ?thesis .
  qed
  then show ?thesis using conjunct1 [OF one] conjunct1 [OF two] by (intro ext) (simp add: on_active)
qed


section \<open>What a replay counts\<close>

text \<open>An alert is raised in no more minutes than it is held, and every minute is held, not held or not judged.\<close>

definition counts_ok :: "nat \<Rightarrow> replay_outcome \<Rightarrow> bool" where
  "counts_ok n u \<longleftrightarrow> ro_episodes u \<le> ro_held_minutes u \<and> ro_held_minutes u + ro_errors u \<le> n
     \<and> (ro_first_at u = None \<longleftrightarrow> ro_episodes u = 0) \<and> (ro_last_at u = None \<longleftrightarrow> ro_episodes u = 0)"

lemma replay_rule_counts:
  "counts_ok (n (rule_kind r)) (snd st (rule_kind r)) \<Longrightarrow> counts_ok (Suc (n (rule_kind r))) (snd (replay_rule i r st) (rule_kind r))"
  by (auto simp: replay_rule_def counts_ok_def Let_def split: prod.splits sum.splits option.splits)

lemma replay_rule_other: "k \<noteq> rule_kind r \<Longrightarrow> snd (replay_rule i r st) k = snd st k"
  by (auto simp: replay_rule_def Let_def split: prod.splits sum.splits)

lemma replay_minute_counts:
  "counts_ok n (snd st k) \<Longrightarrow> counts_ok (n + length (filter (\<lambda>r. rule_kind r = k) rules)) (snd (fold (replay_rule i) rules st) k)"
proof (induction rules arbitrary: st n)
  case (Cons r rules)
  show ?case
  proof (cases "rule_kind r = k")
    case True
    then show ?thesis using Cons.IH [of "Suc n" "replay_rule i r st"] replay_rule_counts [of "\<lambda>_. n" r st i] Cons.prems by simp
  next
    case False
    then show ?thesis using Cons.IH [of n "replay_rule i r st"] replay_rule_other [of k r i st] Cons.prems by simp
  qed
qed simp

lemma replay_counts: "counts_ok (length recs * length (filter (\<lambda>r. rule_kind r = k) rules)) (replay recs starts work_root rules k)"
proof -
  have "counts_ok n (snd st k) \<Longrightarrow> counts_ok (n + length recs * length (filter (\<lambda>r. rule_kind r = k) rules)) (snd (replay_from seen starts work_root rules recs st) k)"
    for n st seen
  proof (induction recs arbitrary: n st seen)
    case (Cons f fs)
    show ?case
      using Cons.IH [OF replay_minute_counts [OF Cons.prems, of rules "replay_input (seen @ [f]) starts work_root (\<lambda>_. False) f"], of "seen @ [f]"]
      by (simp add: algebra_simps)
  qed simp
  from this [of 0 "([], \<lambda>_. no_outcome)" "[]"] show ?thesis
    by (simp add: replay_def) (simp add: counts_ok_def no_outcome_def)
qed

section \<open>An example\<close>

definition sample_io :: pass_io where
  "sample_io = \<lparr>ps_active_error = None, ps_input = Some (sample_look 600000), ps_clear_error = (\<lambda>_. None), ps_raise_error = (\<lambda>_. None), ps_clock = (\<lambda>_. 600000)\<rparr>"

definition sample_evaluator :: evaluator where
  "sample_evaluator = with_retired [''disk_low''] (new_evaluator [WorkerCrashLoop, PartnerDown, QueueUnclaimable])"

lemma sample_setup: "writes_ok sample_io" "well_set_up sample_evaluator" "unique_by ar_key []" "ps_input sample_io = Some (sample_look 600000)"
  "ev_rules sample_evaluator = [(WorkerCrashLoop, []), (PartnerDown, []), (QueueUnclaimable, [])]"
  by (simp_all add: writes_ok_def sample_io_def zero_time_def well_set_up_def sample_evaluator_def with_retired_def new_evaluator_def
      rule_key_def max_alert_key_bytes_def unique_by_def)

theorem pass_settles_every_alert_witness: "book_active (pz_table (snd (pass False sample_io (sample_evaluator, [])))) ''worker_crash_loop''"
proof -
  obtain e s where p: "pass False sample_io (sample_evaluator, []) = (e, s)" by (cases "pass False sample_io (sample_evaluator, [])")
  show ?thesis
    using pass_settles_every_alert [OF sample_setup(1,4,3,2) p, of "''worker_crash_loop''"] p
    by (simp add: sample_setup(5) rule_key_def crash_loop_rule_def sample_look_def alarm_def)
qed

theorem second_pass_changes_nothing_witness:
  "book_active (pz_table (snd (pass False sample_io (fst (pass False sample_io (sample_evaluator, [])), pz_table (snd (pass False sample_io (sample_evaluator, [])))))))
     = book_active (pz_table (snd (pass False sample_io (sample_evaluator, []))))"
proof -
  obtain e s where p: "pass False sample_io (sample_evaluator, []) = (e, s)" by (cases "pass False sample_io (sample_evaluator, [])")
  obtain e' s' where p': "pass False sample_io (e, pz_table s) = (e', s')" by (cases "pass False sample_io (e, pz_table s)")
  show ?thesis
    using second_pass_changes_nothing [OF sample_setup(1,4,3,2) p _ p'] p p' by (simp add: queue_input_def sample_look_def)
qed


text \<open>The queue this host shows its rules never lists a job twice, as the flapping theorem asks of it.\<close>

lemma queued_view_distinct: "db_wf d \<Longrightarrow> distinct (map v_id (queued_view d))"
proof -
  assume "db_wf d"
  then have "distinct (map c_id (filter (\<lambda>r. c_state r = StateQueued \<and> peer_visible r) (db_jobs d)))"
    by (simp add: db_wf_def unique_by_def distinct_map_filter)
  then show ?thesis by (simp add: queued_view_def comp_def distinct_map)
qed

end
