(* ===== verification/Fault.thy ===== *)
theory Fault
  imports Facts GoPath
begin

text \<open>
  The test hooks that make one host misbehave in one known way (\<open>internal/wwd/fault/fault.go\<close>). A host without
  hooks has \<open>None\<close>. What the file system says of the owner file is an argument; the warnings are counted.
\<close>

section \<open>The settings\<close>

definition max_delay_s :: int where "max_delay_s = 3600"

record fault_config =
  fc_enabled :: bool
  fc_log_upload_fail :: bool
  fc_owner_active_file :: string
  fc_zone :: string
  fc_snapshot_delay_s :: int

definition fault_named :: "fault_config \<Rightarrow> bool" where
  "fault_named c \<longleftrightarrow> fc_log_upload_fail c \<or> fc_owner_active_file c \<noteq> '''' \<or> fc_zone c \<noteq> '''' \<or> fc_snapshot_delay_s c \<noteq> 0"

definition zone_name_valid :: "string \<Rightarrow> bool" where
  "zone_name_valid z \<longleftrightarrow> z = ''normal'' \<or> z = ''warning'' \<or> z = ''danger'' \<or> z = ''unknown''"

definition fault_validate :: "fault_config \<Rightarrow> go_error" where
  "fault_validate c =
     (if \<not> fc_enabled c then (if fault_named c then Some ''fault: a hook is named but enabled is not true'' else None)
      else first_error
        [(fc_owner_active_file c \<noteq> '''' \<and> \<not> path_is_abs (fc_owner_active_file c), ''fault.owner_active_file must be an absolute path''),
         (fc_zone c \<noteq> '''' \<and> \<not> zone_name_valid (fc_zone c), ''fault.zone is not a zone''),
         (fc_snapshot_delay_s c < 0 \<or> fc_snapshot_delay_s c > max_delay_s, ''fault.snapshot_delay_s must be 0 (off) to 3600'')])"

section \<open>The hooks\<close>

definition declared :: "fault_config option \<Rightarrow> info_fault option" where
  "declared h =
     (case h of
        None \<Rightarrow> None
      | Some c \<Rightarrow>
          if \<not> fc_enabled c then None
          else let d = \<lparr>if_log_upload_fail = fc_log_upload_fail c, if_owner_active_file = (fc_owner_active_file c \<noteq> ''''),
                        if_zone = fc_zone c, if_snapshot_delay_s = fc_snapshot_delay_s c\<rparr>
               in if \<not> if_log_upload_fail d \<and> \<not> if_owner_active_file d \<and> if_zone d = '''' \<and> if_snapshot_delay_s d = 0 then None else Some d)"

definition new_hooks :: "fault_config \<Rightarrow> fault_config option" where
  "new_hooks c = (if \<not> fc_enabled c then None else if declared (Some c) = None then None else Some c)"

text \<open>What \<open>os.Stat\<close> says of the owner file.\<close>

datatype stat_answer = Stat_there | Stat_absent | Stat_unknown

definition refuses_log_upload :: "fault_config option \<Rightarrow> bool" where
  "refuses_log_upload h = (case h of None \<Rightarrow> False | Some c \<Rightarrow> fc_enabled c \<and> fc_log_upload_fail c)"

definition names_owner_file :: "fault_config option \<Rightarrow> bool" where
  "names_owner_file h = (case h of None \<Rightarrow> False | Some c \<Rightarrow> fc_enabled c \<and> fc_owner_active_file c \<noteq> '''')"

definition owner_active :: "stat_answer \<Rightarrow> bool \<Rightarrow> fault_config option \<Rightarrow> bool" where
  "owner_active st active h = (if active \<or> \<not> names_owner_file h then active else st = Stat_there)"

definition owner_block :: "stat_answer \<Rightarrow> fault_config option \<Rightarrow> owner_state option" where
  "owner_block st h =
     (if \<not> names_owner_file h then None
      else case st of
        Stat_there \<Rightarrow> Some \<lparr>ow_active = True, ow_idle_s = 0, ow_reason = ''fault: owner_active_file''\<rparr>
      | Stat_absent \<Rightarrow> Some \<lparr>ow_active = False, ow_idle_s = 0, ow_reason = ''fault: owner_active_file absent''\<rparr>
      | Stat_unknown \<Rightarrow> None)"

definition owner_file_absent :: "stat_answer \<Rightarrow> fault_config option \<Rightarrow> bool" where
  "owner_file_absent st h \<longleftrightarrow> names_owner_file h \<and> st = Stat_absent"

definition zone_override :: "fault_config option \<Rightarrow> string" where
  "zone_override h = (case h of None \<Rightarrow> '''' | Some c \<Rightarrow> if \<not> fc_enabled c \<or> fc_zone c = '''' then '''' else fc_zone c)"

text \<open>The seconds a snapshot fetch waits.\<close>

definition snapshot_delay :: "fault_config option \<Rightarrow> int" where
  "snapshot_delay h = (case h of None \<Rightarrow> 0 | Some c \<Rightarrow> if \<not> fc_enabled c \<or> fc_snapshot_delay_s c \<le> 0 then 0 else fc_snapshot_delay_s c)"

section \<open>Hooks that are off touch nothing\<close>

text \<open>
  A host that declares no hook behaves as one without the package, whatever its settings file says, as long
  as the settings passed their check.
\<close>

lemma undeclared_is_off:
  assumes "fault_validate c = None" and "declared (new_hooks c) = None"
  shows "new_hooks c = None \<and> \<not> refuses_log_upload (new_hooks c) \<and> owner_active st active (new_hooks c) = active
    \<and> owner_block st (new_hooks c) = None \<and> zone_override (new_hooks c) = '''' \<and> snapshot_delay (new_hooks c) = 0"
  using assms by (auto simp: new_hooks_def refuses_log_upload_def owner_active_def owner_block_def names_owner_file_def zone_override_def
      snapshot_delay_def split: if_splits)

text \<open>What is declared is what is on: each hook changes something exactly when the host says so.\<close>

lemma declared_is_on:
  assumes "fault_validate c = None" and "declared (new_hooks c) = Some d"
  shows "refuses_log_upload (new_hooks c) = if_log_upload_fail d \<and> (owner_active Stat_there False (new_hooks c) \<longleftrightarrow> if_owner_active_file d)
    \<and> zone_override (new_hooks c) = if_zone d \<and> snapshot_delay (new_hooks c) = if_snapshot_delay_s d"
  using assms by (auto simp: new_hooks_def declared_def fault_validate_def refuses_log_upload_def owner_active_def names_owner_file_def
      zone_override_def snapshot_delay_def Let_def split: if_splits)

text \<open>The added reading never makes an active owner away, and an unreadable file changes neither reading.\<close>

lemma owner_active_only_adds: "active \<Longrightarrow> owner_active st active h" "\<not> owner_active Stat_unknown False h" "owner_block Stat_unknown h = None"
  by (auto simp: owner_active_def owner_block_def)

end
