(* ===== verification/Spec2Isabelle.thy ===== *)
theory Spec2Isabelle
  imports QueueRecords RunnerKeys RunnerEnding LoopSpec Qualify Evaluator Fault
begin

text \<open>
  \<^bold>\<open>The program.\<close> Purdex distributes test and build runs over a few hosts. Each host runs the daemon wwd
  (\<open>src/internal/wwd\<close>): it keeps the queue of the jobs submitted on this host in a SQL database, samples
  the host's facts (processor, memory, disks, tools), tells its peers what it could take, and runs a worker
  that takes jobs from its own queue and from its peers. This development models the decisions of that
  daemon: the queue as a whole, the meaning of the facts, the worker's choice of a job and what becomes of it, how a
  host earns its labels, and the alerts. Its parts
  interact as the code's packages do: a submission is pinned in git (\<open>snapshot\<close>) and stored (\<open>queue\<close>); a
  worker reads the queued jobs of every origin (\<open>worker/origin\<close>, \<open>worker/pick\<close>), leaves out what its labels
  (\<open>labels\<close>), its lock table (\<open>worker/locks\<close>) or its facts (\<open>derived\<close>) forbid, claims the best, and reports a
  result, which the origin compares with what other hosts reported and may offer for reuse (\<open>reuse\<close>).

  \<^bold>\<open>Conventions.\<close> A Go struct is a record with a prefix to its fields, an enumeration of strings a datatype
  with a constructor for every other string, an error the left side of a sum, a nil pointer or function
  \<^term>\<open>None\<close>. Text is bytes. Instants are whole milliseconds (what the database and the wire carry) unless a
  definition says nanoseconds; \<open>float64\<close> is IEEE double arithmetic with round-to-nearest-even (theory
  \<open>Float64\<close>; only the sign of zero is left out, which no modelled comparison sees). Sizes of lists are natural
  numbers; counters are integers, and machine words where the width matters (job ids, generations of locks).

  \<^bold>\<open>Shared ground.\<close> \<open>Prelude\<close> (collections, errors as values, bytes, keyed tables), \<open>Decimal\<close> (numbers as text),
  \<open>Float64\<close>, \<open>GoSort\<close> (the stable sort of the standard library and the contract \<open>go_order\<close> of a comparison) and
  \<open>Machine\<close> (the contract \<open>machine\<close> of an object with an invariant). \<open>Wire\<close> and \<open>Facts\<close> hold the types and
  checks of \<open>wire/*.go\<close>.

  \<^bold>\<open>The queue\<close> (\<open>queue/*.go\<close>, \<open>snapshot/git.go\<close>).
  \<^item> \<open>JobTable\<close>: the rows of \<open>schema.go\<close> with their unique keys and the revision trigger, and the invariant
    \<open>db_wf\<close>. \<open>TableInv\<close>: what a safe change of the tables is, and the lemmas on rewriting a row.
  \<^item> \<open>Snapshot\<close>: pins as git refs, git a parameter. \<open>QueueTx\<close>: \<open>queue.go\<close>, a transaction with the jobs it
    changed, the announcements, the release of pins, and the contract \<open>safe_tx\<close> that the invariant stays and an
    ended job stays as it ended; each transaction below is an interpretation of it. \<open>Claims\<close>, \<open>Results\<close>: \<open>claim.go\<close>. \<open>Submit\<close>: \<open>submit.go\<close>
    and \<open>local.go\<close>. \<open>Manage\<close>: \<open>cancel.go\<close>, \<open>position.go\<close>. \<open>Logs\<close>: \<open>log.go\<close>. \<open>Sweep\<close>: \<open>sweep.go\<close>. \<open>Outcomes\<close>:
    \<open>outcomes.go\<close>, \<open>produced.go\<close>. \<open>Reads\<close>: \<open>read.go\<close>, \<open>cursor.go\<close>, \<open>view.go\<close>. \<open>JobId\<close>: \<open>id.go\<close>. \<open>Sequencer\<close>:
    \<open>sequencer.go\<close> under interleaved writers, a step relation.
  \<^item> \<open>Effects\<close>: the contract \<open>quiet_tx\<close> of what a transaction leaves alone. \<open>Queue\<close>: every call of the package as a
    datatype, and histories of calls. \<open>Samples\<close>: the values the witnesses evaluate.
  \<^item> \<open>QueueMoves\<close>: which call may take a job from which state to which, the table \<open>may_move\<close>, and the contract
    \<open>moving_tx\<close>, which extends \<open>safe_tx\<close> by it; every transaction is interpreted again.
  \<^item> \<open>QueueSpec\<close> shows that the tables stay well formed over every history (C1), that every single call moves a job
    only as the table says and an end is final (C2), and what claims, results, lapses and superseding do (C3 to C7); releases, cancelling and placing are its plain theorems.
    \<open>QueueDelivery\<close>: the cursor misses nothing, every change is announced and passes the wire check (C8 to C10), and
    the text of a cursor reads back. \<open>QueueEffects\<close>: private jobs stay private, pins and logs live as long as they are
    needed (C11 to C13), leases, retention. \<open>QueueRecords\<close>: the order and the progress of announcements (C14, C15),
    disagreements, job ids, \<open>Ended\<close>.

  \<^bold>\<open>The worker and the pool.\<close>
  \<^item> \<open>Derived\<close> (\<open>derived/*.go\<close>), as theorems without a number: the zone and how it is left, the totals of a minute, the
    headroom and its reasons read back from a record, the fast lane. \<open>Pressure\<close> (\<open>facts/linux_pressure.go\<close>): the level
    of a Linux host moves only after it was called for long enough (C38), and then it does (C39).
  \<^item> \<open>Locks\<close> (\<open>worker/locks\<close>): keys exclude each other over every history of calls, with the table unlocked while a
    job is recorded (C16); a late release is harmless (C17); an acquisition is all or nothing.
  \<^item> \<open>Pick\<close> (\<open>worker/pick\<close>): the ranking is the promised order and scores are always comparable (C18); hosts cannot
    all leave a job to each other (C19). \<open>Labels\<close> (\<open>labels/*.go\<close>), as lemmas: labels read from
    versions, the tracker's reports, the halves of a qualification pair and the labels of a reference host. \<open>Drift\<close>
    (\<open>drift.go\<close>): which labels are taken away when the toolchain moves (C20). \<open>Reuse\<close> (\<open>reuse.go\<close>): which result
    answers a submission (C21). \<open>Ident\<close> (\<open>ident.go\<close>): keys read back. \<open>Yield\<close>
    (\<open>yield.go\<close>): the owner rule, and what \<open>ReclaimAll\<close> gives back. \<open>GoPath\<close>: the path functions of the standard library.
  \<^item> \<open>Quarantine\<close> (\<open>worker/quarantine\<close>): the jobs whose process may still run, their marker files and the keys they
    keep, over every history of calls and restarts: the markers name exactly the entries (C22), a call acts only on what
    its snapshot saw (C23), a quarantined job keeps its keys until it is retired or its very hold is let go (C24) and has them back after a restart (C25).
  \<^item> \<open>Report\<close> (\<open>worker/report\<close>): what becomes of a job that ended here: every delivery ends in the time its settings give it (C26), says the result was
    taken exactly when it was (C27), sends only results the queue accepts as well formed (C28), and an origin that fails
    is asked at doubling intervals.
  \<^item> \<open>Qualify\<close> (\<open>qualify/*.go\<close>, \<open>wire/qualification*.go\<close>): how a host earns a task label: only from a pair that agrees,
    on unchanged tools (C29); the view and the trigger agree (C30) and the view is well formed.
  \<^item> \<open>Runner\<close> (\<open>worker/runner\<close>, \<open>worker/loop/guard.go\<close>): one job from its candidate to its end, the job's goroutine and
    the one that renews its lease as two programs over one state, interleaved with the clock, the callers of \<open>Stop\<close> and
    every other user of the locks and markers. Its theorems carry no number. \<open>RunnerLease\<close>: the worker's deadline is never
    later than the origin's, and a lease that was not renewed ends the command. \<open>RunnerKeys\<close>: a command that may be
    running has its keys and its marker, and a process that dies then leaves the marker to the next one. \<open>RunnerEnding\<close>: a
    stopped job is not started, \<open>Finish\<close> is called once with how the run ended, and one schedule on which a job that
    was stopped before its command is told as run.
  \<^item> \<open>Loop\<close> (\<open>worker/loop\<close>): the worker's rounds over the parts above. \<open>LoopSpec\<close>, without numbers: a round claims only
    what it may and only the best it can get, the heavy slots are not overbooked, a job is not left to a faster host for
    ever, the record of what waits is true, and nothing of a quarantined job is told before its marker is written.
  \<^item> \<open>Fault\<close> (\<open>fault.go\<close>): the test hooks, and that a hook that is not declared changes nothing.
  \<^item> This theory joins the two sides: a job put in front in the queue is ranked before every other job of
    its host, and before every job of other hosts that is not in front there (C40).

  \<^bold>\<open>Alerts.\<close>
  \<^item> \<open>Utf8\<close>: characters of a text and where it may be cut. \<open>Alert\<close> (\<open>wire/alert*.go\<close>, \<open>store/alerts.go\<close>,
    \<open>daemon/alertbook.go\<close>): the table refines the episodes of raises and clears (C31), its list can always be read, with
    rows of a later release in it too (C32), a change of the list is announced exactly when there is one (C33), and a
    text always fits (C34).
  \<^item> \<open>AlertText\<close>: the words, byte by byte. \<open>Advisor\<close> (\<open>advisor/rules*.go\<close>): the rules, each an interpretation of the
    contract \<open>alert_rule\<close> that an alert is not harder to keep than to raise; a job is unclaimable only after ten minutes
    of looks (C37). \<open>Evaluator\<close> (\<open>advisor/advisor.go\<close>, \<open>replay.go\<close>): a pass makes the table say what the rules say
    (C36), and a second pass on the same input changes nothing: no alert flaps (C35).

  \<^bold>\<open>Parameters and bounds.\<close> Git, the file system's answer whether a directory is gone, the offer of a result, the
  hash functions, the tables of earned labels and cached results, the answers of peers, of the file system and of the
  process supervisor, the clock a delivery meets, and the histories and sources an alert rule reads are arguments of the definitions. What is asked of them is
  named: \<open>good_hash\<close> (different owners have different marker names), \<open>clock_runs\<close> (a wait takes the time it is given).
  Every recursion is structural or has a measure, but for the retries of a delivery, a \<open>partial_function\<close> that C26 shows
  to return, and the tries to write a marker, another, which returns once the worker is stopping; the only fuel is that of \<open>trim_start\<close> and of the splitting of a text into fields, the length of the text,
  of which each round takes a byte. The
  retries of a git ref write are bounded by the code's own count. The theorem on late releases holds up to \<open>2^64\<close>
  acquisitions of one table, the width of its counter. The fused multiply-subtract the compiler may use in a
  score and in the slope of a disk is an argument, so the theorems hold for both.

  \<^bold>\<open>Not modelled.\<close> JSON decoding and HTTP (the handlers pass calls on to the operations here); the migrations of
  older databases; the removal of upload leftovers and the creation of directories; process control, sampling of
  the operating system, the transfer of snapshots; the bookkeeping of the fast lane; a panic of a command's run, the waiting
  for goroutines when a worker ends (\<open>stopAll\<close>, \<open>abandon\<close>), the texts of the log; the race of a submission with the
  removal of orphan pins (calls of the queue are atomic, pin and all, so a lost race between two writers of one git ref does not
  occur); and the other subsystems of Purdex (agents, terminals, teams,
  conversations), which share no state with the job pool. SQL statements are modelled by what they do to the rows;
  an error of the database itself ends an operation without an effect and is not a branch of its own. The tickets
  of the sequencer are natural numbers, durations of the reporter unbounded integers (64-bit nanoseconds in Go, a matter
  of settings beyond a century). A quarantine marker is read back as it was written: its JSON form is exact for text that is valid UTF-8.
\<close>

section \<open>From the queue to the worker\<close>

text \<open>The worker's reading of its own host's queue: \<open>Local.Queued\<close> of \<open>worker/origin\<close>.\<close>

definition queued :: "bool \<Rightarrow> db \<Rightarrow> qerr + job list" where
  "queued for_peers d = list_jobs \<lparr>f_states = [StateQueued], f_submitter_session = '''', f_for_peers = for_peers, f_limit = 0\<rparr> d"

lemma queued_ok:
  assumes "db_wf d"
  obtains rs where "queued False d = Inr (map row_job rs)" and "set rs = {r \<in> set (db_jobs d). c_state r = StateQueued}"
proof
  let ?f = "\<lparr>f_states = [StateQueued], f_submitter_session = '''', f_for_peers = False, f_limit = 0\<rparr>"
  show "queued False d = Inr (map row_job (list_rows ?f None d))"
    by (simp add: queued_def list_jobs_def list_on_ok [OF assms])
  show "set (list_rows ?f None d) = {r \<in> set (db_jobs d). c_state r = StateQueued}"
    by (auto simp: list_rows_def limited_def filter_matches_def)
qed

lemma collect_iff:
  "c \<in> set (fst (collect srcs z)) \<longleftrightarrow>
     (\<exists>jobs. (cd_source c, Inr jobs) \<in> set srcs \<and> cd_job c \<in> set jobs
        \<and> cd_zone c = (case z of None \<Rightarrow> ZoneOther '''' | Some f \<Rightarrow> f (cd_source c)))"
proof (induction srcs)
  case (Cons s srcs)
  obtain host answer where s: "s = (host, answer)" by (cases s)
  show ?case
    using Cons.IH by (cases answer; cases c) (cases z; auto simp: s case_prod_beta Let_def image_iff)+
qed simp

text \<open>
  C40: a job put in front is tried before every other job of its host, and before all but some front jobs
  of other hosts. After \<open>SetPosition\<close> has moved a queued job to the front, a worker that reads the queues
  of any number of origins, this host's among them, and may take the job, ranks before it nothing but
  jobs of other origins that were put in front there with a place number no larger: no job of this host,
  and no job that was not put in front, whatever its class, score and wait.
\<close>

theorem front_job_is_tried_first:
  assumes wf: "db_wf d" and tx: "set_position_tx t jid PositionFront d = Inr (u, changed, d')" and j: "get_job jid d' = Inr j"
    and srcs: "distinct (map fst sources)" "(host, queued False d') \<in> set sources"
    and c: "cands = fst (collect sources zone_fn)" and k: "cand \<in> set cands" "cd_source cand = host" "cd_job cand = j" "takeable env cand"
  shows "\<exists>before sc after. rank fused cands env = before @ sc # after \<and> sc_candidate sc = cand
    \<and> (\<forall>b \<in> set before. cd_source (sc_candidate b) \<noteq> host \<and> j_manual (sc_job b) = PositionFront
         \<and> j_manual_seq (sc_job b) \<le> j_manual_seq j)"
proof -
  have "guarded (valid_request PositionFront) (set_position_tx t jid PositionFront) d = Inr (u, changed, d')" using tx by simp
  then have wf': "db_wf d'" using set_position.safe [OF wf] safe_change_wf by blast
  obtain r where r: "find_job jid d' = Some r" "c_manual r = PositionFront"
    and first: "\<And>n. n \<in> set (other_seqs PositionFront jid d') \<Longrightarrow> c_manual_seq r < n"
    by (rule set_position_outermost [OF wf disjI1 [OF refl] tx]) auto
  have jr: "j = row_job r"
    using j r(1) wf' db_wf_row [OF wf'] find_job_Some [OF r(1)] by (simp add: get_job_def get_on_def find_for_def scan_job_ok)
  obtain rs where rs: "queued False d' = Inr (map row_job rs)" "set rs = {r \<in> set (db_jobs d'). c_state r = StateQueued}"
    by (rule queued_ok [OF wf'])
  have own: "j_manual_seq j < j_manual_seq (cd_job b)"
    if b: "b \<in> set cands" "b \<noteq> cand" "cd_source b = host" "j_manual (cd_job b) = PositionFront" for b
  proof -
    obtain jobs where jobs: "(host, Inr jobs) \<in> set sources" "cd_job b \<in> set jobs"
      using b(1,3) unfolding c collect_iff by auto
    then have "jobs = map row_job rs" using srcs rs(1) by (metis eq_key_imp_eq_value sum.inject(2))
    then obtain s where s: "s \<in> set (db_jobs d')" "cd_job b = row_job s" using jobs(2) rs(2) by auto
    have "b = cand \<longleftrightarrow> cd_job b = cd_job cand"
      using b(1,3) k(1,2) unfolding c collect_iff by (cases b; cases cand; cases zone_fn) auto
    then have "s \<noteq> r" using b(2) s(2) k(3) jr by auto
    then have "c_id s \<noteq> jid" using find_job_unique [OF wf' s(1)] r(1) by auto
    then show ?thesis using first s b(4) jr by (simp add: other_seqs_iff row_job_def) blast
  qed
  have "j_manual (cd_job cand) = PositionFront" using k(3) jr r(2) by (simp add: row_job_def)
  then obtain before sc after where "rank fused cands env = before @ sc # after" "sc_candidate sc = cand"
    and b: "\<And>b. b \<in> set before \<Longrightarrow> sc_candidate b \<in> set cands \<and> sc_candidate b \<noteq> cand \<and> j_manual (sc_job b) = PositionFront
           \<and> j_manual_seq (sc_job b) \<le> j_manual_seq (cd_job cand)"
    using before_front_job [OF k(1,4), of fused] by blast
  moreover have "cd_source (sc_candidate b) \<noteq> host" if "b \<in> set before" for b
    using own [of "sc_candidate b"] b [OF that] k(3) by fastforce
  ultimately show ?thesis using k(3) by blast
qed

definition sample_env :: pick_env where
  "sample_env = \<lparr>en_now = 60000000000, en_labels = [''os:linux''], en_explicit_labels_only = False, en_speed_factor = Fin 1, en_estimate = None,
     en_locked = None, en_warm = None, en_suspended = None, en_held_off = None, en_task_held = None, en_faster = None, en_admit = None\<rparr>"

definition sample_front :: "job option" where
  "sample_front = (case set_position_tx 9 sample_id PositionFront (q_db sample_queued) of Inl _ \<Rightarrow> None
     | Inr (_, _, d) \<Rightarrow> (case get_job sample_id d of Inl _ \<Rightarrow> None | Inr j \<Rightarrow> if queued False d = Inr [j] then Some j else None))"

theorem front_job_is_tried_first_witness:
  "\<exists>d' j before sc after. set_position_tx 9 sample_id PositionFront (q_db sample_queued) = Inr ((), [sample_id], d') \<and> j_id j = sample_id
     \<and> rank True (fst (collect [(''m2'', Inr [j\<lparr>j_id := ''j_peer''\<rparr>]), (''m1'', queued False d'), (''m3'', Inl ErrNotFound)] None)) sample_env = before @ sc # after
     \<and> sc_candidate sc = \<lparr>cd_source = ''m1'', cd_zone = ZoneOther '''', cd_job = j\<rparr> \<and> (\<forall>b \<in> set before. cd_source (sc_candidate b) \<noteq> ''m1'')"
proof -
  have ok: "map_option (\<lambda>j. (j_id j, j_state j, j_labels j, j_manual j)) sample_front = Some (sample_id, StateQueued, [], PositionFront)" by code_simp
  then obtain j where j: "sample_front = Some j" "j_id j = sample_id" "j_state j = StateQueued" "j_labels j = []" "j_manual j = PositionFront" by auto
  then obtain u ch d' where tx: "set_position_tx 9 sample_id PositionFront (q_db sample_queued) = Inr (u, ch, d')"
    and g: "get_job sample_id d' = Inr j" and q: "queued False d' = Inr [j]"
    by (auto simp: sample_front_def split: sum.splits if_splits)
  have "(case set_position_tx 9 sample_id PositionFront (q_db sample_queued) of Inl _ \<Rightarrow> None | Inr y \<Rightarrow> Some (fst (snd y))) = Some [sample_id]" by code_simp
  then have "ch = [sample_id]" using tx by simp
  define cand where "cand = \<lparr>cd_source = ''m1'', cd_zone = ZoneOther '''', cd_job = j\<rparr>"
  let ?srcs = "[(''m2'', Inr [j\<lparr>j_id := ''j_peer''\<rparr>]), (''m1'', queued False d'), (''m3'', Inl ErrNotFound)]"
  have "takeable sample_env cand"
    using j by (simp add: takeable_def sample_env_def cand_def eligible_def subset_labels_def asks_def)
  moreover have "cand \<in> set (fst (collect ?srcs None))" by (simp add: q cand_def)
  moreover have "distinct (map fst ?srcs)" "(''m1'', queued False d') \<in> set ?srcs" "cd_source cand = ''m1''" "cd_job cand = j"
    by (simp_all add: cand_def)
  ultimately have "\<exists>before sc after. rank True (fst (collect ?srcs None)) sample_env = before @ sc # after \<and> sc_candidate sc = cand
    \<and> (\<forall>b \<in> set before. cd_source (sc_candidate b) \<noteq> ''m1'' \<and> j_manual (sc_job b) = PositionFront \<and> j_manual_seq (sc_job b) \<le> j_manual_seq j)"
    using front_job_is_tried_first [OF sample_wf(1) tx g _ _ refl, of ?srcs "''m1''" cand None sample_env True] by blast
  moreover have "set_position_tx 9 sample_id PositionFront (q_db sample_queued) = Inr ((), [sample_id], d')"
    using tx \<open>ch = [sample_id]\<close> by simp
  ultimately show ?thesis using j(2) unfolding cand_def by blast
qed

end
